(* ===== verification/Prelude.thy ===== *)
theory Prelude
  imports Main "HOL-Library.AList" "HOL-Library.Char_ord" "HOL-Library.List_Lexorder"
    "HOL-Library.Sublist"
begin

text \<open>
  Shared vocabulary of the development. Python values are read as follows:
  \<^item> a \<open>str\<close> is a \<^typ>\<open>string\<close> whose characters are code points (up to U+00FF);
  \<^item> a \<open>UUID\<close> is its canonical text, so \<open>str(x)\<close> is the identity and equality agrees;
  \<^item> a \<open>datetime\<close> and a \<open>timedelta\<close> are microsecond counts, of type \<^typ>\<open>int\<close>;
  \<^item> a \<open>dict\<close> is an association list in insertion order: \<open>d[k] = v\<close> overwrites in place or
    appends, which is \<^const>\<open>AList.update\<close>;
  \<^item> an exception is the \<^const>\<open>Inl\<close> side of a sum. An operation on an in-memory store returns the
    store beside its result, because what was written before a raise stays written.
  Identifiers from \<open>uuid7()\<close> and times from the clock are arguments of the operations that draw them.
\<close>

declare Let_def [simp]

section \<open>Types\<close>

type_synonym uuid = string
type_synonym time = int
type_synonym ('k, 'v) dict = "('k \<times> 'v) list"

text \<open>The JSON-like values held by payloads and error details (\<open>dict[str, object]\<close>).\<close>

datatype json = JNull | JBool bool | JInt int | JStr string
  | JList "json list" | JObj "(string \<times> json) list"

text \<open>
  \<open>engine/core/errors.py\<close>: a \<open>DdeError\<close> carries a code, a message, the retryable flag and details.
  The generated correlation id is not part of the value. \<open>KeyError\<close>, \<open>ValueError\<close> and
  \<open>AssertionError\<close> are the built-in exceptions the modelled code can let escape; \<open>IntegrityError\<close> is the database's refusal of a
  row: a duplicate key, or a row outside the session's row-level security.
\<close>

datatype dde_error =
    DdeError (error_code: string) (message: string) (retryable: bool)
      (details: "(string \<times> json) list")
  | KeyError string
  | ValueError string
  | AssertionError string
  | IntegrityError string

definition BudgetExhaustedError :: "string \<Rightarrow> (string \<times> json) list \<Rightarrow> dde_error" where
  "BudgetExhaustedError msg ds = DdeError ''BUDGET_EXCEEDED'' msg False ds"

type_synonym 'a result = "dde_error + 'a"

text \<open>
  Sequencing of operations on a state \<open>'w\<close>: the second runs on the state the first left, unless the first
  raised.
\<close>

definition and_then :: "('w \<Rightarrow> 'a result \<times> 'w) \<Rightarrow> ('a \<Rightarrow> 'w \<Rightarrow> 'b result \<times> 'w) \<Rightarrow> 'w \<Rightarrow> 'b result \<times> 'w" where
  "and_then m f w = (case m w of (Inl e, w') \<Rightarrow> (Inl e, w') | (Inr a, w') \<Rightarrow> f a w')"

lemma and_then_Inr: "and_then m f w = (Inr b, w'') \<longleftrightarrow> (\<exists>a w'. m w = (Inr a, w') \<and> f a w' = (Inr b, w''))"
  by (auto simp: and_then_def split: prod.splits sum.splits)

lemma and_then_return:
  "and_then m (\<lambda>_. Pair r) w = ((case fst (m w) of Inl e \<Rightarrow> Inl e | Inr _ \<Rightarrow> r), snd (m w))"
  by (auto simp: and_then_def split: prod.splits sum.splits)

section \<open>Dictionaries\<close>

abbreviation dict_get :: "('k, 'v) dict \<Rightarrow> 'k \<Rightarrow> 'v option" where
  "dict_get \<equiv> map_of"

abbreviation dict_set :: "'k \<Rightarrow> 'v \<Rightarrow> ('k, 'v) dict \<Rightarrow> ('k, 'v) dict" where
  "dict_set \<equiv> AList.update"

abbreviation dict_values :: "('k, 'v) dict \<Rightarrow> 'v list" where
  "dict_values \<equiv> map snd"

abbreviation dict_keys :: "('k, 'v) dict \<Rightarrow> 'k list" where
  "dict_keys \<equiv> map fst"

abbreviation dict_ok :: "('k, 'v) dict \<Rightarrow> bool" where
  "dict_ok d \<equiv> distinct (map fst d)"

text \<open>\<open>sub in text\<close> for strings: a contiguous occurrence.\<close>

fun str_contains :: "string \<Rightarrow> string \<Rightarrow> bool" where
  "str_contains sub [] = (sub = [])"
| "str_contains sub (c # cs) = (prefix sub (c # cs) \<or> str_contains sub cs)"

text \<open>\<open>sep.join(parts)\<close>.\<close>

fun str_join :: "string \<Rightarrow> string list \<Rightarrow> string" where
  "str_join sep [] = []"
| "str_join sep [x] = x"
| "str_join sep (x # y # xs) = x @ sep @ str_join sep (y # xs)"

text \<open>The decimal text of an integer, \<open>str(n)\<close>.\<close>

definition digit_char :: "nat \<Rightarrow> char" where
  "digit_char d = char_of (48 + d)"

fun nat_str :: "nat \<Rightarrow> string" where
  "nat_str n = (if n < 10 then [digit_char n] else nat_str (n div 10) @ [digit_char (n mod 10)])"

declare nat_str.simps [simp del]

definition int_str :: "int \<Rightarrow> string" where
  "int_str i = (if i < 0 then CHR ''-'' # nat_str (nat (- i)) else nat_str (nat i))"

text \<open>\<open>xs[:n]\<close>: a negative bound counts from the end.\<close>

definition py_take :: "int \<Rightarrow> 'a list \<Rightarrow> 'a list" where
  "py_take n xs = (if 0 \<le> n then take (nat n) xs else take (length xs - nat (- n)) xs)"

text \<open>\<open>s.strip()\<close>: Python's white space, as far as U+00FF.\<close>

definition is_space :: "char \<Rightarrow> bool" where
  "is_space c = (of_char c \<in> ({9, 10, 11, 12, 13, 28, 29, 30, 31, 32, 133, 160} :: nat set))"

definition strip :: "string \<Rightarrow> string" where
  "strip s = rev (dropWhile is_space (rev (dropWhile is_space s)))"

text \<open>\<open>repr\<close> of a string, which an f-string writes for \<open>!r\<close>.\<close>

definition hex_char :: "nat \<Rightarrow> char" where
  "hex_char d = (if d < 10 then char_of (48 + d) else char_of (87 + d))"

definition repr_char :: "char \<Rightarrow> char \<Rightarrow> string" where
  "repr_char q c =
    (let n = (of_char c :: nat) in
     if c = q \<or> n = 92 then [CHR 0x5C, c]
     else if n = 10 then [CHR 0x5C, CHR ''n''] else if n = 13 then [CHR 0x5C, CHR ''r'']
     else if n = 9 then [CHR 0x5C, CHR ''t'']
     else if n < 32 \<or> (127 \<le> n \<and> n \<le> 160) \<or> n = 173
     then [CHR 0x5C, CHR ''x'', hex_char (n div 16), hex_char (n mod 16)]
     else [c])"

definition py_repr :: "string \<Rightarrow> string" where
  "py_repr s =
    (let q = (if CHR 0x27 \<in> set s \<and> CHR 0x22 \<notin> set s then CHR 0x22 else CHR 0x27)
     in [q] @ concat (map (repr_char q) s) @ [q])"

text \<open>\<open>max(xs, key=f)\<close>: the first of the largest, or \<open>default=None\<close>.\<close>

fun max_by :: "('a \<Rightarrow> 'b::linorder) \<Rightarrow> 'a list \<Rightarrow> 'a option" where
  "max_by f [] = None"
| "max_by f (x # xs) =
    (case max_by f xs of None \<Rightarrow> Some x | Some y \<Rightarrow> if f y \<le> f x then Some x else Some y)"

text \<open>
  A table with a primary key is a dictionary by that key: \<open>INSERT\<close> refuses a key that is there, and
  \<open>UPDATE ... WHERE key = k\<close> rewrites the row if there is one.
\<close>

definition table_insert :: "string \<Rightarrow> 'k \<Rightarrow> 'v \<Rightarrow> ('k, 'v) dict \<Rightarrow> ('k, 'v) dict result" where
  "table_insert name k v d =
    (if k \<in> set (dict_keys d) then Inl (IntegrityError name) else Inr (dict_set k v d))"

definition table_update :: "'k \<Rightarrow> ('v \<Rightarrow> 'v) \<Rightarrow> ('k, 'v) dict \<Rightarrow> ('k, 'v) dict" where
  "table_update k f d = map (\<lambda>(k', v). (k', if k' = k then f v else v)) d"

section \<open>Clock readings and generated identifiers\<close>

text \<open>
  The outside world an engine draws from: \<open>uuid7()\<close> reads the system clock and \<open>os.urandom\<close>,
  \<open>Clock.now()\<close> the system clock. Both are sequences that the environment fixes; a run uses them up
  from the front. That \<open>uuid7()\<close> never repeats is the hypothesis \<^term>\<open>inj (ids e)\<close> where needed.
\<close>

record env =
  ids :: "nat \<Rightarrow> uuid"
  drawn :: nat
  clock :: "nat \<Rightarrow> time"
  ticks :: nat

definition uuid7 :: "env \<Rightarrow> uuid \<times> env" where
  "uuid7 e = (ids e (drawn e), e\<lparr>drawn := Suc (drawn e)\<rparr>)"

definition clock_now :: "env \<Rightarrow> time \<times> env" where
  "clock_now e = (clock e (ticks e), e\<lparr>ticks := Suc (ticks e)\<rparr>)"

definition drawn_ids :: "env \<Rightarrow> uuid set" where
  "drawn_ids e = ids e ` {..<drawn e}"

section \<open>Lemma collections\<close>

named_theorems dict_simps \<open>reading a dictionary after a write\<close>
named_theorems inv_intros \<open>operations preserve their component's invariant\<close>

lemma dict_get_set [dict_simps]: "dict_get (dict_set k v d) k' = (if k' = k then Some v else dict_get d k')"
  by (simp add: update_conv)

lemma dict_ok_set [simp, intro]: "dict_ok d \<Longrightarrow> dict_ok (dict_set k v d)"
  by (rule distinct_update)

lemma dict_keys_set: "set (dict_keys (dict_set k v d)) = insert k (set (dict_keys d))"
  by (induction d) auto

lemma dict_set_new: "k \<notin> set (dict_keys d) \<Longrightarrow> dict_set k v d = d @ [(k, v)]"
  by (induction d) auto

lemma dict_set_old:
  "dict_ok d \<Longrightarrow> k \<in> set (dict_keys d) \<Longrightarrow>
    dict_set k v d = map (\<lambda>(k', v'). (k', if k' = k then v else v')) d"
proof (induction d)
  case (Cons p d)
  obtain a b where p: "p = (a, b)" by force
  show ?case
  proof (cases "a = k")
    case True
    with Cons.prems p have "\<forall>q \<in> set d. fst q \<noteq> k" by force
    then have "map (\<lambda>(k', v'). (k', if k' = k then v else v')) d = d"
      by (induction d) auto
    with True p show ?thesis by simp
  next
    case False
    with Cons p show ?thesis by simp
  qed
qed simp

lemma in_dict_values: "dict_ok d \<Longrightarrow> v \<in> set (dict_values d) \<longleftrightarrow> (\<exists>k. dict_get d k = Some v)"
  by (force simp: map_of_eq_Some_iff)

lemma dict_get_value: "dict_get d k = Some v \<Longrightarrow> v \<in> set (dict_values d)"
  by (force dest: map_of_SomeD)

lemma dict_get_key: "dict_get d k = Some v \<Longrightarrow> k \<in> set (dict_keys d)"
  by (force dest: map_of_SomeD)

text \<open>The values after a write: the written value and the values under the other keys.\<close>

lemma dict_values_set:
  "dict_ok d \<Longrightarrow>
    set (dict_values (dict_set k v d)) = insert v {w. \<exists>k'. k' \<noteq> k \<and> dict_get d k' = Some w}"
proof -
  assume ok: "dict_ok d"
  have "w \<in> set (dict_values (dict_set k v d)) \<longleftrightarrow> w = v \<or> (\<exists>k'. k' \<noteq> k \<and> dict_get d k' = Some w)" for w
    using in_dict_values [OF dict_ok_set [OF ok], of w k v]
    by (auto simp: dict_get_set split: if_splits)
  then show ?thesis by blast
qed

lemma dict_values_set_subset: "set (dict_values (dict_set k v d)) \<subseteq> insert v (set (dict_values d))"
  by (induction d) auto

lemma dict_set_entry: "(k', v') \<in> set (dict_set k v d) \<Longrightarrow> (k' = k \<and> v' = v) \<or> (k', v') \<in> set d"
  by (induction d) (auto split: if_splits)

lemma dict_set_same_keys: "k \<in> set (dict_keys d) \<Longrightarrow> dict_keys (dict_set k v d) = dict_keys d"
  by (induction d) auto

text \<open>Overwriting two entries that are there: the order does not matter.\<close>

lemma update_swap_keys:
  "a \<noteq> b \<Longrightarrow> a \<in> set (dict_keys d) \<Longrightarrow> b \<in> set (dict_keys d) \<Longrightarrow>
    dict_set a x (dict_set b y d) = dict_set b y (dict_set a x d)"
  by (induction d) auto

lemma dict_get_None: "dict_get d k = None \<longleftrightarrow> k \<notin> set (dict_keys d)"
  by (simp add: map_of_eq_None_iff)

text \<open>
  A dictionary whose entries are stored under their own identifier \<open>f v\<close>: what every store of the engine
  is. A write keeps it so, and in the order of insertion replaces one value or appends one.
\<close>

definition keyed :: "('v \<Rightarrow> 'k) \<Rightarrow> ('k, 'v) dict \<Rightarrow> bool" where
  "keyed f d \<longleftrightarrow> dict_ok d \<and> (\<forall>(k, v) \<in> set d. f v = k)"

lemma keyed_Nil [simp, intro]: "keyed f []"
  by (simp add: keyed_def)

lemma keyed_ok: "keyed f d \<Longrightarrow> dict_ok d"
  by (simp add: keyed_def)

lemma keyed_set [inv_intros]: "keyed f d \<Longrightarrow> f v = k \<Longrightarrow> keyed f (dict_set k v d)"
  unfolding keyed_def by (blast dest: dict_set_entry intro: distinct_update)

lemma keyed_get: "keyed f d \<Longrightarrow> dict_get d k = Some v \<Longrightarrow> f v = k"
  unfolding keyed_def by (blast dest: map_of_SomeD)

lemma keyed_in: "keyed f d \<Longrightarrow> v \<in> set (dict_values d) \<Longrightarrow> dict_get d (f v) = Some v"
  unfolding keyed_def by (auto simp: in_dict_values)

lemma keyed_inj:
  "keyed f d \<Longrightarrow> v \<in> set (dict_values d) \<Longrightarrow> w \<in> set (dict_values d) \<Longrightarrow> f v = f w \<Longrightarrow> v = w"
  using keyed_in by (metis option.inject)

lemma keyed_key: "keyed f d \<Longrightarrow> v \<in> set (dict_values d) \<Longrightarrow> f v \<in> set (dict_keys d)"
  by (rule dict_get_key [OF keyed_in])

lemma keyed_keys: "keyed f d \<Longrightarrow> dict_keys d = map f (dict_values d)"
  unfolding keyed_def by auto

lemma keyed_distinct: "keyed f d \<Longrightarrow> distinct (map f (dict_values d))"
  using keyed_keys keyed_ok by metis

lemma keyed_values_old:
  assumes "keyed f d" and "k \<in> set (dict_keys d)"
  shows "dict_values (dict_set k v d) = map (\<lambda>w. if f w = k then v else w) (dict_values d)"
  using assms by (auto simp: dict_set_old keyed_def)

lemma keyed_values_new: "k \<notin> set (dict_keys d) \<Longrightarrow> dict_values (dict_set k v d) = dict_values d @ [v]"
  by (simp add: dict_set_new)

lemma filter_map_same: "(\<And>w. w \<in> set ws \<Longrightarrow> P (f w) = P w) \<Longrightarrow> filter P (map f ws) = map f (filter P ws)"
  by (induction ws) auto

lemma map_replace_same: "(\<And>w. w \<in> set ws \<Longrightarrow> f w = k \<Longrightarrow> g v = g w) \<Longrightarrow>
    map g (map (\<lambda>w. if f w = k then v else w) ws) = map g ws"
  by auto

lemma in_map_replace:
  "f v = k \<Longrightarrow> f y \<noteq> k \<Longrightarrow> y \<in> set (map (\<lambda>w. if f w = k then v else w) ws) \<longleftrightarrow> y \<in> set ws"
  by (induction ws) auto

text \<open>Overwriting an entry by one with the same \<open>g\<close> leaves the list of \<open>g\<close>'s as it was.\<close>

lemma keyed_map_same:
  assumes "keyed f d" and "dict_get d k = Some w" and "g v = g w"
  shows "map g (dict_values (dict_set k v d)) = map g (dict_values d)"
proof -
  have "k \<in> set (dict_keys d)" using assms(2) by (rule dict_get_key)
  moreover have "g v = g x" if "x \<in> set (dict_values d)" "f x = k" for x
    using keyed_in [OF assms(1) that(1)] that(2) assms by simp
  ultimately show ?thesis
    by (simp only: keyed_values_old [OF assms(1)] map_replace_same)
qed

lemma keyed_filter_same:
  assumes "keyed f d" and "dict_get d k = Some w" and "P v = P w" and "g v = g w"
  shows "map g (filter P (dict_values (dict_set k v d))) = map g (filter P (dict_values d))"
proof -
  have same: "x = w" if "x \<in> set (dict_values d)" "f x = k" for x
    using keyed_in [OF assms(1) that(1)] that(2) assms(2) by simp
  let ?f = "\<lambda>x. if f x = k then v else x"
  have "filter P (map ?f (dict_values d)) = map ?f (filter P (dict_values d))"
    by (rule filter_map_same) (use same assms(3) in auto)
  moreover have "map g (map ?f (filter P (dict_values d))) = map g (filter P (dict_values d))"
    by (rule map_replace_same) (use same assms(4) in auto)
  ultimately show ?thesis by (simp only: keyed_values_old [OF assms(1) dict_get_key [OF assms(2)]])
qed

lemma table_update_eq:
  assumes "dict_ok d" and "dict_get d k = Some v"
  shows "table_update k f d = dict_set k (f v) d"
proof -
  have v: "w = v" if "(k, w) \<in> set d" for w
    using that assms by simp
  have "k \<in> set (dict_keys d)" using assms(2) by (rule dict_get_key)
  then have "dict_set k (f v) d = map (\<lambda>(k', v'). (k', if k' = k then f v else v')) d"
    by (rule dict_set_old [OF assms(1)])
  moreover have "table_update k f d = map (\<lambda>(k', v'). (k', if k' = k then f v else v')) d"
    unfolding table_update_def by (rule map_cong [OF refl]) (use v in \<open>auto split: prod.splits\<close>)
  ultimately show ?thesis by simp
qed

lemma table_update_None: "dict_get d k = None \<Longrightarrow> table_update k f d = d"
  by (induction d) (auto simp: table_update_def split: if_splits)

lemma table_insert_new: "k \<notin> set (dict_keys d) \<Longrightarrow> table_insert name k v d = Inr (dict_set k v d)"
  by (simp add: table_insert_def)

lemma table_update_keys [simp]: "dict_keys (table_update k f d) = dict_keys d"
  by (induction d) (auto simp: table_update_def)

lemma max_by_in: "max_by f xs = Some x \<Longrightarrow> x \<in> set xs"
  by (induction xs arbitrary: x) (auto split: option.splits if_splits)

lemma max_by_None [simp]: "max_by f xs = None \<longleftrightarrow> xs = []"
  by (cases xs) (auto split: option.splits)

lemma max_by_ge: "max_by f xs = Some x \<Longrightarrow> y \<in> set xs \<Longrightarrow> f y \<le> f x"
proof (induction xs arbitrary: x)
  case (Cons a xs)
  then show ?case
    by (cases "max_by f xs") (fastforce split: if_splits)+
qed simp

text \<open>The head of \<open>ORDER BY f DESC\<close> is the first of the largest.\<close>

lemma sort_desc_hd:
  fixes f :: "'a \<Rightarrow> int"
  shows "(case sort_key (\<lambda>x. - f x) xs of [] \<Rightarrow> None | x # _ \<Rightarrow> Some x) = max_by f xs"
proof (induction xs)
  case (Cons a xs)
  then show ?case
    by (cases "sort_key (\<lambda>x. - f x) xs") (auto split: option.splits)
qed simp

lemma uuid7_fresh: "inj (ids e) \<Longrightarrow> fst (uuid7 e) \<notin> drawn_ids e"
  by (auto simp: uuid7_def drawn_ids_def inj_eq)

lemma drawn_ids_uuid7: "drawn_ids (snd (uuid7 e)) = insert (fst (uuid7 e)) (drawn_ids e)"
  by (auto simp: uuid7_def drawn_ids_def lessThan_Suc)

lemma ids_uuid7 [simp]: "ids (snd (uuid7 e)) = ids e"
  by (simp add: uuid7_def)

lemma clock_now_frame [simp]: "ids (snd (clock_now e)) = ids e" "drawn_ids (snd (clock_now e)) = drawn_ids e"
  by (simp_all add: clock_now_def drawn_ids_def)

text \<open>One environment is a later state of another.\<close>

definition env_le :: "env \<Rightarrow> env \<Rightarrow> bool" where
  "env_le e e' \<longleftrightarrow> ids e' = ids e \<and> drawn e \<le> drawn e'"

lemma drawn_ids_mono: "ids e' = ids e \<Longrightarrow> drawn e \<le> drawn e' \<Longrightarrow> drawn_ids e \<subseteq> drawn_ids e'"
  by (auto simp: drawn_ids_def)

lemma env_le_drawn: "env_le e e' \<Longrightarrow> drawn_ids e \<subseteq> drawn_ids e'"
  unfolding env_le_def using drawn_ids_mono by simp

lemma env_le_refl [simp]: "env_le e e"
  by (simp add: env_le_def)

lemma env_le_trans: "env_le a b \<Longrightarrow> env_le b c \<Longrightarrow> env_le a c"
  by (simp add: env_le_def)

lemma env_le_draws [simp]: "env_le e (snd (uuid7 e'))" "env_le e (snd (clock_now e'))" if "env_le e e'"
  using that by (simp_all add: env_le_def uuid7_def clock_now_def)

section \<open>Strings\<close>

lemma str_contains_iff: "str_contains sub s \<longleftrightarrow> (\<exists>p q. s = p @ sub @ q)"
proof (induction s)
  case Nil
  then show ?case by auto
next
  case (Cons c cs)
  show ?case
  proof
    assume "str_contains sub (c # cs)"
    then consider "prefix sub (c # cs)" | "str_contains sub cs" by auto
    then show "\<exists>p q. c # cs = p @ sub @ q"
    proof cases
      case 1
      then show ?thesis by (metis append_Nil prefixE)
    next
      case 2
      with Cons.IH obtain p q where "cs = p @ sub @ q" by blast
      then show ?thesis by (metis append_Cons)
    qed
  next
    assume "\<exists>p q. c # cs = p @ sub @ q"
    then obtain p q where e: "c # cs = p @ sub @ q" by blast
    show "str_contains sub (c # cs)"
    proof (cases p)
      case Nil
      with e have "prefix sub (c # cs)" by simp
      then show ?thesis by simp
    next
      case (Cons a p')
      with e have "cs = p' @ sub @ q" by simp
      with Cons.IH show ?thesis by auto
    qed
  qed
qed

end
