(* ===== verification/Hashing.thy ===== *)
theory Hashing
  imports Prelude
begin

unbundle bit_operations_syntax

text \<open>
  \<open>engine/core/hashing.py\<close>: SHA-256 over UTF-8 text and canonical JSON, the two functions every
  definition hash and the audit chain rest on. \<open>hashlib.sha256\<close> is the standard's algorithm (FIPS
  180-4) on 32-bit words, executable; \<open>json.dumps\<close> with sorted keys and no spaces is a printer on
  \<^typ>\<open>json\<close>. The last section proves the printer injective up to the order of object keys, which is
  what makes a hash of canonical JSON a hash of the value.
\<close>

section \<open>SHA-256\<close>

text \<open>A 32-bit word is an \<^typ>\<open>int\<close> below \<open>2 ^ 32\<close>; every addition is reduced.\<close>

type_synonym u32 = int

definition add32 :: "u32 \<Rightarrow> u32 \<Rightarrow> u32" where
  "add32 x y = (x + y) mod 4294967296"

definition sha_K :: "u32 list" where
  "sha_K = [1116352408, 1899447441, 3049323471, 3921009573, 961987163, 1508970993, 2453635748, 2870763221,
    3624381080, 310598401, 607225278, 1426881987, 1925078388, 2162078206, 2614888103, 3248222580,
    3835390401, 4022224774, 264347078, 604807628, 770255983, 1249150122, 1555081692, 1996064986,
    2554220882, 2821834349, 2952996808, 3210313671, 3336571891, 3584528711, 113926993, 338241895,
    666307205, 773529912, 1294757372, 1396182291, 1695183700, 1986661051, 2177026350, 2456956037,
    2730485921, 2820302411, 3259730800, 3345764771, 3516065817, 3600352804, 4094571909, 275423344,
    430227734, 506948616, 659060556, 883997877, 958139571, 1322822218, 1537002063, 1747873779,
    1955562222, 2024104815, 2227730452, 2361852424, 2428436474, 2756734187, 3204031479, 3329325298]"

definition sha_H0 :: "u32 list" where
  "sha_H0 = [1779033703, 3144134277, 1013904242, 2773480762, 1359893119, 2600822924, 528734635, 1541459225]"

definition rotr32 :: "nat \<Rightarrow> u32 \<Rightarrow> u32" where
  "rotr32 n x = x div 2 ^ n + (x mod 2 ^ n) * 2 ^ (32 - n)"

definition sha_s0 :: "u32 \<Rightarrow> u32" where
  "sha_s0 x = rotr32 7 x XOR rotr32 18 x XOR (x div 8)"

definition sha_s1 :: "u32 \<Rightarrow> u32" where
  "sha_s1 x = rotr32 17 x XOR rotr32 19 x XOR (x div 1024)"

text \<open>The message schedule, extended by one word at a time (newest word first).\<close>

fun sha_extend :: "nat \<Rightarrow> u32 list \<Rightarrow> u32 list" where
  "sha_extend 0 ws = ws"
| "sha_extend (Suc n) ws =
    sha_extend n ((sha_s1 (ws ! 1) + ws ! 6 + sha_s0 (ws ! 14) + ws ! 15) mod 4294967296 # ws)"

definition sha_schedule :: "u32 list \<Rightarrow> u32 list" where
  "sha_schedule ws = rev (sha_extend 48 (rev ws))"

fun sha_round :: "u32 list \<Rightarrow> u32 \<times> u32 \<Rightarrow> u32 list" where
  "sha_round [a, b, c, d, e, f, g, h] (k, w) =
    (let t1 = h + (rotr32 6 e XOR rotr32 11 e XOR rotr32 25 e) +
                ((e AND f) XOR ((4294967295 - e) AND g)) + k + w;
         t2 = (rotr32 2 a XOR rotr32 13 a XOR rotr32 22 a) + ((a AND b) XOR (a AND c) XOR (b AND c))
     in [add32 t1 t2, a, b, c, add32 d t1, e, f, g])"
| "sha_round st _ = st"

definition sha_block :: "u32 list \<Rightarrow> u32 list \<Rightarrow> u32 list" where
  "sha_block st ws = map2 add32 st (foldl sha_round st (zip sha_K (sha_schedule ws)))"

definition word_of_bytes :: "int list \<Rightarrow> u32" where
  "word_of_bytes bs = foldl (\<lambda>acc b. acc * 256 + b) 0 bs"

fun chunks :: "nat \<Rightarrow> nat \<Rightarrow> 'a list \<Rightarrow> 'a list list" where
  "chunks 0 n xs = []"
| "chunks (Suc fuel) n xs = (if xs = [] then [] else take n xs # chunks fuel n (drop n xs))"

fun be_bytes :: "nat \<Rightarrow> int \<Rightarrow> int list" where
  "be_bytes 0 n = []"
| "be_bytes (Suc w) n = be_bytes w (n div 256) @ [n mod 256]"

definition sha_pad :: "int list \<Rightarrow> int list" where
  "sha_pad bs = bs @ [128] @ replicate ((119 - length bs mod 64) mod 64) 0 @ be_bytes 8 (8 * int (length bs))"

definition sha256_words :: "int list \<Rightarrow> u32 list" where
  "sha256_words bs =
    (let p = sha_pad bs
     in foldl (\<lambda>st blk. sha_block st (map word_of_bytes (chunks 16 4 blk))) sha_H0
          (chunks (length p) 64 p))"

definition hex_char :: "int \<Rightarrow> char" where
  "hex_char d = (if d < 10 then char_of (48 + d) else char_of (87 + d))"

definition byte_hex :: "int \<Rightarrow> string" where
  "byte_hex b = [hex_char (b div 16), hex_char (b mod 16)]"

text \<open>UTF-8 of the modelled code points: one byte below U+0080, two bytes up to U+00FF.\<close>

definition utf8 :: "string \<Rightarrow> int list" where
  "utf8 s = concat (map (\<lambda>c. let n = of_char c :: int in
      if n < 128 then [n] else [192 + n div 64, 128 + n mod 64]) s)"

definition sha256_hex :: "string \<Rightarrow> string" where
  "sha256_hex s = concat (map (\<lambda>w. concat (map byte_hex (be_bytes 4 w))) (sha256_words (utf8 s)))"

section \<open>Canonical JSON\<close>

text \<open>
  \<open>json.dumps(value, sort_keys=True, separators=(",", ":"), default=str)\<close>: keys are sorted at every
  level, then the value is printed with ASCII escapes. UUIDs and times reach the printer as the
  strings \<open>default=str\<close> makes of them; floats do not occur in the hashed payloads.
\<close>

fun sort_keys :: "json \<Rightarrow> json" where
  "sort_keys (JList vs) = JList (map sort_keys vs)"
| "sort_keys (JObj kvs) = JObj (sort_key fst (map (\<lambda>(k, v). (k, sort_keys v)) kvs))"
| "sort_keys v = v"

definition json_escape :: "char \<Rightarrow> string" where
  "json_escape c =
    (if c = CHR 0x22 then [CHR 0x5C, CHR 0x22]
     else if c = CHR 0x5C then [CHR 0x5C, CHR 0x5C]
     else if c = CHR 0x0A then [CHR 0x5C, CHR ''n'']
     else if c = CHR 0x0D then [CHR 0x5C, CHR ''r'']
     else if c = CHR 0x09 then [CHR 0x5C, CHR ''t'']
     else if c = CHR 0x0C then [CHR 0x5C, CHR ''f'']
     else if c = CHR 0x08 then [CHR 0x5C, CHR ''b'']
     else if 32 \<le> (of_char c :: int) \<and> (of_char c :: int) \<le> 126 then [c]
     else [CHR 0x5C, CHR ''u'', CHR ''0'', CHR ''0''] @ byte_hex (of_char c))"

definition json_string :: "string \<Rightarrow> string" where
  "json_string s = [CHR 0x22] @ concat (map json_escape s) @ [CHR 0x22]"

fun json_print :: "json \<Rightarrow> string" where
  "json_print JNull = ''null''"
| "json_print (JBool b) = (if b then ''true'' else ''false'')"
| "json_print (JInt i) = int_str i"
| "json_print (JStr s) = json_string s"
| "json_print (JList vs) = ''['' @ str_join '','' (map json_print vs) @ '']''"
| "json_print (JObj kvs) =
    ''{'' @ str_join '','' (map (\<lambda>(k, v). json_string k @ '':'' @ json_print v) kvs) @ ''}''"

definition canonical_json :: "json \<Rightarrow> string" where
  "canonical_json v = json_print (sort_keys v)"

section \<open>Decimal numerals are unambiguous\<close>

definition is_digit_char :: "char \<Rightarrow> bool" where
  "is_digit_char c \<longleftrightarrow> 48 \<le> (of_char c :: nat) \<and> (of_char c :: nat) \<le> 57"

definition digits_value :: "string \<Rightarrow> nat" where
  "digits_value s = foldl (\<lambda>acc c. acc * 10 + (of_char c - 48)) 0 s"

lemma of_char_digit: "d < 10 \<Longrightarrow> (of_char (digit_char d) :: nat) = 48 + d"
  by (simp add: digit_char_def of_char_of)

lemma nat_str_digits: "\<forall>c \<in> set (nat_str n). is_digit_char c"
proof (induction n rule: nat_str.induct)
  case (1 n)
  show ?case
  proof (cases "n < 10")
    case True
    then show ?thesis
      by (simp add: nat_str.simps [of n] is_digit_char_def of_char_digit)
  next
    case False
    then show ?thesis
      using "1.IH" by (auto simp: nat_str.simps [of n] is_digit_char_def of_char_digit)
  qed
qed

lemma nat_str_nonempty: "nat_str n \<noteq> []"
  by (simp add: nat_str.simps [of n])

lemma digits_value_nat_str: "digits_value (nat_str n) = n"
proof (induction n rule: nat_str.induct)
  case (1 n)
  show ?case
  proof (cases "n < 10")
    case True
    then show ?thesis
      by (simp add: nat_str.simps [of n] digits_value_def of_char_digit)
  next
    case False
    have "foldl (\<lambda>acc c. acc * 10 + (of_char c - 48)) 0 (nat_str (n div 10)) = n div 10"
      using "1.IH" False by (simp add: digits_value_def)
    with False show ?thesis
      by (simp add: nat_str.simps [of n] digits_value_def of_char_digit)
  qed
qed

lemma nat_str_inj: "nat_str m = nat_str n \<Longrightarrow> m = n"
  by (metis digits_value_nat_str)

text \<open>What may follow a printed value: the end, or a separator or closing bracket.\<close>

definition json_stop :: "string \<Rightarrow> bool" where
  "json_stop x \<longleftrightarrow> x = [] \<or> hd x \<in> set '',]}''"

lemma json_stop_simps [simp]:
  "json_stop []" "json_stop (CHR '','' # x)" "json_stop (CHR '']'' # x)" "json_stop (CHR ''}'' # x)"
  by (simp_all add: json_stop_def)

lemma stop_not_digit: "json_stop x \<Longrightarrow> x \<noteq> [] \<Longrightarrow> \<not> is_digit_char (hd x)"
  by (auto simp: json_stop_def is_digit_char_def)

lemma takeWhile_digits:
  assumes "\<forall>c \<in> set s. is_digit_char c" "json_stop x"
  shows "takeWhile is_digit_char (s @ x) = s"
  using assms stop_not_digit [of x] by (cases x) (auto simp: takeWhile_append)

lemma nat_str_prefix:
  assumes "nat_str m @ x = nat_str n @ y" "json_stop x" "json_stop y"
  shows "m = n \<and> x = y"
proof -
  have "nat_str m = nat_str n"
    using assms takeWhile_digits nat_str_digits by metis
  with assms(1) show ?thesis
    using nat_str_inj by simp
qed

lemma hd_nat_str: "is_digit_char (hd (nat_str n))"
  using nat_str_digits [of n] nat_str_nonempty [of n] by simp

lemma int_str_prefix:
  assumes "int_str i @ x = int_str j @ y" "json_stop x" "json_stop y"
  shows "i = j \<and> x = y"
proof -
  have minus: "\<not> is_digit_char (CHR ''-'')" by (simp add: is_digit_char_def)
  have first: "hd (nat_str n @ z) \<noteq> CHR ''-''" for n z
    using hd_nat_str [of n] nat_str_nonempty [of n] minus by (metis hd_append2)
  show ?thesis
  proof (cases "i < 0")
    case True
    with assms(1) first [of "nat j" y] have "j < 0"
      by (cases "j < 0") (auto simp: int_str_def dest: arg_cong [where f = hd])
    with True assms nat_str_prefix [of "nat (- i)" x "nat (- j)" y] show ?thesis
      by (auto simp: int_str_def)
  next
    case False
    with assms(1) first [of "nat i" x] have "\<not> j < 0"
      by (cases "j < 0") (auto simp: int_str_def dest: arg_cong [where f = hd])
    with False assms nat_str_prefix [of "nat i" x "nat j" y] show ?thesis
      by (auto simp: int_str_def)
  qed
qed

section \<open>Escaped strings are unambiguous\<close>

lemma char_of_char_int: "char_of (of_char c :: int) = c"
  by simp

lemma of_hex_char: "0 \<le> a \<Longrightarrow> a < 16 \<Longrightarrow> of_char (hex_char a) = (if a < 10 then 48 + a else 87 + a)"
  for a :: int
  by (auto simp: hex_char_def of_char_of)

lemma hex_char_inj:
  assumes "0 \<le> a" "a < 16" "0 \<le> b" "b < 16" "hex_char a = hex_char b"
  shows "a = b"
proof -
  have "(of_char (hex_char a) :: int) = of_char (hex_char b)"
    using assms(5) by simp
  with assms(1-4) show ?thesis
    by (auto simp: of_hex_char split: if_splits)
qed

lemma byte_hex_inj:
  assumes "0 \<le> a" "a < 256" "0 \<le> b" "b < 256" "byte_hex a = byte_hex b"
  shows "a = b"
proof -
  have "a div 16 = b div 16" "a mod 16 = b mod 16"
    using assms hex_char_inj [of "a div 16" "b div 16"] hex_char_inj [of "a mod 16" "b mod 16"]
    by (auto simp: byte_hex_def)
  then show ?thesis by (metis div_mult_mod_eq)
qed

lemma of_char_int_range: "0 \<le> (of_char c :: int)" "(of_char c :: int) < 256"
proof -
  have "(of_char c :: int) = int (of_char c)" by (simp add: of_nat_of_char)
  moreover have "(of_char c :: nat) < 256" by (rule nat_of_char_less_256)
  ultimately show "0 \<le> (of_char c :: int)" "(of_char c :: int) < 256" by linarith+
qed

text \<open>An escape is a prefix code: what it stands for and where it ends can be read off.\<close>

lemma json_escape_nonempty: "json_escape c \<noteq> []"
  by (simp add: json_escape_def)

lemma hd_json_escape: "hd (json_escape c) \<noteq> CHR 0x22"
  by (auto simp: json_escape_def)

lemma json_escape_prefix:
  assumes "json_escape c @ x = json_escape d @ y"
  shows "c = d \<and> x = y"
proof -
  have long: "c = d" if "byte_hex (of_char c) = byte_hex (of_char d)"
    using byte_hex_inj [OF of_char_int_range of_char_int_range that] by simp
  have "length (byte_hex n) = 2" for n by (simp add: byte_hex_def)
  with assms long show ?thesis
    by (auto simp: json_escape_def append_eq_append_conv split: if_splits)
qed

lemma json_escapes_prefix:
  "concat (map json_escape s) @ CHR 0x22 # x = concat (map json_escape t) @ CHR 0x22 # y \<Longrightarrow>
    s = t \<and> x = y"
proof (induction s arbitrary: t)
  case Nil
  then show ?case
    using json_escape_nonempty hd_json_escape
    by (cases t) (auto, metis hd_append2 list.sel(1))
next
  case (Cons c s)
  show ?case
  proof (cases t)
    case Nil
    with Cons.prems show ?thesis
      using json_escape_nonempty [of c] hd_json_escape [of c] by (auto, metis hd_append2 list.sel(1))
  next
    case (Cons d t')
    with Cons.prems have "json_escape c @ concat (map json_escape s) @ CHR 0x22 # x
        = json_escape d @ concat (map json_escape t') @ CHR 0x22 # y" by simp
    then have "c = d" "concat (map json_escape s) @ CHR 0x22 # x = concat (map json_escape t') @ CHR 0x22 # y"
      using json_escape_prefix by blast+
    with Cons.IH [of t'] Cons show ?thesis by simp
  qed
qed

lemma json_string_prefix: "json_string s @ x = json_string t @ y \<Longrightarrow> s = t \<and> x = y"
  using json_escapes_prefix [of s x t y] by (simp add: json_string_def)

section \<open>Printed values are unambiguous\<close>

lemma hd_int_str: "hd (int_str i) = CHR ''-'' \<or> is_digit_char (hd (int_str i))"
  using hd_nat_str by (simp add: int_str_def)

lemma int_str_nonempty: "int_str i \<noteq> []"
  using nat_str_nonempty by (simp add: int_str_def)

lemma json_print_nonempty [simp]: "json_print v \<noteq> []"
  by (cases v) (simp_all add: json_string_def int_str_nonempty)

text \<open>The first character tells the constructors apart.\<close>

fun json_lead :: "json \<Rightarrow> char set" where
  "json_lead JNull = {CHR ''n''}"
| "json_lead (JBool b) = (if b then {CHR ''t''} else {CHR ''f''})"
| "json_lead (JInt i) = {c. c = CHR ''-'' \<or> is_digit_char c}"
| "json_lead (JStr s) = {CHR 0x22}"
| "json_lead (JList vs) = {CHR ''[''}"
| "json_lead (JObj kvs) = {CHR ''{''}"

lemma json_print_lead: "hd (json_print v) \<in> json_lead v"
  using hd_int_str by (cases v) (simp_all add: json_string_def)

lemma json_print_lead_append: "json_print v @ x = json_print w @ y \<Longrightarrow> json_lead v \<inter> json_lead w \<noteq> {}"
  using json_print_lead [of v] json_print_lead [of w] by (metis IntI emptyE hd_append2 json_print_nonempty)

lemma json_lead_bracket: "CHR '']'' \<notin> json_lead v" "CHR ''}'' \<notin> json_lead v" "CHR '','' \<notin> json_lead v"
  by (cases v; simp add: is_digit_char_def)+

text \<open>Comma-separated items, each self-delimiting, followed by a closing bracket.\<close>

lemma str_join_split:
  assumes "z = CHR '']'' \<or> z = CHR ''}''"
  obtains t where "json_stop t" "str_join '','' (map pr (u # us)) @ z # q = pr u @ t"
    "t = (if us = [] then z # q else CHR '','' # str_join '','' (map pr us) @ z # q)"
  using assms by (cases us) auto

lemma hd_join:
  assumes "z = CHR '']'' \<or> z = CHR ''}''" "pr u \<noteq> []"
  shows "hd (str_join '','' (map pr (u # us)) @ z # q) = hd (pr u)"
  using assms by (metis hd_append2 str_join_split)

lemma str_join_prefix:
  assumes step: "\<And>v w x y. v \<in> set vs \<Longrightarrow> w \<in> set ws \<Longrightarrow> json_stop x \<Longrightarrow> json_stop y \<Longrightarrow>
      pr v @ x = pr w @ y \<Longrightarrow> v = w \<and> x = y"
    and ne: "\<And>v. pr v \<noteq> [] \<and> hd (pr v) \<noteq> z" and z: "z = CHR '']'' \<or> z = CHR ''}''"
    and eq: "str_join '','' (map pr vs) @ z # x = str_join '','' (map pr ws) @ z # y"
  shows "vs = ws \<and> x = y"
  using step eq
proof (induction vs arbitrary: ws)
  case Nil
  show ?case
  proof (cases ws)
    case (Cons w ws')
    with Nil.prems(2) hd_join [OF z, of pr w ws' y] ne [of w] have "hd (pr w) = z"
      by (metis append_Nil list.sel(1) list.simps(8) str_join.simps(1))
    with ne show ?thesis by blast
  qed (use Nil.prems in simp)
next
  case (Cons v vs)
  show ?case
  proof (cases ws)
    case Nil
    with Cons.prems(2) hd_join [OF z, of pr v vs x] ne [of v] have "hd (pr v) = z"
      by (metis append_Nil list.sel(1) list.simps(8) str_join.simps(1))
    with ne show ?thesis by blast
  next
    case ws: (Cons w ws')
    obtain t where t: "json_stop t" "str_join '','' (map pr (v # vs)) @ z # x = pr v @ t"
        "t = (if vs = [] then z # x else CHR '','' # str_join '','' (map pr vs) @ z # x)"
      by (rule str_join_split [OF z])
    obtain u where u: "json_stop u" "str_join '','' (map pr (w # ws')) @ z # y = pr w @ u"
        "u = (if ws' = [] then z # y else CHR '','' # str_join '','' (map pr ws') @ z # y)"
      by (rule str_join_split [OF z])
    have "pr v @ t = pr w @ u" using Cons.prems(2) t(2) u(2) ws by simp
    then have eqs: "v = w" "t = u"
      using Cons.prems(1) [of v w t u] t(1) u(1) ws by simp_all
    with t(3) u(3) z have rest: "str_join '','' (map pr vs) @ z # x = str_join '','' (map pr ws') @ z # y"
      by (auto split: if_splits)
    have "vs = ws' \<and> x = y"
      by (rule Cons.IH [OF _ rest], rule Cons.prems(1)) (simp_all add: ws)
    with ws eqs(1) show ?thesis by simp
  qed
qed

lemma json_print_prefix:
  "json_print v @ x = json_print w @ y \<Longrightarrow> json_stop x \<Longrightarrow> json_stop y \<Longrightarrow> v = w \<and> x = y"
proof (induction v arbitrary: w x y rule: json_print.induct)
  case 1
  then show ?case using json_print_lead_append [OF 1(1)] by (cases w) (auto simp: is_digit_char_def split: if_splits)
next
  case (2 b)
  then show ?case using json_print_lead_append [OF 2(1)]
    by (cases w) (auto simp: is_digit_char_def split: if_splits)
next
  case (3 i)
  then show ?case using json_print_lead_append [OF 3(1)] int_str_prefix [of i x _ y]
    by (cases w) (auto simp: is_digit_char_def split: if_splits)
next
  case (4 s)
  then show ?case using json_print_lead_append [OF 4(1)] json_string_prefix [of s x _ y]
    by (cases w) (auto simp: is_digit_char_def split: if_splits)
next
  case (5 vs)
  then obtain ws where w: "w = JList ws"
    using json_print_lead_append [OF "5.prems"(1)] by (cases w) (auto simp: is_digit_char_def split: if_splits)
  have ne: "json_print u \<noteq> [] \<and> hd (json_print u) \<noteq> CHR '']''" for u
    using json_print_lead [of u] json_lead_bracket [of u] by auto
  have "vs = ws \<and> x = y"
    by (rule str_join_prefix [where pr = json_print and z = "CHR '']''"])
      (use "5.IH" "5.prems"(1) w ne in auto)
  with w show ?case by simp
next
  case (6 kvs)
  let ?pr = "\<lambda>(k, v). json_string k @ '':'' @ json_print v"
  obtain ws where w: "w = JObj ws"
    using json_print_lead_append [OF "6.prems"(1)] by (cases w) (auto simp: is_digit_char_def split: if_splits)
  have ne: "?pr u \<noteq> [] \<and> hd (?pr u) \<noteq> CHR ''}''" for u
    by (cases u) (simp add: json_string_def)
  have step: "p = q \<and> x = y"
    if "p \<in> set kvs" "json_stop x" "json_stop y" "?pr p @ x = ?pr q @ y" for p q x y
  proof -
    obtain k u where p: "p = (k, u)" by force
    obtain l t where q: "q = (l, t)" by force
    have "k = l" "json_print u @ x = json_print t @ y"
      using that(4) p q json_string_prefix [of k "'':'' @ json_print u @ x" l "'':'' @ json_print t @ y"]
      by auto
    with "6.IH" [of p k u x t y] that p q show ?thesis by simp
  qed
  have "kvs = ws \<and> x = y"
    by (rule str_join_prefix [where pr = ?pr and z = "CHR ''}''"])
      (use step "6.prems"(1) w ne in auto)
  with w show ?case by simp
qed

lemma canonical_json_sorted_iff: "canonical_json a = canonical_json b \<longleftrightarrow> sort_keys a = sort_keys b"
  using json_print_prefix [of "sort_keys a" "[]" "sort_keys b" "[]"] by (auto simp: canonical_json_def)


end
