(* ===== verification/Lifecycle.thy ===== *)
theory Lifecycle
  imports Prelude
begin

text \<open>
  The status machines. \<open>engine/core/state_machine.py\<close> guards every status column of the engine with one
  function over a transition table; each module declares its own table in a \<open>states.py\<close>. This theory
  holds the guard, the tables, and the locale of what a lifecycle table promises its clients: targets
  are known states, the terminal states are exactly the stuck ones, and every state can still finish.
  The locale is interpreted on each table. Statuses are the strings the code uses.
\<close>

section \<open>The transition guard\<close>

definition succs :: "(string, string list) dict \<Rightarrow> string \<Rightarrow> string list" where
  "succs table s = (case dict_get table s of None \<Rightarrow> [] | Some ts \<Rightarrow> ts)"

definition illegal_transition :: "string \<Rightarrow> string \<Rightarrow> dde_error" where
  "illegal_transition current target =
    DdeError ''VERSION_CONFLICT'' (''Illegal state transition '' @ current @ '' -> '' @ target) False
      [(''from'', JStr current), (''to'', JStr target)]"

definition transition :: "string \<Rightarrow> string \<Rightarrow> (string, string list) dict \<Rightarrow> string result" where
  "transition current target table =
    (if target \<in> set (succs table current) then Inr target else Inl (illegal_transition current target))"

text \<open>A sequence of requested targets, each guarded; the first refusal ends it.\<close>

fun run_transitions :: "(string, string list) dict \<Rightarrow> string \<Rightarrow> string list \<Rightarrow> string result" where
  "run_transitions table s [] = Inr s"
| "run_transitions table s (t # ts) =
    (case transition s t table of Inl e \<Rightarrow> Inl e | Inr s' \<Rightarrow> run_transitions table s' ts)"

text \<open>Some stuck state is at most \<open>n\<close> legal transitions away.\<close>

fun can_finish :: "nat \<Rightarrow> (string, string list) dict \<Rightarrow> string \<Rightarrow> bool" where
  "can_finish 0 table s = (succs table s = [])"
| "can_finish (Suc n) table s = (succs table s = [] \<or> list_ex (can_finish n table) (succs table s))"

section \<open>The tables\<close>

text \<open>\<open>engine/missions/states.py\<close> and \<open>engine/missions/attempts.py\<close>.\<close>

definition MISSION_TRANSITIONS :: "(string, string list) dict" where
  "MISSION_TRANSITIONS =
   [(''CREATED'', [''ACTIVE'', ''CANCELLED'']),
    (''ACTIVE'', [''PARTIAL'', ''PAUSED'', ''COMPLETED'', ''FAILED'', ''CANCELLED'']),
    (''PARTIAL'', [''ACTIVE'', ''PAUSED'', ''COMPLETED'', ''FAILED'', ''CANCELLED'']),
    (''PAUSED'', [''ACTIVE'', ''PARTIAL'', ''CANCELLED'', ''FAILED'']),
    (''COMPLETED'', []),
    (''FAILED'', []),
    (''CANCELLED'', [])]"

definition GRAPH_TRANSITIONS :: "(string, string list) dict" where
  "GRAPH_TRANSITIONS =
   [(''DRAFT'', [''VALIDATING'', ''REJECTED'']),
    (''VALIDATING'', [''APPROVED'', ''REJECTED'']),
    (''APPROVED'', [''ACTIVE'']),
    (''ACTIVE'', [''AMENDING'', ''REPLANNING'', ''COMPLETED'', ''SUPERSEDED'']),
    (''AMENDING'', [''ACTIVE'', ''SUPERSEDED'']),
    (''REPLANNING'', [''SUPERSEDED'']),
    (''COMPLETED'', []),
    (''REJECTED'', []),
    (''SUPERSEDED'', [])]"

definition TASK_ANY :: "string list" where
  "TASK_ANY = [''BLOCKED_ON_DECISION'', ''SUPERSEDED'', ''RETIRED'']"

definition TASK_TRANSITIONS :: "(string, string list) dict" where
  "TASK_TRANSITIONS =
   [(''CREATED'', [''BLOCKED'', ''READY''] @ TASK_ANY),
    (''BLOCKED'', [''READY''] @ TASK_ANY),
    (''READY'', [''CONTEXT_READY'', ''BLOCKED''] @ TASK_ANY),
    (''CONTEXT_READY'', [''ROUTED''] @ TASK_ANY),
    (''ROUTED'', [''PLANNED''] @ TASK_ANY),
    (''PLANNED'', [''EXECUTING''] @ TASK_ANY),
    (''EXECUTING'', [''VERIFYING'', ''RETRYING'', ''REROUTING''] @ TASK_ANY),
    (''RETRYING'', [''PLANNED''] @ TASK_ANY),
    (''REROUTING'', [''ROUTED''] @ TASK_ANY),
    (''VERIFYING'', [''INTEGRATING'', ''REPAIR_REQUIRED''] @ TASK_ANY),
    (''REPAIR_REQUIRED'', [''PLANNED''] @ TASK_ANY),
    (''INTEGRATING'', [''COMPLETED'', ''MERGE_CONFLICT''] @ TASK_ANY),
    (''MERGE_CONFLICT'', [''PLANNED''] @ TASK_ANY),
    (''BLOCKED_ON_DECISION'', [''READY''] @ TASK_ANY),
    (''COMPLETED'', [''SUPERSEDED'', ''RETIRED'']), (''SUPERSEDED'', []), (''RETIRED'', [])]"

definition TERMINAL_MISSION :: "string list" where
  "TERMINAL_MISSION = [''COMPLETED'', ''FAILED'', ''CANCELLED'']"

definition IN_FLIGHT_TASK :: "string list" where
  "IN_FLIGHT_TASK = 
   [''CONTEXT_READY'', ''ROUTED'', ''PLANNED'', ''EXECUTING'', ''VERIFYING'', ''INTEGRATING'',
    ''RETRYING'', ''REROUTING'', ''REPAIR_REQUIRED'', ''MERGE_CONFLICT'']"

definition ATTEMPT_TRANSITIONS :: "(string, string list) dict" where
  "ATTEMPT_TRANSITIONS =
   [(''IN_PROGRESS'', [''COMPLETED'', ''FAILED'']),
    (''COMPLETED'', []),
    (''FAILED'', [])]"

text \<open>\<open>engine/planning/registry_states.py\<close>.\<close>

definition TEMPLATE_TRANSITIONS :: "(string, string list) dict" where
  "TEMPLATE_TRANSITIONS =
   [(''ACTIVE'', [''RETIRED'']),
    (''RETIRED'', [])]"

definition DRAFT_TRANSITIONS :: "(string, string list) dict" where
  "DRAFT_TRANSITIONS =
   [(''PROPOSED'', [''VALIDATED'', ''REJECTED'']),
    (''VALIDATED'', [''PROMOTED'']),
    (''REJECTED'', []),
    (''PROMOTED'', [])]"

definition assert_template_transition :: "string \<Rightarrow> string \<Rightarrow> unit result" where
  "assert_template_transition current target =
    (if target \<in> set (succs TEMPLATE_TRANSITIONS current) then Inr ()
     else Inl (DdeError ''VERSION_CONFLICT''
       (''Illegal MissionTemplate transition '' @ current @ '' -> '' @ target) False
       [(''from'', JStr current), (''to'', JStr target)]))"

definition assert_draft_transition :: "string \<Rightarrow> string \<Rightarrow> unit result" where
  "assert_draft_transition current target =
    (if target \<in> set (succs DRAFT_TRANSITIONS current) then Inr ()
     else Inl (DdeError ''VERSION_CONFLICT''
       (''Illegal PlanDraft transition '' @ current @ '' -> '' @ target) False
       [(''from'', JStr current), (''to'', JStr target)]))"

text \<open>\<open>engine/integration/states.py\<close>.\<close>

definition WRITE_SCOPE_LEASE_TRANSITIONS :: "(string, string list) dict" where
  "WRITE_SCOPE_LEASE_TRANSITIONS =
   [(''RESERVED'', [''ACTIVE'', ''RELEASED'', ''EXPIRED'']),
    (''ACTIVE'', [''RELEASED'', ''EXPIRED'']),
    (''RELEASED'', []),
    (''EXPIRED'', [])]"

definition INTEGRATION_PROPOSAL_TRANSITIONS :: "(string, string list) dict" where
  "INTEGRATION_PROPOSAL_TRANSITIONS =
   [(''QUEUED'', [''REBASING'', ''VALIDATING'', ''SUPERSEDED'']),
    (''REBASING'', [''VALIDATING'', ''CONFLICT'']),
    (''VALIDATING'', [''VERIFYING'', ''REJECTED'']),
    (''VERIFYING'', [''MERGED'', ''REJECTED'', ''CONFLICT'']),
    (''MERGED'', []),
    (''CONFLICT'', []),
    (''REJECTED'', []),
    (''SUPERSEDED'', [])]"

definition TERMINAL_PROPOSAL_STATES :: "string list" where
  "TERMINAL_PROPOSAL_STATES = [''MERGED'', ''CONFLICT'', ''REJECTED'', ''SUPERSEDED'']"

definition DIFF_GATE_REPORT_TRANSITIONS :: "(string, string list) dict" where
  "DIFF_GATE_REPORT_TRANSITIONS =
   [(''EVALUATING'', [''PASSED'', ''FAILED'']),
    (''PASSED'', []),
    (''FAILED'', [])]"

definition DEPENDENCY_ADMISSION_TRANSITIONS :: "(string, string list) dict" where
  "DEPENDENCY_ADMISSION_TRANSITIONS =
   [(''EVALUATING'', [''ADMITTED'', ''REJECTED'']),
    (''ADMITTED'', []),
    (''REJECTED'', [])]"

text \<open>\<open>engine/invariants/states.py\<close> and \<open>engine/product_env/states.py\<close>.\<close>

definition DEFINITION_TRANSITIONS :: "(string, string list) dict" where
  "DEFINITION_TRANSITIONS =
   [(''ACTIVE'', [''RETIRED'']),
    (''RETIRED'', [])]"

definition TERMINAL_DEFINITION_STATES :: "string list" where
  "TERMINAL_DEFINITION_STATES = [''RETIRED'']"

definition PRODUCT_ENV_TRANSITIONS :: "(string, string list) dict" where
  "PRODUCT_ENV_TRANSITIONS =
   [(''PROVISIONING'', [''MIGRATING'', ''FAILED'', ''TEARDOWN'']),
    (''MIGRATING'', [''SEEDING'', ''FAILED'', ''TEARDOWN'']),
    (''SEEDING'', [''READY'', ''FAILED'', ''TEARDOWN'']),
    (''READY'', [''IN_USE'', ''FAILED'', ''TEARDOWN'']),
    (''IN_USE'', [''TEARDOWN'', ''FAILED'']),
    (''FAILED'', [''TEARDOWN'']),
    (''TEARDOWN'', [])]"

definition TERMINAL_PRODUCT_ENV_STATES :: "string list" where
  "TERMINAL_PRODUCT_ENV_STATES = [''TEARDOWN'']"

definition PRE_TERMINAL_PRODUCT_ENV_STATES :: "string list" where
  "PRE_TERMINAL_PRODUCT_ENV_STATES = [''PROVISIONING'', ''MIGRATING'', ''SEEDING'', ''READY'', ''IN_USE'']"

text \<open>\<open>engine/capabilities\<close>: descriptors, leases, credential handles.\<close>

definition LIFECYCLE_TRANSITIONS :: "(string, string list) dict" where
  "LIFECYCLE_TRANSITIONS =
   [(''ACTIVE'', [''DEPRECATED'', ''RETIRED'']),
    (''DEPRECATED'', [''RETIRED'']),
    (''RETIRED'', [])]"

definition CAPABILITY_LEASE_TRANSITIONS :: "(string, string list) dict" where
  "CAPABILITY_LEASE_TRANSITIONS =
   [(''REQUESTED'', [''EVALUATING'']),
    (''EVALUATING'', [''GRANTED'', ''DENIED'']),
    (''GRANTED'', [''ACTIVE'', ''EXPIRED'', ''REVOKED'']),
    (''ACTIVE'', [''CONSUMED'', ''EXPIRED'', ''REVOKED'']),
    (''DENIED'', []),
    (''CONSUMED'', []),
    (''EXPIRED'', []),
    (''REVOKED'', [])]"

definition HELD_LEASE_STATUSES :: "string list" where
  "HELD_LEASE_STATUSES = [''GRANTED'', ''ACTIVE'']"

definition CREDENTIAL_HANDLE_TRANSITIONS :: "(string, string list) dict" where
  "CREDENTIAL_HANDLE_TRANSITIONS =
   [(''ISSUED'', [''EXPIRED'', ''REVOKED'', ''SUPERSEDED'']),
    (''EXPIRED'', []),
    (''REVOKED'', []),
    (''SUPERSEDED'', [])]"

text \<open>\<open>engine/environments\<close> and \<open>engine/execution\<close>; \<open>_ANY_TO_FAILED\<close> is written out.\<close>

definition ENVIRONMENT_TRANSITIONS :: "(string, string list) dict" where
  "ENVIRONMENT_TRANSITIONS =
   [(''PROVISIONING'', [''READY'', ''FAILED'']),
    (''READY'', [''ACTIVE'', ''DRAINING'', ''FAILED'']),
    (''ACTIVE'', [''DRAINING'', ''READY'', ''FAILED'']),
    (''DRAINING'', [''RETIRED'', ''FAILED'']),
    (''RETIRED'', []),
    (''FAILED'', [''REPAIRING'', ''REPLACEMENT'']),
    (''REPAIRING'', [''READY'', ''FAILED'']),
    (''REPLACEMENT'', [])]"

definition NOT_SCHEDULABLE :: "string list" where
  "NOT_SCHEDULABLE = [''DRAINING'', ''FAILED'', ''REPLACEMENT'']"

definition EXECUTION_PLAN_TRANSITIONS :: "(string, string list) dict" where
  "EXECUTION_PLAN_TRANSITIONS =
   [(''PLANNED'', [''APPROVED'', ''FAILED'']),
    (''APPROVED'', [''ACTIVE'', ''FAILED'']),
    (''ACTIVE'', [''COMPLETED'', ''FAILED'']),
    (''COMPLETED'', []),
    (''FAILED'', [])]"

text \<open>\<open>engine/governance/states.py\<close>.\<close>

definition APPROVAL_TRANSITIONS :: "(string, string list) dict" where
  "APPROVAL_TRANSITIONS =
   [(''REQUESTED'', [''UNDER_REVIEW'', ''APPROVED'', ''REJECTED'', ''EXPIRED'', ''WITHDRAWN'']),
    (''UNDER_REVIEW'', [''APPROVED'', ''REJECTED'', ''EXPIRED'', ''WITHDRAWN'']),
    (''APPROVED'', [''EXPIRED'', ''WITHDRAWN'']),
    (''REJECTED'', []),
    (''EXPIRED'', []),
    (''WITHDRAWN'', [])]"

definition STANDING_TRANSITIONS :: "(string, string list) dict" where
  "STANDING_TRANSITIONS =
   [(''ACTIVE'', [''REVOKED'', ''EXPIRED'']),
    (''REVOKED'', []),
    (''EXPIRED'', [])]"

definition ATTENTION_TRANSITIONS :: "(string, string list) dict" where
  "ATTENTION_TRANSITIONS =
   [(''OPEN'', [''ACKNOWLEDGED'', ''CLEARED'']),
    (''ACKNOWLEDGED'', [''CLEARED'']),
    (''CLEARED'', [])]"

text \<open>\<open>engine/gateway/sessions/states.py\<close>: the table has no row for the final states.\<close>

definition SESSION_TRANSITIONS :: "(string, string list) dict" where
  "SESSION_TRANSITIONS =
   [(''ACTIVE'', [''CLOSED'', ''EXPIRED''])]"

definition SESSION_STATUSES :: "string list" where
  "SESSION_STATUSES = [''ACTIVE'', ''CLOSED'', ''EXPIRED'']"

definition session_transition :: "string \<Rightarrow> string \<Rightarrow> string result" where
  "session_transition current target =
    (if target \<in> set (succs SESSION_TRANSITIONS current) then Inr target
     else Inl (DdeError ''SESSION_EXPIRED''
       (''Session cannot transition from '' @ current @ '' to '' @ target) False
       [(''from'', JStr current), (''to'', JStr target)]))"

text \<open>\<open>engine/recovery\<close>, \<open>engine/verification\<close>, \<open>engine/workers\<close>, \<open>engine/workspaces\<close>.\<close>

definition EXTERNAL_EFFECT_TRANSITIONS :: "(string, string list) dict" where
  "EXTERNAL_EFFECT_TRANSITIONS =
   [(''PREPARED'', [''SENT'']),
    (''SENT'', [''CONFIRMED'', ''FAILED'', ''UNKNOWN'']),
    (''CONFIRMED'', []),
    (''FAILED'', []),
    (''UNKNOWN'', [''RECONCILING'']),
    (''RECONCILING'', [''RECONCILED'']),
    (''RECONCILED'', [])]"

definition VERIFICATION_RUN_TRANSITIONS :: "(string, string list) dict" where
  "VERIFICATION_RUN_TRANSITIONS =
   [(''RUNNING'', [''PASSED'', ''FAILED'', ''PARTIAL'', ''ERRORED'']),
    (''PASSED'', []),
    (''FAILED'', []),
    (''PARTIAL'', []),
    (''ERRORED'', [])]"

definition VERIFICATION_TERMINAL_STATES :: "string list" where
  "VERIFICATION_TERMINAL_STATES = [''PASSED'', ''FAILED'', ''PARTIAL'', ''ERRORED'']"

definition WORKER_RUN_TRANSITIONS :: "(string, string list) dict" where
  "WORKER_RUN_TRANSITIONS =
   [(''PLANNED'', [''PREPARING'']),
    (''PREPARING'', [''READY'', ''FAILED'']),
    (''READY'', [''RUNNING'', ''FAILED'']),
    (''RUNNING'', [''COMPLETED'', ''FAILED'', ''CHECKPOINTING'', ''PAUSING'', ''CANCELLING'']),
    (''CHECKPOINTING'', [''RUNNING'']),
    (''PAUSING'', [''PAUSED'']),
    (''PAUSED'', [''RESUMING'']),
    (''RESUMING'', [''RUNNING'']),
    (''CANCELLING'', [''CANCELLED'']),
    (''FAILED'', [''RECOVERING'']),
    (''RECOVERING'', [''RUNNING'']),
    (''COMPLETED'', []),
    (''CANCELLED'', [])]"

definition WORKER_TERMINAL_STATES :: "string list" where
  "WORKER_TERMINAL_STATES = [''COMPLETED'', ''FAILED'', ''CANCELLED'']"

definition WORKSPACE_TRANSITIONS :: "(string, string list) dict" where
  "WORKSPACE_TRANSITIONS =
   [(''PROVISIONING'', [''READY'', ''FAILED'']),
    (''READY'', [''IN_USE'', ''CLEANED_UP'', ''FAILED'']),
    (''IN_USE'', [''READY'', ''CLEANED_UP'', ''FAILED'']),
    (''CLEANED_UP'', []),
    (''FAILED'', [''CLEANED_UP''])]"

section \<open>The lifecycle contract\<close>

lemma transition_Inr: "transition s t table = Inr s' \<longleftrightarrow> s' = t \<and> t \<in> set (succs table s)"
  by (auto simp: transition_def)

lemma transition_Inl:
  "transition s t table = Inl e \<longleftrightarrow> t \<notin> set (succs table s) \<and> e = illegal_transition s t"
  by (auto simp: transition_def)

lemma error_code_illegal [simp]: "error_code (illegal_transition s t) = ''VERSION_CONFLICT''"
  by (simp add: illegal_transition_def)

locale lifecycle =
  fixes table :: "(string, string list) dict" and states :: "string list" and terminal :: "string list"
  assumes targets_known: "s \<in> set states \<Longrightarrow> set (succs table s) \<subseteq> set states"
    and terminal_stuck: "s \<in> set states \<Longrightarrow> s \<in> set terminal \<longleftrightarrow> succs table s = []"
    and finishes: "s \<in> set states \<Longrightarrow> can_finish (length states) table s"
begin

lemma run_known: "s \<in> set states \<Longrightarrow> run_transitions table s ts = Inr s' \<Longrightarrow> s' \<in> set states"
proof (induction ts arbitrary: s)
  case (Cons t ts)
  then obtain "t \<in> set (succs table s)" "run_transitions table t ts = Inr s'"
    by (auto simp: transition_Inr split: sum.splits)
  with Cons.IH [of t] Cons.prems(1) targets_known show ?case by blast
qed simp

lemma terminal_refuses:
  "s \<in> set states \<Longrightarrow> s \<in> set terminal \<Longrightarrow> transition s t table = Inl (illegal_transition s t)"
  using terminal_stuck by (auto simp: transition_def)

lemma terminal_run: "s \<in> set states \<Longrightarrow> s \<in> set terminal \<Longrightarrow> run_transitions table s ts = Inr s' \<Longrightarrow> ts = []"
  by (cases ts) (simp_all add: terminal_refuses)

lemma finish_run: "s \<in> set states \<Longrightarrow> can_finish n table s \<Longrightarrow>
    \<exists>ts s'. length ts \<le> n \<and> run_transitions table s ts = Inr s' \<and> s' \<in> set terminal"
proof (induction n arbitrary: s)
  case 0
  then have "run_transitions table s [] = Inr s \<and> s \<in> set terminal"
    using terminal_stuck by simp
  then show ?case by (intro exI [of _ "[]"] exI [of _ s]) simp
next
  case (Suc n)
  show ?case
  proof (cases "succs table s = []")
    case True
    with Suc.prems have "run_transitions table s [] = Inr s \<and> s \<in> set terminal"
      using terminal_stuck by simp
    then show ?thesis by (intro exI [of _ "[]"] exI [of _ s]) simp
  next
    case False
    with Suc.prems obtain t where t: "t \<in> set (succs table s)" "can_finish n table t"
      by (auto simp: list_ex_iff)
    with Suc.IH [of t] Suc.prems(1) targets_known obtain ts s' where
      "length ts \<le> n" "run_transitions table t ts = Inr s'" "s' \<in> set terminal" by blast
    then have "length (t # ts) \<le> Suc n \<and> run_transitions table s (t # ts) = Inr s' \<and> s' \<in> set terminal"
      using t(1) by (simp add: transition_def)
    then show ?thesis by blast
  qed
qed

lemma reaches_terminal:
  "s \<in> set states \<Longrightarrow> \<exists>ts s'. length ts \<le> length states \<and> run_transitions table s ts = Inr s' \<and> s' \<in> set terminal"
  using finish_run finishes by blast

end

text \<open>
  Each table meets the contract. Its check is a computation over the rows, bundled as a predicate.
\<close>

definition lifecycle_check :: "(string, string list) dict \<Rightarrow> string list \<Rightarrow> string list \<Rightarrow> bool" where
  "lifecycle_check table states terminal \<longleftrightarrow>
    list_all (\<lambda>s. list_all (\<lambda>t. t \<in> set states) (succs table s)
      \<and> (s \<in> set terminal \<longleftrightarrow> succs table s = []) \<and> can_finish (length states) table s) states"

lemma lifecycleI: "lifecycle_check table states terminal \<Longrightarrow> lifecycle table states terminal"
  by unfold_locales (auto simp: lifecycle_check_def list_all_iff)

interpretation mission_lc: lifecycle MISSION_TRANSITIONS "dict_keys MISSION_TRANSITIONS" "TERMINAL_MISSION"
  by (rule lifecycleI) code_simp

interpretation graph_lc: lifecycle GRAPH_TRANSITIONS "dict_keys GRAPH_TRANSITIONS" "[''COMPLETED'', ''REJECTED'', ''SUPERSEDED'']"
  by (rule lifecycleI) code_simp

interpretation task_lc: lifecycle TASK_TRANSITIONS "dict_keys TASK_TRANSITIONS" "[''SUPERSEDED'', ''RETIRED'']"
  by (rule lifecycleI) code_simp

interpretation attempt_lc: lifecycle ATTEMPT_TRANSITIONS "dict_keys ATTEMPT_TRANSITIONS" "[''COMPLETED'', ''FAILED'']"
  by (rule lifecycleI) code_simp

interpretation template_lc: lifecycle TEMPLATE_TRANSITIONS "dict_keys TEMPLATE_TRANSITIONS" "[''RETIRED'']"
  by (rule lifecycleI) code_simp

interpretation draft_lc: lifecycle DRAFT_TRANSITIONS "dict_keys DRAFT_TRANSITIONS" "[''PROMOTED'', ''REJECTED'']"
  by (rule lifecycleI) code_simp

interpretation scope_lease_lc: lifecycle WRITE_SCOPE_LEASE_TRANSITIONS "dict_keys WRITE_SCOPE_LEASE_TRANSITIONS" "[''RELEASED'', ''EXPIRED'']"
  by (rule lifecycleI) code_simp

interpretation proposal_lc: lifecycle INTEGRATION_PROPOSAL_TRANSITIONS "dict_keys INTEGRATION_PROPOSAL_TRANSITIONS" "TERMINAL_PROPOSAL_STATES"
  by (rule lifecycleI) code_simp

interpretation diff_gate_lc: lifecycle DIFF_GATE_REPORT_TRANSITIONS "dict_keys DIFF_GATE_REPORT_TRANSITIONS" "[''PASSED'', ''FAILED'']"
  by (rule lifecycleI) code_simp

interpretation admission_lc: lifecycle DEPENDENCY_ADMISSION_TRANSITIONS "dict_keys DEPENDENCY_ADMISSION_TRANSITIONS" "[''ADMITTED'', ''REJECTED'']"
  by (rule lifecycleI) code_simp

interpretation definition_lc: lifecycle DEFINITION_TRANSITIONS "dict_keys DEFINITION_TRANSITIONS" "TERMINAL_DEFINITION_STATES"
  by (rule lifecycleI) code_simp

interpretation product_env_lc: lifecycle PRODUCT_ENV_TRANSITIONS "dict_keys PRODUCT_ENV_TRANSITIONS" "TERMINAL_PRODUCT_ENV_STATES"
  by (rule lifecycleI) code_simp

interpretation descriptor_lc: lifecycle LIFECYCLE_TRANSITIONS "dict_keys LIFECYCLE_TRANSITIONS" "[''RETIRED'']"
  by (rule lifecycleI) code_simp

interpretation lease_lc: lifecycle CAPABILITY_LEASE_TRANSITIONS "dict_keys CAPABILITY_LEASE_TRANSITIONS" "[''DENIED'', ''CONSUMED'', ''EXPIRED'', ''REVOKED'']"
  by (rule lifecycleI) code_simp

interpretation handle_lc: lifecycle CREDENTIAL_HANDLE_TRANSITIONS "dict_keys CREDENTIAL_HANDLE_TRANSITIONS" "[''EXPIRED'', ''REVOKED'', ''SUPERSEDED'']"
  by (rule lifecycleI) code_simp

interpretation environment_lc: lifecycle ENVIRONMENT_TRANSITIONS "dict_keys ENVIRONMENT_TRANSITIONS" "[''RETIRED'', ''REPLACEMENT'']"
  by (rule lifecycleI) code_simp

interpretation plan_lc: lifecycle EXECUTION_PLAN_TRANSITIONS "dict_keys EXECUTION_PLAN_TRANSITIONS" "[''COMPLETED'', ''FAILED'']"
  by (rule lifecycleI) code_simp

interpretation approval_lc: lifecycle APPROVAL_TRANSITIONS "dict_keys APPROVAL_TRANSITIONS" "[''REJECTED'', ''EXPIRED'', ''WITHDRAWN'']"
  by (rule lifecycleI) code_simp

interpretation standing_lc: lifecycle STANDING_TRANSITIONS "dict_keys STANDING_TRANSITIONS" "[''REVOKED'', ''EXPIRED'']"
  by (rule lifecycleI) code_simp

interpretation attention_lc: lifecycle ATTENTION_TRANSITIONS "dict_keys ATTENTION_TRANSITIONS" "[''CLEARED'']"
  by (rule lifecycleI) code_simp

interpretation session_lc: lifecycle SESSION_TRANSITIONS "SESSION_STATUSES" "[''CLOSED'', ''EXPIRED'']"
  by (rule lifecycleI) code_simp

interpretation effect_lc: lifecycle EXTERNAL_EFFECT_TRANSITIONS "dict_keys EXTERNAL_EFFECT_TRANSITIONS" "[''CONFIRMED'', ''FAILED'', ''RECONCILED'']"
  by (rule lifecycleI) code_simp

interpretation verification_lc: lifecycle VERIFICATION_RUN_TRANSITIONS "dict_keys VERIFICATION_RUN_TRANSITIONS" "VERIFICATION_TERMINAL_STATES"
  by (rule lifecycleI) code_simp

interpretation worker_lc: lifecycle WORKER_RUN_TRANSITIONS "dict_keys WORKER_RUN_TRANSITIONS" "[''COMPLETED'', ''CANCELLED'']"
  by (rule lifecycleI) code_simp

interpretation workspace_lc: lifecycle WORKSPACE_TRANSITIONS "dict_keys WORKSPACE_TRANSITIONS" "[''CLEANED_UP'']"
  by (rule lifecycleI) code_simp

section \<open>Properties\<close>

text \<open>Every table of the engine with its states and the states its module declares final.\<close>

definition lifecycle_tables :: "((string, string list) dict \<times> string list \<times> string list) list" where
  "lifecycle_tables =
   [(MISSION_TRANSITIONS, dict_keys MISSION_TRANSITIONS, TERMINAL_MISSION),
    (GRAPH_TRANSITIONS, dict_keys GRAPH_TRANSITIONS, [''COMPLETED'', ''REJECTED'', ''SUPERSEDED'']),
    (TASK_TRANSITIONS, dict_keys TASK_TRANSITIONS, [''SUPERSEDED'', ''RETIRED'']),
    (ATTEMPT_TRANSITIONS, dict_keys ATTEMPT_TRANSITIONS, [''COMPLETED'', ''FAILED'']),
    (TEMPLATE_TRANSITIONS, dict_keys TEMPLATE_TRANSITIONS, [''RETIRED'']),
    (DRAFT_TRANSITIONS, dict_keys DRAFT_TRANSITIONS, [''PROMOTED'', ''REJECTED'']),
    (WRITE_SCOPE_LEASE_TRANSITIONS, dict_keys WRITE_SCOPE_LEASE_TRANSITIONS, [''RELEASED'', ''EXPIRED'']),
    (INTEGRATION_PROPOSAL_TRANSITIONS, dict_keys INTEGRATION_PROPOSAL_TRANSITIONS, TERMINAL_PROPOSAL_STATES),
    (DIFF_GATE_REPORT_TRANSITIONS, dict_keys DIFF_GATE_REPORT_TRANSITIONS, [''PASSED'', ''FAILED'']),
    (DEPENDENCY_ADMISSION_TRANSITIONS, dict_keys DEPENDENCY_ADMISSION_TRANSITIONS, [''ADMITTED'', ''REJECTED'']),
    (DEFINITION_TRANSITIONS, dict_keys DEFINITION_TRANSITIONS, TERMINAL_DEFINITION_STATES),
    (PRODUCT_ENV_TRANSITIONS, dict_keys PRODUCT_ENV_TRANSITIONS, TERMINAL_PRODUCT_ENV_STATES),
    (LIFECYCLE_TRANSITIONS, dict_keys LIFECYCLE_TRANSITIONS, [''RETIRED'']),
    (CAPABILITY_LEASE_TRANSITIONS, dict_keys CAPABILITY_LEASE_TRANSITIONS, [''DENIED'', ''CONSUMED'', ''EXPIRED'', ''REVOKED'']),
    (CREDENTIAL_HANDLE_TRANSITIONS, dict_keys CREDENTIAL_HANDLE_TRANSITIONS, [''EXPIRED'', ''REVOKED'', ''SUPERSEDED'']),
    (ENVIRONMENT_TRANSITIONS, dict_keys ENVIRONMENT_TRANSITIONS, [''RETIRED'', ''REPLACEMENT'']),
    (EXECUTION_PLAN_TRANSITIONS, dict_keys EXECUTION_PLAN_TRANSITIONS, [''COMPLETED'', ''FAILED'']),
    (APPROVAL_TRANSITIONS, dict_keys APPROVAL_TRANSITIONS, [''REJECTED'', ''EXPIRED'', ''WITHDRAWN'']),
    (STANDING_TRANSITIONS, dict_keys STANDING_TRANSITIONS, [''REVOKED'', ''EXPIRED'']),
    (ATTENTION_TRANSITIONS, dict_keys ATTENTION_TRANSITIONS, [''CLEARED'']),
    (SESSION_TRANSITIONS, SESSION_STATUSES, [''CLOSED'', ''EXPIRED'']),
    (EXTERNAL_EFFECT_TRANSITIONS, dict_keys EXTERNAL_EFFECT_TRANSITIONS, [''CONFIRMED'', ''FAILED'', ''RECONCILED'']),
    (VERIFICATION_RUN_TRANSITIONS, dict_keys VERIFICATION_RUN_TRANSITIONS, VERIFICATION_TERMINAL_STATES),
    (WORKER_RUN_TRANSITIONS, dict_keys WORKER_RUN_TRANSITIONS, [''COMPLETED'', ''CANCELLED'']),
    (WORKSPACE_TRANSITIONS, dict_keys WORKSPACE_TRANSITIONS, [''CLEANED_UP''])]"

lemma lifecycle_tables_ok: "(table, states, terminal) \<in> set lifecycle_tables \<Longrightarrow> lifecycle table states terminal"
  unfolding lifecycle_tables_def list.set insert_iff empty_iff prod.inject simp_thms
  using mission_lc.lifecycle_axioms graph_lc.lifecycle_axioms task_lc.lifecycle_axioms attempt_lc.lifecycle_axioms template_lc.lifecycle_axioms 
    draft_lc.lifecycle_axioms scope_lease_lc.lifecycle_axioms proposal_lc.lifecycle_axioms diff_gate_lc.lifecycle_axioms admission_lc.lifecycle_axioms 
    definition_lc.lifecycle_axioms product_env_lc.lifecycle_axioms descriptor_lc.lifecycle_axioms lease_lc.lifecycle_axioms handle_lc.lifecycle_axioms 
    environment_lc.lifecycle_axioms plan_lc.lifecycle_axioms approval_lc.lifecycle_axioms standing_lc.lifecycle_axioms attention_lc.lifecycle_axioms 
    session_lc.lifecycle_axioms effect_lc.lifecycle_axioms verification_lc.lifecycle_axioms worker_lc.lifecycle_axioms workspace_lc.lifecycle_axioms
  by (elim disjE conjE) (simp_all only: lifecycle_def)



end
