(* ===== verification/Events.thy ===== *)
theory Events
  imports Prelude "HOL-Library.Monad_Syntax"
begin

text \<open>
  \<open>engine/events/engine.py\<close>: the append-only event store, the transactional outbox filled beside it, and
  the command ledger. The records follow \<open>engine/contracts/{event,outbox,command_idempotency}.py\<close>.
  Proved here: per-aggregate sequence numbers are gapless, every event has an outbox row that decodes to
  it, a dispatch publishes in order and marks exactly what it published, and an idempotency key is
  accepted at most once.
\<close>

section \<open>Contracts\<close>

record event =
  ev_id :: uuid
  ev_type :: string
  ev_aggregate_type :: string
  ev_aggregate_id :: uuid
  ev_tenant :: uuid
  ev_project :: uuid
  ev_mission :: "uuid option"
  ev_task :: "uuid option"
  ev_sequence :: int
  ev_occurred_at :: time
  ev_correlation :: string
  ev_causation :: "string option"
  ev_payload :: "(string \<times> json) list"
  ev_schema_version :: string
  ev_created_at :: time
  ev_updated_at :: time

record outbox =
  ob_id :: uuid
  ob_tenant :: uuid
  ob_project :: uuid
  ob_mission :: "uuid option"
  ob_event :: uuid
  ob_status :: string
  ob_payload :: "(string \<times> json) list"
  ob_published_at :: "time option"
  ob_created_at :: time
  ob_updated_at :: time

record command_idempotency =
  ci_command :: uuid
  ci_tenant :: uuid
  ci_project :: uuid
  ci_key :: string
  ci_request_hash :: string
  ci_status :: string
  ci_result :: "json option"
  ci_expires_at :: time
  ci_created_at :: time
  ci_updated_at :: time

text \<open>
  \<open>Event.model_dump(mode="json")\<close> and \<open>Event.model_validate\<close>: an outbox row stores its event as JSON.
  A time is printed as its number here, in place of pydantic's ISO text.
\<close>

definition json_opt :: "string option \<Rightarrow> json" where
  "json_opt x = (case x of None \<Rightarrow> JNull | Some s \<Rightarrow> JStr s)"

definition event_dump :: "event \<Rightarrow> (string \<times> json) list" where
  "event_dump e =
   [(''event_id'', JStr (ev_id e)), (''event_type'', JStr (ev_type e)),
    (''aggregate_type'', JStr (ev_aggregate_type e)), (''aggregate_id'', JStr (ev_aggregate_id e)),
    (''tenant_id'', JStr (ev_tenant e)), (''project_id'', JStr (ev_project e)),
    (''mission_id'', json_opt (ev_mission e)), (''task_id'', json_opt (ev_task e)),
    (''sequence'', JInt (ev_sequence e)), (''occurred_at'', JInt (ev_occurred_at e)),
    (''correlation_id'', JStr (ev_correlation e)), (''causation_id'', json_opt (ev_causation e)),
    (''payload'', JObj (ev_payload e)), (''schema_version'', JStr (ev_schema_version e)),
    (''created_at'', JInt (ev_created_at e)), (''updated_at'', JInt (ev_updated_at e))]"

definition get_str :: "(string \<times> json) list \<Rightarrow> string \<Rightarrow> string option" where
  "get_str d k = (case dict_get d k of Some (JStr s) \<Rightarrow> Some s | _ \<Rightarrow> None)"

definition get_int :: "(string \<times> json) list \<Rightarrow> string \<Rightarrow> int option" where
  "get_int d k = (case dict_get d k of Some (JInt i) \<Rightarrow> Some i | _ \<Rightarrow> None)"

definition get_obj :: "(string \<times> json) list \<Rightarrow> string \<Rightarrow> (string \<times> json) list option" where
  "get_obj d k = (case dict_get d k of Some (JObj kvs) \<Rightarrow> Some kvs | _ \<Rightarrow> None)"

definition get_optional :: "(string \<times> json) list \<Rightarrow> string \<Rightarrow> string option option" where
  "get_optional d k =
    (case dict_get d k of None \<Rightarrow> Some None | Some JNull \<Rightarrow> Some None | Some (JStr s) \<Rightarrow> Some (Some s)
     | _ \<Rightarrow> None)"

definition event_fields :: "string list" where
  "event_fields = [''event_id'', ''event_type'', ''aggregate_type'', ''aggregate_id'', ''tenant_id'',
    ''project_id'', ''mission_id'', ''task_id'', ''sequence'', ''occurred_at'', ''correlation_id'',
    ''causation_id'', ''payload'', ''schema_version'', ''created_at'', ''updated_at'']"

definition event_validate :: "(string \<times> json) list \<Rightarrow> event option" where
  "event_validate d =
    (if \<not> list_all (\<lambda>k. k \<in> set event_fields) (dict_keys d) then None else do {
      i \<leftarrow> get_str d ''event_id''; ty \<leftarrow> get_str d ''event_type'';
      at \<leftarrow> get_str d ''aggregate_type''; ai \<leftarrow> get_str d ''aggregate_id'';
      te \<leftarrow> get_str d ''tenant_id''; pr \<leftarrow> get_str d ''project_id'';
      mi \<leftarrow> get_optional d ''mission_id''; ta \<leftarrow> get_optional d ''task_id'';
      sq \<leftarrow> get_int d ''sequence''; oc \<leftarrow> get_int d ''occurred_at'';
      co \<leftarrow> get_str d ''correlation_id''; ca \<leftarrow> get_optional d ''causation_id'';
      pa \<leftarrow> get_obj d ''payload''; sv \<leftarrow> get_str d ''schema_version'';
      cr \<leftarrow> get_int d ''created_at''; up \<leftarrow> get_int d ''updated_at'';
      Some \<lparr>ev_id = i, ev_type = ty, ev_aggregate_type = at, ev_aggregate_id = ai, ev_tenant = te,
        ev_project = pr, ev_mission = mi, ev_task = ta, ev_sequence = sq, ev_occurred_at = oc,
        ev_correlation = co, ev_causation = ca, ev_payload = pa, ev_schema_version = sv,
        ev_created_at = cr, ev_updated_at = up\<rparr>
    })"

section \<open>The store and its operations\<close>

record event_store =
  es_events :: "event list"
  es_outbox :: "(uuid, outbox) dict"
  es_commands :: "(uuid \<times> string, command_idempotency) dict"
  es_sequences :: "(string \<times> uuid, int) dict"

definition empty_event_store :: event_store where
  "empty_event_store = \<lparr>es_events = [], es_outbox = [], es_commands = [], es_sequences = []\<rparr>"

definition unpublished :: "event_store \<Rightarrow> outbox list" where
  "unpublished s = filter (\<lambda>row. ob_status row = ''pending'') (dict_values (es_outbox s))"

text \<open>The keyword arguments of \<open>EventEngine.append\<close>, and what one call draws from the outside.\<close>

record event_args =
  ea_type :: string
  ea_aggregate_type :: string
  ea_aggregate_id :: uuid
  ea_tenant :: uuid
  ea_project :: uuid
  ea_payload :: "(string \<times> json) list"
  ea_mission :: "uuid option"
  ea_task :: "uuid option"
  ea_correlation :: "string option"
  ea_causation :: "string option"

record event_stamp =
  st_now :: time
  st_event :: uuid
  st_correlation :: uuid
  st_outbox :: uuid

definition stamped_event :: "event_stamp \<Rightarrow> event_args \<Rightarrow> int \<Rightarrow> event" where
  "stamped_event st a sequence =
    \<lparr>ev_id = st_event st, ev_type = ea_type a, ev_aggregate_type = ea_aggregate_type a,
     ev_aggregate_id = ea_aggregate_id a, ev_tenant = ea_tenant a, ev_project = ea_project a,
     ev_mission = ea_mission a, ev_task = ea_task a, ev_sequence = sequence,
     ev_occurred_at = st_now st,
     ev_correlation = (case ea_correlation a of Some (c # cs) \<Rightarrow> c # cs | _ \<Rightarrow> st_correlation st),
     ev_causation = ea_causation a, ev_payload = ea_payload a, ev_schema_version = ''1'',
     ev_created_at = st_now st, ev_updated_at = st_now st\<rparr>"

definition pending_row :: "event_stamp \<Rightarrow> event \<Rightarrow> outbox" where
  "pending_row st e =
    \<lparr>ob_id = st_outbox st, ob_tenant = ev_tenant e, ob_project = ev_project e, ob_mission = ev_mission e,
     ob_event = ev_id e, ob_status = ''pending'', ob_payload = event_dump e, ob_published_at = None,
     ob_created_at = st_now st, ob_updated_at = st_now st\<rparr>"

definition next_sequence :: "event_store \<Rightarrow> string \<times> uuid \<Rightarrow> int" where
  "next_sequence s key = (case dict_get (es_sequences s) key of None \<Rightarrow> 0 | Some n \<Rightarrow> n) + 1"

definition event_append :: "event_stamp \<Rightarrow> event_args \<Rightarrow> event_store \<Rightarrow> event \<times> event_store" where
  "event_append st a s =
    (let key = (ea_aggregate_type a, ea_aggregate_id a);
         sequence = next_sequence s key;
         e = stamped_event st a sequence
     in (e, s\<lparr>es_sequences := dict_set key sequence (es_sequences s),
              es_events := es_events s @ [e],
              es_outbox := dict_set (st_outbox st) (pending_row st e) (es_outbox s)\<rparr>))"

definition claim_pending :: "event_store \<Rightarrow> int \<Rightarrow> outbox list" where
  "claim_pending s limit = py_take limit (sort_key ob_created_at (unpublished s))"

definition mark_published :: "time \<Rightarrow> uuid \<Rightarrow> event_store \<Rightarrow> outbox result \<times> event_store" where
  "mark_published now oid s =
    (case dict_get (es_outbox s) oid of
       None \<Rightarrow> (Inl (KeyError oid), s)
     | Some row \<Rightarrow>
         let updated = row\<lparr>ob_status := ''published'', ob_published_at := Some now, ob_updated_at := now\<rparr>
         in (Inr updated, s\<lparr>es_outbox := dict_set oid updated (es_outbox s)\<rparr>))"

text \<open>
  \<open>dispatch\<close> hands each claimed event to the caller's publisher, which may raise; the events handed over
  so far are the third component. The loop reads the clock once per row, from \<open>clk\<close>.
\<close>

fun dispatch_rows ::
  "(event \<Rightarrow> unit result) \<Rightarrow> (nat \<Rightarrow> time) \<Rightarrow> outbox list \<Rightarrow> event_store \<Rightarrow> unit result \<times> event_store \<times> event list"
where
  "dispatch_rows publish clk [] s = (Inr (), s, [])"
| "dispatch_rows publish clk (row # rows) s =
    (case event_validate (ob_payload row) of
       None \<Rightarrow> (Inl (ValueError ''Event''), s, [])
     | Some e \<Rightarrow>
         (case publish e of
            Inl err \<Rightarrow> (Inl err, s, [])
          | Inr _ \<Rightarrow>
              (case mark_published (clk 0) (ob_id row) s of
                 (Inl err, s') \<Rightarrow> (Inl err, s', [e])
               | (Inr _, s') \<Rightarrow>
                   (case dispatch_rows publish (\<lambda>n. clk (Suc n)) rows s' of
                      (r, s'', es) \<Rightarrow> (r, s'', e # es)))))"

definition dispatch ::
  "(event \<Rightarrow> unit result) \<Rightarrow> (nat \<Rightarrow> time) \<Rightarrow> int \<Rightarrow> event_store \<Rightarrow> int result \<times> event_store \<times> event list"
where
  "dispatch publish clk limit s =
    (let claimed = claim_pending s limit in
     case dispatch_rows publish clk claimed s of
       (Inl e, s', es) \<Rightarrow> (Inl e, s', es)
     | (Inr _, s', es) \<Rightarrow> (Inr (int (length claimed)), s', es))"

definition default_window :: time where
  "default_window = 30 * 86400 * 1000000"

definition accept_command ::
  "time \<Rightarrow> uuid \<Rightarrow> uuid \<Rightarrow> uuid \<Rightarrow> string \<Rightarrow> string \<Rightarrow> time option \<Rightarrow> event_store
    \<Rightarrow> (command_idempotency \<times> bool) result \<times> event_store"
where
  "accept_command now new_id tenant project ikey request_hash ttl s =
    (let key = (tenant, ikey) in
     case dict_get (es_commands s) key of
       Some existing \<Rightarrow>
         (if ci_expires_at existing \<le> now then
            (Inl (DdeError ''VERSION_CONFLICT''
               ''Idempotency key expired; refusing mutation that could duplicate'' False
               [(''idempotency_key'', JStr ikey)]), s)
          else if ci_request_hash existing \<noteq> request_hash then
            (Inl (DdeError ''VERSION_CONFLICT''
               ''Idempotency key reused with a different request hash'' False []), s)
          else (Inr (existing, False), s))
     | None \<Rightarrow>
         let window = (case ttl of Some w \<Rightarrow> if w = 0 then default_window else w | None \<Rightarrow> default_window);
             record = \<lparr>ci_command = new_id, ci_tenant = tenant, ci_project = project, ci_key = ikey,
               ci_request_hash = request_hash, ci_status = ''first_seen'', ci_result = None,
               ci_expires_at = now + window, ci_created_at = now, ci_updated_at = now\<rparr>
         in (Inr (record, True), s\<lparr>es_commands := dict_set key record (es_commands s)\<rparr>))"

text \<open>
  The production writer, \<open>engine/events/service.py\<close> over \<open>engine/events/repository.py\<close>: the next
  sequence number is the largest stored one plus one, and both rows are inserted in one transaction. The
  tables are the fields of the same record; \<open>es_sequences\<close> has no counterpart there.
\<close>

definition db_next_sequence :: "event_store \<Rightarrow> string \<times> uuid \<Rightarrow> int" where
  "db_next_sequence s key =
    fold max (map ev_sequence
      (filter (\<lambda>e. (ev_aggregate_type e, ev_aggregate_id e) = key) (es_events s))) 0 + 1"

definition insert_event :: "event \<Rightarrow> event_store \<Rightarrow> event_store result" where
  "insert_event e s =
    (if ev_id e \<in> ev_id ` set (es_events s) then Inl (IntegrityError ''events'')
     else Inr (s\<lparr>es_events := es_events s @ [e]\<rparr>))"

definition insert_outbox :: "outbox \<Rightarrow> event_store \<Rightarrow> event_store result" where
  "insert_outbox row s =
    (if ob_id row \<in> set (dict_keys (es_outbox s)) then Inl (IntegrityError ''outbox'')
     else Inr (s\<lparr>es_outbox := dict_set (ob_id row) row (es_outbox s)\<rparr>))"

definition db_event_append :: "event_stamp \<Rightarrow> event_args \<Rightarrow> event_store \<Rightarrow> event result \<times> event_store" where
  "db_event_append st a s =
    (let e = stamped_event st a (db_next_sequence s (ea_aggregate_type a, ea_aggregate_id a)) in
     case insert_event e s of
       Inl err \<Rightarrow> (Inl err, s)
     | Inr s1 \<Rightarrow>
         (case insert_outbox (pending_row st e) s1 of
            Inl err \<Rightarrow> (Inl err, s)
          | Inr s2 \<Rightarrow> (Inr e, s2)))"

text \<open>
  \<open>engine/events/dispatcher.py\<close>: \<open>OutboxDispatcher.drain\<close> claims, publishes and marks one row per
  transaction; a failing publisher rolls back its own row only and the exception leaves the loop.
\<close>

fun drain ::
  "(event \<Rightarrow> unit result) \<Rightarrow> (nat \<Rightarrow> time) \<Rightarrow> nat \<Rightarrow> event_store \<Rightarrow> int result \<times> event_store \<times> event list"
where
  "drain publish clk 0 s = (Inr 0, s, [])"
| "drain publish clk (Suc n) s =
    (case claim_pending s 1 of
       [] \<Rightarrow> (Inr 0, s, [])
     | row # _ \<Rightarrow>
         (case event_validate (ob_payload row) of
            None \<Rightarrow> (Inl (ValueError ''Event''), s, [])
          | Some e \<Rightarrow>
              (case publish e of
                 Inl err \<Rightarrow> (Inl err, s, [])
               | Inr _ \<Rightarrow>
                   (case drain publish (\<lambda>k. clk (Suc k)) n (snd (mark_published (clk 0) (ob_id row) s)) of
                      (Inl err, s', es) \<Rightarrow> (Inl err, s', e # es)
                    | (Inr k, s', es) \<Rightarrow> (Inr (k + 1), s', e # es)))))"

text \<open>
  \<open>engine/events/idempotency.py\<close>: the production command ledger. \<open>insert_if_absent\<close> is
  \<open>INSERT ... ON CONFLICT DO NOTHING\<close> on \<open>(tenant_id, idempotency_key)\<close>.
\<close>

definition insert_if_absent :: "command_idempotency \<Rightarrow> event_store \<Rightarrow> bool \<times> event_store" where
  "insert_if_absent rec s =
    (if (ci_tenant rec, ci_key rec) \<in> set (dict_keys (es_commands s)) then (False, s)
     else (True, s\<lparr>es_commands := dict_set (ci_tenant rec, ci_key rec) rec (es_commands s)\<rparr>))"

definition ledger_begin ::
  "time \<Rightarrow> uuid \<Rightarrow> uuid \<Rightarrow> uuid \<Rightarrow> string \<Rightarrow> string \<Rightarrow> uuid option \<Rightarrow> time option \<Rightarrow> event_store
    \<Rightarrow> (command_idempotency \<times> bool) result \<times> event_store"
where
  "ledger_begin now new_id tenant project ikey request_hash command_id ttl s =
    (let candidate = \<lparr>ci_command = (case command_id of Some c \<Rightarrow> c | None \<Rightarrow> new_id), ci_tenant = tenant,
           ci_project = project, ci_key = ikey, ci_request_hash = request_hash,
           ci_status = ''in_progress'', ci_result = None,
           ci_expires_at = now +
             (case ttl of Some w \<Rightarrow> if w = 0 then default_window else w | None \<Rightarrow> default_window),
           ci_created_at = now, ci_updated_at = now\<rparr>;
         (inserted, s') = insert_if_absent candidate s
     in if inserted then (Inr (candidate, True), s')
        else case dict_get (es_commands s) (tenant, ikey) of
          None \<Rightarrow> (Inl (DdeError ''VERSION_CONFLICT''
                    ''Idempotency key insert conflicted but no row was found'' False
                    [(''idempotency_key'', JStr ikey)]), s)
        | Some existing \<Rightarrow>
            (if ci_expires_at existing \<le> now then
               (Inl (DdeError ''VERSION_CONFLICT''
                  ''Idempotency key expired; refusing a mutation that could duplicate'' False
                  [(''idempotency_key'', JStr ikey)]), s)
             else if ci_request_hash existing \<noteq> request_hash then
               (Inl (DdeError ''VERSION_CONFLICT''
                  ''Idempotency key reused with a different request hash'' False
                  [(''idempotency_key'', JStr ikey)]), s)
             else (Inr (existing, False), s)))"

definition update_command_status ::
  "uuid \<Rightarrow> string \<Rightarrow> json option \<Rightarrow> time \<Rightarrow> event_store \<Rightarrow> event_store"
where
  "update_command_status cid status res now s =
    s\<lparr>es_commands := map (\<lambda>(k, c). (k, if ci_command c = cid
        then c\<lparr>ci_status := status, ci_result := res, ci_updated_at := now\<rparr> else c)) (es_commands s)\<rparr>"

definition command_by_id :: "event_store \<Rightarrow> uuid \<Rightarrow> command_idempotency option" where
  "command_by_id s cid = List.find (\<lambda>c. ci_command c = cid) (dict_values (es_commands s))"

definition ledger_complete ::
  "time \<Rightarrow> uuid \<Rightarrow> json \<Rightarrow> event_store \<Rightarrow> command_idempotency result \<times> event_store"
where
  "ledger_complete now cid res s =
    (let s' = update_command_status cid ''completed'' (Some res) now s in
     case command_by_id s' cid of
       None \<Rightarrow> (Inl (DdeError ''POLICY_DENIED'' ''Unknown command_id'' False
                 [(''command_id'', JStr cid)]), s)
     | Some updated \<Rightarrow> (Inr updated, s'))"

definition ledger_fail :: "time \<Rightarrow> uuid \<Rightarrow> json option \<Rightarrow> event_store \<Rightarrow> event_store" where
  "ledger_fail now cid res s = update_command_status cid ''failed'' res now s"

text \<open>A sequence of ledger calls, and the keys whose \<open>begin\<close> was told to go ahead.\<close>

datatype ledger_op =
    LBegin time uuid uuid uuid string string "uuid option" "time option"
  | LComplete time uuid json
  | LFail time uuid "json option"

fun ledger_step :: "ledger_op \<Rightarrow> event_store \<Rightarrow> (uuid \<times> string) list \<times> event_store" where
  "ledger_step (LBegin now new_id tenant project ikey h cid ttl) s =
    (case ledger_begin now new_id tenant project ikey h cid ttl s of
       (Inr (_, True), s') \<Rightarrow> ([(tenant, ikey)], s') | (_, s') \<Rightarrow> ([], s'))"
| "ledger_step (LComplete now cid res) s = ([], snd (ledger_complete now cid res s))"
| "ledger_step (LFail now cid res) s = ([], ledger_fail now cid res s)"

fun ledger_run :: "ledger_op list \<Rightarrow> event_store \<Rightarrow> (uuid \<times> string) list \<times> event_store" where
  "ledger_run [] s = ([], s)"
| "ledger_run (x # xs) s =
    (case ledger_step x s of (k, s') \<Rightarrow> case ledger_run xs s' of (ks, s'') \<Rightarrow> (k @ ks, s''))"

section \<open>Invariant\<close>

definition aggregate_events :: "string \<times> uuid \<Rightarrow> event list \<Rightarrow> event list" where
  "aggregate_events key es = filter (\<lambda>e. (ev_aggregate_type e, ev_aggregate_id e) = key) es"

definition gapless :: "event list \<Rightarrow> bool" where
  "gapless es \<longleftrightarrow> (\<forall>key. map ev_sequence (aggregate_events key es)
      = map int [1..<Suc (length (aggregate_events key es))])"

definition counted :: "event_store \<Rightarrow> bool" where
  "counted s \<longleftrightarrow> (\<forall>key. next_sequence s key = int (length (aggregate_events key (es_events s))) + 1)"

definition outbox_ok :: "event_store \<Rightarrow> bool" where
  "outbox_ok s \<longleftrightarrow> dict_ok (es_outbox s) \<and>
    (\<forall>(oid, row) \<in> set (es_outbox s). ob_id row = oid \<and>
      (\<exists>e \<in> set (es_events s). ob_event row = ev_id e \<and> ob_payload row = event_dump e)) \<and>
    (\<forall>e \<in> set (es_events s). \<exists>row \<in> set (dict_values (es_outbox s)). ob_payload row = event_dump e)"

definition commands_ok :: "event_store \<Rightarrow> bool" where
  "commands_ok s \<longleftrightarrow> dict_ok (es_commands s) \<and>
    (\<forall>(key, c) \<in> set (es_commands s). key = (ci_tenant c, ci_key c))"

definition event_store_ok :: "event_store \<Rightarrow> bool" where
  "event_store_ok s \<longleftrightarrow> gapless (es_events s) \<and> counted s \<and> outbox_ok s \<and> commands_ok s"

lemmas event_store_defs = event_store_ok_def counted_def outbox_ok_def commands_ok_def

lemma empty_event_store_ok [simp]: "event_store_ok empty_event_store"
  by (simp add: event_store_defs gapless_def empty_event_store_def aggregate_events_def next_sequence_def)

section \<open>Outbox rows decode to their event\<close>

lemma get_optional_json_opt: "dict_get d k = Some (json_opt x) \<Longrightarrow> get_optional d k = Some x"
  by (cases x) (simp_all add: get_optional_def json_opt_def)

lemma event_validate_dump: "event_validate (event_dump e) = Some e"
proof -
  have "get_optional (event_dump e) ''mission_id'' = Some (ev_mission e)"
    "get_optional (event_dump e) ''task_id'' = Some (ev_task e)"
    "get_optional (event_dump e) ''causation_id'' = Some (ev_causation e)"
    by (rule get_optional_json_opt, simp add: event_dump_def)+
  moreover have "list_all (\<lambda>k. k \<in> set event_fields) (dict_keys (event_dump e))"
    by (simp add: event_dump_def event_fields_def)
  moreover have "get_obj (event_dump e) ''payload'' = Some (ev_payload e)"
    by (simp add: get_obj_def event_dump_def)
  ultimately show ?thesis
    by (simp add: event_validate_def) (simp add: get_str_def get_int_def event_dump_def)
qed

section \<open>Appending\<close>

lemma aggregate_events_append [simp]:
  "aggregate_events key (es @ [e]) =
    aggregate_events key es @ (if (ev_aggregate_type e, ev_aggregate_id e) = key then [e] else [])"
  by (simp add: aggregate_events_def)

lemma stamped_event_simps [simp]:
  "ev_id (stamped_event st a n) = st_event st"
  "ev_type (stamped_event st a n) = ea_type a"
  "ev_aggregate_type (stamped_event st a n) = ea_aggregate_type a"
  "ev_aggregate_id (stamped_event st a n) = ea_aggregate_id a"
  "ev_sequence (stamped_event st a n) = n"
  "ev_mission (stamped_event st a n) = ea_mission a"
  "ev_payload (stamped_event st a n) = ea_payload a"
  by (simp_all add: stamped_event_def)

lemma pending_row_simps [simp]:
  "ob_id (pending_row st e) = st_outbox st" "ob_event (pending_row st e) = ev_id e"
  "ob_payload (pending_row st e) = event_dump e" "ob_status (pending_row st e) = ''pending''"
  by (simp_all add: pending_row_def)

lemma gapless_append:
  assumes "gapless es" "ev_sequence e = int (length (aggregate_events (ev_aggregate_type e, ev_aggregate_id e) es)) + 1"
  shows "gapless (es @ [e])"
  using assms by (auto simp: gapless_def)

lemma event_append_simps:
  assumes "event_append st a s = (e, s')"
  shows "e = stamped_event st a (next_sequence s (ea_aggregate_type a, ea_aggregate_id a))"
    and "es_events s' = es_events s @ [e]" and "es_commands s' = es_commands s"
    and "es_outbox s' = dict_set (st_outbox st) (pending_row st e) (es_outbox s)"
    and "next_sequence s' key =
      (if key = (ea_aggregate_type a, ea_aggregate_id a) then next_sequence s key + 1 else next_sequence s key)"
  using assms by (auto simp: event_append_def Let_def next_sequence_def dict_simps)

lemma outbox_ok_append:
  assumes "outbox_ok s" "st_outbox st \<notin> set (dict_keys (es_outbox s))"
    and "es_events s' = es_events s @ [e]"
    and "es_outbox s' = dict_set (st_outbox st) (pending_row st e) (es_outbox s)"
  shows "outbox_ok s'"
  using assms by (auto simp: outbox_ok_def dict_set_new image_iff split: prod.splits)

lemma event_append_ok [inv_intros]:
  assumes ok: "event_store_ok s" and fresh: "st_outbox st \<notin> set (dict_keys (es_outbox s))"
  shows "event_store_ok (snd (event_append st a s))"
proof -
  obtain e s' where ap: "event_append st a s = (e, s')" by force
  note f = event_append_simps [OF ap]
  have "gapless (es_events s')" "counted s'"
    using ok f by (auto simp: event_store_ok_def counted_def intro!: gapless_append)
  moreover have "outbox_ok s'"
    by (rule outbox_ok_append [OF _ fresh f(2) f(4)]) (use ok in \<open>simp add: event_store_ok_def\<close>)
  moreover have "commands_ok s'" using ok f(3) by (simp add: event_store_ok_def commands_ok_def)
  ultimately show ?thesis using ap by (simp add: event_store_ok_def)
qed

section \<open>The event log as an interface\<close>

text \<open>
  What the mission kernel and the services rely on: appending extends the log by one event that carries
  the caller's arguments and the next number of its aggregate. Both writers provide it.
\<close>

fun emit_all ::
  "(event_stamp \<Rightarrow> event_args \<Rightarrow> 's \<Rightarrow> event \<times> 's) \<Rightarrow> (event_stamp \<times> event_args) list \<Rightarrow> 's \<Rightarrow> 's"
where
  "emit_all emit [] s = s"
| "emit_all emit ((st, a) # xs) s = emit_all emit xs (snd (emit st a s))"

fun all_fresh ::
  "(event_stamp \<Rightarrow> event_args \<Rightarrow> 's \<Rightarrow> event \<times> 's) \<Rightarrow> (event_stamp \<Rightarrow> 's \<Rightarrow> bool)
    \<Rightarrow> (event_stamp \<times> event_args) list \<Rightarrow> 's \<Rightarrow> bool"
where
  "all_fresh emit fresh [] s = True"
| "all_fresh emit fresh ((st, a) # xs) s = (fresh st s \<and> all_fresh emit fresh xs (snd (emit st a s)))"

locale event_log =
  fixes emit :: "event_stamp \<Rightarrow> event_args \<Rightarrow> 's \<Rightarrow> event \<times> 's"
    and log :: "'s \<Rightarrow> event list"
    and fresh :: "event_stamp \<Rightarrow> 's \<Rightarrow> bool"
    and invar :: "'s \<Rightarrow> bool"
  assumes emit_log: "invar s \<Longrightarrow> fresh st s \<Longrightarrow> log (snd (emit st a s)) = log s @ [fst (emit st a s)]"
    and emit_event: "invar s \<Longrightarrow> fresh st s \<Longrightarrow> fst (emit st a s) = stamped_event st a
      (int (length (aggregate_events (ea_aggregate_type a, ea_aggregate_id a) (log s))) + 1)"
    and emit_invar: "invar s \<Longrightarrow> fresh st s \<Longrightarrow> invar (snd (emit st a s))"
begin

lemma emit_all_log:
  "invar s \<Longrightarrow> all_fresh emit fresh xs s \<Longrightarrow> gapless (log s) \<Longrightarrow>
    invar (emit_all emit xs s) \<and> gapless (log (emit_all emit xs s)) \<and> prefix (log s) (log (emit_all emit xs s)) \<and>
    length (log (emit_all emit xs s)) = length (log s) + length xs"
proof (induction xs arbitrary: s)
  case (Cons x xs)
  obtain st a where x: "x = (st, a)" by force
  let ?s = "snd (emit st a s)"
  have fr: "fresh st s" using Cons.prems x by simp
  note law = emit_log [OF Cons.prems(1) fr, of a] emit_event [OF Cons.prems(1) fr, of a]
  have "gapless (log ?s)"
    using Cons.prems(3) law by (simp add: gapless_append)
  then have IH: "invar (emit_all emit xs ?s) \<and> gapless (log (emit_all emit xs ?s)) \<and>
      prefix (log ?s) (log (emit_all emit xs ?s)) \<and> length (log (emit_all emit xs ?s)) = length (log ?s) + length xs"
    using Cons.IH [of ?s] Cons.prems x emit_invar [OF Cons.prems(1) fr] by simp
  have "prefix (log s) (log ?s)" using law(1) by simp
  with IH have "prefix (log s) (log (emit_all emit xs ?s))" using prefix_order.trans by blast
  with IH x law(1) show ?case by simp
qed simp

end

interpretation memory_log: event_log event_append es_events
  "\<lambda>st s. st_outbox st \<notin> set (dict_keys (es_outbox s))" event_store_ok
proof unfold_locales
  fix s :: event_store and st :: event_stamp and a :: event_args
  assume ok: "event_store_ok s" and fr: "st_outbox st \<notin> set (dict_keys (es_outbox s))"
  obtain e s' where ap: "event_append st a s = (e, s')" by force
  note f = event_append_simps [OF ap]
  show "es_events (snd (event_append st a s)) = es_events s @ [fst (event_append st a s)]"
    using ap f(2) by simp
  show "fst (event_append st a s) = stamped_event st a
      (int (length (aggregate_events (ea_aggregate_type a, ea_aggregate_id a) (es_events s))) + 1)"
    using ap f(1) ok by (simp add: event_store_ok_def counted_def)
  show "event_store_ok (snd (event_append st a s))" using ok fr by (rule event_append_ok)
qed

text \<open>What one append draws: a time, the event's identifier, a correlation unless given one, the outbox row's.\<close>

definition draw_stamp :: "event_args \<Rightarrow> env \<Rightarrow> event_stamp \<times> env" where
  "draw_stamp a e =
    (let (now, e1) = clock_now e;
         (eid, e2) = uuid7 e1;
         (cid, e3) = (case ea_correlation a of Some (_ # _) \<Rightarrow> ([], e2) | _ \<Rightarrow> uuid7 e2);
         (oid, e4) = uuid7 e3
     in (\<lparr>st_now = now, st_event = eid, st_correlation = cid, st_outbox = oid\<rparr>, e4))"

lemma draw_stamp_ids:
  assumes "draw_stamp a e = (st, e')"
  shows "ids e' = ids e" and "drawn_ids e \<subseteq> drawn_ids e'" and "st_outbox st \<in> drawn_ids e'"
    and "inj (ids e) \<Longrightarrow> st_outbox st \<notin> drawn_ids e"
  using assms
  by (auto simp: draw_stamp_def clock_now_def uuid7_def drawn_ids_def lessThan_Suc inj_eq
      split: option.splits list.splits)

text \<open>The database writer: the largest number is the count, because the numbers are gapless.\<close>

definition db_ok :: "event_store \<Rightarrow> bool" where
  "db_ok s \<longleftrightarrow> gapless (es_events s) \<and> outbox_ok s \<and> commands_ok s"

definition db_fresh :: "event_stamp \<Rightarrow> event_store \<Rightarrow> bool" where
  "db_fresh st s \<longleftrightarrow> st_event st \<notin> ev_id ` set (es_events s) \<and> st_outbox st \<notin> set (dict_keys (es_outbox s))"

lemma fold_max_upt: "fold max (map int [1..<Suc n]) 0 = int n"
  by (induction n) simp_all

lemma db_next_sequence_count:
  "gapless (es_events s) \<Longrightarrow> db_next_sequence s key = int (length (aggregate_events key (es_events s))) + 1"
  unfolding db_next_sequence_def gapless_def aggregate_events_def [symmetric] by (metis fold_max_upt)

lemma db_event_append_fresh:
  fixes a :: event_args
  assumes "db_fresh st s"
  defines "e \<equiv> stamped_event st a (db_next_sequence s (ea_aggregate_type a, ea_aggregate_id a))"
  shows "db_event_append st a s = (Inr e, s\<lparr>es_events := es_events s @ [e],
      es_outbox := dict_set (st_outbox st) (pending_row st e) (es_outbox s)\<rparr>)"
  using assms by (simp add: db_event_append_def insert_event_def insert_outbox_def db_fresh_def)

interpretation postgres_log: event_log
  "\<lambda>st a s. (projr (fst (db_event_append st a s)), snd (db_event_append st a s))" es_events db_fresh db_ok
proof unfold_locales
  fix s :: event_store and st :: event_stamp and a :: event_args
  assume ok: "db_ok s" and fr: "db_fresh st s"
  let ?key = "(ea_aggregate_type a, ea_aggregate_id a)"
  have seq: "db_next_sequence s ?key = int (length (aggregate_events ?key (es_events s))) + 1"
    using ok by (simp add: db_ok_def db_next_sequence_count)
  let ?e = "stamped_event st a (int (length (aggregate_events ?key (es_events s))) + 1)"
  let ?s = "s\<lparr>es_events := es_events s @ [?e],
    es_outbox := dict_set (st_outbox st) (pending_row st ?e) (es_outbox s)\<rparr>"
  have ap: "db_event_append st a s = (Inr ?e, ?s)"
    using db_event_append_fresh [OF fr, of a] seq by simp
  show "es_events (snd (projr (fst (db_event_append st a s)), snd (db_event_append st a s)))
      = es_events s @ [fst (projr (fst (db_event_append st a s)), snd (db_event_append st a s))]"
    by (simp add: ap)
  show "fst (projr (fst (db_event_append st a s)), snd (db_event_append st a s)) = ?e"
    by (simp add: ap)
  have "outbox_ok ?s"
    by (rule outbox_ok_append [where s = s and st = st and e = ?e])
      (use ok fr in \<open>simp_all add: db_ok_def db_fresh_def\<close>)
  moreover have "gapless (es_events ?s)"
    using ok by (simp add: db_ok_def gapless_append)
  ultimately show "db_ok (snd (projr (fst (db_event_append st a s)), snd (db_event_append st a s)))"
    using ok by (simp add: ap db_ok_def commands_ok_def)
qed

section \<open>Dispatching the outbox\<close>

lemma outbox_ids: "outbox_ok s \<Longrightarrow> map ob_id (dict_values (es_outbox s)) = dict_keys (es_outbox s)"
  by (auto simp: outbox_ok_def)

lemma distinct_pending_ids:
  assumes "outbox_ok s"
  shows "distinct (map ob_id (sort_key f (unpublished s)))"
proof -
  have "distinct (map ob_id (dict_values (es_outbox s)))"
    unfolding outbox_ids [OF assms] using assms by (simp add: outbox_ok_def)
  then have "distinct (map ob_id (unpublished s))"
    unfolding unpublished_def by (rule distinct_map_filter)
  then show ?thesis by (simp add: distinct_map)
qed

lemma outbox_row:
  assumes "outbox_ok s" "row \<in> set (dict_values (es_outbox s))"
  shows "dict_get (es_outbox s) (ob_id row) = Some row"
    and "\<exists>e. event_validate (ob_payload row) = Some e \<and> ob_payload row = event_dump e \<and>
      ob_event row = ev_id e \<and> e \<in> set (es_events s)"
  using assms by (force simp: outbox_ok_def event_validate_dump)+

lemma outbox_okI:
  assumes "dict_ok (es_outbox s)"
    and "\<And>k r. (k, r) \<in> set (es_outbox s) \<Longrightarrow>
      ob_id r = k \<and> (\<exists>e \<in> set (es_events s). ob_event r = ev_id e \<and> ob_payload r = event_dump e)"
    and "\<And>e. e \<in> set (es_events s) \<Longrightarrow> \<exists>r \<in> set (dict_values (es_outbox s)). ob_payload r = event_dump e"
  shows "outbox_ok s"
  unfolding outbox_ok_def using assms by (simp only: split_paired_all case_prod_conv ball_simps) blast

lemma outbox_event_row:
  "outbox_ok s \<Longrightarrow> e \<in> set (es_events s) \<Longrightarrow> \<exists>row \<in> set (dict_values (es_outbox s)). ob_payload row = event_dump e"
  unfolding outbox_ok_def by blast

text \<open>Replacing a stored row by one for the same event: nothing but that row changes.\<close>

lemma outbox_ok_replace:
  assumes ok: "outbox_ok s" and row: "row \<in> set (dict_values (es_outbox s))"
    and upd: "ob_id upd = ob_id row" "ob_event upd = ob_event row" "ob_payload upd = ob_payload row"
  defines "s' \<equiv> s\<lparr>es_outbox := dict_set (ob_id row) upd (es_outbox s)\<rparr>"
  shows "outbox_ok s'"
    and "\<And>r. r \<in> set (dict_values (es_outbox s)) \<Longrightarrow> ob_id r \<noteq> ob_id row \<Longrightarrow> r \<in> set (dict_values (es_outbox s'))"
proof -
  have get': "dict_get (es_outbox s') k = (if k = ob_id row then Some upd else dict_get (es_outbox s) k)" for k
    by (simp add: s'_def dict_simps)
  show keep: "r \<in> set (dict_values (es_outbox s'))"
    if "r \<in> set (dict_values (es_outbox s))" "ob_id r \<noteq> ob_id row" for r
    using outbox_row(1) [OF ok that(1)] that(2) get' dict_get_value by (metis (full_types))
  have rows: "ob_id r = k \<and> (\<exists>e \<in> set (es_events s). ob_event r = ev_id e \<and> ob_payload r = event_dump e)"
    if "(k, r) \<in> set (es_outbox s')" for k r
  proof (cases "k = ob_id row \<and> r = upd")
    case True
    then show ?thesis using outbox_row(2) [OF ok row] upd by auto
  next
    case False
    then have "(k, r) \<in> set (es_outbox s)"
      using that dict_set_entry unfolding s'_def by fastforce
    with ok show ?thesis unfolding outbox_ok_def by blast
  qed
  have covered: "\<exists>r \<in> set (dict_values (es_outbox s')). ob_payload r = event_dump e"
    if ev: "e \<in> set (es_events s)" for e
  proof -
    obtain r where r: "r \<in> set (dict_values (es_outbox s))" "ob_payload r = event_dump e"
      using outbox_event_row [OF ok ev] by blast
    show ?thesis
    proof (cases "ob_id r = ob_id row")
      case True
      then have "r = row" using outbox_row(1) [OF ok r(1)] outbox_row(1) [OF ok row] by (metis option.inject)
      moreover have "upd \<in> set (dict_values (es_outbox s'))"
        using get' [of "ob_id row"] dict_get_value by fastforce
      ultimately show ?thesis using r(2) upd(3) by auto
    next
      case False
      with r keep show ?thesis by blast
    qed
  qed
  have same: "es_events s' = es_events s" "dict_ok (es_outbox s')"
    using ok by (simp_all add: s'_def outbox_ok_def)
  show "outbox_ok s'"
    using same(2) rows covered unfolding same(1) [symmetric] by (rule outbox_okI)
qed

lemma unpublished_replace:
  assumes ok: "outbox_ok s" and row: "row \<in> set (dict_values (es_outbox s))"
    and st: "ob_status upd \<noteq> ''pending''"
  shows "unpublished (s\<lparr>es_outbox := dict_set (ob_id row) upd (es_outbox s)\<rparr>)
    = filter (\<lambda>r. ob_id r \<noteq> ob_id row) (unpublished s)"
proof -
  have dk: "dict_ok (es_outbox s)" and kid: "\<forall>(k, r) \<in> set (es_outbox s). ob_id r = k"
    using ok by (auto simp: outbox_ok_def)
  have key: "ob_id row \<in> set (dict_keys (es_outbox s))"
    using outbox_row(1) [OF ok row] by (rule dict_get_key)
  have "filter (\<lambda>r. ob_status r = ''pending'') (map snd (map (\<lambda>(k', v'). (k', if k' = ob_id row then upd else v')) d))
      = filter (\<lambda>r. ob_id r \<noteq> ob_id row) (filter (\<lambda>r. ob_status r = ''pending'') (map snd d))"
    if "\<forall>(k, r) \<in> set d. ob_id r = k" for d
    using that st by (induction d) auto
  from this [OF kid] show ?thesis
    unfolding unpublished_def by (simp add: dict_set_old [OF dk key] del: map_map)
qed

lemma mark_published_row:
  assumes ok: "outbox_ok s" and row: "row \<in> set (dict_values (es_outbox s))"
  obtains s' upd where "mark_published now (ob_id row) s = (Inr upd, s')" "outbox_ok s'"
    "es_events s' = es_events s" "es_commands s' = es_commands s" "es_sequences s' = es_sequences s"
    "unpublished s' = filter (\<lambda>r. ob_id r \<noteq> ob_id row) (unpublished s)"
    "\<And>r. r \<in> set (dict_values (es_outbox s)) \<Longrightarrow> ob_id r \<noteq> ob_id row \<Longrightarrow> r \<in> set (dict_values (es_outbox s'))"
proof -
  define upd where "upd = row\<lparr>ob_status := ''published'', ob_published_at := Some now, ob_updated_at := now\<rparr>"
  define s' where "s' = s\<lparr>es_outbox := dict_set (ob_id row) upd (es_outbox s)\<rparr>"
  have upd: "ob_id upd = ob_id row" "ob_event upd = ob_event row" "ob_payload upd = ob_payload row"
    "ob_status upd \<noteq> ''pending''" by (simp_all add: upd_def)
  note r = outbox_ok_replace [OF ok row upd(1-3), folded s'_def] unpublished_replace [OF ok row upd(4), folded s'_def]
  have "mark_published now (ob_id row) s = (Inr upd, s')"
    using outbox_row(1) [OF ok row] by (simp add: mark_published_def upd_def s'_def)
  then show ?thesis
    by (rule that [OF _ r(1) _ _ _ r(3) r(2)]) (simp_all add: s'_def)
qed

text \<open>
  What a dispatch of some rows leaves behind: a number \<open>n\<close> of them was published and marked, in order;
  \<open>n\<close> falls short of all of them only when the publisher refused the next one.
\<close>

definition dispatched ::
  "(event \<Rightarrow> unit result) \<Rightarrow> outbox list \<Rightarrow> event_store \<Rightarrow> unit result \<times> event_store \<times> event list \<Rightarrow> nat \<Rightarrow> bool"
where
  "dispatched publish rows s out n \<longleftrightarrow>
    (case out of (r, s', es) \<Rightarrow>
      n \<le> length rows \<and> map event_dump es = map ob_payload (take n rows) \<and>
      outbox_ok s' \<and> es_events s' = es_events s \<and> es_commands s' = es_commands s \<and>
      es_sequences s' = es_sequences s \<and>
      unpublished s' = filter (\<lambda>row. ob_id row \<notin> ob_id ` set (take n rows)) (unpublished s) \<and>
      (if n = length rows then r = Inr ()
       else \<exists>e err. ob_payload (rows ! n) = event_dump e \<and> publish e = Inl err \<and> r = Inl err))"

lemma dispatch_rows_spec:
  "outbox_ok s \<Longrightarrow> distinct (map ob_id rows) \<Longrightarrow> set rows \<subseteq> set (dict_values (es_outbox s)) \<Longrightarrow>
    \<exists>n. dispatched publish rows s (dispatch_rows publish clk rows s) n"
proof (induction rows arbitrary: s clk)
  case Nil
  then show ?case by (simp add: dispatched_def)
next
  case (Cons row rows)
  have mem: "row \<in> set (dict_values (es_outbox s))" using Cons.prems(3) by simp
  obtain e where e: "event_validate (ob_payload row) = Some e" "ob_payload row = event_dump e"
    using outbox_row(2) [OF Cons.prems(1) mem] by blast
  show ?case
  proof (cases "publish e")
    case (Inl err)
    then have "dispatched publish (row # rows) s (dispatch_rows publish clk (row # rows) s) 0"
      using e Cons.prems(1) by (auto simp: dispatched_def)
    then show ?thesis ..
  next
    case (Inr u)
    obtain s1 upd where m: "mark_published (clk 0) (ob_id row) s = (Inr upd, s1)" "outbox_ok s1"
      "es_events s1 = es_events s" "es_commands s1 = es_commands s" "es_sequences s1 = es_sequences s"
      "unpublished s1 = filter (\<lambda>r. ob_id r \<noteq> ob_id row) (unpublished s)"
      "\<And>r. r \<in> set (dict_values (es_outbox s)) \<Longrightarrow> ob_id r \<noteq> ob_id row \<Longrightarrow> r \<in> set (dict_values (es_outbox s1))"
      using mark_published_row [OF Cons.prems(1) mem] by blast
    let ?out = "dispatch_rows publish (\<lambda>n. clk (Suc n)) rows s1"
    have "set rows \<subseteq> set (dict_values (es_outbox s1))"
    proof
      fix r assume "r \<in> set rows"
      with Cons.prems(2,3) show "r \<in> set (dict_values (es_outbox s1))" by (intro m(7)) (auto simp: image_iff)
    qed
    moreover have "distinct (map ob_id rows)" using Cons.prems(2) by simp
    ultimately obtain n where n: "dispatched publish rows s1 ?out n"
      using Cons.IH [OF m(2)] by blast
    obtain r s' es where out: "?out = (r, s', es)" by (cases ?out)
    have "dispatch_rows publish clk (row # rows) s = (r, s', e # es)"
      using e(1) Inr m(1) out by simp
    then have "dispatched publish (row # rows) s (dispatch_rows publish clk (row # rows) s) (Suc n)"
      using n out m e(2) by (auto simp: dispatched_def conj_commute intro!: filter_cong split: if_splits)
    then show ?thesis ..
  qed
qed

lemma claim_pending_subset: "set (claim_pending s limit) \<subseteq> set (dict_values (es_outbox s))"
  by (auto simp: claim_pending_def py_take_def unpublished_def dest!: in_set_takeD)

lemma claim_pending_distinct: "outbox_ok s \<Longrightarrow> distinct (map ob_id (claim_pending s limit))"
  using distinct_pending_ids [of s ob_created_at]
  by (simp add: claim_pending_def py_take_def take_map [symmetric])

text \<open>One row per transaction or one batch: the same deliveries and the same store.\<close>

lemma drain_dispatch_rows:
  "outbox_ok s \<Longrightarrow> drain publish clk n s =
    (case dispatch_rows publish clk (take n (sort_key ob_created_at (unpublished s))) s of
       (Inl e, s', es) \<Rightarrow> (Inl e, s', es)
     | (Inr _, s', es) \<Rightarrow> (Inr (int (length (take n (sort_key ob_created_at (unpublished s))))), s', es))"
proof (induction n arbitrary: s clk)
  case (Suc n)
  let ?q = "sort_key ob_created_at (unpublished s)"
  have claim: "claim_pending s 1 = take 1 ?q" by (simp add: claim_pending_def py_take_def)
  show ?case
  proof (cases ?q)
    case Nil
    then show ?thesis by (simp add: claim)
  next
    case (Cons row rest)
    have "row \<in> set ?q" by (simp add: Cons)
    then have mem: "row \<in> set (dict_values (es_outbox s))" by (auto simp: unpublished_def)
    obtain e where e: "event_validate (ob_payload row) = Some e"
      using outbox_row(2) [OF Suc.prems mem] by blast
    obtain s1 upd where m: "mark_published (clk 0) (ob_id row) s = (Inr upd, s1)" "outbox_ok s1"
        "unpublished s1 = filter (\<lambda>r. ob_id r \<noteq> ob_id row) (unpublished s)"
      using mark_published_row [OF Suc.prems mem] by metis
    have "sort_key ob_created_at (unpublished s1) = filter (\<lambda>r. ob_id r \<noteq> ob_id row) ?q"
      by (simp add: m(3) filter_sort)
    also have "\<dots> = rest"
      using distinct_pending_ids [OF Suc.prems, of ob_created_at] Cons
      by (force simp: filter_id_conv image_iff)
    finally have q1: "sort_key ob_created_at (unpublished s1) = rest" .
    show ?thesis
      using e m(1) Suc.IH [OF m(2), of "\<lambda>k. clk (Suc k)"] Cons
      by (simp add: claim q1 split: sum.split prod.split unit.split)
  qed
qed simp

section \<open>The command ledger\<close>

lemma update_command_status_keys [simp]:
  "dict_keys (es_commands (update_command_status cid st res now s)) = dict_keys (es_commands s)"
  by (simp add: update_command_status_def case_prod_beta comp_def)

lemma update_command_status_get:
  "dict_get (es_commands (update_command_status cid st res now s)) k =
    map_option (\<lambda>c. if ci_command c = cid then c\<lparr>ci_status := st, ci_result := res, ci_updated_at := now\<rparr> else c)
      (dict_get (es_commands s) k)"
  by (simp add: update_command_status_def map_of_map)

lemma ledger_begin_new:
  "ledger_begin now i t p k h c ttl s = (Inr (r, True), s') \<longleftrightarrow>
    (t, k) \<notin> set (dict_keys (es_commands s)) \<and>
    r = \<lparr>ci_command = (case c of Some c \<Rightarrow> c | None \<Rightarrow> i), ci_tenant = t, ci_project = p, ci_key = k,
      ci_request_hash = h, ci_status = ''in_progress'', ci_result = None,
      ci_expires_at = now + (case ttl of Some w \<Rightarrow> if w = 0 then default_window else w | None \<Rightarrow> default_window),
      ci_created_at = now, ci_updated_at = now\<rparr> \<and>
    s' = s\<lparr>es_commands := dict_set (t, k) r (es_commands s)\<rparr>"
  by (auto simp: ledger_begin_def insert_if_absent_def split: option.splits if_splits)

lemma ledger_begin_old:
  "(t, k) \<in> set (dict_keys (es_commands s)) \<Longrightarrow> snd (ledger_begin now i t p k h c ttl s) = s"
  by (auto simp: ledger_begin_def insert_if_absent_def split: option.splits)

lemma ledger_step_keys:
  assumes "ledger_step x s = (ks, s')"
  shows "distinct ks" "set ks \<inter> set (dict_keys (es_commands s)) = {}"
    and "set (dict_keys (es_commands s')) = set ks \<union> set (dict_keys (es_commands s))"
proof -
  have "distinct ks \<and> set ks \<inter> set (dict_keys (es_commands s)) = {} \<and>
      set (dict_keys (es_commands s')) = set ks \<union> set (dict_keys (es_commands s))"
  proof (cases x)
    case (LBegin now i t p k h c ttl)
    obtain r s1 where b: "ledger_begin now i t p k h c ttl s = (r, s1)" by force
    show ?thesis
    proof (cases "(t, k) \<in> set (dict_keys (es_commands s))")
      case True
      then have "s1 = s" "\<And>u. r \<noteq> Inr (u, True)"
        using b ledger_begin_old [OF True, of now i p h c ttl] ledger_begin_new [of now i t p k h c ttl s _ s1]
        by auto
      with assms LBegin b show ?thesis by (auto split: sum.splits prod.splits bool.splits)
    next
      case False
      then have "ledger_step x s = ([(t, k)], s1) \<and>
          (\<exists>u. s1 = s\<lparr>es_commands := dict_set (t, k) u (es_commands s)\<rparr>)"
        using b LBegin by (auto simp: ledger_begin_def insert_if_absent_def)
      with assms False show ?thesis by (auto simp: dict_keys_set simp del: set_map)
    qed
  qed (use assms in \<open>auto simp: ledger_complete_def ledger_fail_def simp del: set_map split: option.splits\<close>)
  then show "distinct ks" "set ks \<inter> set (dict_keys (es_commands s)) = {}"
    "set (dict_keys (es_commands s')) = set ks \<union> set (dict_keys (es_commands s))" by blast+
qed

lemma ledger_run_keys:
  "distinct (fst (ledger_run xs s)) \<and> set (fst (ledger_run xs s)) \<inter> set (dict_keys (es_commands s)) = {}"
proof (induction xs arbitrary: s)
  case (Cons x xs)
  obtain ks s' where st: "ledger_step x s = (ks, s')" by force
  obtain ls s'' where rn: "ledger_run xs s' = (ls, s'')" by force
  have "fst (ledger_run (x # xs) s) = ks @ ls" using st rn by simp
  with ledger_step_keys [OF st] Cons.IH [of s'] rn show ?case by auto
qed simp

section \<open>Properties\<close>

definition outbox_fresh :: "event_stamp \<Rightarrow> event_store \<Rightarrow> bool" where
  "outbox_fresh st s \<longleftrightarrow> st_outbox st \<notin> set (dict_keys (es_outbox s))"

text \<open>
  However many events are appended (with fresh outbox identifiers), every aggregate's sequence numbers
  stay 1, 2, 3, \<dots> without a gap, the log only grows, by one event per call, and the store invariant
  (every event has an outbox row that decodes to it) is kept.
\<close>

theorem append_gapless:
  assumes "event_store_ok s" and "all_fresh event_append outbox_fresh xs s"
  shows "event_store_ok (emit_all event_append xs s) \<and> gapless (es_events (emit_all event_append xs s)) \<and>
    prefix (es_events s) (es_events (emit_all event_append xs s)) \<and>
    length (es_events (emit_all event_append xs s)) = length (es_events s) + length xs"
proof -
  have "outbox_fresh = (\<lambda>st s. st_outbox st \<notin> set (dict_keys (es_outbox s)))"
    by (simp add: fun_eq_iff outbox_fresh_def)
  with assms show ?thesis
    using memory_log.emit_all_log [of s xs] by (simp add: event_store_ok_def)
qed

definition sample_args :: "string \<Rightarrow> event_args" where
  "sample_args agg = \<lparr>ea_type = ''T'', ea_aggregate_type = ''mission'', ea_aggregate_id = agg,
    ea_tenant = ''t'', ea_project = ''p'', ea_payload = [(''k'', JInt 1)], ea_mission = Some agg,
    ea_task = None, ea_correlation = None, ea_causation = None\<rparr>"

definition sample_stamp :: "string \<Rightarrow> time \<Rightarrow> event_stamp" where
  "sample_stamp i n = \<lparr>st_now = n, st_event = ''e'' @ i, st_correlation = ''c'' @ i, st_outbox = ''o'' @ i\<rparr>"

definition sample_emissions :: "(event_stamp \<times> event_args) list" where
  "sample_emissions = [(sample_stamp ''1'' 7, sample_args ''m''), (sample_stamp ''2'' 5, sample_args ''n''),
    (sample_stamp ''3'' 6, sample_args ''m'')]"

definition sample_store :: event_store where
  "sample_store = emit_all event_append sample_emissions empty_event_store"

lemma sample_fresh: "all_fresh event_append outbox_fresh sample_emissions empty_event_store"
  by (simp add: sample_emissions_def sample_stamp_def sample_args_def outbox_fresh_def event_append_def
      empty_event_store_def)

lemma sample_store_ok: "event_store_ok sample_store"
proof -
  have "outbox_fresh = (\<lambda>st s. st_outbox st \<notin> set (dict_keys (es_outbox s)))"
    by (simp add: fun_eq_iff outbox_fresh_def)
  then show ?thesis
    using memory_log.emit_all_log [of empty_event_store sample_emissions] sample_fresh
    by (simp add: sample_store_def event_store_ok_def empty_event_store_ok [unfolded event_store_ok_def])
qed

lemmas sample_store_eval = sample_store_def sample_emissions_def sample_stamp_def sample_args_def
  event_append_def empty_event_store_def next_sequence_def stamped_event_def

theorem append_gapless_witness:
  "event_store_ok sample_store \<and> gapless (es_events sample_store) \<and>
    map ev_sequence (es_events sample_store) = [1, 1, 2]"
proof -
  have "map ev_sequence (es_events sample_store) = [1, 1, 2]"
    by (simp add: sample_store_eval)
  with append_gapless [OF empty_event_store_ok sample_fresh] show ?thesis
    by (simp add: sample_store_def)
qed

text \<open>
  The two event writers agree: on stores with the same rows, the PostgreSQL writer (which takes the
  largest stored number plus one) and the in-memory engine (which keeps a counter) produce the same event,
  the same log and the same outbox.
\<close>

theorem append_writers_agree:
  assumes "event_store_ok s" and "db_fresh st d" and "es_events d = es_events s" and "es_outbox d = es_outbox s"
  shows "fst (db_event_append st a d) = Inr (fst (event_append st a s)) \<and>
    es_events (snd (db_event_append st a d)) = es_events (snd (event_append st a s)) \<and>
    es_outbox (snd (db_event_append st a d)) = es_outbox (snd (event_append st a s))"
proof -
  let ?key = "(ea_aggregate_type a, ea_aggregate_id a)"
  have "db_next_sequence d ?key = next_sequence s ?key"
    using assms db_next_sequence_count [of d ?key] by (simp add: event_store_ok_def counted_def)
  then show ?thesis
    using db_event_append_fresh [OF assms(2), of a] assms(3,4) by (simp add: event_append_def)
qed

theorem append_writers_agree_witness:
  "fst (db_event_append (sample_stamp ''4'' 9) (sample_args ''m'') sample_store) =
     Inr (fst (event_append (sample_stamp ''4'' 9) (sample_args ''m'') sample_store)) \<and>
   ev_sequence (fst (event_append (sample_stamp ''4'' 9) (sample_args ''m'') sample_store)) = 3"
proof -
  have "db_fresh (sample_stamp ''4'' 9) sample_store"
    by (simp add: db_fresh_def sample_store_eval)
  moreover have "ev_sequence (fst (event_append (sample_stamp ''4'' 9) (sample_args ''m'') sample_store)) = 3"
    by (simp add: sample_store_eval)
  ultimately show ?thesis
    using append_writers_agree [OF sample_store_ok _ refl refl] by blast
qed

text \<open>
  A dispatch is exact: some number \<open>n\<close> of the claimed rows is handed to the publisher, oldest first,
  precisely those rows leave the pending set, the event log is untouched, and \<open>n\<close> falls short of the
  claim only if the publisher raised on the next row, whose error is returned while its row stays pending.
\<close>

theorem dispatch_exact:
  assumes "event_store_ok s" and "dispatch publish clk limit s = (r, s', es)"
  shows "\<exists>n \<le> length (claim_pending s limit).
    map event_dump es = map ob_payload (take n (claim_pending s limit)) \<and>
    event_store_ok s' \<and> es_events s' = es_events s \<and>
    unpublished s' = filter (\<lambda>row. ob_id row \<notin> ob_id ` set (take n (claim_pending s limit))) (unpublished s) \<and>
    (if n = length (claim_pending s limit) then r = Inr (int n)
     else \<exists>e err. ob_payload (claim_pending s limit ! n) = event_dump e \<and> publish e = Inl err \<and> r = Inl err)"
proof -
  let ?q = "claim_pending s limit"
  have ok: "outbox_ok s" using assms(1) by (simp add: event_store_ok_def)
  obtain n where n: "dispatched publish ?q s (dispatch_rows publish clk ?q s) n"
    using dispatch_rows_spec [OF ok claim_pending_distinct [OF ok] claim_pending_subset] by blast
  obtain r' where out: "dispatch_rows publish clk ?q s = (r', s', es)"
    and r: "r = (case r' of Inl e \<Rightarrow> Inl e | Inr _ \<Rightarrow> Inr (int (length ?q)))"
    using assms(2) by (auto simp: dispatch_def split: prod.splits sum.splits)
  have "event_store_ok s'"
    using n out assms(1) by (auto simp: dispatched_def event_store_ok_def counted_def next_sequence_def commands_ok_def)
  with n out r show ?thesis
    by (intro exI [of _ n]) (auto simp: dispatched_def split: if_splits)
qed

definition sample_publisher :: "event \<Rightarrow> unit result" where
  "sample_publisher e = (if ev_id e = ''e1'' then Inl (ValueError ''down'') else Inr ())"

theorem dispatch_exact_witness:
  "\<exists>r s' es. dispatch sample_publisher (\<lambda>_. 9) 16 sample_store = (r, s', es) \<and> event_store_ok s' \<and>
     r = Inl (ValueError ''down'') \<and> map ev_id es = [''e2'', ''e3''] \<and> map ob_id (unpublished s') = [''o1'']"
proof -
  let ?d = "dispatch sample_publisher (\<lambda>_. 9) 16 sample_store"
  have "fst ?d = Inl (ValueError ''down'') \<and> map ev_id (snd (snd ?d)) = [''e2'', ''e3''] \<and>
      map ob_id (unpublished (fst (snd ?d))) = [''o1'']"
    by (simp add: sample_store_eval dispatch_def claim_pending_def unpublished_def pending_row_def py_take_def
        mark_published_def event_validate_dump sample_publisher_def)
  moreover have "event_store_ok (fst (snd ?d))"
    using dispatch_exact [OF sample_store_ok, of sample_publisher "\<lambda>_. 9" 16 "fst ?d" "fst (snd ?d)" "snd (snd ?d)"]
    by (metis prod.collapse)
  ultimately show ?thesis by (metis prod.collapse)
qed

text \<open>
  Draining the outbox one row per transaction delivers the same events, leaves the same store and
  returns the same result as one batch dispatch with the same limit.
\<close>

theorem drain_eq_dispatch:
  assumes "event_store_ok s"
  shows "drain publish clk n s = dispatch publish clk (int n) s"
  using assms drain_dispatch_rows [of s publish clk n]
  by (simp add: event_store_ok_def dispatch_def claim_pending_def py_take_def)

theorem drain_eq_dispatch_witness:
  "drain sample_publisher (\<lambda>_. 9) 2 sample_store = dispatch sample_publisher (\<lambda>_. 9) (int 2) sample_store \<and>
    length (unpublished sample_store) = 3"
proof -
  have "length (unpublished sample_store) = 3"
    by (simp add: sample_store_eval unpublished_def pending_row_def)
  with drain_eq_dispatch [OF sample_store_ok, of sample_publisher "\<lambda>_. 9" 2] show ?thesis by simp
qed

text \<open>
  C31. The command ledger lets a mutation through at most once: over any sequence of \<open>begin\<close>,
  \<open>complete\<close> and \<open>fail\<close> calls, no (tenant, idempotency key) pair is reported new twice, and none that
  the ledger already held is reported new at all.
\<close>

theorem ledger_at_most_once:
  "distinct (fst (ledger_run ops s)) \<and> set (fst (ledger_run ops s)) \<inter> set (dict_keys (es_commands s)) = {}"
  by (rule ledger_run_keys)

text \<open>
  A repeated command is answered from the ledger: after a \<open>begin\<close> that was let through and the
  \<open>complete\<close> of its command, a \<open>begin\<close> with the same key and request hash before the expiry returns the
  completed record with the stored result, reports it as not new, and changes nothing.
\<close>

theorem ledger_replays_result:
  assumes "ledger_begin t0 i tenant project key h cid ttl s = (Inr (r, True), s1)"
    and "ledger_complete t1 (ci_command r) res s1 = (Inr c, s2)"
    and "t2 < ci_expires_at r"
  shows "\<exists>r'. ledger_begin t2 i' tenant project' key h cid' ttl' s2 = (Inr (r', False), s2) \<and>
    ci_status r' = ''completed'' \<and> ci_result r' = Some res \<and> ci_command r' = ci_command r"
proof -
  from assms(1) have s1: "dict_get (es_commands s1) (tenant, key) = Some r"
    and h: "ci_request_hash r = h" by (auto simp: ledger_begin_new dict_simps)
  let ?r = "r\<lparr>ci_status := ''completed'', ci_result := Some res, ci_updated_at := t1\<rparr>"
  from assms(2) have "s2 = update_command_status (ci_command r) ''completed'' (Some res) t1 s1"
    by (auto simp: ledger_complete_def split: option.splits)
  then have get: "dict_get (es_commands s2) (tenant, key) = Some ?r"
    using s1 by (simp add: update_command_status_get)
  then have key: "(tenant, key) \<in> fst ` set (es_commands s2)"
    using dict_get_key [OF get] by simp
  show ?thesis
    using assms(3) h get key by (simp add: ledger_begin_def insert_if_absent_def)
qed

theorem ledger_replays_result_witness:
  "\<exists>r s1 c s2. ledger_begin 0 ''c1'' ''t'' ''p'' ''k'' ''h'' None None empty_event_store = (Inr (r, True), s1) \<and>
     ledger_complete 5 ''c1'' (JInt 42) s1 = (Inr c, s2) \<and>
     (\<exists>r'. ledger_begin 9 ''c2'' ''t'' ''p'' ''k'' ''h'' None None s2 = (Inr (r', False), s2) \<and>
       ci_result r' = Some (JInt 42))"
proof -
  obtain r s1 where b: "ledger_begin 0 ''c1'' ''t'' ''p'' ''k'' ''h'' None None empty_event_store
      = (Inr (r, True), s1)" "ci_command r = ''c1''" "9 < ci_expires_at r"
    by (simp add: ledger_begin_def insert_if_absent_def empty_event_store_def default_window_def)
  obtain c s2 where c: "ledger_complete 5 ''c1'' (JInt 42) s1 = (Inr c, s2)"
    using b by (auto simp: ledger_begin_new ledger_complete_def update_command_status_def command_by_id_def
        empty_event_store_def)
  show ?thesis
    using ledger_replays_result [OF b(1) _ b(3), of 5 "JInt 42" c s2 "''c2''" "''p''" None None] b c by auto
qed

text \<open>
  What the outbox stores is the event: decoding a freshly appended row gives the appended event back,
  every field included.
\<close>

theorem outbox_roundtrip:
  assumes "event_append st a s = (e, s')"
  shows "\<exists>row. dict_get (es_outbox s') (st_outbox st) = Some row \<and> ob_status row = ''pending'' \<and>
    event_validate (ob_payload row) = Some e"
  using assms event_append_simps(4) [OF assms] by (simp add: dict_simps event_validate_dump)

theorem outbox_roundtrip_witness:
  "\<exists>e s' row. event_append (sample_stamp ''4'' 9) (sample_args ''m'') sample_store = (e, s') \<and>
    dict_get (es_outbox s') ''o4'' = Some row \<and> event_validate (ob_payload row) = Some e"
proof -
  obtain e s' where "event_append (sample_stamp ''4'' 9) (sample_args ''m'') sample_store = (e, s')" by force
  with outbox_roundtrip [OF this] show ?thesis by (auto simp: sample_stamp_def)
qed

end
