(* ===== verification/AuditLedger.thy ===== *)
theory AuditLedger
  imports Hashing
begin

text \<open>
  \<open>engine/audit/ledger.py\<close> and \<open>engine/audit/service.py\<close>: the hash-chained audit ledger. The in-memory
  store is a dictionary by identifier; the production store is the table with the same rows, of which the
  writer reads the latest row of a tenant. Proved here: whatever is appended, in whatever order across
  tenants, every tenant's chain verifies; and a verified chain fixes its history: another verified chain
  with the same last hash has the same entries, unless two of the entries hashed make SHA-256 collide.
\<close>

section \<open>Model\<close>

record audit_event =
  ae_id :: uuid
  ae_tenant :: uuid
  ae_project :: "uuid option"
  ae_type :: string
  ae_sequence :: int
  ae_prev_hash :: "string option"
  ae_entry_hash :: string
  ae_payload :: "(string \<times> json) list"
  ae_created_at :: time
  ae_updated_at :: time

definition audit_entry_json :: "string option \<Rightarrow> uuid \<Rightarrow> string \<Rightarrow> (string \<times> json) list \<Rightarrow> json" where
  "audit_entry_json prev_hash eid ty payload =
    JObj [(''prev_hash'', case prev_hash of None \<Rightarrow> JNull | Some h \<Rightarrow> JStr h),
          (''audit_event_id'', JStr eid), (''event_type'', JStr ty), (''payload'', JObj payload)]"

definition audit_entry_hash :: "string option \<Rightarrow> uuid \<Rightarrow> string \<Rightarrow> (string \<times> json) list \<Rightarrow> string" where
  "audit_entry_hash prev_hash eid ty payload =
    sha256_hex (canonical_json (audit_entry_json prev_hash eid ty payload))"

type_synonym audit_store = "(uuid, audit_event) dict"

definition for_tenant :: "audit_store \<Rightarrow> uuid \<Rightarrow> audit_event list" where
  "for_tenant store tenant =
    sort_key ae_sequence (filter (\<lambda>e. ae_tenant e = tenant) (dict_values store))"

definition audit_record ::
  "time \<Rightarrow> uuid \<Rightarrow> audit_event option \<Rightarrow> uuid \<Rightarrow> string \<Rightarrow> (string \<times> json) list \<Rightarrow> uuid option \<Rightarrow> audit_event"
where
  "audit_record now eid prev tenant ty payload project =
    (let prev_hash = map_option ae_entry_hash prev in
     \<lparr>ae_id = eid, ae_tenant = tenant, ae_project = project, ae_type = ty,
      ae_sequence = (case prev of None \<Rightarrow> 1 | Some p \<Rightarrow> ae_sequence p + 1),
      ae_prev_hash = prev_hash, ae_entry_hash = audit_entry_hash prev_hash eid ty payload,
      ae_payload = payload, ae_created_at = now, ae_updated_at = now\<rparr>)"

definition audit_append ::
  "time \<Rightarrow> uuid \<Rightarrow> uuid \<Rightarrow> string \<Rightarrow> (string \<times> json) list \<Rightarrow> uuid option \<Rightarrow> audit_store \<Rightarrow> audit_event \<times> audit_store"
where
  "audit_append now eid tenant ty payload project store =
    (let chain = for_tenant store tenant;
         prev = (if chain = [] then None else Some (last chain));
         record = audit_record now eid prev tenant ty payload project
     in (record, dict_set eid record store))"

fun verify_entries :: "string option \<Rightarrow> audit_event list \<Rightarrow> unit result" where
  "verify_entries prev_hash [] = Inr ()"
| "verify_entries prev_hash (entry # rest) =
    (let expected = audit_entry_hash prev_hash (ae_id entry) (ae_type entry) (ae_payload entry) in
     if ae_prev_hash entry \<noteq> prev_hash \<or> ae_entry_hash entry \<noteq> expected then
       Inl (DdeError ''POLICY_DENIED'' ''Audit ledger hash chain is broken'' False
         [(''audit_event_id'', JStr (ae_id entry))])
     else verify_entries (Some (ae_entry_hash entry)) rest)"

definition verify_chain :: "audit_store \<Rightarrow> uuid \<Rightarrow> unit result" where
  "verify_chain store tenant = verify_entries None (for_tenant store tenant)"

text \<open>\<open>AuditRepository.get_latest\<close>: the tenant's row with the largest sequence.\<close>

definition get_latest :: "audit_store \<Rightarrow> uuid \<Rightarrow> audit_event option" where
  "get_latest store tenant =
    (case sort_key (\<lambda>e. - ae_sequence e) (filter (\<lambda>e. ae_tenant e = tenant) (dict_values store)) of
       [] \<Rightarrow> None | e # _ \<Rightarrow> Some e)"

definition db_audit_append ::
  "time \<Rightarrow> uuid \<Rightarrow> uuid \<Rightarrow> string \<Rightarrow> (string \<times> json) list \<Rightarrow> uuid option \<Rightarrow> audit_store \<Rightarrow> audit_event result \<times> audit_store"
where
  "db_audit_append now eid tenant ty payload project store =
    (let record = audit_record now eid (get_latest store tenant) tenant ty payload project in
     if eid \<in> set (dict_keys store) then (Inl (IntegrityError ''audit_events''), store)
     else (Inr record, dict_set eid record store))"

lemma audit_entry_json_sorted:
  "sort_keys (audit_entry_json p i t d) =
    JObj [(''audit_event_id'', JStr i), (''event_type'', JStr t), (''payload'', sort_keys (JObj d)),
      (''prev_hash'', case p of None \<Rightarrow> JNull | Some h \<Rightarrow> JStr h)]"
  by (cases p) (simp_all add: audit_entry_json_def)

section \<open>Hash chains\<close>

text \<open>
  The interface the ledger's guarantee rests on: a hash, and a text of an entry and its predecessor's hash
  that determines both, up to what \<open>view\<close> shows of the entry. The entry stores the predecessor's hash it
  was written with (\<open>prev\<close>) and its own hash (\<open>own\<close>).
\<close>

locale hash_chain =
  fixes hash :: "string \<Rightarrow> string"
    and txt_of :: "string option \<Rightarrow> 'e \<Rightarrow> string"
    and prev :: "'e \<Rightarrow> string option"
    and own :: "'e \<Rightarrow> string"
    and view :: "'e \<Rightarrow> 'v"
  assumes txt_of_inj: "txt_of p e = txt_of q f \<Longrightarrow> p = q \<and> view e = view f"
begin

fun linked :: "string option \<Rightarrow> 'e list \<Rightarrow> bool" where
  "linked p [] \<longleftrightarrow> True"
| "linked p (e # es) \<longleftrightarrow> prev e = p \<and> own e = hash (txt_of p e) \<and> linked (Some (own e)) es"

definition head_hash :: "string option \<Rightarrow> 'e list \<Rightarrow> string option" where
  "head_hash p es = (if es = [] then p else Some (own (last es)))"

definition texts :: "'e list \<Rightarrow> string set" where
  "texts es = (\<lambda>e. txt_of (prev e) e) ` set es"

lemma linked_append: "linked p (es @ fs) \<longleftrightarrow> linked p es \<and> linked (head_hash p es) fs"
  by (induction es arbitrary: p) (auto simp: head_hash_def)

lemma linked_snoc:
  "linked None (es @ [e]) \<longleftrightarrow>
    linked None es \<and> prev e = head_hash None es \<and> own e = hash (txt_of (head_hash None es) e)"
  by (simp add: linked_append)

lemma head_determines:
  assumes "linked None es" and "linked None fs" and "inj_on hash (texts es \<union> texts fs)"
    and "head_hash None es = head_hash None fs"
  shows "map view es = map view fs"
  using assms
proof (induction es arbitrary: fs rule: rev_induct)
  case Nil
  then show ?case by (auto simp: head_hash_def split: if_splits)
next
  case (snoc e es)
  from snoc.prems(4) obtain gs f where fs: "fs = gs @ [f]"
    by (cases fs rule: rev_cases) (auto simp: head_hash_def)
  have le: "prev e = head_hash None es" "own e = hash (txt_of (head_hash None es) e)" "linked None es"
    using snoc.prems(1) by (simp_all add: linked_snoc)
  have lf: "prev f = head_hash None gs" "own f = hash (txt_of (head_hash None gs) f)" "linked None gs"
    using snoc.prems(2) fs by (simp_all add: linked_snoc)
  have "hash (txt_of (prev e) e) = hash (txt_of (prev f) f)"
    using snoc.prems(4) fs le lf by (simp add: head_hash_def)
  then have "txt_of (prev e) e = txt_of (prev f) f"
    by (rule inj_onD [OF snoc.prems(3)]) (simp_all add: texts_def fs)
  then have eq: "head_hash None es = head_hash None gs" "view e = view f"
    using txt_of_inj le lf by metis+
  have "inj_on hash (texts es \<union> texts gs)"
    by (rule inj_on_subset [OF snoc.prems(3)]) (auto simp: texts_def fs)
  with snoc.IH [OF le(3) lf(3) _ eq(1)] eq(2) fs show ?case by simp
qed

end

text \<open>The text that is hashed for an entry, and what the text shows of it.\<close>

definition audit_text :: "string option \<Rightarrow> audit_event \<Rightarrow> string" where
  "audit_text p e = canonical_json (audit_entry_json p (ae_id e) (ae_type e) (ae_payload e))"

definition audit_view :: "audit_event \<Rightarrow> uuid \<times> string \<times> json" where
  "audit_view e = (ae_id e, ae_type e, sort_keys (JObj (ae_payload e)))"

lemma audit_text_inj: "audit_text p e = audit_text q f \<Longrightarrow> p = q \<and> audit_view e = audit_view f"
  by (auto simp: audit_text_def canonical_json_sorted_iff audit_entry_json_sorted audit_view_def
      split: option.splits)

interpretation ledger: hash_chain sha256_hex audit_text ae_prev_hash ae_entry_hash audit_view
  by unfold_locales (rule audit_text_inj)

lemma verify_entries_linked: "verify_entries p es = Inr () \<longleftrightarrow> ledger.linked p es"
  by (induction es arbitrary: p) (auto simp: audit_entry_hash_def audit_text_def)

section \<open>The ledger's invariant\<close>

abbreviation tenant_rows :: "audit_store \<Rightarrow> uuid \<Rightarrow> audit_event list" where
  "tenant_rows store t \<equiv> filter (\<lambda>e. ae_tenant e = t) (dict_values store)"

definition chain_ok :: "audit_event list \<Rightarrow> bool" where
  "chain_ok es \<longleftrightarrow> map ae_sequence es = map int [1..<Suc (length es)] \<and> ledger.linked None es"

definition audit_ok :: "audit_store \<Rightarrow> bool" where
  "audit_ok store \<longleftrightarrow> (\<forall>t. chain_ok (tenant_rows store t))"

lemma chain_ok_strict: "chain_ok es \<Longrightarrow> sorted_wrt (<) (map ae_sequence es)"
  by (simp add: chain_ok_def sorted_wrt_map del: upt_Suc)

lemma chain_ok_sorted: "chain_ok es \<Longrightarrow> sort_key ae_sequence es = es"
  by (rule sort_key_id_if_sorted) (use chain_ok_strict in \<open>auto simp: strict_sorted_iff\<close>)

lemma insort_key_last: "\<forall>y \<in> set ys. f y < f x \<Longrightarrow> insort_key f x ys = ys @ [x]"
  by (induction ys) auto

lemma sort_key_reversed:
  fixes f :: "'a \<Rightarrow> int"
  shows "sorted_wrt (<) (map f xs) \<Longrightarrow> sort_key (\<lambda>x. - f x) xs = rev xs"
  by (induction xs) (auto simp: insort_key_last)

lemma for_tenant_ok: "audit_ok store \<Longrightarrow> for_tenant store t = tenant_rows store t"
  by (simp add: for_tenant_def audit_ok_def chain_ok_sorted)

lemma get_latest_ok:
  "audit_ok store \<Longrightarrow> get_latest store t =
    (if tenant_rows store t = [] then None else Some (last (tenant_rows store t)))"
proof -
  assume "audit_ok store"
  then have "sort_key (\<lambda>e. - ae_sequence e) (tenant_rows store t) = rev (tenant_rows store t)"
    by (intro sort_key_reversed chain_ok_strict) (simp add: audit_ok_def)
  then show ?thesis
    by (cases "tenant_rows store t" rule: rev_cases) (simp_all add: get_latest_def)
qed

text \<open>A record written after the last row of its chain extends the chain.\<close>

lemma chain_ok_snoc:
  assumes "chain_ok es" and "e = audit_record now eid (if es = [] then None else Some (last es)) t ty d pr"
  shows "chain_ok (es @ [e])"
proof -
  have "ae_sequence e = int (length es) + 1"
    using assms by (cases es rule: rev_cases) (auto simp: audit_record_def chain_ok_def)
  moreover have "ae_prev_hash e = ledger.head_hash None es"
    by (simp add: assms(2) audit_record_def ledger.head_hash_def)
  moreover have "ae_entry_hash e = sha256_hex (audit_text (ae_prev_hash e) e)"
    by (simp add: assms(2) audit_record_def audit_entry_hash_def audit_text_def)
  ultimately show ?thesis
    using assms(1) by (simp add: chain_ok_def ledger.linked_snoc)
qed

lemma audit_append_ok [inv_intros]:
  assumes ok: "audit_ok store" and fresh: "eid \<notin> set (dict_keys store)"
  shows "audit_ok (snd (audit_append now eid tenant ty payload project store))"
proof -
  have t: "ae_tenant (audit_record now eid p tenant ty payload project) = tenant" for p
    by (simp add: audit_record_def)
  show ?thesis
    unfolding audit_ok_def
  proof
    fix t'
    have "chain_ok (tenant_rows store t')"
      using ok by (simp add: audit_ok_def)
    then show "chain_ok (tenant_rows (snd (audit_append now eid tenant ty payload project store)) t')"
      using chain_ok_snoc [OF _ refl, of "tenant_rows store t'" now eid t' ty payload project] ok fresh
      by (auto simp: audit_append_def dict_set_new for_tenant_ok t split: if_splits)
  qed
qed

lemma db_audit_append_eq:
  assumes "audit_ok store" and "eid \<notin> set (dict_keys store)"
  shows "db_audit_append now eid tenant ty payload project store =
    (case audit_append now eid tenant ty payload project store of (r, s) \<Rightarrow> (Inr r, s))"
  using assms by (simp add: db_audit_append_def audit_append_def get_latest_ok for_tenant_ok)

text \<open>A sequence of calls to \<open>append\<close>, each with the time and the identifier it drew.\<close>

type_synonym audit_call = "time \<times> uuid \<times> uuid \<times> string \<times> (string \<times> json) list \<times> uuid option"

fun audit_run :: "audit_call list \<Rightarrow> audit_store \<Rightarrow> audit_store" where
  "audit_run [] store = store"
| "audit_run ((now, eid, tenant, ty, payload, project) # calls) store =
    audit_run calls (snd (audit_append now eid tenant ty payload project store))"

fun db_audit_run :: "audit_call list \<Rightarrow> audit_store \<Rightarrow> audit_store" where
  "db_audit_run [] store = store"
| "db_audit_run ((now, eid, tenant, ty, payload, project) # calls) store =
    db_audit_run calls (snd (db_audit_append now eid tenant ty payload project store))"

lemma audit_append_keys:
  "set (dict_keys (snd (audit_append now eid tenant ty payload project store))) = insert eid (set (dict_keys store))"
  by (simp add: audit_append_def dict_keys_set del: set_map)

lemma audit_run_ok:
  "audit_ok store \<Longrightarrow> distinct (map (fst \<circ> snd) calls) \<Longrightarrow>
    set (map (fst \<circ> snd) calls) \<inter> set (dict_keys store) = {} \<Longrightarrow>
    audit_ok (audit_run calls store) \<and> db_audit_run calls store = audit_run calls store"
proof (induction calls arbitrary: store)
  case (Cons c calls)
  obtain now eid tenant ty payload project where c: "c = (now, eid, tenant, ty, payload, project)"
    by (metis prod.exhaust)
  let ?s = "snd (audit_append now eid tenant ty payload project store)"
  have fresh: "eid \<notin> set (dict_keys store)" using Cons.prems c by auto
  have "set (map (fst \<circ> snd) calls) \<inter> set (dict_keys ?s) = {}"
    unfolding audit_append_keys using Cons.prems c by auto
  with Cons.IH [OF audit_append_ok [OF Cons.prems(1) fresh]] Cons.prems(2) c
  have "audit_ok (audit_run calls ?s) \<and> db_audit_run calls ?s = audit_run calls ?s" by auto
  moreover have "snd (db_audit_append now eid tenant ty payload project store) = ?s"
    by (simp add: db_audit_append_eq [OF Cons.prems(1) fresh] split: prod.splits)
  ultimately show ?case by (simp add: c)
qed simp

lemma verify_chain_ok: "audit_ok store \<Longrightarrow> verify_chain store t = Inr ()"
  by (simp add: verify_chain_def for_tenant_ok verify_entries_linked audit_ok_def chain_ok_def)

lemma audit_ok_empty [simp]: "audit_ok []"
  by (simp add: audit_ok_def chain_ok_def)

text \<open>The entry at a position is broken: its stored hashes are not the ones its content and predecessor give.\<close>

definition link_broken :: "string option \<Rightarrow> audit_event list \<Rightarrow> nat \<Rightarrow> bool" where
  "link_broken p es i \<longleftrightarrow>
    (let q = (if i = 0 then p else Some (ae_entry_hash (es ! (i - 1)))); e = es ! i in
     ae_prev_hash e \<noteq> q \<or> ae_entry_hash e \<noteq> audit_entry_hash q (ae_id e) (ae_type e) (ae_payload e))"

definition broken_at :: "audit_event list \<Rightarrow> nat \<Rightarrow> bool" where
  "broken_at es i = link_broken None es i"

lemma link_broken_Cons:
  "link_broken p (e # es) 0 \<longleftrightarrow>
    ae_prev_hash e \<noteq> p \<or> ae_entry_hash e \<noteq> audit_entry_hash p (ae_id e) (ae_type e) (ae_payload e)"
  "link_broken p (e # es) (Suc i) = link_broken (Some (ae_entry_hash e)) es i"
  by (cases i; simp add: link_broken_def)+

lemma verify_entries_first_break:
  "case verify_entries p es of
     Inr _ \<Rightarrow> (\<forall>i < length es. \<not> link_broken p es i)
   | Inl err \<Rightarrow> (\<exists>i < length es. link_broken p es i \<and> (\<forall>j < i. \<not> link_broken p es j)
        \<and> err = DdeError ''POLICY_DENIED'' ''Audit ledger hash chain is broken'' False
            [(''audit_event_id'', JStr (ae_id (es ! i)))])"
proof (induction es arbitrary: p)
  case (Cons e es)
  show ?case
  proof (cases "link_broken p (e # es) 0")
    case True
    then show ?thesis by (auto simp: link_broken_Cons intro!: exI [of _ 0])
  next
    case False
    then have v: "verify_entries p (e # es) = verify_entries (Some (ae_entry_hash e)) es"
      by (simp add: link_broken_Cons)
    note step = link_broken_Cons(2) [of p e es] and IH = Cons.IH [of "Some (ae_entry_hash e)"]
    show ?thesis
    proof (cases "verify_entries (Some (ae_entry_hash e)) es")
      case (Inl err)
      with IH obtain i where i: "i < length es" "link_broken (Some (ae_entry_hash e)) es i"
          "\<forall>j < i. \<not> link_broken (Some (ae_entry_hash e)) es j"
          "err = DdeError ''POLICY_DENIED'' ''Audit ledger hash chain is broken'' False
            [(''audit_event_id'', JStr (ae_id (es ! i)))]"
        by auto
      then show ?thesis
        unfolding v Inl sum.case
        by (intro exI [of _ "Suc i"]) (use False step in \<open>auto simp: All_less_Suc2\<close>)
    next
      case (Inr u)
      with IH have "\<forall>i < length es. \<not> link_broken (Some (ae_entry_hash e)) es i" by simp
      then show ?thesis
        unfolding v Inr sum.case using False step by (simp add: All_less_Suc2)
    qed
  qed
qed simp

section \<open>Properties\<close>

definition sample_calls :: "audit_call list" where
  "sample_calls = [(10, ''a1'', ''T'', ''mission.created'', [(''n'', JInt 1)], Some ''P''),
    (11, ''a2'', ''U'', ''mission.created'', [], None), (12, ''a3'', ''T'', ''task.failed'', [], None)]"

text \<open>
  C32. Whatever calls to \<open>append\<close> are made on an empty ledger, in whatever order across tenants, with
  identifiers that do not repeat: every tenant's chain verifies, its sequence numbers run 1, 2, 3, ... in
  the order of the calls, and the production writer builds the same rows as the in-memory one.
\<close>

theorem audit_chain_verifies:
  assumes "distinct (map (fst \<circ> snd) calls)"
  shows "verify_chain (audit_run calls []) t = Inr ()
    \<and> map ae_sequence (for_tenant (audit_run calls []) t) = map int [1..<Suc (length (for_tenant (audit_run calls []) t))]
    \<and> db_audit_run calls [] = audit_run calls []"
proof -
  have ok: "audit_ok (audit_run calls [])" "db_audit_run calls [] = audit_run calls []"
    using audit_run_ok [OF audit_ok_empty assms] by simp_all
  then have "chain_ok (tenant_rows (audit_run calls []) t)" by (simp add: audit_ok_def)
  with ok show ?thesis
    by (simp add: verify_chain_ok for_tenant_ok chain_ok_def)
qed

theorem audit_chain_verifies_witness:
  "verify_chain (audit_run sample_calls []) ''T'' = Inr ()
    \<and> map ae_id (for_tenant (audit_run sample_calls []) ''T'') = [''a1'', ''a3'']"
  using audit_chain_verifies [of sample_calls "''T''"]
  by (simp add: sample_calls_def audit_append_def audit_record_def for_tenant_def)


lemma audit_run_single:
  "for_tenant (snd (audit_append now ''a1'' ''T'' ty d pr [])) ''T'' = [audit_record now ''a1'' None ''T'' ty d pr]"
  by (simp add: audit_append_def audit_record_def for_tenant_def)


text \<open>
  \<open>verify_chain\<close> accepts exactly the linked chains and otherwise names the first broken entry: the
  entries before it are linked, and it either does not carry the hash of its predecessor or its own hash
  is not the hash of its content.
\<close>

theorem verify_chain_names_first_break:
  "case verify_chain store t of
     Inr _ \<Rightarrow> (\<forall>i < length (for_tenant store t). \<not> broken_at (for_tenant store t) i)
   | Inl err \<Rightarrow> (\<exists>i < length (for_tenant store t). broken_at (for_tenant store t) i
        \<and> (\<forall>j < i. \<not> broken_at (for_tenant store t) j)
        \<and> err = DdeError ''POLICY_DENIED'' ''Audit ledger hash chain is broken'' False
            [(''audit_event_id'', JStr (ae_id (for_tenant store t ! i)))])"
  unfolding verify_chain_def broken_at_def by (rule verify_entries_first_break)

theorem verify_chain_names_first_break_witness:
  "\<exists>err. verify_chain (dict_set ''a2'' (audit_record 5 ''a2'' None ''T'' ''x'' [] None\<lparr>ae_sequence := 2\<rparr>)
      (audit_run [(1, ''a1'', ''T'', ''x'', [], None)] [])) ''T'' = Inl err
    \<and> details err = [(''audit_event_id'', JStr ''a2'')]"
  using verify_chain_names_first_break [of "dict_set ''a2''
      (audit_record 5 ''a2'' None ''T'' ''x'' [] None\<lparr>ae_sequence := 2\<rparr>)
      (audit_run [(1, ''a1'', ''T'', ''x'', [], None)] [])" "''T''"]
  by (simp add: verify_chain_def for_tenant_def audit_append_def audit_record_def)

end
