(* ===== verification/Truth.thy ===== *)
theory Truth
  imports Hashing
begin

text \<open>
  \<open>engine/truth/engine.py\<close>, Project Truth: the product constitution, requirements and engineering decision
  records (EDRs), with the PostgreSQL writer \<open>engine/truth/service.py\<close> over \<open>engine/truth/repository.py\<close>.
  The records follow \<open>engine/contracts/{product_constitution_version,requirement,edr}.py\<close>. Proved here:
  a project's constitutions are versions 1, 2, 3, ... of which only the newest is active; slugs are never
  reused; an EDR's content is frozen once it is accepted; the two writers agree.
\<close>

section \<open>Contracts\<close>

record constitution =
  co_id :: uuid
  co_tenant :: uuid
  co_project :: uuid
  co_version :: int
  co_status :: string
  co_body :: string
  co_hash :: string
  co_supersedes :: "uuid option"
  co_created_at :: time
  co_updated_at :: time

record requirement =
  rq_id :: uuid
  rq_tenant :: uuid
  rq_project :: uuid
  rq_slug :: string
  rq_statement :: string
  rq_constraints :: "string list"
  rq_acceptance :: "string list"
  rq_status :: string
  rq_supersedes :: "uuid option"
  rq_created_at :: time
  rq_updated_at :: time

record edr =
  edr_id :: uuid
  edr_tenant :: uuid
  edr_project :: uuid
  edr_slug :: string
  edr_context :: string
  edr_alternatives :: "string list"
  edr_decision :: string
  edr_rationale :: string
  edr_consequences :: "string list"
  edr_affected :: "string list"
  edr_status :: string
  edr_supersedes :: "uuid option"
  edr_decided_by :: "uuid option"
  edr_decided_at :: "time option"
  edr_created_at :: time
  edr_updated_at :: time

section \<open>The in-memory engine\<close>

definition REQUIRED_CONSTITUTION_HEADINGS :: "string list" where
  "REQUIRED_CONSTITUTION_HEADINGS = [''## Purpose'', ''## Target users'', ''## Non-negotiable constraints'',
    ''## Core workflows'', ''## UX principles'', ''## Security principles'', ''## Architecture principles'',
    ''## Explicit exclusions'', ''## Governance rules'']"

record truth_store =
  constitutions :: "(uuid, constitution) dict"
  requirements :: "(uuid, requirement) dict"
  edrs :: "(uuid, edr) dict"

definition requirements_for_project :: "truth_store \<Rightarrow> uuid \<Rightarrow> requirement list" where
  "requirements_for_project s project = filter (\<lambda>r. rq_project r = project) (dict_values (requirements s))"

definition edrs_for_project :: "truth_store \<Rightarrow> uuid \<Rightarrow> edr list" where
  "edrs_for_project s project = filter (\<lambda>r. edr_project r = project) (dict_values (edrs s))"

definition active_constitution :: "truth_store \<Rightarrow> uuid \<Rightarrow> constitution option" where
  "active_constitution s project =
    max_by co_version
      (filter (\<lambda>c. co_project c = project \<and> co_status c = ''active'') (dict_values (constitutions s)))"

definition missing_headings :: "string \<Rightarrow> string list" where
  "missing_headings body = filter (\<lambda>h. \<not> str_contains h body) REQUIRED_CONSTITUTION_HEADINGS"

definition constitution_record :: "time \<Rightarrow> uuid \<Rightarrow> uuid \<Rightarrow> uuid \<Rightarrow> string \<Rightarrow> constitution option \<Rightarrow> constitution" where
  "constitution_record now new_id tenant project body current =
    \<lparr>co_id = new_id, co_tenant = tenant, co_project = project,
     co_version = (case current of None \<Rightarrow> 1 | Some c \<Rightarrow> co_version c + 1), co_status = ''active'',
     co_body = body, co_hash = sha256_hex body, co_supersedes = map_option co_id current,
     co_created_at = now, co_updated_at = now\<rparr>"

definition headings_error :: "string \<Rightarrow> dde_error" where
  "headings_error body = DdeError ''POLICY_DENIED''
     ''Product Constitution is missing required Chapter 2.4 headings'' False
     [(''missing'', JList (map JStr (missing_headings body)))]"

definition publish_constitution ::
  "time \<Rightarrow> uuid \<Rightarrow> uuid \<Rightarrow> uuid \<Rightarrow> string \<Rightarrow> truth_store \<Rightarrow> constitution result \<times> truth_store"
where
  "publish_constitution now new_id tenant project body s =
    (if missing_headings body \<noteq> [] then (Inl (headings_error body), s)
     else
       let current = active_constitution s project;
           s1 = (case current of None \<Rightarrow> s
                 | Some c \<Rightarrow> s\<lparr>constitutions :=
                     dict_set (co_id c) (c\<lparr>co_status := ''superseded'', co_updated_at := now\<rparr>) (constitutions s)\<rparr>);
           record = constitution_record now new_id tenant project body current
       in (Inr record, s1\<lparr>constitutions := dict_set new_id record (constitutions s1)\<rparr>))"

definition require_requirement :: "truth_store \<Rightarrow> uuid \<Rightarrow> requirement result" where
  "require_requirement s rid =
    (case dict_get (requirements s) rid of
       None \<Rightarrow> Inl (DdeError ''POLICY_DENIED'' ''Unknown requirement'' False []) | Some r \<Rightarrow> Inr r)"

definition require_edr :: "truth_store \<Rightarrow> uuid \<Rightarrow> edr result" where
  "require_edr s eid =
    (case dict_get (edrs s) eid of
       None \<Rightarrow> Inl (DdeError ''POLICY_DENIED'' ''Unknown EDR'' False []) | Some r \<Rightarrow> Inr r)"

definition assert_slug_free :: "truth_store \<Rightarrow> uuid \<Rightarrow> string \<Rightarrow> unit result" where
  "assert_slug_free s project slug =
    (if \<exists>r \<in> set (requirements_for_project s project). rq_slug r = slug
     then Inl (DdeError ''VERSION_CONFLICT'' ''Requirement slug is immutable and already used'' False
       [(''slug'', JStr slug)])
     else Inr ())"

definition assert_edr_slug_free :: "truth_store \<Rightarrow> uuid \<Rightarrow> string \<Rightarrow> unit result" where
  "assert_edr_slug_free s project slug =
    (if \<exists>r \<in> set (edrs_for_project s project). edr_slug r = slug
     then Inl (DdeError ''VERSION_CONFLICT'' ''EDR slug is immutable and already used'' False
       [(''slug'', JStr slug)])
     else Inr ())"

definition requirement_checks :: "string \<Rightarrow> string list \<Rightarrow> unit result" where
  "requirement_checks statement acceptance =
    (if strip statement = [] then
       Inl (DdeError ''POLICY_DENIED'' ''Requirement statement must be testable'' False [])
     else if acceptance = [] then
       Inl (DdeError ''POLICY_DENIED'' ''Requirement must declare acceptance conditions'' False [])
     else Inr ())"

definition draft_requirement ::
  "time \<Rightarrow> uuid \<Rightarrow> uuid \<Rightarrow> uuid \<Rightarrow> string \<Rightarrow> string \<Rightarrow> string list \<Rightarrow> string list \<Rightarrow> uuid option
    \<Rightarrow> truth_store \<Rightarrow> requirement result \<times> truth_store"
where
  "draft_requirement now new_id tenant project slug statement constrs acceptance supersedes s =
    (case assert_slug_free s project slug of
       Inl e \<Rightarrow> (Inl e, s)
     | Inr _ \<Rightarrow>
         (case requirement_checks statement acceptance of
            Inl e \<Rightarrow> (Inl e, s)
          | Inr _ \<Rightarrow>
              let record = \<lparr>rq_id = new_id, rq_tenant = tenant, rq_project = project, rq_slug = slug,
                    rq_statement = statement, rq_constraints = constrs, rq_acceptance = acceptance,
                    rq_status = ''draft'', rq_supersedes = supersedes, rq_created_at = now,
                    rq_updated_at = now\<rparr>
              in (Inr record, s\<lparr>requirements := dict_set new_id record (requirements s)\<rparr>)))"

definition approve_requirement :: "time \<Rightarrow> uuid \<Rightarrow> truth_store \<Rightarrow> requirement result \<times> truth_store" where
  "approve_requirement now rid s =
    (case require_requirement s rid of
       Inl e \<Rightarrow> (Inl e, s)
     | Inr record \<Rightarrow>
         if rq_status record \<notin> {''draft'', ''approved''} then
           (Inl (DdeError ''VERSION_CONFLICT'' ''Only draft requirements can be approved'' False
              [(''status'', JStr (rq_status record))]), s)
         else if rq_status record = ''approved'' then (Inr record, s)
         else
           let updated = record\<lparr>rq_status := ''approved'', rq_updated_at := now\<rparr> in
           (case rq_supersedes updated of
              None \<Rightarrow> (Inr updated, s\<lparr>requirements := dict_set rid updated (requirements s)\<rparr>)
            | Some pid \<Rightarrow>
                (case require_requirement s pid of
                   Inl e \<Rightarrow> (Inl e, s)
                 | Inr prior \<Rightarrow>
                     (Inr updated, s\<lparr>requirements := dict_set rid updated
                        (dict_set (rq_id prior)
                          (prior\<lparr>rq_status := ''superseded'', rq_updated_at := rq_updated_at updated\<rparr>)
                          (requirements s))\<rparr>))))"

definition retire_requirement :: "time \<Rightarrow> uuid \<Rightarrow> truth_store \<Rightarrow> requirement result \<times> truth_store" where
  "retire_requirement now rid s =
    (case require_requirement s rid of
       Inl e \<Rightarrow> (Inl e, s)
     | Inr record \<Rightarrow>
         if rq_status record = ''draft'' then
           (Inl (DdeError ''VERSION_CONFLICT''
              ''Draft requirements are withdrawn by non-approval, not retired'' False []), s)
         else
           let updated = record\<lparr>rq_status := ''retired'', rq_updated_at := now\<rparr>
           in (Inr updated, s\<lparr>requirements := dict_set rid updated (requirements s)\<rparr>))"

text \<open>The content a caller proposes: everything of an EDR but its identity, status and stamps.\<close>

record edr_content =
  ec_tenant :: uuid
  ec_project :: uuid
  ec_slug :: string
  ec_context :: string
  ec_alternatives :: "string list"
  ec_decision :: string
  ec_rationale :: string
  ec_consequences :: "string list"
  ec_affected :: "string list"
  ec_supersedes :: "uuid option"

definition edr_record :: "time \<Rightarrow> uuid \<Rightarrow> edr_content \<Rightarrow> edr" where
  "edr_record now new_id c =
    \<lparr>edr_id = new_id, edr_tenant = ec_tenant c, edr_project = ec_project c, edr_slug = ec_slug c,
     edr_context = ec_context c, edr_alternatives = ec_alternatives c, edr_decision = ec_decision c,
     edr_rationale = ec_rationale c, edr_consequences = ec_consequences c, edr_affected = ec_affected c,
     edr_status = ''proposed'', edr_supersedes = ec_supersedes c, edr_decided_by = None,
     edr_decided_at = None, edr_created_at = now, edr_updated_at = now\<rparr>"

definition propose_edr :: "time \<Rightarrow> uuid \<Rightarrow> edr_content \<Rightarrow> truth_store \<Rightarrow> edr result \<times> truth_store" where
  "propose_edr now new_id c s =
    (case assert_edr_slug_free s (ec_project c) (ec_slug c) of
       Inl e \<Rightarrow> (Inl e, s)
     | Inr _ \<Rightarrow>
         if ec_alternatives c = [] then
           (Inl (DdeError ''POLICY_DENIED'' ''EDR must record alternatives'' False []), s)
         else
           let record = edr_record now new_id c
           in (Inr record, s\<lparr>edrs := dict_set new_id record (edrs s)\<rparr>))"

definition rewrite_edr_status :: "edr \<Rightarrow> string \<Rightarrow> time \<Rightarrow> truth_store \<Rightarrow> truth_store" where
  "rewrite_edr_status r status now s =
    s\<lparr>edrs := dict_set (edr_id r) (r\<lparr>edr_status := status, edr_updated_at := now\<rparr>) (edrs s)\<rparr>"

definition edr_decide :: "string \<Rightarrow> uuid \<Rightarrow> time \<Rightarrow> edr \<Rightarrow> edr" where
  "edr_decide status decider now r =
    r\<lparr>edr_status := status, edr_decided_by := Some decider, edr_decided_at := Some now, edr_updated_at := now\<rparr>"

definition accept_edr :: "time \<Rightarrow> uuid \<Rightarrow> uuid \<Rightarrow> truth_store \<Rightarrow> edr result \<times> truth_store" where
  "accept_edr now eid decider s =
    (case require_edr s eid of
       Inl e \<Rightarrow> (Inl e, s)
     | Inr record \<Rightarrow>
         if edr_status record = ''accepted'' then (Inr record, s)
         else if edr_status record \<noteq> ''proposed'' then
           (Inl (DdeError ''VERSION_CONFLICT'' ''Only proposed EDRs can be accepted'' False
              [(''status'', JStr (edr_status record))]), s)
         else
           let accepted = edr_decide ''accepted'' decider now record in
           (case edr_supersedes record of
              None \<Rightarrow> (Inr accepted, s\<lparr>edrs := dict_set eid accepted (edrs s)\<rparr>)
            | Some pid \<Rightarrow>
                (case require_edr s pid of
                   Inl e \<Rightarrow> (Inl e, s)
                 | Inr prior \<Rightarrow>
                     if edr_status prior \<noteq> ''accepted'' then
                       (Inl (DdeError ''VERSION_CONFLICT'' ''An EDR may only supersede an accepted EDR'' False []), s)
                     else
                       let s1 = rewrite_edr_status prior ''superseded'' now s
                       in (Inr accepted, s1\<lparr>edrs := dict_set eid accepted (edrs s1)\<rparr>))))"

definition reject_edr :: "time \<Rightarrow> uuid \<Rightarrow> uuid \<Rightarrow> truth_store \<Rightarrow> edr result \<times> truth_store" where
  "reject_edr now eid decider s =
    (case require_edr s eid of
       Inl e \<Rightarrow> (Inl e, s)
     | Inr record \<Rightarrow>
         if edr_status record \<noteq> ''proposed'' then
           (Inl (DdeError ''VERSION_CONFLICT'' ''Only proposed EDRs can be rejected'' False
              [(''status'', JStr (edr_status record))]), s)
         else
           let updated = edr_decide ''rejected'' decider now record
           in (Inr updated, s\<lparr>edrs := dict_set eid updated (edrs s)\<rparr>))"

definition rewrite_accepted_edr :: "time \<Rightarrow> uuid \<Rightarrow> string \<Rightarrow> truth_store \<Rightarrow> edr result \<times> truth_store" where
  "rewrite_accepted_edr now eid decision s =
    (case require_edr s eid of
       Inl e \<Rightarrow> (Inl e, s)
     | Inr record \<Rightarrow>
         if edr_status record \<in> {''accepted'', ''superseded''} then
           (Inl (DdeError ''POLICY_DENIED'' ''Accepted EDRs are superseded, never rewritten'' False
              [(''edr_id'', JStr eid)]), s)
         else
           let updated = record\<lparr>edr_decision := decision, edr_updated_at := now\<rparr>
           in (Inr updated, s\<lparr>edrs := dict_set eid updated (edrs s)\<rparr>))"

definition approved_requirement_slugs :: "truth_store \<Rightarrow> uuid \<Rightarrow> string list" where
  "approved_requirement_slugs s project =
    map rq_slug (filter (\<lambda>r. rq_status r = ''approved'') (requirements_for_project s project))"

section \<open>The PostgreSQL writer\<close>

text \<open>
  \<open>engine/truth/service.py\<close>: the same records in tables. Every method runs in one transaction, so a raise
  leaves the tables as they were: each operation below returns the old store with its error.
\<close>

definition get_active_constitution :: "truth_store \<Rightarrow> uuid \<Rightarrow> constitution option" where
  "get_active_constitution s project =
    (case sort_key (\<lambda>c. - co_version c)
        (filter (\<lambda>c. co_project c = project \<and> co_status c = ''active'') (dict_values (constitutions s))) of
       [] \<Rightarrow> None | c # _ \<Rightarrow> Some c)"

definition update_constitution_status :: "uuid \<Rightarrow> string \<Rightarrow> time \<Rightarrow> truth_store \<Rightarrow> truth_store" where
  "update_constitution_status vid status now s =
    s\<lparr>constitutions :=
      table_update vid (\<lambda>c. c\<lparr>co_status := status, co_updated_at := now\<rparr>) (constitutions s)\<rparr>"

definition db_publish_constitution ::
  "time \<Rightarrow> uuid \<Rightarrow> uuid \<Rightarrow> uuid \<Rightarrow> string \<Rightarrow> truth_store \<Rightarrow> constitution result \<times> truth_store"
where
  "db_publish_constitution now new_id tenant project body s =
    (if missing_headings body \<noteq> [] then (Inl (headings_error body), s)
     else
       let current = get_active_constitution s project;
           s1 = (case current of None \<Rightarrow> s
                 | Some c \<Rightarrow> update_constitution_status (co_id c) ''superseded'' now s);
           record = constitution_record now new_id tenant project body current
       in case table_insert ''product_constitution_versions'' new_id record (constitutions s1) of
            Inl e \<Rightarrow> (Inl e, s)
          | Inr t \<Rightarrow> (Inr record, s1\<lparr>constitutions := t\<rparr>))"

definition get_requirement_by_slug :: "truth_store \<Rightarrow> uuid \<Rightarrow> string \<Rightarrow> requirement option" where
  "get_requirement_by_slug s project slug =
    List.find (\<lambda>r. rq_project r = project \<and> rq_slug r = slug) (dict_values (requirements s))"

definition get_edr_by_slug :: "truth_store \<Rightarrow> uuid \<Rightarrow> string \<Rightarrow> edr option" where
  "get_edr_by_slug s project slug =
    List.find (\<lambda>r. edr_project r = project \<and> edr_slug r = slug) (dict_values (edrs s))"

definition db_draft_requirement ::
  "time \<Rightarrow> uuid \<Rightarrow> uuid \<Rightarrow> uuid \<Rightarrow> string \<Rightarrow> string \<Rightarrow> string list \<Rightarrow> string list \<Rightarrow> uuid option
    \<Rightarrow> truth_store \<Rightarrow> requirement result \<times> truth_store"
where
  "db_draft_requirement now new_id tenant project slug statement constrs acceptance supersedes s =
    (case requirement_checks statement acceptance of
       Inl e \<Rightarrow> (Inl e, s)
     | Inr _ \<Rightarrow>
         (case get_requirement_by_slug s project slug of
            Some _ \<Rightarrow>
              (Inl (DdeError ''VERSION_CONFLICT'' ''Requirement slug is immutable and already used'' False
                 [(''slug'', JStr slug)]), s)
          | None \<Rightarrow>
              let record = \<lparr>rq_id = new_id, rq_tenant = tenant, rq_project = project, rq_slug = slug,
                    rq_statement = statement, rq_constraints = constrs, rq_acceptance = acceptance,
                    rq_status = ''draft'', rq_supersedes = supersedes, rq_created_at = now,
                    rq_updated_at = now\<rparr>
              in case table_insert ''requirements'' new_id record (requirements s) of
                   Inl e \<Rightarrow> (Inl e, s)
                 | Inr t \<Rightarrow> (Inr record, s\<lparr>requirements := t\<rparr>)))"

definition update_requirement_status :: "uuid \<Rightarrow> string \<Rightarrow> time \<Rightarrow> truth_store \<Rightarrow> truth_store" where
  "update_requirement_status rid status now s =
    s\<lparr>requirements :=
      table_update rid (\<lambda>r. r\<lparr>rq_status := status, rq_updated_at := now\<rparr>) (requirements s)\<rparr>"

text \<open>The last statement of several methods: re-read the row, in the transaction, and return it.\<close>

definition reread_requirement ::
  "uuid \<Rightarrow> truth_store \<Rightarrow> truth_store \<Rightarrow> requirement result \<times> truth_store" where
  "reread_requirement rid s s' =
    (case require_requirement s' rid of Inl e \<Rightarrow> (Inl e, s) | Inr r \<Rightarrow> (Inr r, s'))"

definition reread_edr :: "uuid \<Rightarrow> truth_store \<Rightarrow> truth_store \<Rightarrow> edr result \<times> truth_store" where
  "reread_edr eid s s' = (case require_edr s' eid of Inl e \<Rightarrow> (Inl e, s) | Inr r \<Rightarrow> (Inr r, s'))"

definition db_approve_requirement :: "time \<Rightarrow> uuid \<Rightarrow> truth_store \<Rightarrow> requirement result \<times> truth_store" where
  "db_approve_requirement now rid s =
    (case require_requirement s rid of
       Inl e \<Rightarrow> (Inl e, s)
     | Inr record \<Rightarrow>
         if rq_status record = ''approved'' then (Inr record, s)
         else if rq_status record \<noteq> ''draft'' then
           (Inl (DdeError ''VERSION_CONFLICT'' ''Only draft requirements can be approved'' False
              [(''status'', JStr (rq_status record))]), s)
         else
           let s1 = update_requirement_status rid ''approved'' now s in
           (case rq_supersedes record of
              None \<Rightarrow> reread_requirement rid s s1
            | Some pid \<Rightarrow>
                (case require_requirement s1 pid of
                   Inl e \<Rightarrow> (Inl e, s)
                 | Inr prior \<Rightarrow>
                     reread_requirement rid s (update_requirement_status (rq_id prior) ''superseded'' now s1))))"

definition db_retire_requirement :: "time \<Rightarrow> uuid \<Rightarrow> truth_store \<Rightarrow> requirement result \<times> truth_store" where
  "db_retire_requirement now rid s =
    (case require_requirement s rid of
       Inl e \<Rightarrow> (Inl e, s)
     | Inr record \<Rightarrow>
         if rq_status record = ''draft'' then
           (Inl (DdeError ''VERSION_CONFLICT''
              ''Draft requirements are withdrawn by non-approval, not retired'' False []), s)
         else reread_requirement rid s (update_requirement_status rid ''retired'' now s))"

definition db_propose_edr :: "time \<Rightarrow> uuid \<Rightarrow> edr_content \<Rightarrow> truth_store \<Rightarrow> edr result \<times> truth_store" where
  "db_propose_edr now new_id c s =
    (if ec_alternatives c = [] then
       (Inl (DdeError ''POLICY_DENIED'' ''EDR must record alternatives'' False []), s)
     else
       (case get_edr_by_slug s (ec_project c) (ec_slug c) of
          Some _ \<Rightarrow>
            (Inl (DdeError ''VERSION_CONFLICT'' ''EDR slug is immutable and already used'' False
               [(''slug'', JStr (ec_slug c))]), s)
        | None \<Rightarrow>
            let record = edr_record now new_id c
            in case table_insert ''edrs'' new_id record (edrs s) of
                 Inl e \<Rightarrow> (Inl e, s)
               | Inr t \<Rightarrow> (Inr record, s\<lparr>edrs := t\<rparr>)))"

text \<open>\<open>update_edr_status\<close> writes \<open>decided_by_principal\<close> and \<open>decided_at\<close> only when they are given.\<close>

definition update_edr_status ::
  "uuid \<Rightarrow> string \<Rightarrow> time \<Rightarrow> uuid option \<Rightarrow> time option \<Rightarrow> truth_store \<Rightarrow> truth_store"
where
  "update_edr_status eid status now decider decided_at s =
    s\<lparr>edrs := table_update eid
      (\<lambda>r. r\<lparr>edr_status := status,
         edr_decided_by := (if decider = None then edr_decided_by r else decider),
         edr_decided_at := (if decided_at = None then edr_decided_at r else decided_at),
         edr_updated_at := now\<rparr>) (edrs s)\<rparr>"

definition update_edr_content :: "uuid \<Rightarrow> string \<Rightarrow> time \<Rightarrow> truth_store \<Rightarrow> truth_store" where
  "update_edr_content eid decision now s =
    s\<lparr>edrs := table_update eid (\<lambda>r. r\<lparr>edr_decision := decision, edr_updated_at := now\<rparr>) (edrs s)\<rparr>"

definition db_accept_edr :: "time \<Rightarrow> uuid \<Rightarrow> uuid \<Rightarrow> truth_store \<Rightarrow> edr result \<times> truth_store" where
  "db_accept_edr now eid decider s =
    (case require_edr s eid of
       Inl e \<Rightarrow> (Inl e, s)
     | Inr record \<Rightarrow>
         if edr_status record = ''accepted'' then (Inr record, s)
         else if edr_status record \<noteq> ''proposed'' then
           (Inl (DdeError ''VERSION_CONFLICT'' ''Only proposed EDRs can be accepted'' False
              [(''status'', JStr (edr_status record))]), s)
         else
           (case edr_supersedes record of
              None \<Rightarrow>
                reread_edr eid s (update_edr_status eid ''accepted'' now (Some decider) (Some now) s)
            | Some pid \<Rightarrow>
                (case require_edr s pid of
                   Inl e \<Rightarrow> (Inl e, s)
                 | Inr prior \<Rightarrow>
                     if edr_status prior \<noteq> ''accepted'' then
                       (Inl (DdeError ''VERSION_CONFLICT'' ''An EDR may only supersede an accepted EDR'' False []), s)
                     else
                       reread_edr eid s
                         (update_edr_status eid ''accepted'' now (Some decider) (Some now)
                           (update_edr_status (edr_id prior) ''superseded'' now None None s)))))"

definition revise_edr_decision :: "time \<Rightarrow> uuid \<Rightarrow> string \<Rightarrow> truth_store \<Rightarrow> edr result \<times> truth_store" where
  "revise_edr_decision now eid decision s =
    (case require_edr s eid of
       Inl e \<Rightarrow> (Inl e, s)
     | Inr record \<Rightarrow>
         if edr_status record \<noteq> ''proposed'' then
           (Inl (DdeError ''POLICY_DENIED''
              ''Only a proposed EDR's decision may be revised; a decided EDR is superseded, never rewritten''
              False [(''status'', JStr (edr_status record))]), s)
         else reread_edr eid s (update_edr_content eid decision now s))"

definition db_reject_edr :: "time \<Rightarrow> uuid \<Rightarrow> uuid \<Rightarrow> truth_store \<Rightarrow> edr result \<times> truth_store" where
  "db_reject_edr now eid decider s =
    (case require_edr s eid of
       Inl e \<Rightarrow> (Inl e, s)
     | Inr record \<Rightarrow>
         if edr_status record \<noteq> ''proposed'' then
           (Inl (DdeError ''VERSION_CONFLICT'' ''Only proposed EDRs can be rejected'' False
              [(''status'', JStr (edr_status record))]), s)
         else reread_edr eid s (update_edr_status eid ''rejected'' now (Some decider) (Some now) s))"

section \<open>Sequences of calls\<close>

datatype truth_call =
    PublishConstitution time uuid uuid uuid string
  | DraftRequirement time uuid uuid uuid string string "string list" "string list" "uuid option"
  | ApproveRequirement time uuid
  | RetireRequirement time uuid
  | ProposeEdr time uuid edr_content
  | AcceptEdr time uuid uuid
  | RejectEdr time uuid uuid
  | RewriteEdr time uuid string

fun truth_step :: "truth_call \<Rightarrow> truth_store \<Rightarrow> truth_store" where
  "truth_step (PublishConstitution now i t p b) s = snd (publish_constitution now i t p b s)"
| "truth_step (DraftRequirement now i t p sl st cs ac su) s = snd (draft_requirement now i t p sl st cs ac su s)"
| "truth_step (ApproveRequirement now i) s = snd (approve_requirement now i s)"
| "truth_step (RetireRequirement now i) s = snd (retire_requirement now i s)"
| "truth_step (ProposeEdr now i c) s = snd (propose_edr now i c s)"
| "truth_step (AcceptEdr now i d) s = snd (accept_edr now i d s)"
| "truth_step (RejectEdr now i d) s = snd (reject_edr now i d s)"
| "truth_step (RewriteEdr now i d) s = snd (rewrite_accepted_edr now i d s)"

text \<open>The identifier a call draws from \<open>uuid7()\<close>, if it draws one.\<close>

fun call_id :: "truth_call \<Rightarrow> uuid list" where
  "call_id (PublishConstitution now i t p b) = [i]"
| "call_id (DraftRequirement now i t p sl st cs ac su) = [i]"
| "call_id (ProposeEdr now i c) = [i]"
| "call_id _ = []"

definition store_ids :: "truth_store \<Rightarrow> uuid set" where
  "store_ids s = set (dict_keys (constitutions s)) \<union> set (dict_keys (requirements s)) \<union> set (dict_keys (edrs s))"

definition truth_run :: "truth_call list \<Rightarrow> truth_store \<Rightarrow> truth_store" where
  "truth_run calls s = fold truth_step calls s"

definition empty_truth :: truth_store where
  "empty_truth = \<lparr>constitutions = [], requirements = [], edrs = []\<rparr>"

section \<open>Invariant\<close>

definition constitution_line :: "truth_store \<Rightarrow> uuid \<Rightarrow> constitution list" where
  "constitution_line s project = filter (\<lambda>c. co_project c = project) (dict_values (constitutions s))"

text \<open>The history of a project's constitution, oldest first.\<close>

definition line_entry_ok :: "constitution list \<Rightarrow> nat \<Rightarrow> bool" where
  "line_entry_ok cs i \<longleftrightarrow> (let c = cs ! i in
     co_version c = int i + 1
   \<and> co_status c = (if Suc i = length cs then ''active'' else ''superseded'')
   \<and> co_supersedes c = (if i = 0 then None else Some (co_id (cs ! (i - 1))))
   \<and> missing_headings (co_body c) = [] \<and> co_hash c = sha256_hex (co_body c))"

definition line_ok :: "constitution list \<Rightarrow> bool" where
  "line_ok cs \<longleftrightarrow> (\<forall>i < length cs. line_entry_ok cs i)"

definition requirement_slugs :: "truth_store \<Rightarrow> (uuid \<times> string) list" where
  "requirement_slugs s = map (\<lambda>r. (rq_project r, rq_slug r)) (dict_values (requirements s))"

definition edr_slugs :: "truth_store \<Rightarrow> (uuid \<times> string) list" where
  "edr_slugs s = map (\<lambda>r. (edr_project r, edr_slug r)) (dict_values (edrs s))"

definition no_self_supersede :: "truth_store \<Rightarrow> bool" where
  "no_self_supersede s \<longleftrightarrow> (\<forall>r \<in> set (dict_values (requirements s)). rq_supersedes r \<noteq> Some (rq_id r))"

definition truth_ok :: "truth_store \<Rightarrow> bool" where
  "truth_ok s \<longleftrightarrow> keyed co_id (constitutions s) \<and> keyed rq_id (requirements s) \<and> keyed edr_id (edrs s)
    \<and> (\<forall>p. line_ok (constitution_line s p))
    \<and> distinct (requirement_slugs s) \<and> distinct (edr_slugs s) \<and> no_self_supersede s"

lemma truth_okD:
  assumes "truth_ok s"
  shows "keyed co_id (constitutions s)" "keyed rq_id (requirements s)" "keyed edr_id (edrs s)"
    "line_ok (constitution_line s p)" "distinct (requirement_slugs s)" "distinct (edr_slugs s)"
    "no_self_supersede s"
  using assms by (auto simp: truth_ok_def)

subsection \<open>Constitutions\<close>

lemma line_ok_active:
  assumes "line_ok cs"
  shows "filter (\<lambda>c. co_status c = ''active'') cs = (if cs = [] then [] else [last cs])"
proof (cases cs rule: rev_cases)
  case (snoc bs b)
  have "co_status c \<noteq> ''active''" if "c \<in> set bs" for c
  proof -
    obtain i where "i < length bs" "c = bs ! i" using \<open>c \<in> set bs\<close> by (auto simp: in_set_conv_nth)
    with assms snoc show ?thesis by (auto simp: line_ok_def line_entry_ok_def nth_append dest!: spec [of _ i])
  qed
  moreover have "co_status b = ''active''"
    using assms snoc by (auto simp: line_ok_def line_entry_ok_def dest!: spec [of _ "length bs"])
  ultimately show ?thesis by (simp add: snoc filter_empty_conv)
qed simp

lemma active_constitution_ok:
  assumes "truth_ok s"
  shows "active_constitution s p =
    (if constitution_line s p = [] then None else Some (last (constitution_line s p)))"
proof -
  have "filter (\<lambda>c. co_project c = p \<and> co_status c = ''active'') (dict_values (constitutions s))
      = filter (\<lambda>c. co_status c = ''active'') (constitution_line s p)"
    by (simp add: constitution_line_def conj_commute)
  then show ?thesis
    by (simp add: active_constitution_def line_ok_active [OF truth_okD(4) [OF assms]])
qed

lemma line_ok_publish:
  assumes "line_ok (cs @ [c])" and "co_version r = co_version c + 1" and "co_status r = ''active''"
    and "co_supersedes r = Some (co_id c)" and "missing_headings (co_body r) = []"
    and "co_hash r = sha256_hex (co_body r)"
  shows "line_ok (cs @ [c\<lparr>co_status := ''superseded'', co_updated_at := now\<rparr>, r])"
  unfolding line_ok_def
proof (intro allI impI)
  fix i
  let ?new = "cs @ [c\<lparr>co_status := ''superseded'', co_updated_at := now\<rparr>, r]"
  assume "i < length ?new"
  then consider "i < length cs" | "i = length cs" | "i = Suc (length cs)" by fastforce
  then show "line_entry_ok ?new i"
  proof cases
    case 1
    with assms(1) have "line_entry_ok (cs @ [c]) i" by (simp add: line_ok_def)
    with 1 show ?thesis by (simp add: line_entry_ok_def nth_append)
  next
    case 2
    with assms(1) have "line_entry_ok (cs @ [c]) i" by (simp add: line_ok_def)
    with 2 show ?thesis by (simp add: line_entry_ok_def nth_append)
  next
    case 3
    from assms(1) have "line_entry_ok (cs @ [c]) (length cs)" by (simp add: line_ok_def)
    with 3 assms(2-) show ?thesis by (simp add: line_entry_ok_def nth_append)
  qed
qed

lemma line_ok_single:
  "line_ok [r] \<longleftrightarrow> co_version r = 1 \<and> co_status r = ''active'' \<and> co_supersedes r = None
    \<and> missing_headings (co_body r) = [] \<and> co_hash r = sha256_hex (co_body r)"
  by (simp add: line_ok_def line_entry_ok_def)

text \<open>Rewriting the newest version and appending the next changes the history of its own project only.\<close>

lemma constitution_line_supersede:
  assumes key: "keyed co_id d" and line: "filter (\<lambda>c. co_project c = p) (dict_values d) = cs @ [c]"
    and c': "co_project c' = p" "co_id c' = co_id c"
  shows "filter (\<lambda>c. co_project c = p') (dict_values (dict_set (co_id c) c' d)) =
    (if p' = p then cs @ [c'] else filter (\<lambda>c. co_project c = p') (dict_values d))"
proof -
  let ?f = "\<lambda>w. if co_id w = co_id c then c' else w"
  have "c \<in> set (filter (\<lambda>c. co_project c = p) (dict_values d))" unfolding line by simp
  then have c: "c \<in> set (dict_values d)" "co_project c = p" by simp_all
  have same: "co_project (?f w) = co_project w" if "w \<in> set (dict_values d)" for w
    using keyed_inj [OF key that c(1)] c(2) c'(1) by (cases "co_id w = co_id c") simp_all
  have v: "dict_values (dict_set (co_id c) c' d) = map ?f (dict_values d)"
    by (rule keyed_values_old [OF key keyed_key [OF key c(1)]])
  have comm: "filter (\<lambda>c. co_project c = p') (map ?f (dict_values d)) =
      map ?f (filter (\<lambda>c. co_project c = p') (dict_values d))" for p'
    by (rule filter_map_same) (simp only: same)
  have "distinct (map co_id (cs @ [c]))"
    using distinct_map_filter [OF keyed_distinct [OF key]] line by metis
  then have "map ?f cs = cs" by (intro map_idI) (force simp: image_iff)
  moreover have "?f w = w" if "w \<in> set (dict_values d)" "co_project w \<noteq> p" for w
    using keyed_inj [OF key that(1) c(1)] c(2) that(2) by (cases "co_id w = co_id c") simp_all
  ultimately show ?thesis
    unfolding v comm using line by (auto intro!: map_idI)
qed

lemma constitution_line_append:
  assumes "i \<notin> set (dict_keys d)"
  shows "filter (\<lambda>c. co_project c = p') (dict_values (dict_set i r d)) =
    filter (\<lambda>c. co_project c = p') (dict_values d) @ (if p' = co_project r then [r] else [])"
  by (simp only: keyed_values_new [OF assms]) simp

lemma publish_constitution_ok [inv_intros]:
  assumes ok: "truth_ok s" and fresh: "i \<notin> store_ids s"
  shows "truth_ok (snd (publish_constitution now i t p b s))"
proof (cases "missing_headings b = []")
  case False
  with ok show ?thesis by (simp add: publish_constitution_def)
next
  case True
  let ?s = "snd (publish_constitution now i t p b s)"
  let ?r = "constitution_record now i t p b (active_constitution s p)"
  have new: "i \<notin> set (dict_keys (constitutions s))" using fresh by (simp add: store_ids_def)
  have key: "keyed co_id (constitutions s)" by (rule truth_okD [OF ok])
  have keyed: "keyed co_id (constitutions ?s)"
    using True key by (auto simp: publish_constitution_def constitution_record_def
        intro!: keyed_set split: option.splits)
  have "line_ok (constitution_line ?s p')" for p'
  proof (cases "constitution_line s p" rule: rev_cases)
    case Nil
    then have a: "active_constitution s p = None" by (simp add: active_constitution_ok [OF ok])
    have "constitution_line ?s p' = constitution_line s p' @ (if p' = p then [?r] else [])"
      using True a constitution_line_append [OF new, of p']
      by (simp add: publish_constitution_def constitution_line_def constitution_record_def)
    then show ?thesis
      using Nil truth_okD(4) [OF ok, of p'] a True
      by (auto simp: line_ok_single constitution_record_def)
  next
    case (snoc cs c)
    then have a: "active_constitution s p = Some c" by (simp add: active_constitution_ok [OF ok])
    let ?c = "c\<lparr>co_status := ''superseded'', co_updated_at := now\<rparr>"
    have "c \<in> set (constitution_line s p)" unfolding snoc by simp
    then have in_c: "c \<in> set (dict_values (constitutions s))" "co_project c = p"
      by (simp_all add: constitution_line_def)
    have "co_id c \<in> set (dict_keys (constitutions s))"
      by (rule keyed_key [OF key in_c(1)])
    then have new': "i \<notin> set (dict_keys (dict_set (co_id c) ?c (constitutions s)))"
      using new by (metis dict_set_same_keys)
    have "constitution_line ?s p' = (if p' = p then cs @ [?c, ?r] else constitution_line s p')"
      using True a constitution_line_append [OF new', of p' ?r]
        constitution_line_supersede [OF key, of p cs c ?c p'] snoc in_c
      by (simp add: publish_constitution_def constitution_line_def constitution_record_def)
    moreover have "line_ok (cs @ [c])" using truth_okD(4) [OF ok, of p] snoc by simp
    then have "line_ok (cs @ [?c, ?r])"
      by (rule line_ok_publish) (simp_all add: constitution_record_def a True)
    ultimately show ?thesis using truth_okD(4) [OF ok, of p'] by simp
  qed
  with ok keyed show ?thesis
    by (simp add: truth_ok_def publish_constitution_def requirement_slugs_def edr_slugs_def no_self_supersede_def
        True split: option.splits)
qed

subsection \<open>Requirements and EDRs\<close>

text \<open>Writes to one table leave the clauses about the others alone.\<close>

lemma truth_ok_requirements:
  assumes "truth_ok s" and "keyed rq_id d" and "distinct (map (\<lambda>r. (rq_project r, rq_slug r)) (dict_values d))"
    and "\<forall>r \<in> set (dict_values d). rq_supersedes r \<noteq> Some (rq_id r)"
  shows "truth_ok (s\<lparr>requirements := d\<rparr>)"
  using assms
  by (simp add: truth_ok_def constitution_line_def requirement_slugs_def edr_slugs_def no_self_supersede_def)

lemma truth_ok_edrs:
  assumes "truth_ok s" and "keyed edr_id d" and "distinct (map (\<lambda>r. (edr_project r, edr_slug r)) (dict_values d))"
  shows "truth_ok (s\<lparr>edrs := d\<rparr>)"
  using assms
  by (simp add: truth_ok_def constitution_line_def requirement_slugs_def edr_slugs_def no_self_supersede_def)

lemma truth_ok_requirement_rewrite:
  assumes ok: "truth_ok s" and get: "dict_get (requirements s) k = Some r"
    and same: "rq_id r' = rq_id r" "rq_project r' = rq_project r" "rq_slug r' = rq_slug r"
      "rq_supersedes r' = rq_supersedes r"
  shows "truth_ok (s\<lparr>requirements := dict_set k r' (requirements s)\<rparr>)"
proof (rule truth_ok_requirements [OF ok])
  have k: "keyed rq_id (requirements s)" by (rule truth_okD [OF ok])
  show "keyed rq_id (dict_set k r' (requirements s))"
    using keyed_get [OF k get] same by (intro keyed_set k) simp
  show "distinct (map (\<lambda>r. (rq_project r, rq_slug r)) (dict_values (dict_set k r' (requirements s))))"
    using truth_okD(5) [OF ok] keyed_map_same [OF k get, of "\<lambda>r. (rq_project r, rq_slug r)" r'] same
    by (simp add: requirement_slugs_def)
  show "\<forall>r \<in> set (dict_values (dict_set k r' (requirements s))). rq_supersedes r \<noteq> Some (rq_id r)"
  proof
    fix x assume "x \<in> set (dict_values (dict_set k r' (requirements s)))"
    then have "x = r' \<or> x \<in> set (dict_values (requirements s))"
      using dict_values_set_subset by fast
    then show "rq_supersedes x \<noteq> Some (rq_id x)"
      using truth_okD(7) [OF ok] dict_get_value [OF get] same unfolding no_self_supersede_def by auto
  qed
qed

lemma truth_ok_edr_rewrite:
  assumes ok: "truth_ok s" and get: "dict_get (edrs s) k = Some r"
    and same: "edr_id r' = edr_id r" "edr_project r' = edr_project r" "edr_slug r' = edr_slug r"
  shows "truth_ok (s\<lparr>edrs := dict_set k r' (edrs s)\<rparr>)"
proof (rule truth_ok_edrs [OF ok])
  have k: "keyed edr_id (edrs s)" by (rule truth_okD [OF ok])
  show "keyed edr_id (dict_set k r' (edrs s))"
    using keyed_get [OF k get] same by (intro keyed_set k) simp
  show "distinct (map (\<lambda>r. (edr_project r, edr_slug r)) (dict_values (dict_set k r' (edrs s))))"
    using truth_okD(6) [OF ok] keyed_map_same [OF k get, of "\<lambda>r. (edr_project r, edr_slug r)" r'] same
    by (simp add: edr_slugs_def)
qed

lemma draft_requirement_ok [inv_intros]:
  assumes ok: "truth_ok s" and fresh: "i \<notin> store_ids s" and su: "su \<noteq> Some i"
  shows "truth_ok (snd (draft_requirement now i t p sl st cs ac su s))"
proof -
  have new: "i \<notin> set (dict_keys (requirements s))" using fresh by (simp add: store_ids_def)
  have "distinct (requirement_slugs s @ [(p, sl)])" if "assert_slug_free s p sl = Inr ()"
    using that truth_okD(5) [OF ok]
    by (auto simp: assert_slug_free_def requirement_slugs_def requirements_for_project_def split: if_splits)
  then show ?thesis
    using ok su truth_okD(2,7) [OF ok]
    by (auto simp: draft_requirement_def requirement_slugs_def no_self_supersede_def keyed_values_new [OF new]
        intro!: truth_ok_requirements keyed_set split: sum.splits)
qed

lemma propose_edr_ok [inv_intros]:
  assumes ok: "truth_ok s" and fresh: "i \<notin> store_ids s"
  shows "truth_ok (snd (propose_edr now i c s))"
proof -
  have new: "i \<notin> set (dict_keys (edrs s))" using fresh by (simp add: store_ids_def)
  have "distinct (edr_slugs s @ [(ec_project c, ec_slug c)])" if "assert_edr_slug_free s (ec_project c) (ec_slug c) = Inr ()"
    using that truth_okD(6) [OF ok]
    by (auto simp: assert_edr_slug_free_def edr_slugs_def edrs_for_project_def split: if_splits)
  then show ?thesis
    using ok truth_okD(3) [OF ok]
    by (auto simp: propose_edr_def edr_slugs_def edr_record_def keyed_values_new [OF new]
        intro!: truth_ok_edrs keyed_set split: sum.splits)
qed

lemma require_requirement_iff [simp]: "require_requirement s k = Inr r \<longleftrightarrow> dict_get (requirements s) k = Some r"
  by (simp add: require_requirement_def split: option.splits)

lemma require_edr_iff [simp]: "require_edr s k = Inr r \<longleftrightarrow> dict_get (edrs s) k = Some r"
  by (simp add: require_edr_def split: option.splits)

lemma approve_requirement_ok [inv_intros]:
  assumes ok: "truth_ok s"
  shows "truth_ok (snd (approve_requirement now i s))"
proof -
  have key: "keyed rq_id (requirements s)" by (rule truth_okD [OF ok])
  have one: "truth_ok (s\<lparr>requirements := dict_set i (r\<lparr>rq_status := ''approved'', rq_updated_at := now\<rparr>) (requirements s)\<rparr>)"
    if "dict_get (requirements s) i = Some r" for r
    by (rule truth_ok_requirement_rewrite [OF ok that]) simp_all
  have two: "truth_ok (s\<lparr>requirements := dict_set i (r\<lparr>rq_status := ''approved'', rq_updated_at := now\<rparr>)
      (dict_set (rq_id q) (q\<lparr>rq_status := ''superseded'', rq_updated_at := now\<rparr>) (requirements s))\<rparr>)"
    if r: "dict_get (requirements s) i = Some r" and q: "dict_get (requirements s) j = Some q"
      and su: "rq_supersedes r = Some j" for r q j
  proof -
    let ?d = "dict_set (rq_id q) (q\<lparr>rq_status := ''superseded'', rq_updated_at := now\<rparr>) (requirements s)"
    have ids: "rq_id q = j" "rq_id r = i" using keyed_get [OF key] r q by auto
    have "i \<noteq> j"
      using truth_okD(7) [OF ok] dict_get_value [OF r] su ids by (auto simp: no_self_supersede_def)
    then have "dict_get ?d i = Some r" using r ids by (simp add: dict_get_set)
    moreover have "truth_ok (s\<lparr>requirements := ?d\<rparr>)"
      using truth_ok_requirement_rewrite [OF ok q] ids by simp
    ultimately show ?thesis
      using truth_ok_requirement_rewrite [of "s\<lparr>requirements := ?d\<rparr>" i r] by simp
  qed
  show ?thesis
    using ok one two by (auto simp: approve_requirement_def split: sum.splits option.splits)
qed

lemma retire_requirement_ok [inv_intros]: "truth_ok s \<Longrightarrow> truth_ok (snd (retire_requirement now i s))"
  by (auto simp: retire_requirement_def intro!: truth_ok_requirement_rewrite split: sum.splits)

lemma reject_edr_ok [inv_intros]: "truth_ok s \<Longrightarrow> truth_ok (snd (reject_edr now i d s))"
  by (auto simp: reject_edr_def edr_decide_def intro!: truth_ok_edr_rewrite split: sum.splits)

lemma rewrite_accepted_edr_ok [inv_intros]: "truth_ok s \<Longrightarrow> truth_ok (snd (rewrite_accepted_edr now i d s))"
  by (auto simp: rewrite_accepted_edr_def intro!: truth_ok_edr_rewrite split: sum.splits)

text \<open>What \<open>accept_edr\<close> writes, when it writes.\<close>

lemma accept_edr_cases:
  assumes ok: "truth_ok s"
  obtains (same) "snd (accept_edr now i d s) = s"
  | (plain) r where "dict_get (edrs s) i = Some r" "edr_status r = ''proposed''"
      "snd (accept_edr now i d s) = s\<lparr>edrs := dict_set i (edr_decide ''accepted'' d now r) (edrs s)\<rparr>"
  | (superseding) r j q where "dict_get (edrs s) i = Some r" "edr_status r = ''proposed''"
      "dict_get (edrs s) j = Some q" "edr_status q = ''accepted''" "i \<noteq> j" "edr_id q = j"
      "snd (accept_edr now i d s) = s\<lparr>edrs := dict_set i (edr_decide ''accepted'' d now r)
         (dict_set j (q\<lparr>edr_status := ''superseded'', edr_updated_at := now\<rparr>) (edrs s))\<rparr>"
proof (cases "snd (accept_edr now i d s) = s")
  case True
  then show ?thesis by (rule same)
next
  case False
  then obtain r where r: "dict_get (edrs s) i = Some r" "edr_status r = ''proposed''"
    by (auto simp: accept_edr_def split: sum.splits if_splits option.splits)
  show ?thesis
  proof (cases "edr_supersedes r")
    case None
    with r plain show ?thesis by (simp add: accept_edr_def require_edr_def)
  next
    case (Some j)
    with r False obtain q where q: "dict_get (edrs s) j = Some q" "edr_status q = ''accepted''"
      by (auto simp: accept_edr_def require_edr_def split: option.splits if_splits)
    then have "i \<noteq> j" "edr_id q = j" using r keyed_get [OF truth_okD(3) [OF ok]] by auto
    with superseding r q Some show ?thesis
      by (simp add: accept_edr_def require_edr_def rewrite_edr_status_def)
  qed
qed

lemma accept_edr_ok [inv_intros]:
  assumes ok: "truth_ok s"
  shows "truth_ok (snd (accept_edr now i d s))"
  using ok
proof (cases rule: accept_edr_cases [of s now i d])
  case (plain r)
  then show ?thesis
    using truth_ok_edr_rewrite [OF ok plain(1)] by (simp add: edr_decide_def)
next
  case (superseding r j q)
  let ?s = "s\<lparr>edrs := dict_set j (q\<lparr>edr_status := ''superseded'', edr_updated_at := now\<rparr>) (edrs s)\<rparr>"
  have "truth_ok ?s" by (rule truth_ok_edr_rewrite [OF ok superseding(3)]) simp_all
  moreover have "dict_get (edrs ?s) i = Some r" using superseding(1,5) by (simp add: dict_get_set)
  ultimately show ?thesis
    using truth_ok_edr_rewrite [of ?s i r "edr_decide ''accepted'' d now r"] superseding(7)
    by (simp add: edr_decide_def)
qed (use ok in simp)

subsection \<open>Sequences of calls\<close>

text \<open>A caller names the superseded requirement before the identifier of the new one is drawn.\<close>

fun call_ok :: "truth_call \<Rightarrow> bool" where
  "call_ok (DraftRequirement now i t p sl st cs ac su) \<longleftrightarrow> su \<noteq> Some i"
| "call_ok _ \<longleftrightarrow> True"

lemma truth_step_ok:
  "truth_ok s \<Longrightarrow> set (call_id c) \<inter> store_ids s = {} \<Longrightarrow> call_ok c \<Longrightarrow> truth_ok (truth_step c s)"
  by (cases c) (auto intro!: inv_intros)

lemma fst_set_dict_set [simp]: "fst ` set (dict_set k v d) = insert k (fst ` set d)"
  using dict_keys_set [of k v d] by simp

lemma dict_get_fst: "dict_get d k = Some v \<Longrightarrow> k \<in> fst ` set d"
  using dict_get_key [of d k v] by simp

lemma publish_constitution_ids:
  assumes ok: "truth_ok s"
  shows "store_ids (snd (publish_constitution now i t p b s)) \<subseteq> insert i (store_ids s)"
proof -
  have "co_id c \<in> fst ` set (constitutions s)" if "active_constitution s p = Some c" for c
    using max_by_in [OF that [unfolded active_constitution_def]] keyed_key [OF truth_okD(1) [OF ok], of c] by simp
  then show ?thesis
    by (auto simp: publish_constitution_def store_ids_def split: option.splits)
qed

lemma approve_requirement_ids:
  assumes ok: "truth_ok s"
  shows "store_ids (snd (approve_requirement now i s)) \<subseteq> store_ids s"
proof -
  have "rq_id q \<in> fst ` set (requirements s)" if "dict_get (requirements s) j = Some q" for q j
    using dict_get_fst [OF that] keyed_get [OF truth_okD(2) [OF ok] that] by simp
  then show ?thesis
    by (auto simp: approve_requirement_def store_ids_def dict_get_fst split: sum.splits option.splits)
qed

lemma accept_edr_ids:
  assumes ok: "truth_ok s"
  shows "store_ids (snd (accept_edr now i d s)) \<subseteq> store_ids s"
  using ok by (cases rule: accept_edr_cases [of s now i d]) (auto simp: store_ids_def dict_get_fst)

lemma truth_step_ids:
  assumes "truth_ok s"
  shows "store_ids (truth_step c s) \<subseteq> set (call_id c) \<union> store_ids s"
proof (cases c)
  case (PublishConstitution now i t p b)
  then show ?thesis using publish_constitution_ids [OF assms] by simp
next
  case (ApproveRequirement now i)
  then show ?thesis using approve_requirement_ids [OF assms] by simp
next
  case (AcceptEdr now i d)
  then show ?thesis using accept_edr_ids [OF assms] by simp
qed (auto simp: draft_requirement_def retire_requirement_def propose_edr_def reject_edr_def
  rewrite_accepted_edr_def store_ids_def dict_get_fst split: sum.splits)

definition calls_ok :: "truth_call list \<Rightarrow> bool" where
  "calls_ok calls \<longleftrightarrow> distinct (concat (map call_id calls)) \<and> list_all call_ok calls"

lemma truth_run_ok:
  "truth_ok s \<Longrightarrow> calls_ok calls \<Longrightarrow> set (concat (map call_id calls)) \<inter> store_ids s = {} \<Longrightarrow>
    truth_ok (truth_run calls s)"
proof (induction calls arbitrary: s)
  case (Cons c calls)
  have "truth_ok (truth_step c s)"
    using Cons.prems by (intro truth_step_ok) (auto simp: calls_ok_def)
  moreover have "set (concat (map call_id calls)) \<inter> store_ids (truth_step c s) = {}"
    using truth_step_ids [OF Cons.prems(1), of c] Cons.prems(2,3) unfolding calls_ok_def by auto
  moreover have "calls_ok calls" using Cons.prems(2) by (auto simp: calls_ok_def)
  ultimately show ?case using Cons.IH by (simp add: truth_run_def)
qed (simp add: truth_run_def)

lemma empty_truth_ok [simp]: "truth_ok empty_truth" "store_ids empty_truth = {}"
  by (simp_all add: truth_ok_def empty_truth_def constitution_line_def line_ok_def requirement_slugs_def
      edr_slugs_def no_self_supersede_def store_ids_def)

text \<open>A preorder that every step respects is respected by every sequence of calls.\<close>

lemma truth_run_rel:
  assumes refl: "\<And>s. R s s" and trans: "\<And>s t u. R s t \<Longrightarrow> R t u \<Longrightarrow> R s u"
    and step: "\<And>s c. truth_ok s \<Longrightarrow> set (call_id c) \<inter> store_ids s = {} \<Longrightarrow> R s (truth_step c s)"
  shows "truth_ok s \<Longrightarrow> calls_ok calls \<Longrightarrow> set (concat (map call_id calls)) \<inter> store_ids s = {} \<Longrightarrow>
    R s (truth_run calls s)"
proof (induction calls arbitrary: s)
  case (Cons c calls)
  have fresh: "set (call_id c) \<inter> store_ids s = {}" and "call_ok c"
    using Cons.prems by (auto simp: calls_ok_def)
  have "set (concat (map call_id calls)) \<inter> store_ids (truth_step c s) = {}"
    using truth_step_ids [OF Cons.prems(1), of c] Cons.prems(2,3) unfolding calls_ok_def by auto
  moreover have "calls_ok calls" using Cons.prems(2) by (auto simp: calls_ok_def)
  ultimately have "R (truth_step c s) (truth_run calls (truth_step c s))"
    using Cons.IH truth_step_ok [OF Cons.prems(1) fresh \<open>call_ok c\<close>] by blast
  with step [OF Cons.prems(1) fresh] show ?case
    unfolding truth_run_def by (auto intro: trans)
qed (simp add: truth_run_def refl)

lemma truth_run_ids:
  "truth_ok s \<Longrightarrow> calls_ok calls \<Longrightarrow> set (concat (map call_id calls)) \<inter> store_ids s = {} \<Longrightarrow>
    store_ids (truth_run calls s) \<subseteq> set (concat (map call_id calls)) \<union> store_ids s"
proof (induction calls arbitrary: s)
  case (Cons c calls)
  have "truth_ok (truth_step c s)"
    using Cons.prems by (intro truth_step_ok) (auto simp: calls_ok_def)
  moreover have "calls_ok calls" using Cons.prems(2) by (auto simp: calls_ok_def)
  moreover have "set (concat (map call_id calls)) \<inter> store_ids (truth_step c s) = {}"
    using truth_step_ids [OF Cons.prems(1), of c] Cons.prems(2,3) unfolding calls_ok_def by auto
  ultimately have "store_ids (truth_run calls (truth_step c s))
      \<subseteq> set (concat (map call_id calls)) \<union> store_ids (truth_step c s)"
    by (rule Cons.IH)
  with truth_step_ids [OF Cons.prems(1), of c] show ?case by (auto simp: truth_run_def)
qed (simp add: truth_run_def)

subsection \<open>Slugs\<close>

definition slugs_kept :: "truth_store \<Rightarrow> truth_store \<Rightarrow> bool" where
  "slugs_kept s s' \<longleftrightarrow> prefix (requirement_slugs s) (requirement_slugs s') \<and> prefix (edr_slugs s) (edr_slugs s')"

lemma slugs_kept_requirement:
  assumes "truth_ok s" and "dict_get (requirements s) k = Some r \<and> rq_project v = rq_project r \<and> rq_slug v = rq_slug r
    \<or> k \<notin> set (dict_keys (requirements s))"
  shows "slugs_kept s (s\<lparr>requirements := dict_set k v (requirements s)\<rparr>)"
  using assms(2)
proof
  assume "dict_get (requirements s) k = Some r \<and> rq_project v = rq_project r \<and> rq_slug v = rq_slug r"
  then show ?thesis
    using keyed_map_same [OF truth_okD(2) [OF assms(1)], of k r "\<lambda>r. (rq_project r, rq_slug r)" v]
    by (simp add: slugs_kept_def requirement_slugs_def edr_slugs_def)
next
  assume "k \<notin> set (dict_keys (requirements s))"
  from keyed_values_new [OF this] show ?thesis
    by (simp add: slugs_kept_def requirement_slugs_def edr_slugs_def)
qed

lemma slugs_kept_edr:
  assumes "truth_ok s" and "dict_get (edrs s) k = Some r \<and> edr_project v = edr_project r \<and> edr_slug v = edr_slug r
    \<or> k \<notin> set (dict_keys (edrs s))"
  shows "slugs_kept s (s\<lparr>edrs := dict_set k v (edrs s)\<rparr>)"
  using assms(2)
proof
  assume "dict_get (edrs s) k = Some r \<and> edr_project v = edr_project r \<and> edr_slug v = edr_slug r"
  then show ?thesis
    using keyed_map_same [OF truth_okD(3) [OF assms(1)], of k r "\<lambda>r. (edr_project r, edr_slug r)" v]
    by (simp add: slugs_kept_def requirement_slugs_def edr_slugs_def)
next
  assume "k \<notin> set (dict_keys (edrs s))"
  from keyed_values_new [OF this] show ?thesis
    by (simp add: slugs_kept_def requirement_slugs_def edr_slugs_def)
qed

lemma slugs_kept_refl [simp]: "slugs_kept s s"
  by (simp add: slugs_kept_def)

lemma slugs_kept_trans: "slugs_kept s t \<Longrightarrow> slugs_kept t u \<Longrightarrow> slugs_kept s u"
  unfolding slugs_kept_def by (blast intro: prefix_order.trans)

lemma approve_requirement_slugs:
  assumes ok: "truth_ok s"
  shows "slugs_kept s (snd (approve_requirement now i s))"
proof -
  have "slugs_kept s (s\<lparr>requirements := dict_set i (r\<lparr>rq_status := ''approved'', rq_updated_at := now\<rparr>)
      (dict_set (rq_id q) (q\<lparr>rq_status := ''superseded'', rq_updated_at := now\<rparr>) (requirements s))\<rparr>)"
    if r: "dict_get (requirements s) i = Some r" and q: "dict_get (requirements s) j = Some q"
      and su: "rq_supersedes r = Some j" for r q j
  proof -
    have ids: "rq_id q = j" "rq_id r = i" using keyed_get [OF truth_okD(2) [OF ok]] r q by auto
    have ne: "i \<noteq> j"
      using truth_okD(7) [OF ok] dict_get_value [OF r] su ids by (auto simp: no_self_supersede_def)
    let ?s = "s\<lparr>requirements := dict_set j (q\<lparr>rq_status := ''superseded'', rq_updated_at := now\<rparr>) (requirements s)\<rparr>"
    have "truth_ok ?s" by (rule truth_ok_requirement_rewrite [OF ok q]) simp_all
    then have "slugs_kept ?s (?s\<lparr>requirements := dict_set i (r\<lparr>rq_status := ''approved'', rq_updated_at := now\<rparr>) (requirements ?s)\<rparr>)"
      by (rule slugs_kept_requirement [where r = r]) (simp add: dict_get_set ne r)
    moreover have "slugs_kept s ?s" by (rule slugs_kept_requirement [OF ok, where r = q]) (simp add: q)
    ultimately show ?thesis using slugs_kept_trans ids by simp
  qed
  moreover have "slugs_kept s (s\<lparr>requirements := dict_set i (r\<lparr>rq_status := ''approved'', rq_updated_at := now\<rparr>) (requirements s)\<rparr>)"
    if "dict_get (requirements s) i = Some r" for r
    by (rule slugs_kept_requirement [OF ok, where r = r]) (simp add: that)
  ultimately show ?thesis
    by (auto simp: approve_requirement_def split: sum.splits option.splits)
qed

lemma accept_edr_slugs:
  assumes ok: "truth_ok s"
  shows "slugs_kept s (snd (accept_edr now i d s))"
  using ok
proof (cases rule: accept_edr_cases [of s now i d])
  case (plain r)
  then show ?thesis
    using slugs_kept_edr [OF ok, of i r] by (simp add: edr_decide_def)
next
  case (superseding r j q)
  let ?s = "s\<lparr>edrs := dict_set j (q\<lparr>edr_status := ''superseded'', edr_updated_at := now\<rparr>) (edrs s)\<rparr>"
  have "truth_ok ?s" by (rule truth_ok_edr_rewrite [OF ok superseding(3)]) simp_all
  then have "slugs_kept ?s (?s\<lparr>edrs := dict_set i (edr_decide ''accepted'' d now r) (edrs ?s)\<rparr>)"
    by (rule slugs_kept_edr [where r = r]) (simp add: dict_get_set superseding edr_decide_def)
  moreover have "slugs_kept s ?s" by (rule slugs_kept_edr [OF ok, where r = q]) (simp add: superseding)
  ultimately show ?thesis using slugs_kept_trans superseding(7) by simp
qed simp

lemma truth_step_slugs:
  assumes ok: "truth_ok s" and fresh: "set (call_id c) \<inter> store_ids s = {}"
  shows "slugs_kept s (truth_step c s)"
proof (cases c)
  case (PublishConstitution now i t p b)
  then show ?thesis
    by (simp add: publish_constitution_def slugs_kept_def requirement_slugs_def edr_slugs_def split: option.splits)
next
  case (ApproveRequirement now i)
  then show ?thesis using approve_requirement_slugs [OF ok] by simp
next
  case (AcceptEdr now i d)
  then show ?thesis using accept_edr_slugs [OF ok] by simp
qed (use fresh ok in \<open>auto simp: draft_requirement_def retire_requirement_def propose_edr_def reject_edr_def edr_decide_def
  rewrite_accepted_edr_def store_ids_def intro!: slugs_kept_edr slugs_kept_requirement split: sum.splits\<close>)

lemma truth_run_slugs:
  assumes "truth_ok s" and "calls_ok calls" and "set (concat (map call_id calls)) \<inter> store_ids s = {}"
  shows "slugs_kept s (truth_run calls s)"
  by (rule truth_run_rel [where R = slugs_kept, OF _ _ _ assms])
    (erule (1) slugs_kept_trans truth_step_slugs | simp)+

subsection \<open>Decided EDRs\<close>

text \<open>Everything of an EDR but its status and the time of the last write.\<close>

definition edr_core :: "edr \<Rightarrow> edr" where
  "edr_core r = r\<lparr>edr_status := [], edr_updated_at := 0\<rparr>"

definition edr_kept :: "truth_store \<Rightarrow> truth_store \<Rightarrow> bool" where
  "edr_kept s s' \<longleftrightarrow> (\<forall>k r. dict_get (edrs s) k = Some r \<and> edr_status r \<in> {''accepted'', ''superseded''} \<longrightarrow>
    (\<exists>r'. dict_get (edrs s') k = Some r' \<and> edr_core r' = edr_core r
       \<and> edr_status r' \<in> {edr_status r, ''superseded''}))"

lemma edr_kept_refl [simp]: "edr_kept s s" "edrs s' = edrs s \<Longrightarrow> edr_kept s s'"
  by (auto simp: edr_kept_def)

lemma edr_kept_trans:
  assumes "edr_kept s t" and "edr_kept t u"
  shows "edr_kept s u"
  unfolding edr_kept_def
proof (intro allI impI)
  fix k r
  assume "dict_get (edrs s) k = Some r \<and> edr_status r \<in> {''accepted'', ''superseded''}"
  then obtain r1 where r1: "dict_get (edrs t) k = Some r1" "edr_core r1 = edr_core r"
      "edr_status r1 \<in> {edr_status r, ''superseded''}"
    using assms(1) unfolding edr_kept_def by blast
  moreover from this(3) \<open>_ \<and> _\<close> have "edr_status r1 \<in> {''accepted'', ''superseded''}" by auto
  ultimately obtain r2 where "dict_get (edrs u) k = Some r2" "edr_core r2 = edr_core r1"
      "edr_status r2 \<in> {edr_status r1, ''superseded''}"
    using assms(2) unfolding edr_kept_def by blast
  with r1 show "\<exists>r'. dict_get (edrs u) k = Some r' \<and> edr_core r' = edr_core r
      \<and> edr_status r' \<in> {edr_status r, ''superseded''}"
    by auto
qed

text \<open>A write is harmless at an undecided or absent EDR, and at an accepted one if it only supersedes.\<close>

lemma edr_kept_write:
  assumes "edrs s' = dict_set k v (edrs s)"
    and "\<And>r. dict_get (edrs s) k = Some r \<Longrightarrow> edr_status r \<in> {''accepted'', ''superseded''} \<Longrightarrow>
      edr_core v = edr_core r \<and> edr_status v = ''superseded''"
  shows "edr_kept s s'"
  using assms by (auto simp: edr_kept_def dict_get_set)

lemma truth_step_kept:
  assumes ok: "truth_ok s" and fresh: "set (call_id c) \<inter> store_ids s = {}"
  shows "edr_kept s (truth_step c s)"
proof (cases c)
  case (PublishConstitution now i t p b)
  then show ?thesis by (simp add: publish_constitution_def split: option.splits)
next
  case (ProposeEdr now i e)
  then have "dict_get (edrs s) i = None"
    using fresh by (auto simp: store_ids_def dict_get_None)
  with ProposeEdr show ?thesis
    by (auto simp: propose_edr_def intro!: edr_kept_write split: sum.splits)
next
  case (AcceptEdr now i d)
  show ?thesis
    using ok
  proof (cases rule: accept_edr_cases [of s now i d])
    case (superseding r j q)
    let ?s = "s\<lparr>edrs := dict_set j (q\<lparr>edr_status := ''superseded'', edr_updated_at := now\<rparr>) (edrs s)\<rparr>"
    have "edr_kept s ?s"
      by (rule edr_kept_write [where k = j]) (use superseding in \<open>auto simp: edr_core_def\<close>)
    moreover have "edr_kept ?s (truth_step c s)"
      by (rule edr_kept_write [where k = i])
        (use superseding AcceptEdr in \<open>auto simp: dict_get_set\<close>)
    ultimately show ?thesis by (rule edr_kept_trans)
  qed (use AcceptEdr in \<open>auto intro!: edr_kept_write\<close>)
qed (auto simp: draft_requirement_def approve_requirement_def retire_requirement_def reject_edr_def
  rewrite_accepted_edr_def intro!: edr_kept_write split: sum.splits option.splits)

lemma truth_run_kept:
  assumes "truth_ok s" and "calls_ok calls" and "set (concat (map call_id calls)) \<inter> store_ids s = {}"
  shows "edr_kept s (truth_run calls s)"
  by (rule truth_run_rel [where R = edr_kept, OF _ _ _ assms])
    (erule (1) edr_kept_trans truth_step_kept | simp)+

lemma edr_core_eqD:
  "edr_core r = edr_core r' \<Longrightarrow> edr_decision r = edr_decision r' \<and> edr_decided_by r = edr_decided_by r'"
  unfolding edr_core_def
  by (drule arg_cong [where f = "\<lambda>x. (edr_decision x, edr_decided_by x)"]) simp

subsection \<open>The two writers\<close>

lemma get_active_constitution_eq: "get_active_constitution s p = active_constitution s p"
  unfolding get_active_constitution_def active_constitution_def by (rule sort_desc_hd)

lemma db_publish_eq:
  assumes ok: "truth_ok s" and fresh: "i \<notin> store_ids s"
  shows "db_publish_constitution now i t p b s = publish_constitution now i t p b s"
proof (cases "active_constitution s p")
  case None
  with fresh show ?thesis
    by (simp add: db_publish_constitution_def publish_constitution_def get_active_constitution_eq
        table_insert_def store_ids_def)
next
  case (Some c)
  have "c \<in> set (dict_values (constitutions s))"
    using max_by_in [OF Some [unfolded active_constitution_def]] by simp
  then have get: "dict_get (constitutions s) (co_id c) = Some c"
    by (rule keyed_in [OF truth_okD(1) [OF ok]])
  with fresh have "i \<noteq> co_id c" by (auto simp: store_ids_def dest: dict_get_key)
  with fresh show ?thesis
    by (simp add: db_publish_constitution_def publish_constitution_def get_active_constitution_eq Some
        update_constitution_status_def table_update_eq [OF keyed_ok [OF truth_okD(1) [OF ok]] get]
        table_insert_def store_ids_def)
qed

lemma update_requirement_status_eq:
  assumes "truth_ok s" and "dict_get (requirements s) k = Some r"
  shows "update_requirement_status k st now s =
    s\<lparr>requirements := dict_set k (r\<lparr>rq_status := st, rq_updated_at := now\<rparr>) (requirements s)\<rparr>"
  by (simp add: update_requirement_status_def table_update_eq [OF keyed_ok [OF truth_okD(2) [OF assms(1)]] assms(2)])

lemma update_edr_status_eq:
  assumes "truth_ok s" and "dict_get (edrs s) k = Some r"
  shows "update_edr_status k st now None None s =
      s\<lparr>edrs := dict_set k (r\<lparr>edr_status := st, edr_updated_at := now\<rparr>) (edrs s)\<rparr>"
    and "update_edr_status k st now (Some d) (Some now) s = s\<lparr>edrs := dict_set k (edr_decide st d now r) (edrs s)\<rparr>"
  by (simp_all add: update_edr_status_def edr_decide_def
      table_update_eq [OF keyed_ok [OF truth_okD(3) [OF assms(1)]] assms(2)])

lemma db_retire_eq: "truth_ok s \<Longrightarrow> db_retire_requirement now k s = retire_requirement now k s"
  by (auto simp: db_retire_requirement_def retire_requirement_def reread_requirement_def require_requirement_def
      update_requirement_status_eq dict_get_set split: option.splits)

lemma db_reject_eq: "truth_ok s \<Longrightarrow> db_reject_edr now k d s = reject_edr now k d s"
  by (auto simp: db_reject_edr_def reject_edr_def reread_edr_def require_edr_def update_edr_status_eq dict_get_set
      split: option.splits)

lemma db_approve_eq:
  assumes ok: "truth_ok s"
  shows "db_approve_requirement now k s = approve_requirement now k s"
proof (cases "dict_get (requirements s) k")
  case None
  then show ?thesis by (simp add: db_approve_requirement_def approve_requirement_def require_requirement_def)
next
  case (Some r)
  let ?r = "r\<lparr>rq_status := ''approved'', rq_updated_at := now\<rparr>"
  let ?s = "s\<lparr>requirements := dict_set k ?r (requirements s)\<rparr>"
  have ok': "truth_ok ?s" by (rule truth_ok_requirement_rewrite [OF ok Some]) simp_all
  have key: "keyed rq_id (requirements s)" by (rule truth_okD [OF ok])
  have ne: "j \<noteq> k" if "rq_supersedes r = Some j" for j
    using truth_okD(7) [OF ok] dict_get_value [OF Some] keyed_get [OF key Some] that
    by (auto simp: no_self_supersede_def)
  show ?thesis
  proof (cases "rq_supersedes r")
    case None
    then show ?thesis
      using Some by (auto simp: db_approve_requirement_def approve_requirement_def require_requirement_def
          reread_requirement_def update_requirement_status_eq [OF ok Some] dict_get_set)
  next
    case (Some j)
    note j = this
    show ?thesis
    proof (cases "dict_get (requirements s) j")
      case None
      then show ?thesis
        using j ne [OF j] \<open>dict_get (requirements s) k = Some r\<close>
        by (auto simp: db_approve_requirement_def approve_requirement_def require_requirement_def
          update_requirement_status_eq [OF ok \<open>dict_get (requirements s) k = Some r\<close>] dict_get_set)
    next
      case (Some q)
      have "dict_get (requirements ?s) j = Some q" using Some ne [OF j] by (simp add: dict_get_set)
      moreover have "rq_id q = j" by (rule keyed_get [OF key Some])
      moreover have "dict_set j x (dict_set k y (requirements s)) = dict_set k y (dict_set j x (requirements s))" for x y
        using ne [OF j] dict_get_key [OF Some] dict_get_key [OF \<open>dict_get (requirements s) k = Some r\<close>]
        by (simp add: update_swap_keys)
      ultimately show ?thesis
        using j ne [OF j] \<open>dict_get (requirements s) k = Some r\<close> Some
        by (auto simp: db_approve_requirement_def approve_requirement_def require_requirement_def
          reread_requirement_def update_requirement_status_eq [OF ok \<open>dict_get (requirements s) k = Some r\<close>]
          update_requirement_status_eq [OF ok'] dict_get_set)
    qed
  qed
qed

lemma db_accept_eq:
  assumes ok: "truth_ok s"
  shows "db_accept_edr now k d s = accept_edr now k d s"
proof (cases "dict_get (edrs s) k")
  case None
  then show ?thesis by (simp add: db_accept_edr_def accept_edr_def require_edr_def)
next
  case (Some r)
  show ?thesis
  proof (cases "edr_supersedes r")
    case None
    then show ?thesis
      using Some by (auto simp: db_accept_edr_def accept_edr_def require_edr_def reread_edr_def
          update_edr_status_eq [OF ok Some] dict_get_set)
  next
    case (Some j)
    have step: "update_edr_status k ''accepted'' now (Some d) (Some now)
          (s\<lparr>edrs := dict_set j (q\<lparr>edr_status := ''superseded'', edr_updated_at := now\<rparr>) (edrs s)\<rparr>)
        = s\<lparr>edrs := dict_set k (edr_decide ''accepted'' d now r)
            (dict_set j (q\<lparr>edr_status := ''superseded'', edr_updated_at := now\<rparr>) (edrs s))\<rparr>"
      if "j \<noteq> k" "dict_get (edrs s) j = Some q" for q
    proof -
      have "truth_ok (s\<lparr>edrs := dict_set j (q\<lparr>edr_status := ''superseded'', edr_updated_at := now\<rparr>) (edrs s)\<rparr>)"
        by (rule truth_ok_edr_rewrite [OF ok that(2)]) simp_all
      from update_edr_status_eq(2) [OF this, of k r] that \<open>dict_get (edrs s) k = Some r\<close>
      show ?thesis by (simp add: dict_get_set)
    qed
    have "edr_id q = j" if "dict_get (edrs s) j = Some q" for q
      using keyed_get [OF truth_okD(3) [OF ok] that] .
    then show ?thesis
      using Some \<open>dict_get (edrs s) k = Some r\<close> step
      by (cases "j = k")
        (auto simp: db_accept_edr_def accept_edr_def require_edr_def reread_edr_def rewrite_edr_status_def
          update_edr_status_eq [OF ok] dict_get_set split: option.splits)
  qed
qed

text \<open>Two results agree when the stores are the same and both calls return the same value or both raise.\<close>

definition same_outcome :: "'a result \<times> truth_store \<Rightarrow> 'a result \<times> truth_store \<Rightarrow> bool" where
  "same_outcome x y \<longleftrightarrow> snd x = snd y \<and> (fst x = fst y \<or> (\<not> isl (fst x) \<longleftrightarrow> \<not> isl (fst y)) \<and> isl (fst x))"

lemma db_draft_outcome:
  "i \<notin> store_ids s \<Longrightarrow>
    same_outcome (db_draft_requirement now i t p sl st cs ac su s) (draft_requirement now i t p sl st cs ac su s)"
  by (auto simp: same_outcome_def db_draft_requirement_def draft_requirement_def assert_slug_free_def
      requirements_for_project_def get_requirement_by_slug_def table_insert_def store_ids_def find_None_iff
      find_Some_iff split: sum.splits option.splits)

lemma db_propose_outcome:
  "i \<notin> store_ids s \<Longrightarrow> same_outcome (db_propose_edr now i c s) (propose_edr now i c s)"
  by (auto simp: same_outcome_def db_propose_edr_def propose_edr_def assert_edr_slug_free_def
      edrs_for_project_def get_edr_by_slug_def table_insert_def store_ids_def find_None_iff
      find_Some_iff split: sum.splits option.splits)

section \<open>Properties\<close>

definition sample_body :: string where
  "sample_body = concat REQUIRED_CONSTITUTION_HEADINGS"

definition sample_edr :: edr_content where
  "sample_edr = \<lparr>ec_tenant = ''T'', ec_project = ''P'', ec_slug = ''edr-1'', ec_context = ''c'',
    ec_alternatives = [''a''], ec_decision = ''d'', ec_rationale = ''r'', ec_consequences = [],
    ec_affected = [], ec_supersedes = None\<rparr>"

definition sample_truth_calls :: "truth_call list" where
  "sample_truth_calls = [PublishConstitution 1 ''c1'' ''T'' ''P'' sample_body,
    DraftRequirement 2 ''r1'' ''T'' ''P'' ''login'' ''users log in'' [] [''ok''] None,
    ApproveRequirement 3 ''r1'', PublishConstitution 4 ''c2'' ''T'' ''P'' sample_body,
    ProposeEdr 5 ''e1'' sample_edr, AcceptEdr 6 ''e1'' ''boss'']"

lemma sample_body_complete: "missing_headings sample_body = []"
proof -
  have "str_contains h sample_body" if h: "h \<in> set REQUIRED_CONSTITUTION_HEADINGS" for h
  proof -
    obtain ys zs where e: "REQUIRED_CONSTITUTION_HEADINGS = ys @ h # zs" using h by (meson split_list)
    have "sample_body = concat ys @ h @ concat zs" unfolding sample_body_def e by simp
    then show ?thesis unfolding str_contains_iff by blast
  qed
  then show ?thesis by (simp add: missing_headings_def filter_empty_conv)
qed

text \<open>
  After any calls on an empty store, with identifiers that do not repeat, a project's constitutions are
  versions 1, 2, ..., n in the order of publication; only version n is active and it is what
  \<open>active_constitution\<close> returns; each supersedes the one before it, contains every required heading and
  carries the hash of its text.
\<close>

theorem constitution_history:
  assumes "calls_ok calls" and "cs = constitution_line (truth_run calls empty_truth) p"
  shows "(\<forall>i < length cs. line_entry_ok cs i)
    \<and> active_constitution (truth_run calls empty_truth) p = (if cs = [] then None else Some (last cs))"
proof -
  have "truth_ok (truth_run calls empty_truth)"
    by (rule truth_run_ok) (simp_all add: assms(1))
  with assms(2) show ?thesis
    using truth_okD(4) active_constitution_ok unfolding line_ok_def by blast
qed

lemmas sample_run_simps = truth_run_def empty_truth_def publish_constitution_def sample_body_complete
  constitution_record_def active_constitution_def draft_requirement_def assert_slug_free_def
  requirements_for_project_def requirement_checks_def strip_def is_space_def approve_requirement_def
  require_requirement_def propose_edr_def assert_edr_slug_free_def edrs_for_project_def accept_edr_def
  require_edr_def sample_edr_def edr_record_def edr_decide_def

theorem constitution_history_witness:
  "map co_version (constitution_line (truth_run sample_truth_calls empty_truth) ''P'') = [1, 2]
    \<and> active_constitution (truth_run sample_truth_calls empty_truth) ''P'' =
      Some (last (constitution_line (truth_run sample_truth_calls empty_truth) ''P''))"
proof -
  have ok: "calls_ok sample_truth_calls" by (simp add: calls_ok_def sample_truth_calls_def)
  have line: "map co_version (constitution_line (truth_run sample_truth_calls empty_truth) ''P'') = [1, 2]"
    by (simp add: sample_truth_calls_def sample_run_simps constitution_line_def)
  with constitution_history [OF ok refl, of "''P''"] show ?thesis by auto
qed

text \<open>
  A slug is used once in its project and never changes: after any calls on an empty store no two
  requirements and no two EDRs of a project share a slug, and further calls keep the slugs already given, in
  order, and only add to them.
\<close>

theorem slugs_unique:
  assumes "calls_ok (calls @ later)"
  shows "distinct (requirement_slugs (truth_run calls empty_truth))
    \<and> distinct (edr_slugs (truth_run calls empty_truth))
    \<and> prefix (requirement_slugs (truth_run calls empty_truth)) (requirement_slugs (truth_run (calls @ later) empty_truth))
    \<and> prefix (edr_slugs (truth_run calls empty_truth)) (edr_slugs (truth_run (calls @ later) empty_truth))"
proof -
  have parts: "calls_ok calls" "calls_ok later" using assms by (auto simp: calls_ok_def)
  have ok: "truth_ok (truth_run calls empty_truth)"
    by (rule truth_run_ok) (simp_all add: parts)
  have "set (concat (map call_id later)) \<inter> store_ids (truth_run calls empty_truth) = {}"
    using truth_run_ids [OF empty_truth_ok(1) parts(1)] assms by (auto simp: calls_ok_def)
  with truth_run_slugs [OF ok parts(2)] ok show ?thesis
    by (simp add: slugs_kept_def truth_ok_def truth_run_def)
qed

theorem slugs_unique_witness:
  "requirement_slugs (truth_run sample_truth_calls empty_truth) = [(''P'', ''login'')]
    \<and> prefix [(''P'', ''login'')] (requirement_slugs (truth_run (sample_truth_calls @ [RetireRequirement 9 ''r1'']) empty_truth))"
proof -
  have "requirement_slugs (truth_run sample_truth_calls empty_truth) = [(''P'', ''login'')]"
    unfolding requirement_slugs_def sample_truth_calls_def by (simp add: sample_run_simps)
  moreover have "calls_ok (sample_truth_calls @ [RetireRequirement 9 ''r1''])"
    by (simp add: calls_ok_def sample_truth_calls_def)
  ultimately show ?thesis
    using slugs_unique [of sample_truth_calls "[RetireRequirement 9 ''r1'']"] by simp
qed

text \<open>
  C34. An accepted decision is never rewritten: from any well-formed store, after any calls, an EDR that was
  accepted or superseded is still there with all its content, decision maker and decision time, and its
  status has changed at most from accepted to superseded.
\<close>

theorem accepted_edr_immutable:
  assumes "truth_ok s" and "calls_ok calls" and "set (concat (map call_id calls)) \<inter> store_ids s = {}"
    and "dict_get (edrs s) k = Some r" and "edr_status r \<in> {''accepted'', ''superseded''}"
  shows "\<exists>r'. dict_get (edrs (truth_run calls s)) k = Some r' \<and> edr_core r' = edr_core r
    \<and> edr_status r' \<in> {edr_status r, ''superseded''}"
  using truth_run_kept [OF assms(1-3)] assms(4,5) unfolding edr_kept_def by blast

definition decided_store :: truth_store where
  "decided_store = truth_run [ProposeEdr 5 ''e1'' sample_edr, AcceptEdr 6 ''e1'' ''boss''] empty_truth"

theorem accepted_edr_immutable_witness:
  "\<exists>r'. dict_get (edrs (truth_run [RewriteEdr 7 ''e1'' ''no'', RejectEdr 8 ''e1'' ''x''] decided_store)) ''e1'' = Some r'
    \<and> edr_decision r' = ''d'' \<and> edr_decided_by r' = Some ''boss''"
proof -
  have eval: "edrs decided_store = [(''e1'', edr_decide ''accepted'' ''boss'' 6 (edr_record 5 ''e1'' sample_edr))]"
    unfolding decided_store_def by (simp add: sample_run_simps)
  have ok: "truth_ok decided_store"
    unfolding decided_store_def by (rule truth_run_ok) (simp_all add: calls_ok_def)
  have get: "dict_get (edrs decided_store) ''e1'' = Some (edr_decide ''accepted'' ''boss'' 6 (edr_record 5 ''e1'' sample_edr))"
    by (simp add: eval)
  have calls: "calls_ok [RewriteEdr 7 ''e1'' ''no'', RejectEdr 8 ''e1'' ''x'']" by (simp add: calls_ok_def)
  from accepted_edr_immutable [OF ok calls _ get]
  obtain r' where r': "dict_get (edrs (truth_run [RewriteEdr 7 ''e1'' ''no'', RejectEdr 8 ''e1'' ''x''] decided_store)) ''e1'' = Some r'"
      "edr_core r' = edr_core (edr_decide ''accepted'' ''boss'' 6 (edr_record 5 ''e1'' sample_edr))"
    by (auto simp: edr_decide_def)
  have "edr_decision r' = ''d''" "edr_decided_by r' = Some ''boss''"
    using edr_core_eqD [OF r'(2)] by (simp_all add: edr_decide_def edr_record_def sample_edr_def)
  with r'(1) show ?thesis by blast
qed



end
