(* ===== verification/Missions.thy ===== *)
theory Missions
  imports Lifecycle Events
begin

text \<open>
  \<open>engine/missions/kernel.py\<close>, the mission kernel: missions, task graphs, tasks and edges under optimistic
  locking, with an event per transition. The records follow
  \<open>engine/contracts/{mission,task,task_graph,task_graph_edge}.py\<close>. The kernel's state is the store, the
  event store it appends to and what it draws from outside. Proved here: no update is lost, the event log
  of a mission replays to its status, a terminal mission stays as it is, a mission completes only when its
  graph is done, and readiness is what the edges say.
\<close>

section \<open>Contracts\<close>

record mission =
  mi_id :: uuid
  mi_tenant :: uuid
  mi_project :: uuid
  mi_slug :: string
  mi_title :: string
  mi_intent :: string
  mi_success_definition :: string
  mi_scope :: "string list"
  mi_requirement_refs :: "string list"
  mi_status :: string
  mi_autonomy_ceiling :: int
  mi_lock_version :: int
  mi_created_at :: time
  mi_updated_at :: time

record task =
  tk_id :: uuid
  tk_tenant :: uuid
  tk_project :: uuid
  tk_mission :: uuid
  tk_graph :: uuid
  tk_parent :: "uuid option"
  tk_title :: string
  tk_intent :: string
  tk_class :: string
  tk_requirement_refs :: "string list"
  tk_feature_refs :: "string list"
  tk_success_criteria :: "string list"
  tk_write_scope :: "string list"
  tk_read_scope :: "string list"
  tk_blast_radius :: string
  tk_risk_class :: string
  tk_effort :: string
  tk_autonomy_ceiling :: int
  tk_requires_approval :: bool
  tk_profile_ref :: "string option"
  tk_status :: string
  tk_lock_version :: int
  tk_created_at :: time
  tk_updated_at :: time

record task_graph =
  tg_id :: uuid
  tg_tenant :: uuid
  tg_project :: uuid
  tg_mission :: uuid
  tg_version :: int
  tg_supersedes :: "uuid option"
  tg_status :: string
  tg_planning_mode :: string
  tg_policy_version :: string
  tg_rationale :: string
  tg_open_questions :: "string list"
  tg_hash :: string
  tg_created_by :: uuid
  tg_lock_version :: int
  tg_created_at :: time
  tg_updated_at :: time

record task_graph_edge =
  te_id :: uuid
  te_tenant :: uuid
  te_project :: uuid
  te_mission :: uuid
  te_graph :: uuid
  te_from :: uuid
  te_to :: uuid
  te_type :: string
  te_contract_ref :: "string option"
  te_created_at :: time
  te_updated_at :: time

section \<open>The store\<close>

record world =
  missions :: "(uuid, mission) dict"
  graphs :: "(uuid, task_graph) dict"
  tasks :: "(uuid, task) dict"
  edges :: "(uuid, task_graph_edge) dict"
  log :: event_store
  outside :: env

definition tasks_for_graph :: "world \<Rightarrow> uuid \<Rightarrow> task list" where
  "tasks_for_graph w gid = filter (\<lambda>t. tk_graph t = gid) (dict_values (tasks w))"

definition edges_for_graph :: "world \<Rightarrow> uuid \<Rightarrow> task_graph_edge list" where
  "edges_for_graph w gid = filter (\<lambda>e. te_graph e = gid) (dict_values (edges w))"

text \<open>The kernel's own draws, and one \<open>EventEngine.append\<close> with what it draws.\<close>

definition now_w :: "world \<Rightarrow> time \<times> world" where
  "now_w w = (case clock_now (outside w) of (t, e) \<Rightarrow> (t, w\<lparr>outside := e\<rparr>))"

definition new_id_w :: "world \<Rightarrow> uuid \<times> world" where
  "new_id_w w = (case uuid7 (outside w) of (i, e) \<Rightarrow> (i, w\<lparr>outside := e\<rparr>))"

definition emit :: "event_args \<Rightarrow> world \<Rightarrow> world" where
  "emit a w =
    (case draw_stamp a (outside w) of
       (st, e) \<Rightarrow> w\<lparr>log := snd (event_append st a (log w)), outside := e\<rparr>)"

definition plain_event ::
  "string \<Rightarrow> string \<Rightarrow> uuid \<Rightarrow> uuid \<Rightarrow> uuid \<Rightarrow> (string \<times> json) list \<Rightarrow> uuid option \<Rightarrow> uuid option \<Rightarrow> event_args"
where
  "plain_event ty at ai tenant project payload mission task =
    \<lparr>ea_type = ty, ea_aggregate_type = at, ea_aggregate_id = ai, ea_tenant = tenant, ea_project = project,
     ea_payload = payload, ea_mission = mission, ea_task = task, ea_correlation = None, ea_causation = None\<rparr>"

section \<open>The kernel\<close>

definition require_mission :: "uuid \<Rightarrow> world \<Rightarrow> mission result" where
  "require_mission mid w =
    (case dict_get (missions w) mid of
       None \<Rightarrow> Inl (DdeError ''POLICY_DENIED'' ''Unknown mission'' False []) | Some m \<Rightarrow> Inr m)"

definition require_task :: "uuid \<Rightarrow> world \<Rightarrow> task result" where
  "require_task tid w =
    (case dict_get (tasks w) tid of
       None \<Rightarrow> Inl (DdeError ''POLICY_DENIED'' ''Unknown task'' False []) | Some t \<Rightarrow> Inr t)"

definition require_graph :: "uuid \<Rightarrow> world \<Rightarrow> task_graph result" where
  "require_graph gid w =
    (case dict_get (graphs w) gid of
       None \<Rightarrow> Inl (DdeError ''GRAPH_INVALID'' ''Unknown task graph'' False []) | Some g \<Rightarrow> Inr g)"

definition active_graph :: "uuid \<Rightarrow> world \<Rightarrow> task_graph option" where
  "active_graph mid w =
    (case filter (\<lambda>g. tg_mission g = mid \<and> tg_status g = ''ACTIVE'') (dict_values (graphs w)) of
       [] \<Rightarrow> None | g # _ \<Rightarrow> Some g)"

definition has_blocked_branch :: "uuid \<Rightarrow> world \<Rightarrow> bool" where
  "has_blocked_branch mid w =
    (case active_graph mid w of
       None \<Rightarrow> False
     | Some g \<Rightarrow> list_ex (\<lambda>t. tk_status t = ''BLOCKED_ON_DECISION'') (tasks_for_graph w (tg_id g)))"

record mission_spec =
  ms_tenant :: uuid
  ms_project :: uuid
  ms_slug :: string
  ms_title :: string
  ms_intent :: string
  ms_success_definition :: string
  ms_scope :: "string list"
  ms_requirement_refs :: "string list"
  ms_autonomy_ceiling :: int

definition commit_mission :: "mission_spec \<Rightarrow> int option \<Rightarrow> world \<Rightarrow> mission result \<times> world" where
  "commit_mission ms expected_lock w =
    (let (now, w1) = now_w w;
         (mid, w2) = new_id_w w1;
         mission = \<lparr>mi_id = mid, mi_tenant = ms_tenant ms, mi_project = ms_project ms, mi_slug = ms_slug ms,
           mi_title = ms_title ms, mi_intent = ms_intent ms, mi_success_definition = ms_success_definition ms,
           mi_scope = ms_scope ms, mi_requirement_refs = ms_requirement_refs ms, mi_status = ''CREATED'',
           mi_autonomy_ceiling = ms_autonomy_ceiling ms, mi_lock_version = 1, mi_created_at = now,
           mi_updated_at = now\<rparr>
     in if expected_lock \<noteq> None then
          (Inl (DdeError ''VERSION_CONFLICT'' ''Create does not accept a lock token'' False []), w2)
        else (Inr mission,
          emit (plain_event ''MissionCommitted'' ''mission'' mid (ms_tenant ms) (ms_project ms)
              [(''slug'', JStr (ms_slug ms)), (''status'', JStr (mi_status mission))] (Some mid) None)
            (w2\<lparr>missions := dict_set mid mission (missions w2)\<rparr>)))"

definition transition_mission :: "uuid \<Rightarrow> string \<Rightarrow> int \<Rightarrow> world \<Rightarrow> mission result \<times> world" where
  "transition_mission mid target lock w =
    (case require_mission mid w of
       Inl e \<Rightarrow> (Inl e, w)
     | Inr m \<Rightarrow>
         if mi_lock_version m \<noteq> lock then
           (Inl (DdeError ''VERSION_CONFLICT'' ''Mission lock_version mismatch'' True
              [(''expected'', JInt lock), (''actual'', JInt (mi_lock_version m))]), w)
         else
           let (now, w1) = now_w w in
           (case transition (mi_status m) target MISSION_TRANSITIONS of
              Inl e \<Rightarrow> (Inl e, w1)
            | Inr st \<Rightarrow>
                let updated = m\<lparr>mi_status := st, mi_lock_version := mi_lock_version m + 1, mi_updated_at := now\<rparr>
                in (Inr updated,
                    emit (plain_event ''MissionTransitioned'' ''mission'' mid (mi_tenant m) (mi_project m)
                        [(''from'', JStr (mi_status m)), (''to'', JStr st)] (Some mid) None)
                      (w1\<lparr>missions := dict_set mid updated (missions w1)\<rparr>))))"

definition start :: "uuid \<Rightarrow> int \<Rightarrow> world \<Rightarrow> mission result \<times> world" where
  "start mid lock w = transition_mission mid ''ACTIVE'' lock w"

definition enter_partial :: "uuid \<Rightarrow> int \<Rightarrow> world \<Rightarrow> mission result \<times> world" where
  "enter_partial mid lock w = transition_mission mid ''PARTIAL'' lock w"

definition pause :: "uuid \<Rightarrow> int \<Rightarrow> world \<Rightarrow> mission result \<times> world" where
  "pause mid lock w = transition_mission mid ''PAUSED'' lock w"

definition resume :: "uuid \<Rightarrow> int \<Rightarrow> world \<Rightarrow> mission result \<times> world" where
  "resume mid lock w =
    (case require_mission mid w of
       Inl e \<Rightarrow> (Inl e, w)
     | Inr m \<Rightarrow>
         if mi_status m = ''PAUSED'' \<and> has_blocked_branch mid w
         then transition_mission mid ''PARTIAL'' lock w
         else transition_mission mid ''ACTIVE'' lock w)"

definition cancel :: "uuid \<Rightarrow> int \<Rightarrow> world \<Rightarrow> mission result \<times> world" where
  "cancel mid lock w = transition_mission mid ''CANCELLED'' lock w"

definition open_tasks :: "uuid \<Rightarrow> world \<Rightarrow> task list" where
  "open_tasks gid w =
    filter (\<lambda>t. tk_status t \<notin> {''COMPLETED'', ''RETIRED'', ''SUPERSEDED''}) (tasks_for_graph w gid)"

definition complete :: "uuid \<Rightarrow> int \<Rightarrow> world \<Rightarrow> mission result \<times> world" where
  "complete mid lock w =
    (case require_mission mid w of
       Inl e \<Rightarrow> (Inl e, w)
     | Inr _ \<Rightarrow>
         let remaining = (case active_graph mid w of None \<Rightarrow> [] | Some g \<Rightarrow> open_tasks (tg_id g) w) in
         if remaining \<noteq> [] then
           (Inl (DdeError ''VERSION_CONFLICT'' ''Mission cannot COMPLETE while non-retired nodes remain open'' False
              [(''open_tasks'', JList (map (JStr \<circ> tk_id) remaining))]), w)
         else transition_mission mid ''COMPLETED'' lock w)"

definition fail :: "uuid \<Rightarrow> int \<Rightarrow> world \<Rightarrow> mission result \<times> world" where
  "fail mid lock w = transition_mission mid ''FAILED'' lock w"

definition propagate_failure :: "task \<Rightarrow> world \<Rightarrow> unit result \<times> world" where
  "propagate_failure t w =
    (if tk_status t \<noteq> ''RETIRED'' then (Inr (), w)
     else case require_mission (tk_mission t) w of
       Inl e \<Rightarrow> (Inl e, w)
     | Inr m \<Rightarrow>
         if mi_status m \<in> set TERMINAL_MISSION then (Inr (), w)
         else case active_graph (tk_mission t) w of
           None \<Rightarrow> (Inr (), w)
         | Some g \<Rightarrow>
             let independent = filter (\<lambda>x. tk_id x \<noteq> tk_id t
                   \<and> tk_status x \<notin> {''COMPLETED'', ''RETIRED'', ''SUPERSEDED'', ''BLOCKED''})
                   (tasks_for_graph w (tg_id g))
             in if independent \<noteq> [] \<and> mi_status m = ''ACTIVE''
                then and_then (transition_mission (mi_id m) ''PARTIAL'' (mi_lock_version m)) (\<lambda>_. Pair (Inr ())) w
                else (Inr (), w))"

definition transition_task :: "uuid \<Rightarrow> string \<Rightarrow> int \<Rightarrow> world \<Rightarrow> task result \<times> world" where
  "transition_task tid target lock w =
    (case require_task tid w of
       Inl e \<Rightarrow> (Inl e, w)
     | Inr t \<Rightarrow>
         if tk_lock_version t \<noteq> lock then
           (Inl (DdeError ''VERSION_CONFLICT'' ''Task lock_version mismatch'' True
              [(''expected'', JInt lock), (''actual'', JInt (tk_lock_version t))]), w)
         else
           let (now, w1) = now_w w in
           (case transition (tk_status t) target TASK_TRANSITIONS of
              Inl e \<Rightarrow> (Inl e, w1)
            | Inr st \<Rightarrow>
                let updated = t\<lparr>tk_status := st, tk_lock_version := tk_lock_version t + 1, tk_updated_at := now\<rparr>;
                    w2 = emit (plain_event ''TaskTransitioned'' ''task'' tid (tk_tenant t) (tk_project t)
                        [(''from'', JStr (tk_status t)), (''to'', JStr st)] (Some (tk_mission t)) (Some tid))
                      (w1\<lparr>tasks := dict_set tid updated (tasks w1)\<rparr>)
                in and_then (propagate_failure updated) (\<lambda>_. Pair (Inr updated)) w2))"

text \<open>
  \<open>refresh_task_readiness\<close>: predecessors are looked up in the snapshot of the graph's tasks taken at the
  start, so an edge from a task outside the graph raises \<open>KeyError\<close>; what was written before stays.
\<close>

fun edges_block :: "(uuid, task) dict \<Rightarrow> task \<Rightarrow> task_graph_edge list \<Rightarrow> bool result" where
  "edges_block snapshot t [] = Inr False"
| "edges_block snapshot t (e # es) =
    (if te_to e \<noteq> tk_id t \<or> te_type e \<notin> {''depends_on'', ''produces_contract_for''}
     then edges_block snapshot t es
     else case dict_get snapshot (te_from e) of
       None \<Rightarrow> Inl (KeyError (te_from e))
     | Some p \<Rightarrow>
         (case edges_block snapshot t es of
            Inl err \<Rightarrow> Inl err
          | Inr b \<Rightarrow> Inr (tk_status p \<noteq> ''COMPLETED'' \<or> b)))"

fun refresh_tasks ::
  "(uuid, task) dict \<Rightarrow> task_graph_edge list \<Rightarrow> task list \<Rightarrow> world \<Rightarrow> unit result \<times> world"
where
  "refresh_tasks snapshot es [] w = (Inr (), w)"
| "refresh_tasks snapshot es (t # ts) w =
    (if tk_status t \<notin> {''CREATED'', ''BLOCKED''} then refresh_tasks snapshot es ts w
     else case edges_block snapshot t es of
       Inl err \<Rightarrow> (Inl err, w)
     | Inr blocked \<Rightarrow>
         let target = (if blocked then ''BLOCKED'' else ''READY'') in
         if tk_status t = target then refresh_tasks snapshot es ts w
         else case transition (tk_status t) target TASK_TRANSITIONS of
           Inl err \<Rightarrow> (Inl err, w)
         | Inr st \<Rightarrow>
             let (now, w1) = now_w w in
             refresh_tasks snapshot es ts (w1\<lparr>tasks := dict_set (tk_id t)
               (t\<lparr>tk_status := st, tk_lock_version := tk_lock_version t + 1, tk_updated_at := now\<rparr>) (tasks w1)\<rparr>))"

definition refresh_task_readiness :: "uuid \<Rightarrow> world \<Rightarrow> unit result \<times> world" where
  "refresh_task_readiness gid w =
    (let snapshot = foldl (\<lambda>d t. dict_set (tk_id t) t d) [] (tasks_for_graph w gid) in
     refresh_tasks snapshot (edges_for_graph w gid) (dict_values snapshot) w)"

definition activate_graph :: "uuid \<Rightarrow> int \<Rightarrow> world \<Rightarrow> task_graph result \<times> world" where
  "activate_graph gid lock w =
    (case require_graph gid w of
       Inl e \<Rightarrow> (Inl e, w)
     | Inr g \<Rightarrow>
         if tg_lock_version g \<noteq> lock then
           (Inl (DdeError ''VERSION_CONFLICT'' ''TaskGraph lock_version mismatch'' True []), w)
         else
           let (now, w1) = now_w w in
           (case transition (tg_status g) ''ACTIVE'' GRAPH_TRANSITIONS of
              Inl e \<Rightarrow> (Inl e, w1)
            | Inr st \<Rightarrow>
                let updated = g\<lparr>tg_status := st, tg_lock_version := tg_lock_version g + 1, tg_updated_at := now\<rparr>
                in and_then (refresh_task_readiness gid) (\<lambda>_. Pair (Inr updated))
                     (w1\<lparr>graphs := dict_set gid updated (graphs w1)\<rparr>)))"

definition in_flight_tasks :: "uuid \<Rightarrow> world \<Rightarrow> task list" where
  "in_flight_tasks gid w = filter (\<lambda>t. tk_status t \<in> set IN_FLIGHT_TASK) (tasks_for_graph w gid)"

section \<open>Frames\<close>

lemma now_w_eq: "now_w w = (fst (clock_now (outside w)), w\<lparr>outside := snd (clock_now (outside w))\<rparr>)"
  by (simp add: now_w_def split: prod.splits)

lemma new_id_w_eq: "new_id_w w = (fst (uuid7 (outside w)), w\<lparr>outside := snd (uuid7 (outside w))\<rparr>)"
  by (simp add: new_id_w_def split: prod.splits)

definition emitted :: "event_args \<Rightarrow> world \<Rightarrow> event" where
  "emitted a w = fst (event_append (fst (draw_stamp a (outside w))) a (log w))"

lemma emit_frame [simp]:
  "missions (emit a w) = missions w" "graphs (emit a w) = graphs w" "tasks (emit a w) = tasks w"
  "edges (emit a w) = edges w"
  by (simp_all add: emit_def split: prod.splits)

lemma emit_log:
  "log (emit a w) = snd (event_append (fst (draw_stamp a (outside w))) a (log w))"
  "outside (emit a w) = snd (draw_stamp a (outside w))"
  by (simp_all add: emit_def split: prod.splits)

lemma emit_events: "es_events (log (emit a w)) = es_events (log w) @ [emitted a w]"
  by (simp add: emit_log emitted_def event_append_def)

lemma emitted_simps [simp]:
  "ev_type (emitted a w) = ea_type a" "ev_aggregate_type (emitted a w) = ea_aggregate_type a"
  "ev_aggregate_id (emitted a w) = ea_aggregate_id a" "ev_payload (emitted a w) = ea_payload a"
  by (simp_all add: emitted_def event_append_def)

lemma plain_event_simps [simp]:
  "ea_type (plain_event ty at ai t p d m k) = ty" "ea_aggregate_type (plain_event ty at ai t p d m k) = at"
  "ea_aggregate_id (plain_event ty at ai t p d m k) = ai" "ea_payload (plain_event ty at ai t p d m k) = d"
  by (simp_all add: plain_event_def)

lemma emit_outside:
  "ids (outside (emit a w)) = ids (outside w)" "drawn_ids (outside w) \<subseteq> drawn_ids (outside (emit a w))"
  using draw_stamp_ids(1,2) [of a "outside w"] by (simp_all add: emit_log prod_eq_iff)

section \<open>Invariant\<close>

text \<open>
  Replaying the events of one mission: the first commits it with a status, each later one moves it from
  the status reached so far along a legal transition.
\<close>

fun replay_from :: "string \<Rightarrow> event list \<Rightarrow> string option" where
  "replay_from st [] = Some st"
| "replay_from st (e # es) =
    (case (get_str (ev_payload e) ''from'', get_str (ev_payload e) ''to'') of
       (Some a, Some b) \<Rightarrow>
         if ev_type e = ''MissionTransitioned'' \<and> a = st \<and> transition a b MISSION_TRANSITIONS = Inr b
         then replay_from b es else None
     | _ \<Rightarrow> None)"

fun replay_mission :: "event list \<Rightarrow> string option" where
  "replay_mission [] = None"
| "replay_mission (e # es) =
    (if ev_type e = ''MissionCommitted'' then
       (case get_str (ev_payload e) ''status'' of Some st \<Rightarrow> replay_from st es | None \<Rightarrow> None)
     else None)"

definition mission_events :: "world \<Rightarrow> uuid \<Rightarrow> event list" where
  "mission_events w mid = aggregate_events (''mission'', mid) (es_events (log w))"

definition mission_sourced :: "world \<Rightarrow> mission \<Rightarrow> bool" where
  "mission_sourced w m \<longleftrightarrow> replay_mission (mission_events w (mi_id m)) = Some (mi_status m)
    \<and> mi_lock_version m = int (length (mission_events w (mi_id m)))"

definition store_ok :: "world \<Rightarrow> bool" where
  "store_ok w \<longleftrightarrow> keyed mi_id (missions w) \<and> keyed tg_id (graphs w) \<and> keyed tk_id (tasks w) \<and> keyed te_id (edges w)
    \<and> (\<forall>t \<in> set (dict_values (tasks w)). tk_mission t \<in> set (dict_keys (missions w)))"

definition used_ids :: "world \<Rightarrow> uuid set" where
  "used_ids w = set (dict_keys (missions w)) \<union> set (dict_keys (graphs w)) \<union> set (dict_keys (tasks w))
    \<union> set (dict_keys (edges w)) \<union> set (dict_keys (es_outbox (log w)))
    \<union> ev_aggregate_id ` {e \<in> set (es_events (log w)). ev_aggregate_type e = ''mission''}"

definition outside_ok :: "world \<Rightarrow> bool" where
  "outside_ok w \<longleftrightarrow> inj (ids (outside w)) \<and> used_ids w \<subseteq> drawn_ids (outside w)"

definition sourced :: "world \<Rightarrow> bool" where
  "sourced w \<longleftrightarrow> (\<forall>m \<in> set (dict_values (missions w)). mission_sourced w m)"

definition world_ok :: "world \<Rightarrow> bool" where
  "world_ok w \<longleftrightarrow> store_ok w \<and> outside_ok w \<and> event_store_ok (log w) \<and> sourced w"

lemma world_okD:
  assumes "world_ok w"
  shows "keyed mi_id (missions w)" "keyed tg_id (graphs w)" "keyed tk_id (tasks w)" "keyed te_id (edges w)"
    "\<And>t. t \<in> set (dict_values (tasks w)) \<Longrightarrow> tk_mission t \<in> set (dict_keys (missions w))"
    "inj (ids (outside w))" "used_ids w \<subseteq> drawn_ids (outside w)" "event_store_ok (log w)"
    "\<And>m. m \<in> set (dict_values (missions w)) \<Longrightarrow> mission_sourced w m"
  using assms by (auto simp: world_ok_def store_ok_def outside_ok_def sourced_def)

lemma replay_from_snoc:
  "replay_from st es = Some a \<Longrightarrow> ev_type e = ''MissionTransitioned'' \<Longrightarrow>
    get_str (ev_payload e) ''from'' = Some a \<Longrightarrow> get_str (ev_payload e) ''to'' = Some b \<Longrightarrow>
    transition a b MISSION_TRANSITIONS = Inr b \<Longrightarrow> replay_from st (es @ [e]) = Some b"
  by (induction es arbitrary: st) (auto split: option.splits if_splits)

lemma replay_mission_snoc:
  assumes "replay_mission es = Some a" and "ev_type e = ''MissionTransitioned''"
    and "get_str (ev_payload e) ''from'' = Some a" "get_str (ev_payload e) ''to'' = Some b"
    and "transition a b MISSION_TRANSITIONS = Inr b"
  shows "replay_mission (es @ [e]) = Some b"
  using assms by (cases es) (auto simp: replay_from_snoc split: option.splits if_splits)

lemma event_store_ok_emit:
  assumes "world_ok w"
  shows "event_store_ok (log (emit a w))"
proof -
  obtain st e' where st: "draw_stamp a (outside w) = (st, e')" by force
  have "st_outbox st \<notin> set (dict_keys (es_outbox (log w)))"
    using draw_stamp_ids(4) [OF st] world_okD(6,7) [OF assms] by (auto simp: used_ids_def)
  then show ?thesis
    using world_okD(8) [OF assms] st by (simp add: emit_log event_append_ok)
qed

lemma outside_ok_emit:
  assumes "outside_ok w" and "ea_aggregate_type a = ''mission'' \<Longrightarrow> ea_aggregate_id a \<in> drawn_ids (outside w)"
  shows "outside_ok (emit a w)"
proof -
  obtain st e' where st: "draw_stamp a (outside w) = (st, e')" by force
  note d = draw_stamp_ids [OF st]
  have out: "outside (emit a w) = e'" using st by (simp add: emit_log)
  have box: "set (dict_keys (es_outbox (log (emit a w)))) = insert (st_outbox st) (set (dict_keys (es_outbox (log w))))"
    using st by (simp add: emit_log event_append_def dict_keys_set del: set_map)
  have "used_ids (emit a w) \<subseteq> insert (st_outbox st) (used_ids w \<union> (if ea_aggregate_type a = ''mission'' then {ea_aggregate_id a} else {}))"
    unfolding used_ids_def box by (auto simp: emit_events)
  then show ?thesis
    using assms d out by (auto simp: outside_ok_def split: if_splits)
qed

lemma mission_events_emit:
  "mission_events (emit a w) mid = mission_events w mid @
    (if ea_aggregate_type a = ''mission'' \<and> ea_aggregate_id a = mid then [emitted a w] else [])"
  by (simp add: mission_events_def emit_events)

subsection \<open>The writes the kernel is made of\<close>

lemma world_ok_tick [inv_intros]: "world_ok w \<Longrightarrow> world_ok (w\<lparr>outside := snd (clock_now (outside w))\<rparr>)"
  by (simp add: world_ok_def store_ok_def outside_ok_def used_ids_def sourced_def mission_sourced_def mission_events_def)

lemma world_ok_emit [inv_intros]:
  assumes "world_ok w" and "ea_aggregate_type a \<noteq> ''mission''"
  shows "world_ok (emit a w)"
  using assms event_store_ok_emit [OF assms(1), of a] outside_ok_emit [of w a]
  by (simp add: world_ok_def store_ok_def sourced_def mission_sourced_def mission_events_emit)

lemma world_ok_task_set:
  assumes ok: "world_ok w" and k: "tk_id t = k" "k \<in> drawn_ids (outside w)"
    and m: "tk_mission t \<in> set (dict_keys (missions w))"
  shows "world_ok (w\<lparr>tasks := dict_set k t (tasks w)\<rparr>)"
proof -
  have "keyed tk_id (dict_set k t (tasks w))" by (intro keyed_set world_okD [OF ok] k)
  moreover have "tk_mission x \<in> set (dict_keys (missions w))"
    if "x \<in> set (dict_values (dict_set k t (tasks w)))" for x
    using subsetD [OF dict_values_set_subset that] world_okD(5) [OF ok, of x] m by blast
  moreover have "set (dict_keys (dict_set k t (tasks w))) = insert k (set (dict_keys (tasks w)))"
    by (rule dict_keys_set)
  ultimately show ?thesis
    using ok k(2) unfolding world_ok_def store_ok_def outside_ok_def used_ids_def sourced_def mission_sourced_def
      mission_events_def by auto
qed

lemma world_ok_graph_set:
  assumes ok: "world_ok w" and k: "tg_id g = k" "k \<in> drawn_ids (outside w)"
  shows "world_ok (w\<lparr>graphs := dict_set k g (graphs w)\<rparr>)"
proof -
  have "keyed tg_id (dict_set k g (graphs w))" by (intro keyed_set world_okD [OF ok] k)
  moreover have "set (dict_keys (dict_set k g (graphs w))) = insert k (set (dict_keys (graphs w)))"
    by (rule dict_keys_set)
  ultimately show ?thesis
    using ok k(2) unfolding world_ok_def store_ok_def outside_ok_def used_ids_def sourced_def mission_sourced_def
      mission_events_def by auto
qed

lemma world_ok_edge_set:
  assumes ok: "world_ok w" and k: "te_id e = k" "k \<in> drawn_ids (outside w)"
  shows "world_ok (w\<lparr>edges := dict_set k e (edges w)\<rparr>)"
proof -
  have "keyed te_id (dict_set k e (edges w))" by (intro keyed_set world_okD [OF ok] k)
  moreover have "set (dict_keys (dict_set k e (edges w))) = insert k (set (dict_keys (edges w)))"
    by (rule dict_keys_set)
  ultimately show ?thesis
    using ok k(2) unfolding world_ok_def store_ok_def outside_ok_def used_ids_def sourced_def mission_sourced_def
      mission_events_def by auto
qed

lemma used_key_drawn:
  assumes "world_ok w"
  shows "k \<in> set (dict_keys (tasks w)) \<Longrightarrow> k \<in> drawn_ids (outside w)"
    and "k \<in> set (dict_keys (graphs w)) \<Longrightarrow> k \<in> drawn_ids (outside w)"
    and "k \<in> set (dict_keys (missions w)) \<Longrightarrow> k \<in> drawn_ids (outside w)"
  using world_okD(7) [OF assms] by (auto simp: used_ids_def)

lemma world_ok_task_write [inv_intros]:
  assumes ok: "world_ok w" and get: "dict_get (tasks w) k = Some t"
    and same: "tk_id t' = tk_id t" "tk_mission t' = tk_mission t"
  shows "world_ok (w\<lparr>tasks := dict_set k t' (tasks w)\<rparr>)"
  by (rule world_ok_task_set [OF ok])
    (use keyed_get [OF world_okD(3) [OF ok] get] same used_key_drawn(1) [OF ok dict_get_key [OF get]]
      world_okD(5) [OF ok dict_get_value [OF get]] in simp_all)

lemma world_ok_graph_write [inv_intros]:
  assumes ok: "world_ok w" and get: "dict_get (graphs w) k = Some g" and same: "tg_id g' = tg_id g"
  shows "world_ok (w\<lparr>graphs := dict_set k g' (graphs w)\<rparr>)"
  by (rule world_ok_graph_set [OF ok])
    (use keyed_get [OF world_okD(2) [OF ok] get] same used_key_drawn(2) [OF ok dict_get_key [OF get]] in simp_all)

lemma world_ok_mission_move:
  assumes ok: "world_ok w" and get: "dict_get (missions w) mid = Some m"
    and step: "transition (mi_status m) st MISSION_TRANSITIONS = Inr st"
    and a: "a = plain_event ''MissionTransitioned'' ''mission'' mid te pr
        [(''from'', JStr (mi_status m)), (''to'', JStr st)] (Some mid) None"
    and m': "m' = m\<lparr>mi_status := st, mi_lock_version := mi_lock_version m + 1, mi_updated_at := now\<rparr>"
  shows "world_ok (emit a (w\<lparr>missions := dict_set mid m' (missions w)\<rparr>))"
proof -
  let ?w = "w\<lparr>missions := dict_set mid m' (missions w)\<rparr>"
  have mid: "mi_id m = mid" by (rule keyed_get [OF world_okD(1) [OF ok] get])
  have keys: "set (dict_keys (dict_set mid m' (missions w))) = set (dict_keys (missions w))"
    using dict_set_same_keys [OF dict_get_key [OF get]] by metis
  have key: "keyed mi_id (dict_set mid m' (missions w))"
    using mid m' by (intro keyed_set world_okD [OF ok]) simp
  have st: "store_ok ?w"
    using ok key keys unfolding world_ok_def store_ok_def by simp
  have out: "outside_ok ?w"
    using ok keys unfolding world_ok_def outside_ok_def used_ids_def by simp
  have "mid \<in> drawn_ids (outside w)"
    using world_okD(7) [OF ok] dict_get_key [OF get] by (auto simp: used_ids_def)
  then have out': "outside_ok (emit a ?w)" by (intro outside_ok_emit [OF out]) (simp add: a)
  have log: "event_store_ok (log (emit a ?w))"
    using event_store_ok_emit [OF ok, of a] by (simp add: emit_log)
  have "mission_sourced (emit a ?w) x" if "x \<in> set (dict_values (dict_set mid m' (missions w)))" for x
  proof -
    from that consider "x = m'" | k where "k \<noteq> mid" "dict_get (missions w) k = Some x"
      by (auto simp only: dict_values_set [OF keyed_ok [OF world_okD(1) [OF ok]]])
    then show ?thesis
    proof cases
      case 1
      have src: "mission_sourced w m" by (rule world_okD(9) [OF ok dict_get_value [OF get]])
      have ev: "mission_events (emit a ?w) mid = mission_events w mid @ [emitted a ?w]"
        unfolding mission_events_emit by (simp add: mission_events_def a)
      have "replay_mission (mission_events (emit a ?w) mid) = Some st"
        unfolding ev by (rule replay_mission_snoc [OF _ _ _ _ step])
          (use src mid in \<open>simp_all add: mission_sourced_def get_str_def a\<close>)
      with src mid ev 1 show ?thesis by (simp add: mission_sourced_def m')
    next
      case 2
      have "mission_sourced w x" by (rule world_okD(9) [OF ok dict_get_value [OF 2(2)]])
      moreover have "mi_id x = k" by (rule keyed_get [OF world_okD(1) [OF ok] 2(2)])
      ultimately show ?thesis
        using 2(1) unfolding mission_sourced_def mission_events_emit by (simp add: mission_events_def a)
    qed
  qed
  with st out' log show ?thesis
    by (simp add: world_ok_def store_ok_def sourced_def)
qed

lemma require_simps [simp]:
  "require_mission k w = Inr m \<longleftrightarrow> dict_get (missions w) k = Some m"
  "require_task k w = Inr t \<longleftrightarrow> dict_get (tasks w) k = Some t"
  "require_graph k w = Inr g \<longleftrightarrow> dict_get (graphs w) k = Some g"
  by (simp_all add: require_mission_def require_task_def require_graph_def split: option.splits)

lemma transition_Inr_iff [simp]: "transition a b T = Inr c \<longleftrightarrow> c = b \<and> b \<in> set (succs T a)"
  by (auto simp: transition_def)

lemma transition_mission_ok [inv_intros]:
  assumes ok: "world_ok w"
  shows "world_ok (snd (transition_mission mid target lock w))"
proof -
  let ?w = "w\<lparr>outside := snd (clock_now (outside w))\<rparr>"
  have ok': "world_ok ?w" by (rule world_ok_tick [OF ok])
  have "dict_get (missions ?w) mid = dict_get (missions w) mid" by simp
  with ok ok' world_ok_mission_move [OF ok', of mid] show ?thesis
    by (auto simp: transition_mission_def now_w_eq split: sum.splits)
qed

lemma world_ok_mission_new:
  assumes ok: "world_ok w" and fresh: "mid \<notin> used_ids w" and drawn: "mid \<in> drawn_ids (outside w)"
    and m: "mi_id m = mid" "mi_status m = st" "mi_lock_version m = 1"
    and a: "a = plain_event ''MissionCommitted'' ''mission'' mid te pr [(''slug'', x), (''status'', JStr st)] (Some mid) None"
  shows "world_ok (emit a (w\<lparr>missions := dict_set mid m (missions w)\<rparr>))"
proof -
  let ?w = "w\<lparr>missions := dict_set mid m (missions w)\<rparr>"
  have new: "mid \<notin> set (dict_keys (missions w))" using fresh by (simp add: used_ids_def)
  have keys: "set (dict_keys (dict_set mid m (missions w))) = insert mid (set (dict_keys (missions w)))"
    by (rule dict_keys_set)
  have st: "store_ok ?w"
    using ok keys m(1) unfolding world_ok_def store_ok_def by (auto intro!: keyed_set)
  have out: "outside_ok ?w"
    using ok keys drawn unfolding world_ok_def outside_ok_def used_ids_def by auto
  have out': "outside_ok (emit a ?w)" by (rule outside_ok_emit [OF out]) (simp add: a drawn)
  have log: "event_store_ok (log (emit a ?w))"
    using event_store_ok_emit [OF ok, of a] by (simp add: emit_log)
  have none: "mission_events w mid = []"
    using fresh by (auto simp: mission_events_def aggregate_events_def used_ids_def filter_empty_conv)
  have "mission_sourced (emit a ?w) y" if "y \<in> set (dict_values (dict_set mid m (missions w)))" for y
  proof -
    from that consider "y = m" | "y \<in> set (dict_values (missions w))"
      by (auto simp: keyed_values_new [OF new])
    then show ?thesis
    proof cases
      case 1
      then show ?thesis
        using none m unfolding mission_sourced_def mission_events_emit
        by (simp add: mission_events_def a get_str_def)
    next
      case 2
      have "mi_id y \<noteq> mid" using keyed_key [OF world_okD(1) [OF ok] 2] new by auto
      moreover have "mission_sourced w y" by (rule world_okD(9) [OF ok 2])
      ultimately show ?thesis
        unfolding mission_sourced_def mission_events_emit by (simp add: mission_events_def a)
    qed
  qed
  with st out' log show ?thesis
    by (simp add: world_ok_def store_ok_def sourced_def)
qed

lemma world_ok_draw:
  assumes ok: "world_ok w"
  shows "world_ok (w\<lparr>outside := snd (uuid7 (outside w))\<rparr>)"
    and "fst (uuid7 (outside w)) \<notin> used_ids (w\<lparr>outside := snd (uuid7 (outside w))\<rparr>)"
    and "fst (uuid7 (outside w)) \<in> drawn_ids (outside (w\<lparr>outside := snd (uuid7 (outside w))\<rparr>))"
  using ok uuid7_fresh [OF world_okD(6) [OF ok]] drawn_ids_uuid7 [of "outside w"] world_okD(7) [OF ok]
  by (auto simp: world_ok_def store_ok_def outside_ok_def used_ids_def sourced_def mission_sourced_def mission_events_def)

lemma commit_mission_ok [inv_intros]:
  assumes ok: "world_ok w"
  shows "world_ok (snd (commit_mission ms lk w))"
proof -
  let ?w1 = "w\<lparr>outside := snd (clock_now (outside w))\<rparr>"
  note d = world_ok_draw [OF world_ok_tick [OF ok]]
  show ?thesis
    using d(1) world_ok_mission_new [OF d, OF _ _ _ refl]
    by (simp add: commit_mission_def now_w_eq new_id_w_eq)
qed

text \<open>What an accepted call writes, and that a refused one writes nothing.\<close>

definition task_moved :: "string \<Rightarrow> world \<Rightarrow> task \<Rightarrow> task" where
  "task_moved st w t =
    t\<lparr>tk_status := st, tk_lock_version := tk_lock_version t + 1, tk_updated_at := fst (clock_now (outside w))\<rparr>"

definition task_move_event :: "string \<Rightarrow> task \<Rightarrow> event_args" where
  "task_move_event st t = plain_event ''TaskTransitioned'' ''task'' (tk_id t) (tk_tenant t) (tk_project t)
     [(''from'', JStr (tk_status t)), (''to'', JStr st)] (Some (tk_mission t)) (Some (tk_id t))"

definition task_written :: "string \<Rightarrow> task \<Rightarrow> world \<Rightarrow> world" where
  "task_written st t w = emit (task_move_event st t)
     (w\<lparr>outside := snd (clock_now (outside w)), tasks := dict_set (tk_id t) (task_moved st w t) (tasks w)\<rparr>)"

lemma transition_task_cases:
  assumes ok: "world_ok w"
  obtains (refused) e w' where "transition_task tid target lock w = (Inl e, w')"
      "w' = w \<or> w' = w\<lparr>outside := snd (clock_now (outside w))\<rparr>"
      "\<And>t. dict_get (tasks w) tid = Some t \<Longrightarrow> tk_lock_version t = lock \<Longrightarrow>
        target \<notin> set (succs TASK_TRANSITIONS (tk_status t))"
      "\<And>t. dict_get (tasks w) tid = Some t \<Longrightarrow> tk_lock_version t \<noteq> lock \<Longrightarrow>
        error_code e = ''VERSION_CONFLICT'' \<and> retryable e"
  | (moved) t where "dict_get (tasks w) tid = Some t" "tk_id t = tid" "tk_lock_version t = lock"
      "target \<in> set (succs TASK_TRANSITIONS (tk_status t))"
      "transition_task tid target lock w =
        ((case fst (propagate_failure (task_moved target w t) (task_written target t w)) of
            Inl e \<Rightarrow> Inl e | Inr _ \<Rightarrow> Inr (task_moved target w t)),
         snd (propagate_failure (task_moved target w t) (task_written target t w)))"
proof (cases "dict_get (tasks w) tid")
  case None
  then show ?thesis
    using refused by (simp add: transition_task_def require_task_def)
next
  case (Some t)
  have tid: "tk_id t = tid" by (rule keyed_get [OF world_okD(3) [OF ok] Some])
  show ?thesis
  proof (cases "tk_lock_version t = lock \<and> target \<in> set (succs TASK_TRANSITIONS (tk_status t))")
    case True
    with Some tid have "transition_task tid target lock w =
        ((case fst (propagate_failure (task_moved target w t) (task_written target t w)) of
            Inl e \<Rightarrow> Inl e | Inr _ \<Rightarrow> Inr (task_moved target w t)),
         snd (propagate_failure (task_moved target w t) (task_written target t w)))"
      unfolding task_moved_def task_written_def task_move_event_def
      by (simp add: transition_task_def require_task_def now_w_eq and_then_return transition_def
          cong: sum.case_cong)
    with Some tid True moved show ?thesis by blast
  next
    case False
    show ?thesis
    proof (cases "tk_lock_version t = lock")
      case True
      with False Some have "transition_task tid target lock w =
          (Inl (illegal_transition (tk_status t) target), w\<lparr>outside := snd (clock_now (outside w))\<rparr>)"
        by (simp add: transition_task_def require_task_def now_w_eq transition_def)
      then show ?thesis by (rule refused) (use Some True False in auto)
    next
      case False
      with Some have "transition_task tid target lock w =
          (Inl (DdeError ''VERSION_CONFLICT'' ''Task lock_version mismatch'' True
              [(''expected'', JInt lock), (''actual'', JInt (tk_lock_version t))]), w)"
        by (simp add: transition_task_def require_task_def)
      then show ?thesis by (rule refused) (use Some False in auto)
    qed
  qed
qed

definition mission_moved :: "string \<Rightarrow> world \<Rightarrow> mission \<Rightarrow> mission" where
  "mission_moved st w m =
    m\<lparr>mi_status := st, mi_lock_version := mi_lock_version m + 1, mi_updated_at := fst (clock_now (outside w))\<rparr>"

definition mission_written :: "string \<Rightarrow> mission \<Rightarrow> world \<Rightarrow> world" where
  "mission_written st m w =
    emit (plain_event ''MissionTransitioned'' ''mission'' (mi_id m) (mi_tenant m) (mi_project m)
        [(''from'', JStr (mi_status m)), (''to'', JStr st)] (Some (mi_id m)) None)
     (w\<lparr>outside := snd (clock_now (outside w)), missions := dict_set (mi_id m) (mission_moved st w m) (missions w)\<rparr>)"

lemma transition_mission_cases:
  assumes ok: "world_ok w"
  obtains (refused) e w' where "transition_mission mid target lock w = (Inl e, w')"
      "w' = w \<or> w' = w\<lparr>outside := snd (clock_now (outside w))\<rparr>"
      "\<And>m. dict_get (missions w) mid = Some m \<Longrightarrow> mi_lock_version m = lock \<Longrightarrow>
        target \<notin> set (succs MISSION_TRANSITIONS (mi_status m))"
      "\<And>m. dict_get (missions w) mid = Some m \<Longrightarrow> mi_lock_version m \<noteq> lock \<Longrightarrow>
        error_code e = ''VERSION_CONFLICT'' \<and> retryable e"
  | (moved) m where "dict_get (missions w) mid = Some m" "mi_id m = mid" "mi_lock_version m = lock"
      "target \<in> set (succs MISSION_TRANSITIONS (mi_status m))"
      "transition_mission mid target lock w = (Inr (mission_moved target w m), mission_written target m w)"
proof (cases "dict_get (missions w) mid")
  case None
  then show ?thesis
    using refused by (simp add: transition_mission_def require_mission_def)
next
  case (Some m)
  have mid: "mi_id m = mid" by (rule keyed_get [OF world_okD(1) [OF ok] Some])
  show ?thesis
  proof (cases "mi_lock_version m = lock \<and> target \<in> set (succs MISSION_TRANSITIONS (mi_status m))")
    case True
    with Some mid moved show ?thesis
      by (simp add: transition_mission_def require_mission_def now_w_eq transition_def
          mission_moved_def mission_written_def)
  next
    case False
    show ?thesis
    proof (cases "mi_lock_version m = lock")
      case True
      with False Some have "transition_mission mid target lock w =
          (Inl (illegal_transition (mi_status m) target), w\<lparr>outside := snd (clock_now (outside w))\<rparr>)"
        by (simp add: transition_mission_def require_mission_def now_w_eq transition_def)
      then show ?thesis by (rule refused) (use Some True False in auto)
    next
      case False
      with Some have "transition_mission mid target lock w =
          (Inl (DdeError ''VERSION_CONFLICT'' ''Mission lock_version mismatch'' True
              [(''expected'', JInt lock), (''actual'', JInt (mi_lock_version m))]), w)"
        by (simp add: transition_mission_def require_mission_def)
      then show ?thesis by (rule refused) (use Some False in auto)
    qed
  qed
qed

lemma task_written_ok:
  assumes ok: "world_ok w" and get: "dict_get (tasks w) (tk_id t) = Some t"
  shows "world_ok (task_written st t w)"
proof -
  let ?w = "w\<lparr>outside := snd (clock_now (outside w))\<rparr>"
  have "world_ok (?w\<lparr>tasks := dict_set (tk_id t) (task_moved st w t) (tasks ?w)\<rparr>)"
    by (rule world_ok_task_write [OF world_ok_tick [OF ok], where t = t]) (use get in \<open>simp_all add: task_moved_def\<close>)
  then show ?thesis
    unfolding task_written_def by (intro world_ok_emit) (simp_all add: task_move_event_def)
qed

text \<open>Retiring this task leaves other work of the active graph that can go on.\<close>

definition work_remains :: "task \<Rightarrow> world \<Rightarrow> bool" where
  "work_remains t w \<longleftrightarrow> (\<exists>g. active_graph (tk_mission t) w = Some g \<and>
    (\<exists>x \<in> set (tasks_for_graph w (tg_id g)). tk_id x \<noteq> tk_id t
      \<and> tk_status x \<notin> {''COMPLETED'', ''RETIRED'', ''SUPERSEDED'', ''BLOCKED''}))"

lemma propagate_failure_eq:
  assumes ok: "world_ok w" and get: "dict_get (missions w) (tk_mission t) = Some m"
  shows "propagate_failure t w =
    (Inr (), if tk_status t = ''RETIRED'' \<and> mi_status m = ''ACTIVE'' \<and> work_remains t w
             then mission_written ''PARTIAL'' m w else w)"
proof -
  have mid: "mi_id m = tk_mission t" by (rule keyed_get [OF world_okD(1) [OF ok] get])
  have legal: "''PARTIAL'' \<in> set (succs MISSION_TRANSITIONS ''ACTIVE'')" "''ACTIVE'' \<notin> set TERMINAL_MISSION"
    by (simp_all add: succs_def MISSION_TRANSITIONS_def TERMINAL_MISSION_def)
  have move: "transition_mission (mi_id m) ''PARTIAL'' (mi_lock_version m) w =
      (Inr (mission_moved ''PARTIAL'' w m), mission_written ''PARTIAL'' m w)" if "mi_status m = ''ACTIVE''"
    using ok
  proof (cases rule: transition_mission_cases [of w "mi_id m" "''PARTIAL''" "mi_lock_version m"])
    case (refused e w')
    from refused(3) [of m] get mid that legal show ?thesis by simp
  next
    case (moved m')
    with get mid show ?thesis by simp
  qed
  show ?thesis
  proof (cases "active_graph (tk_mission t) w")
    case None
    then show ?thesis
      by (simp add: propagate_failure_def require_mission_def get work_remains_def)
  next
    case (Some g)
    then show ?thesis
      using move legal
      by (auto simp: propagate_failure_def require_mission_def get work_remains_def and_then_return
          filter_empty_conv)
  qed
qed

text \<open>So on a well-formed store the propagation cannot raise, and it touches the mission only.\<close>

lemma propagate_failure_total:
  assumes ok: "world_ok w" and m: "tk_mission t \<in> set (dict_keys (missions w))"
  shows "fst (propagate_failure t w) = Inr ()" and "tasks (snd (propagate_failure t w)) = tasks w"
    and "graphs (snd (propagate_failure t w)) = graphs w" and "edges (snd (propagate_failure t w)) = edges w"
    and "world_ok (snd (propagate_failure t w))"
proof -
  obtain m where get: "dict_get (missions w) (tk_mission t) = Some m"
    using m by (metis dict_get_None option.exhaust)
  have mid: "mi_id m = tk_mission t" by (rule keyed_get [OF world_okD(1) [OF ok] get])
  have "world_ok (mission_written ''PARTIAL'' m w)" if "mi_status m = ''ACTIVE''"
  proof -
    let ?w = "w\<lparr>outside := snd (clock_now (outside w))\<rparr>"
    have "world_ok ?w" by (rule world_ok_tick [OF ok])
    from world_ok_mission_move [OF this, of "tk_mission t" m "''PARTIAL''" _ "mi_tenant m" "mi_project m"
        "mission_moved ''PARTIAL'' w m" "fst (clock_now (outside w))"]
    show ?thesis
      using get mid that by (simp add: mission_written_def mission_moved_def succs_def MISSION_TRANSITIONS_def)
  qed
  then show "fst (propagate_failure t w) = Inr ()" "tasks (snd (propagate_failure t w)) = tasks w"
      "graphs (snd (propagate_failure t w)) = graphs w" "edges (snd (propagate_failure t w)) = edges w"
      "world_ok (snd (propagate_failure t w))"
    using ok unfolding propagate_failure_eq [OF ok get] by (simp_all add: mission_written_def)
qed

lemma task_written_frame [simp]:
  "missions (task_written st t w) = missions w" "graphs (task_written st t w) = graphs w"
  "edges (task_written st t w) = edges w"
  "tasks (task_written st t w) = dict_set (tk_id t) (task_moved st w t) (tasks w)"
  by (simp_all add: task_written_def)

lemma task_moved_simps [simp]:
  "tk_id (task_moved st w t) = tk_id t" "tk_mission (task_moved st w t) = tk_mission t"
  "tk_status (task_moved st w t) = st" "tk_lock_version (task_moved st w t) = tk_lock_version t + 1"
  "tk_graph (task_moved st w t) = tk_graph t"
  by (simp_all add: task_moved_def)

lemma mission_moved_simps [simp]:
  "mi_id (mission_moved st w m) = mi_id m" "mi_status (mission_moved st w m) = st"
  "mi_lock_version (mission_moved st w m) = mi_lock_version m + 1"
  by (simp_all add: mission_moved_def)

lemma mission_written_frame [simp]:
  "tasks (mission_written st m w) = tasks w" "graphs (mission_written st m w) = graphs w"
  "edges (mission_written st m w) = edges w"
  "missions (mission_written st m w) = dict_set (mi_id m) (mission_moved st w m) (missions w)"
  by (simp_all add: mission_written_def)

text \<open>So an accepted task transition returns the moved task, and nothing else of the tasks changes.\<close>

lemma transition_task_moved:
  assumes ok: "world_ok w" and get: "dict_get (tasks w) (tk_id t) = Some t"
  shows "fst (propagate_failure (task_moved st w t) (task_written st t w)) = Inr ()"
    and "tasks (snd (propagate_failure (task_moved st w t) (task_written st t w))) =
      dict_set (tk_id t) (task_moved st w t) (tasks w)"
    and "world_ok (snd (propagate_failure (task_moved st w t) (task_written st t w)))"
proof -
  have "tk_mission (task_moved st w t) \<in> set (dict_keys (missions (task_written st t w)))"
    using world_okD(5) [OF ok dict_get_value [OF get]] by simp
  note total = propagate_failure_total [OF task_written_ok [OF ok get] this]
  show "fst (propagate_failure (task_moved st w t) (task_written st t w)) = Inr ()"
      "tasks (snd (propagate_failure (task_moved st w t) (task_written st t w))) =
        dict_set (tk_id t) (task_moved st w t) (tasks w)"
      "world_ok (snd (propagate_failure (task_moved st w t) (task_written st t w)))"
    using total by simp_all
qed

lemma transition_task_ok [inv_intros]:
  assumes ok: "world_ok w"
  shows "world_ok (snd (transition_task tid target lock w))"
  using ok
proof (cases rule: transition_task_cases [of w tid target lock])
  case (refused e w')
  then show ?thesis using ok world_ok_tick [OF ok] by auto
next
  case (moved t)
  then show ?thesis using transition_task_moved(3) [OF ok, of t target] by simp
qed

section \<open>Optimistic locking\<close>

text \<open>
  The contract of a row that carries a status and a lock version: a call states the version it read; it is
  accepted when that is still the row's version and the transition is legal, and then the version grows by
  one; otherwise no row changes, and a stale version is reported as a retryable conflict.
\<close>

locale optimistic_lock =
  fixes rows :: "'w \<Rightarrow> uuid \<Rightarrow> 'r option"
    and version :: "'r \<Rightarrow> int"
    and status :: "'r \<Rightarrow> string"
    and table :: "(string, string list) dict"
    and step :: "uuid \<Rightarrow> string \<Rightarrow> int \<Rightarrow> 'w \<Rightarrow> 'r result \<times> 'w"
    and ok :: "'w \<Rightarrow> bool"
  assumes step_ok: "ok w \<Longrightarrow> ok (snd (step k t v w))"
    and accepted: "ok w \<Longrightarrow> step k t v w = (Inr r, w') \<Longrightarrow>
      \<exists>r0. rows w k = Some r0 \<and> version r0 = v \<and> t \<in> set (succs table (status r0))
        \<and> version r = v + 1 \<and> status r = t \<and> rows w' = (rows w)(k \<mapsto> r)"
    and refused: "ok w \<Longrightarrow> step k t v w = (Inl e, w') \<Longrightarrow> rows w' = rows w"
    and granted: "ok w \<Longrightarrow> rows w k = Some r0 \<Longrightarrow> version r0 = v \<Longrightarrow> t \<in> set (succs table (status r0)) \<Longrightarrow>
      \<exists>r w'. step k t v w = (Inr r, w')"
    and stale: "ok w \<Longrightarrow> rows w k = Some r0 \<Longrightarrow> version r0 \<noteq> v \<Longrightarrow>
      \<exists>e. fst (step k t v w) = Inl e \<and> error_code e = ''VERSION_CONFLICT'' \<and> retryable e"
begin

text \<open>Of two calls that read the same version, the second is refused.\<close>

lemma no_lost_update:
  assumes "ok w" and "step k t v w = (Inr r, w')"
  shows "\<exists>e. fst (step k t' v w') = Inl e \<and> error_code e = ''VERSION_CONFLICT'' \<and> retryable e"
proof -
  have "ok w'" using step_ok [OF assms(1), of k t v] assms(2) by simp
  moreover have "rows w' k = Some r" "version r \<noteq> v" using accepted [OF assms] by auto
  ultimately show ?thesis by (rule stale)
qed

text \<open>The targets that were accepted at \<open>k\<close> in a sequence of calls, and the state it leaves.\<close>

fun run :: "uuid \<Rightarrow> (uuid \<times> string \<times> int) list \<Rightarrow> 'w \<Rightarrow> string list \<times> 'w" where
  "run k [] w = ([], w)"
| "run k ((k', t, v) # cs) w =
    (case step k' t v w of (res, w') \<Rightarrow>
      case run k cs w' of (ts, w'') \<Rightarrow> (if k' = k \<and> \<not> isl res then t # ts else ts, w''))"

lemma run_path:
  "ok w \<Longrightarrow> rows w k = Some r \<Longrightarrow> run k cs w = (ts, w') \<Longrightarrow>
    ok w' \<and> (\<exists>r'. rows w' k = Some r' \<and> run_transitions table (status r) ts = Inr (status r')
      \<and> version r' = version r + int (length ts) \<and> (ts = [] \<longrightarrow> r' = r))"
proof (induction cs arbitrary: w r ts w')
  case (Cons c cs)
  obtain k' t v where c: "c = (k', t, v)" by (metis prod.exhaust)
  obtain res w1 where st: "step k' t v w = (res, w1)" by force
  obtain us w2 where rn: "run k cs w1 = (us, w2)" by force
  have ok1: "ok w1" using step_ok [OF Cons.prems(1), of k' t v] st by simp
  have out: "w' = w2" "ts = (if k' = k \<and> \<not> isl res then t # us else us)"
    using Cons.prems(3) c st rn by auto
  show ?case
  proof (cases res)
    case (Inl e)
    then have "rows w1 k = Some r" using refused [OF Cons.prems(1)] st Cons.prems(2) by metis
    from Cons.IH [OF ok1 this rn] out Inl show ?thesis by simp
  next
    case (Inr r1)
    then obtain r0 where r0: "rows w k' = Some r0" "version r0 = v" "t \<in> set (succs table (status r0))"
        "version r1 = v + 1" "status r1 = t" "rows w1 = (rows w)(k' \<mapsto> r1)"
      using accepted [OF Cons.prems(1)] st by blast
    show ?thesis
    proof (cases "k' = k")
      case True
      with r0 have "rows w1 k = Some r1" by simp
      from Cons.IH [OF ok1 this rn] out Inr True r0 Cons.prems(2) show ?thesis
        by (auto simp: transition_def)
    next
      case False
      with r0 Cons.prems(2) have "rows w1 k = Some r" by simp
      from Cons.IH [OF ok1 this rn] out Inr False show ?thesis by simp
    qed
  qed
qed auto

text \<open>Nothing moves a row from a state without successors.\<close>

lemma stuck:
  assumes "ok w" and "rows w k = Some r" and "succs table (status r) = []"
  shows "rows (snd (run k cs w)) k = Some r"
proof -
  obtain ts w' where rn: "run k cs w = (ts, w')" by force
  from run_path [OF assms(1,2) rn] obtain r' where r': "rows w' k = Some r'"
      "run_transitions table (status r) ts = Inr (status r')" "ts = [] \<longrightarrow> r' = r"
    by blast
  have "ts = []" using r'(2) assms(3) by (cases ts) (auto simp: transition_def)
  with r' rn show ?thesis by simp
qed

end

interpretation mission_lock: optimistic_lock "\<lambda>w. dict_get (missions w)" mi_lock_version mi_status
  MISSION_TRANSITIONS transition_mission world_ok
proof unfold_locales
  fix w k t v
  show "world_ok w \<Longrightarrow> world_ok (snd (transition_mission k t v w))" by (rule transition_mission_ok)
next
  fix w k t v r w'
  assume ok: "world_ok w" and st: "transition_mission k t v w = (Inr r, w')"
  show "\<exists>r0. dict_get (missions w) k = Some r0 \<and> mi_lock_version r0 = v \<and> t \<in> set (succs MISSION_TRANSITIONS (mi_status r0))
      \<and> mi_lock_version r = v + 1 \<and> mi_status r = t \<and> dict_get (missions w') = (dict_get (missions w))(k \<mapsto> r)"
    using ok by (cases rule: transition_mission_cases [of w k t v]) (use st in \<open>auto simp: update_conv\<close>)
next
  fix w k t v e w'
  assume ok: "world_ok w" and st: "transition_mission k t v w = (Inl e, w')"
  show "dict_get (missions w') = dict_get (missions w)"
    using ok by (cases rule: transition_mission_cases [of w k t v]) (use st in auto)
next
  fix w k r0 v t
  assume ok: "world_ok w" and r0: "dict_get (missions w) k = Some r0" "mi_lock_version r0 = v"
    "t \<in> set (succs MISSION_TRANSITIONS (mi_status r0))"
  show "\<exists>r w'. transition_mission k t v w = (Inr r, w')"
    using ok by (cases rule: transition_mission_cases [of w k t v]) (use r0 in auto)
next
  fix w k r0 v t
  assume ok: "world_ok w" and r0: "dict_get (missions w) k = Some r0" "mi_lock_version r0 \<noteq> v"
  show "\<exists>e. fst (transition_mission k t v w) = Inl e \<and> error_code e = ''VERSION_CONFLICT'' \<and> retryable e"
    using ok by (cases rule: transition_mission_cases [of w k t v]) (use r0 in auto)
qed

interpretation task_lock: optimistic_lock "\<lambda>w. dict_get (tasks w)" tk_lock_version tk_status
  TASK_TRANSITIONS transition_task world_ok
proof unfold_locales
  fix w k t v
  show "world_ok w \<Longrightarrow> world_ok (snd (transition_task k t v w))" by (rule transition_task_ok)
next
  fix w k t v r w'
  assume ok: "world_ok w" and st: "transition_task k t v w = (Inr r, w')"
  show "\<exists>r0. dict_get (tasks w) k = Some r0 \<and> tk_lock_version r0 = v \<and> t \<in> set (succs TASK_TRANSITIONS (tk_status r0))
      \<and> tk_lock_version r = v + 1 \<and> tk_status r = t \<and> dict_get (tasks w') = (dict_get (tasks w))(k \<mapsto> r)"
    using ok
  proof (cases rule: transition_task_cases [of w k t v])
    case (moved x)
    with st transition_task_moved [OF ok, of x t] show ?thesis by (auto simp: update_conv)
  qed (use st in auto)
next
  fix w k t v e w'
  assume ok: "world_ok w" and st: "transition_task k t v w = (Inl e, w')"
  show "dict_get (tasks w') = dict_get (tasks w)"
    using ok
  proof (cases rule: transition_task_cases [of w k t v])
    case (moved x)
    with st transition_task_moved [OF ok, of x t] show ?thesis by auto
  qed (use st in auto)
next
  fix w k r0 v t
  assume ok: "world_ok w" and r0: "dict_get (tasks w) k = Some r0" "tk_lock_version r0 = v"
    "t \<in> set (succs TASK_TRANSITIONS (tk_status r0))"
  show "\<exists>r w'. transition_task k t v w = (Inr r, w')"
    using ok
  proof (cases rule: transition_task_cases [of w k t v])
    case (moved x)
    with transition_task_moved [OF ok, of x t] show ?thesis by auto
  qed (use r0 in auto)
next
  fix w k r0 v t
  assume ok: "world_ok w" and r0: "dict_get (tasks w) k = Some r0" "tk_lock_version r0 \<noteq> v"
  show "\<exists>e. fst (transition_task k t v w) = Inl e \<and> error_code e = ''VERSION_CONFLICT'' \<and> retryable e"
    using ok by (cases rule: transition_task_cases [of w k t v]) (use r0 in auto)
qed

section \<open>Readiness\<close>

definition gates :: "task_graph_edge \<Rightarrow> task \<Rightarrow> bool" where
  "gates e t \<longleftrightarrow> te_to e = tk_id t \<and> te_type e \<in> {''depends_on'', ''produces_contract_for''}"

lemma edges_block_cases:
  "case edges_block snap t es of
     Inl err \<Rightarrow> (\<exists>e \<in> set es. gates e t \<and> dict_get snap (te_from e) = None \<and> err = KeyError (te_from e))
   | Inr b \<Rightarrow> (\<forall>e \<in> set es. gates e t \<longrightarrow> dict_get snap (te_from e) \<noteq> None)
       \<and> (b \<longleftrightarrow> (\<exists>e \<in> set es. gates e t \<and> (\<exists>p. dict_get snap (te_from e) = Some p \<and> tk_status p \<noteq> ''COMPLETED'')))"
  by (induction es) (auto simp: gates_def split: sum.splits option.splits)

lemma snapshot_eq:
  "distinct (map tk_id ts) \<Longrightarrow> foldl (\<lambda>d t. dict_set (tk_id t) t d) [] ts = map (\<lambda>t. (tk_id t, t)) ts"
proof (induction ts rule: rev_induct)
  case (snoc t ts)
  then have "tk_id t \<notin> set (dict_keys (map (\<lambda>t. (tk_id t, t)) ts))" by auto
  with snoc show ?case by (simp add: dict_set_new)
qed simp

text \<open>The status a task should have, by the edges into it and the statuses of its predecessors.\<close>

definition due_status :: "(uuid, task) dict \<Rightarrow> task_graph_edge list \<Rightarrow> task \<Rightarrow> string" where
  "due_status snap es t =
    (if tk_status t \<notin> {''CREATED'', ''BLOCKED''} then tk_status t
     else if \<exists>e \<in> set es. gates e t \<and> (\<exists>p. dict_get snap (te_from e) = Some p \<and> tk_status p \<noteq> ''COMPLETED'')
     then ''BLOCKED'' else ''READY'')"

definition readied :: "task \<Rightarrow> string \<Rightarrow> task \<Rightarrow> bool" where
  "readied t st t' \<longleftrightarrow> (if st = tk_status t then t' = t
     else t' = t\<lparr>tk_status := st, tk_lock_version := tk_lock_version t + 1, tk_updated_at := tk_updated_at t'\<rparr>)"

lemma readied_changed:
  assumes "readied t st t'" and "st \<noteq> tk_status t"
  shows "tk_status t' = st \<and> tk_lock_version t' = tk_lock_version t + 1"
proof -
  have e: "t' = t\<lparr>tk_status := st, tk_lock_version := tk_lock_version t + 1, tk_updated_at := tk_updated_at t'\<rparr>"
    using assms by (simp add: readied_def)
  show ?thesis using arg_cong [OF e, of tk_status] arg_cong [OF e, of tk_lock_version] by simp
qed

text \<open>One round of the loop: what it decides for its task, and what it then writes.\<close>

definition task_readied :: "string \<Rightarrow> world \<Rightarrow> task \<Rightarrow> world" where
  "task_readied st w t = w\<lparr>outside := snd (clock_now (outside w)),
     tasks := dict_set (tk_id t) (task_moved st w t) (tasks w)\<rparr>"

lemma due_legal: "due_status snap es t \<noteq> tk_status t \<Longrightarrow> due_status snap es t \<in> set (succs TASK_TRANSITIONS (tk_status t))"
  by (auto simp: due_status_def succs_def TASK_TRANSITIONS_def split: if_splits)

lemma refresh_tasks_step:
  assumes "tk_status t \<in> {''CREATED'', ''BLOCKED''} \<Longrightarrow>
    \<forall>e \<in> set es. gates e t \<longrightarrow> dict_get snap (te_from e) \<noteq> None"
  shows "refresh_tasks snap es (t # ts) w =
    refresh_tasks snap es ts (if due_status snap es t = tk_status t then w else task_readied (due_status snap es t) w t)"
proof (cases "tk_status t \<in> {''CREATED'', ''BLOCKED''}")
  case False
  then show ?thesis by (simp add: due_status_def)
next
  case True
  with assms obtain b where b: "edges_block snap t es = Inr b"
      "due_status snap es t = (if b then ''BLOCKED'' else ''READY'')"
    using edges_block_cases [where snap = snap and t = t and es = es] by (auto simp: due_status_def split: sum.splits)
  with True due_legal [of snap es t] show ?thesis
    by (auto simp: now_w_eq transition_def task_readied_def task_moved_def)
qed

definition rows_current :: "task list \<Rightarrow> world \<Rightarrow> bool" where
  "rows_current ts w \<longleftrightarrow> distinct (map tk_id ts) \<and> (\<forall>t \<in> set ts. dict_get (tasks w) (tk_id t) = Some t)"

lemma rows_current_step: "rows_current (t # ts) w \<Longrightarrow> rows_current ts w \<and> rows_current ts (task_readied st w t)"
proof -
  assume a: "rows_current (t # ts) w"
  have "dict_get (tasks (task_readied st w t)) (tk_id x) = Some x" if "x \<in> set ts" for x
  proof -
    have "tk_id t \<notin> tk_id ` set ts" using a by (simp add: rows_current_def)
    with that have "tk_id x \<noteq> tk_id t" by (metis imageI)
    with a that show ?thesis by (simp add: rows_current_def task_readied_def dict_get_set)
  qed
  with a show ?thesis by (simp add: rows_current_def)
qed

lemma task_readied_ok:
  "world_ok w \<Longrightarrow> rows_current (t # ts) w \<Longrightarrow> world_ok (task_readied st w t)"
  using world_ok_task_write [OF world_ok_tick, of w "tk_id t" t "task_moved st w t"]
  by (simp add: task_readied_def rows_current_def)

lemma refresh_tasks_ok:
  "world_ok w \<Longrightarrow> rows_current ts w \<Longrightarrow> world_ok (snd (refresh_tasks snap es ts w))"
proof (induction ts arbitrary: w)
  case (Cons t ts)
  note next_ok = Cons.IH [OF task_readied_ok [OF Cons.prems] rows_current_step [OF Cons.prems(2), THEN conjunct2]]
    Cons.IH [OF Cons.prems(1) rows_current_step [OF Cons.prems(2), THEN conjunct1]]
  show ?case
  proof (cases "edges_block snap t es")
    case (Inl e)
    with Cons.prems(1) next_ok show ?thesis by simp
  next
    case (Inr b)
    then have "tk_status t \<in> {''CREATED'', ''BLOCKED''} \<Longrightarrow> \<forall>e \<in> set es. gates e t \<longrightarrow> dict_get snap (te_from e) \<noteq> None"
      using edges_block_cases [where snap = snap and t = t and es = es] by simp
    from refresh_tasks_step [OF this] next_ok show ?thesis by (simp del: refresh_tasks.simps)
  qed
qed simp

text \<open>The outcome of a refresh of the tasks \<open>ts\<close>: only tasks change, and each becomes what is due.\<close>

definition refreshed :: "(uuid, task) dict \<Rightarrow> task_graph_edge list \<Rightarrow> task list \<Rightarrow> world \<Rightarrow> world \<Rightarrow> bool" where
  "refreshed snap es ts w w' \<longleftrightarrow> missions w' = missions w \<and> graphs w' = graphs w \<and> edges w' = edges w
    \<and> log w' = log w \<and> dict_keys (tasks w') = dict_keys (tasks w)
    \<and> (\<forall>t \<in> set ts. \<exists>t'. dict_get (tasks w') (tk_id t) = Some t' \<and> readied t (due_status snap es t) t')
    \<and> (\<forall>k. k \<notin> tk_id ` set ts \<longrightarrow> dict_get (tasks w') k = dict_get (tasks w) k)"

definition gates_closed :: "(uuid, task) dict \<Rightarrow> task_graph_edge list \<Rightarrow> task list \<Rightarrow> bool" where
  "gates_closed snap es ts \<longleftrightarrow> (\<forall>t \<in> set ts. tk_status t \<in> {''CREATED'', ''BLOCKED''} \<longrightarrow>
    (\<forall>e \<in> set es. gates e t \<longrightarrow> dict_get snap (te_from e) \<noteq> None))"

lemma refresh_tasks_spec:
  "rows_current ts w \<Longrightarrow> gates_closed snap es ts \<Longrightarrow>
    \<exists>w'. refresh_tasks snap es ts w = (Inr (), w') \<and> refreshed snap es ts w w'"
proof (induction ts arbitrary: w)
  case (Cons t ts)
  let ?st = "due_status snap es t"
  let ?w = "if ?st = tk_status t then w else task_readied ?st w t"
  have "refresh_tasks snap es (t # ts) w = refresh_tasks snap es ts ?w"
    by (rule refresh_tasks_step) (use Cons.prems(2) in \<open>auto simp: gates_closed_def\<close>)
  moreover have "rows_current ts ?w"
    using rows_current_step [OF Cons.prems(1)] by simp
  moreover have "gates_closed snap es ts" using Cons.prems(2) by (simp add: gates_closed_def)
  ultimately obtain w' where w': "refresh_tasks snap es (t # ts) w = (Inr (), w')" "refreshed snap es ts ?w w'"
    using Cons.IH [of ?w] by metis
  have here: "dict_get (tasks w) (tk_id t) = Some t" "tk_id t \<notin> tk_id ` set ts"
    using Cons.prems(1) by (simp_all add: rows_current_def)
  have now: "dict_get (tasks ?w) (tk_id t) = Some (if ?st = tk_status t then t else task_moved ?st w t)"
    using here(1) by (simp add: task_readied_def dict_get_set)
  have "dict_get (tasks w') (tk_id t) = dict_get (tasks ?w) (tk_id t)"
    using w'(2) here(2) unfolding refreshed_def by blast
  then have head: "\<exists>t'. dict_get (tasks w') (tk_id t) = Some t' \<and> readied t ?st t'"
    unfolding now by (simp add: readied_def task_moved_def)
  have frame: "missions ?w = missions w" "graphs ?w = graphs w" "edges ?w = edges w" "log ?w = log w"
      "dict_keys (tasks ?w) = dict_keys (tasks w)"
    using dict_get_key [OF here(1)] by (simp_all add: task_readied_def dict_set_same_keys)
  have "dict_get (tasks ?w) k = dict_get (tasks w) k" if "k \<noteq> tk_id t" for k
    using that by (simp add: task_readied_def dict_get_set)
  with w'(2) head frame have "refreshed snap es (t # ts) w w'"
    unfolding refreshed_def by (simp only: list.set ball_simps image_insert insert_iff de_Morgan_disj) metis
  with w'(1) show ?case by blast
qed (simp add: refreshed_def)

lemma tasks_for_graph_current:
  assumes ok: "world_ok w"
  shows "rows_current (tasks_for_graph w gid) w"
    and "foldl (\<lambda>d t. dict_set (tk_id t) t d) [] (tasks_for_graph w gid) = map (\<lambda>t. (tk_id t, t)) (tasks_for_graph w gid)"
proof -
  have "distinct (map tk_id (tasks_for_graph w gid))"
    unfolding tasks_for_graph_def by (rule distinct_map_filter [OF keyed_distinct [OF world_okD(3) [OF ok]]])
  then show "rows_current (tasks_for_graph w gid) w"
      "foldl (\<lambda>d t. dict_set (tk_id t) t d) [] (tasks_for_graph w gid) = map (\<lambda>t. (tk_id t, t)) (tasks_for_graph w gid)"
    using keyed_in [OF world_okD(3) [OF ok]] by (auto simp: rows_current_def snapshot_eq tasks_for_graph_def)
qed

abbreviation graph_snapshot :: "world \<Rightarrow> uuid \<Rightarrow> (uuid, task) dict" where
  "graph_snapshot w gid \<equiv> map (\<lambda>t. (tk_id t, t)) (tasks_for_graph w gid)"

lemma refresh_task_readiness_eq:
  "world_ok w \<Longrightarrow> refresh_task_readiness gid w =
    refresh_tasks (graph_snapshot w gid) (edges_for_graph w gid) (tasks_for_graph w gid) w"
  by (simp add: refresh_task_readiness_def tasks_for_graph_current(2) comp_def)

lemma refresh_task_readiness_ok [inv_intros]:
  "world_ok w \<Longrightarrow> world_ok (snd (refresh_task_readiness gid w))"
  by (simp add: refresh_task_readiness_eq refresh_tasks_ok tasks_for_graph_current)

lemma activate_graph_ok [inv_intros]:
  assumes ok: "world_ok w"
  shows "world_ok (snd (activate_graph gid lock w))"
proof (cases "dict_get (graphs w) gid")
  case None
  with ok show ?thesis by (simp add: activate_graph_def require_graph_def)
next
  case (Some g)
  let ?w = "w\<lparr>outside := snd (clock_now (outside w))\<rparr>"
  have "world_ok (?w\<lparr>graphs := dict_set gid (g\<lparr>tg_status := st, tg_lock_version := v, tg_updated_at := n\<rparr>) (graphs ?w)\<rparr>)"
    for st v n
    by (rule world_ok_graph_write [OF world_ok_tick [OF ok], where g = g]) (use Some in simp_all)
  with Some ok world_ok_tick [OF ok] show ?thesis
    by (simp add: activate_graph_def require_graph_def now_w_eq and_then_return transition_def refresh_task_readiness_ok)
qed

section \<open>Reachable states\<close>

inductive kernel_step :: "world \<Rightarrow> world \<Rightarrow> bool" where
  commit: "kernel_step w (snd (commit_mission ms expected_lock w))"
| start: "kernel_step w (snd (start mid lock w))"
| enter_partial: "kernel_step w (snd (enter_partial mid lock w))"
| pause: "kernel_step w (snd (pause mid lock w))"
| resume: "kernel_step w (snd (resume mid lock w))"
| cancel: "kernel_step w (snd (cancel mid lock w))"
| complete: "kernel_step w (snd (complete mid lock w))"
| fail: "kernel_step w (snd (fail mid lock w))"
| transition_task: "kernel_step w (snd (transition_task tid target lock w))"
| activate_graph: "kernel_step w (snd (activate_graph gid lock w))"
| refresh: "kernel_step w (snd (refresh_task_readiness gid w))"

inductive kernel_reach :: "world \<Rightarrow> world \<Rightarrow> bool" for w0 where
  init: "kernel_reach w0 w0"
| step: "kernel_reach w0 w \<Longrightarrow> kernel_step w w' \<Longrightarrow> kernel_reach w0 w'"

text \<open>Every operation on a mission is one guarded transition or nothing.\<close>

lemma resume_cases: "(\<exists>t. t \<in> {''ACTIVE'', ''PARTIAL''} \<and> resume mid lock w = transition_mission mid t lock w)
    \<or> (\<exists>e. resume mid lock w = (Inl e, w))"
  by (auto simp: resume_def split: sum.splits)

lemma complete_cases: "(\<exists>e. complete mid lock w = (Inl e, w)) \<or> complete mid lock w = transition_mission mid ''COMPLETED'' lock w"
  by (auto simp: complete_def split: sum.splits)

lemma kernel_step_ok:
  assumes "kernel_step w w'" and ok: "world_ok w"
  shows "world_ok w'"
  using assms(1)
proof cases
  case (resume mid lock)
  with ok show ?thesis by (auto simp: resume_def transition_mission_ok split: sum.splits)
next
  case (complete mid lock)
  with ok complete_cases [of mid lock w] show ?thesis by (auto simp: transition_mission_ok)
qed (use ok in \<open>simp_all add: commit_mission_ok transition_mission_ok transition_task_ok activate_graph_ok
  refresh_task_readiness_ok start_def enter_partial_def pause_def cancel_def fail_def\<close>)

lemma kernel_reach_ok: "kernel_reach w0 w \<Longrightarrow> world_ok w0 \<Longrightarrow> world_ok w"
  by (induction rule: kernel_reach.induct) (auto intro: kernel_step_ok)

text \<open>A mission once committed is never lost, its identity is fixed, and its status follows its table.\<close>

definition mission_kept :: "world \<Rightarrow> world \<Rightarrow> bool" where
  "mission_kept w w' \<longleftrightarrow> (\<forall>k m. dict_get (missions w) k = Some m \<longrightarrow>
    (\<exists>m' ts. dict_get (missions w') k = Some m' \<and> run_transitions MISSION_TRANSITIONS (mi_status m) ts = Inr (mi_status m')
       \<and> mi_lock_version m' = mi_lock_version m + int (length ts) \<and> (ts = [] \<longrightarrow> m' = m)))"

lemma mission_keptI_same: "missions w' = missions w \<Longrightarrow> mission_kept w w'"
  unfolding mission_kept_def by (auto intro!: exI [of _ "[]"])

lemma run_transitions_append:
  "run_transitions T a xs = Inr b \<Longrightarrow> run_transitions T b ys = Inr c \<Longrightarrow> run_transitions T a (xs @ ys) = Inr c"
  by (induction xs arbitrary: a) (auto simp: transition_def split: sum.splits if_splits)

lemma mission_kept_trans:
  assumes "mission_kept u v" and "mission_kept v w"
  shows "mission_kept u w"
  unfolding mission_kept_def
proof (intro allI impI)
  fix k m assume "dict_get (missions u) k = Some m"
  then obtain m1 ts where 1: "dict_get (missions v) k = Some m1"
      "run_transitions MISSION_TRANSITIONS (mi_status m) ts = Inr (mi_status m1)"
      "mi_lock_version m1 = mi_lock_version m + int (length ts)" "ts = [] \<longrightarrow> m1 = m"
    using assms(1) unfolding mission_kept_def by blast
  then obtain m2 us where 2: "dict_get (missions w) k = Some m2"
      "run_transitions MISSION_TRANSITIONS (mi_status m1) us = Inr (mi_status m2)"
      "mi_lock_version m2 = mi_lock_version m1 + int (length us)" "us = [] \<longrightarrow> m2 = m1"
    using assms(2) unfolding mission_kept_def by blast
  show "\<exists>m' ts. dict_get (missions w) k = Some m' \<and> run_transitions MISSION_TRANSITIONS (mi_status m) ts = Inr (mi_status m')
       \<and> mi_lock_version m' = mi_lock_version m + int (length ts) \<and> (ts = [] \<longrightarrow> m' = m)"
    by (intro exI [of _ m2] exI [of _ "ts @ us"]) (use 1 2 run_transitions_append in auto)
qed

lemma mission_kept_written:
  assumes ok: "world_ok w" and get: "dict_get (missions w) (mi_id m) = Some m"
    and legal: "st \<in> set (succs MISSION_TRANSITIONS (mi_status m))"
    and w': "missions w' = dict_set (mi_id m) (mission_moved st w m) (missions w)"
  shows "mission_kept w w'"
  unfolding mission_kept_def
proof (intro allI impI)
  fix k x assume x: "dict_get (missions w) k = Some x"
  show "\<exists>m' ts. dict_get (missions w') k = Some m' \<and> run_transitions MISSION_TRANSITIONS (mi_status x) ts = Inr (mi_status m')
       \<and> mi_lock_version m' = mi_lock_version x + int (length ts) \<and> (ts = [] \<longrightarrow> m' = x)"
  proof (cases "k = mi_id m")
    case True
    with x get have "x = m" by simp
    with True legal show ?thesis
      by (intro exI [of _ "mission_moved st w m"] exI [of _ "[st]"]) (simp add: w' dict_get_set transition_def)
  next
    case False
    with x show ?thesis by (intro exI [of _ x] exI [of _ "[]"]) (simp add: w' dict_get_set)
  qed
qed

lemma transition_mission_kept:
  assumes ok: "world_ok w"
  shows "mission_kept w (snd (transition_mission mid t lock w))"
  using ok
proof (cases rule: transition_mission_cases [of w mid t lock])
  case (refused e w')
  then show ?thesis by (auto intro: mission_keptI_same)
next
  case (moved m)
  then show ?thesis using mission_kept_written [OF ok, of m t] by simp
qed

lemma transition_task_kept:
  assumes ok: "world_ok w"
  shows "mission_kept w (snd (transition_task tid t lock w))"
  using ok
proof (cases rule: transition_task_cases [of w tid t lock])
  case (refused e w')
  then show ?thesis by (auto intro: mission_keptI_same)
next
  case (moved x)
  let ?w = "task_written t x w"
  have ok': "world_ok ?w" by (rule task_written_ok [OF ok]) (simp add: moved)
  obtain m where m: "dict_get (missions w) (tk_mission x) = Some m"
    using world_okD(5) [OF ok dict_get_value [OF moved(1)]] by (metis dict_get_None option.exhaust)
  have mid: "mi_id m = tk_mission x" by (rule keyed_get [OF world_okD(1) [OF ok] m])
  have "''PARTIAL'' \<in> set (succs MISSION_TRANSITIONS ''ACTIVE'')" by (simp add: succs_def MISSION_TRANSITIONS_def)
  then have "mission_kept ?w (snd (propagate_failure (task_moved t w x) ?w))"
    using propagate_failure_eq [OF ok', of "task_moved t w x" m] m mid mission_kept_written [OF ok', of m "''PARTIAL''"]
    by (auto intro: mission_keptI_same)
  then have "mission_kept w (snd (propagate_failure (task_moved t w x) ?w))"
    by (rule mission_kept_trans [rotated]) (simp add: mission_keptI_same)
  with moved show ?thesis by simp
qed

lemma refresh_frame: "missions (snd (refresh_tasks snap es ts w)) = missions w"
  by (induction ts arbitrary: w) (auto simp: now_w_eq split: sum.splits)

lemma refresh_readiness_frame [simp]: "missions (snd (refresh_task_readiness gid w)) = missions w"
  by (simp add: refresh_task_readiness_def refresh_frame)

lemma activate_graph_frame [simp]: "missions (snd (activate_graph gid lock w)) = missions w"
  by (simp add: activate_graph_def now_w_eq and_then_return split: sum.splits)

lemma commit_mission_kept:
  assumes ok: "world_ok w"
  shows "mission_kept w (snd (commit_mission ms lk w))"
proof -
  let ?mid = "fst (uuid7 (snd (clock_now (outside w))))"
  have "?mid \<notin> set (dict_keys (missions w))"
    using world_ok_draw(2) [OF world_ok_tick [OF ok]] by (simp add: used_ids_def)
  then have "k \<noteq> ?mid" if "dict_get (missions w) k = Some m" for k m
    using dict_get_key [OF that] by metis
  then show ?thesis
    unfolding mission_kept_def
    by (auto simp: commit_mission_def now_w_eq new_id_w_eq dict_get_set intro!: exI [of _ "[]"])
qed

lemma kernel_step_kept:
  assumes "kernel_step w w'" and ok: "world_ok w"
  shows "mission_kept w w'"
  using assms(1)
proof cases
  case (resume mid lock)
  with resume_cases [of mid lock w] transition_mission_kept [OF ok] show ?thesis
    by (auto intro: mission_keptI_same)
next
  case (complete mid lock)
  with complete_cases [of mid lock w] transition_mission_kept [OF ok] show ?thesis
    by (auto intro: mission_keptI_same)
qed (use ok in \<open>simp_all add: commit_mission_kept transition_mission_kept transition_task_kept mission_keptI_same
  start_def enter_partial_def pause_def cancel_def fail_def\<close>)

lemma kernel_reach_kept: "kernel_reach w0 w \<Longrightarrow> world_ok w0 \<Longrightarrow> mission_kept w0 w"
proof (induction rule: kernel_reach.induct)
  case init
  show ?case by (simp add: mission_keptI_same)
next
  case (step w w')
  then show ?case
    using kernel_step_kept [OF step.hyps(2) kernel_reach_ok [OF step.hyps(1) step.prems]] mission_kept_trans by blast
qed

text \<open>Which status a mission can newly get from a call.\<close>

lemma transition_mission_new_status:
  assumes ok: "world_ok w" and w': "w' = snd (transition_mission mid t lock w)"
    and "dict_get (missions w) k = Some m" and "dict_get (missions w') k = Some m'" and "mi_status m' \<noteq> mi_status m"
  shows "k = mid \<and> mi_status m' = t"
  using ok
proof (cases rule: transition_mission_cases [of w mid t lock])
  case (refused e w'')
  then show ?thesis using assms by auto
next
  case (moved m0)
  then show ?thesis using assms by (auto simp: dict_get_set split: if_splits)
qed

lemma transition_task_new_status:
  assumes ok: "world_ok w" and w': "w' = snd (transition_task tid t lock w)"
    and k: "dict_get (missions w) k = Some m" "dict_get (missions w') k = Some m'" "mi_status m' \<noteq> mi_status m"
  shows "mi_status m' = ''PARTIAL''"
  using ok
proof (cases rule: transition_task_cases [of w tid t lock])
  case (refused e w'')
  then show ?thesis using assms by auto
next
  case (moved x)
  have ok': "world_ok (task_written t x w)" by (rule task_written_ok [OF ok]) (simp add: moved)
  obtain m0 where m0: "dict_get (missions w) (tk_mission x) = Some m0"
    using world_okD(5) [OF ok dict_get_value [OF moved(1)]] by (metis dict_get_None option.exhaust)
  from propagate_failure_eq [OF ok', of "task_moved t w x" m0] m0 moved(5) w' k
  show ?thesis by (auto simp: dict_get_set split: if_splits)
qed

subsection \<open>A sample state\<close>

definition sample_env :: env where
  "sample_env = \<lparr>ids = (\<lambda>n. replicate n (CHR ''i'')), drawn = 5, clock = int, ticks = 0\<rparr>"

definition sample_mid :: uuid where "sample_mid = ''iiiii''"

definition empty_world :: "env \<Rightarrow> world" where
  "empty_world e = \<lparr>missions = [], graphs = [], tasks = [], edges = [], log = empty_event_store, outside = e\<rparr>"

definition sample_spec :: mission_spec where
  "sample_spec = \<lparr>ms_tenant = ''T'', ms_project = ''P'', ms_slug = ''s'', ms_title = ''t'', ms_intent = ''i'',
    ms_success_definition = ''d'', ms_scope = [], ms_requirement_refs = [], ms_autonomy_ceiling = 2\<rparr>"

definition sample_task :: "uuid \<Rightarrow> string \<Rightarrow> task" where
  "sample_task tid st = \<lparr>tk_id = tid, tk_tenant = ''T'', tk_project = ''P'', tk_mission = sample_mid, tk_graph = ''i'',
    tk_parent = None, tk_title = ''t'', tk_intent = ''i'', tk_class = ''implementation'', tk_requirement_refs = [],
    tk_feature_refs = [], tk_success_criteria = [], tk_write_scope = [], tk_read_scope = [],
    tk_blast_radius = ''local'', tk_risk_class = ''low'', tk_effort = ''s'', tk_autonomy_ceiling = 1,
    tk_requires_approval = False, tk_profile_ref = None, tk_status = st, tk_lock_version = 1,
    tk_created_at = 0, tk_updated_at = 0\<rparr>"

definition sample_graph :: task_graph where
  "sample_graph = \<lparr>tg_id = ''i'', tg_tenant = ''T'', tg_project = ''P'', tg_mission = sample_mid, tg_version = 1,
    tg_supersedes = None, tg_status = ''ACTIVE'', tg_planning_mode = ''template'', tg_policy_version = ''1'',
    tg_rationale = ''r'', tg_open_questions = [], tg_hash = ''h'', tg_created_by = ''u'', tg_lock_version = 1,
    tg_created_at = 0, tg_updated_at = 0\<rparr>"

definition sample_edge :: task_graph_edge where
  "sample_edge = \<lparr>te_id = ''iiii'', te_tenant = ''T'', te_project = ''P'', te_mission = sample_mid, te_graph = ''i'',
    te_from = ''ii'', te_to = ''iii'', te_type = ''depends_on'', te_contract_ref = None, te_created_at = 0,
    te_updated_at = 0\<rparr>"

text \<open>A mission that was committed and started, with a graph of two tasks in the given statuses.\<close>

definition started_world :: world where
  "started_world = snd (start sample_mid 1 (snd (commit_mission sample_spec None (empty_world sample_env))))"

definition sample_world :: "string \<Rightarrow> string \<Rightarrow> world" where
  "sample_world a b = started_world\<lparr>graphs := [(''i'', sample_graph)],
     tasks := [(''ii'', sample_task ''ii'' a), (''iii'', sample_task ''iii'' b)], edges := [(''iiii'', sample_edge)]\<rparr>"

lemma empty_world_ok: "inj (ids e) \<Longrightarrow> world_ok (empty_world e)"
  by (simp add: empty_world_def world_ok_def store_ok_def outside_ok_def used_ids_def sourced_def)
    (simp add: empty_event_store_def)

lemma sample_env_inj: "inj (ids sample_env)"
  by (rule injI) (auto simp: sample_env_def dest: arg_cong [where f = length])

definition sample_mission :: mission where
  "sample_mission = \<lparr>mi_id = sample_mid, mi_tenant = ''T'', mi_project = ''P'', mi_slug = ''s'', mi_title = ''t'',
    mi_intent = ''i'', mi_success_definition = ''d'', mi_scope = [], mi_requirement_refs = [],
    mi_status = ''ACTIVE'', mi_autonomy_ceiling = 2, mi_lock_version = 2, mi_created_at = 0, mi_updated_at = 2\<rparr>"

lemma started_world_eval:
  "missions started_world = [(sample_mid, sample_mission)]" "graphs started_world = []"
  "tasks started_world = []" "edges started_world = []" "drawn (outside started_world) = 12"
  "ids (outside started_world) = (\<lambda>n. replicate n (CHR ''i''))"
  by (simp_all add: started_world_def start_def transition_mission_def require_mission_def commit_mission_def
      now_w_eq new_id_w_eq sample_mid_def sample_mission_def sample_spec_def empty_world_def emit_log draw_stamp_def
      sample_env_def clock_now_def uuid7_def plain_event_def succs_def MISSION_TRANSITIONS_def transition_def
      numeral_eq_Suc)

lemma started_world_ok: "world_ok started_world"
  unfolding started_world_def start_def
  by (intro transition_mission_ok commit_mission_ok empty_world_ok sample_env_inj)

lemma sample_drawn: "n < 12 \<Longrightarrow> replicate n (CHR ''i'') \<in> drawn_ids (outside started_world)"
  by (simp add: drawn_ids_def started_world_eval)

lemma sample_world_ok: "world_ok (sample_world a b)"
proof -
  have d: "''i'' \<in> drawn_ids (outside started_world)" "''ii'' \<in> drawn_ids (outside started_world)"
      "''iii'' \<in> drawn_ids (outside started_world)" "''iiii'' \<in> drawn_ids (outside started_world)"
    using sample_drawn [of 1] sample_drawn [of 2] sample_drawn [of 3] sample_drawn [of 4]
    by (simp_all add: numeral_eq_Suc)
  note sets = world_ok_graph_set [of _ sample_graph "''i''"] world_ok_task_set [of _ "sample_task ''ii'' a" "''ii''"]
    world_ok_task_set [of _ "sample_task ''iii'' b" "''iii''"] world_ok_edge_set [of _ sample_edge "''iiii''"]
  have 1: "world_ok (started_world\<lparr>graphs := [(''i'', sample_graph)]\<rparr>)"
    using sets(1) [OF started_world_ok] d by (simp add: sample_graph_def started_world_eval)
  have 2: "world_ok (started_world\<lparr>graphs := [(''i'', sample_graph)], tasks := [(''ii'', sample_task ''ii'' a)]\<rparr>)"
    using sets(2) [OF 1] d by (simp add: sample_task_def started_world_eval)
  have 3: "world_ok (started_world\<lparr>graphs := [(''i'', sample_graph)],
      tasks := [(''ii'', sample_task ''ii'' a), (''iii'', sample_task ''iii'' b)]\<rparr>)"
    using sets(3) [OF 2] d by (simp add: sample_task_def started_world_eval)
  show ?thesis
    using sets(4) [OF 3] d by (simp add: sample_world_def sample_edge_def started_world_eval)
qed

lemma sample_world_simps [simp]:
  "dict_get (missions (sample_world a b)) sample_mid = Some sample_mission"
  "graphs (sample_world a b) = [(''i'', sample_graph)]"
  "tasks (sample_world a b) = [(''ii'', sample_task ''ii'' a), (''iii'', sample_task ''iii'' b)]"
  "edges (sample_world a b) = [(''iiii'', sample_edge)]"
  by (simp_all add: sample_world_def started_world_eval)

lemma sample_mission_granted:
  "t \<in> set (succs MISSION_TRANSITIONS ''ACTIVE'') \<Longrightarrow>
    \<exists>m w'. transition_mission sample_mid t 2 (sample_world a b) = (Inr m, w')"
  by (rule mission_lock.granted [OF sample_world_ok sample_world_simps(1)]) (simp_all add: sample_mission_def)

lemma sample_task_granted:
  "t \<in> set (succs TASK_TRANSITIONS b) \<Longrightarrow> \<exists>x w'. transition_task ''iii'' t 1 (sample_world a b) = (Inr x, w')"
  by (rule task_lock.granted [OF sample_world_ok, where ?r0.0 = "sample_task ''iii'' b"])
    (simp_all add: sample_task_def)

lemma sample_moves:
  "''PAUSED'' \<in> set (succs MISSION_TRANSITIONS ''ACTIVE'')" "''CANCELLED'' \<in> set (succs MISSION_TRANSITIONS ''ACTIVE'')"
  "''COMPLETED'' \<in> set (succs MISSION_TRANSITIONS ''ACTIVE'')"
  "''BLOCKED'' \<in> set (succs TASK_TRANSITIONS ''CREATED'')" "''RETIRED'' \<in> set (succs TASK_TRANSITIONS ''BLOCKED'')"
  by (simp_all add: succs_def MISSION_TRANSITIONS_def TASK_TRANSITIONS_def TASK_ANY_def)

section \<open>Properties\<close>



text \<open>
  No update of a task is lost: after an accepted call, any sequence of task transitions leaves every
  call that read the old lock version refused, the task's lock version counts the accepted transitions, and
  its status is the end of a path of legal transitions through the accepted targets.
\<close>

theorem task_no_lost_update:
  assumes "world_ok w" and "transition_task tid t v w = (Inr x, w')" and "task_lock.run tid cs w' = (ts, w'')"
  shows "(\<exists>e. fst (transition_task tid t' v w'') = Inl e \<and> error_code e = ''VERSION_CONFLICT'' \<and> retryable e)
    \<and> (\<exists>x'. dict_get (tasks w'') tid = Some x' \<and> run_transitions TASK_TRANSITIONS t ts = Inr (tk_status x')
        \<and> tk_lock_version x' = v + 1 + int (length ts))"
proof -
  have ok': "world_ok w'" using transition_task_ok [OF assms(1), of tid t v] assms(2) by simp
  have x: "dict_get (tasks w') tid = Some x" "tk_lock_version x = v + 1" "tk_status x = t"
    using task_lock.accepted [OF assms(1,2)] by auto
  from task_lock.run_path [OF ok' x(1) assms(3)] obtain x' where x': "world_ok w''"
      "dict_get (tasks w'') tid = Some x'" "run_transitions TASK_TRANSITIONS t ts = Inr (tk_status x')"
      "tk_lock_version x' = v + 1 + int (length ts)"
    using x by auto
  have "tk_lock_version x' \<noteq> v" using x'(4) by simp
  from task_lock.stale [OF x'(1,2) this] x' show ?thesis by blast
qed

theorem task_no_lost_update_witness:
  "\<exists>x w' e. transition_task ''iii'' ''BLOCKED'' 1 (sample_world ''READY'' ''CREATED'') = (Inr x, w')
    \<and> fst (transition_task ''iii'' ''READY'' 1 w') = Inl e \<and> error_code e = ''VERSION_CONFLICT''"
proof -
  obtain x w' where 1: "transition_task ''iii'' ''BLOCKED'' 1 (sample_world ''READY'' ''CREATED'') = (Inr x, w')"
    using sample_task_granted [OF sample_moves(4)] by blast
  from task_no_lost_update [OF sample_world_ok 1, of "[]" "[]" w'] 1 show ?thesis by auto
qed

text \<open>
  Terminal missions are final: whatever the kernel does, a mission that is COMPLETED, FAILED or
  CANCELLED keeps every field.
\<close>

theorem terminal_mission_final:
  assumes "world_ok w" and "kernel_reach w w'" and "dict_get (missions w) mid = Some m"
    and "mi_status m \<in> set TERMINAL_MISSION"
  shows "dict_get (missions w') mid = Some m"
proof -
  obtain m' ts where m': "dict_get (missions w') mid = Some m'"
      "run_transitions MISSION_TRANSITIONS (mi_status m) ts = Inr (mi_status m')" "ts = [] \<longrightarrow> m' = m"
    using kernel_reach_kept [OF assms(2,1)] assms(3) unfolding mission_kept_def by blast
  have "succs MISSION_TRANSITIONS (mi_status m) = []"
    using assms(4) by (auto simp: TERMINAL_MISSION_def succs_def MISSION_TRANSITIONS_def)
  then have "ts = []" using m'(2) by (cases ts) (auto simp: transition_def)
  with m' show ?thesis by simp
qed

theorem terminal_mission_final_witness:
  "\<exists>m w'. cancel sample_mid 2 (sample_world ''READY'' ''READY'') = (Inr m, w') \<and> mi_status m = ''CANCELLED''
    \<and> dict_get (missions (snd (resume sample_mid 3 w'))) sample_mid = Some m"
proof -
  obtain m w' where 1: "transition_mission sample_mid ''CANCELLED'' 2 (sample_world ''READY'' ''READY'') = (Inr m, w')"
    using sample_mission_granted [OF sample_moves(2)] by blast
  from mission_lock.accepted [OF sample_world_ok 1]
  have m: "mi_status m = ''CANCELLED''" "dict_get (missions w') sample_mid = Some m" by auto
  have ok: "world_ok w'" using transition_mission_ok [OF sample_world_ok, of sample_mid "''CANCELLED''" 2] 1 by (metis snd_conv)
  have "kernel_reach w' (snd (resume sample_mid 3 w'))"
    by (intro kernel_reach.step [OF kernel_reach.init] kernel_step.resume)
  from terminal_mission_final [OF ok this m(2)] m 1 show ?thesis
    by (auto simp: cancel_def TERMINAL_MISSION_def)
qed

text \<open>
  C30. A mission becomes COMPLETED only when its work is done: in the state just before the call that
  completes it, every task of its active graph was COMPLETED, RETIRED or SUPERSEDED.
\<close>

theorem completed_only_when_done:
  assumes ok: "world_ok w" and st: "kernel_step w w'" and m: "dict_get (missions w) mid = Some m"
    and m': "dict_get (missions w') mid = Some m'" and new: "mi_status m \<noteq> ''COMPLETED''" "mi_status m' = ''COMPLETED''"
    and g: "active_graph mid w = Some g"
  shows "\<forall>t \<in> set (tasks_for_graph w (tg_id g)). tk_status t \<in> {''COMPLETED'', ''RETIRED'', ''SUPERSEDED''}"
proof -
  have ne: "mi_status m' \<noteq> mi_status m" using new by simp
  note ns = transition_mission_new_status [OF ok _ m m' ne]
  from st show ?thesis
  proof cases
    case (complete k lock)
    with complete_cases [of k lock w] m m' ne have t: "complete k lock w = transition_mission k ''COMPLETED'' lock w"
      by auto
    have "k = mid" using ns [of k "''COMPLETED''" lock] complete t by simp
    have "open_tasks (tg_id g) w = []"
    proof (rule ccontr)
      assume "open_tasks (tg_id g) w \<noteq> []"
      with g \<open>k = mid\<close> m have "snd (complete k lock w) = w" by (simp add: complete_def require_mission_def)
      with complete m m' ne show False by simp
    qed
    then show ?thesis by (auto simp: open_tasks_def filter_empty_conv)
  next
    case (commit ms lk)
    let ?mid = "fst (uuid7 (snd (clock_now (outside w))))"
    have "?mid \<notin> set (dict_keys (missions w))"
      using world_ok_draw(2) [OF world_ok_tick [OF ok]] by (simp add: used_ids_def)
    with dict_get_key [OF m] have "mid \<noteq> ?mid" by metis
    with commit m m' ne show ?thesis
      by (auto simp: commit_mission_def now_w_eq new_id_w_eq dict_get_set split: if_splits)
  next
    case (resume k lock)
    with resume_cases [of k lock w] ns [of k _ lock] m m' new show ?thesis by fastforce
  next
    case (transition_task tid t lock)
    from transition_task_new_status [OF ok this m m' ne] new show ?thesis by simp
  qed (use ns new m m' in \<open>force simp: start_def enter_partial_def pause_def cancel_def fail_def\<close>)+
qed

theorem completed_only_when_done_witness:
  "(\<exists>m'. dict_get (missions (snd (complete sample_mid 2 (sample_world ''COMPLETED'' ''RETIRED'')))) sample_mid = Some m'
      \<and> mi_status m' = ''COMPLETED'')
   \<and> list_all (\<lambda>t. tk_status t \<in> {''COMPLETED'', ''RETIRED'', ''SUPERSEDED''})
        (tasks_for_graph (sample_world ''COMPLETED'' ''RETIRED'') ''i'')"
proof -
  let ?w = "sample_world ''COMPLETED'' ''RETIRED''"
  have g: "active_graph sample_mid ?w = Some sample_graph" by (simp add: active_graph_def sample_graph_def)
  have c: "complete sample_mid 2 ?w = transition_mission sample_mid ''COMPLETED'' 2 ?w"
    using g by (simp add: complete_def require_mission_def open_tasks_def tasks_for_graph_def sample_task_def)
  obtain m' w' where 1: "transition_mission sample_mid ''COMPLETED'' 2 ?w = (Inr m', w')"
    using sample_mission_granted [OF sample_moves(3)] by blast
  from mission_lock.accepted [OF sample_world_ok 1]
  have m': "mi_status m' = ''COMPLETED''" "dict_get (missions w') sample_mid = Some m'" by auto
  have "kernel_step ?w w'" using kernel_step.complete [of ?w sample_mid 2] c 1 by simp
  from completed_only_when_done [OF sample_world_ok this sample_world_simps(1) m'(2) _ m'(1) g] c 1 m'
  show ?thesis by (simp add: sample_mission_def sample_graph_def list_all_iff)
qed

text \<open>
  Readiness: if every gating edge (\<open>depends_on\<close>, \<open>produces_contract_for\<close>) into a waiting task of the graph
  comes from a task of the graph, the refresh succeeds; every waiting task is then BLOCKED if one of its gating
  predecessors is not COMPLETED and READY otherwise, with its lock version raised exactly when its status
  changed; no other task, mission, graph or event changes.
\<close>

theorem readiness_refresh:
  assumes "world_ok w"
    and "gates_closed (graph_snapshot w gid) (edges_for_graph w gid) (tasks_for_graph w gid)"
  shows "\<exists>w'. refresh_task_readiness gid w = (Inr (), w')
    \<and> refreshed (graph_snapshot w gid) (edges_for_graph w gid) (tasks_for_graph w gid) w w'"
  unfolding refresh_task_readiness_eq [OF assms(1)]
  by (rule refresh_tasks_spec [OF tasks_for_graph_current(1) [OF assms(1)] assms(2)])

theorem readiness_refresh_witness:
  "\<exists>w' t. refresh_task_readiness ''i'' (sample_world ''COMPLETED'' ''BLOCKED'') = (Inr (), w')
    \<and> dict_get (tasks w') ''iii'' = Some t \<and> tk_status t = ''READY'' \<and> tk_lock_version t = 2"
proof -
  let ?w = "sample_world ''COMPLETED'' ''BLOCKED''"
  have eval: "tasks_for_graph ?w ''i'' = [sample_task ''ii'' ''COMPLETED'', sample_task ''iii'' ''BLOCKED'']"
      "edges_for_graph ?w ''i'' = [sample_edge]"
    by (simp_all add: tasks_for_graph_def edges_for_graph_def sample_task_def sample_edge_def)
  have "gates_closed (graph_snapshot ?w ''i'') (edges_for_graph ?w ''i'') (tasks_for_graph ?w ''i'')"
    unfolding eval by (simp add: gates_closed_def gates_def sample_task_def sample_edge_def)
  from readiness_refresh [OF sample_world_ok this] obtain w' where
      w': "refresh_task_readiness ''i'' ?w = (Inr (), w')"
      "refreshed (graph_snapshot ?w ''i'') [sample_edge]
        [sample_task ''ii'' ''COMPLETED'', sample_task ''iii'' ''BLOCKED''] ?w w'"
    unfolding eval by blast
  have due: "due_status (graph_snapshot ?w ''i'') [sample_edge] (sample_task ''iii'' ''BLOCKED'') = ''READY''"
    unfolding eval by (simp add: due_status_def gates_def sample_task_def sample_edge_def)
  from w'(2) obtain t where t: "dict_get (tasks w') ''iii'' = Some t" "readied (sample_task ''iii'' ''BLOCKED'') ''READY'' t"
    unfolding refreshed_def by (auto simp: due) (auto simp: sample_task_def)
  from readied_changed [OF t(2)] have "tk_status t = ''READY''" "tk_lock_version t = 2"
    by (simp_all add: sample_task_def)
  with w'(1) t(1) show ?thesis by blast
qed

text \<open>
  Retiring a task degrades its mission exactly when it should: the mission becomes PARTIAL if it was
  ACTIVE and its active graph holds another task that is neither closed nor BLOCKED; otherwise, and for
  every other target status, the missions stay as they were.
\<close>

theorem retire_degrades_mission:
  assumes "world_ok w" and "transition_task tid target lock w = (Inr x, w')"
    and "dict_get (missions w) (tk_mission x) = Some m"
  shows "if target = ''RETIRED'' \<and> mi_status m = ''ACTIVE'' \<and> work_remains x w
    then \<exists>now. missions w' = dict_set (mi_id m)
      (m\<lparr>mi_status := ''PARTIAL'', mi_lock_version := mi_lock_version m + 1, mi_updated_at := now\<rparr>) (missions w)
    else missions w' = missions w"
  using assms(1)
proof (cases rule: transition_task_cases [of w tid target lock])
  case (refused e w'')
  with assms(2) show ?thesis by simp
next
  case (moved t)
  have get: "dict_get (tasks w) (tk_id t) = Some t" using moved by simp
  have x: "x = task_moved target w t" "w' = snd (propagate_failure (task_moved target w t) (task_written target t w))"
    using assms(2) moved(5) transition_task_moved(1) [OF assms(1) get, of target] by auto
  have same: "active_graph k (task_written target t w) = active_graph k w" for k
    by (simp add: active_graph_def)
  have row: "dict_values (dict_set tid (task_moved target w t) (tasks w)) =
      map (\<lambda>y. if tk_id y = tid then task_moved target w t else y) (dict_values (tasks w))"
    by (rule keyed_values_old [OF world_okD(3) [OF assms(1)] dict_get_key [OF moved(1)]])
  have others: "y \<in> set (tasks_for_graph (task_written target t w) gid) \<longleftrightarrow> y \<in> set (tasks_for_graph w gid)"
    if "tk_id y \<noteq> tid" for y gid
    unfolding tasks_for_graph_def task_written_frame moved(2) row set_filter mem_Collect_eq
    by (subst in_map_replace [of tk_id "task_moved target w t" tid y]) (use that moved(2) in simp_all)
  have "work_remains x (task_written target t w) \<longleftrightarrow> work_remains x w"
    unfolding work_remains_def same using others x(1) moved(2) by auto
  then show ?thesis
    using x propagate_failure_eq [OF task_written_ok [OF assms(1) get, of target], of x m] assms(3)
    by (auto simp: mission_moved_def)
qed

theorem retire_degrades_mission_witness:
  "\<exists>x w' m'. transition_task ''iii'' ''RETIRED'' 1 (sample_world ''READY'' ''BLOCKED'') = (Inr x, w')
    \<and> dict_get (missions w') sample_mid = Some m' \<and> mi_status m' = ''PARTIAL''"
proof -
  let ?w = "sample_world ''READY'' ''BLOCKED''"
  obtain x w' where 1: "transition_task ''iii'' ''RETIRED'' 1 ?w = (Inr x, w')"
    using sample_task_granted [OF sample_moves(5)] by blast
  have x: "tk_mission x = sample_mid" "tk_id x = ''iii''"
    using sample_world_ok [of "''READY''" "''BLOCKED''"]
    by (cases rule: transition_task_cases [of ?w "''iii''" "''RETIRED''" 1];
        use 1 in \<open>auto simp: sample_task_def split: sum.splits\<close>)+
  have "work_remains x ?w"
    using x by (simp add: work_remains_def active_graph_def sample_graph_def tasks_for_graph_def)
      (simp add: sample_task_def)
  with retire_degrades_mission [OF sample_world_ok 1, of sample_mission] x
  obtain now where "missions w' = dict_set sample_mid (sample_mission\<lparr>mi_status := ''PARTIAL'',
      mi_lock_version := 3, mi_updated_at := now\<rparr>) (missions ?w)"
    by (auto simp: sample_mission_def)
  with 1 show ?thesis by (simp add: dict_get_set)
qed

end
