(* ===== verification/Graphs.thy ===== *)
theory Graphs
  imports Missions Hashing "HOL-Library.Multiset"
begin

text \<open>
  \<open>engine/planning/hashing.py\<close> and \<open>engine/planning/validate.py\<close>: the pure part of the planner. Kahn's
  algorithm with a sorted ready queue, the cycle test, graph validation, path scopes, the readiness tests the
  scheduler uses, and the breadth-first search for dependents. Proved here: the order is topological and
  complete exactly on acyclic graphs, so the cycle test is exact on graphs whose edges join their own
  tasks; scopes overlap exactly when one path is a directory of the other; the search finds the transitive
  successors; validation accepts exactly the graphs with the declared shape.
\<close>

section \<open>Topological order\<close>

definition DEPENDENCY_EDGES :: "string list" where
  "DEPENDENCY_EDGES = [''depends_on'', ''produces_contract_for'', ''blocks_on_decision'', ''repairs'']"

definition dget :: "('k, 'v) dict \<Rightarrow> 'k \<Rightarrow> 'v \<Rightarrow> 'v" where
  "dget d k v = (case dict_get d k of None \<Rightarrow> v | Some x \<Rightarrow> x)"

fun count_edges ::
  "task_graph_edge list \<Rightarrow> (string, int) dict \<Rightarrow> (string, string list) dict
    \<Rightarrow> (string, int) dict \<times> (string, string list) dict"
where
  "count_edges [] incoming outgoing = (incoming, outgoing)"
| "count_edges (e # es) incoming outgoing =
    (if te_type e \<notin> set DEPENDENCY_EDGES then count_edges es incoming outgoing
     else
       let source = te_from e; dest = te_to e;
           outgoing' = dict_set source (dget outgoing source [] @ [dest]) outgoing;
           incoming1 = dict_set dest (dget incoming dest 0 + 1) incoming;
           incoming2 = (if dict_get incoming1 source = None then dict_set source 0 incoming1 else incoming1)
       in count_edges es incoming2 outgoing')"

text \<open>One round: decrement the counts of the sorted destinations, queue those that reach zero.\<close>

fun relax :: "string list \<Rightarrow> (string, int) dict \<Rightarrow> string list \<Rightarrow> (string, int) dict \<times> string list" where
  "relax [] incoming ready = (incoming, ready)"
| "relax (d # ds) incoming ready =
    (let c = dget incoming d 0 - 1;
         incoming' = dict_set d c incoming
     in relax ds incoming' (if c = 0 then ready @ [d] else ready))"

definition positives :: "(string, int) dict \<Rightarrow> nat" where
  "positives d = length (filter (\<lambda>(k, c). 0 < c) d)"

lemma positives_decrement:
  "positives (dict_set d (dget inc d 0 - 1) inc) =
    (if dget inc d 0 = 1 then positives inc - 1 else positives inc)"
  "dget inc d 0 = 1 \<Longrightarrow> 0 < positives inc"
  by (induction inc) (auto simp: positives_def dget_def split: option.splits if_splits)

lemma relax_measure:
  "relax ds inc ready = (inc', ready') \<Longrightarrow> length ready' + positives inc' = length ready + positives inc"
  by (induction ds inc ready rule: relax.induct) (auto simp: positives_decrement)

function kahn :: "(string, string list) dict \<Rightarrow> string list \<Rightarrow> (string, int) dict \<Rightarrow> string list" where
  "kahn outgoing [] incoming = []"
| "kahn outgoing (current # rest) incoming =
    (case relax (sort (dget outgoing current [])) incoming rest of
       (incoming', rest') \<Rightarrow> current # kahn outgoing (sort rest') incoming')"
  by pat_completeness auto
termination
  by (relation "measure (\<lambda>(outgoing, ready, incoming). length ready + positives incoming)")
    (auto dest: relax_measure [OF sym])

definition topological_task_ids :: "task list \<Rightarrow> task_graph_edge list \<Rightarrow> string list" where
  "topological_task_ids ts es =
    (let ids = sort (map tk_id ts);
         incoming = foldl (\<lambda>d k. dict_set k 0 d) [] ids;
         (incoming', outgoing) = count_edges es incoming [];
         ready = sort (dict_keys (filter (\<lambda>(k, c). c = 0) incoming'))
     in kahn outgoing ready incoming')"

definition has_cycle :: "task list \<Rightarrow> task_graph_edge list \<Rightarrow> bool" where
  "has_cycle ts es \<longleftrightarrow> length (topological_task_ids ts es) \<noteq> length ts"

section \<open>The graph hash\<close>

definition json_strs :: "string list \<Rightarrow> json" where
  "json_strs xs = JList (map JStr xs)"

definition node_json :: "string \<Rightarrow> task \<Rightarrow> json" where
  "node_json tid t = JObj
    [(''task_id'', JStr tid), (''title'', JStr (tk_title t)), (''intent'', JStr (tk_intent t)),
     (''task_class'', JStr (tk_class t)), (''requirement_refs'', json_strs (sort (tk_requirement_refs t))),
     (''feature_refs'', json_strs (sort (tk_feature_refs t))),
     (''success_criteria'', json_strs (tk_success_criteria t)),
     (''expected_write_scope'', json_strs (sort (tk_write_scope t))),
     (''expected_read_scope'', json_strs (sort (tk_read_scope t))),
     (''blast_radius'', JStr (tk_blast_radius t)), (''risk_class'', JStr (tk_risk_class t)),
     (''estimated_effort'', JStr (tk_effort t)), (''autonomy_ceiling'', JInt (tk_autonomy_ceiling t)),
     (''requires_approval'', JBool (tk_requires_approval t)), (''parent_task_id'', json_opt (tk_parent t)),
     (''verification_profile_ref'', json_opt (tk_profile_ref t))]"

definition edge_json :: "task_graph_edge \<Rightarrow> json" where
  "edge_json e = JObj [(''from_task_id'', JStr (te_from e)), (''to_task_id'', JStr (te_to e)),
     (''edge_type'', JStr (te_type e)), (''contract_ref'', json_opt (te_contract_ref e))]"

definition edge_key :: "task_graph_edge \<Rightarrow> string list" where
  "edge_key e = [te_from e, te_to e, te_type e, case te_contract_ref e of None \<Rightarrow> [] | Some c \<Rightarrow> c]"

text \<open>\<open>by_id[task_id]\<close> raises \<open>KeyError\<close> for an endpoint that is no task of the graph.\<close>

fun node_list :: "(string, task) dict \<Rightarrow> string list \<Rightarrow> json list result" where
  "node_list by_id [] = Inr []"
| "node_list by_id (k # ks) =
    (case dict_get by_id k of
       None \<Rightarrow> Inl (KeyError k)
     | Some t \<Rightarrow> (case node_list by_id ks of Inl e \<Rightarrow> Inl e | Inr ns \<Rightarrow> Inr (node_json k t # ns)))"

definition by_id_dict :: "task list \<Rightarrow> (string, task) dict" where
  "by_id_dict ts = foldl (\<lambda>d t. dict_set (tk_id t) t d) [] ts"

definition graph_json :: "task list \<Rightarrow> task_graph_edge list \<Rightarrow> json result" where
  "graph_json ts es =
    (let order = topological_task_ids ts es;
         by_id = by_id_dict ts
     in case node_list by_id (if length order = length ts then order else sort (dict_keys by_id)) of
          Inl e \<Rightarrow> Inl e
        | Inr nodes \<Rightarrow> Inr (JObj [(''nodes'', JList nodes), (''edges'', JList (map edge_json (sort_key edge_key es)))]))"

definition graph_hash :: "task list \<Rightarrow> task_graph_edge list \<Rightarrow> string result" where
  "graph_hash ts es = (case graph_json ts es of Inl e \<Rightarrow> Inl e | Inr j \<Rightarrow> Inr (sha256_hex (canonical_json j)))"

section \<open>Path scopes\<close>

definition slashes :: "string \<Rightarrow> string" where
  "slashes p = map (\<lambda>c. if c = CHR 0x5C then CHR ''/'' else c) p"

definition rstrip_slash :: "string \<Rightarrow> string" where
  "rstrip_slash p = rev (dropWhile (\<lambda>c. c = CHR ''/'') (rev p))"

definition normalised :: "string \<Rightarrow> string" where
  "normalised p = rstrip_slash (slashes p)"

definition path_module :: "string \<Rightarrow> string" where
  "path_module p = takeWhile (\<lambda>c. c \<noteq> CHR ''/'') (slashes p)"

definition in_scope :: "string \<Rightarrow> string list \<Rightarrow> bool" where
  "in_scope path scope \<longleftrightarrow>
    list_ex (\<lambda>item. normalised path = normalised item \<or> prefix (normalised item @ ''/'') (normalised path)) scope"

definition scopes_overlap :: "string list \<Rightarrow> string list \<Rightarrow> bool" where
  "scopes_overlap left right \<longleftrightarrow>
    list_ex (\<lambda>first. list_ex (\<lambda>second.
      let a = normalised first; b = normalised second
      in a = b \<or> prefix (b @ ''/'') a \<or> prefix (a @ ''/'') b) right) left"

section \<open>Validation\<close>

definition IMPLEMENTING :: "string list" where
  "IMPLEMENTING = [''implementation'', ''integration'', ''repair'', ''enabling'', ''specification'', ''documentation'']"

record validation_report =
  vr_valid :: bool
  vr_error_codes :: "string list"
  vr_messages :: "string list"

definition out_edges :: "task_graph_edge list \<Rightarrow> uuid \<Rightarrow> task_graph_edge list" where
  "out_edges es k = filter (\<lambda>e. te_from e = k) es"

definition in_edges :: "task_graph_edge list \<Rightarrow> uuid \<Rightarrow> task_graph_edge list" where
  "in_edges es k = filter (\<lambda>e. te_to e = k) es"

definition task_faults :: "string list option \<Rightarrow> task \<Rightarrow> (string \<times> string) list" where
  "task_faults approved t =
    (let enabling_ok = (tk_class t = ''enabling'' \<and> tk_parent t \<noteq> None) in
     (if tk_requirement_refs t = [] \<and> \<not> enabling_ok
      then [(''GRAPH_INVALID'', ''Untraceable node '' @ tk_id t)] else [])
   @ (case approved of None \<Rightarrow> []
      | Some slugs \<Rightarrow> if filter (\<lambda>r. r \<notin> set slugs) (tk_requirement_refs t) \<noteq> []
          then [(''GRAPH_INVALID'', ''Unknown requirement refs on '' @ tk_id t)] else [])
   @ (if \<not> (1 \<le> length (tk_success_criteria t) \<and> length (tk_success_criteria t) \<le> 5)
      then [(''GRAPH_INVALID'', ''Success criteria out of range on '' @ tk_id t)] else [])
   @ (if tk_effort t = ''l'' then [(''DECOMPOSITION_REQUIRED'', ''Effort l must be decomposed: '' @ tk_id t)] else [])
   @ (if tk_class t \<in> set IMPLEMENTING \<and> tk_write_scope t = []
      then [(''GRAPH_INVALID'', ''Empty write scope on implementing node '' @ tk_id t)] else [])
   @ (if length (tk_write_scope t) > 12 \<or> length (remdups (map path_module (tk_write_scope t))) > 1
      then [(''GRAPH_INVALID'', ''Write scope too large on '' @ tk_id t)] else []))"

definition is_terminal :: "task_graph_edge list \<Rightarrow> task \<Rightarrow> bool" where
  "is_terminal es t \<longleftrightarrow> \<not> list_ex (\<lambda>e. te_type e \<noteq> ''verifies'') (out_edges es (tk_id t))"

definition terminal_faults :: "task_graph_edge list \<Rightarrow> task \<Rightarrow> (string \<times> string) list" where
  "terminal_faults es t =
    (let verified = list_ex (\<lambda>e. te_type e = ''verifies'') (in_edges es (tk_id t));
         verifies_out = list_ex (\<lambda>e. te_type e = ''verifies'') (out_edges es (tk_id t));
         is_verifier = (tk_class t = ''verification'')
     in if \<not> (verified \<or> verifies_out \<or> is_verifier)
        then [(''GRAPH_INVALID'', ''Unverified terminal node '' @ tk_id t)] else [])"

definition validate_graph ::
  "task list \<Rightarrow> task_graph_edge list \<Rightarrow> string option \<Rightarrow> string list option \<Rightarrow> validation_report result"
where
  "validate_graph ts es expected_hash approved =
    (let faults =
       (if has_cycle ts es then [(''GRAPH_INVALID'', ''TaskGraph contains a cycle'')] else [])
       @ concat (map (task_faults approved) ts)
       @ concat (map (terminal_faults es) (filter (is_terminal es) ts));
         report = (\<lambda>fs. \<lparr>vr_valid = (fs = []), vr_error_codes = map fst fs, vr_messages = map snd fs\<rparr>)
     in case expected_hash of
          None \<Rightarrow> Inr (report faults)
        | Some h \<Rightarrow>
            (case graph_hash ts es of
               Inl e \<Rightarrow> Inl e
             | Inr h' \<Rightarrow> Inr (report (faults @ (if h' \<noteq> h
                 then [(''GRAPH_INVALID'', ''graph_hash does not match canonical topological form'')] else [])))))"

section \<open>Readiness and dependents\<close>

fun preds_complete :: "(string, task) dict \<Rightarrow> task \<Rightarrow> task_graph_edge list \<Rightarrow> bool result" where
  "preds_complete by_id t [] = Inr True"
| "preds_complete by_id t (e # es) =
    (if te_to e \<noteq> tk_id t then preds_complete by_id t es
     else if te_type e \<in> {''blocks_on_decision'', ''depends_on'', ''produces_contract_for''} then
       (case dict_get by_id (te_from e) of
          None \<Rightarrow> Inl (KeyError (te_from e))
        | Some p \<Rightarrow> if tk_status p \<noteq> ''COMPLETED'' then Inr False else preds_complete by_id t es)
     else preds_complete by_id t es)"

definition ready_predecessors_complete :: "task \<Rightarrow> task list \<Rightarrow> task_graph_edge list \<Rightarrow> bool result" where
  "ready_predecessors_complete t ts es = preds_complete (by_id_dict ts) t es"

fun decision_open :: "(string, task) dict \<Rightarrow> task \<Rightarrow> task_graph_edge list \<Rightarrow> bool result" where
  "decision_open by_id t [] = Inr False"
| "decision_open by_id t (e # es) =
    (if te_to e \<noteq> tk_id t \<or> te_type e \<noteq> ''blocks_on_decision'' then decision_open by_id t es
     else case dict_get by_id (te_from e) of
       None \<Rightarrow> Inl (KeyError (te_from e))
     | Some p \<Rightarrow> if tk_status p \<noteq> ''COMPLETED'' then Inr True else decision_open by_id t es)"

definition blocked_on_decision :: "task \<Rightarrow> task_graph_edge list \<Rightarrow> task list \<Rightarrow> bool result" where
  "blocked_on_decision t es ts = decision_open (by_id_dict ts) t es"

definition adj :: "task_graph_edge list \<Rightarrow> uuid \<Rightarrow> uuid list" where
  "adj es k = map te_to (filter (\<lambda>e. te_from e = k) es)"

function bfs :: "task_graph_edge list \<Rightarrow> uuid list \<Rightarrow> uuid list \<Rightarrow> uuid list" where
  "bfs es [] seen = seen"
| "bfs es (current # queue) seen =
    (if current \<in> set seen then bfs es queue seen
     else bfs es (queue @ adj es current) (seen @ [current]))"
  by pat_completeness auto
termination
proof (relation "inv_image (less_than <*lex*> less_than)
    (\<lambda>(es, queue, seen). (card (set (map te_to es) \<union> set queue - set seen), length queue))")
  show "wf (inv_image (less_than <*lex*> less_than)
      (\<lambda>(es :: task_graph_edge list, queue, seen). (card (set (map te_to es) \<union> set queue - set seen), length queue)))"
    by (intro wf_inv_image wf_lex_prod wf_less_than)
next
  fix es :: "task_graph_edge list" and current queue seen
  assume seen: "(current :: uuid) \<in> set seen"
  have "card (set (map te_to es) \<union> set queue - set seen) \<le> card (set (map te_to es) \<union> set (current # queue) - set seen)"
    by (intro card_mono) auto
  then show "((es, queue, seen), es, current # queue, seen) \<in> inv_image (less_than <*lex*> less_than)
      (\<lambda>(es, queue, seen). (card (set (map te_to es) \<union> set queue - set seen), length queue))"
    by auto
next
  fix es :: "task_graph_edge list" and current queue seen
  assume new: "(current :: uuid) \<notin> set seen"
  have "set (adj es current) \<subseteq> set (map te_to es)" by (auto simp: adj_def)
  then have "set (map te_to es) \<union> set (queue @ adj es current) - set (seen @ [current])
      \<subset> set (map te_to es) \<union> set (current # queue) - set seen"
    using new by auto
  then have "card (set (map te_to es) \<union> set (queue @ adj es current) - set (seen @ [current]))
      < card (set (map te_to es) \<union> set (current # queue) - set seen)"
    by (intro psubset_card_mono) auto
  then show "((es, queue @ adj es current, seen @ [current]), es, current # queue, seen)
      \<in> inv_image (less_than <*lex*> less_than)
      (\<lambda>(es, queue, seen). (card (set (map te_to es) \<union> set queue - set seen), length queue))"
    by auto
qed

definition dependents :: "uuid \<Rightarrow> task_graph_edge list \<Rightarrow> uuid list" where
  "dependents k es = bfs es (adj es k) []"

section \<open>Kahn's algorithm is correct\<close>

definition dep_pairs :: "task_graph_edge list \<Rightarrow> (string \<times> string) list" where
  "dep_pairs es = map (\<lambda>e. (te_from e, te_to e)) (filter (\<lambda>e. te_type e \<in> set DEPENDENCY_EDGES) es)"

definition dep_nodes :: "task list \<Rightarrow> task_graph_edge list \<Rightarrow> string set" where
  "dep_nodes ts es = set (map tk_id ts) \<union> fst ` set (dep_pairs es) \<union> snd ` set (dep_pairs es)"

text \<open>The edges into a node that do not come from a node already listed.\<close>

definition pending :: "(string \<times> string) list \<Rightarrow> string list \<Rightarrow> string \<Rightarrow> nat" where
  "pending E listed v = length (filter (\<lambda>(s, d). d = v \<and> s \<notin> set listed) E)"

text \<open>Every edge into a listed node comes from a node listed before it.\<close>

definition topo_ordered :: "(string \<times> string) list \<Rightarrow> string list \<Rightarrow> bool" where
  "topo_ordered E listed \<longleftrightarrow> (\<forall>(s, d) \<in> set E. \<forall>i < length listed. listed ! i = d \<longrightarrow> (\<exists>j < i. listed ! j = s))"

definition kahn_inv ::
  "(string \<times> string) list \<Rightarrow> string set \<Rightarrow> string list \<Rightarrow> string list \<Rightarrow> (string, int) dict \<Rightarrow> bool"
where
  "kahn_inv E N listed ready incoming \<longleftrightarrow> distinct listed \<and> distinct ready \<and> set listed \<subseteq> N
    \<and> (\<forall>v. v \<in> set ready \<longleftrightarrow> v \<in> N \<and> v \<notin> set listed \<and> pending E listed v = 0)
    \<and> (\<forall>v \<in> N. dict_get incoming v = Some (int (pending E listed v)))
    \<and> topo_ordered E listed"

lemma pending_0: "pending E listed v = 0 \<longleftrightarrow> (\<forall>(s, d) \<in> set E. d = v \<longrightarrow> s \<in> set listed)"
  by (auto simp: pending_def filter_empty_conv)

lemma pending_snoc:
  assumes "c \<notin> set listed"
  shows "pending E listed v = pending E (listed @ [c]) v + count_list (map snd (filter (\<lambda>p. fst p = c) E)) v"
  using assms by (induction E) (auto simp: pending_def)

lemma topo_ordered_pred:
  assumes "topo_ordered E listed" and "(s, d) \<in> set E" and "d \<in> set listed"
  shows "s \<in> set listed"
proof -
  obtain i where i: "i < length listed" "listed ! i = d" using assms(3) by (auto simp: in_set_conv_nth)
  then obtain j where "j < i" "listed ! j = s" using assms(1,2) unfolding topo_ordered_def by blast
  with i(1) show ?thesis by (metis nth_mem order.strict_trans)
qed

lemma topo_ordered_snoc:
  assumes "topo_ordered E listed" and "\<And>s. (s, c) \<in> set E \<Longrightarrow> s \<in> set listed"
  shows "topo_ordered E (listed @ [c])"
  unfolding topo_ordered_def
proof (clarify)
  fix s i assume e: "(s, (listed @ [c]) ! i) \<in> set E" and i: "i < length (listed @ [c])"
  show "\<exists>j < i. (listed @ [c]) ! j = s"
  proof (cases "i < length listed")
    case True
    with e have "(s, listed ! i) \<in> set E" by (simp add: nth_append)
    with assms(1) True obtain j where "j < i" "listed ! j = s" unfolding topo_ordered_def by blast
    with True show ?thesis by (intro exI [of _ j]) (simp add: nth_append)
  next
    case False
    with e i have "s \<in> set listed" "i = length listed" using assms(2) by (auto simp: nth_append)
    then show ?thesis by (metis in_set_conv_nth nth_append)
  qed
qed

lemma count_list_insort: "count_list (insort x xs) v = count_list (x # xs) v"
  by (induction xs) auto

lemma count_list_sort: "count_list (sort xs) v = count_list xs v"
  by (induction xs) (simp_all add: count_list_insort)

lemma relax_spec:
  assumes "\<And>v. v \<in> set ds \<Longrightarrow> dict_get inc v = Some (f v) \<and> int (count_list ds v) \<le> f v"
  shows "\<exists>inc' hits. relax ds inc ready = (inc', ready @ hits) \<and> distinct hits
    \<and> (\<forall>v. dict_get inc' v = (if v \<in> set ds then Some (f v - int (count_list ds v)) else dict_get inc v))
    \<and> (\<forall>v. v \<in> set hits \<longleftrightarrow> v \<in> set ds \<and> f v = int (count_list ds v))"
  using assms
proof (induction ds arbitrary: inc ready f)
  case (Cons d ds)
  let ?inc = "dict_set d (f d - 1) inc"
  let ?f = "f(d := f d - 1)"
  let ?hit = "if f d - 1 = 0 then [d] else []"
  have d: "dict_get inc d = Some (f d)" "int (count_list (d # ds) d) \<le> f d" using Cons.prems [of d] by auto
  have pre: "dict_get ?inc v = Some (?f v) \<and> int (count_list ds v) \<le> ?f v" if "v \<in> set ds" for v
    using Cons.prems [of v] that d by (auto simp: dict_get_set)
  obtain inc' hits where ih: "relax ds ?inc (ready @ ?hit) = (inc', (ready @ ?hit) @ hits)" "distinct hits"
      "\<forall>v. dict_get inc' v = (if v \<in> set ds then Some (?f v - int (count_list ds v)) else dict_get ?inc v)"
      "\<forall>v. v \<in> set hits \<longleftrightarrow> v \<in> set ds \<and> ?f v = int (count_list ds v)"
    using Cons.IH [OF pre] by blast
  have step: "relax (d # ds) inc ready = (inc', ready @ ?hit @ hits)"
    using ih(1) d(1) by (cases "f d = 1") (simp_all add: dget_def)
  have zero: "count_list ds d = 0" if "f d = 1" using d(2) that by simp
  then have fresh: "d \<notin> set hits" if "f d = 1" using ih(4) that by (auto simp: count_list_0_iff)
  show ?case
  proof (intro exI conjI allI)
    show "relax (d # ds) inc ready = (inc', ready @ ?hit @ hits)" by (rule step)
    show "distinct (?hit @ hits)" using ih(2) fresh by auto
    fix v
    show "dict_get inc' v = (if v \<in> set (d # ds) then Some (f v - int (count_list (d # ds) v)) else dict_get inc v)"
      using ih(3) by (auto simp: dict_get_set count_list_0_iff)
    show "v \<in> set (?hit @ hits) \<longleftrightarrow> v \<in> set (d # ds) \<and> f v = int (count_list (d # ds) v)"
    proof (cases "v = d")
      case True
      have h: "d \<in> set hits \<longleftrightarrow> d \<in> set ds \<and> f d - 1 = int (count_list ds d)" using ih(4) by simp
      have z: "d \<in> set ds \<longleftrightarrow> count_list ds d \<noteq> 0" by (simp add: count_list_0_iff)
      show ?thesis
      proof (cases "f d = 1")
        case True
        with zero \<open>v = d\<close> show ?thesis by simp
      next
        case False
        with h z \<open>v = d\<close> show ?thesis by auto
      qed
    next
      case False
      with ih(4) show ?thesis by auto
    qed
  qed
qed auto

text \<open>One round of the loop keeps the invariant.\<close>

lemma kahn_inv_step:
  assumes inv: "kahn_inv E N listed (c # rest) inc" and closed: "snd ` set E \<subseteq> N"
    and out: "dget outgoing c [] = map snd (filter (\<lambda>p. fst p = c) E)"
    and rl: "relax (sort (dget outgoing c [])) inc rest = (inc', rest')"
  shows "kahn_inv E N (listed @ [c]) (sort rest') inc'"
proof -
  let ?ds = "map snd (filter (\<lambda>p. fst p = c) E)"
  have c: "c \<in> N" "c \<notin> set listed" "pending E listed c = 0" "c \<notin> set rest" "distinct rest"
    using inv by (auto simp: kahn_inv_def)
  have inc: "dict_get inc v = Some (int (pending E listed v))" if "v \<in> N" for v
    using inv that by (simp add: kahn_inv_def)
  have cnt: "count_list (sort ?ds) v = count_list ?ds v" for v
    by (rule count_list_sort)
  have split: "pending E listed v = pending E (listed @ [c]) v + count_list ?ds v" for v
    by (rule pending_snoc [OF c(2)])
  have ds: "set ?ds \<subseteq> N" using closed by auto
  have pre: "dict_get inc v = Some (int (pending E listed v)) \<and> int (count_list (sort ?ds) v) \<le> int (pending E listed v)"
    if "v \<in> set (sort ?ds)" for v
    using inc [of v] that ds split [of v] cnt by auto
  obtain inc2 hits where r: "relax (sort ?ds) inc rest = (inc2, rest @ hits)" "distinct hits"
      "\<forall>v. dict_get inc2 v = (if v \<in> set (sort ?ds) then Some (int (pending E listed v) - int (count_list (sort ?ds) v)) else dict_get inc v)"
      "\<forall>v. v \<in> set hits \<longleftrightarrow> v \<in> set (sort ?ds) \<and> int (pending E listed v) = int (count_list (sort ?ds) v)"
    using relax_spec [of "sort ?ds" inc "\<lambda>v. int (pending E listed v)" rest] pre by blast
  have eq: "inc' = inc2" "rest' = rest @ hits" using rl r(1) out by auto
  have hit: "v \<in> set hits \<longleftrightarrow> v \<in> set ?ds \<and> pending E (listed @ [c]) v = 0" for v
    using r(4) split [of v] cnt by auto
  have zero: "count_list ?ds v = 0 \<longleftrightarrow> v \<notin> set ?ds" for v by (rule count_list_0_iff)
  have ready: "v \<in> set rest \<longleftrightarrow> v \<in> N \<and> v \<notin> set listed \<and> v \<noteq> c \<and> pending E listed v = 0" for v
    using inv c(4) by (auto simp: kahn_inv_def)
  have old: "v \<notin> set ?ds" if "v \<in> set listed \<or> pending E listed v = 0" for v
  proof -
    have "pending E listed v = 0"
      using that inv topo_ordered_pred [of E listed _ v] by (auto simp: kahn_inv_def pending_0)
    with split [of v] zero [of v] show ?thesis by simp
  qed
  have mem: "v \<in> set (rest @ hits) \<longleftrightarrow> v \<in> N \<and> v \<notin> set (listed @ [c]) \<and> pending E (listed @ [c]) v = 0" for v
    using ready [of v] hit [of v] old [of v] old [of c] split [of v] zero [of v] ds c(3) by auto
  have dist: "distinct (rest @ hits)"
    using c(5) r(2) ready hit old by auto
  have counts: "dict_get inc2 v = Some (int (pending E (listed @ [c]) v))" if "v \<in> N" for v
    using r(3) inc [OF that] split [of v] zero [of v] cnt by auto
  have "topo_ordered E (listed @ [c])"
    by (rule topo_ordered_snoc) (use inv c(3) in \<open>auto simp: kahn_inv_def pending_0\<close>)
  with inv mem dist counts c eq show ?thesis
    by (simp add: kahn_inv_def)
qed

lemma kahn_spec:
  assumes "\<And>c. dget outgoing c [] = map snd (filter (\<lambda>p. fst p = c) E)" and "snd ` set E \<subseteq> N"
  shows "kahn_inv E N listed ready inc \<Longrightarrow> \<exists>inc'. kahn_inv E N (listed @ kahn outgoing ready inc) [] inc'"
proof (induction "length ready + positives inc" arbitrary: listed ready inc rule: less_induct)
  case less
  show ?case
  proof (cases ready)
    case Nil
    with less.prems show ?thesis by auto
  next
    case (Cons c rest)
    obtain inc' rest' where rl: "relax (sort (dget outgoing c [])) inc rest = (inc', rest')" by force
    have "kahn_inv E N (listed @ [c]) (sort rest') inc'"
      using kahn_inv_step [OF _ assms(2) assms(1) rl] less.prems Cons by blast
    moreover have "length (sort rest') + positives inc' < length ready + positives inc"
      using relax_measure [OF rl] Cons by simp
    ultimately have "\<exists>inc''. kahn_inv E N ((listed @ [c]) @ kahn outgoing (sort rest') inc') [] inc''"
      using less.hyps by blast
    with rl Cons show ?thesis by simp
  qed
qed

lemma dget_set: "dget (dict_set k v d) k' x = (if k' = k then v else dget d k' x)"
  by (simp add: dget_def dict_get_set)

lemma count_edges_spec:
  assumes "count_edges es inc out = (inc', out')" and "dict_ok inc"
  shows "dict_ok inc' \<and> dget out' c [] = dget out c [] @ map snd (filter (\<lambda>p. fst p = c) (dep_pairs es))
    \<and> dict_get inc' v =
      (if dict_get inc v \<noteq> None \<or> v \<in> fst ` set (dep_pairs es) \<or> v \<in> snd ` set (dep_pairs es)
       then Some (dget inc v 0 + int (count_list (map snd (dep_pairs es)) v)) else None)"
  using assms
proof (induction es inc out rule: count_edges.induct)
  case (1 inc out)
  then show ?case by (auto simp: dep_pairs_def dget_def split: option.splits)
next
  case (2 e es inc out)
  show ?case
  proof (cases "te_type e \<in> set DEPENDENCY_EDGES")
    case False
    with 2 show ?thesis by (simp add: dep_pairs_def)
  next
    case True
    let ?inc1 = "dict_set (te_to e) (dget inc (te_to e) 0 + 1) inc"
    let ?inc2 = "if dict_get ?inc1 (te_from e) = None then dict_set (te_from e) 0 ?inc1 else ?inc1"
    let ?out = "dict_set (te_from e) (dget out (te_from e) [] @ [te_to e]) out"
    have rec: "count_edges es ?inc2 ?out = (inc', out')" using 2(3) True by simp
    have ok: "dict_ok ?inc2" using 2(4) by simp
    have pairs: "dep_pairs (e # es) = (te_from e, te_to e) # dep_pairs es" using True by (simp add: dep_pairs_def)
    have ih: "dict_ok inc' \<and> dget out' c [] = dget ?out c [] @ map snd (filter (\<lambda>p. fst p = c) (dep_pairs es))
      \<and> dict_get inc' v =
        (if dict_get ?inc2 v \<noteq> None \<or> v \<in> fst ` set (dep_pairs es) \<or> v \<in> snd ` set (dep_pairs es)
         then Some (dget ?inc2 v 0 + int (count_list (map snd (dep_pairs es)) v)) else None)"
      using 2(2) [OF _ refl refl refl refl refl rec ok] True by simp
    have known: "dict_get ?inc2 v \<noteq> None \<longleftrightarrow> dict_get inc v \<noteq> None \<or> v = te_from e \<or> v = te_to e"
      by (auto simp: dict_get_set)
    have val: "dget ?inc2 v 0 = dget inc v 0 + (if v = te_to e then 1 else 0)"
      by (auto simp: dget_def dict_get_set)
    show ?thesis
      using ih unfolding known val pairs by (auto simp: dget_set)
  qed
qed

lemma zero_counts:
  "dict_get (foldl (\<lambda>d k. dict_set k (0 :: int) d) d ks) v = (if v \<in> set ks then Some 0 else dict_get d v)"
  "dict_ok d \<Longrightarrow> dict_ok (foldl (\<lambda>d k. dict_set k (0 :: int) d) d ks)"
  by (induction ks arbitrary: d) (auto simp: dict_get_set)

lemma pending_Nil: "pending E [] v = count_list (map snd E) v"
  by (induction E) (auto simp: pending_def)

lemma topological_inv:
  "\<exists>inc. kahn_inv (dep_pairs es) (dep_nodes ts es) (topological_task_ids ts es) [] inc"
proof -
  let ?E = "dep_pairs es" and ?N = "dep_nodes ts es"
  let ?inc0 = "foldl (\<lambda>d k. dict_set k (0 :: int) d) [] (sort (map tk_id ts))"
  obtain inc out where ce: "count_edges es ?inc0 [] = (inc, out)" by force
  have ok0: "dict_ok ?inc0" by (rule zero_counts) simp
  note spec = count_edges_spec [OF ce ok0]
  have get: "dict_get inc v = (if v \<in> ?N then Some (int (pending ?E [] v)) else None)" for v
    using spec [of undefined v] by (auto simp: zero_counts dep_nodes_def pending_Nil dget_def)
  have out: "dget out c [] = map snd (filter (\<lambda>p. fst p = c) ?E)" for c
    using spec [of c] by (simp add: dget_def)
  let ?ready = "sort (dict_keys (filter (\<lambda>(k, c). c = 0) inc))"
  have ok: "dict_ok inc" using spec by blast
  have mem: "v \<in> set ?ready \<longleftrightarrow> dict_get inc v = Some 0" for v
    using ok by (force simp: map_of_eq_Some_iff)
  have "kahn_inv ?E ?N [] ?ready inc"
    unfolding kahn_inv_def using ok mem get
    by (auto simp: topo_ordered_def distinct_map_filter)
  moreover have "snd ` set ?E \<subseteq> ?N" by (auto simp: dep_nodes_def)
  ultimately have "\<exists>inc'. kahn_inv ?E ?N ([] @ kahn out ?ready inc) [] inc'"
    using kahn_spec [OF out] by blast
  then show ?thesis by (simp add: topological_task_ids_def ce)
qed

text \<open>If nothing is ready, what is left feeds on itself.\<close>

lemma stuck_cycle:
  assumes "finite R" and "R \<noteq> {}" and "\<And>v. v \<in> R \<Longrightarrow> \<exists>s \<in> R. (s, v) \<in> E"
  shows "\<exists>v. (v, v) \<in> E\<^sup>+"
proof (rule ccontr)
  assume "\<nexists>v. (v, v) \<in> E\<^sup>+"
  then have "acyclic (Restr E R)" unfolding acyclic_def by (meson Int_iff subsetI trancl_mono)
  moreover have "finite (Restr E R)" using assms(1) by simp
  ultimately have "wf (Restr E R)" by (simp add: finite_acyclic_wf)
  from wfE_min [OF this] assms(2) obtain z where "z \<in> R" "\<And>y. (y, z) \<in> Restr E R \<Longrightarrow> y \<notin> R"
    by (metis ex_in_conv)
  with assms(3) show False by blast
qed

lemma topo_ordered_acyclic:
  assumes "topo_ordered E listed" and "(a, b) \<in> (set E)\<^sup>+" and "i < length listed" and "listed ! i = b"
  shows "\<exists>j < i. listed ! j = a"
  using assms(2-4)
proof (induction arbitrary: i rule: trancl_induct)
  case (base y)
  then show ?case using assms(1) unfolding topo_ordered_def by blast
next
  case (step y z)
  then obtain j where j: "j < i" "listed ! j = y" using assms(1) unfolding topo_ordered_def by blast
  with step.prems step.IH [of j] obtain k where "k < j" "listed ! k = a" by auto
  with j show ?case by (intro exI [of _ k]) simp
qed

lemma all_listed_iff:
  assumes inv: "kahn_inv E N listed [] inc" and fin: "finite N" and closed: "fst ` set E \<subseteq> N" "snd ` set E \<subseteq> N"
  shows "set listed = N \<longleftrightarrow> (\<nexists>v. (v, v) \<in> (set E)\<^sup>+)"
proof
  assume all: "set listed = N"
  show "\<nexists>v. (v, v) \<in> (set E)\<^sup>+"
  proof
    assume "\<exists>v. (v, v) \<in> (set E)\<^sup>+"
    then obtain v where v: "(v, v) \<in> (set E)\<^sup>+" by blast
    from v obtain u where "(u, v) \<in> set E" by (rule tranclE) auto
    then have "v \<in> snd ` set E" by force
    with all closed have "v \<in> set listed" by auto
    then obtain i where i: "i < length listed" "listed ! i = v" by (auto simp: in_set_conv_nth)
    moreover have "topo_ordered E listed" "distinct listed" using inv by (auto simp: kahn_inv_def)
    ultimately obtain j where "j < i" "listed ! j = v" using topo_ordered_acyclic [OF _ v] by blast
    with i \<open>distinct listed\<close> show False by (metis less_trans nat_neq_iff nth_eq_iff_index_eq)
  qed
next
  assume acyc: "\<nexists>v. (v, v) \<in> (set E)\<^sup>+"
  have sub: "set listed \<subseteq> N" using inv by (simp add: kahn_inv_def)
  have "N - set listed = {}"
  proof (rule ccontr)
    assume ne: "N - set listed \<noteq> {}"
    have "\<exists>s \<in> N - set listed. (s, v) \<in> set E" if "v \<in> N - set listed" for v
    proof -
      have "pending E listed v \<noteq> 0" using inv that by (auto simp: kahn_inv_def)
      then obtain s where "(s, v) \<in> set E" "s \<notin> set listed" by (auto simp: pending_0)
      with closed(1) show ?thesis by force
    qed
    from stuck_cycle [OF _ ne this] fin acyc show False by simp
  qed
  with sub show "set listed = N" by blast
qed

lemma dep_nodes_closed:
  "finite (dep_nodes ts es)" "fst ` set (dep_pairs es) \<subseteq> dep_nodes ts es" "snd ` set (dep_pairs es) \<subseteq> dep_nodes ts es"
  by (auto simp: dep_nodes_def)

section \<open>Dependents\<close>

definition edge_rel :: "task_graph_edge list \<Rightarrow> (uuid \<times> uuid) set" where
  "edge_rel es = (\<lambda>e. (te_from e, te_to e)) ` set es"

lemma set_adj: "set (adj es k) = edge_rel es `` {k}"
  by (auto simp: adj_def edge_rel_def)

text \<open>The seen nodes are closed up to the queue; the search ends with everything reachable.\<close>

lemma bfs_spec:
  assumes "edge_rel es `` set seen \<subseteq> set seen \<union> set queue"
  shows "set (bfs es queue seen) = set seen \<union> (edge_rel es)\<^sup>* `` set queue"
  using assms
proof (induction es queue seen rule: bfs.induct)
  case (1 es seen)
  then show ?case by simp
next
  case (2 es c queue seen)
  let ?R = "edge_rel es"
  show ?case
  proof (cases "c \<in> set seen")
    case True
    have clo: "?R `` set seen \<subseteq> set seen \<union> set queue" using "2.prems" True by auto
    have "?R\<^sup>* `` {c} \<subseteq> set seen \<union> ?R\<^sup>* `` set queue"
    proof
      fix x assume "x \<in> ?R\<^sup>* `` {c}"
      then have "(c, x) \<in> ?R\<^sup>*" by simp
      then show "x \<in> set seen \<union> ?R\<^sup>* `` set queue"
      proof (induction rule: rtrancl_induct)
        case (step y z)
        then show ?case using clo by (auto intro: rtrancl_into_rtrancl)
      qed (simp add: True)
    qed
    with "2.IH"(1) [OF True clo] True show ?thesis by auto
  next
    case False
    have "?R `` set (seen @ [c]) \<subseteq> set (seen @ [c]) \<union> set (queue @ adj es c)"
      using "2.prems" by (auto simp: set_adj)
    from "2.IH"(2) [OF False this] have "set (bfs es (c # queue) seen)
        = insert c (set seen) \<union> ?R\<^sup>* `` (set queue \<union> ?R `` {c})"
      using False by (simp add: set_adj)
    also have "\<dots> = set seen \<union> ?R\<^sup>* `` set (c # queue)"
    proof -
      have "?R\<^sup>* `` {c} = insert c (?R\<^sup>* `` (?R `` {c}))"
        by (auto elim: converse_rtranclE intro: converse_rtrancl_into_rtrancl)
      then show ?thesis by (auto simp: Image_Un)
    qed
    finally show ?thesis .
  qed
qed

lemma dependents_trancl: "set (dependents k es) = {v. (k, v) \<in> (edge_rel es)\<^sup>+}"
proof -
  have "set (dependents k es) = (edge_rel es)\<^sup>* `` (edge_rel es `` {k})"
    using bfs_spec [of es "[]" "adj es k"] by (simp add: dependents_def set_adj)
  then show ?thesis by (auto simp: trancl_unfold_left dest: tranclD intro: rtrancl_into_trancl2)
qed

section \<open>Scopes\<close>

text \<open>The components of a path.\<close>

fun components :: "string \<Rightarrow> string list" where
  "components [] = [[]]"
| "components (c # cs) =
    (if c = CHR ''/'' then [] # components cs
     else case components cs of p # ps \<Rightarrow> (c # p) # ps | [] \<Rightarrow> [[c]])"

lemma components_nonempty [simp]: "components p \<noteq> []"
  by (induction p) (auto split: list.splits)

lemma components_slash: "components (a @ CHR ''/'' # b) = components a @ components b"
  by (induction a) (auto split: list.splits)

lemma components_inj: "components a = components b \<Longrightarrow> a = b"
proof (induction a arbitrary: b)
  case Nil
  then show ?case by (cases b) (auto split: list.splits if_splits)
next
  case (Cons c a)
  show ?case
  proof (cases b)
    case Nil
    with Cons.prems show ?thesis by (auto split: list.splits if_splits)
  next
    case (Cons d b')
    with Cons.prems Cons.IH [of b'] show ?thesis
      by (auto split: list.splits if_splits)
  qed
qed

lemma components_prefix_imp:
  "components a = components b @ q # qs \<Longrightarrow> prefix (b @ ''/'') a"
proof (induction b arbitrary: a)
  case Nil
  then show ?case by (cases a) (auto split: list.splits if_splits)
next
  case (Cons c b)
  from Cons.prems obtain d a' where a: "a = d # a'"
    by (cases a) (auto split: list.splits if_splits)
  with Cons.prems Cons.IH [of a'] show ?case
    by (auto split: list.splits if_splits)
qed

text \<open>The code's test by strings is the test by components: equal, or a directory above.\<close>

lemma components_prefix: "prefix (components b) (components a) \<longleftrightarrow> a = b \<or> prefix (b @ ''/'') a"
proof
  assume "prefix (components b) (components a)"
  then obtain zs where z: "components a = components b @ zs" by (auto simp: prefix_def)
  show "a = b \<or> prefix (b @ ''/'') a"
    using z components_inj [of a b] components_prefix_imp [of a b] by (cases zs) auto
next
  assume "a = b \<or> prefix (b @ ''/'') a"
  then show "prefix (components b) (components a)"
    by (auto simp: prefix_def components_slash)
qed

definition path_of :: "string \<Rightarrow> string list" where
  "path_of p = components (normalised p)"

lemma in_scope_iff: "in_scope p scope \<longleftrightarrow> (\<exists>s \<in> set scope. prefix (path_of s) (path_of p))"
  by (auto simp: in_scope_def path_of_def components_prefix list_ex_iff)

lemma scopes_overlap_iff:
  "scopes_overlap left right \<longleftrightarrow>
    (\<exists>a \<in> set left. \<exists>b \<in> set right. prefix (path_of a) (path_of b) \<or> prefix (path_of b) (path_of a))"
  unfolding scopes_overlap_def path_of_def components_prefix list_ex_iff Let_def
  by (intro bex_cong refl) metis

section \<open>The graph hash is canonical\<close>

lemma by_id_dict_eq: "distinct (map tk_id ts) \<Longrightarrow> by_id_dict ts = map (\<lambda>t. (tk_id t, t)) ts"
  unfolding by_id_dict_def by (rule snapshot_eq)

lemma by_id_get: "distinct (map tk_id ts) \<Longrightarrow> dict_get (by_id_dict ts) k = Some t \<longleftrightarrow> t \<in> set ts \<and> tk_id t = k"
  by (auto simp: by_id_dict_eq map_of_eq_Some_iff comp_def)

lemma by_id_known:
  assumes "distinct (map tk_id ts)" and "k \<in> set (map tk_id ts)"
  shows "\<exists>t \<in> set ts. tk_id t = k \<and> dict_get (by_id_dict ts) k = Some t"
  using assms by_id_get [OF assms(1)] by auto

lemma node_list_total:
  "(\<And>k. k \<in> set ks \<Longrightarrow> dict_get by_id k \<noteq> None) \<Longrightarrow>
    node_list by_id ks = Inr (map (\<lambda>k. node_json k (the (dict_get by_id k))) ks)"
proof (induction ks)
  case (Cons a ks)
  from Cons.prems [of a] obtain y where "dict_get by_id a = Some y" by auto
  with Cons show ?case by simp
qed simp

lemma node_list_cong: "(\<And>k. dict_get d k = dict_get d' k) \<Longrightarrow> node_list d ks = node_list d' ks"
  by (induction ks) (auto split: option.splits)

text \<open>The loop reads the edges only through sorted destinations and counts.\<close>

lemma relax_cong:
  "(\<And>v. dget inc v 0 = dget inc' v 0) \<Longrightarrow> relax ds inc ready = (i1, r1) \<Longrightarrow> relax ds inc' ready = (i2, r2) \<Longrightarrow>
    r1 = r2 \<and> (\<forall>v. dget i1 v 0 = dget i2 v 0)"
proof (induction ds arbitrary: inc inc' ready)
  case (Cons d ds)
  have "dget (dict_set d (dget inc d 0 - 1) inc) v 0 = dget (dict_set d (dget inc' d 0 - 1) inc') v 0" for v
    using Cons.prems(1) by (simp add: dget_set)
  from Cons.IH [OF this] Cons.prems show ?case by simp
qed simp

lemma kahn_cong:
  assumes "\<And>c. sort (dget out c []) = sort (dget out' c [])"
  shows "(\<And>v. dget inc v 0 = dget inc' v 0) \<Longrightarrow> kahn out ready inc = kahn out' ready inc'"
proof (induction "length ready + positives inc" arbitrary: ready inc inc' rule: less_induct)
  case less
  show ?case
  proof (cases ready)
    case (Cons c rest)
    obtain i1 r1 where 1: "relax (sort (dget out c [])) inc rest = (i1, r1)" by force
    obtain i2 r2 where 2: "relax (sort (dget out c [])) inc' rest = (i2, r2)" by force
    have r: "r1 = r2" "\<And>v. dget i1 v 0 = dget i2 v 0"
      using relax_cong [OF less.prems 1 2] by blast+
    have "length (sort r1) + positives i1 < length ready + positives inc"
      using relax_measure [OF 1] Cons by simp
    from less.hyps [OF this r(2)] have "kahn out (sort r1) i1 = kahn out' (sort r2) i2" using r(1) by simp
    with 1 2 Cons assms [of c] show ?thesis by simp
  qed simp
qed

lemma sort_mset_eq: "mset xs = mset ys \<Longrightarrow> sort xs = sort (ys :: 'a :: linorder list)"
  by (metis mset_sort properties_for_sort sorted_sort)

lemma dep_pairs_mset: "mset es = mset es' \<Longrightarrow> mset (dep_pairs es) = mset (dep_pairs es')"
  by (simp add: dep_pairs_def)

lemma topological_mset:
  assumes "mset ts = mset ts'" and "mset es = mset es'"
  shows "topological_task_ids ts es = topological_task_ids ts' es'"
proof -
  let ?inc0 = "foldl (\<lambda>d k. dict_set k (0 :: int) d) [] (sort (map tk_id ts))"
  have ids: "sort (map tk_id ts') = sort (map tk_id ts)" using assms(1) by (intro sort_mset_eq) simp
  obtain inc out where 1: "count_edges es ?inc0 [] = (inc, out)" by force
  obtain inc' out' where 2: "count_edges es' ?inc0 [] = (inc', out')" by force
  have ok0: "dict_ok ?inc0" by (rule zero_counts) simp
  note s1 = count_edges_spec [OF 1 ok0] and s2 = count_edges_spec [OF 2 ok0]
  have pm: "mset (dep_pairs es) = mset (dep_pairs es')" by (rule dep_pairs_mset [OF assms(2)])
  then have ps: "set (dep_pairs es) = set (dep_pairs es')" by (rule mset_eq_setD)
  have "count_list (map snd (dep_pairs es)) v = count_list (map snd (dep_pairs es')) v" for v
  proof -
    have "mset (map snd (dep_pairs es)) = mset (map snd (dep_pairs es'))" using pm by simp
    from sort_mset_eq [OF this] count_list_sort show ?thesis by metis
  qed
  then have get: "dict_get inc v = dict_get inc' v" for v
    using s1 [of undefined v] s2 [of undefined v] ps by simp
  have out: "sort (dget out c []) = sort (dget out' c [])" for c
  proof -
    have "mset (filter (\<lambda>p. fst p = c) (dep_pairs es)) = mset (filter (\<lambda>p. fst p = c) (dep_pairs es'))"
      using pm by simp
    then have "mset (map snd (filter (\<lambda>p. fst p = c) (dep_pairs es))) = mset (map snd (filter (\<lambda>p. fst p = c) (dep_pairs es')))"
      by simp
    then show ?thesis using s1 [of c] s2 [of c] by (intro sort_mset_eq) (simp add: dget_def)
  qed
  have oks: "dict_ok inc" "dict_ok inc'" using s1 s2 by blast+
  have "p \<in> set inc \<longleftrightarrow> p \<in> set inc'" for p
    using map_of_eq_Some_iff [OF oks(1), of "fst p" "snd p"] map_of_eq_Some_iff [OF oks(2), of "fst p" "snd p"]
      get [of "fst p"] by simp
  then have "set inc = set inc'" by blast
  then have "set (dict_keys (filter (\<lambda>(k, c). c = 0) inc)) = set (dict_keys (filter (\<lambda>(k, c). c = 0) inc'))"
    by simp
  moreover have "distinct (dict_keys (filter (\<lambda>(k, c). c = 0) inc))" "distinct (dict_keys (filter (\<lambda>(k, c). c = 0) inc'))"
    using oks by (simp_all add: distinct_map_filter)
  ultimately have ready: "sort (dict_keys (filter (\<lambda>(k, c). c = 0) inc)) = sort (dict_keys (filter (\<lambda>(k, c). c = 0) inc'))"
    by (metis set_eq_iff_mset_eq_distinct sort_mset_eq)
  have "kahn out r inc = kahn out' r inc'" for r
    by (rule kahn_cong [OF out]) (simp add: dget_def get)
  then show ?thesis
    unfolding topological_task_ids_def ids by (simp add: 1 2 ready)
qed

definition edge_key_json :: "string list \<Rightarrow> json" where
  "edge_key_json k = JObj [(''from_task_id'', JStr (k ! 0)), (''to_task_id'', JStr (k ! 1)),
     (''edge_type'', JStr (k ! 2)), (''contract_ref'', if k ! 3 = [] then JNull else JStr (k ! 3))]"

lemma edge_key_json: "te_contract_ref e \<noteq> Some [] \<Longrightarrow> edge_json e = edge_key_json (edge_key e)"
  by (auto simp: edge_json_def edge_key_json_def edge_key_def json_opt_def split: option.splits)

lemma sorted_edges_mset:
  assumes "mset es = mset es'" and "\<forall>e \<in> set es. te_contract_ref e \<noteq> Some []"
  shows "map edge_json (sort_key edge_key es) = map edge_json (sort_key edge_key es')"
proof -
  have set: "set es' = set es" using assms(1) by (metis mset_eq_setD)
  have keys: "map edge_key (sort_key edge_key xs) = sort (map edge_key xs)" for xs
  proof (rule properties_for_sort [symmetric])
    show "mset (map edge_key (sort_key edge_key xs)) = mset (map edge_key xs)" by simp
    show "sorted (map edge_key (sort_key edge_key xs))" by simp
  qed
  have via: "map edge_json (sort_key edge_key xs) = map edge_key_json (sort (map edge_key xs))"
    if "\<forall>e \<in> set xs. te_contract_ref e \<noteq> Some []" for xs
  proof -
    have "map edge_json (sort_key edge_key xs) = map (edge_key_json \<circ> edge_key) (sort_key edge_key xs)"
      using that by (simp add: edge_key_json)
    also have "\<dots> = map edge_key_json (map edge_key (sort_key edge_key xs))" by simp
    finally show ?thesis unfolding keys .
  qed
  have "sort (map edge_key es) = sort (map edge_key es')" using assms(1) by (intro sort_mset_eq) simp
  with via assms(2) set show ?thesis by simp
qed

lemma graph_json_mset:
  assumes "distinct (map tk_id ts)" and "mset ts = mset ts'" and "mset es = mset es'"
    and "\<forall>e \<in> set es. te_contract_ref e \<noteq> Some []"
  shows "graph_json ts es = graph_json ts' es'"
proof -
  have dist': "distinct (map tk_id ts')" using assms(1,2) by (metis mset_eq_imp_distinct_iff mset_map)
  have set: "set ts' = set ts" "length ts' = length ts" using assms(2) by (metis mset_eq_setD, metis mset_eq_length)
  have get: "dict_get (by_id_dict ts) k = dict_get (by_id_dict ts') k" for k
    using by_id_get [OF assms(1), of k] by_id_get [OF dist', of k] set(1)
    by (metis option.exhaust)
  have keys: "sort (dict_keys (by_id_dict ts)) = sort (dict_keys (by_id_dict ts'))"
    using assms(1,2) dist' by (intro sort_mset_eq) (simp add: by_id_dict_eq comp_def)
  show ?thesis
    unfolding graph_json_def topological_mset [OF assms(2,3)] keys sorted_edges_mset [OF assms(3,4)] set(2) Let_def
    using node_list_cong [of "by_id_dict ts" "by_id_dict ts'", OF get] by simp
qed

section \<open>Validation\<close>

definition closed_graph :: "task list \<Rightarrow> task_graph_edge list \<Rightarrow> bool" where
  "closed_graph ts es \<longleftrightarrow> distinct (map tk_id ts)
    \<and> fst ` set (dep_pairs es) \<union> snd ` set (dep_pairs es) \<subseteq> set (map tk_id ts)"

lemma has_cycle_closed:
  assumes "closed_graph ts es"
  shows "has_cycle ts es \<longleftrightarrow> (\<exists>v. (v, v) \<in> (set (dep_pairs es))\<^sup>+)"
proof -
  let ?o = "topological_task_ids ts es"
  obtain inc where inv: "kahn_inv (dep_pairs es) (dep_nodes ts es) ?o [] inc"
    using topological_inv by blast
  have N: "dep_nodes ts es = set (map tk_id ts)" using assms by (auto simp: closed_graph_def dep_nodes_def)
  have "distinct ?o" using inv by (simp add: kahn_inv_def)
  then have len: "length ?o = card (set ?o)" "length ts = card (dep_nodes ts es)"
    using distinct_card [of ?o] distinct_card [of "map tk_id ts"] assms N by (simp_all add: closed_graph_def)
  have "set ?o \<subseteq> dep_nodes ts es" using inv by (simp add: kahn_inv_def)
  then have "length ?o = length ts \<longleftrightarrow> set ?o = dep_nodes ts es"
    unfolding len using card_subset_eq [OF dep_nodes_closed(1)] by metis
  with all_listed_iff [OF inv dep_nodes_closed] show ?thesis
    unfolding has_cycle_def by blast
qed

lemma graph_hash_total:
  assumes "closed_graph ts es"
  shows "\<exists>h. graph_hash ts es = Inr h"
proof -
  have dist: "distinct (map tk_id ts)" and N: "dep_nodes ts es = set (map tk_id ts)"
    using assms by (auto simp: closed_graph_def dep_nodes_def)
  have "set (topological_task_ids ts es) \<subseteq> set (map tk_id ts)"
    using topological_inv [of es ts] N by (auto simp: kahn_inv_def)
  moreover have "set (sort (dict_keys (by_id_dict ts))) = set (map tk_id ts)"
    using dist by (simp add: by_id_dict_eq image_image)
  ultimately have known: "dict_get (by_id_dict ts) k \<noteq> None"
    if "k \<in> set (if length (topological_task_ids ts es) = length ts then topological_task_ids ts es
         else sort (dict_keys (by_id_dict ts)))" for k
    using that by_id_known [OF dist, of k] by (auto split: if_splits)
  obtain ns where ns: "node_list (by_id_dict ts) (if length (topological_task_ids ts es) = length ts
      then topological_task_ids ts es else sort (dict_keys (by_id_dict ts))) = Inr ns"
    using node_list_total [OF known] by blast
  show ?thesis
    unfolding graph_hash_def graph_json_def Let_def ns sum.case by blast
qed

text \<open>What a well-shaped task and a covered terminal task are.\<close>

definition task_shaped :: "string list option \<Rightarrow> task \<Rightarrow> bool" where
  "task_shaped approved t \<longleftrightarrow>
     (tk_requirement_refs t \<noteq> [] \<or> tk_class t = ''enabling'' \<and> tk_parent t \<noteq> None)
   \<and> (\<forall>slugs. approved = Some slugs \<longrightarrow> set (tk_requirement_refs t) \<subseteq> set slugs)
   \<and> length (tk_success_criteria t) \<in> {1..5} \<and> tk_effort t \<noteq> ''l''
   \<and> (tk_class t \<in> set IMPLEMENTING \<longrightarrow> tk_write_scope t \<noteq> [])
   \<and> length (tk_write_scope t) \<le> 12 \<and> card (path_module ` set (tk_write_scope t)) \<le> 1"

definition verification_covered :: "task_graph_edge list \<Rightarrow> task \<Rightarrow> bool" where
  "verification_covered es t \<longleftrightarrow> (\<exists>e \<in> set es. te_from e = tk_id t \<and> te_type e \<noteq> ''verifies'')
    \<or> (\<exists>e \<in> set es. te_type e = ''verifies'' \<and> (te_to e = tk_id t \<or> te_from e = tk_id t))
    \<or> tk_class t = ''verification''"

lemma task_faults_Nil: "task_faults approved t = [] \<longleftrightarrow> task_shaped approved t"
proof -
  have "length (remdups (map path_module (tk_write_scope t))) = card (path_module ` set (tk_write_scope t))"
    using length_remdups_card_conv by (metis list.set_map)
  then show ?thesis
    by (auto simp: task_faults_def task_shaped_def filter_empty_conv not_le Suc_le_eq split: option.splits)
qed

lemma terminal_faults_Nil: "is_terminal es t \<Longrightarrow> terminal_faults es t = [] \<longleftrightarrow> verification_covered es t"
  by (auto simp: is_terminal_def terminal_faults_def verification_covered_def in_edges_def out_edges_def list_ex_iff)

lemma not_terminal_covered: "\<not> is_terminal es t \<Longrightarrow> verification_covered es t"
  by (auto simp: is_terminal_def verification_covered_def out_edges_def list_ex_iff)

lemma validate_graph_report:
  assumes "closed_graph ts es"
  shows "\<exists>r. validate_graph ts es (Some h) approved = Inr r \<and>
    (vr_valid r \<longleftrightarrow> (\<nexists>v. (v, v) \<in> (set (dep_pairs es))\<^sup>+) \<and> graph_hash ts es = Inr h
      \<and> (\<forall>t \<in> set ts. task_shaped approved t \<and> verification_covered es t))"
proof -
  obtain h' where h': "graph_hash ts es = Inr h'" using graph_hash_total [OF assms] by blast
  have "concat (map (terminal_faults es) (filter (is_terminal es) ts)) = [] \<longleftrightarrow>
      (\<forall>t \<in> set ts. verification_covered es t)"
    using terminal_faults_Nil not_terminal_covered by fastforce
  then show ?thesis
    using has_cycle_closed [OF assms] task_faults_Nil h'
    by (auto simp: validate_graph_def)
qed

section \<open>Properties\<close>

text \<open>
  C38. The order \<open>topological_task_ids\<close> computes is topological: no identifier occurs twice, every identifier is
  a task or an endpoint of a dependency edge, and every dependency edge into a listed identifier comes from
  one listed before it. It lists all of them exactly when the dependencies have no cycle.
\<close>

theorem topological_order_correct:
  "distinct (topological_task_ids ts es) \<and> set (topological_task_ids ts es) \<subseteq> dep_nodes ts es
    \<and> topo_ordered (dep_pairs es) (topological_task_ids ts es)
    \<and> (set (topological_task_ids ts es) = dep_nodes ts es \<longleftrightarrow> (\<nexists>v. (v, v) \<in> (set (dep_pairs es))\<^sup>+))"
proof -
  obtain inc where inv: "kahn_inv (dep_pairs es) (dep_nodes ts es) (topological_task_ids ts es) [] inc"
    using topological_inv by blast
  from all_listed_iff [OF inv dep_nodes_closed] inv show ?thesis unfolding kahn_inv_def by blast
qed

text \<open>
  On a graph whose dependency edges join its own tasks, \<open>has_cycle\<close> answers exactly whether the
  dependencies have a cycle.
\<close>

theorem has_cycle_exact:
  assumes "distinct (map tk_id ts)" and "fst ` set (dep_pairs es) \<union> snd ` set (dep_pairs es) \<subseteq> set (map tk_id ts)"
  shows "has_cycle ts es \<longleftrightarrow> (\<exists>v. (v, v) \<in> (set (dep_pairs es))\<^sup>+)"
  by (rule has_cycle_closed) (use assms in \<open>simp add: closed_graph_def\<close>)

definition sample_link :: "uuid \<Rightarrow> uuid \<Rightarrow> string \<Rightarrow> task_graph_edge" where
  "sample_link a b ty = sample_edge\<lparr>te_from := a, te_to := b, te_type := ty\<rparr>"

theorem has_cycle_exact_witness:
  "has_cycle [sample_task ''b'' ''READY'', sample_task ''a'' ''READY''] [sample_link ''a'' ''b'' ''depends_on'', sample_link ''b'' ''a'' ''repairs'']"
proof -
  let ?es = "[sample_link ''a'' ''b'' ''depends_on'', sample_link ''b'' ''a'' ''repairs'']"
  have pairs: "dep_pairs ?es = [(''a'', ''b''), (''b'', ''a'')]"
    by (simp add: dep_pairs_def sample_link_def DEPENDENCY_EDGES_def)
  have "(''a'', ''a'') \<in> (set (dep_pairs ?es))\<^sup>+"
    unfolding pairs by (rule trancl_into_trancl [of _ "''b''"]) auto
  then show ?thesis
    by (subst has_cycle_exact) (auto simp: pairs sample_task_def)
qed

text \<open>
  C40. \<open>dependents\<close> ends and returns exactly the tasks that can be reached from a task along edges.
\<close>

theorem dependents_exact: "set (dependents k es) = {v. (k, v) \<in> (edge_rel es)\<^sup>+}"
  by (rule dependents_trancl)

text \<open>
  Write scopes overlap exactly when a path of one is, component by component, a path of the other or a
  directory above or below it, and a path is in scope exactly when a scope entry is it or a directory above
  it; separators and trailing slashes do not matter.
\<close>

theorem scopes_by_components:
  "(scopes_overlap left right \<longleftrightarrow>
     (\<exists>a \<in> set left. \<exists>b \<in> set right. prefix (path_of a) (path_of b) \<or> prefix (path_of b) (path_of a)))
   \<and> (in_scope p scope \<longleftrightarrow> (\<exists>s \<in> set scope. prefix (path_of s) (path_of p)))"
  by (simp add: scopes_overlap_iff in_scope_iff)

text \<open>
  The graph hash is canonical: it does not depend on the order in which tasks and edges are stored.
  (An edge with the empty contract reference sorts like one without, so such edges are excluded.)
\<close>

theorem graph_hash_canonical:
  assumes "distinct (map tk_id ts)" and "mset ts = mset ts'" and "mset es = mset es'"
    and "\<forall>e \<in> set es. te_contract_ref e \<noteq> Some []"
  shows "graph_hash ts es = graph_hash ts' es'"
  unfolding graph_hash_def graph_json_mset [OF assms] ..

theorem graph_hash_canonical_witness:
  "graph_hash [sample_task ''b'' ''READY'', sample_task ''a'' ''READY''] [sample_link ''a'' ''b'' ''depends_on'', sample_link ''b'' ''a'' ''verifies'']
   = graph_hash [sample_task ''a'' ''READY'', sample_task ''b'' ''READY''] [sample_link ''b'' ''a'' ''verifies'', sample_link ''a'' ''b'' ''depends_on'']"
  by (rule graph_hash_canonical) (auto simp: sample_task_def sample_link_def sample_edge_def)

text \<open>
  C39. Validation accepts exactly the well-formed graphs. On a graph whose dependency edges join its own,
  distinct tasks the call returns a report, and the report is valid exactly when the dependencies have no
  cycle, the stored hash is the graph's hash, every task has the required shape and every task is covered
  by verification or leads on to other work.
\<close>

theorem validate_graph_exact:
  assumes "closed_graph ts es"
  shows "\<exists>r. validate_graph ts es (Some h) approved = Inr r \<and>
    (vr_valid r \<longleftrightarrow> (\<nexists>v. (v, v) \<in> (set (dep_pairs es))\<^sup>+) \<and> graph_hash ts es = Inr h
      \<and> (\<forall>t \<in> set ts. task_shaped approved t \<and> verification_covered es t))"
  by (rule validate_graph_report [OF assms])

definition sample_verifier :: task where
  "sample_verifier = (sample_task ''v'' ''READY'')\<lparr>tk_class := ''verification'', tk_requirement_refs := [''r''],
     tk_success_criteria := [''ok'']\<rparr>"

theorem validate_graph_exact_witness:
  "\<exists>r h. graph_hash [sample_verifier] [] = Inr h \<and> validate_graph [sample_verifier] [] (Some h) (Some [''r'']) = Inr r \<and> vr_valid r"
proof -
  have closed: "closed_graph [sample_verifier] []" by (simp add: closed_graph_def dep_pairs_def)
  obtain h where h: "graph_hash [sample_verifier] [] = Inr h" using graph_hash_total [OF closed] by blast
  have "task_shaped (Some [''r'']) sample_verifier" "verification_covered [] sample_verifier"
    by (simp_all add: sample_verifier_def sample_task_def task_shaped_def verification_covered_def IMPLEMENTING_def)
  with validate_graph_exact [OF closed, of h "Some [''r'']"] h show ?thesis
    by (auto simp: dep_pairs_def)
qed

end
