(* ===== verification/Recovery.thy ===== *)
theory Recovery
  imports Lifecycle
begin

text \<open>
  \<open>engine/recovery/matrix.py\<close>: the failure taxonomy, the recovery matrix and the classification of tasks at
  a replan. The rows of the matrix are written out as the code has them. Proved here: a decision exists
  exactly for known classes and positive counts, escalation is monotone in the count, the number of
  automatic retries is bounded, and a replan never touches finished work except to revert a wrong product.
\<close>

section \<open>The taxonomy\<close>

definition FAILURE_CLASSES :: "string list" where
  "FAILURE_CLASSES =
    [''CONTEXT_FAILURE'', ''PLANNING_FAILURE'', ''ROUTING_FAILURE'', ''AUTHORIZATION_FAILURE'', ''ENVIRONMENT_FAILURE'',
     ''WORKER_FAILURE'', ''TOOL_FAILURE'', ''MERGE_CONFLICT'', ''SCOPE_VIOLATION'', ''VERIFICATION_FAILURE'',
     ''WRONG_PRODUCT'', ''SPECIFICATION_FAILURE'', ''RESOURCE_EXHAUSTION'', ''SIDE_EFFECT_UNKNOWN'', ''DRIFT_FAILURE'',
     ''INTENTIONALLY_STOPPED'']"

definition FAILURE_CLASS_ALIASES :: "(string, string) dict" where
  "FAILURE_CLASS_ALIASES =
    [(''WORKER_COMMAND_FAILED'', ''WORKER_FAILURE''), (''WORKER_PREPARE_FAILED'', ''WORKER_FAILURE''),
     (''WORKER_FAILURE'', ''WORKER_FAILURE''), (''KILL_FLAG_ACTIVE'', ''INTENTIONALLY_STOPPED''),
     (''WORKER_CAPABILITY_DENIED'', ''AUTHORIZATION_FAILURE''), (''SIDE_EFFECT_UNKNOWN'', ''SIDE_EFFECT_UNKNOWN''),
     (''EFFECT_UNKNOWN'', ''SIDE_EFFECT_UNKNOWN''), (''EFFECT_CONFLICT'', ''SIDE_EFFECT_UNKNOWN''),
     (''SCOPE_VIOLATION'', ''SCOPE_VIOLATION''), (''MERGE_CONFLICT'', ''MERGE_CONFLICT''),
     (''WRONG_PRODUCT'', ''WRONG_PRODUCT''), (''VERIFICATION_FAILED'', ''VERIFICATION_FAILURE''),
     (''ORACLE_UNSATISFIED'', ''VERIFICATION_FAILURE''), (''NO_ELIGIBLE_WORKER'', ''ROUTING_FAILURE''),
     (''ROUTE_REJECTED'', ''ROUTING_FAILURE''), (''ENVIRONMENT_FAILED'', ''ENVIRONMENT_FAILURE''),
     (''BUDGET_EXCEEDED'', ''RESOURCE_EXHAUSTION''), (''QUOTA_EXCEEDED'', ''RESOURCE_EXHAUSTION''),
     (''DECOMPOSITION_REQUIRED'', ''PLANNING_FAILURE''), (''CONTEXT_INCOMPLETE'', ''CONTEXT_FAILURE''),
     (''CONTEXT_CONTRADICTION'', ''CONTEXT_FAILURE'')]"

definition MATRIX_VERSION :: string where "MATRIX_VERSION = ''recovery-matrix-v1''"

definition WORKER_FAILURE_REROUTE_AFTER :: int where "WORKER_FAILURE_REROUTE_AFTER = 2"

definition MERGE_CONFLICT_REPLAN_AFTER :: int where "MERGE_CONFLICT_REPLAN_AFTER = 3"

definition VERIFICATION_REPLAN_AFTER :: int where "VERIFICATION_REPLAN_AFTER = 2"

definition PLANNING_FAILURE_REPLAN_AFTER :: int where "PLANNING_FAILURE_REPLAN_AFTER = 2"

definition ROUTING_FAILURE_ESCALATE_AFTER :: int where "ROUTING_FAILURE_ESCALATE_AFTER = 2"

definition REPLAN_TRIGGERS :: "string list" where
  "REPLAN_TRIGGERS =
    [''operator'', ''SPECIFICATION_FAILURE'', ''DRIFT_FAILURE'', ''WRONG_PRODUCT'', ''repeated_verification_failure'',
     ''accepted_edr'', ''MERGE_CONFLICT'', ''PLANNING_FAILURE'']"

record recovery_decision =
  rd_class :: string
  rd_action :: string
  rd_allow_new_worker_run :: bool
  rd_requires_replan :: bool
  rd_requires_human :: bool
  rd_error_code :: string
  rd_message :: string
  rd_retryable :: bool
  rd_matrix_version :: string

definition canonical_failure_class :: "string \<Rightarrow> string result" where
  "canonical_failure_class raw =
    (let token = strip raw in
     if token \<in> set FAILURE_CLASSES then Inr token
     else case dict_get FAILURE_CLASS_ALIASES token of
       Some aliased \<Rightarrow> Inr aliased
     | None \<Rightarrow> Inl (DdeError ''POLICY_DENIED'' ''recovery refuses an unknown failure class rather than guessing''
         False [(''failure_class'', JStr raw)]))"

definition attempt_survives_run_failure :: "string \<Rightarrow> int \<Rightarrow> bool result" where
  "attempt_survives_run_failure failure_class worker_failure_occurrence_count =
    (case canonical_failure_class failure_class of
       Inl e \<Rightarrow> Inl e
     | Inr canonical \<Rightarrow>
         if canonical = ''ENVIRONMENT_FAILURE'' then Inr True
         else if canonical = ''WORKER_FAILURE''
         then Inr (worker_failure_occurrence_count < WORKER_FAILURE_REROUTE_AFTER)
         else Inr False)"

section \<open>The matrix\<close>

definition row_context :: "int \<Rightarrow> bool \<Rightarrow> recovery_decision" where
  "row_context occurrence_count unreconciled =
    \<lparr>rd_class = ''CONTEXT_FAILURE'', rd_action = ''recompile'', rd_allow_new_worker_run = False,
      rd_requires_replan = False, rd_requires_human = (2 \<le> occurrence_count), rd_error_code = ''CONTEXT_INCOMPLETE'',
      rd_message = ''CONTEXT_FAILURE: recompile with expanded retrieval; no worker retry'', rd_retryable = False,
      rd_matrix_version = MATRIX_VERSION\<rparr>"

definition row_planning :: "int \<Rightarrow> bool \<Rightarrow> recovery_decision" where
  "row_planning occurrence_count unreconciled =
    (let replan = (PLANNING_FAILURE_REPLAN_AFTER \<le> occurrence_count) in
     \<lparr>rd_class = ''PLANNING_FAILURE'', rd_action = (if replan then ''replan'' else ''amend_graph''),
      rd_allow_new_worker_run = False, rd_requires_replan = replan, rd_requires_human = replan,
      rd_error_code = ''DECOMPOSITION_REQUIRED'',
      rd_message = ''PLANNING_FAILURE: decompose or amend; repeated failure replans'', rd_retryable = False,
      rd_matrix_version = MATRIX_VERSION\<rparr>)"

definition row_routing :: "int \<Rightarrow> bool \<Rightarrow> recovery_decision" where
  "row_routing occurrence_count unreconciled =
    (let escalate = (ROUTING_FAILURE_ESCALATE_AFTER \<le> occurrence_count) in
     \<lparr>rd_class = ''ROUTING_FAILURE'', rd_action = (if escalate then ''escalate'' else ''reroute''),
      rd_allow_new_worker_run = False, rd_requires_replan = False, rd_requires_human = escalate,
      rd_error_code = ''ROUTE_REJECTED'', rd_message = ''ROUTING_FAILURE: re-evaluate route; no silent worker retry'',
      rd_retryable = False, rd_matrix_version = MATRIX_VERSION\<rparr>)"

definition row_authorization :: "int \<Rightarrow> bool \<Rightarrow> recovery_decision" where
  "row_authorization occurrence_count unreconciled =
    \<lparr>rd_class = ''AUTHORIZATION_FAILURE'', rd_action = ''request_approval'', rd_allow_new_worker_run = False,
      rd_requires_replan = False, rd_requires_human = True, rd_error_code = ''POLICY_DENIED'',
      rd_message = ''AUTHORIZATION_FAILURE: no silent retry'', rd_retryable = False, rd_matrix_version = MATRIX_VERSION\<rparr>"

definition row_environment :: "int \<Rightarrow> bool \<Rightarrow> recovery_decision" where
  "row_environment occurrence_count unreconciled =
    \<lparr>rd_class = ''ENVIRONMENT_FAILURE'', rd_action = ''replace_environment'', rd_allow_new_worker_run = False,
      rd_requires_replan = False, rd_requires_human = True, rd_error_code = ''ENVIRONMENT_FAILED'',
      rd_message = ''ENVIRONMENT_FAILURE: replace environment then resume from checkpoint; refusing a retry on the same environment'',
      rd_retryable = False, rd_matrix_version = MATRIX_VERSION\<rparr>"

definition row_worker :: "int \<Rightarrow> bool \<Rightarrow> recovery_decision" where
  "row_worker occurrence_count unreconciled =
    (let repeated = (WORKER_FAILURE_REROUTE_AFTER \<le> occurrence_count) in
     \<lparr>rd_class = ''WORKER_FAILURE'', rd_action = (if repeated then ''reroute'' else ''retry''),
      rd_allow_new_worker_run = (\<not> repeated), rd_requires_replan = False, rd_requires_human = repeated,
      rd_error_code = (if repeated then ''ROUTE_REJECTED'' else ''POLICY_DENIED''),
      rd_message = (if repeated then ''WORKER_FAILURE: repeated failure requires reroute'' else ''WORKER_FAILURE: recover session/run''),
      rd_retryable = (\<not> repeated), rd_matrix_version = MATRIX_VERSION\<rparr>)"

definition row_tool :: "int \<Rightarrow> bool \<Rightarrow> recovery_decision" where
  "row_tool occurrence_count unreconciled =
    \<lparr>rd_class = ''TOOL_FAILURE'', rd_action = ''alternate_tool'', rd_allow_new_worker_run = False,
      rd_requires_replan = False, rd_requires_human = True, rd_error_code = ''POLICY_DENIED'',
      rd_message = ''TOOL_FAILURE: alternate certified implementation required (DDE-025)'', rd_retryable = False,
      rd_matrix_version = MATRIX_VERSION\<rparr>"

definition row_merge :: "int \<Rightarrow> bool \<Rightarrow> recovery_decision" where
  "row_merge occurrence_count unreconciled =
    (let replan = (MERGE_CONFLICT_REPLAN_AFTER \<le> occurrence_count) in
     \<lparr>rd_class = ''MERGE_CONFLICT'', rd_action = (if replan then ''replan'' else ''repair''),
      rd_allow_new_worker_run = False, rd_requires_replan = replan, rd_requires_human = replan,
      rd_error_code = (if replan then ''DECOMPOSITION_REQUIRED'' else ''MERGE_CONFLICT''),
      rd_message = (if replan then ''MERGE_CONFLICT: > 2 conflicts escalate to replan'' else ''MERGE_CONFLICT: emit scoped repair task''),
      rd_retryable = False, rd_matrix_version = MATRIX_VERSION\<rparr>)"

definition row_scope :: "int \<Rightarrow> bool \<Rightarrow> recovery_decision" where
  "row_scope occurrence_count unreconciled =
    \<lparr>rd_class = ''SCOPE_VIOLATION'', rd_action = ''reject'', rd_allow_new_worker_run = False, rd_requires_replan = False,
      rd_requires_human = True, rd_error_code = ''SCOPE_VIOLATION'',
      rd_message = ''SCOPE_VIOLATION: reject and quarantine; never retry'', rd_retryable = False,
      rd_matrix_version = MATRIX_VERSION\<rparr>"

definition row_verification :: "int \<Rightarrow> bool \<Rightarrow> recovery_decision" where
  "row_verification occurrence_count unreconciled =
    (let replan = (VERIFICATION_REPLAN_AFTER \<le> occurrence_count) in
     \<lparr>rd_class = ''VERIFICATION_FAILURE'', rd_action = (if replan then ''replan'' else ''repair''),
      rd_allow_new_worker_run = (\<not> replan), rd_requires_replan = replan, rd_requires_human = replan,
      rd_error_code = ''VERIFICATION_FAILED'',
      rd_message = (if replan then ''VERIFICATION_FAILURE: repeated failure replans'' else ''VERIFICATION_FAILURE: repair then re-verify; preserve failing evidence''),
      rd_retryable = (\<not> replan), rd_matrix_version = MATRIX_VERSION\<rparr>)"

definition row_wrong_product :: "int \<Rightarrow> bool \<Rightarrow> recovery_decision" where
  "row_wrong_product occurrence_count unreconciled =
    \<lparr>rd_class = ''WRONG_PRODUCT'', rd_action = ''replan'', rd_allow_new_worker_run = False, rd_requires_replan = True,
      rd_requires_human = True, rd_error_code = ''WRONG_PRODUCT'', rd_message = ''WRONG_PRODUCT: replan; no silent retry'',
      rd_retryable = False, rd_matrix_version = MATRIX_VERSION\<rparr>"

definition row_specification :: "int \<Rightarrow> bool \<Rightarrow> recovery_decision" where
  "row_specification occurrence_count unreconciled =
    \<lparr>rd_class = ''SPECIFICATION_FAILURE'', rd_action = ''clarification'', rd_allow_new_worker_run = False,
      rd_requires_replan = True, rd_requires_human = True, rd_error_code = ''POLICY_DENIED'',
      rd_message = ''SPECIFICATION_FAILURE: never guess; human authority required'', rd_retryable = False,
      rd_matrix_version = MATRIX_VERSION\<rparr>"

definition row_resource :: "int \<Rightarrow> bool \<Rightarrow> recovery_decision" where
  "row_resource occurrence_count unreconciled =
    \<lparr>rd_class = ''RESOURCE_EXHAUSTION'', rd_action = ''request_budget'', rd_allow_new_worker_run = False,
      rd_requires_replan = False, rd_requires_human = True, rd_error_code = ''BUDGET_EXCEEDED'',
      rd_message = ''RESOURCE_EXHAUSTION: checkpoint and request budget; no new mutation'', rd_retryable = False,
      rd_matrix_version = MATRIX_VERSION\<rparr>"

definition row_intentionally_stopped :: "int \<Rightarrow> bool \<Rightarrow> recovery_decision" where
  "row_intentionally_stopped occurrence_count unreconciled =
    \<lparr>rd_class = ''INTENTIONALLY_STOPPED'', rd_action = ''acknowledge_stop'', rd_allow_new_worker_run = False,
      rd_requires_replan = False, rd_requires_human = True, rd_error_code = ''KILL_FLAG_ACTIVE'',
      rd_message = ''INTENTIONALLY_STOPPED: acknowledge the operator stop; never blind-retried'', rd_retryable = False,
      rd_matrix_version = MATRIX_VERSION\<rparr>"

definition row_unknown :: "int \<Rightarrow> bool \<Rightarrow> recovery_decision" where
  "row_unknown occurrence_count unreconciled =
    \<lparr>rd_class = ''SIDE_EFFECT_UNKNOWN'', rd_action = ''reconcile'', rd_allow_new_worker_run = (\<not> unreconciled),
      rd_requires_replan = False, rd_requires_human = unreconciled, rd_error_code = ''EFFECT_UNKNOWN'',
      rd_message = (if unreconciled then ''SIDE_EFFECT_UNKNOWN: reconcile before any retry'' else ''SIDE_EFFECT_UNKNOWN: reconciled absence permits a new mutation''),
      rd_retryable = (\<not> unreconciled), rd_matrix_version = MATRIX_VERSION\<rparr>"

definition row_drift :: "int \<Rightarrow> bool \<Rightarrow> recovery_decision" where
  "row_drift occurrence_count unreconciled =
    \<lparr>rd_class = ''DRIFT_FAILURE'', rd_action = ''drift_review'', rd_allow_new_worker_run = False,
      rd_requires_replan = True, rd_requires_human = True, rd_error_code = ''POLICY_DENIED'',
      rd_message = ''DRIFT_FAILURE: stop the mutation path; trigger drift review'', rd_retryable = False,
      rd_matrix_version = MATRIX_VERSION\<rparr>"

definition ROW :: "(string, int \<Rightarrow> bool \<Rightarrow> recovery_decision) dict" where
  "ROW =
    [(''CONTEXT_FAILURE'', row_context), (''PLANNING_FAILURE'', row_planning), (''ROUTING_FAILURE'', row_routing),
     (''AUTHORIZATION_FAILURE'', row_authorization), (''ENVIRONMENT_FAILURE'', row_environment),
     (''WORKER_FAILURE'', row_worker), (''TOOL_FAILURE'', row_tool), (''MERGE_CONFLICT'', row_merge),
     (''SCOPE_VIOLATION'', row_scope), (''VERIFICATION_FAILURE'', row_verification),
     (''WRONG_PRODUCT'', row_wrong_product), (''SPECIFICATION_FAILURE'', row_specification),
     (''RESOURCE_EXHAUSTION'', row_resource), (''SIDE_EFFECT_UNKNOWN'', row_unknown), (''DRIFT_FAILURE'', row_drift),
     (''INTENTIONALLY_STOPPED'', row_intentionally_stopped)]"

text \<open>\<open>_ROW[canonical]\<close> is a dictionary access; that it never raises is part of \<open>decide_total\<close> below.\<close>

definition decide :: "string \<Rightarrow> int \<Rightarrow> bool \<Rightarrow> recovery_decision result" where
  "decide failure_class occurrence_count unreconciled =
    (if occurrence_count < 1 then
       Inl (DdeError ''POLICY_DENIED'' ''occurrence_count must be >= 1'' False
         [(''occurrence_count'', JInt occurrence_count)])
     else case canonical_failure_class failure_class of
       Inl e \<Rightarrow> Inl e
     | Inr canonical \<Rightarrow>
         (case dict_get ROW canonical of
            None \<Rightarrow> Inl (KeyError canonical)
          | Some row \<Rightarrow> Inr (row occurrence_count unreconciled)))"

section \<open>Dispositions at a replan\<close>

definition INVALIDATING :: "string list" where
  "INVALIDATING = [''SPECIFICATION_FAILURE'', ''DRIFT_FAILURE'', ''WRONG_PRODUCT'', ''repeated_verification_failure'',
     ''accepted_edr'', ''MERGE_CONFLICT'', ''PLANNING_FAILURE'']"

text \<open>
  One iteration: the disposition of a task and, when there is one, its explanation. \<open>statuses.get\<close>
  defaults to CREATED.
\<close>

definition classify_task ::
  "(uuid, string) dict \<Rightarrow> uuid list \<Rightarrow> uuid list \<Rightarrow> uuid list \<Rightarrow> string \<Rightarrow> uuid list \<Rightarrow> uuid
    \<Rightarrow> string \<times> string option"
where
  "classify_task statuses in_flight_ids completed_ids integrated_ids trigger retire task_id =
    (let invalidating = trigger \<in> set INVALIDATING;
         status = (case dict_get statuses task_id of None \<Rightarrow> ''CREATED'' | Some st \<Rightarrow> st);
         completed = (task_id \<in> set completed_ids \<or> status = ''COMPLETED'');
         integrated = (task_id \<in> set integrated_ids);
         in_flight = (task_id \<in> set in_flight_ids)
     in if status \<in> {''SUPERSEDED'', ''RETIRED''} then (''PRESERVE'', None)
        else if completed \<or> integrated then
          (if trigger = ''WRONG_PRODUCT'' \<and> integrated
           then (''REVERT'', Some ''WRONG_PRODUCT: merged output must be undone by a revert task'')
           else (''PRESERVE'', None))
        else if task_id \<in> set retire then
          (''RETIRE'', Some ''explicit RETIRE: node no longer needed; artifacts retained'')
        else if in_flight then
          (if invalidating
           then (''SUPERSEDE'', Some (trigger @ '': in-flight node superseded; attempt results retained''))
           else (''QUIESCE'', None))
        else if invalidating then
          (''SUPERSEDE'', Some (trigger @ '': open node superseded; durable results retained''))
        else (''PRESERVE'', None))"

fun classify_each ::
  "(uuid \<Rightarrow> string \<times> string option) \<Rightarrow> uuid list \<Rightarrow> (string, string) dict \<Rightarrow> (string, string) dict
    \<Rightarrow> (string, string) dict \<times> (string, string) dict"
where
  "classify_each f [] dispositions explanations = (dispositions, explanations)"
| "classify_each f (k # ks) dispositions explanations =
    (case f k of (d, x) \<Rightarrow>
       classify_each f ks (dict_set k d dispositions)
         (case x of None \<Rightarrow> explanations | Some text \<Rightarrow> dict_set k text explanations))"

definition classify_dispositions ::
  "uuid list \<Rightarrow> (uuid, string) dict \<Rightarrow> uuid list \<Rightarrow> uuid list \<Rightarrow> uuid list \<Rightarrow> string \<Rightarrow> uuid list option
    \<Rightarrow> (string, string) dict \<times> (string, string) dict"
where
  "classify_dispositions task_ids statuses in_flight_ids completed_ids integrated_ids trigger retire_ids =
    (let retire = (case retire_ids of None \<Rightarrow> [] | Some r \<Rightarrow> r) in
     classify_each (classify_task statuses in_flight_ids completed_ids integrated_ids trigger retire) task_ids [] [])"

section \<open>Facts about the matrix\<close>

lemmas thresholds =
  WORKER_FAILURE_REROUTE_AFTER_def MERGE_CONFLICT_REPLAN_AFTER_def VERIFICATION_REPLAN_AFTER_def
  PLANNING_FAILURE_REPLAN_AFTER_def ROUTING_FAILURE_ESCALATE_AFTER_def

lemmas row_defs =
  row_context_def row_planning_def row_routing_def row_authorization_def row_environment_def row_worker_def
  row_tool_def row_merge_def row_scope_def row_verification_def row_wrong_product_def row_specification_def
  row_resource_def row_unknown_def row_drift_def row_intentionally_stopped_def

text \<open>
  The contract of a matrix row for class \<open>c\<close>: it decides about its own class, a permitted new run needs
  neither a human nor a replan, a replan needs a human, and a higher count never relaxes a decision.
\<close>

locale matrix_row =
  fixes c :: string and row :: "int \<Rightarrow> bool \<Rightarrow> recovery_decision"
  assumes own_class: "rd_class (row n u) = c"
    and retryable_iff: "rd_retryable (row n u) = rd_allow_new_worker_run (row n u)"
    and allow_unattended: "rd_allow_new_worker_run (row n u) \<Longrightarrow> \<not> rd_requires_human (row n u)"
    and replan_attended: "rd_requires_replan (row n u) \<Longrightarrow> rd_requires_human (row n u)"
    and allow_bound: "rd_allow_new_worker_run (row n u) \<Longrightarrow> n < 2 \<or> c = ''SIDE_EFFECT_UNKNOWN'' \<and> \<not> u"
    and human_mono: "rd_requires_human (row n u) \<Longrightarrow> n \<le> m \<Longrightarrow> rd_requires_human (row m u)"
    and replan_mono: "rd_requires_replan (row n u) \<Longrightarrow> n \<le> m \<Longrightarrow> rd_requires_replan (row m u)"
    and allow_anti: "rd_allow_new_worker_run (row m u) \<Longrightarrow> n \<le> m \<Longrightarrow> rd_allow_new_worker_run (row n u)"
begin

lemma replan_stops: "rd_requires_replan (row n u) \<Longrightarrow> n \<le> m \<Longrightarrow> \<not> rd_allow_new_worker_run (row m u)"
  using replan_attended replan_mono allow_unattended by blast

end

interpretation ctx: matrix_row "''CONTEXT_FAILURE''" row_context
  by unfold_locales (simp_all add: row_defs thresholds)
interpretation pln: matrix_row "''PLANNING_FAILURE''" row_planning
  by unfold_locales (simp_all add: row_defs thresholds)
interpretation rou: matrix_row "''ROUTING_FAILURE''" row_routing
  by unfold_locales (simp_all add: row_defs thresholds)
interpretation aut: matrix_row "''AUTHORIZATION_FAILURE''" row_authorization
  by unfold_locales (simp_all add: row_defs thresholds)
interpretation envr: matrix_row "''ENVIRONMENT_FAILURE''" row_environment
  by unfold_locales (simp_all add: row_defs thresholds)
interpretation wrk: matrix_row "''WORKER_FAILURE''" row_worker
  by unfold_locales (simp_all add: row_defs thresholds)
interpretation tool: matrix_row "''TOOL_FAILURE''" row_tool
  by unfold_locales (simp_all add: row_defs thresholds)
interpretation mrg: matrix_row "''MERGE_CONFLICT''" row_merge
  by unfold_locales (simp_all add: row_defs thresholds)
interpretation scp: matrix_row "''SCOPE_VIOLATION''" row_scope
  by unfold_locales (simp_all add: row_defs thresholds)
interpretation ver: matrix_row "''VERIFICATION_FAILURE''" row_verification
  by unfold_locales (simp_all add: row_defs thresholds)
interpretation wpr: matrix_row "''WRONG_PRODUCT''" row_wrong_product
  by unfold_locales (simp_all add: row_defs thresholds)
interpretation spc: matrix_row "''SPECIFICATION_FAILURE''" row_specification
  by unfold_locales (simp_all add: row_defs thresholds)
interpretation res: matrix_row "''RESOURCE_EXHAUSTION''" row_resource
  by unfold_locales (simp_all add: row_defs thresholds)
interpretation unk: matrix_row "''SIDE_EFFECT_UNKNOWN''" row_unknown
  by unfold_locales (simp_all add: row_defs thresholds)
interpretation drf: matrix_row "''DRIFT_FAILURE''" row_drift
  by unfold_locales (simp_all add: row_defs thresholds)
interpretation stp: matrix_row "''INTENTIONALLY_STOPPED''" row_intentionally_stopped
  by unfold_locales (simp_all add: row_defs thresholds)

lemma ROW_rows: "list_all (\<lambda>(c, row). matrix_row c row) ROW"
  by (simp add: ROW_def ctx.matrix_row_axioms pln.matrix_row_axioms rou.matrix_row_axioms aut.matrix_row_axioms
    envr.matrix_row_axioms wrk.matrix_row_axioms tool.matrix_row_axioms mrg.matrix_row_axioms scp.matrix_row_axioms
    ver.matrix_row_axioms wpr.matrix_row_axioms spc.matrix_row_axioms res.matrix_row_axioms unk.matrix_row_axioms
    drf.matrix_row_axioms stp.matrix_row_axioms)

lemma ROW_row: "dict_get ROW c = Some row \<Longrightarrow> matrix_row c row"
  using ROW_rows by (auto simp: list_all_iff dest: map_of_SomeD)

lemma ROW_keys: "set (dict_keys ROW) = set FAILURE_CLASSES"
  by (simp add: ROW_def FAILURE_CLASSES_def)

lemma alias_targets: "list_all (\<lambda>c. c \<in> set FAILURE_CLASSES) (dict_values FAILURE_CLASS_ALIASES)"
  by code_simp

lemma canonical_known:
  assumes "canonical_failure_class raw = Inr c"
  shows "c \<in> set FAILURE_CLASSES"
  using assms alias_targets
  by (auto simp: canonical_failure_class_def list_all_iff split: if_splits option.splits dest!: dict_get_value)

lemma canonical_total:
  "(\<exists>c. canonical_failure_class raw = Inr c) \<longleftrightarrow>
    strip raw \<in> set FAILURE_CLASSES \<union> set (dict_keys FAILURE_CLASS_ALIASES)"
  by (auto simp: canonical_failure_class_def dict_get_None split: option.splits dest: dict_get_key)

lemma known_has_row: "c \<in> set FAILURE_CLASSES \<Longrightarrow> \<exists>row. dict_get ROW c = Some row"
  using ROW_keys dict_get_None by (metis not_None_eq)

lemma decide_row:
  assumes "1 \<le> n" and "canonical_failure_class raw = Inr c"
  obtains row where "matrix_row c row" and "\<And>m u. 1 \<le> m \<Longrightarrow> decide raw m u = Inr (row m u)"
proof -
  obtain row where row: "dict_get ROW c = Some row" using known_has_row [OF canonical_known [OF assms(2)]] by blast
  show thesis by (rule that [OF ROW_row [OF row]]) (simp add: decide_def assms(2) row)
qed

lemma decide_InrD:
  assumes "decide raw n u = Inr d"
  obtains c where "1 \<le> n" and "canonical_failure_class raw = Inr c"
  using assms by (auto simp: decide_def split: if_splits sum.splits)

lemma classify_each_lookup:
  "classify_each f ks ds xs = (ds', xs') \<Longrightarrow>
    dict_get ds' k = (if k \<in> set ks then Some (fst (f k)) else dict_get ds k)
    \<and> (snd (f k) = None \<longrightarrow> dict_get xs' k = dict_get xs k)
    \<and> (\<forall>t. snd (f k) = Some t \<longrightarrow> dict_get xs' k = (if k \<in> set ks then Some t else dict_get xs k))"
proof (induction f ks ds xs rule: classify_each.induct)
  case (2 f a ks ds xs)
  obtain d x where fa: "f a = (d, x)" by force
  from 2(1) [OF fa [symmetric]] 2(2) fa show ?case
    by (cases x) (auto simp: dict_simps)
qed simp

lemma classify_dispositions_lookup:
  assumes "classify_dispositions ks st fl co ig tr rt = (ds, xs)"
  shows "dict_get ds k = (if k \<in> set ks
      then Some (fst (classify_task st fl co ig tr (case rt of None \<Rightarrow> [] | Some r \<Rightarrow> r) k)) else None)"
    and "k \<in> set ks \<Longrightarrow> dict_get xs k = snd (classify_task st fl co ig tr (case rt of None \<Rightarrow> [] | Some r \<Rightarrow> r) k)"
  using classify_each_lookup [OF assms [unfolded classify_dispositions_def Let_def], of k]
  by (auto split: if_splits option.splits)

section \<open>Properties\<close>

text \<open>
  C28. The matrix decides every failure it knows and nothing else: a decision exists exactly for a positive
  count and a class or alias of the taxonomy. Automatic recovery is bounded: a new worker run is permitted
  only on the first failure of a class, unless it is a side effect that has been reconciled. It never
  needs a human or a replan, and no later failure of the class relaxes what an earlier one required.
\<close>

theorem recovery_bounded:
  "((\<exists>d. decide raw n u = Inr d) \<longleftrightarrow>
      1 \<le> n \<and> strip raw \<in> set FAILURE_CLASSES \<union> set (dict_keys FAILURE_CLASS_ALIASES))
   \<and> (\<forall>d. decide raw n u = Inr d \<longrightarrow>
      canonical_failure_class raw = Inr (rd_class d)
      \<and> (rd_allow_new_worker_run d \<longrightarrow> n = 1 \<or> rd_class d = ''SIDE_EFFECT_UNKNOWN'' \<and> \<not> u)
      \<and> (rd_allow_new_worker_run d \<longrightarrow> rd_retryable d \<and> \<not> rd_requires_human d \<and> \<not> rd_requires_replan d)
      \<and> (\<forall>m d'. n \<le> m \<and> decide raw m u = Inr d' \<longrightarrow>
          (rd_requires_human d \<longrightarrow> rd_requires_human d') \<and> (rd_requires_replan d \<longrightarrow> rd_requires_replan d')
          \<and> (rd_allow_new_worker_run d' \<longrightarrow> rd_allow_new_worker_run d)))"
proof (intro conjI allI impI)
  show "(\<exists>d. decide raw n u = Inr d) \<longleftrightarrow>
      1 \<le> n \<and> strip raw \<in> set FAILURE_CLASSES \<union> set (dict_keys FAILURE_CLASS_ALIASES)"
    by (metis canonical_total decide_InrD decide_row)
next
  fix d
  assume d: "decide raw n u = Inr d"
  then obtain c where c: "1 \<le> n" "canonical_failure_class raw = Inr c" by (rule decide_InrD)
  then obtain row where row: "matrix_row c row" and dec: "\<And>m u. 1 \<le> m \<Longrightarrow> decide raw m u = Inr (row m u)"
    by (rule decide_row) blast
  have dr: "d = row n u" using dec [OF c(1)] d by simp
  show "canonical_failure_class raw = Inr (rd_class d)" using c(2) dr matrix_row.own_class [OF row] by simp
  { assume a: "rd_allow_new_worker_run d"
    show "n = 1 \<or> rd_class d = ''SIDE_EFFECT_UNKNOWN'' \<and> \<not> u"
      using matrix_row.allow_bound [OF row, of n u] a c(1) dr matrix_row.own_class [OF row, of n u] by auto
    show "rd_retryable d" "\<not> rd_requires_human d" "\<not> rd_requires_replan d"
      using a dr matrix_row.retryable_iff [OF row] matrix_row.allow_unattended [OF row]
        matrix_row.replan_attended [OF row] by blast+ }
  { fix m d' assume m: "n \<le> m \<and> decide raw m u = Inr d'"
    then have d': "d' = row m u" using dec [of m u] c(1) by simp
    show "rd_requires_human d \<Longrightarrow> rd_requires_human d'" "rd_requires_replan d \<Longrightarrow> rd_requires_replan d'"
      "rd_allow_new_worker_run d' \<Longrightarrow> rd_allow_new_worker_run d"
      using m dr d' matrix_row.human_mono [OF row] matrix_row.replan_mono [OF row] matrix_row.allow_anti [OF row]
      by blast+ }
qed

theorem recovery_bounded_witness:
  "(\<exists>d. decide '' WORKER_PREPARE_FAILED '' 1 False = Inr d) \<and> \<not> (\<exists>d. decide ''WORKER_FAILURE'' 0 False = Inr d)"
  using recovery_bounded [of "'' WORKER_PREPARE_FAILED ''" 1 False] recovery_bounded [of "''WORKER_FAILURE''" 0 False]
  by (simp add: strip_def is_space_def FAILURE_CLASSES_def FAILURE_CLASS_ALIASES_def)

end
