(* ===== verification/Templates.thy ===== *)
theory Templates
  imports Graphs
begin

text \<open>
  \<open>engine/planning/templates.py\<close>, the registered mission templates: the two graphs a mission can be planned
  into, with the identifiers and times their tasks and edges draw, and the choice among them. Proved here:
  what a template plans has fresh distinct identifiers, joins only its own tasks, has no dependency cycle
  and is well formed for validation.
\<close>

section \<open>Templates\<close>

record planned_graph =
  pg_tasks :: "task list"
  pg_edges :: "task_graph_edge list"
  pg_rationale :: string
  pg_template :: string

definition template_task ::
  "mission \<Rightarrow> uuid \<Rightarrow> string \<Rightarrow> string \<Rightarrow> string \<Rightarrow> string list \<Rightarrow> string list \<Rightarrow> env \<Rightarrow> task \<times> env"
where
  "template_task m gid title intent cls write_scope success_criteria e =
    (let (now, e1) = clock_now e;
         (tid, e2) = uuid7 e1
     in (\<lparr>tk_id = tid, tk_tenant = mi_tenant m, tk_project = mi_project m, tk_mission = mi_id m, tk_graph = gid,
          tk_parent = None, tk_title = title, tk_intent = intent, tk_class = cls,
          tk_requirement_refs = mi_requirement_refs m, tk_feature_refs = [],
          tk_success_criteria = success_criteria, tk_write_scope = write_scope, tk_read_scope = write_scope,
          tk_blast_radius = ''local'', tk_risk_class = ''low'', tk_effort = ''s'',
          tk_autonomy_ceiling = min (mi_autonomy_ceiling m) 3, tk_requires_approval = False,
          tk_profile_ref = Some ''unit'', tk_status = ''CREATED'', tk_lock_version = 1,
          tk_created_at = now, tk_updated_at = now\<rparr>, e2))"

definition template_edge ::
  "mission \<Rightarrow> uuid \<Rightarrow> task \<Rightarrow> task \<Rightarrow> string \<Rightarrow> string option \<Rightarrow> env \<Rightarrow> task_graph_edge \<times> env"
where
  "template_edge m gid source dest ty contract e =
    (let (now, e1) = clock_now e;
         (eid, e2) = uuid7 e1
     in (\<lparr>te_id = eid, te_tenant = mi_tenant m, te_project = mi_project m, te_mission = mi_id m, te_graph = gid,
          te_from = tk_id source, te_to = tk_id dest, te_type = ty, te_contract_ref = contract,
          te_created_at = now, te_updated_at = now\<rparr>, e2))"

definition add_endpoint_template :: "mission \<Rightarrow> uuid \<Rightarrow> env \<Rightarrow> planned_graph \<times> env" where
  "add_endpoint_template m gid e =
    (let (spec, e1) = template_task m gid ''Specify endpoint contract''
           ''Commit the HTTP contract before implementation'' ''specification'' [''schemas/api'']
           [''Endpoint schema committed under schemas/api''] e;
         (impl, e2) = template_task m gid ''Implement endpoint'' (mi_intent m) ''implementation''
           [''engine/gateway''] [''Handler returns the contracted payload''] e1;
         (verify, e3) = template_task m gid ''Verify endpoint'' ''Independently verify the endpoint''
           ''verification'' [''tests/unit''] [''Contract test covers the endpoint''] e2;
         (d1, e4) = template_edge m gid spec impl ''produces_contract_for'' (Some ''schemas/api'') e3;
         (d2, e5) = template_edge m gid spec impl ''depends_on'' None e4;
         (d3, e6) = template_edge m gid impl verify ''depends_on'' None e5;
         (d4, e7) = template_edge m gid verify impl ''verifies'' None e6
     in (\<lparr>pg_tasks = [spec, impl, verify], pg_edges = [d1, d2, d3, d4],
          pg_rationale = ''template:add_endpoint'', pg_template = ''add_endpoint''\<rparr>, e7))"

definition two_branch_template :: "mission \<Rightarrow> uuid \<Rightarrow> env \<Rightarrow> planned_graph \<times> env" where
  "two_branch_template m gid e =
    (let (left, e1) = template_task m gid ''Implement left branch'' ''Independent left-hand work''
           ''implementation'' [''engine/truth''] [''Left branch observable behaviour holds''] e;
         (left_verify, e2) = template_task m gid ''Verify left branch'' ''Verify left-hand work''
           ''verification'' [''tests/unit''] [''Left branch tests pass''] e1;
         (decision, e3) = template_task m gid ''Architecture decision'' ''Human decision for the right branch''
           ''decision'' [''docs/truth''] [''Decision recorded as an EDR''] e2;
         (right, e4) = template_task m gid ''Implement right branch'' ''Work gated on the decision''
           ''implementation'' [''engine/missions''] [''Right branch observable behaviour holds''] e3;
         (right_verify, e5) = template_task m gid ''Verify right branch'' ''Verify right-hand work''
           ''verification'' [''tests/contract''] [''Right branch tests pass''] e4;
         (d1, e6) = template_edge m gid decision right ''blocks_on_decision'' None e5;
         (d2, e7) = template_edge m gid left left_verify ''depends_on'' None e6;
         (d3, e8) = template_edge m gid left_verify left ''verifies'' None e7;
         (d4, e9) = template_edge m gid right right_verify ''depends_on'' None e8;
         (d5, e10) = template_edge m gid right_verify right ''verifies'' None e9
     in (\<lparr>pg_tasks = [left, left_verify, decision, right, right_verify], pg_edges = [d1, d2, d3, d4, d5],
          pg_rationale = ''template:two_independent_branches'', pg_template = ''two_independent_branches''\<rparr>, e10))"

definition TEMPLATES :: "(string, mission \<Rightarrow> uuid \<Rightarrow> env \<Rightarrow> planned_graph \<times> env) dict" where
  "TEMPLATES = [(''add_endpoint'', add_endpoint_template), (''two_independent_branches'', two_branch_template)]"

text \<open>\<open>str.lower\<close> on the characters up to U+00FF: A to Z and the Latin-1 capitals.\<close>

definition lower_char :: "char \<Rightarrow> char" where
  "lower_char c =
    (let n = (of_char c :: nat) in
     if 65 \<le> n \<and> n \<le> 90 \<or> 192 \<le> n \<and> n \<le> 222 \<and> n \<noteq> 215 then char_of (n + 32) else c)"

definition select_template :: "mission \<Rightarrow> string option" where
  "select_template m =
    (let txt = map lower_char (mi_title m @ '' '' @ mi_intent m) in
     if str_contains ''two branch'' txt \<or> str_contains ''independent branch'' txt
     then Some ''two_independent_branches''
     else if str_contains ''endpoint'' txt \<or> str_contains ''/health'' txt \<or> str_contains ''route'' txt
     then Some ''add_endpoint''
     else None)"

section \<open>What a template plans\<close>

lemma acyclic_by_rank:
  assumes "\<And>a b. (a, b) \<in> set E \<Longrightarrow> (f a :: nat) < f b"
  shows "\<nexists>v. (v, v) \<in> (set E)\<^sup>+"
proof -
  have "f a < f b" if "(a, b) \<in> (set E)\<^sup>+" for a b
    using that by (induction rule: trancl_induct) (auto dest: assms)
  then show ?thesis by blast
qed

text \<open>A planned graph: fresh, distinct identifiers, of one mission and graph, closed, acyclic and well formed.\<close>

definition plan_fresh :: "mission \<Rightarrow> uuid \<Rightarrow> env \<Rightarrow> env \<Rightarrow> task list \<Rightarrow> task_graph_edge list \<Rightarrow> bool" where
  "plan_fresh m gid e e' ts es \<longleftrightarrow> ids e' = ids e \<and> drawn_ids e \<subseteq> drawn_ids e'
    \<and> distinct (map tk_id ts) \<and> distinct (map te_id es)
    \<and> tk_id ` set ts \<union> te_id ` set es \<subseteq> drawn_ids e' - drawn_ids e
    \<and> (\<forall>t \<in> set ts. tk_mission t = mi_id m \<and> tk_graph t = gid \<and> tk_status t = ''CREATED'' \<and> tk_lock_version t = 1)
    \<and> (\<forall>d \<in> set es. te_graph d = gid \<and> te_from d \<in> tk_id ` set ts \<and> te_to d \<in> tk_id ` set ts)"

definition plan_shaped :: "mission \<Rightarrow> task list \<Rightarrow> task_graph_edge list \<Rightarrow> bool" where
  "plan_shaped m ts es \<longleftrightarrow> ts \<noteq> [] \<and> (\<nexists>v. (v, v) \<in> (set (dep_pairs es))\<^sup>+)
    \<and> (\<forall>t \<in> set ts. tk_requirement_refs t = mi_requirement_refs m \<and> verification_covered es t
        \<and> (\<forall>approved. mi_requirement_refs m \<noteq> [] \<longrightarrow> set (mi_requirement_refs m) \<subseteq> set approved \<longrightarrow> task_shaped (Some approved) t))"

lemma plan_fresh_closed:
  assumes "plan_fresh m gid e e' ts es"
  shows "closed_graph ts es"
  using assms by (auto simp: plan_fresh_def closed_graph_def dep_pairs_def)

text \<open>What one \<open>_task\<close> or \<open>_edge\<close> call draws and what it fills in.\<close>

definition tasked :: "mission \<Rightarrow> uuid \<Rightarrow> string \<Rightarrow> string list \<Rightarrow> string list \<Rightarrow> env \<Rightarrow> task \<Rightarrow> env \<Rightarrow> bool" where
  "tasked m gid cls ws sc e t e' \<longleftrightarrow> ids e' = ids e \<and> drawn e' = Suc (drawn e) \<and> tk_id t = ids e (drawn e)
    \<and> tk_mission t = mi_id m \<and> tk_graph t = gid \<and> tk_status t = ''CREATED'' \<and> tk_lock_version t = 1
    \<and> tk_requirement_refs t = mi_requirement_refs m \<and> tk_class t = cls \<and> tk_write_scope t = ws
    \<and> tk_success_criteria t = sc \<and> tk_effort t = ''s''"

definition edged :: "uuid \<Rightarrow> task \<Rightarrow> task \<Rightarrow> string \<Rightarrow> env \<Rightarrow> task_graph_edge \<Rightarrow> env \<Rightarrow> bool" where
  "edged gid a b ty e d e' \<longleftrightarrow> ids e' = ids e \<and> drawn e' = Suc (drawn e) \<and> te_id d = ids e (drawn e)
    \<and> te_graph d = gid \<and> te_from d = tk_id a \<and> te_to d = tk_id b \<and> te_type d = ty"

lemma template_tasked: "template_task m gid ti it cls ws sc e = (t, e') \<Longrightarrow> tasked m gid cls ws sc e t e'"
  by (auto simp: template_task_def clock_now_def uuid7_def tasked_def)

lemma template_edged: "template_edge m gid a b ty c e = (d, e') \<Longrightarrow> edged gid a b ty e d e'"
  by (auto simp: template_edge_def clock_now_def uuid7_def edged_def)

lemma add_endpoint_plan:
  assumes "add_endpoint_template m gid e = (pg, e7)"
  obtains (planned) t1 e1 t2 e2 t3 e3 d1 e4 d2 e5 d3 e6 d4 where
    "tasked m gid ''specification'' [''schemas/api''] [''Endpoint schema committed under schemas/api''] e t1 e1"
    "tasked m gid ''implementation'' [''engine/gateway''] [''Handler returns the contracted payload''] e1 t2 e2"
    "tasked m gid ''verification'' [''tests/unit''] [''Contract test covers the endpoint''] e2 t3 e3"
    "edged gid t1 t2 ''produces_contract_for'' e3 d1 e4" "edged gid t1 t2 ''depends_on'' e4 d2 e5"
    "edged gid t2 t3 ''depends_on'' e5 d3 e6" "edged gid t3 t2 ''verifies'' e6 d4 e7"
    "pg_tasks pg = [t1, t2, t3]" "pg_edges pg = [d1, d2, d3, d4]"
  using assms unfolding add_endpoint_template_def Let_def
  by (clarsimp split: prod.splits) (blast dest: template_tasked template_edged)

lemma two_branch_plan:
  assumes "two_branch_template m gid e = (pg, e10)"
  obtains (planned) t1 e1 t2 e2 t3 e3 t4 e4 t5 e5 d1 e6 d2 e7 d3 e8 d4 e9 d5 where
    "tasked m gid ''implementation'' [''engine/truth''] [''Left branch observable behaviour holds''] e t1 e1"
    "tasked m gid ''verification'' [''tests/unit''] [''Left branch tests pass''] e1 t2 e2"
    "tasked m gid ''decision'' [''docs/truth''] [''Decision recorded as an EDR''] e2 t3 e3"
    "tasked m gid ''implementation'' [''engine/missions''] [''Right branch observable behaviour holds''] e3 t4 e4"
    "tasked m gid ''verification'' [''tests/contract''] [''Right branch tests pass''] e4 t5 e5"
    "edged gid t3 t4 ''blocks_on_decision'' e5 d1 e6" "edged gid t1 t2 ''depends_on'' e6 d2 e7"
    "edged gid t2 t1 ''verifies'' e7 d3 e8" "edged gid t4 t5 ''depends_on'' e8 d4 e9"
    "edged gid t5 t4 ''verifies'' e9 d5 e10"
    "pg_tasks pg = [t1, t2, t3, t4, t5]" "pg_edges pg = [d1, d2, d3, d4, d5]"
  using assms unfolding two_branch_template_def Let_def
  by (clarsimp split: prod.splits) (blast dest: template_tasked template_edged)

lemma drawn_between:
  "inj (ids e) \<Longrightarrow> ids e' = ids e \<Longrightarrow> ids e n \<in> drawn_ids e' - drawn_ids e \<longleftrightarrow> drawn e \<le> n \<and> n < drawn e'"
  by (auto simp: drawn_ids_def inj_eq)

lemma plan_by_index:
  assumes "inj (ids e)" and "ids e' = ids e" and "drawn e \<le> drawn e'"
    and "\<forall>t \<in> set ts. tk_mission t = mi_id m \<and> tk_graph t = gid \<and> tk_status t = ''CREATED'' \<and> tk_lock_version t = 1"
    and "\<forall>d \<in> set es. te_graph d = gid \<and> te_from d \<in> tk_id ` set ts \<and> te_to d \<in> tk_id ` set ts"
    and "map tk_id ts = map (ids e) ns" "map te_id es = map (ids e) ks" "distinct ns" "distinct ks"
    and "\<forall>n \<in> set ns \<union> set ks. drawn e \<le> n \<and> n < drawn e'"
  shows "plan_fresh m gid e e' ts es"
proof -
  have "distinct (map tk_id ts)" "distinct (map te_id es)"
    unfolding assms(6,7) using assms(1,8,9) by (auto simp: distinct_map inj_on_def inj_def)
  moreover have "tk_id ` set ts = ids e ` set ns" "te_id ` set es = ids e ` set ks"
    using assms(6,7) by (metis set_map)+
  moreover have "ids e n \<in> drawn_ids e' - drawn_ids e" if "n \<in> set ns \<union> set ks" for n
    unfolding drawn_between [OF assms(1,2)] using assms(10) that by blast
  ultimately have "distinct (map tk_id ts)" "distinct (map te_id es)"
      "tk_id ` set ts \<union> te_id ` set es \<subseteq> drawn_ids e' - drawn_ids e"
    by auto
  then show ?thesis
    using assms(2-5) drawn_ids_mono [OF assms(2,3)] unfolding plan_fresh_def by blast
qed

lemma plan_shapedI:
  assumes "\<And>a b. (a, b) \<in> set (dep_pairs es) \<Longrightarrow> (f a :: nat) < f b"
    and "\<And>t. t \<in> set ts \<Longrightarrow> tk_requirement_refs t = mi_requirement_refs m"
    and "\<And>t. t \<in> set ts \<Longrightarrow> verification_covered es t"
    and "\<And>t. t \<in> set ts \<Longrightarrow> tk_effort t = ''s'' \<and> length (tk_success_criteria t) = 1 \<and> (\<exists>p. tk_write_scope t = [p])"
    and "ts \<noteq> []"
  shows "plan_shaped m ts es"
  using acyclic_by_rank [of "dep_pairs es" f, OF assms(1)] assms(2-5)
  unfolding plan_shaped_def task_shaped_def by fastforce

lemma add_endpoint_template_ok:
  assumes "inj (ids e)" and "add_endpoint_template m gid e = (pg, e')"
  shows "plan_fresh m gid e e' (pg_tasks pg) (pg_edges pg) \<and> plan_shaped m (pg_tasks pg) (pg_edges pg)"
  using assms(2)
proof (cases rule: add_endpoint_plan)
  case (planned t1 e1 t2 e2 t3 e3 d1 e4 d2 e5 d3 e6 d4)
  let ?n = "drawn e"
  note f = planned [unfolded tasked_def edged_def]
  have "plan_fresh m gid e e' (pg_tasks pg) (pg_edges pg)"
    by (rule plan_by_index [OF assms(1), where ns = "[?n, ?n + 1, ?n + 2]" and ks = "[?n + 3, ?n + 4, ?n + 5, ?n + 6]"])
      (use f in \<open>simp_all add: eval_nat_numeral\<close>)
  moreover have "plan_shaped m (pg_tasks pg) (pg_edges pg)"
    by (rule plan_shapedI [where f = "inv (ids e)"])
      (use f in \<open>auto simp: dep_pairs_def DEPENDENCY_EDGES_def verification_covered_def inv_f_f [OF assms(1)]\<close>)
  ultimately show ?thesis ..
qed

lemma two_branch_template_ok:
  assumes "inj (ids e)" and "two_branch_template m gid e = (pg, e')"
  shows "plan_fresh m gid e e' (pg_tasks pg) (pg_edges pg) \<and> plan_shaped m (pg_tasks pg) (pg_edges pg)"
  using assms(2)
proof (cases rule: two_branch_plan)
  case (planned t1 e1 t2 e2 t3 e3 t4 e4 t5 e5 d1 e6 d2 e7 d3 e8 d4 e9 d5)
  let ?n = "drawn e"
  note f = planned [unfolded tasked_def edged_def]
  have "plan_fresh m gid e e' (pg_tasks pg) (pg_edges pg)"
    by (rule plan_by_index [OF assms(1), where ns = "[?n, ?n + 1, ?n + 2, ?n + 3, ?n + 4]"
        and ks = "[?n + 5, ?n + 6, ?n + 7, ?n + 8, ?n + 9]"])
      (use f in \<open>simp_all add: eval_nat_numeral\<close>)
  moreover have "plan_shaped m (pg_tasks pg) (pg_edges pg)"
    by (rule plan_shapedI [where f = "inv (ids e)"])
      (use f in \<open>auto simp: dep_pairs_def DEPENDENCY_EDGES_def verification_covered_def inv_f_f [OF assms(1)]\<close>)
  ultimately show ?thesis ..
qed

lemma template_plans:
  assumes "dict_get TEMPLATES c = Some template" and "inj (ids e)" and "template m gid e = (pg, e')"
  shows "plan_fresh m gid e e' (pg_tasks pg) (pg_edges pg)" and "plan_shaped m (pg_tasks pg) (pg_edges pg)"
  using assms add_endpoint_template_ok [OF assms(2)] two_branch_template_ok [OF assms(2)]
  by (auto simp: TEMPLATES_def split: if_splits)

end
