(* ===== verification/Planner.thy ===== *)
theory Planner
  imports Templates Recovery
begin

text \<open>
  \<open>engine/planning/planner.py\<close>, the template-mode task planner: planning a mission from a registered or a
  durable template, validation, amendment, scheduling and replanning. The planner works on the mission kernel's store, so its operations
  act on the same world and draw identifiers and times from the same environment.
\<close>

section \<open>Planning\<close>

definition PLANNER_POLICY_VERSION :: string where "PLANNER_POLICY_VERSION = ''template-v1''"

definition DEFAULT_MISSION_CONCURRENCY :: int where "DEFAULT_MISSION_CONCURRENCY = 4"

definition draft_graph :: "mission \<Rightarrow> uuid \<Rightarrow> string \<Rightarrow> string \<Rightarrow> uuid \<Rightarrow> time \<Rightarrow> task_graph" where
  "draft_graph m gid rationale digest created_by now =
    \<lparr>tg_id = gid, tg_tenant = mi_tenant m, tg_project = mi_project m, tg_mission = mi_id m, tg_version = 1,
     tg_supersedes = None, tg_status = ''DRAFT'', tg_planning_mode = ''template'',
     tg_policy_version = PLANNER_POLICY_VERSION, tg_rationale = rationale, tg_open_questions = [],
     tg_hash = digest, tg_created_by = created_by, tg_lock_version = 1, tg_created_at = now, tg_updated_at = now\<rparr>"

definition put_graph :: "task_graph \<Rightarrow> task list \<Rightarrow> task_graph_edge list \<Rightarrow> world \<Rightarrow> world" where
  "put_graph g ts es w =
    w\<lparr>graphs := dict_set (tg_id g) g (graphs w),
      tasks := foldl (\<lambda>d t. dict_set (tk_id t) t d) (tasks w) ts,
      edges := foldl (\<lambda>d e. dict_set (te_id e) e d) (edges w) es\<rparr>"

definition missing_refs :: "mission \<Rightarrow> string list \<Rightarrow> string list" where
  "missing_refs m approved = filter (\<lambda>r. r \<notin> set approved) (mi_requirement_refs m)"

definition missing_error :: "mission \<Rightarrow> string list \<Rightarrow> dde_error" where
  "missing_error m approved =
    DdeError ''GRAPH_INVALID'' ''Mission requirement refs are not approved Project Truth'' False
      [(''missing'', JList (map JStr (missing_refs m approved)))]"

definition chosen_template ::
  "mission \<Rightarrow> string option \<Rightarrow> (mission \<Rightarrow> uuid \<Rightarrow> env \<Rightarrow> planned_graph \<times> env) option"
where
  "chosen_template m template_id =
    (case (case template_id of Some (c # cs) \<Rightarrow> Some (c # cs) | _ \<Rightarrow> select_template m) of
       None \<Rightarrow> None | Some c \<Rightarrow> dict_get TEMPLATES c)"

definition plan :: "mission \<Rightarrow> string list \<Rightarrow> uuid \<Rightarrow> string option \<Rightarrow> world \<Rightarrow> task_graph result \<times> world" where
  "plan m approved created_by template_id w =
    (case chosen_template m template_id of
       None \<Rightarrow> (Inl (DdeError ''DECOMPOSITION_REQUIRED'' ''No registered mission template matches this mission'' False []), w)
     | Some template \<Rightarrow>
         if missing_refs m approved \<noteq> [] then (Inl (missing_error m approved), w)
         else
           let (gid, e1) = uuid7 (outside w);
               (planned, e2) = template m gid e1
           in (case graph_hash (pg_tasks planned) (pg_edges planned) of
                 Inl err \<Rightarrow> (Inl err, w\<lparr>outside := e2\<rparr>)
               | Inr digest \<Rightarrow>
                   let (now, e3) = clock_now e2;
                       g = draft_graph m gid (pg_rationale planned) digest created_by now
                   in (Inr g, put_graph g (pg_tasks planned) (pg_edges planned) (w\<lparr>outside := e3\<rparr>))))"

subsection \<open>Durable templates\<close>

record template_node =
  tn_key :: string
  tn_title :: string
  tn_intent :: string
  tn_class :: string
  tn_parent_key :: "string option"
  tn_write_scope :: "string list"
  tn_read_scope :: "string list option"
  tn_success_criteria :: "string list"
  tn_effort :: string
  tn_blast_radius :: "string option"
  tn_risk_class :: "string option"

record template_link =
  tl_from :: string
  tl_to :: string
  tl_type :: string
  tl_contract_ref :: "string option"

record mission_template =
  mt_id :: uuid
  mt_tenant :: uuid
  mt_project :: uuid
  mt_key :: string
  mt_version :: string
  mt_description :: string
  mt_nodes :: "template_node list"
  mt_edges :: "template_link list"
  mt_status :: string
  mt_policy_version :: string
  mt_created_by :: string
  mt_created_at :: time
  mt_updated_at :: time

definition py_or :: "string option \<Rightarrow> string \<Rightarrow> string" where
  "py_or x d = (case x of Some (c # cs) \<Rightarrow> c # cs | _ \<Rightarrow> d)"

definition node_task :: "mission \<Rightarrow> uuid \<Rightarrow> time \<Rightarrow> template_node \<Rightarrow> uuid \<Rightarrow> task" where
  "node_task m gid now n tid =
    \<lparr>tk_id = tid, tk_tenant = mi_tenant m, tk_project = mi_project m, tk_mission = mi_id m, tk_graph = gid,
     tk_parent = None, tk_title = tn_title n, tk_intent = tn_intent n, tk_class = tn_class n,
     tk_requirement_refs = mi_requirement_refs m, tk_feature_refs = [],
     tk_success_criteria = tn_success_criteria n, tk_write_scope = tn_write_scope n,
     tk_read_scope = (case tn_read_scope n of Some (p # ps) \<Rightarrow> p # ps | _ \<Rightarrow> tn_write_scope n),
     tk_blast_radius = py_or (tn_blast_radius n) ''local'', tk_risk_class = py_or (tn_risk_class n) ''low'',
     tk_effort = tn_effort n, tk_autonomy_ceiling = min (mi_autonomy_ceiling m) 3,
     tk_requires_approval = False, tk_profile_ref = Some ''unit'', tk_status = ''CREATED'',
     tk_lock_version = 1, tk_created_at = now, tk_updated_at = now\<rparr>"

text \<open>
  The loop over the nodes. \<open>by_key\<close> and \<open>tasks\<close> share the task objects; the model keeps the objects in the
  list and the identifier, which is new for every object, in the dictionary.
\<close>

fun node_tasks ::
  "mission \<Rightarrow> uuid \<Rightarrow> time \<Rightarrow> template_node list \<Rightarrow> (string, uuid) dict \<Rightarrow> env \<Rightarrow> (string, uuid) dict \<times> task list \<times> env"
where
  "node_tasks m gid now [] by_key e = (by_key, [], e)"
| "node_tasks m gid now (n # ns) by_key e =
    (let (tid, e1) = uuid7 e;
         (by_key', ts, e2) = node_tasks m gid now ns (dict_set (tn_key n) tid by_key) e1
     in (by_key', node_task m gid now n tid # ts, e2))"

text \<open>
  The second loop assigns \<open>parent_task_id\<close> on the shared objects. The key of the node itself is always
  there.
\<close>

fun link_parents ::
  "string \<Rightarrow> (string, uuid) dict \<Rightarrow> template_node list \<Rightarrow> task list \<Rightarrow> task list result"
where
  "link_parents tkey by_key [] ts = Inr ts"
| "link_parents tkey by_key (n # ns) ts =
    (case tn_parent_key n of
       None \<Rightarrow> link_parents tkey by_key ns ts
     | Some pk \<Rightarrow>
         (case dict_get by_key pk of
            None \<Rightarrow> Inl (DdeError ''GRAPH_INVALID'' (''Template parent node key '' @ pk @ '' unknown'') False
              [(''template_key'', JStr tkey)])
          | Some parent \<Rightarrow>
              (case dict_get by_key (tn_key n) of
                 None \<Rightarrow> Inl (KeyError (tn_key n))
               | Some tid \<Rightarrow> link_parents tkey by_key ns
                   (map (\<lambda>t. if tk_id t = tid then t\<lparr>tk_parent := Some parent\<rparr> else t) ts))))"

fun link_edges ::
  "mission \<Rightarrow> uuid \<Rightarrow> time \<Rightarrow> (string, uuid) dict \<Rightarrow> template_link list \<Rightarrow> env \<Rightarrow> task_graph_edge list result \<times> env"
where
  "link_edges m gid now by_key [] e = (Inr [], e)"
| "link_edges m gid now by_key (l # ls) e =
    (case dict_get by_key (tl_from l) of
       None \<Rightarrow> (Inl (KeyError (tl_from l)), e)
     | Some source \<Rightarrow>
         (case dict_get by_key (tl_to l) of
            None \<Rightarrow> (Inl (KeyError (tl_to l)), e)
          | Some dest \<Rightarrow>
              let (eid, e1) = uuid7 e;
                  edge = \<lparr>te_id = eid, te_tenant = mi_tenant m, te_project = mi_project m, te_mission = mi_id m,
                    te_graph = gid, te_from = source, te_to = dest, te_type = tl_type l,
                    te_contract_ref = tl_contract_ref l, te_created_at = now, te_updated_at = now\<rparr>
              in (case link_edges m gid now by_key ls e1 of
                    (Inl err, e2) \<Rightarrow> (Inl err, e2)
                  | (Inr es, e2) \<Rightarrow> (Inr (edge # es), e2))))"

definition plan_from_template ::
  "mission \<Rightarrow> mission_template \<Rightarrow> string list \<Rightarrow> uuid \<Rightarrow> world \<Rightarrow> task_graph result \<times> world"
where
  "plan_from_template m tpl approved created_by w =
    (if mt_status tpl \<noteq> ''ACTIVE'' then
       (Inl (DdeError ''POLICY_DENIED''
          ''Retired templates never instantiate; re-register a new version instead (Chapter 3.10)'' False
          [(''template_key'', JStr (mt_key tpl)), (''template_version'', JStr (mt_version tpl)),
           (''status'', JStr (mt_status tpl))]), w)
     else if missing_refs m approved \<noteq> [] then (Inl (missing_error m approved), w)
     else
       let (gid, e1) = uuid7 (outside w);
           (now, e2) = clock_now e1;
           (by_key, ts, e3) = node_tasks m gid now (mt_nodes tpl) [] e2
       in (case link_parents (mt_key tpl) by_key (mt_nodes tpl) ts of
             Inl err \<Rightarrow> (Inl err, w\<lparr>outside := e3\<rparr>)
           | Inr ts' \<Rightarrow>
               (case link_edges m gid now by_key (mt_edges tpl) e3 of
                  (Inl err, e4) \<Rightarrow> (Inl err, w\<lparr>outside := e4\<rparr>)
                | (Inr es, e4) \<Rightarrow>
                    (case graph_hash ts' es of
                       Inl err \<Rightarrow> (Inl err, w\<lparr>outside := e4\<rparr>)
                     | Inr digest \<Rightarrow>
                         let g = draft_graph m gid (''template:'' @ mt_key tpl @ ''@'' @ py_take 16 (mt_version tpl))
                               digest created_by now
                         in (Inr g, put_graph g ts' es (w\<lparr>outside := e4\<rparr>))))))"

section \<open>Graph states\<close>

text \<open>\<open>model_copy\<close> with the next status, the next lock version and a clock reading, written back.\<close>

definition graph_at :: "task_graph \<Rightarrow> string \<Rightarrow> time \<Rightarrow> task_graph" where
  "graph_at g st now = g\<lparr>tg_status := st, tg_lock_version := tg_lock_version g + 1, tg_updated_at := now\<rparr>"

definition put_status :: "uuid \<Rightarrow> task_graph \<Rightarrow> string \<Rightarrow> world \<Rightarrow> task_graph result \<times> world" where
  "put_status gid g target w =
    (case transition (tg_status g) target GRAPH_TRANSITIONS of
       Inl err \<Rightarrow> (Inl err, w)
     | Inr st \<Rightarrow>
         let (now, w1) = now_w w; g' = graph_at g st now
         in (Inr g', w1\<lparr>graphs := dict_set gid g' (graphs w1)\<rparr>))"

text \<open>The same with the clock read first, as \<open>validate\<close> and \<open>amend\<close> begin.\<close>

definition put_status_at :: "uuid \<Rightarrow> task_graph \<Rightarrow> string \<Rightarrow> world \<Rightarrow> task_graph result \<times> world" where
  "put_status_at gid g target w =
    (let (now, w1) = now_w w in
     case transition (tg_status g) target GRAPH_TRANSITIONS of
       Inl err \<Rightarrow> (Inl err, w1)
     | Inr st \<Rightarrow> (Inr (graph_at g st now), w1\<lparr>graphs := dict_set gid (graph_at g st now) (graphs w1)\<rparr>))"

definition validate :: "uuid \<Rightarrow> string list \<Rightarrow> world \<Rightarrow> validation_report result \<times> world" where
  "validate gid approved w =
    (case require_graph gid w of
       Inl err \<Rightarrow> (Inl err, w)
     | Inr g0 \<Rightarrow>
         and_then (if tg_status g0 = ''DRAFT'' then put_status_at gid g0 ''VALIDATING'' else Pair (Inr g0))
           (\<lambda>g w1.
              case validate_graph (tasks_for_graph w1 gid) (edges_for_graph w1 gid) (Some (tg_hash g)) (Some approved) of
                Inl err \<Rightarrow> (Inl err, w1)
              | Inr report \<Rightarrow>
                  and_then (put_status gid g (if vr_valid report then ''APPROVED'' else ''REJECTED''))
                    (\<lambda>_. Pair (Inr report)) w1) w)"

record graph_amendment =
  ga_id :: uuid
  ga_graph :: uuid
  ga_proposed_by :: string
  ga_type :: string
  ga_justification :: string
  ga_evidence_refs :: "string list"
  ga_affected :: "uuid list"
  ga_write_scope :: "string list"

fun retire_tasks :: "uuid list \<Rightarrow> world \<Rightarrow> unit result \<times> world" where
  "retire_tasks [] w = (Inr (), w)"
| "retire_tasks (k # ks) w =
    (case dict_get (tasks w) k of
       None \<Rightarrow> (Inl (KeyError k), w)
     | Some t \<Rightarrow> and_then (transition_task k ''RETIRED'' (tk_lock_version t)) (\<lambda>_. retire_tasks ks) w)"

definition amend :: "uuid \<Rightarrow> graph_amendment \<Rightarrow> mission \<Rightarrow> string \<Rightarrow> world \<Rightarrow> task_graph result \<times> world" where
  "amend gid am m reason w =
    (case require_graph gid w of
       Inl err \<Rightarrow> (Inl err, w)
     | Inr g \<Rightarrow>
         let extra = filter (\<lambda>p. \<not> in_scope p (mi_scope m)) (ga_write_scope am) in
         if ga_type am = ''widen_scope'' \<and> extra \<noteq> [] then
           (Inl (DdeError ''SCOPE_VIOLATION'' ''Out-of-scope amendment denied'' False
              [(''paths'', JList (map JStr extra)), (''reason'', JStr reason)]), w)
         else
           and_then (put_status_at gid g ''AMENDING'')
             (\<lambda>amending.
               and_then (if ga_type am = ''retire_task'' then retire_tasks (ga_affected am) else Pair (Inr ()))
                 (\<lambda>_. put_status gid amending ''ACTIVE'')) w)"

section \<open>Scheduling\<close>

fun schedule_loop ::
  "task list \<Rightarrow> task_graph_edge list \<Rightarrow> nat \<Rightarrow> int \<Rightarrow> task list \<Rightarrow> string list \<Rightarrow> task list \<Rightarrow> task list result"
where
  "schedule_loop ts es running capacity [] held ready = Inr ready"
| "schedule_loop ts es running capacity (t # rest) held ready =
    (if tk_status t \<notin> {''READY'', ''CREATED''} then schedule_loop ts es running capacity rest held ready
     else case blocked_on_decision t es ts of
       Inl err \<Rightarrow> Inl err
     | Inr True \<Rightarrow> schedule_loop ts es running capacity rest held ready
     | Inr False \<Rightarrow>
         (case ready_predecessors_complete t ts es of
            Inl err \<Rightarrow> Inl err
          | Inr False \<Rightarrow> schedule_loop ts es running capacity rest held ready
          | Inr True \<Rightarrow>
              if scopes_overlap (tk_write_scope t) held
                \<or> list_ex (\<lambda>chosen. scopes_overlap (tk_write_scope t) (tk_write_scope chosen)) ready
              then schedule_loop ts es running capacity rest held ready
              else if capacity \<le> int (running + length (ready @ [t])) then Inr (ready @ [t])
              else schedule_loop ts es running capacity rest (held @ tk_write_scope t) (ready @ [t])))"

definition running_tasks :: "task list option \<Rightarrow> task list \<Rightarrow> task list" where
  "running_tasks in_flight ts =
    (case in_flight of Some (r # rs) \<Rightarrow> r # rs | _ \<Rightarrow> filter (\<lambda>t. tk_status t \<in> set IN_FLIGHT_TASK) ts)"

definition schedule :: "uuid \<Rightarrow> int \<Rightarrow> task list option \<Rightarrow> world \<Rightarrow> task list result" where
  "schedule gid capacity in_flight w =
    (let ts = tasks_for_graph w gid;
         es = edges_for_graph w gid;
         running = running_tasks in_flight ts;
         held = concat (map tk_write_scope running)
     in schedule_loop ts es (length running) capacity (sort_key tk_id ts) held [])"

section \<open>Replanning\<close>

record replan_decision =
  rp_graph :: uuid
  rp_trigger :: string
  rp_dispositions :: "(string, string) dict"
  rp_explanations :: "(string, string) dict"

definition replan ::
  "uuid \<Rightarrow> string \<Rightarrow> uuid list \<Rightarrow> (uuid, string) dict \<Rightarrow> world \<Rightarrow> replan_decision result \<times> world"
where
  "replan gid trigger unknown_effects in_flight_state w =
    (let ts = tasks_for_graph w gid;
         affected = dict_keys in_flight_state @ map tk_id ts
     in if list_ex (\<lambda>k. k \<in> set affected) unknown_effects then
          (Inl (DdeError ''EFFECT_UNKNOWN''
             ''Replanning refused until unreconciled external effects are resolved'' False []), w)
        else case require_graph gid w of
          Inl err \<Rightarrow> (Inl err, w)
        | Inr g \<Rightarrow>
            and_then (put_status gid g ''REPLANNING'')
              (\<lambda>_ w1.
                let finished = map tk_id (filter (\<lambda>t. tk_status t = ''COMPLETED'') ts);
                    (dispositions, explanations) = classify_dispositions (map tk_id ts)
                      (foldl (\<lambda>d t. dict_set (tk_id t) (tk_status t) d) [] ts)
                      (dict_keys in_flight_state) finished finished trigger None
                in case dict_get (graphs w1) gid of
                     None \<Rightarrow> (Inl (KeyError gid), w1)
                   | Some g1 \<Rightarrow>
                       and_then (put_status gid g1 ''SUPERSEDED'')
                         (\<lambda>_. Pair (Inr \<lparr>rp_graph = gid, rp_trigger = trigger,
                           rp_dispositions = dispositions, rp_explanations = explanations\<rparr>)) w1) w)"

definition independent_progress_possible :: "uuid \<Rightarrow> uuid \<Rightarrow> world \<Rightarrow> bool" where
  "independent_progress_possible gid blocked w =
    (let blocked_dependents = dependents blocked (edges_for_graph w gid) in
     list_ex (\<lambda>t. \<not> (tk_id t = blocked \<or> tk_id t \<in> set blocked_dependents)
       \<and> tk_status t \<notin> {''COMPLETED'', ''RETIRED'', ''SUPERSEDED''}) (tasks_for_graph w gid))"

section \<open>Writing a plan\<close>

lemma world_ok_outside:
  assumes "world_ok w" and "env_le (outside w) e"
  shows "world_ok (w\<lparr>outside := e\<rparr>)"
  using assms env_le_drawn [OF assms(2)] unfolding env_le_def
  by (auto simp: world_ok_def store_ok_def outside_ok_def used_ids_def sourced_def mission_sourced_def mission_events_def)

lemma world_ok_put_tasks:
  assumes "world_ok w" and "\<forall>t \<in> set ts. tk_id t \<in> drawn_ids (outside w) \<and> tk_mission t \<in> set (dict_keys (missions w))"
  shows "world_ok (w\<lparr>tasks := foldl (\<lambda>d t. dict_set (tk_id t) t d) (tasks w) ts\<rparr>)"
  using assms
proof (induction ts arbitrary: w)
  case (Cons t ts)
  have "world_ok (w\<lparr>tasks := dict_set (tk_id t) t (tasks w)\<rparr>)"
    by (rule world_ok_task_set [OF Cons.prems(1) refl]) (use Cons.prems(2) in auto)
  from Cons.IH [OF this] Cons.prems(2) show ?case by simp
qed simp

lemma world_ok_put_edges:
  assumes "world_ok w" and "\<forall>d \<in> set es. te_id d \<in> drawn_ids (outside w)"
  shows "world_ok (w\<lparr>edges := foldl (\<lambda>m d. dict_set (te_id d) d m) (edges w) es\<rparr>)"
  using assms
proof (induction es arbitrary: w)
  case (Cons d es)
  have "world_ok (w\<lparr>edges := dict_set (te_id d) d (edges w)\<rparr>)"
    by (rule world_ok_edge_set [OF Cons.prems(1) refl]) (use Cons.prems(2) in auto)
  from Cons.IH [OF this] Cons.prems(2) show ?case by simp
qed simp

lemma world_ok_put_graph:
  assumes "world_ok w" and "tg_id g \<in> drawn_ids (outside w)"
    and "\<forall>t \<in> set ts. tk_id t \<in> drawn_ids (outside w) \<and> tk_mission t \<in> set (dict_keys (missions w))"
    and "\<forall>d \<in> set es. te_id d \<in> drawn_ids (outside w)"
  shows "world_ok (put_graph g ts es w)"
proof -
  let ?w1 = "w\<lparr>graphs := dict_set (tg_id g) g (graphs w)\<rparr>"
  let ?w2 = "?w1\<lparr>tasks := foldl (\<lambda>d t. dict_set (tk_id t) t d) (tasks ?w1) ts\<rparr>"
  have "world_ok ?w1" by (rule world_ok_graph_set [OF assms(1) refl assms(2)])
  then have "world_ok ?w2" by (rule world_ok_put_tasks) (use assms(3) in simp)
  then have "world_ok (?w2\<lparr>edges := foldl (\<lambda>m d. dict_set (te_id d) d m) (edges ?w2) es\<rparr>)"
    by (rule world_ok_put_edges) (use assms(4) in simp)
  then show ?thesis by (simp add: put_graph_def)
qed

lemma foldl_put_new:
  "distinct (map f vs) \<Longrightarrow> f ` set vs \<inter> set (dict_keys d) = {} \<Longrightarrow>
    foldl (\<lambda>d v. dict_set (f v) v d) d vs = d @ map (\<lambda>v. (f v, v)) vs"
proof (induction vs arbitrary: d)
  case (Cons v vs)
  have "f v \<notin> set (dict_keys d)" using Cons.prems(2) by auto
  then have set: "dict_set (f v) v d = d @ [(f v, v)]" by (rule dict_set_new)
  show ?case using Cons.IH [of "d @ [(f v, v)]"] Cons.prems by (auto simp: set)
qed simp

text \<open>The result of planning, whichever template the tasks come from.\<close>

definition planned_into :: "mission \<Rightarrow> world \<Rightarrow> task_graph \<Rightarrow> task list \<Rightarrow> task_graph_edge list \<Rightarrow> env \<Rightarrow> bool" where
  "planned_into m w g ts es e' \<longleftrightarrow> plan_fresh m (tg_id g) (snd (uuid7 (outside w))) e' ts es
    \<and> tg_id g = fst (uuid7 (outside w)) \<and> graph_hash ts es = Inr (tg_hash g) \<and> tg_mission g = mi_id m
    \<and> tg_status g = ''DRAFT'' \<and> tg_lock_version g = 1"

lemma plan_fresh_tick:
  "plan_fresh m gid e e1 ts es \<Longrightarrow> ids e2 = ids e1 \<Longrightarrow> drawn_ids e2 = drawn_ids e1 \<Longrightarrow> plan_fresh m gid e e2 ts es"
  by (simp add: plan_fresh_def)

lemma draft_graph_simps [simp]:
  "tg_id (draft_graph m gid r h by now) = gid" "tg_hash (draft_graph m gid r h by now) = h"
  "tg_mission (draft_graph m gid r h by now) = mi_id m" "tg_status (draft_graph m gid r h by now) = ''DRAFT''"
  "tg_lock_version (draft_graph m gid r h by now) = 1"
  by (simp_all add: draft_graph_def)

lemma plan_cases:
  assumes "world_ok w"
  obtains (refused) err where "plan m approved by tid w = (Inl err, w)"
      "chosen_template m tid = None \<or> \<not> set (mi_requirement_refs m) \<subseteq> set approved"
  | (planned) g ts es e' where "plan m approved by tid w = (Inr g, put_graph g ts es (w\<lparr>outside := e'\<rparr>))"
      "planned_into m w g ts es e'" "plan_shaped m ts es" "set (mi_requirement_refs m) \<subseteq> set approved"
proof (cases "chosen_template m tid")
  case None
  then show thesis by (intro refused) (simp_all add: plan_def)
next
  case (Some template)
  then obtain c where tpl: "dict_get TEMPLATES c = Some template"
    by (auto simp: chosen_template_def split: option.splits)
  obtain gid e1 where id: "uuid7 (outside w) = (gid, e1)" by force
  obtain pg e2 where pg: "template m gid e1 = (pg, e2)" by force
  have "inj (ids e1)" using world_okD(6) [OF assms] ids_uuid7 [of "outside w"] id by simp
  note tp = template_plans [OF tpl this pg]
  obtain h where h: "graph_hash (pg_tasks pg) (pg_edges pg) = Inr h"
    using graph_hash_total [OF plan_fresh_closed [OF tp(1)]] by blast
  obtain now e3 where now: "clock_now e2 = (now, e3)" by force
  let ?g = "draft_graph m gid (pg_rationale pg) h by now"
  have fresh: "plan_fresh m gid e1 e3 (pg_tasks pg) (pg_edges pg)"
    using clock_now_frame [of e2] now by (intro plan_fresh_tick [OF tp(1)]) simp_all
  have miss: "missing_refs m approved = [] \<longleftrightarrow> set (mi_requirement_refs m) \<subseteq> set approved"
    by (auto simp: missing_refs_def filter_empty_conv)
  show thesis
  proof (cases "missing_refs m approved = []")
    case True
    then have "plan m approved by tid w = (Inr ?g, put_graph ?g (pg_tasks pg) (pg_edges pg) (w\<lparr>outside := e3\<rparr>))"
      using Some by (simp add: plan_def id pg h now)
    moreover have "planned_into m w ?g (pg_tasks pg) (pg_edges pg) e3"
      using fresh h id by (simp add: planned_into_def)
    ultimately show thesis using tp(2) True miss by (intro planned) blast+
  next
    case False
    then have "plan m approved by tid w = (Inl (missing_error m approved), w)" using Some by (simp add: plan_def)
    with False miss show thesis by (intro refused) blast+
  qed
qed

lemma node_tasks_drawn:
  "node_tasks m gid now ns bk e = (bk', ts, e') \<Longrightarrow>
    ids e' = ids e \<and> drawn e' = drawn e + length ns \<and> map tk_id ts = map (ids e) [drawn e ..< drawn e + length ns]
    \<and> (\<forall>t \<in> set ts. tk_mission t = mi_id m \<and> tk_graph t = gid \<and> tk_status t = ''CREATED'' \<and> tk_lock_version t = 1)
    \<and> set (dict_values bk') \<subseteq> set (dict_values bk) \<union> tk_id ` set ts"
proof (induction ns arbitrary: bk e bk' ts e')
  case (Cons n ns)
  let ?tid = "ids e (drawn e)" and ?e1 = "e\<lparr>drawn := Suc (drawn e)\<rparr>"
  obtain bk2 ts2 e2 where rec: "node_tasks m gid now ns (dict_set (tn_key n) ?tid bk) ?e1 = (bk2, ts2, e2)"
    by (metis prod_cases3)
  have eq: "bk' = bk2" "ts = node_task m gid now n ?tid # ts2" "e' = e2"
    using Cons.prems rec by (simp_all add: uuid7_def)
  have "[drawn e ..< drawn e + length (n # ns)] = drawn e # [Suc (drawn e) ..< Suc (drawn e) + length ns]"
    by (simp add: upt_rec)
  moreover have "set (dict_values bk2) \<subseteq> set (dict_values bk) \<union> insert ?tid (tk_id ` set ts2)"
    using Cons.IH [OF rec] dict_values_set_subset [of "tn_key n" ?tid bk] by blast
  ultimately show ?case
    using Cons.IH [OF rec] unfolding eq by (simp add: node_task_def)
qed auto

lemma link_parents_frame:
  "link_parents tk bk ns ts = Inr ts' \<Longrightarrow> map tk_id ts' = map tk_id ts
    \<and> ((\<forall>t \<in> set ts. tk_mission t = a \<and> tk_graph t = b \<and> tk_status t = c \<and> tk_lock_version t = d)
      \<longrightarrow> (\<forall>t \<in> set ts'. tk_mission t = a \<and> tk_graph t = b \<and> tk_status t = c \<and> tk_lock_version t = d))"
proof (induction tk bk ns ts rule: link_parents.induct)
  case (2 tk bk n ns ts)
  show ?case
  proof (cases "tn_parent_key n")
    case None
    then have "link_parents tk bk ns ts = Inr ts'" using 2(3) by simp
    then show ?thesis by (rule 2(1) [OF None])
  next
    case (Some pk)
    with 2(3) obtain parent tid where get: "dict_get bk pk = Some parent" "dict_get bk (tn_key n) = Some tid"
      by (auto split: option.splits)
    let ?ts = "map (\<lambda>t. if tk_id t = tid then t\<lparr>tk_parent := Some parent\<rparr> else t) ts"
    have "map tk_id ?ts = map tk_id ts" by simp
    moreover have "link_parents tk bk ns ?ts = Inr ts'" using 2(3) Some get by simp
    ultimately have r: "link_parents tk bk ns ?ts = Inr ts'" "map tk_id ?ts = map tk_id ts" by blast+
    have "\<forall>t \<in> set ?ts. tk_mission t = a \<and> tk_graph t = b \<and> tk_status t = c \<and> tk_lock_version t = d"
      if "\<forall>t \<in> set ts. tk_mission t = a \<and> tk_graph t = b \<and> tk_status t = c \<and> tk_lock_version t = d"
      using that by auto
    with 2(2) [OF Some get r(1)] show ?thesis unfolding r(2) by (iprover intro: conjI impI)
  qed
qed simp

lemma link_edges_drawn:
  "link_edges m gid now bk ls e = (r, e') \<Longrightarrow> ids e' = ids e \<and> drawn e \<le> drawn e'
    \<and> (\<forall>es. r = Inr es \<longrightarrow> drawn e' = drawn e + length es
        \<and> map te_id es = map (ids e) [drawn e ..< drawn e + length es]
        \<and> (\<forall>d \<in> set es. te_graph d = gid \<and> te_from d \<in> set (dict_values bk) \<and> te_to d \<in> set (dict_values bk)))"
proof (induction ls arbitrary: e r e')
  case (Cons l ls)
  show ?case
  proof (cases "dict_get bk (tl_from l) = None \<or> dict_get bk (tl_to l) = None")
    case True
    with Cons.prems show ?thesis by (auto split: option.splits)
  next
    case False
    then obtain s d where sd: "dict_get bk (tl_from l) = Some s" "dict_get bk (tl_to l) = Some d" by auto
    obtain r2 e2 where rec: "link_edges m gid now bk ls (e\<lparr>drawn := Suc (drawn e)\<rparr>) = (r2, e2)" by force
    note IH = Cons.IH [OF rec]
    have e': "e' = e2" using Cons.prems sd rec by (auto simp: uuid7_def split: sum.splits)
    show ?thesis
    proof (cases r2)
      case (Inl err)
      with Cons.prems sd rec have "r = Inl err" by (simp add: uuid7_def)
      with IH e' show ?thesis by simp
    next
      case (Inr es2)
      have upt: "[drawn e ..< drawn e + length (x # es2)] = drawn e # [Suc (drawn e) ..< Suc (drawn e) + length es2]"
        for x :: task_graph_edge by (simp add: upt_rec)
      obtain x where r: "r = Inr (x # es2)" and x: "te_id x = ids e (drawn e)" "te_graph x = gid" "te_from x = s" "te_to x = d"
        using Cons.prems sd rec Inr by (auto simp: uuid7_def)
      show ?thesis
        using IH x upt dict_get_value [OF sd(1)] dict_get_value [OF sd(2)] unfolding r e' Inr
        by (simp del: set_map upt_Suc)
    qed
  qed
qed auto

lemma plan_from_template_cases:
  assumes "world_ok w"
  obtains (refused) err e' where "plan_from_template m tpl approved by w = (Inl err, w\<lparr>outside := e'\<rparr>)"
      "env_le (outside w) e'"
  | (planned) g ts es e' where "plan_from_template m tpl approved by w = (Inr g, put_graph g ts es (w\<lparr>outside := e'\<rparr>))"
      "planned_into m w g ts es e'" "mt_status tpl = ''ACTIVE''"
proof -
  obtain gid e1 where id: "uuid7 (outside w) = (gid, e1)" by force
  obtain now e2 where now: "clock_now e1 = (now, e2)" by force
  obtain bk ts e3 where nt: "node_tasks m gid now (mt_nodes tpl) [] e2 = (bk, ts, e3)" by (metis prod_cases3)
  obtain r e4 where le: "link_edges m gid now bk (mt_edges tpl) e3 = (r, e4)" by force
  note n = node_tasks_drawn [OF nt] and l = link_edges_drawn [OF le]
  have e2: "ids e2 = ids e1" "drawn e2 = drawn e1" using now by (auto simp: clock_now_def)
  have e1: "ids e1 = ids (outside w)" "drawn (outside w) \<le> drawn e1" using id by (auto simp: uuid7_def)
  have le3: "env_le (outside w) e3" "env_le (outside w) e4" using e1 e2 n l by (simp_all add: env_le_def)
  show thesis
  proof (cases "mt_status tpl = ''ACTIVE'' \<and> missing_refs m approved = []")
    case False
    then have "\<exists>err. plan_from_template m tpl approved by w = (Inl err, w\<lparr>outside := outside w\<rparr>)"
      unfolding plan_from_template_def by (cases "mt_status tpl = ''ACTIVE''") simp_all
    then obtain err where "plan_from_template m tpl approved by w = (Inl err, w\<lparr>outside := outside w\<rparr>)" ..
    then show thesis by (rule refused) simp
  next
    case True
    show thesis
    proof (cases "\<exists>ts' es h. link_parents (mt_key tpl) bk (mt_nodes tpl) ts = Inr ts' \<and> r = Inr es \<and> graph_hash ts' es = Inr h")
      case False
      then have "\<exists>err e'. plan_from_template m tpl approved by w = (Inl err, w\<lparr>outside := e'\<rparr>) \<and> e' \<in> {e3, e4}"
        using True unfolding plan_from_template_def
        by (simp add: id now nt le split: sum.split) blast
      with le3 show thesis using refused by blast
    next
      case ok: True
      then obtain ts' es h where ts': "link_parents (mt_key tpl) bk (mt_nodes tpl) ts = Inr ts'"
          and es: "r = Inr es" and h: "graph_hash ts' es = Inr h" by blast
      let ?g = "draft_graph m gid (''template:'' @ mt_key tpl @ ''@'' @ py_take 16 (mt_version tpl)) h by now"
      have ids: "map tk_id ts' = map tk_id ts" using link_parents_frame [OF ts'] by blast
      have img: "tk_id ` set ts' = tk_id ` set ts" using ids by (metis list.set_map)
      let ?n = "length (mt_nodes tpl)"
      have "inj (ids e1)" using world_okD(6) [OF assms] e1 by simp
      then have "plan_fresh m gid e1 e4 ts' es"
      proof (rule plan_by_index [where ns = "[drawn e1 ..< drawn e1 + ?n]" and
          ks = "[drawn e1 + ?n ..< drawn e1 + ?n + length es]"])
        show "\<forall>t \<in> set ts'. tk_mission t = mi_id m \<and> tk_graph t = gid \<and> tk_status t = ''CREATED'' \<and> tk_lock_version t = 1"
          using link_parents_frame [OF ts'] n by blast
        show "\<forall>d \<in> set es. te_graph d = gid \<and> te_from d \<in> tk_id ` set ts' \<and> te_to d \<in> tk_id ` set ts'"
          using l n es unfolding img by auto
      qed (use n l e2 es ids in auto)
      then have "planned_into m w ?g ts' es e4" using h id by (simp add: planned_into_def)
      moreover have "plan_from_template m tpl approved by w = (Inr ?g, put_graph ?g ts' es (w\<lparr>outside := e4\<rparr>))"
        using True by (simp add: plan_from_template_def id now nt le ts' es h)
      ultimately show thesis using True by (intro planned) auto
    qed
  qed
qed

section \<open>Referential integrity\<close>

text \<open>Every task belongs to a stored graph, and every edge joins two tasks of its own graph.\<close>

definition refs_ok :: "world \<Rightarrow> bool" where
  "refs_ok w \<longleftrightarrow> (\<forall>t \<in> set (dict_values (tasks w)). tk_graph t \<in> set (dict_keys (graphs w)))
    \<and> (\<forall>d \<in> set (dict_values (edges w)). \<exists>a b. dict_get (tasks w) (te_from d) = Some a \<and> tk_graph a = te_graph d
         \<and> dict_get (tasks w) (te_to d) = Some b \<and> tk_graph b = te_graph d)"

definition planner_ok :: "world \<Rightarrow> bool" where
  "planner_ok w \<longleftrightarrow> world_ok w \<and> refs_ok w"

text \<open>What no operation but planning does: add tasks, edges or graphs, or move a task to another graph.\<close>

definition same_shape :: "world \<Rightarrow> world \<Rightarrow> bool" where
  "same_shape w w' \<longleftrightarrow> edges w' = edges w \<and> set (dict_keys (graphs w')) = set (dict_keys (graphs w))
    \<and> (\<forall>k. map_option tk_graph (dict_get (tasks w') k) = map_option tk_graph (dict_get (tasks w) k))"

lemma same_shape_refl [simp]: "same_shape w w"
  by (simp add: same_shape_def)

lemma same_shape_trans: "same_shape u v \<Longrightarrow> same_shape v w \<Longrightarrow> same_shape u w"
  by (simp add: same_shape_def)

lemma same_shape_origin:
  assumes "same_shape w w'" and "dict_get (tasks w') k = Some t'"
  obtains t where "dict_get (tasks w) k = Some t" and "tk_graph t = tk_graph t'"
proof -
  have "map_option tk_graph (dict_get (tasks w') k) = map_option tk_graph (dict_get (tasks w) k)"
    using assms(1) by (simp add: same_shape_def)
  with assms(2) that show thesis by (cases "dict_get (tasks w) k") auto
qed

lemma refs_ok_shape:
  assumes "refs_ok w" and "same_shape w w'" and "world_ok w" and "world_ok w'"
  shows "refs_ok w'"
proof -
  have same: "map_option tk_graph (dict_get (tasks w') k) = map_option tk_graph (dict_get (tasks w) k)" for k
    using assms(2) by (simp add: same_shape_def)
  have "tk_graph t \<in> set (dict_keys (graphs w'))" if "t \<in> set (dict_values (tasks w'))" for t
  proof -
    have "dict_get (tasks w') (tk_id t) = Some t" by (rule keyed_in [OF world_okD(3) [OF assms(4)] that])
    with same [of "tk_id t"] obtain t0 where "dict_get (tasks w) (tk_id t) = Some t0" "tk_graph t0 = tk_graph t"
      by (cases "dict_get (tasks w) (tk_id t)") auto
    with assms(1,2) show ?thesis unfolding refs_ok_def same_shape_def by (metis dict_get_value)
  qed
  moreover have "\<exists>a b. dict_get (tasks w') (te_from d) = Some a \<and> tk_graph a = te_graph d
      \<and> dict_get (tasks w') (te_to d) = Some b \<and> tk_graph b = te_graph d" if d: "d \<in> set (dict_values (edges w'))" for d
  proof -
    obtain a b where "dict_get (tasks w) (te_from d) = Some a" "tk_graph a = te_graph d"
        "dict_get (tasks w) (te_to d) = Some b" "tk_graph b = te_graph d"
      using assms(1,2) d unfolding refs_ok_def same_shape_def by metis
    with same [of "te_from d"] same [of "te_to d"] show ?thesis by auto
  qed
  ultimately show ?thesis unfolding refs_ok_def by blast
qed

subsection \<open>The kernel keeps the shape\<close>

lemma same_shape_simps:
  "missions w' = missions w \<Longrightarrow> graphs w' = graphs w \<Longrightarrow> tasks w' = tasks w \<Longrightarrow> edges w' = edges w \<Longrightarrow> same_shape w w'"
  by (simp add: same_shape_def)

lemma same_shape_task:
  "dict_get (tasks w) k = Some t \<Longrightarrow> tk_graph t' = tk_graph t \<Longrightarrow> graphs w' = graphs w \<Longrightarrow> edges w' = edges w \<Longrightarrow>
    tasks w' = dict_set k t' (tasks w) \<Longrightarrow> same_shape w w'"
  by (simp add: same_shape_def dict_get_set)

lemma same_shape_graph:
  "dict_get (graphs w) k = Some g \<Longrightarrow> graphs w' = dict_set k g' (graphs w) \<Longrightarrow> edges w' = edges w \<Longrightarrow>
    tasks w' = tasks w \<Longrightarrow> same_shape w w'"
  unfolding same_shape_def using dict_set_same_keys [OF dict_get_key] by metis

lemma transition_mission_shape: "same_shape w (snd (transition_mission mid st lock w))"
  by (auto simp: transition_mission_def now_w_eq same_shape_def split: sum.splits)

lemma propagate_failure_shape: "same_shape w (snd (propagate_failure t w))"
  using transition_mission_shape
  by (auto simp: propagate_failure_def and_then_return split: sum.splits option.splits)

lemma transition_task_shape: "same_shape w (snd (transition_task tid st lock w))"
proof (cases "dict_get (tasks w) tid")
  case None
  then show ?thesis by (simp add: transition_task_def require_task_def)
next
  case (Some t)
  let ?w = "w\<lparr>outside := snd (clock_now (outside w))\<rparr>"
  let ?t = "t\<lparr>tk_status := st, tk_lock_version := tk_lock_version t + 1, tk_updated_at := fst (clock_now (outside w))\<rparr>"
  have "same_shape w (emit a (?w\<lparr>tasks := dict_set tid ?t (tasks ?w)\<rparr>))" for a
    by (rule same_shape_task [OF Some, of ?t]) simp_all
  then have "same_shape w (snd (propagate_failure ?t (emit a (?w\<lparr>tasks := dict_set tid ?t (tasks ?w)\<rparr>))))" for a
    using propagate_failure_shape same_shape_trans by blast
  with Some show ?thesis
    by (auto simp: transition_task_def now_w_eq and_then_return same_shape_def [of w ?w] require_task_def split: sum.splits)
qed

lemma refresh_tasks_shape:
  "world_ok w \<Longrightarrow> rows_current ts w \<Longrightarrow> same_shape w (snd (refresh_tasks snap es ts w))"
proof (induction ts arbitrary: w)
  case (Cons t ts)
  have here: "dict_get (tasks w) (tk_id t) = Some t" using Cons.prems(2) by (simp add: rows_current_def)
  note rows = rows_current_step [OF Cons.prems(2)]
  show ?case
  proof (cases "tk_status t \<in> {''CREATED'', ''BLOCKED''}")
    case False
    with Cons rows show ?thesis by simp
  next
    case True
    show ?thesis
    proof (cases "edges_block snap t es")
      case (Inl err)
      with True show ?thesis by simp
    next
      case (Inr b)
      then have closed: "\<forall>e \<in> set es. gates e t \<longrightarrow> dict_get snap (te_from e) \<noteq> None"
        using edges_block_cases [where snap = snap and t = t and es = es] by simp
      let ?st = "due_status snap es t"
      have "same_shape w (task_readied ?st w t)"
        by (rule same_shape_task [OF here, of "task_moved ?st w t"]) (simp_all add: task_readied_def)
      moreover have "same_shape (task_readied ?st w t) (snd (refresh_tasks snap es ts (task_readied ?st w t)))"
        using Cons.IH [OF task_readied_ok [OF Cons.prems]] rows by blast
      ultimately have "same_shape w (snd (refresh_tasks snap es ts (task_readied ?st w t)))"
        by (rule same_shape_trans)
      moreover have "same_shape w (snd (refresh_tasks snap es ts w))" using Cons.IH Cons.prems(1) rows by blast
      ultimately show ?thesis unfolding refresh_tasks_step [OF closed] by simp
    qed
  qed
qed simp

lemma refresh_shape: "world_ok w \<Longrightarrow> same_shape w (snd (refresh_task_readiness gid w))"
  by (simp add: refresh_task_readiness_eq refresh_tasks_shape tasks_for_graph_current)

lemma graph_write_shape:
  assumes ok: "world_ok w" and get: "dict_get (graphs w) gid = Some g" and id: "tg_id g' = tg_id g"
  shows "world_ok (w\<lparr>outside := snd (clock_now (outside w)), graphs := dict_set gid g' (graphs w)\<rparr>)"
    and "same_shape w (w\<lparr>outside := snd (clock_now (outside w)), graphs := dict_set gid g' (graphs w)\<rparr>)"
proof -
  let ?w = "w\<lparr>outside := snd (clock_now (outside w))\<rparr>"
  have "world_ok (?w\<lparr>graphs := dict_set gid g' (graphs ?w)\<rparr>)"
    by (rule world_ok_graph_write [OF world_ok_tick [OF ok], where g = g]) (use get id in simp_all)
  then show "world_ok (w\<lparr>outside := snd (clock_now (outside w)), graphs := dict_set gid g' (graphs w)\<rparr>)" by simp
  show "same_shape w (w\<lparr>outside := snd (clock_now (outside w)), graphs := dict_set gid g' (graphs w)\<rparr>)"
    by (rule same_shape_graph [OF get]) simp_all
qed

lemma activate_graph_shape:
  assumes ok: "world_ok w"
  shows "same_shape w (snd (activate_graph gid lock w))"
proof (cases "dict_get (graphs w) gid")
  case None
  then show ?thesis by (simp add: activate_graph_def require_graph_def)
next
  case (Some g)
  let ?g = "g\<lparr>tg_status := ''ACTIVE'', tg_lock_version := tg_lock_version g + 1, tg_updated_at := fst (clock_now (outside w))\<rparr>"
  let ?w = "w\<lparr>outside := snd (clock_now (outside w)), graphs := dict_set gid ?g (graphs w)\<rparr>"
  note gw = graph_write_shape [OF ok Some, of ?g]
  have "same_shape w (snd (refresh_task_readiness gid ?w))"
    using same_shape_trans [OF gw(2) refresh_shape [OF gw(1)]] by simp
  with Some show ?thesis
    by (auto simp: activate_graph_def require_graph_def now_w_eq and_then_return transition_def
        same_shape_def [of w "w\<lparr>outside := _\<rparr>"])
qed

lemma commit_mission_shape: "same_shape w (snd (commit_mission ms lk w))"
  by (simp add: commit_mission_def now_w_eq new_id_w_eq same_shape_def)

lemma kernel_step_shape:
  assumes "kernel_step w w'" and ok: "world_ok w"
  shows "same_shape w w'"
  using assms(1)
proof cases
  case (resume mid lock)
  with resume_cases [of mid lock w] transition_mission_shape show ?thesis by auto
next
  case (complete mid lock)
  with complete_cases [of mid lock w] transition_mission_shape show ?thesis by auto
qed (use ok in \<open>simp_all add: commit_mission_shape transition_mission_shape transition_task_shape activate_graph_shape
  refresh_shape start_def enter_partial_def pause_def cancel_def fail_def\<close>)

lemma kernel_step_planner_ok: "kernel_step w w' \<Longrightarrow> planner_ok w \<Longrightarrow> planner_ok w'"
  unfolding planner_ok_def using kernel_step_ok kernel_step_shape refs_ok_shape by blast

subsection \<open>The planner keeps the invariant\<close>

lemma same_shape_outside [simp]: "same_shape w (w\<lparr>outside := e\<rparr>)"
  by (simp add: same_shape_def)

lemma planner_ok_outside: "planner_ok w \<Longrightarrow> env_le (outside w) e \<Longrightarrow> planner_ok (w\<lparr>outside := e\<rparr>)"
  unfolding planner_ok_def using world_ok_outside refs_ok_shape same_shape_outside by blast

text \<open>What a planned graph looks like in the store.\<close>

lemma put_graph_rows:
  assumes ok: "planner_ok w" and pl: "planned_into m w g ts es e'"
  shows "tasks (put_graph g ts es (w\<lparr>outside := e'\<rparr>)) = tasks w @ map (\<lambda>t. (tk_id t, t)) ts"
    and "edges (put_graph g ts es (w\<lparr>outside := e'\<rparr>)) = edges w @ map (\<lambda>d. (te_id d, d)) es"
    and "graphs (put_graph g ts es (w\<lparr>outside := e'\<rparr>)) = graphs w @ [(tg_id g, g)]"
    and "tg_id g \<notin> used_ids w" and "drawn_ids (outside w) \<subseteq> drawn_ids e'"
    and "tasks_for_graph w (tg_id g) = []" and "edges_for_graph w (tg_id g) = []"
proof -
  have w: "world_ok w" and refs: "refs_ok w" using ok by (simp_all add: planner_ok_def)
  let ?e1 = "snd (uuid7 (outside w))"
  have f: "plan_fresh m (tg_id g) ?e1 e' ts es" and gid: "tg_id g = fst (uuid7 (outside w))"
    using pl unfolding planned_into_def by blast+
  have sub: "drawn_ids (outside w) \<subseteq> drawn_ids ?e1" using drawn_ids_uuid7 [of "outside w"] by blast
  have new: "tk_id ` set ts \<inter> drawn_ids (outside w) = {}" "te_id ` set es \<inter> drawn_ids (outside w) = {}"
    using f sub unfolding plan_fresh_def by blast+
  have used: "set (dict_keys (tasks w)) \<subseteq> drawn_ids (outside w)" "set (dict_keys (edges w)) \<subseteq> drawn_ids (outside w)"
      "set (dict_keys (graphs w)) \<subseteq> drawn_ids (outside w)"
    using world_okD(7) [OF w] unfolding used_ids_def by blast+
  have "tg_id g \<notin> drawn_ids (outside w)" unfolding gid by (rule uuid7_fresh [OF world_okD(6) [OF w]])
  then show fresh: "tg_id g \<notin> used_ids w" using world_okD(7) [OF w] by blast
  have "distinct (map tk_id ts)" "distinct (map te_id es)" using f by (simp_all add: plan_fresh_def)
  moreover have "tk_id ` set ts \<inter> set (dict_keys (tasks w)) = {}" "te_id ` set es \<inter> set (dict_keys (edges w)) = {}"
    using new used by blast+
  moreover have gk: "tg_id g \<notin> set (dict_keys (graphs w))" using fresh by (simp add: used_ids_def)
  ultimately show "tasks (put_graph g ts es (w\<lparr>outside := e'\<rparr>)) = tasks w @ map (\<lambda>t. (tk_id t, t)) ts"
      "edges (put_graph g ts es (w\<lparr>outside := e'\<rparr>)) = edges w @ map (\<lambda>d. (te_id d, d)) es"
      "graphs (put_graph g ts es (w\<lparr>outside := e'\<rparr>)) = graphs w @ [(tg_id g, g)]"
    by (simp_all add: put_graph_def foldl_put_new dict_set_new)
  show "drawn_ids (outside w) \<subseteq> drawn_ids e'" using f sub unfolding plan_fresh_def by blast
  have "tk_graph t \<noteq> tg_id g" if "t \<in> set (dict_values (tasks w))" for t
    using refs gk that unfolding refs_ok_def by metis
  then show "tasks_for_graph w (tg_id g) = []" by (auto simp: tasks_for_graph_def filter_empty_conv)
  have "te_graph d \<noteq> tg_id g" if d: "d \<in> set (dict_values (edges w))" for d
  proof -
    obtain a where "dict_get (tasks w) (te_from d) = Some a" "tk_graph a = te_graph d"
      using refs d unfolding refs_ok_def by blast
    then have "te_graph d \<in> set (dict_keys (graphs w))" using refs unfolding refs_ok_def by (metis dict_get_value)
    with gk show ?thesis by metis
  qed
  then show "edges_for_graph w (tg_id g) = []" by (auto simp: edges_for_graph_def filter_empty_conv)
qed

lemma put_graph_contents:
  assumes ok: "planner_ok w" and pl: "planned_into m w g ts es e'"
  shows "tasks_for_graph (put_graph g ts es (w\<lparr>outside := e'\<rparr>)) (tg_id g) = ts"
    and "edges_for_graph (put_graph g ts es (w\<lparr>outside := e'\<rparr>)) (tg_id g) = es"
    and "dict_get (graphs (put_graph g ts es (w\<lparr>outside := e'\<rparr>))) (tg_id g) = Some g"
proof -
  note r = put_graph_rows [OF ok pl]
  have own: "\<forall>t \<in> set ts. tk_graph t = tg_id g" "\<forall>d \<in> set es. te_graph d = tg_id g"
    using pl by (simp_all add: planned_into_def plan_fresh_def)
  show "tasks_for_graph (put_graph g ts es (w\<lparr>outside := e'\<rparr>)) (tg_id g) = ts"
    using r(6) own(1) by (simp add: tasks_for_graph_def r(1) comp_def)
  show "edges_for_graph (put_graph g ts es (w\<lparr>outside := e'\<rparr>)) (tg_id g) = es"
    using r(7) own(2) by (simp add: edges_for_graph_def r(2) comp_def)
  have "dict_get (graphs w) (tg_id g) = None" using r(4) by (simp add: dict_get_None used_ids_def)
  then show "dict_get (graphs (put_graph g ts es (w\<lparr>outside := e'\<rparr>))) (tg_id g) = Some g"
    by (simp add: r(3) map_add_def)
qed

lemma put_graph_ok:
  assumes ok: "planner_ok w" and pl: "planned_into m w g ts es e'" and m: "mi_id m \<in> set (dict_keys (missions w))"
  shows "planner_ok (put_graph g ts es (w\<lparr>outside := e'\<rparr>))"
proof -
  let ?w = "put_graph g ts es (w\<lparr>outside := e'\<rparr>)"
  note r = put_graph_rows [OF ok pl]
  have w: "world_ok w" and refs: "refs_ok w" using ok by (simp_all add: planner_ok_def)
  have f: "plan_fresh m (tg_id g) (snd (uuid7 (outside w))) e' ts es" and gid: "tg_id g = fst (uuid7 (outside w))"
    using pl unfolding planned_into_def by blast+
  have le: "world_ok (w\<lparr>outside := e'\<rparr>)"
    using w f r(5) unfolding plan_fresh_def
    by (auto simp: world_ok_def store_ok_def outside_ok_def used_ids_def sourced_def mission_sourced_def mission_events_def)
  have "world_ok ?w"
    by (rule world_ok_put_graph [OF le]) (use f gid m drawn_ids_uuid7 [of "outside w"] in \<open>auto simp: plan_fresh_def\<close>)
  moreover have "refs_ok ?w"
  proof -
    have "keyed tk_id (tasks ?w)" by (rule world_okD(3) [OF \<open>world_ok ?w\<close>])
    then have get: "dict_get (tasks ?w) (tk_id t) = Some t" if "t \<in> set ts" for t
      by (rule keyed_in) (use that in \<open>simp add: r(1) image_image\<close>)
    have old: "dict_get (tasks ?w) k = Some t" if "dict_get (tasks w) k = Some t" for k t
    proof -
      have "tk_id t = k" by (rule keyed_get [OF world_okD(3) [OF w] that])
      moreover have "t \<in> set (dict_values (tasks ?w))" using dict_get_value [OF that] by (simp add: r(1))
      ultimately show ?thesis using keyed_in [OF \<open>keyed tk_id (tasks ?w)\<close>] by blast
    qed
    show ?thesis
      unfolding refs_ok_def
    proof (intro conjI ballI)
      fix t assume "t \<in> set (dict_values (tasks ?w))"
      then show "tk_graph t \<in> set (dict_keys (graphs ?w))"
        using refs f unfolding refs_ok_def plan_fresh_def by (auto simp: r(1,3))
    next
      fix d assume "d \<in> set (dict_values (edges ?w))"
      then consider "d \<in> set (dict_values (edges w))" | "d \<in> set es" by (auto simp: r(2))
      then show "\<exists>a b. dict_get (tasks ?w) (te_from d) = Some a \<and> tk_graph a = te_graph d
          \<and> dict_get (tasks ?w) (te_to d) = Some b \<and> tk_graph b = te_graph d"
      proof cases
        case 1
        with refs old show ?thesis unfolding refs_ok_def by meson
      next
        case 2
        then obtain a b where ab: "a \<in> set ts" "b \<in> set ts" "te_from d = tk_id a" "te_to d = tk_id b" "te_graph d = tg_id g"
          using f unfolding plan_fresh_def by blast
        moreover have "tk_graph a = tg_id g" "tk_graph b = tg_id g" using f ab(1,2) by (auto simp: plan_fresh_def)
        ultimately show ?thesis using get by auto
      qed
    qed
  qed
  ultimately show ?thesis by (simp add: planner_ok_def)
qed

lemma graph_at_simps [simp]:
  "tg_id (graph_at g st now) = tg_id g" "tg_status (graph_at g st now) = st" "tg_hash (graph_at g st now) = tg_hash g"
  "tg_lock_version (graph_at g st now) = tg_lock_version g + 1" "tg_mission (graph_at g st now) = tg_mission g"
  by (simp_all add: graph_at_def)

text \<open>A status write either changes nothing but the clock or moves the graph along its table.\<close>

lemma put_status_cases:
  assumes "planner_ok w" and "dict_get (graphs w) gid = Some g0" and "tg_id g = tg_id g0"
  obtains (refused) err where "put_status gid g st w = (Inl err, w)" "st \<notin> set (succs GRAPH_TRANSITIONS (tg_status g))"
  | (moved) now where "st \<in> set (succs GRAPH_TRANSITIONS (tg_status g))"
      "put_status gid g st w = (Inr (graph_at g st now),
        w\<lparr>outside := snd (clock_now (outside w)), graphs := dict_set gid (graph_at g st now) (graphs w)\<rparr>)"
      "planner_ok (snd (put_status gid g st w))"
proof (cases "st \<in> set (succs GRAPH_TRANSITIONS (tg_status g))")
  case True
  have w: "world_ok w" "refs_ok w" using assms(1) by (simp_all add: planner_ok_def)
  let ?g = "graph_at g st (fst (clock_now (outside w)))"
  have eq: "put_status gid g st w = (Inr ?g, w\<lparr>outside := snd (clock_now (outside w)), graphs := dict_set gid ?g (graphs w)\<rparr>)"
    using True by (simp add: put_status_def transition_def now_w_eq)
  have "tg_id ?g = tg_id g0" using assms(3) by simp
  note gw = graph_write_shape [OF w(1) assms(2) this]
  have "planner_ok (snd (put_status gid g st w))"
    using refs_ok_shape [OF w(2) gw(2) w(1) gw(1)] gw(1) by (simp add: eq planner_ok_def)
  with True eq show thesis by (intro moved)
next
  case False
  then obtain err where "put_status gid g st w = (Inl err, w)" by (simp add: put_status_def transition_def)
  with False show thesis by (intro refused)
qed

lemma put_status_at_eq:
  "put_status_at gid g st w =
    (if st \<in> set (succs GRAPH_TRANSITIONS (tg_status g)) then put_status gid g st w
     else (fst (put_status gid g st w), w\<lparr>outside := snd (clock_now (outside w))\<rparr>))"
  by (simp add: put_status_at_def put_status_def transition_def now_w_eq)

lemma put_status_ok:
  assumes "planner_ok w" and "dict_get (graphs w) gid = Some g0" and "tg_id g = tg_id g0"
  shows "planner_ok (snd (put_status gid g st w))" and "planner_ok (snd (put_status_at gid g st w))"
proof -
  show "planner_ok (snd (put_status gid g st w))"
    by (rule put_status_cases [OF assms, of st]) (use assms(1) in auto)
  then show "planner_ok (snd (put_status_at gid g st w))"
    using planner_ok_outside [OF assms(1), of "snd (clock_now (outside w))"] by (simp add: put_status_at_eq)
qed

lemma plan_ok:
  assumes "planner_ok w" and "mi_id m \<in> set (dict_keys (missions w))"
  shows "planner_ok (snd (plan m approved by tid w))"
proof -
  have "world_ok w" using assms(1) by (simp add: planner_ok_def)
  then show ?thesis
    by (rule plan_cases [of w m approved "by" tid]) (use assms put_graph_ok in auto)
qed

lemma plan_from_template_ok:
  assumes "planner_ok w" and "mi_id m \<in> set (dict_keys (missions w))"
  shows "planner_ok (snd (plan_from_template m tpl approved by w))"
proof -
  have "world_ok w" using assms(1) by (simp add: planner_ok_def)
  then show ?thesis
    by (rule plan_from_template_cases [of w m tpl approved "by"])
      (use assms put_graph_ok planner_ok_outside in auto)
qed

lemma and_then_ok:
  assumes "P (snd (f w))" and "\<And>a w'. f w = (Inr a, w') \<Longrightarrow> P w' \<Longrightarrow> P (snd (g a w'))"
  shows "P (snd (and_then f g w))"
  using assms by (auto simp: and_then_def split: prod.splits sum.splits)

lemma put_status_Inr:
  "put_status gid g st w = (Inr g', w') \<or> put_status_at gid g st w = (Inr g', w') \<Longrightarrow>
    (\<exists>now. g' = graph_at g st now) \<and> dict_get (graphs w') gid = Some g' \<and> tasks w' = tasks w \<and> edges w' = edges w
    \<and> missions w' = missions w \<and> log w' = log w \<and> st \<in> set (succs GRAPH_TRANSITIONS (tg_status g))"
  by (auto simp: put_status_def put_status_at_def now_w_eq dict_get_set split: sum.splits)

lemma validate_ok:
  assumes ok: "planner_ok w"
  shows "planner_ok (snd (validate gid approved w))"
proof (cases "dict_get (graphs w) gid")
  case None
  then show ?thesis using ok by (simp add: validate_def require_graph_def)
next
  case (Some g0)
  have "planner_ok (snd (and_then (if tg_status g0 = ''DRAFT'' then put_status_at gid g0 ''VALIDATING'' else Pair (Inr g0))
      (\<lambda>g w1. case validate_graph (tasks_for_graph w1 gid) (edges_for_graph w1 gid) (Some (tg_hash g)) (Some approved) of
          Inl err \<Rightarrow> (Inl err, w1)
        | Inr report \<Rightarrow> and_then (put_status gid g (if vr_valid report then ''APPROVED'' else ''REJECTED''))
            (\<lambda>_. Pair (Inr report)) w1) w))"
  proof (rule and_then_ok)
    show "planner_ok (snd ((if tg_status g0 = ''DRAFT'' then put_status_at gid g0 ''VALIDATING'' else Pair (Inr g0)) w))"
      using ok put_status_ok(2) [OF ok Some refl] by simp
  next
    fix g w1
    assume st: "(if tg_status g0 = ''DRAFT'' then put_status_at gid g0 ''VALIDATING'' else Pair (Inr g0)) w = (Inr g, w1)"
      and ok1: "planner_ok w1"
    have "dict_get (graphs w1) gid = Some g"
    proof (cases "tg_status g0 = ''DRAFT''")
      case True
      with st have "put_status_at gid g0 ''VALIDATING'' w = (Inr g, w1)" by simp
      with put_status_Inr show ?thesis by blast
    qed (use st Some in simp)
    then have "planner_ok (snd (put_status gid g s w1))" for s by (rule put_status_ok(1) [OF ok1 _ refl])
    with ok1 show "planner_ok (snd (case validate_graph (tasks_for_graph w1 gid) (edges_for_graph w1 gid) (Some (tg_hash g)) (Some approved) of
          Inl err \<Rightarrow> (Inl err, w1)
        | Inr report \<Rightarrow> and_then (put_status gid g (if vr_valid report then ''APPROVED'' else ''REJECTED''))
            (\<lambda>_. Pair (Inr report)) w1))"
      by (simp add: and_then_return split: sum.split)
  qed
  with Some show ?thesis by (simp add: validate_def require_graph_def)
qed

lemma transition_task_planner_ok: "planner_ok w \<Longrightarrow> planner_ok (snd (transition_task tid st lock w))"
  by (rule kernel_step_planner_ok [OF kernel_step.transition_task])

lemma retire_tasks_ok: "planner_ok w \<Longrightarrow> planner_ok (snd (retire_tasks ks w))"
proof (induction ks arbitrary: w)
  case (Cons k ks)
  show ?case
  proof (cases "dict_get (tasks w) k")
    case (Some t)
    have "planner_ok (snd (and_then (transition_task k ''RETIRED'' (tk_lock_version t)) (\<lambda>_. retire_tasks ks) w))"
      by (rule and_then_ok) (rule transition_task_planner_ok [OF Cons.prems], rule Cons.IH)
    with Some show ?thesis by simp
  qed (use Cons.prems in simp)
qed simp

text \<open>Retiring tasks writes tasks and missions only; the graphs stay.\<close>

lemma transition_mission_graphs: "graphs (snd (transition_mission mid st lock w)) = graphs w"
  by (auto simp: transition_mission_def now_w_eq split: sum.splits)

lemma transition_task_graphs: "graphs (snd (transition_task tid st lock w)) = graphs w"
proof -
  have "graphs (snd (propagate_failure t w)) = graphs w" for t w
    using transition_mission_graphs by (auto simp: propagate_failure_def and_then_return split: sum.splits option.splits)
  then show ?thesis by (auto simp: transition_task_def now_w_eq and_then_return split: sum.splits)
qed

lemma retire_tasks_graphs: "graphs (snd (retire_tasks ks w)) = graphs w"
proof (induction ks arbitrary: w)
  case (Cons k ks)
  show ?case
    using Cons.IH transition_task_graphs
    by (auto simp: and_then_def split: option.splits prod.splits sum.splits) (metis snd_conv)+
qed simp

lemma amend_ok:
  assumes ok: "planner_ok w"
  shows "planner_ok (snd (amend gid am m reason w))"
proof (cases "dict_get (graphs w) gid")
  case None
  then show ?thesis using ok by (simp add: amend_def require_graph_def)
next
  case (Some g)
  let ?retire = "if ga_type am = ''retire_task'' then retire_tasks (ga_affected am) else Pair (Inr ())"
  have "planner_ok (snd (and_then (put_status_at gid g ''AMENDING'')
      (\<lambda>amending. and_then ?retire (\<lambda>_. put_status gid amending ''ACTIVE'')) w))"
  proof (rule and_then_ok)
    show "planner_ok (snd (put_status_at gid g ''AMENDING'' w))" by (rule put_status_ok(2) [OF ok Some refl])
  next
    fix a w1 assume a: "put_status_at gid g ''AMENDING'' w = (Inr a, w1)" and ok1: "planner_ok w1"
    have get: "dict_get (graphs w1) gid = Some a" using a put_status_Inr by blast
    show "planner_ok (snd (and_then ?retire (\<lambda>_. put_status gid a ''ACTIVE'') w1))"
    proof (rule and_then_ok)
      show "planner_ok (snd (?retire w1))" using ok1 retire_tasks_ok by simp
    next
      fix u w2 assume u: "?retire w1 = (Inr u, w2)" and ok2: "planner_ok w2"
      have "graphs w2 = graphs w1"
        using u retire_tasks_graphs [of "ga_affected am" w1] by (auto split: if_splits)
      then show "planner_ok (snd (put_status gid a ''ACTIVE'' w2))"
        using get by (intro put_status_ok(1) [OF ok2 _ refl]) simp
    qed
  qed
  with Some ok show ?thesis by (simp add: amend_def require_graph_def)
qed

lemma replan_ok:
  assumes ok: "planner_ok w"
  shows "planner_ok (snd (replan gid trigger unknown fl w))"
proof (cases "dict_get (graphs w) gid")
  case None
  then show ?thesis using ok by (simp add: replan_def require_graph_def)
next
  case (Some g)
  have "planner_ok (snd (and_then (put_status gid g ''REPLANNING'') (\<lambda>_ w1.
      case dict_get (graphs w1) gid of None \<Rightarrow> (Inl (KeyError gid), w1)
      | Some g1 \<Rightarrow> and_then (put_status gid g1 ''SUPERSEDED'') (\<lambda>_. Pair (Inr (x :: replan_decision))) w1) w))" for x
  proof (rule and_then_ok)
    show "planner_ok (snd (put_status gid g ''REPLANNING'' w))" by (rule put_status_ok(1) [OF ok Some refl])
  next
    fix a w1 assume ok1: "planner_ok w1"
    show "planner_ok (snd (case dict_get (graphs w1) gid of None \<Rightarrow> (Inl (KeyError gid), w1)
      | Some g1 \<Rightarrow> and_then (put_status gid g1 ''SUPERSEDED'') (\<lambda>_. Pair (Inr (x :: replan_decision))) w1))"
      using ok1 put_status_ok(1) [OF ok1 _ refl] by (simp add: and_then_return split: option.split)
  qed
  with Some ok show ?thesis by (simp add: replan_def require_graph_def case_prod_beta)
qed

section \<open>Kernel and planner together\<close>

text \<open>
  The planner's calls, with the mission argument a stored mission, beside the kernel's. \<open>schedule\<close> and
  \<open>independent_progress_possible\<close> only read.
\<close>

inductive planner_step :: "world \<Rightarrow> world \<Rightarrow> bool" where
  kernel: "kernel_step w w' \<Longrightarrow> planner_step w w'"
| plan: "mi_id m \<in> set (dict_keys (missions w)) \<Longrightarrow> planner_step w (snd (plan m approved created_by tid w))"
| plan_from_template: "mi_id m \<in> set (dict_keys (missions w)) \<Longrightarrow>
    planner_step w (snd (plan_from_template m tpl approved created_by w))"
| validate: "planner_step w (snd (validate gid approved w))"
| amend: "planner_step w (snd (amend gid am m reason w))"
| replan: "planner_step w (snd (replan gid trigger unknown fl w))"

inductive planner_reach :: "world \<Rightarrow> world \<Rightarrow> bool" for w0 where
  init: "planner_reach w0 w0"
| step: "planner_reach w0 w \<Longrightarrow> planner_step w w' \<Longrightarrow> planner_reach w0 w'"

lemma planner_step_ok:
  assumes "planner_step w w'" and ok: "planner_ok w"
  shows "planner_ok w'"
  using assms(1)
proof cases
  case kernel
  then show ?thesis by (rule kernel_step_planner_ok [OF _ ok])
next
  case (plan m approved created_by tid)
  show ?thesis unfolding plan(1) by (rule plan_ok [OF ok plan(2)])
next
  case (plan_from_template m tpl approved created_by)
  show ?thesis unfolding plan_from_template(1) by (rule plan_from_template_ok [OF ok plan_from_template(2)])
qed (use ok in \<open>simp_all add: validate_ok amend_ok replan_ok\<close>)

lemma planner_reach_ok: "planner_reach w0 w \<Longrightarrow> planner_ok w0 \<Longrightarrow> planner_ok w"
  by (induction rule: planner_reach.induct) (auto intro: planner_step_ok)

section \<open>What the planner guarantees\<close>

subsection \<open>Planning, validation and activation\<close>

lemma graph_succs [simp]:
  "succs GRAPH_TRANSITIONS ''DRAFT'' = [''VALIDATING'', ''REJECTED'']"
  "succs GRAPH_TRANSITIONS ''VALIDATING'' = [''APPROVED'', ''REJECTED'']"
  "succs GRAPH_TRANSITIONS ''APPROVED'' = [''ACTIVE'']"
  "succs GRAPH_TRANSITIONS ''AMENDING'' = [''ACTIVE'', ''SUPERSEDED'']"
  "succs GRAPH_TRANSITIONS ''REPLANNING'' = [''SUPERSEDED'']"
  by (simp_all add: succs_def GRAPH_TRANSITIONS_def)

lemma put_status_eq:
  "st \<in> set (succs GRAPH_TRANSITIONS (tg_status g)) \<Longrightarrow> put_status gid g st w =
    (Inr (graph_at g st (fst (clock_now (outside w)))),
     w\<lparr>outside := snd (clock_now (outside w)),
       graphs := dict_set gid (graph_at g st (fst (clock_now (outside w)))) (graphs w)\<rparr>)"
  by (simp add: put_status_def transition_def now_w_eq)

lemma graph_queries_frame:
  "tasks w' = tasks w \<Longrightarrow> tasks_for_graph w' gid = tasks_for_graph w gid"
  "edges w' = edges w \<Longrightarrow> edges_for_graph w' gid = edges_for_graph w gid"
  by (simp_all add: tasks_for_graph_def edges_for_graph_def)

text \<open>Validating a draft whose stored contents are \<open>ts\<close> and \<open>es\<close>.\<close>

lemma validate_draft:
  assumes "dict_get (graphs w) gid = Some g" and "tg_status g = ''DRAFT''"
    and "validate_graph (tasks_for_graph w gid) (edges_for_graph w gid) (Some (tg_hash g)) (Some approved) = Inr r"
  shows "\<exists>now1 now2 w'. validate gid approved w = (Inr r, w')
    \<and> dict_get (graphs w') gid = Some (graph_at (graph_at g ''VALIDATING'' now1) (if vr_valid r then ''APPROVED'' else ''REJECTED'') now2)
    \<and> tasks w' = tasks w \<and> edges w' = edges w \<and> missions w' = missions w \<and> log w' = log w"
proof -
  let ?now = "fst (clock_now (outside w))"
  let ?g1 = "graph_at g ''VALIDATING'' ?now"
  let ?w1 = "w\<lparr>outside := snd (clock_now (outside w)), graphs := dict_set gid ?g1 (graphs w)\<rparr>"
  let ?st = "if vr_valid r then ''APPROVED'' else ''REJECTED''"
  have 1: "put_status_at gid g ''VALIDATING'' w = (Inr ?g1, ?w1)"
    using assms(2) by (simp add: put_status_at_eq put_status_eq)
  have 2: "put_status gid ?g1 ?st ?w1 = (Inr (graph_at ?g1 ?st (fst (clock_now (outside ?w1)))),
     ?w1\<lparr>outside := snd (clock_now (outside ?w1)),
       graphs := dict_set gid (graph_at ?g1 ?st (fst (clock_now (outside ?w1)))) (graphs ?w1)\<rparr>)"
    by (rule put_status_eq) simp
  have v: "validate_graph (tasks_for_graph ?w1 gid) (edges_for_graph ?w1 gid) (Some (tg_hash ?g1)) (Some approved) = Inr r"
    using assms(3) graph_queries_frame [of ?w1 w gid] by simp
  have "validate gid approved w = (Inr r, snd (put_status gid ?g1 ?st ?w1))"
    using assms(1,2) 1 v 2 by (simp add: validate_def require_graph_def and_then_def)
  then show ?thesis
    unfolding 2 by (intro exI [of _ ?now] exI [of _ "fst (clock_now (outside ?w1))"]) (simp add: dict_get_set)
qed

subsection \<open>Scheduling\<close>

definition STARTING_EDGES :: "string list" where
  "STARTING_EDGES = [''blocks_on_decision'', ''depends_on'', ''produces_contract_for'']"

text \<open>A task may start: it waits, and everything it depends on is completed.\<close>

definition startable :: "task list \<Rightarrow> task_graph_edge list \<Rightarrow> task \<Rightarrow> bool" where
  "startable ts es t \<longleftrightarrow> tk_status t \<in> {''READY'', ''CREATED''}
    \<and> (\<forall>d \<in> set es. te_to d = tk_id t \<and> te_type d \<in> set STARTING_EDGES \<longrightarrow>
         (\<exists>p \<in> set ts. tk_id p = te_from d \<and> tk_status p = ''COMPLETED''))"

definition edges_closed :: "task list \<Rightarrow> task_graph_edge list \<Rightarrow> bool" where
  "edges_closed ts es \<longleftrightarrow> distinct (map tk_id ts) \<and> (\<forall>d \<in> set es. te_from d \<in> tk_id ` set ts \<and> te_to d \<in> tk_id ` set ts)"

lemma preds_complete_eq:
  assumes "\<forall>d \<in> set es. dict_get by_id (te_from d) \<noteq> None"
  shows "preds_complete by_id t es = Inr (\<forall>d \<in> set es. te_to d = tk_id t \<and> te_type d \<in> set STARTING_EDGES \<longrightarrow>
    (\<exists>p. dict_get by_id (te_from d) = Some p \<and> tk_status p = ''COMPLETED''))"
  using assms by (induction es) (auto simp: STARTING_EDGES_def split: option.splits)

lemma decision_open_eq:
  assumes "\<forall>d \<in> set es. dict_get by_id (te_from d) \<noteq> None"
  shows "decision_open by_id t es = Inr (\<exists>d \<in> set es. te_to d = tk_id t \<and> te_type d = ''blocks_on_decision''
    \<and> (\<exists>p. dict_get by_id (te_from d) = Some p \<and> tk_status p \<noteq> ''COMPLETED''))"
  using assms by (induction es) (auto split: option.splits)

lemma startable_tests:
  assumes "edges_closed ts es"
  shows "ready_predecessors_complete t ts es = Inr (\<forall>d \<in> set es. te_to d = tk_id t \<and> te_type d \<in> set STARTING_EDGES \<longrightarrow>
      (\<exists>p \<in> set ts. tk_id p = te_from d \<and> tk_status p = ''COMPLETED''))"
    and "\<exists>b. blocked_on_decision t es ts = Inr b \<and> (b \<longrightarrow> \<not> startable ts es t)"
proof -
  have dist: "distinct (map tk_id ts)" using assms by (simp add: edges_closed_def)
  have get: "dict_get (by_id_dict ts) k = Some p \<longleftrightarrow> p \<in> set ts \<and> tk_id p = k" for k p
    by (rule by_id_get [OF dist])
  have known: "\<forall>d \<in> set es. dict_get (by_id_dict ts) (te_from d) \<noteq> None"
    using assms get unfolding edges_closed_def by fastforce
  show "ready_predecessors_complete t ts es = Inr (\<forall>d \<in> set es. te_to d = tk_id t \<and> te_type d \<in> set STARTING_EDGES \<longrightarrow>
      (\<exists>p \<in> set ts. tk_id p = te_from d \<and> tk_status p = ''COMPLETED''))"
    unfolding ready_predecessors_complete_def preds_complete_eq [OF known] get by auto
  have "\<not> startable ts es t" if "d \<in> set es" "te_to d = tk_id t" "te_type d = ''blocks_on_decision''"
      "p \<in> set ts" "tk_id p = te_from d" "tk_status p \<noteq> ''COMPLETED''" for d p
    using that dist unfolding startable_def STARTING_EDGES_def
    by (metis (no_types, lifting) distinct_map inj_onD list.set_intros(1))
  then show "\<exists>b. blocked_on_decision t es ts = Inr b \<and> (b \<longrightarrow> \<not> startable ts es t)"
    unfolding blocked_on_decision_def decision_open_eq [OF known] get by blast
qed

text \<open>One round of the loop on a closed graph.\<close>

lemma schedule_loop_step:
  assumes "edges_closed ts es"
  shows "schedule_loop ts es n cap (t # rest) held ready =
    (if \<not> startable ts es t \<or> scopes_overlap (tk_write_scope t) held
       \<or> (\<exists>c \<in> set ready. scopes_overlap (tk_write_scope t) (tk_write_scope c))
     then schedule_loop ts es n cap rest held ready
     else if cap \<le> int (n + length ready + 1) then Inr (ready @ [t])
     else schedule_loop ts es n cap rest (held @ tk_write_scope t) (ready @ [t]))"
proof -
  obtain b where b: "blocked_on_decision t es ts = Inr b" "b \<longrightarrow> \<not> startable ts es t"
    using startable_tests(2) [OF assms] by blast
  obtain p where p: "ready_predecessors_complete t ts es = Inr p"
      "startable ts es t \<longleftrightarrow> tk_status t \<in> {''READY'', ''CREATED''} \<and> p"
    using startable_tests(1) [OF assms, of t] by (simp add: startable_def)
  show ?thesis
    using b p(2) by (cases b; cases p) (simp_all add: b(1) p(1) list_ex_iff)
qed

lemma scopes_overlap_append:
  "scopes_overlap a (b @ c) \<longleftrightarrow> scopes_overlap a b \<or> scopes_overlap a c"
  by (auto simp: scopes_overlap_def list_ex_iff)

definition disjoint_scopes :: "task list \<Rightarrow> bool" where
  "disjoint_scopes ts \<longleftrightarrow> sorted_wrt (\<lambda>a b. \<not> scopes_overlap (tk_write_scope b) (tk_write_scope a)) ts"

lemma schedule_loop_spec:
  assumes "edges_closed ts es"
  shows "disjoint_scopes ready \<Longrightarrow> \<exists>new. schedule_loop ts es n cap rest held ready = Inr (ready @ new)
    \<and> subseq new rest \<and> (\<forall>t \<in> set new. startable ts es t \<and> \<not> scopes_overlap (tk_write_scope t) held)
    \<and> disjoint_scopes (ready @ new)
    \<and> (new \<noteq> [] \<longrightarrow> int (n + length (ready @ new)) \<le> max cap (int (n + length ready + 1)))
    \<and> (\<forall>t \<in> set rest. startable ts es t \<longrightarrow> t \<in> set new \<or> cap \<le> int (n + length (ready @ new))
        \<or> scopes_overlap (tk_write_scope t) (held @ concat (map tk_write_scope new))
        \<or> (\<exists>c \<in> set ready. scopes_overlap (tk_write_scope t) (tk_write_scope c)))"
proof (induction rest arbitrary: held ready)
  case Nil
  then show ?case by simp
next
  case (Cons t rest)
  let ?clash = "scopes_overlap (tk_write_scope t) held \<or> (\<exists>c \<in> set ready. scopes_overlap (tk_write_scope t) (tk_write_scope c))"
  consider (skip) "\<not> startable ts es t \<or> ?clash"
    | (last) "startable ts es t" "\<not> ?clash" "cap \<le> int (n + length ready + 1)"
    | (more) "startable ts es t" "\<not> ?clash" "int (n + length ready + 1) < cap"
    by linarith
  then show ?case
  proof cases
    case skip
    then have eq: "schedule_loop ts es n cap (t # rest) held ready = schedule_loop ts es n cap rest held ready"
      using schedule_loop_step [OF assms] by simp
    from Cons.IH [OF Cons.prems, of held] obtain new where
      "schedule_loop ts es n cap rest held ready = Inr (ready @ new)"
      "subseq new rest" "\<forall>t \<in> set new. startable ts es t \<and> \<not> scopes_overlap (tk_write_scope t) held"
      "disjoint_scopes (ready @ new)"
      "new \<noteq> [] \<longrightarrow> int (n + length (ready @ new)) \<le> max cap (int (n + length ready + 1))"
      "\<forall>t \<in> set rest. startable ts es t \<longrightarrow> t \<in> set new \<or> cap \<le> int (n + length (ready @ new))
        \<or> scopes_overlap (tk_write_scope t) (held @ concat (map tk_write_scope new))
        \<or> (\<exists>c \<in> set ready. scopes_overlap (tk_write_scope t) (tk_write_scope c))" by blast
    with skip show ?thesis unfolding eq by (intro exI [of _ new]) (auto simp: scopes_overlap_append)
  next
    case last
    then have eq: "schedule_loop ts es n cap (t # rest) held ready = Inr (ready @ [t])"
      using schedule_loop_step [OF assms] by simp
    have "disjoint_scopes (ready @ [t])"
      using Cons.prems last(2) by (auto simp: disjoint_scopes_def sorted_wrt_append)
    with last eq show ?thesis by (intro exI [of _ "[t]"]) auto
  next
    case more
    then have eq: "schedule_loop ts es n cap (t # rest) held ready =
        schedule_loop ts es n cap rest (held @ tk_write_scope t) (ready @ [t])"
      using schedule_loop_step [OF assms] by simp
    have disj: "disjoint_scopes (ready @ [t])"
      using Cons.prems more(2) by (auto simp: disjoint_scopes_def sorted_wrt_append)
    from Cons.IH [OF disj, of "held @ tk_write_scope t"] obtain new where
      "schedule_loop ts es n cap rest (held @ tk_write_scope t) (ready @ [t]) = Inr ((ready @ [t]) @ new)"
      "subseq new rest" "\<forall>x \<in> set new. startable ts es x \<and> \<not> scopes_overlap (tk_write_scope x) (held @ tk_write_scope t)"
      "disjoint_scopes ((ready @ [t]) @ new)"
      "new \<noteq> [] \<longrightarrow> int (n + length ((ready @ [t]) @ new)) \<le> max cap (int (n + length (ready @ [t]) + 1))"
      "\<forall>x \<in> set rest. startable ts es x \<longrightarrow> x \<in> set new \<or> cap \<le> int (n + length ((ready @ [t]) @ new))
        \<or> scopes_overlap (tk_write_scope x) ((held @ tk_write_scope t) @ concat (map tk_write_scope new))
        \<or> (\<exists>c \<in> set (ready @ [t]). scopes_overlap (tk_write_scope x) (tk_write_scope c))" by blast
    with more show ?thesis
      unfolding eq by (intro exI [of _ "t # new"]) (auto simp: scopes_overlap_append)
  qed
qed

lemma graph_edges_closed:
  assumes "planner_ok w"
  shows "edges_closed (tasks_for_graph w gid) (edges_for_graph w gid)"
proof -
  have ok: "world_ok w" and refs: "refs_ok w" using assms by (simp_all add: planner_ok_def)
  have "distinct (map tk_id (tasks_for_graph w gid))"
    unfolding tasks_for_graph_def by (rule distinct_map_filter [OF keyed_distinct [OF world_okD(3) [OF ok]]])
  moreover have "te_from d \<in> tk_id ` set (tasks_for_graph w gid) \<and> te_to d \<in> tk_id ` set (tasks_for_graph w gid)"
    if d: "d \<in> set (edges_for_graph w gid)" for d
  proof -
    have "d \<in> set (dict_values (edges w))" "te_graph d = gid" using d by (auto simp: edges_for_graph_def)
    then obtain a b where ab: "dict_get (tasks w) (te_from d) = Some a" "tk_graph a = gid"
        "dict_get (tasks w) (te_to d) = Some b" "tk_graph b = gid"
      using refs unfolding refs_ok_def by blast
    note ids = keyed_get [OF world_okD(3) [OF ok] ab(1)] keyed_get [OF world_okD(3) [OF ok] ab(3)]
    have "a \<in> set (tasks_for_graph w gid)" "b \<in> set (tasks_for_graph w gid)"
      using dict_get_value [OF ab(1)] dict_get_value [OF ab(3)] ab(2,4) by (simp_all add: tasks_for_graph_def)
    with ids show ?thesis by (metis imageI)
  qed
  ultimately show ?thesis unfolding edges_closed_def by blast
qed

subsection \<open>Replanning\<close>

lemma statuses_lookup:
  assumes "distinct (map tk_id ts)" and "t \<in> set ts"
  shows "dict_get (foldl (\<lambda>d t. dict_set (tk_id t) (tk_status t) d) [] ts) (tk_id t) = Some (tk_status t)"
  using assms
proof (induction ts rule: rev_induct)
  case (snoc x ts)
  then show ?case by (cases "t = x") (auto simp: dict_get_set image_iff)
qed simp

lemma finished_ids:
  assumes "distinct (map tk_id ts)" and "t \<in> set ts"
  shows "tk_id t \<in> set (map tk_id (filter (\<lambda>t. tk_status t = ''COMPLETED'') ts)) \<longleftrightarrow> tk_status t = ''COMPLETED''"
  using assms by (auto simp: distinct_map inj_on_def)

lemma replan_eq:
  assumes "dict_get (graphs w) gid = Some g" and "tg_status g = ''ACTIVE''"
    and "\<not> list_ex (\<lambda>k. k \<in> set (dict_keys fl @ map tk_id (tasks_for_graph w gid))) unknown"
    and "classify_dispositions (map tk_id (tasks_for_graph w gid))
      (foldl (\<lambda>d t. dict_set (tk_id t) (tk_status t) d) [] (tasks_for_graph w gid)) (dict_keys fl)
      (map tk_id (filter (\<lambda>t. tk_status t = ''COMPLETED'') (tasks_for_graph w gid)))
      (map tk_id (filter (\<lambda>t. tk_status t = ''COMPLETED'') (tasks_for_graph w gid))) trigger None = (ds, xs)"
  shows "\<exists>g' w'. replan gid trigger unknown fl w =
      (Inr \<lparr>rp_graph = gid, rp_trigger = trigger, rp_dispositions = ds, rp_explanations = xs\<rparr>, w')
    \<and> dict_get (graphs w') gid = Some g' \<and> tg_status g' = ''SUPERSEDED'' \<and> tg_lock_version g' = tg_lock_version g + 2
    \<and> tasks w' = tasks w \<and> edges w' = edges w \<and> missions w' = missions w \<and> log w' = log w"
proof -
  let ?g1 = "graph_at g ''REPLANNING'' (fst (clock_now (outside w)))"
  let ?w1 = "w\<lparr>outside := snd (clock_now (outside w)), graphs := dict_set gid ?g1 (graphs w)\<rparr>"
  have 1: "put_status gid g ''REPLANNING'' w = (Inr ?g1, ?w1)"
    by (rule put_status_eq) (simp add: assms(2) succs_def GRAPH_TRANSITIONS_def)
  let ?g2 = "graph_at ?g1 ''SUPERSEDED'' (fst (clock_now (outside ?w1)))"
  let ?w2 = "?w1\<lparr>outside := snd (clock_now (outside ?w1)), graphs := dict_set gid ?g2 (graphs ?w1)\<rparr>"
  have 2: "put_status gid ?g1 ''SUPERSEDED'' ?w1 = (Inr ?g2, ?w2)"
    by (rule put_status_eq) simp
  have "replan gid trigger unknown fl w =
      (Inr \<lparr>rp_graph = gid, rp_trigger = trigger, rp_dispositions = ds, rp_explanations = xs\<rparr>, ?w2)"
    unfolding replan_def Let_def if_not_P [OF assms(3)]
    by (simp add: require_graph_def assms(1) and_then_def 1 assms(4) dict_get_set 2 [simplified])
  then show ?thesis by (simp add: dict_get_set)
qed

text \<open>What a schedule promises, and what the dispositions of a replan promise.\<close>

definition schedule_ok :: "task list \<Rightarrow> task_graph_edge list \<Rightarrow> task list \<Rightarrow> int \<Rightarrow> task list \<Rightarrow> bool" where
  "schedule_ok ts es running capacity ready \<longleftrightarrow> subseq ready (sort_key tk_id ts)
    \<and> list_all (startable ts es) ready \<and> disjoint_scopes ready
    \<and> list_all (\<lambda>t. \<not> scopes_overlap (tk_write_scope t) (concat (map tk_write_scope running))) ready
    \<and> (ready \<noteq> [] \<longrightarrow> int (length running + length ready) \<le> max capacity (int (length running) + 1))
    \<and> list_all (\<lambda>t. startable ts es t \<longrightarrow> t \<in> set ready \<or> capacity \<le> int (length running + length ready)
        \<or> scopes_overlap (tk_write_scope t) (concat (map tk_write_scope (running @ ready)))) ts"

definition dispositions_ok :: "task list \<Rightarrow> string \<Rightarrow> uuid list \<Rightarrow> replan_decision \<Rightarrow> bool" where
  "dispositions_ok ts trigger flying d \<longleftrightarrow>
    (\<forall>t \<in> set ts. \<exists>x. dict_get (rp_dispositions d) (tk_id t) = Some x
      \<and> (if tk_status t \<in> {''COMPLETED'', ''RETIRED'', ''SUPERSEDED''}
         then x = (if tk_status t = ''COMPLETED'' \<and> trigger = ''WRONG_PRODUCT'' then ''REVERT'' else ''PRESERVE'')
         else x = (if trigger \<in> set INVALIDATING then ''SUPERSEDE''
                   else if tk_id t \<in> set flying then ''QUIESCE'' else ''PRESERVE''))
      \<and> (x \<in> {''SUPERSEDE'', ''REVERT''} \<longrightarrow> dict_get (rp_explanations d) (tk_id t) \<noteq> None))"

lemma replan_dispositions:
  fixes w gid
  defines "ts \<equiv> tasks_for_graph w gid"
  defines "st \<equiv> foldl (\<lambda>d t. dict_set (tk_id t) (tk_status t) d) [] ts"
  defines "fin \<equiv> map tk_id (filter (\<lambda>t. tk_status t = ''COMPLETED'') ts)"
  assumes ok: "planner_ok w"
    and cl: "classify_dispositions (map tk_id ts) st flying fin fin trigger None = (ds, xs)"
  shows "dispositions_ok ts trigger flying \<lparr>rp_graph = gid, rp_trigger = trigger, rp_dispositions = ds, rp_explanations = xs\<rparr>"
  unfolding dispositions_ok_def
proof (rule ballI)
  fix t assume t: "t \<in> set ts"
  have dist: "distinct (map tk_id ts)"
    using graph_edges_closed [OF ok, of gid] by (simp add: ts_def edges_closed_def)
  have in_ts: "tk_id t \<in> set (map tk_id ts)" using t by simp
  note look = classify_dispositions_lookup [OF cl, of "tk_id t"]
  have "dict_get st (tk_id t) = Some (tk_status t)" unfolding st_def by (rule statuses_lookup [OF dist t])
  moreover have "tk_id t \<in> set fin \<longleftrightarrow> tk_status t = ''COMPLETED''" unfolding fin_def by (rule finished_ids [OF dist t])
  ultimately show "\<exists>x. dict_get (rp_dispositions \<lparr>rp_graph = gid, rp_trigger = trigger, rp_dispositions = ds, rp_explanations = xs\<rparr>) (tk_id t) = Some x
      \<and> (if tk_status t \<in> {''COMPLETED'', ''RETIRED'', ''SUPERSEDED''}
         then x = (if tk_status t = ''COMPLETED'' \<and> trigger = ''WRONG_PRODUCT'' then ''REVERT'' else ''PRESERVE'')
         else x = (if trigger \<in> set INVALIDATING then ''SUPERSEDE''
                   else if tk_id t \<in> set flying then ''QUIESCE'' else ''PRESERVE''))
      \<and> (x \<in> {''SUPERSEDE'', ''REVERT''} \<longrightarrow>
          dict_get (rp_explanations \<lparr>rp_graph = gid, rp_trigger = trigger, rp_dispositions = ds, rp_explanations = xs\<rparr>) (tk_id t) \<noteq> None)"
    using look(1) look(2) [OF in_ts] in_ts by (simp add: classify_task_def)
qed

lemma schedule_answers:
  assumes "planner_ok w"
  shows "\<exists>ready. schedule gid capacity in_flight w = Inr ready
    \<and> schedule_ok (tasks_for_graph w gid) (edges_for_graph w gid) (running_tasks in_flight (tasks_for_graph w gid)) capacity ready"
proof -
  have "disjoint_scopes []" by (simp add: disjoint_scopes_def)
  from schedule_loop_spec [OF graph_edges_closed [OF assms, of gid] this, of
      "length (running_tasks in_flight (tasks_for_graph w gid))" capacity "sort_key tk_id (tasks_for_graph w gid)"
      "concat (map tk_write_scope (running_tasks in_flight (tasks_for_graph w gid)))"]
  show ?thesis unfolding schedule_def schedule_ok_def Let_def by (auto simp: list_all_iff)
qed

subsection \<open>A plan goes live\<close>

lemma planner_gates_closed:
  assumes "planner_ok w"
  shows "gates_closed (graph_snapshot w gid) (edges_for_graph w gid) (tasks_for_graph w gid)"
proof -
  have cl: "edges_closed (tasks_for_graph w gid) (edges_for_graph w gid)" by (rule graph_edges_closed [OF assms])
  have "dict_get (graph_snapshot w gid) (te_from d) \<noteq> None" if "d \<in> set (edges_for_graph w gid)" for d
    using cl that unfolding edges_closed_def dict_get_None by (auto simp: image_image)
  then show ?thesis unfolding gates_closed_def by blast
qed

lemma activate_approved:
  assumes ok: "planner_ok w" and g: "dict_get (graphs w) gid = Some g" "tg_status g = ''APPROVED''"
  shows "\<exists>g' w'. activate_graph gid (tg_lock_version g) w = (Inr g', w') \<and> tg_status g' = ''ACTIVE''
    \<and> planner_ok w' \<and> edges w' = edges w \<and> dict_keys (tasks w') = dict_keys (tasks w)
    \<and> (\<forall>t \<in> set (tasks_for_graph w gid). \<exists>t'. dict_get (tasks w') (tk_id t) = Some t'
        \<and> readied t (due_status (graph_snapshot w gid) (edges_for_graph w gid) t) t')"
proof -
  let ?now = "fst (clock_now (outside w))"
  let ?g = "g\<lparr>tg_status := ''ACTIVE'', tg_lock_version := tg_lock_version g + 1, tg_updated_at := ?now\<rparr>"
  let ?w = "w\<lparr>outside := snd (clock_now (outside w)), graphs := dict_set gid ?g (graphs w)\<rparr>"
  have w: "world_ok w" "refs_ok w" using ok by (simp_all add: planner_ok_def)
  note gw = graph_write_shape [OF w(1) g(1), of ?g, simplified]
  have pok: "planner_ok ?w" using refs_ok_shape [OF w(2) gw(2) w(1) gw(1)] gw(1) by (simp add: planner_ok_def)
  have q: "tasks_for_graph ?w gid = tasks_for_graph w gid" "edges_for_graph ?w gid = edges_for_graph w gid"
    by (rule graph_queries_frame, simp)+
  obtain w' where w': "refresh_task_readiness gid ?w = (Inr (), w')"
      "refreshed (graph_snapshot ?w gid) (edges_for_graph ?w gid) (tasks_for_graph ?w gid) ?w w'"
    using refresh_tasks_spec [OF tasks_for_graph_current(1) [OF gw(1)] planner_gates_closed [OF pok]]
    unfolding refresh_task_readiness_eq [OF gw(1)] by blast
  have act: "activate_graph gid (tg_lock_version g) w = (Inr ?g, w')"
    using g w'(1) by (simp add: activate_graph_def require_graph_def now_w_eq transition_def and_then_def)
  have "planner_ok w'"
    using kernel_step_planner_ok [OF kernel_step.activate_graph [of w gid "tg_lock_version g"] ok] by (simp add: act)
  moreover have "edges w' = edges w" "dict_keys (tasks w') = dict_keys (tasks w)"
    using w'(2) by (simp_all add: refreshed_def)
  moreover have "\<forall>t \<in> set (tasks_for_graph w gid). \<exists>t'. dict_get (tasks w') (tk_id t) = Some t'
        \<and> readied t (due_status (graph_snapshot w gid) (edges_for_graph w gid) t) t'"
    using w'(2) unfolding refreshed_def q by blast
  ultimately show ?thesis using act by (intro exI [of _ ?g] exI [of _ w']) simp
qed

text \<open>In an acyclic graph some task has nothing to wait for.\<close>

lemma source_task:
  assumes "ts \<noteq> []" and "\<nexists>v. (v, v) \<in> (set (dep_pairs es))\<^sup>+"
  obtains t where "t \<in> set ts" and "\<And>d. d \<in> set es \<Longrightarrow> te_to d = tk_id t \<Longrightarrow> te_type d \<in> set DEPENDENCY_EDGES \<Longrightarrow>
    te_from d \<notin> tk_id ` set ts"
proof -
  have "wf (set (dep_pairs es))"
    by (rule finite_acyclic_wf) (use assms(2) in \<open>auto simp: acyclic_def\<close>)
  moreover obtain x where "x \<in> tk_id ` set ts" using assms(1) by (cases ts) auto
  ultimately obtain z where z: "z \<in> tk_id ` set ts" "\<And>y. (y, z) \<in> set (dep_pairs es) \<Longrightarrow> y \<notin> tk_id ` set ts"
    by (rule wfE_min) blast
  then obtain t where t: "t \<in> set ts" "z = tk_id t" by blast
  show thesis
  proof (rule that [OF t(1)])
    fix d assume "d \<in> set es" "te_to d = tk_id t" "te_type d \<in> set DEPENDENCY_EDGES"
    then have "(te_from d, z) \<in> set (dep_pairs es)" by (auto simp: dep_pairs_def t(2))
    then show "te_from d \<notin> tk_id ` set ts" by (rule z(2))
  qed
qed

lemma starting_dependency: "set STARTING_EDGES \<subseteq> set DEPENDENCY_EDGES"
  by (simp add: STARTING_EDGES_def DEPENDENCY_EDGES_def)

lemma gates_starting: "gates d t \<Longrightarrow> te_to d = tk_id t \<and> te_type d \<in> set STARTING_EDGES"
  by (auto simp: gates_def STARTING_EDGES_def)

text \<open>Right after activation nothing runs, and a task that waits for nothing can be scheduled.\<close>

lemma activated_schedules:
  assumes ok: "planner_ok w" and g: "dict_get (graphs w) gid = Some g" "tg_status g = ''APPROVED''"
    and ne: "tasks_for_graph w gid \<noteq> []" and new: "\<forall>t \<in> set (tasks_for_graph w gid). tk_status t = ''CREATED''"
    and acyc: "\<nexists>v. (v, v) \<in> (set (dep_pairs (edges_for_graph w gid)))\<^sup>+"
  shows "\<exists>g' w' ready. activate_graph gid (tg_lock_version g) w = (Inr g', w') \<and> tg_status g' = ''ACTIVE''
    \<and> schedule gid 1 None w' = Inr ready \<and> ready \<noteq> []"
proof -
  let ?ts = "tasks_for_graph w gid" and ?es = "edges_for_graph w gid"
  obtain g' w' where act: "activate_graph gid (tg_lock_version g) w = (Inr g', w')" "tg_status g' = ''ACTIVE''"
      "planner_ok w'" "edges w' = edges w" "dict_keys (tasks w') = dict_keys (tasks w)"
    and rd: "\<forall>t \<in> set ?ts. \<exists>t'. dict_get (tasks w') (tk_id t) = Some t' \<and> readied t (due_status (graph_snapshot w gid) ?es t) t'"
    using activate_approved [OF ok g] by blast
  have shape: "same_shape w w'"
    using activate_graph_shape [of w gid "tg_lock_version g"] ok act(1) by (simp add: planner_ok_def)
  have es: "edges_for_graph w' gid = ?es" by (rule graph_queries_frame(2) [OF act(4)])
  have kd: "keyed tk_id (tasks w)" "keyed tk_id (tasks w')" using ok act(3) by (simp_all add: planner_ok_def world_okD)
  have origin: "\<exists>t \<in> set ?ts. tk_id t = tk_id t' \<and> readied t (due_status (graph_snapshot w gid) ?es t) t'"
    if t': "t' \<in> set (tasks_for_graph w' gid)" for t'
  proof -
    have get': "dict_get (tasks w') (tk_id t') = Some t'" using t' keyed_in [OF kd(2)] by (simp add: tasks_for_graph_def)
    obtain t where t: "dict_get (tasks w) (tk_id t') = Some t" "tk_graph t = tk_graph t'"
      by (rule same_shape_origin [OF shape get'])
    have id: "tk_id t = tk_id t'" by (rule keyed_get [OF kd(1) t(1)])
    have "t \<in> set ?ts" using dict_get_value [OF t(1)] t(2) t' by (simp add: tasks_for_graph_def)
    with rd get' id show ?thesis by force
  qed
  have due: "due_status (graph_snapshot w gid) ?es t \<in> {''READY'', ''BLOCKED''}" if "t \<in> set ?ts" for t
    using new that by (simp add: due_status_def)
  have status: "tk_status t' \<in> {''READY'', ''BLOCKED''}" if t': "t' \<in> set (tasks_for_graph w' gid)" for t'
  proof -
    from origin [OF t'] obtain t where t: "t \<in> set ?ts" "readied t (due_status (graph_snapshot w gid) ?es t) t'" by blast
    with due [OF t(1)] new have "due_status (graph_snapshot w gid) ?es t \<noteq> tk_status t" by force
    with readied_changed [OF t(2)] due [OF t(1)] show ?thesis by simp
  qed
  then have idle: "running_tasks None (tasks_for_graph w' gid) = []"
    by (fastforce simp: running_tasks_def IN_FLIGHT_TASK_def filter_empty_conv)
  obtain s where s: "s \<in> set ?ts"
      "\<And>d. d \<in> set ?es \<Longrightarrow> te_to d = tk_id s \<Longrightarrow> te_type d \<in> set DEPENDENCY_EDGES \<Longrightarrow> te_from d \<notin> tk_id ` set ?ts"
    using source_task [OF ne acyc] by blast
  have free: "\<not> (te_to d = tk_id s \<and> te_type d \<in> set STARTING_EDGES)" if "d \<in> set ?es" for d
    using s(2) [OF that] graph_edges_closed [OF ok, of gid] that starting_dependency unfolding edges_closed_def by blast
  then have "due_status (graph_snapshot w gid) ?es s = ''READY''"
    using new s(1) gates_starting by (auto simp: due_status_def)
  with rd s(1) new obtain s' where s': "dict_get (tasks w') (tk_id s) = Some s'" "readied s ''READY'' s'" by force
  have "tk_status s' = ''READY''" using readied_changed [OF s'(2)] new s(1) by simp
  moreover have id: "tk_id s' = tk_id s" by (rule keyed_get [OF kd(2) s'(1)])
  moreover have "tk_graph s' = gid"
  proof -
    have "dict_get (tasks w) (tk_id s) = Some s" using s(1) keyed_in [OF kd(1)] by (simp add: tasks_for_graph_def)
    with same_shape_origin [OF shape s'(1)] have "tk_graph s' = tk_graph s" by force
    with s(1) show ?thesis by (simp add: tasks_for_graph_def)
  qed
  ultimately have mem: "s' \<in> set (tasks_for_graph w' gid)" and start: "startable (tasks_for_graph w' gid) ?es s'"
    using dict_get_value [OF s'(1)] free by (auto simp: tasks_for_graph_def startable_def)
  obtain ready where ready: "schedule gid 1 None w' = Inr ready"
      "schedule_ok (tasks_for_graph w' gid) (edges_for_graph w' gid) (running_tasks None (tasks_for_graph w' gid)) 1 ready"
    using schedule_answers [OF act(3)] by blast
  have "ready \<noteq> []"
    using ready(2) mem start unfolding schedule_ok_def idle es by (auto simp: list_all_iff list_ex_iff scopes_overlap_def)
  with act(1,2) ready(1) show ?thesis by blast
qed

lemma sample_planner_ok: "planner_ok (sample_world a b)"
  by (simp add: planner_ok_def sample_world_ok refs_ok_def) (simp add: sample_task_def sample_edge_def)

text \<open>
  The capacity is compared after a task was taken: with the capacity filled by a running task, one more
  task is scheduled.
\<close>

lemma schedule_over_capacity:
  "schedule ''i'' 1 (Some [sample_task ''z'' ''EXECUTING'']) (sample_world ''COMPLETED'' ''READY'')
    = Inr [sample_task ''iii'' ''READY'']"
  by (simp add: schedule_def tasks_for_graph_def edges_for_graph_def running_tasks_def sample_task_def sample_edge_def
      blocked_on_decision_def ready_predecessors_complete_def by_id_dict_def scopes_overlap_def)

section \<open>Properties\<close>

text \<open>
  C23. Planning works from start to end. For a stored mission that matches a registered template and whose
  requirements, at least one, are approved, planning writes a draft graph, validation accepts it, activation
  makes it ACTIVE, and the scheduler then has a first task to run.
\<close>

theorem plan_goes_live:
  assumes "planner_ok w" and "mi_id m \<in> set (dict_keys (missions w))" and "chosen_template m tid \<noteq> None"
    and "mi_requirement_refs m \<noteq> []" and "set (mi_requirement_refs m) \<subseteq> set approved"
  shows "\<exists>g w1 r w2 g' w3 ready. plan m approved created_by tid w = (Inr g, w1) \<and> tg_mission g = mi_id m
    \<and> validate (tg_id g) approved w1 = (Inr r, w2) \<and> vr_valid r
    \<and> activate_graph (tg_id g) (tg_lock_version g + 2) w2 = (Inr g', w3) \<and> tg_status g' = ''ACTIVE''
    \<and> schedule (tg_id g) 1 None w3 = Inr ready \<and> ready \<noteq> []"
proof -
  have w: "world_ok w" using assms(1) by (simp add: planner_ok_def)
  then obtain g ts es e' where pl: "plan m approved created_by tid w = (Inr g, put_graph g ts es (w\<lparr>outside := e'\<rparr>))"
      "planned_into m w g ts es e'" "plan_shaped m ts es"
    by (rule plan_cases [of w m approved created_by tid]) (use assms(3,5) in auto)
  let ?w1 = "put_graph g ts es (w\<lparr>outside := e'\<rparr>)" and ?gid = "tg_id g"
  note c = put_graph_contents [OF assms(1) pl(2)]
  have ok1: "planner_ok ?w1" by (rule put_graph_ok [OF assms(1) pl(2) assms(2)])
  have f: "plan_fresh m ?gid (snd (uuid7 (outside w))) e' ts es" and g: "tg_status g = ''DRAFT''" "graph_hash ts es = Inr (tg_hash g)"
      "tg_mission g = mi_id m"
    using pl(2) unfolding planned_into_def by blast+
  obtain r where r: "validate_graph ts es (Some (tg_hash g)) (Some approved) = Inr r" "vr_valid r"
    using validate_graph_report [OF plan_fresh_closed [OF f], of "tg_hash g" "Some approved"] pl(3) g(2) assms(4,5)
    unfolding plan_shaped_def by blast
  obtain n1 n2 w2 where v: "validate ?gid approved ?w1 = (Inr r, w2)" "tasks w2 = tasks ?w1" "edges w2 = edges ?w1"
      and g2: "dict_get (graphs w2) ?gid = Some (graph_at (graph_at g ''VALIDATING'' n1) (if vr_valid r then ''APPROVED'' else ''REJECTED'') n2)"
    using validate_draft [OF c(3) g(1), of approved r] r(1) unfolding c(1,2) by blast
  let ?g2 = "graph_at (graph_at g ''VALIDATING'' n1) ''APPROVED'' n2"
  have ok2: "planner_ok w2" using validate_ok [OF ok1, of ?gid approved] by (simp add: v(1))
  have q: "tasks_for_graph w2 ?gid = ts" "edges_for_graph w2 ?gid = es"
    using c(1,2) graph_queries_frame(1) [OF v(2)] graph_queries_frame(2) [OF v(3)] by simp_all
  have lock: "tg_lock_version ?g2 = tg_lock_version g + 2" by simp
  have "\<exists>g' w' ready. activate_graph ?gid (tg_lock_version ?g2) w2 = (Inr g', w') \<and> tg_status g' = ''ACTIVE''
      \<and> schedule ?gid 1 None w' = Inr ready \<and> ready \<noteq> []"
    by (rule activated_schedules [OF ok2]) (use g2 r(2) pl(3) f q in \<open>simp_all add: plan_shaped_def plan_fresh_def\<close>)
  with pl(1) g(3) v(1) r(2) show ?thesis unfolding lock by blast
qed

definition sample_request :: mission where
  "sample_request = sample_mission\<lparr>mi_title := ''Add a route'', mi_requirement_refs := [''r'']\<rparr>"

theorem plan_goes_live_witness:
  "\<exists>g w1 r w2 g' w3 ready. plan sample_request [''r''] ''u'' (Some ''add_endpoint'') (sample_world ''READY'' ''READY'') = (Inr g, w1)
    \<and> tg_mission g = mi_id sample_request
    \<and> validate (tg_id g) [''r''] w1 = (Inr r, w2) \<and> vr_valid r
    \<and> activate_graph (tg_id g) (tg_lock_version g + 2) w2 = (Inr g', w3) \<and> tg_status g' = ''ACTIVE''
    \<and> schedule (tg_id g) 1 None w3 = Inr ready \<and> ready \<noteq> []"
proof (rule plan_goes_live [OF sample_planner_ok])
  show "mi_id sample_request \<in> set (dict_keys (missions (sample_world ''READY'' ''READY'')))"
    using dict_get_key [OF sample_world_simps(1)] by (simp only: sample_request_def sample_mission_def mission.simps mission.ext_inject mission.update_convs)
  show "chosen_template sample_request (Some ''add_endpoint'') \<noteq> None"
    by (simp add: chosen_template_def TEMPLATES_def)
qed (simp_all add: sample_request_def)





end
