(* ===== verification/Services.thy ===== *)
theory Services
  imports Events Hashing
begin

text \<open>
  What the PostgreSQL services share. A service runs its body in one unit of work
  (\<open>engine/truth/db.py\<close>, \<open>open_unit_of_work\<close>): an exception rolls every table back, and transactions are
  taken one after the other. The part of the database every service writes is the event log with its
  outbox and the command ledger; a service's own tables extend the record \<open>db\<close>. What was drawn from
  \<open>uuid7()\<close> and the clock is not given back by a rollback. The tables are those of one tenant and
  project, the rows the session's row-level security shows.
\<close>

section \<open>Units of work\<close>

record db =
  db_log :: event_store
  db_env :: env

text \<open>\<open>_run\<close> without a unit of work of the caller: commit the result, or roll back and raise.\<close>

definition transact :: "('x db_scheme \<Rightarrow> 'r result \<times> 'x db_scheme) \<Rightarrow> 'x db_scheme \<Rightarrow> 'r result \<times> 'x db_scheme" where
  "transact body d =
    (case body d of
       (Inl e, d') \<Rightarrow> (Inl e, d\<lparr>db_env := db_env d'\<rparr>)
     | (Inr r, d') \<Rightarrow> (Inr r, d'))"

definition read_clock :: "'x db_scheme \<Rightarrow> time \<times> 'x db_scheme" where
  "read_clock d = (case clock_now (db_env d) of (t, e) \<Rightarrow> (t, d\<lparr>db_env := e\<rparr>))"

definition draw_id :: "'x db_scheme \<Rightarrow> uuid \<times> 'x db_scheme" where
  "draw_id d = (case uuid7 (db_env d) of (i, e) \<Rightarrow> (i, d\<lparr>db_env := e\<rparr>))"

text \<open>\<open>EventService.append\<close> inside the caller's unit of work.\<close>

definition append_event :: "event_args \<Rightarrow> 'x db_scheme \<Rightarrow> event result \<times> 'x db_scheme" where
  "append_event a d =
    (case draw_stamp a (db_env d) of
       (st, e) \<Rightarrow> (case db_event_append st a (db_log d) of
         (r, s) \<Rightarrow> (r, d\<lparr>db_log := s, db_env := e\<rparr>)))"

text \<open>\<open>CommandLedger.begin\<close> without a command identifier of the caller and with the default retention.\<close>

definition begin_command ::
  "uuid \<Rightarrow> uuid \<Rightarrow> string \<Rightarrow> string \<Rightarrow> 'x db_scheme \<Rightarrow> (command_idempotency \<times> bool) result \<times> 'x db_scheme"
where
  "begin_command tenant project ikey request_hash d =
    (let (now, d1) = read_clock d;
         (cid, d2) = draw_id d1
     in case ledger_begin now cid tenant project ikey request_hash None None (db_log d2) of
          (r, s) \<Rightarrow> (r, d2\<lparr>db_log := s\<rparr>))"

definition complete_command :: "uuid \<Rightarrow> json \<Rightarrow> 'x db_scheme \<Rightarrow> command_idempotency result \<times> 'x db_scheme" where
  "complete_command cid res d =
    (let (now, d1) = read_clock d in
     case ledger_complete now cid res (db_log d1) of (r, s) \<Rightarrow> (r, d1\<lparr>db_log := s\<rparr>))"

section \<open>Frames\<close>

text \<open>The tables of a service beside the log: what every shared operation leaves alone.\<close>

lemma read_clock_eq: "read_clock d = (fst (clock_now (db_env d)), d\<lparr>db_env := snd (clock_now (db_env d))\<rparr>)"
  by (simp add: read_clock_def split: prod.splits)

lemma draw_id_eq: "draw_id d = (fst (uuid7 (db_env d)), d\<lparr>db_env := snd (uuid7 (db_env d))\<rparr>)"
  by (simp add: draw_id_def split: prod.splits)

lemma shared_frame [simp]:
  "db.more (snd (read_clock d)) = db.more d" "db.more (snd (draw_id d)) = db.more d"
  "db.more (snd (append_event a d)) = db.more d" "db.more (snd (begin_command t p k h d)) = db.more d"
  "db.more (snd (complete_command c j d)) = db.more d"
  by (simp_all add: read_clock_eq draw_id_eq append_event_def begin_command_def complete_command_def split: prod.splits)

text \<open>A transaction that fails changes nothing but the environment.\<close>

lemma transact_Inl: "transact body d = (Inl e, d') \<Longrightarrow> db_log d' = db_log d \<and> db.more d' = db.more d"
  by (auto simp: transact_def split: prod.splits sum.splits)

lemma transact_Inr: "transact body d = (Inr r, d') \<longleftrightarrow> body d = (Inr r, d')"
  by (auto simp: transact_def split: prod.splits sum.splits)

section \<open>Invariant\<close>

text \<open>
  The log is well formed, and every identifier in it was drawn, so the next one drawn is new. Ledger rows
  are stored under their tenant and key, with commands of their own.
\<close>

definition log_ok :: "'x db_scheme \<Rightarrow> bool" where
  "log_ok d \<longleftrightarrow> inj (ids (db_env d)) \<and> db_ok (db_log d)
    \<and> ev_id ` set (es_events (db_log d)) \<union> set (dict_keys (es_outbox (db_log d)))
      \<union> ci_command ` set (dict_values (es_commands (db_log d))) \<subseteq> drawn_ids (db_env d)
    \<and> distinct (map ci_command (dict_values (es_commands (db_log d))))"

lemma log_okD:
  assumes "log_ok d"
  shows "inj (ids (db_env d))" "gapless (es_events (db_log d))" "outbox_ok (db_log d)" "commands_ok (db_log d)"
    "ev_id ` set (es_events (db_log d)) \<subseteq> drawn_ids (db_env d)" "set (dict_keys (es_outbox (db_log d))) \<subseteq> drawn_ids (db_env d)"
    "ci_command ` set (dict_values (es_commands (db_log d))) \<subseteq> drawn_ids (db_env d)"
    "distinct (map ci_command (dict_values (es_commands (db_log d))))"
  using assms by (auto simp: log_ok_def db_ok_def)

lemma log_okI:
  assumes "inj (ids (db_env d))" and "db_ok (db_log d)" and "ev_id ` set (es_events (db_log d)) \<subseteq> drawn_ids (db_env d)"
    and "set (dict_keys (es_outbox (db_log d))) \<subseteq> drawn_ids (db_env d)"
    and "ci_command ` set (dict_values (es_commands (db_log d))) \<subseteq> drawn_ids (db_env d)"
    and "distinct (map ci_command (dict_values (es_commands (db_log d))))"
  shows "log_ok d"
  unfolding log_ok_def using assms by (intro conjI Un_least)

lemma log_ok_env:
  assumes "log_ok d" and "db_log d' = db_log d" and "env_le (db_env d) (db_env d')"
  shows "log_ok d'"
proof -
  have "ids (db_env d') = ids (db_env d)" using assms(3) by (simp add: env_le_def)
  then show ?thesis
    using assms(1) order_trans [OF _ env_le_drawn [OF assms(3)]] unfolding log_ok_def assms(2) by metis
qed

lemma log_ok_clock [inv_intros]: "log_ok d \<Longrightarrow> log_ok (d\<lparr>db_env := snd (clock_now (db_env d))\<rparr>)"
  by (erule log_ok_env) simp_all

lemma log_ok_draw [inv_intros]:
  assumes "log_ok d"
  shows "log_ok (d\<lparr>db_env := snd (uuid7 (db_env d))\<rparr>)" and "fst (uuid7 (db_env d)) \<notin> drawn_ids (db_env d)"
    and "fst (uuid7 (db_env d)) \<in> drawn_ids (snd (uuid7 (db_env d)))"
  by (rule log_ok_env [OF assms]) (use uuid7_fresh [OF log_okD(1) [OF assms]] drawn_ids_uuid7 [of "db_env d"] in simp_all)

text \<open>Beside the log, the state a rollback restores has an unchanged log and a later environment.\<close>

lemma draw_stamp_le: "draw_stamp a e = (st, e') \<Longrightarrow> env_le e e' \<and> st_event st \<in> drawn_ids e' \<and> (inj (ids e) \<longrightarrow> st_event st \<notin> drawn_ids e)"
  by (auto simp: draw_stamp_def clock_now_def uuid7_def drawn_ids_def env_le_def lessThan_Suc inj_eq
      split: option.splits list.splits)

lemma append_event_ok:
  assumes ok: "log_ok d"
  obtains e s e' where "append_event a d = (Inr e, d\<lparr>db_log := s, db_env := e'\<rparr>)"
    and "log_ok (d\<lparr>db_log := s, db_env := e'\<rparr>)" and "env_le (db_env d) e'"
    and "es_events s = es_events (db_log d) @ [e]" and "es_commands s = es_commands (db_log d)"
    and "ev_type e = ea_type a" "ev_aggregate_type e = ea_aggregate_type a" "ev_aggregate_id e = ea_aggregate_id a"
      "ev_payload e = ea_payload a"
proof -
  obtain st e' where st: "draw_stamp a (db_env d) = (st, e')" by force
  note ids = draw_stamp_ids [OF st] and le = draw_stamp_le [OF st]
  have fresh: "db_fresh st (db_log d)"
    using ids(4) le log_okD(1,5,6) [OF ok] by (auto simp: db_fresh_def)
  let ?e = "stamped_event st a (db_next_sequence (db_log d) (ea_aggregate_type a, ea_aggregate_id a))"
  let ?s = "(db_log d)\<lparr>es_events := es_events (db_log d) @ [?e],
      es_outbox := dict_set (st_outbox st) (pending_row st ?e) (es_outbox (db_log d))\<rparr>"
  have ap: "db_event_append st a (db_log d) = (Inr ?e, ?s)" by (rule db_event_append_fresh [OF fresh])
  have "db_ok (db_log d)" using ok by (simp add: log_ok_def)
  then have dbok: "db_ok ?s" using postgres_log.emit_invar [of "db_log d" st a] fresh by (simp add: ap)
  have keys: "set (dict_keys (es_outbox ?s)) = insert (st_outbox st) (set (dict_keys (es_outbox (db_log d))))"
    by (simp add: dict_keys_set del: set_map)
  note sub = order_trans [OF log_okD(5) [OF ok] ids(2)] order_trans [OF log_okD(6) [OF ok] ids(2)]
    order_trans [OF log_okD(7) [OF ok] ids(2)]
  have "log_ok (d\<lparr>db_log := ?s, db_env := e'\<rparr>)"
  proof (rule log_okI)
    show "set (dict_keys (es_outbox (db_log (d\<lparr>db_log := ?s, db_env := e'\<rparr>)))) \<subseteq> drawn_ids (db_env (d\<lparr>db_log := ?s, db_env := e'\<rparr>))"
      using keys sub(2) ids(3) by simp
  qed (use log_okD [OF ok] dbok ids(1) le sub in simp_all)
  moreover have "append_event a d = (Inr ?e, d\<lparr>db_log := ?s, db_env := e'\<rparr>)"
    by (simp add: append_event_def st ap)
  ultimately show thesis using le by (intro that [of ?e e' ?s]) simp_all
qed

lemma begin_command_cases:
  assumes ok: "log_ok d"
  obtains (new) r s e' where "begin_command t p k h d = (Inr (r, True), d\<lparr>db_log := s, db_env := e'\<rparr>)"
      "(t, k) \<notin> set (dict_keys (es_commands (db_log d)))" "log_ok (d\<lparr>db_log := s, db_env := e'\<rparr>)" "env_le (db_env d) e'"
      "es_commands s = es_commands (db_log d) @ [((t, k), r)]" "es_events s = es_events (db_log d)"
      "ci_tenant r = t" "ci_key r = k" "ci_request_hash r = h" "ci_status r = ''in_progress''"
      "ci_command r \<notin> drawn_ids (db_env d)"
  | (old) r c e' where "begin_command t p k h d = (r, d\<lparr>db_env := e'\<rparr>)" "dict_get (es_commands (db_log d)) (t, k) = Some c"
      "env_le (db_env d) e'" "r = Inr (c, False) \<and> ci_request_hash c = h \<or> (\<exists>err. r = Inl err)"
proof -
  let ?now = "fst (clock_now (db_env d))" and ?e1 = "snd (clock_now (db_env d))"
  let ?cid = "fst (uuid7 ?e1)" and ?e2 = "snd (uuid7 ?e1)"
  have le: "env_le (db_env d) ?e2" by simp
  have ok1: "log_ok (d\<lparr>db_env := ?e1\<rparr>)" by (rule log_ok_clock [OF ok])
  have cid: "?cid \<notin> drawn_ids (db_env d)" "?cid \<in> drawn_ids ?e2"
    using log_ok_draw(2,3) [OF ok1] by simp_all
  obtain r s where b: "ledger_begin ?now ?cid t p k h None None (db_log d) = (r, s)" by force
  have eq: "begin_command t p k h d = (r, d\<lparr>db_env := ?e2, db_log := s\<rparr>)"
    by (simp add: begin_command_def read_clock_eq draw_id_eq b)
  show thesis
  proof (cases "(t, k) \<in> set (dict_keys (es_commands (db_log d)))")
    case True
    then have s: "s = db_log d" using ledger_begin_old b by (metis snd_conv)
    obtain c where c: "dict_get (es_commands (db_log d)) (t, k) = Some c"
      using True dict_get_None by (metis not_None_eq)
    have "r = Inr (c, False) \<and> ci_request_hash c = h \<or> (\<exists>err. r = Inl err)"
      using b True c by (auto simp: ledger_begin_def insert_if_absent_def split: if_splits)
    with c le eq s show thesis by (intro old [of r ?e2 c]) simp_all
  next
    case False
    then obtain rec where rec: "r = Inr (rec, True)"
      using b by (auto simp: ledger_begin_def insert_if_absent_def)
    note new_row = b [unfolded rec ledger_begin_new]
    have s: "s = (db_log d)\<lparr>es_commands := es_commands (db_log d) @ [((t, k), rec)]\<rparr>"
      using new_row False by (simp add: dict_set_new)
    note sub = order_trans [OF log_okD(5) [OF ok] env_le_drawn [OF le]] order_trans [OF log_okD(6) [OF ok] env_le_drawn [OF le]]
      order_trans [OF log_okD(7) [OF ok] env_le_drawn [OF le]]
    have cmd: "ci_command rec = ?cid" "ci_tenant rec = t" "ci_key rec = k" using new_row by simp_all
    have old: "?cid \<notin> ci_command ` set (dict_values (es_commands (db_log d)))" using log_okD(7) [OF ok] cid(1) by blast
    have "log_ok (d\<lparr>db_log := s, db_env := ?e2\<rparr>)"
    proof (rule log_okI)
      show "db_ok (db_log (d\<lparr>db_log := s, db_env := ?e2\<rparr>))"
        using log_okD [OF ok] False cmd unfolding s by (auto simp: db_ok_def commands_ok_def outbox_ok_def)
      show "distinct (map ci_command (dict_values (es_commands (db_log (d\<lparr>db_log := s, db_env := ?e2\<rparr>)))))"
        using log_okD(8) [OF ok] old cmd(1) unfolding s by (simp add: comp_def image_image)
    qed (use log_okD(1) [OF ok] le sub cid(2) cmd(1) in \<open>simp_all add: s env_le_def\<close>)
    with eq rec s new_row False le cid(1) show thesis by (intro new [of rec ?e2 s]) simp_all
  qed
qed

lemma complete_command_ok:
  assumes ok: "log_ok d" and c: "c \<in> set (dict_values (es_commands (db_log d)))"
  obtains c' s e' where "complete_command (ci_command c) res d = (Inr c', d\<lparr>db_log := s, db_env := e'\<rparr>)"
    and "log_ok (d\<lparr>db_log := s, db_env := e'\<rparr>)" and "env_le (db_env d) e'"
    and "es_events s = es_events (db_log d)" and "dict_keys (es_commands s) = dict_keys (es_commands (db_log d))"
    and "\<forall>k. dict_get (es_commands s) k = map_option (\<lambda>x. if ci_command x = ci_command c
        then x\<lparr>ci_status := ''completed'', ci_result := Some res, ci_updated_at := fst (clock_now (db_env d))\<rparr> else x)
        (dict_get (es_commands (db_log d)) k)"
proof -
  let ?now = "fst (clock_now (db_env d))" and ?e1 = "snd (clock_now (db_env d))"
  let ?f = "\<lambda>x. if ci_command x = ci_command c then x\<lparr>ci_status := ''completed'', ci_result := Some res, ci_updated_at := ?now\<rparr> else x"
  let ?s = "update_command_status (ci_command c) ''completed'' (Some res) ?now (db_log d)"
  have vals: "dict_values (es_commands ?s) = map ?f (dict_values (es_commands (db_log d)))"
    by (simp add: update_command_status_def case_prod_beta comp_def)
  have rest: "es_events ?s = es_events (db_log d)" "es_outbox ?s = es_outbox (db_log d)"
    by (simp_all add: update_command_status_def)
  have ids: "map ci_command (dict_values (es_commands ?s)) = map ci_command (dict_values (es_commands (db_log d)))"
    unfolding vals by auto
  have "command_by_id ?s (ci_command c) \<noteq> None"
    using c unfolding command_by_id_def vals find_None_iff by force
  then obtain c' where c': "command_by_id ?s (ci_command c) = Some c'" by blast
  have eq: "complete_command (ci_command c) res d = (Inr c', d\<lparr>db_log := ?s, db_env := ?e1\<rparr>)"
    by (simp add: complete_command_def read_clock_eq ledger_complete_def c')
  have cok: "commands_ok ?s"
    using log_okD(4) [OF ok] by (auto simp: commands_ok_def update_command_status_def case_prod_beta comp_def)
  have ook: "outbox_ok ?s" using log_okD(3) [OF ok] by (simp add: outbox_ok_def rest)
  have img: "ci_command ` set (dict_values (es_commands ?s)) = ci_command ` set (dict_values (es_commands (db_log d)))"
    using ids by (metis list.set_map)
  have "log_ok (d\<lparr>db_log := ?s, db_env := ?e1\<rparr>)"
  proof (rule log_okI)
    show "ci_command ` set (dict_values (es_commands (db_log (d\<lparr>db_log := ?s, db_env := ?e1\<rparr>)))) \<subseteq> drawn_ids (db_env (d\<lparr>db_log := ?s, db_env := ?e1\<rparr>))"
      using img log_okD(7) [OF ok] by simp
    show "distinct (map ci_command (dict_values (es_commands (db_log (d\<lparr>db_log := ?s, db_env := ?e1\<rparr>)))))"
      using ids log_okD(8) [OF ok] by simp
  qed (use log_okD [OF ok] cok ook rest in \<open>simp_all add: db_ok_def\<close>)
  then show thesis using eq rest update_command_status_get by (intro that [of c' ?e1 ?s]) simp_all
qed

section \<open>What the shared operations keep\<close>

text \<open>
  A later database: the log is well formed, nothing drawn is forgotten, and every completed command still has
  its result.
\<close>

definition ledger_le :: "event_store \<Rightarrow> event_store \<Rightarrow> bool" where
  "ledger_le s s' \<longleftrightarrow> (\<forall>k c. dict_get (es_commands s) k = Some c \<longrightarrow> ci_status c = ''completed'' \<longrightarrow>
    dict_get (es_commands s') k = Some c)"

lemma ledger_le_refl [simp]: "es_commands s' = es_commands s \<Longrightarrow> ledger_le s s'"
  by (simp add: ledger_le_def)

lemma same_command:
  assumes "log_ok d" and "dict_get (es_commands (db_log d)) k = Some c" and "dict_get (es_commands (db_log d)) k' = Some c'"
    and "ci_command c = ci_command c'"
  shows "c = c'"
  using assms(4) log_okD(8) [OF assms(1)] dict_get_value [OF assms(2)] dict_get_value [OF assms(3)]
  unfolding distinct_map by (blast dest: inj_onD)

lemma ledger_le_trans: "ledger_le s t \<Longrightarrow> ledger_le t u \<Longrightarrow> ledger_le s u"
  by (simp add: ledger_le_def)

definition grows :: "'x db_scheme \<Rightarrow> 'x db_scheme \<Rightarrow> bool" where
  "grows d d' \<longleftrightarrow> log_ok d' \<and> env_le (db_env d) (db_env d') \<and> ledger_le (db_log d) (db_log d')"

definition in_progress :: "uuid \<Rightarrow> 'x db_scheme \<Rightarrow> bool" where
  "in_progress cid d \<longleftrightarrow> (\<exists>k c. dict_get (es_commands (db_log d)) k = Some c \<and> ci_command c = cid \<and> ci_status c = ''in_progress'')"

lemma grows_trans: "grows a b \<Longrightarrow> grows b c \<Longrightarrow> grows a c"
  using env_le_trans ledger_le_trans by (auto simp: grows_def)

lemma grows_same: "log_ok d \<Longrightarrow> db_log d' = db_log d \<Longrightarrow> env_le (db_env d) (db_env d') \<Longrightarrow> grows d d'"
  using log_ok_env [of d d'] by (simp add: grows_def)

lemma append_event_grows:
  assumes "log_ok d"
  obtains ev s e where "append_event a d = (Inr ev, d\<lparr>db_log := s, db_env := e\<rparr>)" "grows d (d\<lparr>db_log := s, db_env := e\<rparr>)"
    "es_commands s = es_commands (db_log d)"
proof -
  obtain ev s e where "append_event a d = (Inr ev, d\<lparr>db_log := s, db_env := e\<rparr>)" "log_ok (d\<lparr>db_log := s, db_env := e\<rparr>)"
      "env_le (db_env d) e" "es_commands s = es_commands (db_log d)"
    by (rule append_event_ok [OF assms])
  then show thesis by (intro that [of ev e s]) (simp_all add: grows_def)
qed

lemma begin_command_grows:
  assumes "log_ok d"
  obtains (new) r s e where "begin_command t p k h d = (Inr (r, True), d\<lparr>db_log := s, db_env := e\<rparr>)"
      "grows d (d\<lparr>db_log := s, db_env := e\<rparr>)" "in_progress (ci_command r) (d\<lparr>db_log := s, db_env := e\<rparr>)"
  | (old) r e where "begin_command t p k h d = (r, d\<lparr>db_env := e\<rparr>)" "grows d (d\<lparr>db_env := e\<rparr>)"
      "(\<exists>c. r = Inr (c, False)) \<or> (\<exists>err. r = Inl err)"
  using assms
proof (cases rule: begin_command_cases [of d t p k h])
  case (new r s e)
  have get: "dict_get (es_commands s) (t, k) = Some r" using new(2,5) by (simp add: map_add_Some_iff dict_get_None)
  have "ledger_le (db_log d) s" using new(2,5) by (auto simp: ledger_le_def map_add_Some_iff dest: dict_get_key)
  moreover have "in_progress (ci_command r) (d\<lparr>db_log := s, db_env := e\<rparr>)"
    unfolding in_progress_def by (rule exI [of _ "(t, k)"], rule exI [of _ r]) (use get new(10) in simp)
  ultimately show thesis using new(1,3,4) by (intro that(1) [of r e s]) (simp_all add: grows_def)
next
  case (old r c e)
  have "grows d (d\<lparr>db_env := e\<rparr>)" using assms old(3) by (intro grows_same) simp_all
  with old show thesis by (intro that(2) [of r e]) auto
qed

lemma complete_command_grows:
  assumes ok: "log_ok d" and "in_progress cid d"
  obtains c' s e where "complete_command cid res d = (Inr c', d\<lparr>db_log := s, db_env := e\<rparr>)" "grows d (d\<lparr>db_log := s, db_env := e\<rparr>)"
proof -
  obtain k c where c: "dict_get (es_commands (db_log d)) k = Some c" "ci_command c = cid" "ci_status c = ''in_progress''"
    using assms(2) by (auto simp: in_progress_def)
  obtain c' s e where co: "complete_command (ci_command c) res d = (Inr c', d\<lparr>db_log := s, db_env := e\<rparr>)"
      "log_ok (d\<lparr>db_log := s, db_env := e\<rparr>)" "env_le (db_env d) e"
    and get: "\<forall>k. dict_get (es_commands s) k = map_option (\<lambda>x. if ci_command x = ci_command c
        then x\<lparr>ci_status := ''completed'', ci_result := Some res, ci_updated_at := fst (clock_now (db_env d))\<rparr> else x)
        (dict_get (es_commands (db_log d)) k)"
    by (rule complete_command_ok [OF ok dict_get_value [OF c(1)]])
  have "dict_get (es_commands s) k' = Some x" if "dict_get (es_commands (db_log d)) k' = Some x" "ci_status x = ''completed''" for k' x
    using same_command [OF ok that(1) c(1)] that c(3) spec [OF get, of k'] by auto
  then show thesis using co c(2) by (intro that [of c' e s]) (auto simp: grows_def ledger_le_def)
qed

section \<open>Bodies of a unit of work\<close>

text \<open>
  What a body does when it returns, and that it never gives back what it drew. What it wrote before it raised
  is rolled back, so nothing is said of it.
\<close>

definition yields :: "('x db_scheme \<Rightarrow> 'r result \<times> 'x db_scheme) \<Rightarrow> 'x db_scheme \<Rightarrow> ('r \<Rightarrow> 'x db_scheme \<Rightarrow> bool) \<Rightarrow> bool" where
  "yields m d Q \<longleftrightarrow> env_le (db_env d) (db_env (snd (m d))) \<and> (\<forall>r d'. m d = (Inr r, d') \<longrightarrow> Q r d')"

lemma yieldsI: "m d = (Inr r, d') \<Longrightarrow> env_le (db_env d) (db_env d') \<Longrightarrow> Q r d' \<Longrightarrow> yields m d Q"
  by (simp add: yields_def)

lemma yields_raise: "m d = (Inl err, d') \<Longrightarrow> env_le (db_env d) (db_env d') \<Longrightarrow> yields m d Q"
  by (simp add: yields_def)

lemma yieldsD: "yields m d Q \<Longrightarrow> m d = (Inr r, d') \<Longrightarrow> Q r d'"
  by (simp add: yields_def)

lemma yields_mono: "yields m d Q \<Longrightarrow> (\<And>r d'. Q r d' \<Longrightarrow> R r d') \<Longrightarrow> yields m d R"
  by (simp add: yields_def)

lemma yields_and_then:
  assumes "yields m d Q" and "\<And>r d'. Q r d' \<Longrightarrow> env_le (db_env d) (db_env d') \<Longrightarrow> yields (f r) d' R"
  shows "yields (and_then m f) d R"
proof (cases "m d")
  case (Pair x d')
  show ?thesis
  proof (cases x)
    case (Inl err)
    then show ?thesis using assms(1) Pair by (simp add: yields_def and_then_def)
  next
    case (Inr r)
    have le: "env_le (db_env d) (db_env d')" and "Q r d'" using assms(1) Pair Inr by (simp_all add: yields_def)
    then have "yields (f r) d' R" by (intro assms(2))
    then show ?thesis using Pair Inr env_le_trans [OF le] by (simp add: yields_def and_then_def)
  qed
qed

lemma yields_run:
  assumes "m d = m' d1" and "env_le (db_env d) (db_env d1)" and "yields m' d1 Q"
  shows "yields m d Q"
  using assms env_le_trans [OF assms(2)] by (simp add: yields_def)

lemma transact_yields:
  assumes "yields m d Q"
  obtains (returned) r where "transact m d = m d" "fst (m d) = Inr r" "Q r (snd (m d))"
  | (raised) err e where "transact m d = (Inl err, d\<lparr>db_env := e\<rparr>)" "env_le (db_env d) e"
  using assms by (cases "m d"; cases "fst (m d)") (auto simp: yields_def transact_def)

section \<open>A service's own table\<close>

text \<open>
  Every service keeps rows under identifiers it drew with \<open>uuid7()\<close>, beside the shared log. The interface
  is how the table is read and replaced; what it promises is that the log, the draws and the table are
  separate. The invariant of such a table is kept by the shared operations and by writing a row under its
  own identifier.
\<close>

definition table_ok :: "('x db_scheme \<Rightarrow> (uuid, 'r) dict) \<Rightarrow> ('r \<Rightarrow> uuid) \<Rightarrow> 'x db_scheme \<Rightarrow> bool" where
  "table_ok rows rid d \<longleftrightarrow> log_ok d \<and> keyed rid (rows d) \<and> set (dict_keys (rows d)) \<subseteq> drawn_ids (db_env d)"

lemma table_okD:
  assumes "table_ok rows rid d"
  shows "log_ok d" "keyed rid (rows d)" "set (dict_keys (rows d)) \<subseteq> drawn_ids (db_env d)"
  using assms by (simp_all add: table_ok_def)

locale row_table =
  fixes rows :: "'x db_scheme \<Rightarrow> (uuid, 'r) dict"
    and put :: "(uuid, 'r) dict \<Rightarrow> 'x db_scheme \<Rightarrow> 'x db_scheme"
    and rid :: "'r \<Rightarrow> uuid"
  assumes rows_put: "rows (put t d) = t"
    and log_put: "db_log (put t d) = db_log d"
    and env_put: "db_env (put t d) = db_env d"
    and rows_log: "rows (d\<lparr>db_log := s\<rparr>) = rows d"
    and rows_env: "rows (d\<lparr>db_env := e\<rparr>) = rows d"
begin

lemmas frame = rows_put log_put env_put rows_log rows_env

lemma ok_log:
  assumes "table_ok rows rid d" and "log_ok (d\<lparr>db_log := s, db_env := e\<rparr>)" and "env_le (db_env d) e"
  shows "table_ok rows rid (d\<lparr>db_log := s, db_env := e\<rparr>)"
  using table_okD [OF assms(1)] assms(2) order_trans [OF table_okD(3) [OF assms(1)] env_le_drawn [OF assms(3)]]
  by (simp add: table_ok_def frame)

lemma ok_env:
  assumes "table_ok rows rid d" and "env_le (db_env d) e"
  shows "table_ok rows rid (d\<lparr>db_env := e\<rparr>)"
proof -
  have "log_ok (d\<lparr>db_env := e\<rparr>)" by (rule log_ok_env [OF table_okD(1) [OF assms(1)]]) (simp_all add: assms(2))
  with ok_log [OF assms(1), of e "db_log d"] assms(2) show ?thesis by simp
qed

lemma ok_put:
  assumes ok: "table_ok rows rid d" and k: "k \<in> drawn_ids (db_env d)" "rid r = k"
  shows "table_ok rows rid (put (dict_set k r (rows d)) d)"
proof -
  have "keyed rid (dict_set k r (rows d))" using table_okD(2) [OF ok] k by (intro keyed_set)
  moreover have "log_ok (put (dict_set k r (rows d)) d)"
    by (rule log_ok_env [OF table_okD(1) [OF ok]]) (simp_all add: frame)
  moreover have "set (dict_keys (dict_set k r (rows d))) \<subseteq> drawn_ids (db_env d)"
    using table_okD(3) [OF ok] k by (simp add: dict_keys_set del: set_map)
  ultimately show ?thesis by (simp add: table_ok_def frame)
qed

lemma stored_drawn:
  assumes "table_ok rows rid d" and "dict_get (rows d) k = Some r"
  shows "k \<in> drawn_ids (db_env d)" and "rid r = k"
  by (rule subsetD [OF table_okD(3) [OF assms(1)] dict_get_key [OF assms(2)]], rule keyed_get [OF table_okD(2) [OF assms(1)] assms(2)])

lemma ok_event:
  assumes ok: "table_ok rows rid d"
  obtains ev s e where "append_event a d = (Inr ev, d\<lparr>db_log := s, db_env := e\<rparr>)" "table_ok rows rid (d\<lparr>db_log := s, db_env := e\<rparr>)"
    "env_le (db_env d) e" "es_events s = es_events (db_log d) @ [ev]" "es_commands s = es_commands (db_log d)"
    "ev_type ev = ea_type a" "ev_aggregate_id ev = ea_aggregate_id a"
proof -
  obtain ev s e where ap: "append_event a d = (Inr ev, d\<lparr>db_log := s, db_env := e\<rparr>)" "log_ok (d\<lparr>db_log := s, db_env := e\<rparr>)"
    "env_le (db_env d) e" "es_events s = es_events (db_log d) @ [ev]" "es_commands s = es_commands (db_log d)"
    "ev_type ev = ea_type a" "ev_aggregate_id ev = ea_aggregate_id a"
    by (rule append_event_ok [OF table_okD(1) [OF ok]])
  show thesis using ap ok_log [OF ok ap(2,3)] by (intro that [of ev e s]) simp_all
qed

lemma new_row:
  assumes "table_ok rows rid d"
  shows "fst (uuid7 (db_env d)) \<notin> set (dict_keys (rows d))" "fst (uuid7 (db_env d)) \<in> drawn_ids (snd (uuid7 (db_env d)))"
  using log_ok_draw(2,3) [OF table_okD(1) [OF assms]] table_okD(3) [OF assms] by blast+

end

section \<open>Runs of a service\<close>

text \<open>
  A service is driven by calls, one after the other. \<open>write op\<close> says what one committed transaction of a
  call can do; a call may commit more than one. Whatever every such transaction keeps, a run keeps.
\<close>

definition service_run :: "('op \<Rightarrow> 'd \<Rightarrow> 'd) \<Rightarrow> 'op list \<Rightarrow> 'd \<Rightarrow> 'd" where
  "service_run step ops d = foldl (\<lambda>d op. step op d) d ops"

locale service =
  fixes step :: "'op \<Rightarrow> 'd \<Rightarrow> 'd" and ok :: "'d \<Rightarrow> bool" and wr :: "'op \<Rightarrow> 'd \<Rightarrow> 'd \<Rightarrow> bool"
  assumes step_writes: "ok d \<Longrightarrow> (wr op)\<^sup>*\<^sup>* d (step op d)"
    and write_ok: "wr op d d' \<Longrightarrow> ok d \<Longrightarrow> ok d'"
begin

lemma step_keeps:
  assumes "ok d" and "P d" and kept: "\<And>d d'. wr op d d' \<Longrightarrow> ok d \<Longrightarrow> P d \<Longrightarrow> P d'"
  shows "ok (step op d) \<and> P (step op d)"
proof -
  have "ok d' \<and> P d'" if "(wr op)\<^sup>*\<^sup>* d d'" for d'
    using that assms(1,2) by induction (auto intro: write_ok kept)
  then show ?thesis using step_writes [OF assms(1)] by blast
qed

lemma run_keeps:
  assumes "ok d" and "P d" and "\<And>op d d'. op \<in> set ops \<Longrightarrow> wr op d d' \<Longrightarrow> ok d \<Longrightarrow> P d \<Longrightarrow> P d'"
  shows "ok (service_run step ops d) \<and> P (service_run step ops d)"
  using assms
proof (induction ops arbitrary: d)
  case (Cons op ops)
  have "ok (step op d) \<and> P (step op d)"
    by (rule step_keeps [of d P op]) (use Cons.prems in auto)
  moreover have "P y" if "x \<in> set ops" "wr x d d'" "ok d" "P d" "y = d'" for x d d' y
    using Cons.prems(3) [of x d d'] that by simp
  ultimately show ?case using Cons.IH [of "step op d"] by (simp add: service_run_def)
qed (simp add: service_run_def)

lemma run_ok: "ok d \<Longrightarrow> ok (service_run step ops d)"
  using run_keeps [of d "\<lambda>_. True" ops] by simp

end

end
