(* ===== verification/Governance.thy ===== *)
theory Governance
  imports Services Lifecycle AuditLedger Graphs Complex_Main
begin

text \<open>
  \<open>engine/governance/service.py\<close> with its repositories, constants and scope hash: approvals, standing
  approvals and attention items. A float is an exact rational, written to JSON as its numerator and
  denominator; a duration in hours is rounded to microseconds the way \<open>timedelta\<close> does. The budget-increase
  workflow is not modelled. Proved here: a decision is taken at most once and only by a call that names the
  approval; a batch is decided as a whole or not at all; the use of a standing approval stays within its
  ceilings, and it never covers the classes that need a human each time.
\<close>

section \<open>Contracts and tables\<close>

record approval =
  ap_id :: uuid
  ap_tenant :: uuid
  ap_project :: uuid
  ap_mission :: uuid
  ap_task :: "uuid option"
  ap_type :: string
  ap_scope_hash :: string
  ap_requested_by :: uuid
  ap_required_role :: string
  ap_evidence_refs :: "string list"
  ap_suggested_decision :: "string option"
  ap_status :: string
  ap_decided_by :: "uuid option"
  ap_decided_at :: "time option"
  ap_expires_at :: "time option"
  ap_rationale :: "string option"
  ap_standing :: "uuid option"
  ap_edr :: "uuid option"
  ap_human_minutes :: rat
  ap_command :: uuid
  ap_created_at :: time
  ap_updated_at :: time

record standing_approval =
  sa_id :: uuid
  sa_tenant :: uuid
  sa_project :: uuid
  sa_mission :: "uuid option"
  sa_types :: "string list"
  sa_blast_ceiling :: string
  sa_risk_ceiling :: string
  sa_cost_ceiling :: rat
  sa_task_count_ceiling :: int
  sa_path_scope :: "string list"
  sa_forbidden_operations :: "string list"
  sa_valid_from :: time
  sa_valid_until :: time
  sa_revocable_immediately :: bool
  sa_granted_by :: uuid
  sa_rationale :: string
  sa_status :: string
  sa_task_count_used :: int
  sa_cost_used :: rat
  sa_revoked_at :: "time option"
  sa_command :: uuid
  sa_created_at :: time
  sa_updated_at :: time

record attention_item =
  ai_id :: uuid
  ai_tenant :: uuid
  ai_project :: uuid
  ai_mission :: uuid
  ai_kind :: string
  ai_summary :: string
  ai_status :: string
  ai_approval :: "uuid option"
  ai_standing :: "uuid option"
  ai_sla_due_at :: time
  ai_opened_at :: time
  ai_acknowledged_at :: "time option"
  ai_created_at :: time
  ai_updated_at :: time

record governance_db = db +
  approvals :: "(uuid, approval) dict"
  standings :: "(uuid, standing_approval) dict"
  attentions :: "(uuid, attention_item) dict"
  audits :: audit_store

section \<open>Constants\<close>

definition APPROVAL_TYPES :: "string list" where
  "APPROVAL_TYPES = [''architecture_change'', ''production_change'', ''scope_widening'', ''capability_grant'',
     ''oracle_approval'', ''irreversible_effect'', ''dependency_addition'', ''donor_reuse'',
     ''external_model_invocation'', ''prototype_pixel_signoff'', ''budget_increase'', ''project_truth_change'']"

definition STANDING_FORBIDDEN_TYPES :: "string list" where
  "STANDING_FORBIDDEN_TYPES = [''irreversible_effect'', ''production_change'', ''budget_increase'',
     ''project_truth_change'', ''external_model_invocation'', ''prototype_pixel_signoff'']"

definition OPEN_APPROVAL_STATUSES :: "string list" where
  "OPEN_APPROVAL_STATUSES = [''REQUESTED'', ''UNDER_REVIEW'']"

definition USABLE_APPROVAL_STATUSES :: "string list" where
  "USABLE_APPROVAL_STATUSES = [''APPROVED'']"

definition RISK_ORDER :: "(string, int) dict" where
  "RISK_ORDER = [(''low'', 0), (''medium'', 1), (''high'', 2), (''critical'', 3)]"

definition BLAST_ORDER :: "(string, int) dict" where
  "BLAST_ORDER = [(''local'', 0), (''module'', 1), (''cross_module'', 2), (''system'', 3)]"

definition DEFAULT_REQUIRED_ROLE :: string where "DEFAULT_REQUIRED_ROLE = ''approval.decide''"

definition ATTENTION_SLA_HOURS :: rat where "ATTENTION_SLA_HOURS = 24"

definition APPROVAL_TTL_HOURS :: rat where "APPROVAL_TTL_HOURS = 24"

text \<open>\<open>timedelta(hours=h)\<close> in microseconds, rounded half to even.\<close>

definition hours :: "rat \<Rightarrow> time" where
  "hours h =
    (let x = h * 3600000000; n = \<lfloor>x\<rfloor>; r = x - of_int n
     in if r < 1 / 2 then n else if 1 / 2 < r then n + 1 else if even n then n else n + 1)"

definition dict_default :: "('k, 'v) dict \<Rightarrow> 'k \<Rightarrow> 'v \<Rightarrow> 'v" where
  "dict_default d k v = (case dict_get d k of None \<Rightarrow> v | Some x \<Rightarrow> x)"

definition json_float :: "rat \<Rightarrow> json" where
  "json_float q = (case quotient_of q of (n, d) \<Rightarrow> JList [JInt n, JInt d])"

definition json_when :: "time option \<Rightarrow> json" where
  "json_when x = (case x of None \<Rightarrow> JNull | Some n \<Rightarrow> JInt n)"

section \<open>Scope hash and stored results\<close>

definition approval_scope_hash :: "string \<Rightarrow> uuid \<Rightarrow> (string \<times> json) list \<Rightarrow> uuid option \<Rightarrow> string" where
  "approval_scope_hash ty mission payload task =
    sha256_hex (canonical_json (JObj [(''approval_type'', JStr ty), (''mission_id'', JStr mission),
      (''task_id'', json_opt task), (''payload'', JObj payload)]))"

definition approval_dump :: "approval \<Rightarrow> (string \<times> json) list" where
  "approval_dump a =
    [(''approval_id'', JStr (ap_id a)), (''tenant_id'', JStr (ap_tenant a)), (''project_id'', JStr (ap_project a)),
     (''mission_id'', JStr (ap_mission a)), (''task_id'', json_opt (ap_task a)), (''approval_type'', JStr (ap_type a)),
     (''scope_hash'', JStr (ap_scope_hash a)), (''requested_by'', JStr (ap_requested_by a)),
     (''required_role'', JStr (ap_required_role a)), (''evidence_refs'', JList (map JStr (ap_evidence_refs a))),
     (''suggested_decision'', json_opt (ap_suggested_decision a)), (''status'', JStr (ap_status a)),
     (''decided_by'', json_opt (ap_decided_by a)), (''decided_at'', json_when (ap_decided_at a)),
     (''expires_at'', json_when (ap_expires_at a)), (''rationale'', json_opt (ap_rationale a)),
     (''standing_id'', json_opt (ap_standing a)), (''edr_id'', json_opt (ap_edr a)),
     (''human_minutes'', json_float (ap_human_minutes a)), (''command_id'', JStr (ap_command a)),
     (''created_at'', JInt (ap_created_at a)), (''updated_at'', JInt (ap_updated_at a))]"

definition standing_dump :: "standing_approval \<Rightarrow> (string \<times> json) list" where
  "standing_dump s =
    [(''standing_id'', JStr (sa_id s)), (''tenant_id'', JStr (sa_tenant s)), (''project_id'', JStr (sa_project s)),
     (''mission_id'', json_opt (sa_mission s)), (''approval_types'', JList (map JStr (sa_types s))),
     (''blast_radius_ceiling'', JStr (sa_blast_ceiling s)), (''risk_ceiling'', JStr (sa_risk_ceiling s)),
     (''cost_ceiling'', json_float (sa_cost_ceiling s)), (''task_count_ceiling'', JInt (sa_task_count_ceiling s)),
     (''path_scope'', JList (map JStr (sa_path_scope s))),
     (''forbidden_operations'', JList (map JStr (sa_forbidden_operations s))),
     (''valid_from'', JInt (sa_valid_from s)), (''valid_until'', JInt (sa_valid_until s)),
     (''revocable_immediately'', JBool (sa_revocable_immediately s)), (''granted_by'', JStr (sa_granted_by s)),
     (''rationale'', JStr (sa_rationale s)), (''status'', JStr (sa_status s)),
     (''task_count_used'', JInt (sa_task_count_used s)), (''cost_used'', json_float (sa_cost_used s)),
     (''revoked_at'', json_when (sa_revoked_at s)), (''command_id'', JStr (sa_command s)),
     (''created_at'', JInt (sa_created_at s)), (''updated_at'', JInt (sa_updated_at s))]"

definition get_when :: "(string \<times> json) list \<Rightarrow> string \<Rightarrow> time option option" where
  "get_when d k = (case dict_get d k of None \<Rightarrow> Some None | Some JNull \<Rightarrow> Some None | Some (JInt n) \<Rightarrow> Some (Some n) | _ \<Rightarrow> None)"

definition get_float :: "(string \<times> json) list \<Rightarrow> string \<Rightarrow> rat option" where
  "get_float d k = (case dict_get d k of Some (JInt n) \<Rightarrow> Some (of_int n)
     | Some (JList [JInt n, JInt m]) \<Rightarrow> Some (Fract n m) | _ \<Rightarrow> None)"

fun json_strs :: "json list \<Rightarrow> string list option" where
  "json_strs [] = Some []"
| "json_strs (JStr s # js) = map_option (Cons s) (json_strs js)"
| "json_strs _ = None"

definition get_strs :: "(string \<times> json) list \<Rightarrow> string \<Rightarrow> string list option" where
  "get_strs d k = (case dict_get d k of Some (JList js) \<Rightarrow> json_strs js | _ \<Rightarrow> None)"

definition get_bool :: "(string \<times> json) list \<Rightarrow> string \<Rightarrow> bool option" where
  "get_bool d k = (case dict_get d k of Some (JBool b) \<Rightarrow> Some b | _ \<Rightarrow> None)"

definition approval_fields :: "string list" where
  "approval_fields = [''approval_id'', ''tenant_id'', ''project_id'', ''mission_id'', ''task_id'', ''approval_type'',
     ''scope_hash'', ''requested_by'', ''required_role'', ''evidence_refs'', ''suggested_decision'', ''status'',
     ''decided_by'', ''decided_at'', ''expires_at'', ''rationale'', ''standing_id'', ''edr_id'', ''human_minutes'',
     ''command_id'', ''created_at'', ''updated_at'']"

definition approval_validate :: "(string \<times> json) list \<Rightarrow> approval option" where
  "approval_validate d =
    (if \<not> list_all (\<lambda>k. k \<in> set approval_fields) (dict_keys d) then None else do {
      i \<leftarrow> get_str d ''approval_id''; te \<leftarrow> get_str d ''tenant_id''; pr \<leftarrow> get_str d ''project_id'';
      mi \<leftarrow> get_str d ''mission_id''; ta \<leftarrow> get_optional d ''task_id''; ty \<leftarrow> get_str d ''approval_type'';
      sh \<leftarrow> get_str d ''scope_hash''; rb \<leftarrow> get_str d ''requested_by''; ro \<leftarrow> get_str d ''required_role'';
      er \<leftarrow> get_strs d ''evidence_refs''; sd \<leftarrow> get_optional d ''suggested_decision''; st \<leftarrow> get_str d ''status'';
      db \<leftarrow> get_optional d ''decided_by''; da \<leftarrow> get_when d ''decided_at''; ex \<leftarrow> get_when d ''expires_at'';
      ra \<leftarrow> get_optional d ''rationale''; si \<leftarrow> get_optional d ''standing_id''; ed \<leftarrow> get_optional d ''edr_id'';
      hm \<leftarrow> get_float d ''human_minutes''; co \<leftarrow> get_str d ''command_id'';
      cr \<leftarrow> get_int d ''created_at''; up \<leftarrow> get_int d ''updated_at'';
      Some \<lparr>ap_id = i, ap_tenant = te, ap_project = pr, ap_mission = mi, ap_task = ta, ap_type = ty,
        ap_scope_hash = sh, ap_requested_by = rb, ap_required_role = ro, ap_evidence_refs = er,
        ap_suggested_decision = sd, ap_status = st, ap_decided_by = db, ap_decided_at = da, ap_expires_at = ex,
        ap_rationale = ra, ap_standing = si, ap_edr = ed, ap_human_minutes = hm, ap_command = co,
        ap_created_at = cr, ap_updated_at = up\<rparr>
    })"

definition standing_fields :: "string list" where
  "standing_fields = [''standing_id'', ''tenant_id'', ''project_id'', ''mission_id'', ''approval_types'',
     ''blast_radius_ceiling'', ''risk_ceiling'', ''cost_ceiling'', ''task_count_ceiling'', ''path_scope'',
     ''forbidden_operations'', ''valid_from'', ''valid_until'', ''revocable_immediately'', ''granted_by'',
     ''rationale'', ''status'', ''task_count_used'', ''cost_used'', ''revoked_at'', ''command_id'', ''created_at'', ''updated_at'']"

definition standing_validate :: "(string \<times> json) list \<Rightarrow> standing_approval option" where
  "standing_validate d =
    (if \<not> list_all (\<lambda>k. k \<in> set standing_fields) (dict_keys d) then None else do {
      i \<leftarrow> get_str d ''standing_id''; te \<leftarrow> get_str d ''tenant_id''; pr \<leftarrow> get_str d ''project_id'';
      mi \<leftarrow> get_optional d ''mission_id''; ty \<leftarrow> get_strs d ''approval_types''; bl \<leftarrow> get_str d ''blast_radius_ceiling'';
      ri \<leftarrow> get_str d ''risk_ceiling''; cc \<leftarrow> get_float d ''cost_ceiling''; tc \<leftarrow> get_int d ''task_count_ceiling'';
      ps \<leftarrow> get_strs d ''path_scope''; fo \<leftarrow> get_strs d ''forbidden_operations''; vf \<leftarrow> get_int d ''valid_from'';
      vu \<leftarrow> get_int d ''valid_until''; re \<leftarrow> get_bool d ''revocable_immediately''; gb \<leftarrow> get_str d ''granted_by'';
      ra \<leftarrow> get_str d ''rationale''; st \<leftarrow> get_str d ''status''; tu \<leftarrow> get_int d ''task_count_used'';
      cu \<leftarrow> get_float d ''cost_used''; ro \<leftarrow> get_when d ''revoked_at''; co \<leftarrow> get_str d ''command_id'';
      cr \<leftarrow> get_int d ''created_at''; up \<leftarrow> get_int d ''updated_at'';
      Some \<lparr>sa_id = i, sa_tenant = te, sa_project = pr, sa_mission = mi, sa_types = ty, sa_blast_ceiling = bl,
        sa_risk_ceiling = ri, sa_cost_ceiling = cc, sa_task_count_ceiling = tc, sa_path_scope = ps,
        sa_forbidden_operations = fo, sa_valid_from = vf, sa_valid_until = vu, sa_revocable_immediately = re,
        sa_granted_by = gb, sa_rationale = ra, sa_status = st, sa_task_count_used = tu, sa_cost_used = cu,
        sa_revoked_at = ro, sa_command = co, sa_created_at = cr, sa_updated_at = up\<rparr>
    })"

text \<open>Which stored result a repeated command gets.\<close>

definition command_refusal :: "command_idempotency \<Rightarrow> dde_error" where
  "command_refusal rec =
    (if ci_status rec = ''failed'' then
       DdeError ''VERSION_CONFLICT'' ''Command previously failed; refusing to re-execute'' False
         [(''idempotency_key'', JStr (ci_key rec))]
     else DdeError ''VERSION_CONFLICT'' ''Command is already in progress'' True
         [(''idempotency_key'', JStr (ci_key rec))])"

definition replay_approval :: "command_idempotency \<Rightarrow> approval result" where
  "replay_approval rec =
    (if ci_status rec = ''completed'' \<and> ci_result rec \<noteq> None then
       (case ci_result rec of
          Some (JObj payload) \<Rightarrow> (case approval_validate payload of None \<Rightarrow> Inl (ValueError ''Approval'') | Some a \<Rightarrow> Inr a)
        | _ \<Rightarrow> Inl (ValueError ''Approval''))
     else Inl (command_refusal rec))"

definition replay_standing :: "command_idempotency \<Rightarrow> standing_approval result" where
  "replay_standing rec =
    (if ci_status rec = ''completed'' \<and> ci_result rec \<noteq> None then
       (case ci_result rec of
          Some (JObj payload) \<Rightarrow> (case standing_validate payload of None \<Rightarrow> Inl (ValueError ''StandingApproval'') | Some s \<Rightarrow> Inr s)
        | _ \<Rightarrow> Inl (ValueError ''StandingApproval''))
     else Inl (command_refusal rec))"

section \<open>Repositories\<close>

definition insert_approval :: "approval \<Rightarrow> 'x governance_db_scheme \<Rightarrow> unit result \<times> 'x governance_db_scheme" where
  "insert_approval a d =
    (case table_insert ''approvals'' (ap_id a) a (approvals d) of
       Inl err \<Rightarrow> (Inl err, d) | Inr t \<Rightarrow> (Inr (), d\<lparr>approvals := t\<rparr>))"

definition insert_standing :: "standing_approval \<Rightarrow> 'x governance_db_scheme \<Rightarrow> unit result \<times> 'x governance_db_scheme" where
  "insert_standing s d =
    (case table_insert ''standing_approvals'' (sa_id s) s (standings d) of
       Inl err \<Rightarrow> (Inl err, d) | Inr t \<Rightarrow> (Inr (), d\<lparr>standings := t\<rparr>))"

definition insert_attention :: "attention_item \<Rightarrow> 'x governance_db_scheme \<Rightarrow> unit result \<times> 'x governance_db_scheme" where
  "insert_attention i d =
    (case table_insert ''attention_items'' (ai_id i) i (attentions d) of
       Inl err \<Rightarrow> (Inl err, d) | Inr t \<Rightarrow> (Inr (), d\<lparr>attentions := t\<rparr>))"

definition update_approval :: "uuid \<Rightarrow> (approval \<Rightarrow> approval) \<Rightarrow> 'x governance_db_scheme \<Rightarrow> 'x governance_db_scheme" where
  "update_approval k f d = d\<lparr>approvals := table_update k f (approvals d)\<rparr>"

definition update_standing :: "uuid \<Rightarrow> (standing_approval \<Rightarrow> standing_approval) \<Rightarrow> 'x governance_db_scheme \<Rightarrow> 'x governance_db_scheme" where
  "update_standing k f d = d\<lparr>standings := table_update k f (standings d)\<rparr>"

definition get_approved_by_scope_hash :: "string \<Rightarrow> string \<Rightarrow> 'x governance_db_scheme \<Rightarrow> approval option" where
  "get_approved_by_scope_hash scope_hash ty d =
    (case sort_key (\<lambda>a. - ap_created_at a)
        (filter (\<lambda>a. ap_scope_hash a = scope_hash \<and> ap_type a = ty \<and> ap_status a = ''APPROVED'') (dict_values (approvals d))) of
       [] \<Rightarrow> None | a # _ \<Rightarrow> Some a)"

definition approvals_for_mission :: "uuid \<Rightarrow> 'x governance_db_scheme \<Rightarrow> approval list" where
  "approvals_for_mission m d = sort_key ap_created_at (filter (\<lambda>a. ap_mission a = m) (dict_values (approvals d)))"

definition attention_for_mission :: "uuid \<Rightarrow> 'x governance_db_scheme \<Rightarrow> attention_item list" where
  "attention_for_mission m d = sort_key ai_opened_at (filter (\<lambda>i. ai_mission i = m) (dict_values (attentions d)))"

definition active_for_project :: "uuid \<Rightarrow> 'x governance_db_scheme \<Rightarrow> standing_approval list" where
  "active_for_project p d =
    sort_key sa_created_at (filter (\<lambda>s. sa_project s = p \<and> sa_status s = ''ACTIVE'') (dict_values (standings d)))"

section \<open>The service\<close>

text \<open>\<open>AuditService.append\<close> inside the caller's unit of work.\<close>

definition append_audit ::
  "uuid \<Rightarrow> string \<Rightarrow> (string \<times> json) list \<Rightarrow> uuid option \<Rightarrow> 'x governance_db_scheme \<Rightarrow> audit_event result \<times> 'x governance_db_scheme"
where
  "append_audit tenant ty payload project d =
    (let (now, d1) = read_clock d;
         (i, d2) = draw_id d1
     in case db_audit_append now i tenant ty payload project (audits d2) of (r, s) \<Rightarrow> (r, d2\<lparr>audits := s\<rparr>))"

definition require_approval :: "uuid \<Rightarrow> 'x governance_db_scheme \<Rightarrow> approval result" where
  "require_approval k d =
    (case dict_get (approvals d) k of
       None \<Rightarrow> Inl (DdeError ''POLICY_DENIED'' ''Unknown approval'' False []) | Some a \<Rightarrow> Inr a)"

definition require_standing :: "uuid \<Rightarrow> 'x governance_db_scheme \<Rightarrow> standing_approval result" where
  "require_standing k d =
    (case dict_get (standings d) k of
       None \<Rightarrow> Inl (DdeError ''POLICY_DENIED'' ''Unknown standing approval'' False []) | Some s \<Rightarrow> Inr s)"

definition raise_attention ::
  "uuid \<Rightarrow> uuid \<Rightarrow> uuid \<Rightarrow> string \<Rightarrow> string \<Rightarrow> uuid option \<Rightarrow> uuid option
    \<Rightarrow> 'x governance_db_scheme \<Rightarrow> attention_item result \<times> 'x governance_db_scheme"
where
  "raise_attention tenant project mission kind summary approval_id standing_id d =
    (let (now, d1) = read_clock d;
         (i, d2) = draw_id d1;
         item = \<lparr>ai_id = i, ai_tenant = tenant, ai_project = project, ai_mission = mission, ai_kind = kind,
           ai_summary = summary, ai_status = ''OPEN'', ai_approval = approval_id, ai_standing = standing_id,
           ai_sla_due_at = now + hours ATTENTION_SLA_HOURS, ai_opened_at = now, ai_acknowledged_at = None,
           ai_created_at = now, ai_updated_at = now\<rparr>
     in and_then (insert_attention item) (\<lambda>_. Pair (Inr item)) d2)"

definition raise_attention_item ::
  "uuid \<Rightarrow> uuid \<Rightarrow> uuid \<Rightarrow> string \<Rightarrow> string \<Rightarrow> uuid option \<Rightarrow> uuid option
    \<Rightarrow> 'x governance_db_scheme \<Rightarrow> attention_item result \<times> 'x governance_db_scheme"
where
  "raise_attention_item tenant project mission kind summary approval_id standing_id =
    transact (raise_attention tenant project mission kind summary approval_id standing_id)"

subsection \<open>Requests\<close>

record approval_request =
  rq_tenant :: uuid
  rq_project :: uuid
  rq_mission :: uuid
  rq_type :: string
  rq_scope_hash :: string
  rq_requested_by :: uuid
  rq_key :: string
  rq_task :: "uuid option"
  rq_required_role :: string
  rq_evidence_refs :: "string list"
  rq_suggested_decision :: "string option"
  rq_standing :: "uuid option"

definition requested_approval :: "approval_request \<Rightarrow> uuid \<Rightarrow> uuid \<Rightarrow> time \<Rightarrow> approval" where
  "requested_approval q i cid now =
    \<lparr>ap_id = i, ap_tenant = rq_tenant q, ap_project = rq_project q, ap_mission = rq_mission q, ap_task = rq_task q,
     ap_type = rq_type q, ap_scope_hash = rq_scope_hash q, ap_requested_by = rq_requested_by q,
     ap_required_role = rq_required_role q, ap_evidence_refs = rq_evidence_refs q,
     ap_suggested_decision = rq_suggested_decision q, ap_status = ''REQUESTED'', ap_decided_by = None,
     ap_decided_at = None, ap_expires_at = Some (now + hours APPROVAL_TTL_HOURS), ap_rationale = None,
     ap_standing = rq_standing q, ap_edr = None, ap_human_minutes = 0, ap_command = cid, ap_created_at = now,
     ap_updated_at = now\<rparr>"

definition approval_event :: "string \<Rightarrow> uuid \<Rightarrow> uuid \<Rightarrow> approval \<Rightarrow> (string \<times> json) list \<Rightarrow> event_args" where
  "approval_event ty tenant project a payload =
    \<lparr>ea_type = ty, ea_aggregate_type = ''approval'', ea_aggregate_id = ap_id a, ea_tenant = tenant,
     ea_project = project, ea_payload = payload, ea_mission = Some (ap_mission a), ea_task = ap_task a,
     ea_correlation = None, ea_causation = None\<rparr>"

text \<open>The part of \<open>request\<close> behind the ledger.\<close>

definition write_request :: "approval_request \<Rightarrow> uuid \<Rightarrow> 'x governance_db_scheme \<Rightarrow> approval result \<times> 'x governance_db_scheme" where
  "write_request q cid d =
    (let (now, d1) = read_clock d;
         (i, d2) = draw_id d1;
         a = requested_approval q i cid now
     in and_then (insert_approval a)
       (\<lambda>_. and_then (raise_attention (rq_tenant q) (rq_project q) (rq_mission q) ''approval_requested''
             (rq_type q @ '' approval requested'') (Some (ap_id a)) None)
         (\<lambda>_. and_then (append_event (approval_event ''ApprovalRequested'' (rq_tenant q) (rq_project q) a
               [(''approval_type'', JStr (rq_type q)), (''scope_hash'', JStr (rq_scope_hash q)), (''status'', JStr (ap_status a))]))
           (\<lambda>_. and_then (complete_command cid (JObj (approval_dump a))) (\<lambda>_. Pair (Inr a))))) d2)"

text \<open>\<open>request\<close> inside the caller's unit of work, and in one of its own.\<close>

definition request_in :: "approval_request \<Rightarrow> 'x governance_db_scheme \<Rightarrow> approval result \<times> 'x governance_db_scheme" where
  "request_in q d =
    (if rq_type q \<notin> set APPROVAL_TYPES then
       (Inl (DdeError ''POLICY_DENIED'' (''Unknown approval_type '' @ py_repr (rq_type q)) False
          [(''approval_type'', JStr (rq_type q))]), d)
     else and_then (begin_command (rq_tenant q) (rq_project q) (rq_key q) (rq_scope_hash q))
       (\<lambda>(rec, is_new). if \<not> is_new then (\<lambda>d1. (replay_approval rec, d1)) else write_request q (ci_command rec)) d)"

definition request_approval :: "approval_request \<Rightarrow> 'x governance_db_scheme \<Rightarrow> approval result \<times> 'x governance_db_scheme" where
  "request_approval q = transact (request_in q)"

subsection \<open>Decisions\<close>

record decision_args =
  dc_tenant :: uuid
  dc_project :: uuid
  dc_decision :: string
  dc_decided_by :: uuid
  dc_rationale :: string
  dc_human_minutes :: rat
  dc_edr :: "uuid option"

definition decision_audit_payload ::
  "approval \<Rightarrow> uuid \<Rightarrow> string \<Rightarrow> uuid option \<Rightarrow> string option \<Rightarrow> (string \<times> json) list"
where
  "decision_audit_payload a decided_by decision batch_id ikey =
    [(''approval_id'', JStr (ap_id a)), (''mission_id'', JStr (ap_mission a)), (''task_id'', json_opt (ap_task a)),
     (''approval_type'', JStr (ap_type a)), (''scope_hash'', JStr (ap_scope_hash a)), (''decision'', JStr decision),
     (''status'', JStr (ap_status a)), (''decided_by'', JStr decided_by), (''decided_at'', json_when (ap_decided_at a)),
     (''rationale'', json_opt (ap_rationale a)), (''human_minutes'', json_float (ap_human_minutes a)),
     (''standing_id'', json_opt (ap_standing a)), (''edr_id'', json_opt (ap_edr a)), (''batch_id'', json_opt batch_id),
     (''idempotency_key'', json_opt ikey)]"

definition decided_row :: "decision_args \<Rightarrow> string \<Rightarrow> time \<Rightarrow> approval \<Rightarrow> approval" where
  "decided_row c st now a = a\<lparr>ap_status := st, ap_decided_by := Some (dc_decided_by c), ap_decided_at := Some now,
     ap_rationale := Some (dc_rationale c), ap_edr := dc_edr c, ap_human_minutes := dc_human_minutes c, ap_updated_at := now\<rparr>"

text \<open>Writing the decision: the row, its audit entry and its event.\<close>

definition write_decision ::
  "decision_args \<Rightarrow> uuid \<Rightarrow> uuid option \<Rightarrow> string \<Rightarrow> time \<Rightarrow> 'x governance_db_scheme \<Rightarrow> approval result \<times> 'x governance_db_scheme"
where
  "write_decision c k batch_id st now d =
    (let d1 = update_approval k (decided_row c st now) d
     in case require_approval k d1 of
          Inl err \<Rightarrow> (Inl err, d1)
        | Inr u \<Rightarrow>
            and_then (append_audit (dc_tenant c) ''approval.decided''
                (decision_audit_payload u (dc_decided_by c) (dc_decision c) batch_id None) (Some (dc_project c)))
              (\<lambda>_. and_then (append_event (approval_event ''ApprovalDecided'' (dc_tenant c) (dc_project c) u
                    [(''status'', JStr (ap_status u)), (''scope_hash'', JStr (ap_scope_hash u)), (''edr_id'', json_opt (dc_edr c))]))
                (\<lambda>_. Pair (Inr u))) d1)"

definition decide_in ::
  "decision_args \<Rightarrow> uuid \<Rightarrow> string \<Rightarrow> uuid option \<Rightarrow> 'x governance_db_scheme \<Rightarrow> approval result \<times> 'x governance_db_scheme"
where
  "decide_in c k scope_hash batch_id d =
    (if dc_decision c \<notin> {''APPROVED'', ''REJECTED''} then
       (Inl (DdeError ''POLICY_DENIED'' ''decide() accepts only APPROVED or REJECTED'' False [(''decision'', JStr (dc_decision c))]), d)
     else case require_approval k d of
       Inl err \<Rightarrow> (Inl err, d)
     | Inr cur \<Rightarrow>
         if ap_scope_hash cur \<noteq> scope_hash then
           (Inl (DdeError ''POLICY_DENIED'' ''Approval cannot be reused for a materially different plan'' False
              [(''approval_id'', JStr k), (''bound_scope_hash'', JStr (ap_scope_hash cur)), (''presented_scope_hash'', JStr scope_hash)]), d)
         else
           let (now, d1) = read_clock d in
           if (case ap_expires_at cur of None \<Rightarrow> False | Some x \<Rightarrow> x \<le> now) then
             (Inl (DdeError ''POLICY_DENIED'' ''Approval has expired'' False [(''approval_id'', JStr k)]), d1)
           else case transition (ap_status cur) (dc_decision c) APPROVAL_TRANSITIONS of
             Inl err \<Rightarrow> (Inl err, d1)
           | Inr st \<Rightarrow> write_decision c k batch_id st now d1)"

definition decide_approval :: "decision_args \<Rightarrow> uuid \<Rightarrow> string \<Rightarrow> 'x governance_db_scheme \<Rightarrow> approval result \<times> 'x governance_db_scheme" where
  "decide_approval c k scope_hash = transact (decide_in c k scope_hash None)"

subsection \<open>Batches\<close>

record batch_decision_result =
  bd_batch :: "uuid option"
  bd_approvals :: "approval list"
  bd_decided_by :: uuid
  bd_decision :: string
  bd_created_at :: time
  bd_replayed :: bool

definition batch_result_json :: "approval list \<Rightarrow> uuid \<Rightarrow> uuid \<Rightarrow> json" where
  "batch_result_json as batch_id decided_by =
    JObj [(''batch_id'', JStr batch_id), (''decided_by'', JStr decided_by),
      (''approvals'', JList (map (JObj \<circ> approval_dump) as))]"

fun validate_all :: "json list \<Rightarrow> approval list option" where
  "validate_all [] = Some []"
| "validate_all (JObj p # js) =
    (case approval_validate p of None \<Rightarrow> None | Some a \<Rightarrow> map_option (Cons a) (validate_all js))"
| "validate_all _ = None"

definition replay_batch :: "command_idempotency \<Rightarrow> batch_decision_result result" where
  "replay_batch rec =
    (if ci_status rec = ''completed'' \<and> ci_result rec \<noteq> None then
       (case ci_result rec of
          Some (JObj payload) \<Rightarrow>
            (case (dict_get payload ''approvals'', get_str payload ''batch_id'', get_str payload ''decided_by'') of
               (Some (JList items), Some b, Some u) \<Rightarrow>
                 (case validate_all items of
                    Some (a # as) \<Rightarrow> Inr \<lparr>bd_batch = Some b, bd_approvals = a # as, bd_decided_by = u,
                      bd_decision = ap_status a,
                      bd_created_at = (case ap_decided_at a of Some t \<Rightarrow> t | None \<Rightarrow> ap_updated_at a), bd_replayed = True\<rparr>
                  | _ \<Rightarrow> Inl (ValueError ''Approval''))
             | _ \<Rightarrow> Inl (KeyError ''approvals''))
        | _ \<Rightarrow> Inl (ValueError ''CommandIdempotency''))
     else Inl (command_refusal rec))"

fun decide_each ::
  "decision_args \<Rightarrow> (uuid \<times> string) list \<Rightarrow> uuid option \<Rightarrow> 'x governance_db_scheme \<Rightarrow> unit result \<times> 'x governance_db_scheme"
where
  "decide_each c [] batch_id d = (Inr (), d)"
| "decide_each c ((k, scope_hash) # rest) batch_id d =
    and_then (decide_in c k scope_hash batch_id) (\<lambda>_. decide_each c rest batch_id) d"

fun require_each :: "uuid list \<Rightarrow> 'x governance_db_scheme \<Rightarrow> approval list result" where
  "require_each [] d = Inr []"
| "require_each (k # ks) d =
    (case require_approval k d of Inl err \<Rightarrow> Inl err
     | Inr a \<Rightarrow> (case require_each ks d of Inl err \<Rightarrow> Inl err | Inr as \<Rightarrow> Inr (a # as)))"

definition batch_request_hash :: "decision_args \<Rightarrow> uuid list \<Rightarrow> string list \<Rightarrow> string" where
  "batch_request_hash c ks hs =
    sha256_hex (canonical_json (JObj [(''command'', JStr ''batch_decide''), (''approval_ids'', JList (map JStr ks)),
      (''scope_hashes'', JList (map JStr hs)), (''decision'', JStr (dc_decision c)),
      (''decided_by'', JStr (dc_decided_by c)), (''edr_id'', json_opt (dc_edr c))]))"

definition batch_event :: "decision_args \<Rightarrow> uuid \<Rightarrow> approval \<Rightarrow> nat \<Rightarrow> uuid list \<Rightarrow> event_args" where
  "batch_event c b lead n ks =
    \<lparr>ea_type = ''ApprovalBatchDecided'', ea_aggregate_type = ''command'', ea_aggregate_id = b, ea_tenant = dc_tenant c,
     ea_project = dc_project c,
     ea_payload = [(''batch_id'', JStr b), (''decision'', JStr (dc_decision c)), (''member_count'', JInt (int n)),
       (''approval_ids'', JList (map JStr ks))],
     ea_mission = Some (ap_mission lead), ea_task = ap_task lead, ea_correlation = None, ea_causation = None\<rparr>"

text \<open>The members, then the batch's own event and stored result; with the batch identifier when there is one.\<close>

definition decide_batch ::
  "decision_args \<Rightarrow> uuid list \<Rightarrow> string list \<Rightarrow> time \<Rightarrow> uuid option \<Rightarrow> 'x governance_db_scheme
    \<Rightarrow> (batch_decision_result \<times> uuid option) result \<times> 'x governance_db_scheme"
where
  "decide_batch c ks hs now batch_id =
    and_then (decide_each c (zip ks hs) batch_id) (\<lambda>_ d1.
      case require_each ks d1 of
        Inl err \<Rightarrow> (Inl err, d1)
      | Inr decided \<Rightarrow>
          let out = (\<lparr>bd_batch = batch_id, bd_approvals = decided, bd_decided_by = dc_decided_by c,
            bd_decision = dc_decision c, bd_created_at = now, bd_replayed = False\<rparr>, batch_id)
          in case batch_id of
            None \<Rightarrow> (Inr out, d1)
          | Some b \<Rightarrow>
              and_then (append_event (batch_event c b (hd decided) (length decided) ks))
                (\<lambda>_. and_then (complete_command b (batch_result_json decided b (dc_decided_by c))) (\<lambda>_. Pair (Inr out))) d1)"

definition batch_body ::
  "decision_args \<Rightarrow> uuid list \<Rightarrow> string list \<Rightarrow> string option \<Rightarrow> time \<Rightarrow> 'x governance_db_scheme
    \<Rightarrow> (batch_decision_result \<times> uuid option) result \<times> 'x governance_db_scheme"
where
  "batch_body c ks hs ikey now =
    (case ikey of
       None \<Rightarrow> decide_batch c ks hs now None
     | Some key \<Rightarrow>
         and_then (begin_command (dc_tenant c) (dc_project c) key (batch_request_hash c ks hs))
           (\<lambda>(rec, is_new). if \<not> is_new then (\<lambda>d1. (map_sum id (\<lambda>r. (r, None)) (replay_batch rec), d1))
              else decide_batch c ks hs now (Some (ci_command rec))))"

definition batch_decide ::
  "decision_args \<Rightarrow> uuid list \<Rightarrow> string list \<Rightarrow> string option \<Rightarrow> 'x governance_db_scheme
    \<Rightarrow> batch_decision_result result \<times> 'x governance_db_scheme"
where
  "batch_decide c ks hs ikey d =
    (if ks = [] then (Inl (DdeError ''POLICY_DENIED'' ''A batch must name at least one approval'' False []), d)
     else if length ks \<noteq> length hs then
       (Inl (DdeError ''POLICY_DENIED'' ''scope_hashes must be parallel to approval_ids'' False
          [(''approval_ids'', JInt (int (length ks))), (''scope_hashes'', JInt (int (length hs)))]), d)
     else if \<not> distinct ks then
       (Inl (DdeError ''POLICY_DENIED'' ''A batch may not name the same approval twice'' False []), d)
     else if dc_decision c \<notin> {''APPROVED'', ''REJECTED''} then
       (Inl (DdeError ''POLICY_DENIED'' ''batch_decide accepts only APPROVED or REJECTED'' False
          [(''decision'', JStr (dc_decision c))]), d)
     else
       let (now, d0) = read_clock d in
       case transact (batch_body c ks hs ikey now) d0 of
         (Inl err, d1) \<Rightarrow> (Inl err, d1)
       | (Inr (r, committed), d1) \<Rightarrow>
           (Inr (if committed = None \<and> bd_batch r = None then r\<lparr>bd_replayed := True\<rparr> else r), d1))"

subsection \<open>Expiry, withdrawal and the gate\<close>

definition expire_in :: "uuid \<Rightarrow> uuid \<Rightarrow> uuid \<Rightarrow> 'x governance_db_scheme \<Rightarrow> approval result \<times> 'x governance_db_scheme" where
  "expire_in tenant project k d =
    (case require_approval k d of
       Inl err \<Rightarrow> (Inl err, d)
     | Inr cur \<Rightarrow>
         let (now, d1) = read_clock d in
         if (case ap_expires_at cur of None \<Rightarrow> False | Some x \<Rightarrow> now < x) then
           (Inl (DdeError ''POLICY_DENIED'' ''Approval has not reached expires_at'' False [(''approval_id'', JStr k)]), d1)
         else case transition (ap_status cur) ''EXPIRED'' APPROVAL_TRANSITIONS of
           Inl err \<Rightarrow> (Inl err, d1)
         | Inr st \<Rightarrow>
             let d2 = update_approval k (\<lambda>a. a\<lparr>ap_status := st, ap_updated_at := now\<rparr>) d1 in
             case require_approval k d2 of
               Inl err \<Rightarrow> (Inl err, d2)
             | Inr u \<Rightarrow>
                 and_then (raise_attention tenant project (ap_mission u) ''expired_approval''
                     ''approval expired; mission must park'' (Some k) None)
                   (\<lambda>_. and_then (append_event (approval_event ''ApprovalExpired'' tenant project u [(''status'', JStr (ap_status u))]))
                     (\<lambda>_. Pair (Inr u))) d2)"

definition expire_approval :: "uuid \<Rightarrow> uuid \<Rightarrow> uuid \<Rightarrow> 'x governance_db_scheme \<Rightarrow> approval result \<times> 'x governance_db_scheme" where
  "expire_approval tenant project k = transact (expire_in tenant project k)"

definition withdraw_in :: "uuid \<Rightarrow> 'x governance_db_scheme \<Rightarrow> approval result \<times> 'x governance_db_scheme" where
  "withdraw_in k d =
    (case require_approval k d of
       Inl err \<Rightarrow> (Inl err, d)
     | Inr cur \<Rightarrow>
         let (now, d1) = read_clock d in
         case transition (ap_status cur) ''WITHDRAWN'' APPROVAL_TRANSITIONS of
           Inl err \<Rightarrow> (Inl err, d1)
         | Inr st \<Rightarrow>
             let d2 = update_approval k (\<lambda>a. a\<lparr>ap_status := st, ap_updated_at := now\<rparr>) d1 in (require_approval k d2, d2))"

definition withdraw_approval :: "uuid \<Rightarrow> 'x governance_db_scheme \<Rightarrow> approval result \<times> 'x governance_db_scheme" where
  "withdraw_approval k = transact (withdraw_in k)"

definition require_approved :: "string \<Rightarrow> string \<Rightarrow> 'x governance_db_scheme \<Rightarrow> approval result \<times> 'x governance_db_scheme" where
  "require_approved scope_hash ty d =
    (let found = get_approved_by_scope_hash scope_hash ty d;
         (now, d1) = read_clock d;
         refusal = DdeError ''POLICY_DENIED'' ''Required approval is missing, expired, or bound to a different plan'' False
           [(''scope_hash'', JStr scope_hash), (''approval_type'', JStr ty), (''status'', json_opt (map_option ap_status found))]
     in case found of
          None \<Rightarrow> (Inl refusal, d1)
        | Some a \<Rightarrow>
            if ap_type a \<noteq> ty \<or> ap_status a \<notin> set USABLE_APPROVAL_STATUSES \<or> (case ap_expires_at a of None \<Rightarrow> False | Some x \<Rightarrow> x \<le> now)
            then (Inl refusal, d1) else (Inr a, d1))"

definition has_approved :: "string \<Rightarrow> string \<Rightarrow> 'x governance_db_scheme \<Rightarrow> bool result \<times> 'x governance_db_scheme" where
  "has_approved scope_hash ty d =
    (case transact (require_approved scope_hash ty) d of
       (Inr _, d1) \<Rightarrow> (Inr True, d1)
     | (Inl (DdeError code msg r ds), d1) \<Rightarrow>
         (if code = ''POLICY_DENIED'' then (Inr False, d1) else (Inl (DdeError code msg r ds), d1))
     | (Inl err, d1) \<Rightarrow> (Inl err, d1))"

subsection \<open>Standing approvals\<close>

fun path_in_scope :: "string \<Rightarrow> string list \<Rightarrow> bool" where
  "path_in_scope path [] = False"
| "path_in_scope path (item # rest) =
    (if normalised path = normalised item \<or> prefix (normalised item @ ''/'') (normalised path) then True
     else path_in_scope path rest)"

record standing_request =
  sr_tenant :: uuid
  sr_project :: uuid
  sr_types :: "string list"
  sr_blast_ceiling :: string
  sr_risk_ceiling :: string
  sr_cost_ceiling :: rat
  sr_task_count_ceiling :: int
  sr_path_scope :: "string list"
  sr_forbidden_operations :: "string list"
  sr_valid_from_hours :: rat
  sr_valid_until_hours :: rat
  sr_granted_by :: uuid
  sr_rationale :: string
  sr_key :: string
  sr_mission :: "uuid option"

definition standing_refusal :: "standing_request \<Rightarrow> dde_error option" where
  "standing_refusal q =
    (let unknown = filter (\<lambda>t. t \<notin> set APPROVAL_TYPES) (sr_types q);
         forbidden = filter (\<lambda>t. t \<in> set STANDING_FORBIDDEN_TYPES) (sr_types q)
     in if unknown \<noteq> [] then Some (DdeError ''POLICY_DENIED'' ''Standing approval_types contains an unknown class'' False
          [(''unknown'', JList (map JStr unknown))])
        else if forbidden \<noteq> [] then Some (DdeError ''POLICY_DENIED'' ''A standing approval can never pre-authorise this approval_type'' False
          [(''forbidden'', JList (map JStr forbidden))])
        else if sr_risk_ceiling q = ''critical'' then
          Some (DdeError ''POLICY_DENIED'' ''A standing approval can never pre-authorise a critical risk action'' False [])
        else if sr_blast_ceiling q \<notin> set (dict_keys BLAST_ORDER) \<or> sr_risk_ceiling q \<notin> set (dict_keys RISK_ORDER) then
          Some (DdeError ''POLICY_DENIED'' ''Unknown blast_radius_ceiling or risk_ceiling'' False [])
        else None)"

definition standing_digest :: "standing_request \<Rightarrow> string" where
  "standing_digest q = approval_scope_hash ''standing'' (case sr_mission q of None \<Rightarrow> sr_project q | Some m \<Rightarrow> m)
     [(''approval_types'', JList (map JStr (sort (sr_types q)))), (''path_scope'', JList (map JStr (sr_path_scope q))),
      (''valid_until_hours'', json_float (sr_valid_until_hours q))] None"

text \<open>The order of \<open>list({...})\<close> is not fixed by the language; only membership is ever read.\<close>

definition granted_standing :: "standing_request \<Rightarrow> uuid \<Rightarrow> uuid \<Rightarrow> time \<Rightarrow> standing_approval" where
  "granted_standing q i cid now =
    \<lparr>sa_id = i, sa_tenant = sr_tenant q, sa_project = sr_project q, sa_mission = sr_mission q, sa_types = sr_types q,
     sa_blast_ceiling = sr_blast_ceiling q, sa_risk_ceiling = sr_risk_ceiling q, sa_cost_ceiling = sr_cost_ceiling q,
     sa_task_count_ceiling = sr_task_count_ceiling q, sa_path_scope = sr_path_scope q,
     sa_forbidden_operations = remdups (sr_forbidden_operations q @ [''IRREVERSIBLE'', ''production_change'']),
     sa_valid_from = now + hours (sr_valid_from_hours q), sa_valid_until = now + hours (sr_valid_until_hours q),
     sa_revocable_immediately = True, sa_granted_by = sr_granted_by q, sa_rationale = sr_rationale q,
     sa_status = ''ACTIVE'', sa_task_count_used = 0, sa_cost_used = 0, sa_revoked_at = None, sa_command = cid,
     sa_created_at = now, sa_updated_at = now\<rparr>"

definition standing_event :: "string \<Rightarrow> uuid \<Rightarrow> uuid \<Rightarrow> standing_approval \<Rightarrow> (string \<times> json) list \<Rightarrow> event_args" where
  "standing_event ty tenant project s payload =
    \<lparr>ea_type = ty, ea_aggregate_type = ''standing_approval'', ea_aggregate_id = sa_id s, ea_tenant = tenant,
     ea_project = project, ea_payload = payload, ea_mission = sa_mission s, ea_task = None,
     ea_correlation = None, ea_causation = None\<rparr>"

definition write_standing :: "standing_request \<Rightarrow> uuid \<Rightarrow> 'x governance_db_scheme \<Rightarrow> standing_approval result \<times> 'x governance_db_scheme" where
  "write_standing q cid d =
    (let (now, d1) = read_clock d;
         (i, d2) = draw_id d1;
         s = granted_standing q i cid now
     in and_then (insert_standing s)
       (\<lambda>_. and_then (append_event (standing_event ''StandingApprovalGranted'' (sr_tenant q) (sr_project q) s
             [(''approval_types'', JList (map JStr (sa_types s)))]))
         (\<lambda>_. and_then (complete_command cid (JObj (standing_dump s))) (\<lambda>_. Pair (Inr s)))) d2)"

definition grant_standing :: "standing_request \<Rightarrow> 'x governance_db_scheme \<Rightarrow> standing_approval result \<times> 'x governance_db_scheme" where
  "grant_standing q d =
    (case standing_refusal q of
       Some err \<Rightarrow> (Inl err, d)
     | None \<Rightarrow> transact (and_then (begin_command (sr_tenant q) (sr_project q) (sr_key q) (standing_digest q))
         (\<lambda>(rec, is_new). if \<not> is_new then (\<lambda>d1. (replay_standing rec, d1)) else write_standing q (ci_command rec))) d)"

definition revoke_in :: "uuid \<Rightarrow> uuid \<Rightarrow> uuid \<Rightarrow> 'x governance_db_scheme \<Rightarrow> standing_approval result \<times> 'x governance_db_scheme" where
  "revoke_in tenant project k d =
    (case require_standing k d of
       Inl err \<Rightarrow> (Inl err, d)
     | Inr cur \<Rightarrow>
         let (now, d1) = read_clock d in
         case transition (sa_status cur) ''REVOKED'' STANDING_TRANSITIONS of
           Inl err \<Rightarrow> (Inl err, d1)
         | Inr st \<Rightarrow>
             let d2 = update_standing k (\<lambda>s. s\<lparr>sa_status := st, sa_revoked_at := Some now, sa_updated_at := now\<rparr>) d1 in
             case require_standing k d2 of
               Inl err \<Rightarrow> (Inl err, d2)
             | Inr u \<Rightarrow> and_then (append_event (standing_event ''StandingApprovalRevoked'' tenant project u
                   [(''status'', JStr (sa_status u))])) (\<lambda>_. Pair (Inr u)) d2)"

definition revoke_standing :: "uuid \<Rightarrow> uuid \<Rightarrow> uuid \<Rightarrow> 'x governance_db_scheme \<Rightarrow> standing_approval result \<times> 'x governance_db_scheme" where
  "revoke_standing tenant project k = transact (revoke_in tenant project k)"

record standing_use =
  su_tenant :: uuid
  su_project :: uuid
  su_standing :: uuid
  su_type :: string
  su_scope_hash :: string
  su_requested_by :: uuid
  su_mission :: uuid
  su_mission_scope :: "string list"
  su_requested_paths :: "string list"
  su_risk_class :: string
  su_blast_radius :: string
  su_cost :: rat
  su_operation :: string
  su_task :: "uuid option"
  su_key :: string

text \<open>The path loop of \<open>_assert_standing_covers\<close>: the first path that is not covered.\<close>

fun uncovered_path :: "standing_approval \<Rightarrow> standing_use \<Rightarrow> string list \<Rightarrow> dde_error option" where
  "uncovered_path s u [] = None"
| "uncovered_path s u (path # rest) =
    (if \<not> path_in_scope path (sa_path_scope s) then
       Some (DdeError ''POLICY_DENIED'' ''Requested path is outside standing path_scope'' False [(''path'', JStr path)])
     else if su_type u = ''scope_widening'' \<and> \<not> path_in_scope path (su_mission_scope u) then
       Some (DdeError ''POLICY_DENIED''
         ''Standing approval cannot pre-authorise a scope widening beyond the mission's declared scope'' False [(''path'', JStr path)])
     else uncovered_path s u rest)"

definition standing_uncovered :: "standing_approval \<Rightarrow> standing_use \<Rightarrow> time \<Rightarrow> dde_error option" where
  "standing_uncovered s u now =
    (if sa_status s \<noteq> ''ACTIVE'' then
       Some (DdeError ''POLICY_DENIED'' ''Standing approval is not ACTIVE'' False [(''status'', JStr (sa_status s))])
     else if now < sa_valid_from s \<or> sa_valid_until s < now then
       Some (DdeError ''POLICY_DENIED'' ''Standing approval is outside its valid window'' False [])
     else if sa_mission s \<noteq> None \<and> sa_mission s \<noteq> Some (su_mission u) then
       Some (DdeError ''POLICY_DENIED'' ''Standing approval is bound to a different mission'' False [])
     else if su_type u \<in> set STANDING_FORBIDDEN_TYPES then
       Some (DdeError ''POLICY_DENIED'' ''A standing approval can never pre-authorise this approval_type'' False
         [(''approval_type'', JStr (su_type u))])
     else if su_type u \<notin> set (sa_types s) then
       Some (DdeError ''POLICY_DENIED'' ''Standing approval does not cover this approval_type'' False [])
     else if su_risk_class u = ''critical'' \<or> dict_default RISK_ORDER (su_risk_class u) 99 > dict_default RISK_ORDER (sa_risk_ceiling s) (-1) then
       Some (DdeError ''POLICY_DENIED'' ''Standing approval risk_ceiling exceeded'' False
         [(''risk_class'', JStr (su_risk_class u)), (''ceiling'', JStr (sa_risk_ceiling s))])
     else if dict_default BLAST_ORDER (su_blast_radius u) 99 > dict_default BLAST_ORDER (sa_blast_ceiling s) (-1) then
       Some (DdeError ''POLICY_DENIED'' ''Standing approval blast_radius_ceiling exceeded'' False [])
     else if sa_task_count_used s \<ge> sa_task_count_ceiling s then
       Some (DdeError ''POLICY_DENIED'' ''Standing approval task_count_ceiling exceeded'' False [])
     else if sa_cost_used s + su_cost u > sa_cost_ceiling s then
       Some (DdeError ''POLICY_DENIED'' ''Standing approval cost_ceiling exceeded'' False [])
     else if su_operation u \<noteq> [] \<and> su_operation u \<in> set (sa_forbidden_operations s) then
       Some (DdeError ''POLICY_DENIED'' ''Standing approval forbids this operation'' False [(''operation'', JStr (su_operation u))])
     else uncovered_path s u (su_requested_paths u))"

definition standing_request_of :: "standing_use \<Rightarrow> approval_request" where
  "standing_request_of u =
    \<lparr>rq_tenant = su_tenant u, rq_project = su_project u, rq_mission = su_mission u, rq_type = su_type u,
     rq_scope_hash = su_scope_hash u, rq_requested_by = su_requested_by u, rq_key = su_key u, rq_task = su_task u,
     rq_required_role = DEFAULT_REQUIRED_ROLE, rq_evidence_refs = [], rq_suggested_decision = None,
     rq_standing = Some (su_standing u)\<rparr>"

definition standing_decision :: "standing_use \<Rightarrow> standing_approval \<Rightarrow> decision_args" where
  "standing_decision u s =
    \<lparr>dc_tenant = su_tenant u, dc_project = su_project u, dc_decision = ''APPROVED'', dc_decided_by = sa_granted_by s,
     dc_rationale = ''standing:'' @ sa_id s, dc_human_minutes = 0, dc_edr = None\<rparr>"

definition authorize_in :: "standing_use \<Rightarrow> 'x governance_db_scheme \<Rightarrow> approval result \<times> 'x governance_db_scheme" where
  "authorize_in u d =
    (case require_standing (su_standing u) d of
       Inl err \<Rightarrow> (Inl err, d)
     | Inr s \<Rightarrow>
         let (now, d1) = read_clock d in
         case standing_uncovered s u now of
           Some err \<Rightarrow> (Inl err, d1)
         | None \<Rightarrow>
             and_then (request_in (standing_request_of u)) (\<lambda>minted.
               and_then (decide_in (standing_decision u s) (ap_id minted) (su_scope_hash u) None) (\<lambda>decided d2.
                 (Inr decided, update_standing (su_standing u) (\<lambda>x. x\<lparr>sa_task_count_used := sa_task_count_used s + 1,
                    sa_cost_used := sa_cost_used s + su_cost u, sa_updated_at := now\<rparr>) d2))) d1)"

definition authorize_standing :: "standing_use \<Rightarrow> 'x governance_db_scheme \<Rightarrow> approval result \<times> 'x governance_db_scheme" where
  "authorize_standing u = transact (authorize_in u)"

subsection \<open>Attention budget\<close>

record attention_metrics =
  am_human_minutes :: rat
  am_approvals :: nat
  am_by_type :: "(string, int) dict"
  am_debt :: nat
  am_open :: nat
  am_standing_uses :: nat
  am_blocked :: nat

definition count_by :: "('r \<Rightarrow> string) \<Rightarrow> 'r list \<Rightarrow> (string, int) dict" where
  "count_by field rows = foldl (\<lambda>counts r. dict_set (field r) (dict_default counts (field r) 0 + 1) counts) [] rows"

definition attention_budget :: "uuid \<Rightarrow> 'x governance_db_scheme \<Rightarrow> attention_metrics \<times> 'x governance_db_scheme" where
  "attention_budget m d =
    (let rows = approvals_for_mission m d;
         items = attention_for_mission m d;
         (now, d1) = read_clock d;
         open_items = filter (\<lambda>i. ai_status i = ''OPEN'') items
     in (\<lparr>am_human_minutes = sum_list (map ap_human_minutes rows), am_approvals = length rows, am_by_type = count_by ap_type rows,
          am_debt = length (filter (\<lambda>i. ai_sla_due_at i \<le> now) open_items), am_open = length open_items,
          am_standing_uses = length (filter (\<lambda>a. ap_standing a \<noteq> None) rows),
          am_blocked = length (filter (\<lambda>a. ap_status a \<in> set OPEN_APPROVAL_STATUSES) rows)\<rparr>, d1))"

section \<open>Calls\<close>

datatype governance_op =
    Request approval_request
  | Decide decision_args uuid string
  | BatchDecide decision_args "uuid list" "string list" "string option"
  | Expire uuid uuid uuid
  | Withdraw uuid
  | GrantStanding standing_request
  | RevokeStanding uuid uuid uuid
  | AuthorizeStanding standing_use
  | RaiseAttention uuid uuid uuid string string "uuid option" "uuid option"

fun governance_step :: "governance_op \<Rightarrow> 'x governance_db_scheme \<Rightarrow> 'x governance_db_scheme" where
  "governance_step (Request q) d = snd (request_approval q d)"
| "governance_step (Decide c k h) d = snd (decide_approval c k h d)"
| "governance_step (BatchDecide c ks hs key) d = snd (batch_decide c ks hs key d)"
| "governance_step (Expire t p k) d = snd (expire_approval t p k d)"
| "governance_step (Withdraw k) d = snd (withdraw_approval k d)"
| "governance_step (GrantStanding q) d = snd (grant_standing q d)"
| "governance_step (RevokeStanding t p k) d = snd (revoke_standing t p k d)"
| "governance_step (AuthorizeStanding u) d = snd (authorize_standing u d)"
| "governance_step (RaiseAttention t p m kind summary a s) d = snd (raise_attention_item t p m kind summary a s d)"

section \<open>Invariant\<close>

text \<open>
  The parts of an approval the request fixes, the parts a decision writes, and what a row keeps: the request
  for good, and the decision once the approval is no longer open.
\<close>

definition request_part :: "approval \<Rightarrow> approval" where
  "request_part a = a\<lparr>ap_status := [], ap_decided_by := None, ap_decided_at := None, ap_rationale := None, ap_edr := None,
     ap_human_minutes := 0, ap_updated_at := 0\<rparr>"

definition decision_part :: "approval \<Rightarrow> uuid option \<times> time option \<times> string option \<times> uuid option \<times> rat" where
  "decision_part a = (ap_decided_by a, ap_decided_at a, ap_rationale a, ap_edr a, ap_human_minutes a)"

definition is_open :: "approval \<Rightarrow> bool" where
  "is_open a \<longleftrightarrow> ap_status a \<in> set OPEN_APPROVAL_STATUSES"

definition approval_le :: "approval \<Rightarrow> approval \<Rightarrow> bool" where
  "approval_le a b \<longleftrightarrow> request_part b = request_part a
    \<and> (\<not> is_open a \<longrightarrow> decision_part b = decision_part a \<and> \<not> is_open b
        \<and> (ap_status b = ap_status a \<or> ap_status a = ''APPROVED'' \<and> ap_status b \<in> {''EXPIRED'', ''WITHDRAWN''}))"

lemma approval_le_refl [simp]: "approval_le a a"
  by (simp add: approval_le_def)

lemma approval_le_trans: "approval_le a b \<Longrightarrow> approval_le b c \<Longrightarrow> approval_le a c"
  by (auto simp: approval_le_def)

lemma request_part_fields:
  assumes "request_part b = request_part a"
  shows "ap_id b = ap_id a" "ap_type b = ap_type a" "ap_scope_hash b = ap_scope_hash a" "ap_expires_at b = ap_expires_at a"
    "ap_mission b = ap_mission a"
  using assms by (cases a; cases b; simp add: request_part_def)+

text \<open>The audit entry of a decision.\<close>

definition decision_logged :: "audit_store \<Rightarrow> approval \<Rightarrow> bool" where
  "decision_logged store a \<longleftrightarrow> (\<exists>ev b u dec batch. ev \<in> set (dict_values store) \<and> ae_type ev = ''approval.decided''
    \<and> ap_decided_by a = Some u \<and> ae_payload ev = decision_audit_payload b u dec batch None
    \<and> request_part b = request_part a \<and> decision_part b = decision_part a \<and> dec = ap_status b \<and> dec \<in> {''APPROVED'', ''REJECTED''})"

definition approval_ok :: "audit_store \<Rightarrow> approval \<Rightarrow> bool" where
  "approval_ok store a \<longleftrightarrow> ap_status a \<in> set (dict_keys APPROVAL_TRANSITIONS) \<and> (is_open a \<longrightarrow> ap_decided_by a = None)
    \<and> (ap_decided_by a \<noteq> None \<longrightarrow> decision_logged store a) \<and> (ap_status a \<in> {''APPROVED'', ''REJECTED''} \<longrightarrow> ap_decided_by a \<noteq> None)"

definition standing_ok :: "standing_approval \<Rightarrow> bool" where
  "standing_ok s \<longleftrightarrow> 0 \<le> sa_task_count_used s \<and> sa_task_count_used s \<le> max 0 (sa_task_count_ceiling s)
    \<and> sa_cost_used s \<le> max 0 (sa_cost_ceiling s) \<and> set (sa_types s) \<subseteq> set APPROVAL_TYPES - set STANDING_FORBIDDEN_TYPES
    \<and> sa_risk_ceiling s \<in> set (dict_keys RISK_ORDER) - {''critical''}"

interpretation approval_rows: row_table approvals "\<lambda>t d. d\<lparr>approvals := t\<rparr>" ap_id
  by unfold_locales simp_all

interpretation standing_rows: row_table standings "\<lambda>t d. d\<lparr>standings := t\<rparr>" sa_id
  by unfold_locales simp_all

interpretation attention_rows: row_table attentions "\<lambda>t d. d\<lparr>attentions := t\<rparr>" ai_id
  by unfold_locales simp_all

definition gov_ok :: "'x governance_db_scheme \<Rightarrow> bool" where
  "gov_ok d \<longleftrightarrow> table_ok approvals ap_id d \<and> table_ok standings sa_id d \<and> table_ok attentions ai_id d
    \<and> audit_ok (audits d) \<and> set (dict_keys (audits d)) \<subseteq> drawn_ids (db_env d)
    \<and> (\<forall>a \<in> set (dict_values (approvals d)). approval_ok (audits d) a) \<and> (\<forall>s \<in> set (dict_values (standings d)). standing_ok s)"

lemma gov_okD:
  assumes "gov_ok d"
  shows "table_ok approvals ap_id d" "table_ok standings sa_id d" "table_ok attentions ai_id d" "audit_ok (audits d)"
    "set (dict_keys (audits d)) \<subseteq> drawn_ids (db_env d)" "\<And>a. a \<in> set (dict_values (approvals d)) \<Longrightarrow> approval_ok (audits d) a"
    "\<And>s. s \<in> set (dict_values (standings d)) \<Longrightarrow> standing_ok s" "log_ok d"
  using assms unfolding gov_ok_def table_ok_def by blast+

lemma gov_okI:
  assumes "table_ok approvals ap_id d" "table_ok standings sa_id d" "table_ok attentions ai_id d" "audit_ok (audits d)"
    "set (dict_keys (audits d)) \<subseteq> drawn_ids (db_env d)" "\<And>a. a \<in> set (dict_values (approvals d)) \<Longrightarrow> approval_ok (audits d) a"
    "\<And>s. s \<in> set (dict_values (standings d)) \<Longrightarrow> standing_ok s"
  shows "gov_ok d"
  using assms unfolding gov_ok_def by blast

text \<open>
  A later state: what is filed stays filed, each row moves as it may, an approval that has become APPROVED is
  one \<open>A\<close> holds of, and one that is new was asked for as \<open>N\<close> says.
\<close>

definition standing_le :: "standing_approval \<Rightarrow> standing_approval \<Rightarrow> bool" where
  "standing_le s s' \<longleftrightarrow> s' = s \<or> sa_status s = ''ACTIVE'' \<and> sa_task_count_used s \<le> sa_task_count_used s'"

definition approvals_le :: "(approval \<Rightarrow> bool) \<Rightarrow> (approval \<Rightarrow> bool) \<Rightarrow> (uuid, approval) dict \<Rightarrow> (uuid, approval) dict \<Rightarrow> bool" where
  "approvals_le A N t t' \<longleftrightarrow> (\<forall>k a. dict_get t k = Some a \<longrightarrow> (\<exists>a'. dict_get t' k = Some a' \<and> approval_le a a'))
    \<and> (\<forall>k b. dict_get t' k = Some b \<longrightarrow> ap_status b = ''APPROVED'' \<longrightarrow>
        A (request_part b) \<or> (\<exists>a. dict_get t k = Some a \<and> ap_status a = ''APPROVED''))
    \<and> (\<forall>k b. dict_get t' k = Some b \<longrightarrow> N (request_part b) \<or> (\<exists>a. dict_get t k = Some a))"

definition gov_le ::
  "(approval \<Rightarrow> bool) \<Rightarrow> (approval \<Rightarrow> bool) \<Rightarrow> 'x governance_db_scheme \<Rightarrow> 'x governance_db_scheme \<Rightarrow> bool"
where
  "gov_le A N d d' \<longleftrightarrow> gov_ok d' \<and> grows d d' \<and> governance_db.more d' = governance_db.more d
    \<and> approvals_le A N (approvals d) (approvals d')
    \<and> (\<forall>k s. dict_get (standings d) k = Some s \<longrightarrow> (\<exists>s'. dict_get (standings d') k = Some s' \<and> standing_le s s'))
    \<and> set (dict_values (audits d)) \<subseteq> set (dict_values (audits d'))"

lemma standing_le_refl [simp]: "standing_le s s"
  by (simp add: standing_le_def)

lemma standing_le_trans: "standing_le a b \<Longrightarrow> standing_le b c \<Longrightarrow> standing_le a c"
  by (auto simp: standing_le_def)

lemma approvals_le_refl [simp]: "approvals_le A N t t"
  by (simp add: approvals_le_def)

lemma approvals_leD:
  assumes "approvals_le A N t t'"
  shows "dict_get t k = Some a \<Longrightarrow> \<exists>a'. dict_get t' k = Some a' \<and> approval_le a a'"
    and "dict_get t' k = Some b \<Longrightarrow> ap_status b = ''APPROVED'' \<Longrightarrow> A (request_part b) \<or> (\<exists>a. dict_get t k = Some a \<and> ap_status a = ''APPROVED'')"
    and "dict_get t' k = Some b \<Longrightarrow> N (request_part b) \<or> (\<exists>a. dict_get t k = Some a)"
  using assms unfolding approvals_le_def by blast+

lemma approvals_le_trans:
  assumes le: "approvals_le A N t u" "approvals_le A N u v"
  shows "approvals_le A N t v"
  unfolding approvals_le_def
proof (intro conjI allI impI)
  fix k a assume "dict_get t k = Some a"
  then show "\<exists>a'. dict_get v k = Some a' \<and> approval_le a a'"
    using approvals_leD(1) [OF le(1)] approvals_leD(1) [OF le(2)] approval_le_trans by blast
next
  fix k c assume c: "dict_get v k = Some c"
  have part: "request_part c = request_part b" if "dict_get u k = Some b" for b
    using approvals_leD(1) [OF le(2) that] c by (auto simp: approval_le_def)
  show "A (request_part c) \<or> (\<exists>a. dict_get t k = Some a \<and> ap_status a = ''APPROVED'')" if "ap_status c = ''APPROVED''"
    using approvals_leD(2) [OF le(2) c that] approvals_leD(2) [OF le(1)] part by metis
  show "N (request_part c) \<or> (\<exists>a. dict_get t k = Some a)"
    using approvals_leD(3) [OF le(2) c] approvals_leD(3) [OF le(1)] part by metis
qed

lemma gov_leD:
  assumes "gov_le A N d d'"
  shows "gov_ok d'" "grows d d'" "governance_db.more d' = governance_db.more d" "approvals_le A N (approvals d) (approvals d')"
    "\<And>k s. dict_get (standings d) k = Some s \<Longrightarrow> \<exists>s'. dict_get (standings d') k = Some s' \<and> standing_le s s'"
    "set (dict_values (audits d)) \<subseteq> set (dict_values (audits d'))"
  using assms unfolding gov_le_def by blast+

lemma gov_le_trans:
  assumes le: "gov_le A N a b" "gov_le A N b c"
  shows "gov_le A N a c"
  unfolding gov_le_def
proof (intro conjI allI impI)
  show "gov_ok c" "grows a c" "governance_db.more c = governance_db.more a" "approvals_le A N (approvals a) (approvals c)"
    "set (dict_values (audits a)) \<subseteq> set (dict_values (audits c))"
    using gov_leD [OF le(1)] gov_leD [OF le(2)] by (auto intro: grows_trans approvals_le_trans)
  show "\<exists>s'. dict_get (standings c) k = Some s' \<and> standing_le s s'" if "dict_get (standings a) k = Some s" for k s
    using gov_leD(5) [OF le(1) that] gov_leD(5) [OF le(2)] standing_le_trans by blast
qed

section \<open>What each write does\<close>

text \<open>Writing the log and drawing, with the tables as they are.\<close>

definition same_tables :: "'x governance_db_scheme \<Rightarrow> 'x governance_db_scheme \<Rightarrow> bool" where
  "same_tables d d' \<longleftrightarrow> gov_ok d' \<and> grows d d' \<and> governance_db.more d' = governance_db.more d \<and> approvals d' = approvals d
    \<and> standings d' = standings d \<and> audits d' = audits d"

definition quiet :: "'x governance_db_scheme \<Rightarrow> 'x governance_db_scheme \<Rightarrow> bool" where
  "quiet d d' \<longleftrightarrow> same_tables d d' \<and> es_commands (db_log d') = es_commands (db_log d)"

lemma same_tables_le: "same_tables d d' \<Longrightarrow> gov_le A N d d'"
  by (simp add: same_tables_def gov_le_def)

lemma same_tables_trans: "same_tables a b \<Longrightarrow> same_tables b c \<Longrightarrow> same_tables a c"
  by (auto simp: same_tables_def intro: grows_trans)

lemma quiet_trans: "quiet a b \<Longrightarrow> quiet b c \<Longrightarrow> quiet a c"
  by (auto simp: quiet_def intro: same_tables_trans)

lemma same_tables_env_le: "same_tables d d' \<Longrightarrow> env_le (db_env d) (db_env d')"
  by (simp add: same_tables_def grows_def)

lemma in_progress_quiet: "quiet d d' \<Longrightarrow> in_progress c d \<Longrightarrow> in_progress c d'"
  by (simp add: quiet_def in_progress_def)

lemma same_tables_log:
  assumes ok: "gov_ok d" and grow: "grows d (d\<lparr>db_log := s, db_env := e\<rparr>)"
  shows "same_tables d (d\<lparr>db_log := s, db_env := e\<rparr>)"
proof -
  have log: "log_ok (d\<lparr>db_log := s, db_env := e\<rparr>)" "env_le (db_env d) e" using grow by (simp_all add: grows_def)
  have "gov_ok (d\<lparr>db_log := s, db_env := e\<rparr>)"
  proof (rule gov_okI)
    show "set (dict_keys (audits (d\<lparr>db_log := s, db_env := e\<rparr>))) \<subseteq> drawn_ids (db_env (d\<lparr>db_log := s, db_env := e\<rparr>))"
      using order_trans [OF gov_okD(5) [OF ok] env_le_drawn [OF log(2)]] by simp
  qed (use gov_okD [OF ok] log approval_rows.ok_log standing_rows.ok_log attention_rows.ok_log in simp_all)
  then show ?thesis using grow by (simp add: same_tables_def)
qed

lemma quiet_env:
  assumes "gov_ok d" and "env_le (db_env d) e"
  shows "quiet d (d\<lparr>db_env := e\<rparr>)"
proof -
  have "grows d (d\<lparr>db_env := e\<rparr>)" using gov_okD(8) [OF assms(1)] assms(2) by (intro grows_same) simp_all
  then show ?thesis using same_tables_log [OF assms(1), of e "db_log d"] by (simp add: quiet_def)
qed

lemma quiet_clock: "gov_ok d \<Longrightarrow> quiet d (d\<lparr>db_env := snd (clock_now (db_env d))\<rparr>)"
  by (rule quiet_env) simp_all

lemma quiet_draw: "gov_ok d \<Longrightarrow> quiet d (d\<lparr>db_env := snd (uuid7 (snd (clock_now (db_env d))))\<rparr>)"
  by (rule quiet_env) simp_all

lemma drawn_next:
  assumes "gov_ok d"
  shows "fst (uuid7 (snd (clock_now (db_env d)))) \<in> drawn_ids (snd (uuid7 (snd (clock_now (db_env d)))))"
    "fst (uuid7 (snd (clock_now (db_env d)))) \<notin> drawn_ids (db_env d)"
  using log_ok_draw(2,3) [OF log_ok_clock [OF gov_okD(8) [OF assms]]] by simp_all

lemma event_yields:
  assumes "gov_ok d"
  shows "yields (append_event a) d (\<lambda>_. quiet d)"
proof -
  obtain ev s e where "append_event a d = (Inr ev, d\<lparr>db_log := s, db_env := e\<rparr>)" "grows d (d\<lparr>db_log := s, db_env := e\<rparr>)"
      "es_commands s = es_commands (db_log d)"
    by (rule append_event_grows [OF gov_okD(8) [OF assms]])
  then show ?thesis
    using same_tables_log [OF assms, of e s] by (auto simp: quiet_def grows_def intro!: yieldsI)
qed

lemma begin_yields:
  assumes "gov_ok d"
  shows "yields (begin_command t p k h) d (\<lambda>(rec, is_new) d'. same_tables d d' \<and> (is_new \<longrightarrow> in_progress (ci_command rec) d')
    \<and> (\<not> is_new \<longrightarrow> db_log d' = db_log d \<and> db.more d' = db.more d))"
  using gov_okD(8) [OF assms]
proof (cases rule: begin_command_grows [of d t p k h])
  case (new r s e)
  then show ?thesis using same_tables_log [OF assms, of e s] by (auto simp: grows_def intro!: yieldsI)
next
  case (old r e)
  have "same_tables d (d\<lparr>db_env := e\<rparr>)" "env_le (db_env d) e"
    using quiet_env [OF assms, of e] old(2) by (simp_all add: quiet_def grows_def)
  then show ?thesis using old(1,3) by (auto simp: yields_def)
qed

lemma complete_yields:
  assumes "gov_ok d" and "in_progress cid d"
  shows "yields (complete_command cid res) d (\<lambda>_. same_tables d)"
proof -
  obtain c s e where "complete_command cid res d = (Inr c, d\<lparr>db_log := s, db_env := e\<rparr>)" "grows d (d\<lparr>db_log := s, db_env := e\<rparr>)"
    by (rule complete_command_grows [OF gov_okD(8) [OF assms(1)] assms(2)])
  then show ?thesis using same_tables_log [OF assms(1), of e s] by (auto simp: grows_def intro!: yieldsI)
qed

lemma attention_yields:
  assumes ok: "gov_ok d"
  shows "yields (raise_attention t p m kind summary a s) d (\<lambda>_. quiet d)"
proof -
  let ?now = "fst (clock_now (db_env d))" and ?e = "snd (uuid7 (snd (clock_now (db_env d))))"
  let ?d1 = "d\<lparr>db_env := ?e\<rparr>" and ?i = "fst (uuid7 (snd (clock_now (db_env d))))"
  let ?item = "\<lparr>ai_id = ?i, ai_tenant = t, ai_project = p, ai_mission = m, ai_kind = kind,
     ai_summary = summary, ai_status = ''OPEN'', ai_approval = a, ai_standing = s, ai_sla_due_at = ?now + hours ATTENTION_SLA_HOURS,
     ai_opened_at = ?now, ai_acknowledged_at = None, ai_created_at = ?now, ai_updated_at = ?now\<rparr>"
  let ?d2 = "?d1\<lparr>attentions := dict_set ?i ?item (attentions d)\<rparr>"
  have q: "quiet d ?d1" by (rule quiet_draw [OF ok])
  then have ok1: "gov_ok ?d1" by (simp add: quiet_def same_tables_def)
  have "?i \<notin> set (dict_keys (attentions d))" using table_okD(3) [OF gov_okD(3) [OF ok]] drawn_next(2) [OF ok] by blast
  then have run: "raise_attention t p m kind summary a s d = (Inr ?item, ?d2)"
    by (simp add: raise_attention_def read_clock_eq draw_id_eq insert_attention_def table_insert_new and_then_def)
  have "table_ok attentions ai_id ?d2"
    using attention_rows.ok_put [OF gov_okD(3) [OF ok1], of ?i ?item] drawn_next(1) [OF ok] by simp
  moreover have "table_ok approvals ap_id ?d2" "table_ok standings sa_id ?d2"
    using gov_okD(1,2) [OF ok1] calculation by (simp_all add: table_ok_def)
  ultimately have ok2: "gov_ok ?d2" using gov_okD [OF ok1] by (intro gov_okI) simp_all
  have "grows d ?d2" by (rule grows_same [OF gov_okD(8) [OF ok]]) simp_all
  then have "quiet d ?d2" using ok2 by (simp add: quiet_def same_tables_def)
  then show ?thesis using run by (auto intro!: yieldsI)
qed

text \<open>Writing one row.\<close>

lemma approval_ok_mono:
  assumes "approval_ok s a" and "set (dict_values s) \<subseteq> set (dict_values s')"
  shows "approval_ok s' a"
  using assms unfolding approval_ok_def decision_logged_def by blast

lemma gov_le_approval:
  assumes ok: "gov_ok d" and k: "k \<in> drawn_ids (db_env d)" "ap_id b = k" and b: "approval_ok (audits d) b"
    and le: "\<And>a. dict_get (approvals d) k = Some a \<Longrightarrow> approval_le a b"
    and new: "dict_get (approvals d) k = None \<Longrightarrow> N (request_part b)"
    and A: "ap_status b = ''APPROVED'' \<Longrightarrow> A (request_part b)"
  shows "gov_le A N d (d\<lparr>approvals := dict_set k b (approvals d)\<rparr>)"
proof -
  let ?d = "d\<lparr>approvals := dict_set k b (approvals d)\<rparr>"
  have t: "table_ok approvals ap_id ?d" by (rule approval_rows.ok_put [OF gov_okD(1) [OF ok] k])
  have "gov_ok ?d"
  proof (rule gov_okI [OF t])
    show "approval_ok (audits ?d) x" if "x \<in> set (dict_values (approvals ?d))" for x
      using that dict_values_set_subset [of k b "approvals d"] gov_okD(6) [OF ok] b by auto
  qed (use gov_okD [OF ok] t in \<open>simp_all add: table_ok_def\<close>)
  moreover have "grows d ?d" by (rule grows_same [OF gov_okD(8) [OF ok]]) simp_all
  moreover have "approvals_le A N (approvals d) (dict_set k b (approvals d))"
    using le new A unfolding approvals_le_def by (auto simp: dict_get_set intro: exI [of _ b])
  ultimately show ?thesis by (simp add: gov_le_def)
qed

lemma gov_le_standing:
  assumes ok: "gov_ok d" and k: "k \<in> drawn_ids (db_env d)" "sa_id s = k" and s: "standing_ok s"
    and le: "\<And>x. dict_get (standings d) k = Some x \<Longrightarrow> standing_le x s"
  shows "gov_le A N d (d\<lparr>standings := dict_set k s (standings d)\<rparr>)"
proof -
  let ?d = "d\<lparr>standings := dict_set k s (standings d)\<rparr>"
  have t: "table_ok standings sa_id ?d" by (rule standing_rows.ok_put [OF gov_okD(2) [OF ok] k])
  have "gov_ok ?d"
  proof (rule gov_okI [OF _ t])
    show "standing_ok x" if "x \<in> set (dict_values (standings ?d))" for x
      using that dict_values_set_subset [of k s "standings d"] gov_okD(7) [OF ok] s by auto
  qed (use gov_okD [OF ok] t in \<open>simp_all add: table_ok_def\<close>)
  moreover have "grows d ?d" by (rule grows_same [OF gov_okD(8) [OF ok]]) simp_all
  moreover have "\<exists>s'. dict_get (standings ?d) k' = Some s' \<and> standing_le x s'" if "dict_get (standings d) k' = Some x" for k' x
    using that le by (auto simp: dict_get_set)
  ultimately show ?thesis by (simp add: gov_le_def)
qed

lemma audit_yields:
  assumes ok: "gov_ok d"
  obtains ev S e where "append_audit t ty payload p d = (Inr ev, d\<lparr>audits := S, db_env := e\<rparr>)"
    "gov_le A N d (d\<lparr>audits := S, db_env := e\<rparr>)" "ev \<in> set (dict_values S)" "ae_type ev = ty" "ae_payload ev = payload"
proof -
  let ?now = "fst (clock_now (db_env d))" and ?i = "fst (uuid7 (snd (clock_now (db_env d))))"
    and ?e = "snd (uuid7 (snd (clock_now (db_env d))))"
  let ?d1 = "d\<lparr>db_env := ?e\<rparr>"
  have ok1: "gov_ok ?d1" "grows d ?d1" using quiet_draw [OF ok] by (simp_all add: quiet_def same_tables_def)
  have new: "?i \<notin> set (dict_keys (audits d))" using gov_okD(5) [OF ok] drawn_next(2) [OF ok] by blast
  note eq = db_audit_append_eq [OF gov_okD(4) [OF ok] new]
  obtain ev S where a: "audit_append ?now ?i t ty payload p (audits d) = (ev, S)" by force
  have S: "S = audits d @ [(?i, ev)]" "ae_type ev = ty" "ae_payload ev = payload"
    using a new by (auto simp: audit_append_def audit_record_def dict_set_new)
  let ?d2 = "d\<lparr>audits := S, db_env := ?e\<rparr>"
  have run: "append_audit t ty payload p d = (Inr ev, ?d2)"
    by (simp add: append_audit_def read_clock_eq draw_id_eq eq a)
  have "audit_ok S" using audit_append_ok [OF gov_okD(4) [OF ok] new, of ?now t ty payload p] by (simp add: a)
  moreover have "set (dict_keys S) \<subseteq> drawn_ids ?e" using gov_okD(5) [OF ok1(1)] drawn_next(1) [OF ok] by (simp add: S(1))
  moreover have "approval_ok S x" if "x \<in> set (dict_values (approvals d))" for x
    by (rule approval_ok_mono [OF gov_okD(6) [OF ok that]]) (auto simp: S(1))
  moreover have log: "log_ok ?d2" by (rule log_ok_env [OF gov_okD(8) [OF ok1(1)]]) simp_all
  ultimately have "gov_ok ?d2" using gov_okD [OF ok1(1)] by (intro gov_okI) (simp_all add: table_ok_def)
  moreover have "grows d ?d2" by (rule grows_same [OF gov_okD(8) [OF ok]]) simp_all
  ultimately have "gov_le A N d ?d2" by (auto simp: gov_le_def S(1))
  then show thesis using run S by (intro that [of ev ?e S]) simp_all
qed

section \<open>What each body does\<close>

lemma gov_le_tables: "gov_le A N d d' \<Longrightarrow> same_tables d' d'' \<Longrightarrow> gov_le A N d d''"
  using gov_le_trans same_tables_le by blast

lemma gov_le_quiet: "gov_le A N d d' \<Longrightarrow> quiet d' d'' \<Longrightarrow> gov_le A N d d''"
  by (simp add: quiet_def gov_le_tables)

lemma gov_le_refl: "gov_ok d \<Longrightarrow> gov_le A N d d"
  by (simp add: gov_le_def grows_def gov_okD(8))

lemma yields_Pair: "Q r d \<Longrightarrow> yields (Pair (Inr r)) d Q"
  by (simp add: yields_def)

lemma requested_approval_simps [simp]:
  "ap_id (requested_approval q i cid now) = i" "ap_status (requested_approval q i cid now) = ''REQUESTED''"
  "ap_type (requested_approval q i cid now) = rq_type q" "ap_scope_hash (requested_approval q i cid now) = rq_scope_hash q"
  "approval_ok s (requested_approval q i cid now)"
  by (simp_all add: requested_approval_def approval_ok_def is_open_def APPROVAL_TRANSITIONS_def)

lemma request_part_simps [simp]:
  "ap_id (request_part a) = ap_id a" "ap_type (request_part a) = ap_type a" "ap_scope_hash (request_part a) = ap_scope_hash a"
  by (simp_all add: request_part_def)

lemma write_request_yields:
  assumes ok: "gov_ok d" and cid: "in_progress cid d"
    and N: "\<And>a. ap_scope_hash a = rq_scope_hash q \<Longrightarrow> ap_type a = rq_type q \<Longrightarrow> N a"
  shows "yields (write_request q cid) d (\<lambda>_ d'. gov_le A N d d' \<and> standings d' = standings d)"
proof -
  let ?now = "fst (clock_now (db_env d))" and ?i = "fst (uuid7 (snd (clock_now (db_env d))))"
  let ?d1 = "d\<lparr>db_env := snd (uuid7 (snd (clock_now (db_env d))))\<rparr>" and ?a = "requested_approval q ?i cid ?now"
  let ?d2 = "?d1\<lparr>approvals := dict_set ?i ?a (approvals ?d1)\<rparr>"
  let ?rest = "and_then (raise_attention (rq_tenant q) (rq_project q) (rq_mission q) ''approval_requested''
      (rq_type q @ '' approval requested'') (Some (ap_id ?a)) None)
    (\<lambda>_. and_then (append_event (approval_event ''ApprovalRequested'' (rq_tenant q) (rq_project q) ?a
        [(''approval_type'', JStr (rq_type q)), (''scope_hash'', JStr (rq_scope_hash q)), (''status'', JStr (ap_status ?a))]))
      (\<lambda>_. and_then (complete_command cid (JObj (approval_dump ?a))) (\<lambda>_. Pair (Inr ?a))))"
  have q1: "quiet d ?d1" by (rule quiet_draw [OF ok])
  have ok1: "gov_ok ?d1" using q1 by (simp add: quiet_def same_tables_def)
  have new: "?i \<notin> set (dict_keys (approvals d))" using table_okD(3) [OF gov_okD(1) [OF ok]] drawn_next(2) [OF ok] by blast
  have "gov_le A N ?d1 ?d2"
    by (rule gov_le_approval [OF ok1]) (use drawn_next(1) [OF ok] N new dict_get_None [of "approvals d" ?i] in auto)
  then have le2: "gov_le A N d ?d2" using gov_le_trans [OF same_tables_le] q1 by (auto simp: quiet_def)
  have cid2: "in_progress cid ?d2" using cid by (simp add: in_progress_def)
  have "yields ?rest ?d2 (\<lambda>_ d'. gov_le A N d d' \<and> standings d' = standings d)"
  proof (rule yields_and_then [OF attention_yields [OF gov_leD(1) [OF le2]]])
    fix x d3 assume q3: "quiet ?d2 d3"
    have ok3: "gov_ok d3" using q3 by (simp add: quiet_def same_tables_def)
    show "yields (and_then (append_event (approval_event ''ApprovalRequested'' (rq_tenant q) (rq_project q) ?a
        [(''approval_type'', JStr (rq_type q)), (''scope_hash'', JStr (rq_scope_hash q)), (''status'', JStr (ap_status ?a))]))
      (\<lambda>_. and_then (complete_command cid (JObj (approval_dump ?a))) (\<lambda>_. Pair (Inr ?a)))) d3
        (\<lambda>_ d'. gov_le A N d d' \<and> standings d' = standings d)"
    proof (rule yields_and_then [OF event_yields [OF ok3]])
      fix y d4 assume "quiet d3 d4"
      then have q4: "quiet ?d2 d4" by (rule quiet_trans [OF q3])
      have ok4: "gov_ok d4" using q4 by (simp add: quiet_def same_tables_def)
      show "yields (and_then (complete_command cid (JObj (approval_dump ?a))) (\<lambda>_. Pair (Inr ?a))) d4
          (\<lambda>_ d'. gov_le A N d d' \<and> standings d' = standings d)"
        by (rule yields_and_then [OF complete_yields [OF ok4 in_progress_quiet [OF q4 cid2]]], rule yields_Pair)
          (use gov_le_tables [OF gov_le_quiet [OF le2 q4]] q4 in \<open>auto simp: same_tables_def quiet_def\<close>)
    qed
  qed
  moreover have "write_request q cid d = ?rest ?d2"
    using new by (simp add: write_request_def read_clock_eq draw_id_eq insert_approval_def table_insert_new and_then_def)
  moreover have "env_le (db_env d) (db_env ?d2)" by simp
  ultimately show ?thesis by (intro yields_run [of "write_request q cid" d ?rest ?d2])
qed

lemma request_yields:
  assumes ok: "gov_ok d" and N: "\<And>a. ap_scope_hash a = rq_scope_hash q \<Longrightarrow> ap_type a = rq_type q \<Longrightarrow> N a"
  shows "yields (request_in q) d (\<lambda>_ d'. gov_le A N d d' \<and> standings d' = standings d)"
proof (cases "rq_type q \<in> set APPROVAL_TYPES")
  case True
  have "yields (and_then (begin_command (rq_tenant q) (rq_project q) (rq_key q) (rq_scope_hash q))
      (\<lambda>(rec, is_new). if \<not> is_new then (\<lambda>d1. (replay_approval rec, d1)) else write_request q (ci_command rec))) d
    (\<lambda>_ d'. gov_le A N d d' \<and> standings d' = standings d)"
  proof (rule yields_and_then [OF begin_yields [OF ok]], clarify)
    fix rec :: command_idempotency and is_new d1
    assume d1: "same_tables d d1" "is_new \<longrightarrow> in_progress (ci_command rec) d1"
    have le: "gov_le A N d d1" by (rule same_tables_le [OF d1(1)])
    show "yields (if \<not> is_new then \<lambda>d1. (replay_approval rec, d1) else write_request q (ci_command rec)) d1
        (\<lambda>_ d'. gov_le A N d d' \<and> standings d' = standings d)"
    proof (cases is_new)
      case True
      then have "yields (write_request q (ci_command rec)) d1 (\<lambda>_ d'. gov_le A N d1 d' \<and> standings d' = standings d1)"
        using d1 N by (intro write_request_yields) (simp_all add: same_tables_def)
      then show ?thesis using True gov_le_trans [OF le] d1(1) by (auto simp: same_tables_def elim: yields_mono)
    qed (use le d1(1) in \<open>auto simp: yields_def same_tables_def\<close>)
  qed
  with True show ?thesis by (simp add: request_in_def yields_def)
qed (simp add: request_in_def yields_def)

text \<open>Decisions.\<close>

lemma decided_from_open:
  "dec \<in> {''APPROVED'', ''REJECTED''} \<Longrightarrow> transition (ap_status a) dec APPROVAL_TRANSITIONS = Inr st \<longleftrightarrow> st = dec \<and> is_open a"
  by (auto simp: transition_Inr succs_def APPROVAL_TRANSITIONS_def is_open_def OPEN_APPROVAL_STATUSES_def split: if_splits)

lemma closed_from:
  assumes "transition (ap_status a) st APPROVAL_TRANSITIONS = Inr x" and "st \<in> {''EXPIRED'', ''WITHDRAWN''}"
  shows "x = st" "is_open a \<or> ap_status a = ''APPROVED''"
  using assms by (auto simp: transition_Inr succs_def APPROVAL_TRANSITIONS_def is_open_def OPEN_APPROVAL_STATUSES_def split: if_splits)

lemma append_audit_approvals:
  "append_audit t ty pl p (d\<lparr>approvals := x\<rparr>) = map_prod id (\<lambda>d. d\<lparr>approvals := x\<rparr>) (append_audit t ty pl p d)"
  by (simp add: append_audit_def read_clock_eq draw_id_eq split: prod.split)

definition decides ::
  "decision_args \<Rightarrow> uuid \<Rightarrow> string \<Rightarrow> 'x governance_db_scheme \<Rightarrow> approval \<Rightarrow> 'x governance_db_scheme \<Rightarrow> bool"
where
  "decides c k h d u d' \<longleftrightarrow> (\<exists>a now. dict_get (approvals d) k = Some a \<and> is_open a \<and> ap_scope_hash a = h
      \<and> (\<forall>x. ap_expires_at a = Some x \<longrightarrow> now < x) \<and> u = decided_row c (dc_decision c) now a)
    \<and> approvals d' = dict_set k u (approvals d) \<and> standings d' = standings d \<and> es_commands (db_log d') = es_commands (db_log d)"

lemma decided_row_simps [simp]:
  "ap_id (decided_row c st now a) = ap_id a" "ap_status (decided_row c st now a) = st"
  "request_part (decided_row c st now a) = request_part a" "ap_decided_by (decided_row c st now a) = Some (dc_decided_by c)"
  by (simp_all add: decided_row_def request_part_def)

lemma write_decision_yields:
  assumes ok: "gov_ok d" and a: "dict_get (approvals d) k = Some a" "is_open a"
    and st: "dc_decision c \<in> {''APPROVED'', ''REJECTED''}" and A: "dc_decision c = ''APPROVED'' \<Longrightarrow> A (request_part a)"
  shows "yields (write_decision c k b (dc_decision c) now) d (\<lambda>u d'. gov_le A N d d' \<and> u = decided_row c (dc_decision c) now a
    \<and> approvals d' = dict_set k u (approvals d) \<and> standings d' = standings d \<and> es_commands (db_log d') = es_commands (db_log d))"
    (is "yields ?m d ?Q")
proof -
  let ?u = "decided_row c (dc_decision c) now a"
  let ?t = "dict_set k ?u (approvals d)"
  let ?pl = "decision_audit_payload ?u (dc_decided_by c) (dc_decision c) b None"
  obtain ev S e where au: "append_audit (dc_tenant c) ''approval.decided'' ?pl (Some (dc_project c)) d = (Inr ev, d\<lparr>audits := S, db_env := e\<rparr>)"
    "gov_le A N d (d\<lparr>audits := S, db_env := e\<rparr>)" "ev \<in> set (dict_values S)" "ae_type ev = ''approval.decided''" "ae_payload ev = ?pl"
    by (rule audit_yields [OF ok])
  let ?d1 = "d\<lparr>audits := S, db_env := e\<rparr>"
  let ?d2 = "?d1\<lparr>approvals := dict_set k ?u (approvals ?d1)\<rparr>"
  have ok1: "gov_ok ?d1" by (rule gov_leD(1) [OF au(2)])
  have a1: "dict_get (approvals ?d1) k = Some a" using a(1) by simp
  note k = approval_rows.stored_drawn [OF gov_okD(1) [OF ok1] a1]
  have "decision_logged S ?u" unfolding decision_logged_def
    by (rule exI [of _ ev], rule exI [of _ ?u]) (use au(3-5) st in auto)
  then have aok: "approval_ok (audits ?d1) ?u" using st
    by (auto simp: approval_ok_def is_open_def OPEN_APPROVAL_STATUSES_def APPROVAL_TRANSITIONS_def)
  have "gov_le A N ?d1 ?d2"
    by (rule gov_le_approval [OF ok1 k(1) _ aok]) (use k(2) a A in \<open>auto simp: approval_le_def\<close>)
  then have le2: "gov_le A N d ?d2" by (rule gov_le_trans [OF au(2)])
  let ?e = "append_event (approval_event ''ApprovalDecided'' (dc_tenant c) (dc_project c) ?u
      [(''status'', JStr (ap_status ?u)), (''scope_hash'', JStr (ap_scope_hash ?u)), (''edr_id'', json_opt (dc_edr c))])"
  have "update_approval k (decided_row c (dc_decision c) now) d = d\<lparr>approvals := ?t\<rparr>"
    using table_update_eq [OF keyed_ok [OF table_okD(2) [OF gov_okD(1) [OF ok]]] a(1)] by (simp add: update_approval_def)
  then have run: "?m d = and_then ?e (\<lambda>_. Pair (Inr ?u)) ?d2"
    by (simp add: write_decision_def require_approval_def dict_get_set append_audit_approvals au(1) and_then_def [of "append_audit _ _ _ _"])
  have "yields (and_then ?e (\<lambda>_. Pair (Inr ?u))) ?d2 ?Q"
    by (rule yields_and_then [OF event_yields [OF gov_leD(1) [OF le2]]], rule yields_Pair)
      (use gov_le_quiet [OF le2] in \<open>auto simp: quiet_def same_tables_def\<close>)
  moreover have "env_le (db_env d) (db_env ?d2)" using gov_leD(2) [OF le2] by (simp add: grows_def)
  ultimately show ?thesis by (rule yields_run [of ?m d "and_then ?e (\<lambda>_. Pair (Inr ?u))" ?d2, OF run, rotated])
qed

lemma decide_yields:
  assumes ok: "gov_ok d"
    and A: "\<And>a. ap_id a = k \<Longrightarrow> ap_scope_hash a = h \<Longrightarrow> dc_decision c = ''APPROVED'' \<Longrightarrow> A (request_part a)"
  shows "yields (decide_in c k h b) d (\<lambda>u d'. gov_le A N d d' \<and> decides c k h d u d')"
proof (cases "\<exists>a. dict_get (approvals d) k = Some a \<and> dc_decision c \<in> {''APPROVED'', ''REJECTED''} \<and> ap_scope_hash a = h")
  case False
  then show ?thesis by (auto simp: decide_in_def require_approval_def yields_def split: option.split)
next
  case True
  then obtain a where a: "dict_get (approvals d) k = Some a" "dc_decision c \<in> {''APPROVED'', ''REJECTED''}" "ap_scope_hash a = h" by blast
  let ?now = "fst (clock_now (db_env d))" and ?d1 = "d\<lparr>db_env := snd (clock_now (db_env d))\<rparr>"
  have id: "ap_id a = k" by (rule approval_rows.stored_drawn(2) [OF gov_okD(1) [OF ok] a(1)])
  have dec: "(dc_decision c \<notin> {''APPROVED'', ''REJECTED''}) = False" using a(2) by blast
  note run = decide_in_def dec require_approval_def a(1,3) read_clock_eq
  show ?thesis
  proof (cases "is_open a \<and> (\<forall>x. ap_expires_at a = Some x \<longrightarrow> ?now < x)")
    case False
    then have "\<exists>err. decide_in c k h b d = (Inl err, ?d1)"
      using decided_from_open [OF a(2), of a]
      by (cases "transition (ap_status a) (dc_decision c) APPROVAL_TRANSITIONS") (auto simp only: run Let_def if_False option.case sum.case split: option.splits if_splits)
    then show ?thesis by (auto intro: yields_raise)
  next
    case True
    have q: "quiet d ?d1" by (rule quiet_clock [OF ok])
    have tr: "transition (ap_status a) (dc_decision c) APPROVAL_TRANSITIONS = Inr (dc_decision c)"
      unfolding decided_from_open [OF a(2)] using True by simp
    have eq: "decide_in c k h b d = write_decision c k b (dc_decision c) ?now ?d1"
      using True by (auto simp: run tr simp del: insert_iff empty_iff split: option.split)
    have ok1: "gov_ok ?d1" using q by (simp add: quiet_def same_tables_def)
    have "yields (write_decision c k b (dc_decision c) ?now) ?d1 (\<lambda>u d'. gov_le A N ?d1 d' \<and> u = decided_row c (dc_decision c) ?now a
        \<and> approvals d' = dict_set k u (approvals ?d1) \<and> standings d' = standings ?d1 \<and> es_commands (db_log d') = es_commands (db_log ?d1))"
      by (rule write_decision_yields [OF ok1]) (use a A id True in auto)
    then have "yields (write_decision c k b (dc_decision c) ?now) ?d1 (\<lambda>u d'. gov_le A N d d' \<and> decides c k h d u d')"
      by (rule yields_mono) (use gov_le_trans [OF same_tables_le] q True a in \<open>auto simp: quiet_def decides_def\<close>)
    moreover have "env_le (db_env d) (db_env ?d1)" by simp
    ultimately show ?thesis by (rule yields_run [of "decide_in c k h b" d "write_decision c k b (dc_decision c) ?now" ?d1, OF eq, rotated])
  qed
qed

text \<open>Expiry and withdrawal.\<close>

lemma close_row:
  fixes now :: time
  assumes ok: "gov_ok d" and a: "dict_get (approvals d) k = Some a"
    and tr: "transition (ap_status a) st APPROVAL_TRANSITIONS = Inr x" "st \<in> {''EXPIRED'', ''WITHDRAWN''}"
  defines "b \<equiv> a\<lparr>ap_status := x, ap_updated_at := now\<rparr>"
  shows "update_approval k (\<lambda>a. a\<lparr>ap_status := x, ap_updated_at := now\<rparr>) d = d\<lparr>approvals := dict_set k b (approvals d)\<rparr>"
    "gov_le A N d (d\<lparr>approvals := dict_set k b (approvals d)\<rparr>)"
proof -
  show "update_approval k (\<lambda>a. a\<lparr>ap_status := x, ap_updated_at := now\<rparr>) d = d\<lparr>approvals := dict_set k b (approvals d)\<rparr>"
    using table_update_eq [OF keyed_ok [OF table_okD(2) [OF gov_okD(1) [OF ok]]] a] by (simp add: update_approval_def b_def)
  note from_a = closed_from [OF tr]
  have parts: "request_part b = request_part a" "decision_part b = decision_part a" "ap_status b = st" "ap_id b = ap_id a"
      "ap_decided_by b = ap_decided_by a"
    using from_a(1) by (simp_all add: b_def request_part_def decision_part_def)
  have closed: "\<not> is_open b" "ap_status b \<notin> {''APPROVED'', ''REJECTED''}" "ap_status b \<in> set (dict_keys APPROVAL_TRANSITIONS)"
    using tr(2) by (auto simp: parts(3) is_open_def OPEN_APPROVAL_STATUSES_def APPROVAL_TRANSITIONS_def)
  have aok: "approval_ok (audits d) a" by (rule gov_okD(6) [OF ok dict_get_value [OF a]])
  then have bok: "approval_ok (audits d) b"
    using closed parts unfolding approval_ok_def decision_logged_def by simp
  have le: "approval_le a b"
    using parts(1-3) closed(1) from_a(2) tr(2) by (auto simp: approval_le_def)
  show "gov_le A N d (d\<lparr>approvals := dict_set k b (approvals d)\<rparr>)"
    by (rule gov_le_approval [OF ok _ _ bok])
      (use approval_rows.stored_drawn [OF gov_okD(1) [OF ok] a] parts(4) a le closed(2) in auto)
qed

lemma expire_yields:
  assumes ok: "gov_ok d"
  shows "yields (expire_in t p k) d (\<lambda>_. gov_le A N d)"
proof -
  let ?now = "fst (clock_now (db_env d))" and ?d1 = "d\<lparr>db_env := snd (clock_now (db_env d))\<rparr>"
  note run = expire_in_def require_approval_def read_clock_eq
  consider "dict_get (approvals d) k = None"
    | a where "dict_get (approvals d) k = Some a" "(case ap_expires_at a of None \<Rightarrow> False | Some x \<Rightarrow> ?now < x)
        \<or> (\<exists>err. transition (ap_status a) ''EXPIRED'' APPROVAL_TRANSITIONS = Inl err)"
    | a x where "dict_get (approvals d) k = Some a" "transition (ap_status a) ''EXPIRED'' APPROVAL_TRANSITIONS = Inr x"
        "\<not> (case ap_expires_at a of None \<Rightarrow> False | Some x \<Rightarrow> ?now < x)"
    by (metis option.exhaust sum.exhaust)
  then show ?thesis
  proof cases
    case (3 a x)
    let ?b = "a\<lparr>ap_status := x, ap_updated_at := ?now\<rparr>"
    let ?d2 = "?d1\<lparr>approvals := dict_set k ?b (approvals ?d1)\<rparr>"
    let ?rest = "and_then (raise_attention t p (ap_mission ?b) ''expired_approval'' ''approval expired; mission must park'' (Some k) None)
      (\<lambda>_. and_then (append_event (approval_event ''ApprovalExpired'' t p ?b [(''status'', JStr (ap_status ?b))])) (\<lambda>_. Pair (Inr ?b)))"
    have q: "quiet d ?d1" by (rule quiet_clock [OF ok])
    then have ok1: "gov_ok ?d1" by (simp add: quiet_def same_tables_def)
    have a1: "dict_get (approvals ?d1) k = Some a" using 3(1) by simp
    note row = close_row(1) [OF ok1 a1 3(2), where now = ?now] close_row(2) [OF ok1 a1 3(2), where now = ?now and A = A and N = N]
    have le: "gov_le A N d ?d2" using gov_le_trans [OF gov_le_quiet [OF gov_le_refl [OF ok] q] row(2)] by simp
    have "yields ?rest ?d2 (\<lambda>_. gov_le A N d)"
    proof (rule yields_and_then [OF attention_yields [OF gov_leD(1) [OF le]]])
      fix i d3 assume q3: "quiet ?d2 d3"
      then have ok3: "gov_ok d3" by (simp add: quiet_def same_tables_def)
      show "yields (and_then (append_event (approval_event ''ApprovalExpired'' t p ?b [(''status'', JStr (ap_status ?b))])) (\<lambda>_. Pair (Inr ?b)))
          d3 (\<lambda>_. gov_le A N d)"
        by (rule yields_and_then [OF event_yields [OF ok3]], rule yields_Pair)
          (rule gov_le_quiet [OF le quiet_trans [OF q3]])
    qed
    moreover have "expire_in t p k d = ?rest ?d2"
      using 3(3) row(1) by (simp add: run 3(1,2) dict_get_set del: transition_Inr)
    moreover have "env_le (db_env d) (db_env ?d2)" by simp
    ultimately show ?thesis by (intro yields_run [of "expire_in t p k" d ?rest ?d2])
  qed (auto simp: run yields_def simp del: transition_Inr transition_Inl)
qed

lemma withdraw_yields:
  assumes ok: "gov_ok d"
  shows "yields (withdraw_in k) d (\<lambda>_. gov_le A N d)"
proof -
  let ?now = "fst (clock_now (db_env d))" and ?d1 = "d\<lparr>db_env := snd (clock_now (db_env d))\<rparr>"
  note run = withdraw_in_def require_approval_def read_clock_eq
  consider "dict_get (approvals d) k = None"
    | a err where "dict_get (approvals d) k = Some a" "transition (ap_status a) ''WITHDRAWN'' APPROVAL_TRANSITIONS = Inl err"
    | a x where "dict_get (approvals d) k = Some a" "transition (ap_status a) ''WITHDRAWN'' APPROVAL_TRANSITIONS = Inr x"
    by (metis option.exhaust sum.exhaust)
  then show ?thesis
  proof cases
    case (3 a x)
    let ?b = "a\<lparr>ap_status := x, ap_updated_at := ?now\<rparr>"
    let ?d2 = "?d1\<lparr>approvals := dict_set k ?b (approvals ?d1)\<rparr>"
    have q: "quiet d ?d1" by (rule quiet_clock [OF ok])
    then have ok1: "gov_ok ?d1" by (simp add: quiet_def same_tables_def)
    have a1: "dict_get (approvals ?d1) k = Some a" using 3(1) by simp
    note row = close_row(1) [OF ok1 a1 3(2), where now = ?now] close_row(2) [OF ok1 a1 3(2), where now = ?now and A = A and N = N]
    have "gov_le A N d ?d2" using gov_le_trans [OF gov_le_quiet [OF gov_le_refl [OF ok] q] row(2)] by simp
    moreover have "withdraw_in k d = (Inr ?b, ?d2)"
      using row(1) by (simp add: run 3 dict_get_set del: transition_Inr)
    ultimately show ?thesis by (auto intro!: yieldsI)
  qed (auto simp: run simp del: transition_Inr transition_Inl intro!: yields_raise)
qed

text \<open>Standing approvals.\<close>

lemma granted_standing_ok:
  assumes "standing_refusal q = None"
  shows "standing_ok (granted_standing q i cid now)"
proof -
  have "filter (\<lambda>t. t \<notin> set APPROVAL_TYPES) (sr_types q) = []" "filter (\<lambda>t. t \<in> set STANDING_FORBIDDEN_TYPES) (sr_types q) = []"
    "sr_risk_ceiling q \<noteq> ''critical''" "sr_risk_ceiling q \<in> set (dict_keys RISK_ORDER)"
    using assms by (simp_all add: standing_refusal_def split: if_splits)
  then show ?thesis by (auto simp: standing_ok_def granted_standing_def filter_empty_conv)
qed

lemma write_standing_yields:
  assumes ok: "gov_ok d" and cid: "in_progress cid d" and q: "standing_refusal q = None"
  shows "yields (write_standing q cid) d (\<lambda>_. gov_le A N d)"
proof -
  let ?now = "fst (clock_now (db_env d))" and ?i = "fst (uuid7 (snd (clock_now (db_env d))))"
  let ?d1 = "d\<lparr>db_env := snd (uuid7 (snd (clock_now (db_env d))))\<rparr>" and ?s = "granted_standing q ?i cid ?now"
  let ?d2 = "?d1\<lparr>standings := dict_set ?i ?s (standings ?d1)\<rparr>"
  let ?rest = "and_then (append_event (standing_event ''StandingApprovalGranted'' (sr_tenant q) (sr_project q) ?s
        [(''approval_types'', JList (map JStr (sa_types ?s)))]))
      (\<lambda>_. and_then (complete_command cid (JObj (standing_dump ?s))) (\<lambda>_. Pair (Inr ?s)))"
  have q1: "quiet d ?d1" by (rule quiet_draw [OF ok])
  then have ok1: "gov_ok ?d1" by (simp add: quiet_def same_tables_def)
  have id: "sa_id ?s = ?i" by (simp add: granted_standing_def)
  have new: "?i \<notin> set (dict_keys (standings d))" using table_okD(3) [OF gov_okD(2) [OF ok]] drawn_next(2) [OF ok] by blast
  have "gov_le A N ?d1 ?d2"
    by (rule gov_le_standing [OF ok1 _ id granted_standing_ok [OF q]])
      (use drawn_next(1) [OF ok] new dict_get_None [of "standings d" ?i] in auto)
  then have le: "gov_le A N d ?d2" by (rule gov_le_trans [OF gov_le_quiet [OF gov_le_refl [OF ok] q1]])
  have cid2: "in_progress cid ?d2" using cid by (simp add: in_progress_def)
  have "yields ?rest ?d2 (\<lambda>_. gov_le A N d)"
  proof (rule yields_and_then [OF event_yields [OF gov_leD(1) [OF le]]])
    fix x d3 assume q3: "quiet ?d2 d3"
    then have ok3: "gov_ok d3" by (simp add: quiet_def same_tables_def)
    show "yields (and_then (complete_command cid (JObj (standing_dump ?s))) (\<lambda>_. Pair (Inr ?s))) d3 (\<lambda>_. gov_le A N d)"
      by (rule yields_and_then [OF complete_yields [OF ok3 in_progress_quiet [OF q3 cid2]]], rule yields_Pair)
        (rule gov_le_tables [OF gov_le_quiet [OF le q3]])
  qed
  moreover have "write_standing q cid d = ?rest ?d2"
    using new id by (simp add: write_standing_def read_clock_eq draw_id_eq insert_standing_def table_insert_new and_then_def)
  moreover have "env_le (db_env d) (db_env ?d2)" by simp
  ultimately show ?thesis by (intro yields_run [of "write_standing q cid" d ?rest ?d2])
qed

lemma grant_yields:
  assumes ok: "gov_ok d" and q: "standing_refusal q = None"
  shows "yields (and_then (begin_command (sr_tenant q) (sr_project q) (sr_key q) (standing_digest q))
      (\<lambda>(rec, is_new). if \<not> is_new then (\<lambda>d1. (replay_standing rec, d1)) else write_standing q (ci_command rec))) d (\<lambda>_. gov_le A N d)"
proof (rule yields_and_then [OF begin_yields [OF ok]], clarify)
  fix rec :: command_idempotency and is_new d1
  assume d1: "same_tables d d1" "is_new \<longrightarrow> in_progress (ci_command rec) d1"
  have le: "gov_le A N d d1" by (rule same_tables_le [OF d1(1)])
  show "yields (if \<not> is_new then \<lambda>d1. (replay_standing rec, d1) else write_standing q (ci_command rec)) d1 (\<lambda>_. gov_le A N d)"
  proof (cases is_new)
    case True
    then have "yields (write_standing q (ci_command rec)) d1 (\<lambda>_. gov_le A N d1)"
      using d1 by (intro write_standing_yields [OF _ _ q]) (simp_all add: same_tables_def)
    then show ?thesis using True gov_le_trans [OF le] by (auto elim: yields_mono)
  qed (use le in \<open>auto simp: yields_def\<close>)
qed

lemma revoke_yields:
  assumes ok: "gov_ok d"
  shows "yields (revoke_in t p k) d (\<lambda>_. gov_le A N d)"
proof -
  let ?now = "fst (clock_now (db_env d))" and ?d1 = "d\<lparr>db_env := snd (clock_now (db_env d))\<rparr>"
  note run = revoke_in_def require_standing_def read_clock_eq
  consider "dict_get (standings d) k = None"
    | s err where "dict_get (standings d) k = Some s" "transition (sa_status s) ''REVOKED'' STANDING_TRANSITIONS = Inl err"
    | s x where "dict_get (standings d) k = Some s" "transition (sa_status s) ''REVOKED'' STANDING_TRANSITIONS = Inr x"
    by (metis option.exhaust sum.exhaust)
  then show ?thesis
  proof cases
    case (3 s x)
    let ?s = "s\<lparr>sa_status := x, sa_revoked_at := Some ?now, sa_updated_at := ?now\<rparr>"
    let ?d2 = "?d1\<lparr>standings := dict_set k ?s (standings ?d1)\<rparr>"
    let ?rest = "and_then (append_event (standing_event ''StandingApprovalRevoked'' t p ?s [(''status'', JStr (sa_status ?s))])) (\<lambda>_. Pair (Inr ?s))"
    have active: "sa_status s = ''ACTIVE''"
      using 3(2) by (auto simp: transition_Inr succs_def STANDING_TRANSITIONS_def split: if_splits)
    have q: "quiet d ?d1" by (rule quiet_clock [OF ok])
    then have ok1: "gov_ok ?d1" by (simp add: quiet_def same_tables_def)
    have "standing_ok s" by (rule gov_okD(7) [OF ok dict_get_value [OF 3(1)]])
    then have sok: "standing_ok ?s" by (simp add: standing_ok_def)
    have "gov_le A N ?d1 ?d2"
      by (rule gov_le_standing [OF ok1 _ _ sok])
        (use standing_rows.stored_drawn [OF gov_okD(2) [OF ok] 3(1)] 3(1) active in \<open>auto simp: standing_le_def\<close>)
    then have le: "gov_le A N d ?d2" by (rule gov_le_trans [OF gov_le_quiet [OF gov_le_refl [OF ok] q]])
    have "yields ?rest ?d2 (\<lambda>_. gov_le A N d)"
      by (rule yields_and_then [OF event_yields [OF gov_leD(1) [OF le]]], rule yields_Pair) (rule gov_le_quiet [OF le])
    moreover have "revoke_in t p k d = ?rest ?d2"
      using table_update_eq [OF keyed_ok [OF table_okD(2) [OF gov_okD(2) [OF ok]]] 3(1)]
      by (simp add: run 3 update_standing_def dict_get_set del: transition_Inr)
    moreover have "env_le (db_env d) (db_env ?d2)" by simp
    ultimately show ?thesis by (intro yields_run [of "revoke_in t p k" d ?rest ?d2])
  qed (auto simp: run yields_def simp del: transition_Inr transition_Inl)
qed

lemma standing_covers:
  assumes "standing_uncovered s u now = None"
  shows "sa_status s = ''ACTIVE''" "su_type u \<notin> set STANDING_FORBIDDEN_TYPES" "su_type u \<in> set (sa_types s)"
    "sa_task_count_used s < sa_task_count_ceiling s" "sa_cost_used s + su_cost u \<le> sa_cost_ceiling s"
    "sa_valid_from s \<le> now" "now \<le> sa_valid_until s"
  using assms unfolding standing_uncovered_def by (auto split: if_splits)

lemma authorize_yields:
  assumes ok: "gov_ok d"
    and N: "\<And>a. ap_scope_hash a = su_scope_hash u \<Longrightarrow> ap_type a = su_type u \<Longrightarrow> N a"
    and A: "\<And>a. ap_scope_hash a = su_scope_hash u \<Longrightarrow> su_type u \<notin> set STANDING_FORBIDDEN_TYPES \<Longrightarrow> A a"
  shows "yields (authorize_in u) d (\<lambda>_. gov_le A N d)"
proof -
  let ?now = "fst (clock_now (db_env d))" and ?d1 = "d\<lparr>db_env := snd (clock_now (db_env d))\<rparr>"
  let ?k = "su_standing u"
  note run = authorize_in_def require_standing_def read_clock_eq
  consider "dict_get (standings d) ?k = None"
    | s err where "dict_get (standings d) ?k = Some s" "standing_uncovered s u ?now = Some err"
    | s where "dict_get (standings d) ?k = Some s" "standing_uncovered s u ?now = None"
    by (metis option.exhaust)
  then show ?thesis
  proof cases
    case (3 s)
    let ?f = "\<lambda>x. x\<lparr>sa_task_count_used := sa_task_count_used s + 1, sa_cost_used := sa_cost_used s + su_cost u, sa_updated_at := ?now\<rparr>"
    let ?rest = "and_then (request_in (standing_request_of u)) (\<lambda>minted.
      and_then (decide_in (standing_decision u s) (ap_id minted) (su_scope_hash u) None) (\<lambda>decided d2.
        (Inr decided, update_standing ?k ?f d2)))"
    note cov = standing_covers [OF 3(2)]
    have q: "quiet d ?d1" by (rule quiet_clock [OF ok])
    then have ok1: "gov_ok ?d1" by (simp add: quiet_def same_tables_def)
    have sok: "standing_ok (?f s)"
      using gov_okD(7) [OF ok dict_get_value [OF 3(1)]] cov(4,5) by (simp add: standing_ok_def)
    have "yields ?rest ?d1 (\<lambda>_. gov_le A N ?d1)"
    proof (rule yields_and_then [OF request_yields [OF ok1]])
      fix minted d2 assume d2: "gov_le A N ?d1 d2 \<and> standings d2 = standings ?d1"
      have le2: "gov_le A N ?d1 d2" using d2 by blast
      show "yields (and_then (decide_in (standing_decision u s) (ap_id minted) (su_scope_hash u) None) (\<lambda>decided d2.
          (Inr decided, update_standing ?k ?f d2))) d2 (\<lambda>_. gov_le A N ?d1)"
      proof (rule yields_and_then [OF decide_yields [OF gov_leD(1) [OF le2]]])
        fix decided d3
        assume d3: "gov_le A N d2 d3 \<and> decides (standing_decision u s) (ap_id minted) (su_scope_hash u) d2 decided d3"
        have le3: "gov_le A N ?d1 d3" using gov_le_trans [OF le2] d3 by blast
        have get: "dict_get (standings d3) ?k = Some s" using d2 d3 3(1) by (simp add: decides_def)
        note ok3 = gov_leD(1) [OF le3]
        note id = standing_rows.stored_drawn [OF gov_okD(2) [OF ok3] get]
        have le: "standing_le s (?f s)" using cov(1) by (simp add: standing_le_def)
        have "gov_le A N d3 (d3\<lparr>standings := dict_set ?k (?f s) (standings d3)\<rparr>)"
          by (rule gov_le_standing [OF ok3 id(1) _ sok]) (use id(2) get le in auto)
        moreover have "update_standing ?k ?f d3 = d3\<lparr>standings := dict_set ?k (?f s) (standings d3)\<rparr>"
          using table_update_eq [OF keyed_ok [OF table_okD(2) [OF gov_okD(2) [OF ok3]]] get] by (simp add: update_standing_def)
        ultimately have "gov_le A N ?d1 (update_standing ?k ?f d3)" using gov_le_trans [OF le3] by simp
        moreover have "env_le (db_env d3) (db_env (update_standing ?k ?f d3))" by (simp add: update_standing_def)
        ultimately show "yields (\<lambda>d2. (Inr decided, update_standing ?k ?f d2)) d3 (\<lambda>_. gov_le A N ?d1)"
          by (simp add: yields_def)
      qed (use A cov(2) in simp)
    qed (use N in \<open>simp add: standing_request_of_def\<close>)
    then have "yields ?rest ?d1 (\<lambda>_. gov_le A N d)"
      by (rule yields_mono) (rule gov_le_trans [OF gov_le_quiet [OF gov_le_refl [OF ok] q]])
    moreover have "authorize_in u d = ?rest ?d1" by (simp add: run 3)
    moreover have "env_le (db_env d) (db_env ?d1)" by simp
    ultimately show ?thesis by (intro yields_run [of "authorize_in u" d ?rest ?d1])
  qed (auto simp: run yields_def)
qed

text \<open>Batches.\<close>

definition member_decided :: "decision_args \<Rightarrow> (uuid, approval) dict \<Rightarrow> (uuid, approval) dict \<Rightarrow> uuid \<times> string \<Rightarrow> bool" where
  "member_decided c t t' m \<longleftrightarrow> (\<exists>a now. dict_get t (fst m) = Some a \<and> is_open a \<and> ap_scope_hash a = snd m
    \<and> (\<forall>x. ap_expires_at a = Some x \<longrightarrow> now < x) \<and> dict_get t' (fst m) = Some (decided_row c (dc_decision c) now a))"

definition all_decided :: "decision_args \<Rightarrow> (uuid \<times> string) list \<Rightarrow> (uuid, approval) dict \<Rightarrow> (uuid, approval) dict \<Rightarrow> bool" where
  "all_decided c ms t t' \<longleftrightarrow> list_all (member_decided c t t') ms
    \<and> (\<forall>k. k \<notin> set (map fst ms) \<longrightarrow> dict_get t' k = dict_get t k)"

lemma all_decided_Cons:
  assumes one: "decides c k h d u d1" and rest: "all_decided c ms (approvals d1) t'" and new: "k \<notin> set (map fst ms)"
  shows "all_decided c ((k, h) # ms) (approvals d) t'"
proof -
  obtain a now where a: "dict_get (approvals d) k = Some a" "is_open a" "ap_scope_hash a = h"
      "\<forall>x. ap_expires_at a = Some x \<longrightarrow> now < x" "u = decided_row c (dc_decision c) now a"
    and t: "approvals d1 = dict_set k u (approvals d)"
    using one by (auto simp: decides_def)
  have same: "dict_get (approvals d1) k' = dict_get (approvals d) k'" if "k' \<noteq> k" for k'
    using that by (simp add: t dict_get_set)
  have "dict_get t' k = Some u" using rest new by (simp add: all_decided_def t dict_get_set del: set_map)
  then have "member_decided c (approvals d) t' (k, h)" using a by (auto simp: member_decided_def)
  moreover have "list_all (member_decided c (approvals d) t') ms"
  proof (rule list.pred_mono_strong [of "member_decided c (approvals d1) t'"])
    show "list_all (member_decided c (approvals d1) t') ms" using rest by (simp add: all_decided_def)
    fix m assume m: "m \<in> set ms" "member_decided c (approvals d1) t' m"
    then have "fst m \<noteq> k" using new by auto
    then show "member_decided c (approvals d) t' m" using m(2) same by (simp add: member_decided_def)
  qed
  moreover have "\<forall>k'. k' \<notin> set (map fst ((k, h) # ms)) \<longrightarrow> dict_get t' k' = dict_get (approvals d) k'"
    using rest same unfolding all_decided_def by (simp del: set_map)
  ultimately show ?thesis by (simp add: all_decided_def)
qed

lemma decide_each_yields:
  assumes "gov_ok d" and "distinct (map fst ms)"
    and "\<And>a. ap_id a \<in> set (map fst ms) \<Longrightarrow> dc_decision c = ''APPROVED'' \<Longrightarrow> A a"
  shows "yields (decide_each c ms b) d (\<lambda>_ d'. gov_le A N d d' \<and> es_commands (db_log d') = es_commands (db_log d)
    \<and> all_decided c ms (approvals d) (approvals d'))"
  using assms
proof (induction ms arbitrary: d)
  case Nil
  then show ?case by (simp add: yields_def gov_le_refl all_decided_def)
next
  case (Cons m ms)
  obtain k h where m: "m = (k, h)" by (cases m)
  have "yields (and_then (decide_in c k h b) (\<lambda>_. decide_each c ms b)) d (\<lambda>_ d'. gov_le A N d d' \<and> es_commands (db_log d') = es_commands (db_log d)
      \<and> all_decided c (m # ms) (approvals d) (approvals d'))"
  proof (rule yields_and_then [OF decide_yields [OF Cons.prems(1)]])
    fix u d1 assume d1: "gov_le A N d d1 \<and> decides c k h d u d1"
    then have le: "gov_le A N d d1" and one: "decides c k h d u d1" by blast+
    have "yields (decide_each c ms b) d1 (\<lambda>_ d'. gov_le A N d1 d' \<and> es_commands (db_log d') = es_commands (db_log d1)
        \<and> all_decided c ms (approvals d1) (approvals d'))"
      by (rule Cons.IH [OF gov_leD(1) [OF le]]) (use Cons.prems(2,3) in simp_all)
    then show "yields (decide_each c ms b) d1 (\<lambda>_ d'. gov_le A N d d' \<and> es_commands (db_log d') = es_commands (db_log d)
        \<and> all_decided c (m # ms) (approvals d) (approvals d'))"
      by (rule yields_mono) (use gov_le_trans [OF le] all_decided_Cons [OF one] Cons.prems(2) one in \<open>auto simp: m decides_def\<close>)
  qed (use Cons.prems(3) m in simp)
  then show ?case by (simp add: m yields_def)
qed

lemma require_each_get:
  "list_all (\<lambda>k. dict_get (approvals d) k \<noteq> None) ks \<Longrightarrow> require_each ks d = Inr (map (\<lambda>k. the (dict_get (approvals d) k)) ks)"
  by (induction ks) (auto simp: require_approval_def)

definition batch_done ::
  "decision_args \<Rightarrow> uuid list \<Rightarrow> string list \<Rightarrow> 'x governance_db_scheme \<Rightarrow> batch_decision_result \<Rightarrow> 'x governance_db_scheme \<Rightarrow> bool"
where
  "batch_done c ks hs d r d' \<longleftrightarrow> all_decided c (zip ks hs) (approvals d) (approvals d')
    \<and> bd_approvals r = map (\<lambda>k. the (dict_get (approvals d') k)) ks"

lemma decide_batch_yields:
  assumes ok: "gov_ok d" and ks: "distinct ks" "length ks = length hs"
    and A: "\<And>a. ap_id a \<in> set ks \<Longrightarrow> dc_decision c = ''APPROVED'' \<Longrightarrow> A a"
    and b: "\<And>x. b = Some x \<Longrightarrow> in_progress x d"
  shows "yields (decide_batch c ks hs now b) d (\<lambda>(r, _) d'. gov_le A N d d' \<and> batch_done c ks hs d r d')"
  unfolding decide_batch_def
proof (rule yields_and_then [OF decide_each_yields [OF ok]])
  show "distinct (map fst (zip ks hs))" using ks by simp
  show "A a" if "ap_id a \<in> set (map fst (zip ks hs))" "dc_decision c = ''APPROVED''" for a
    using A that ks(2) by (simp del: set_map)
  fix u d1 assume d1: "gov_le A N d d1 \<and> es_commands (db_log d1) = es_commands (db_log d)
      \<and> all_decided c (zip ks hs) (approvals d) (approvals d1)"
  have le: "gov_le A N d d1" and all: "all_decided c (zip ks hs) (approvals d) (approvals d1)" using d1 by blast+
  have "list_all (\<lambda>k. dict_get (approvals d1) k \<noteq> None) (map fst (zip ks hs))"
    using all unfolding all_decided_def list_all_iff member_decided_def by fastforce
  then have req: "require_each ks d1 = Inr (map (\<lambda>k. the (dict_get (approvals d1) k)) ks)"
    using ks(2) by (intro require_each_get) simp
  let ?rows = "map (\<lambda>k. the (dict_get (approvals d1) k)) ks"
  let ?out = "(\<lparr>bd_batch = b, bd_approvals = ?rows, bd_decided_by = dc_decided_by c, bd_decision = dc_decision c,
     bd_created_at = now, bd_replayed = False\<rparr>, b)"
  have done1: "batch_done c ks hs d (fst ?out) d1" using all by (simp add: batch_done_def)
  show "yields (\<lambda>d1. case require_each ks d1 of Inl err \<Rightarrow> (Inl err, d1)
      | Inr decided \<Rightarrow> let out = (\<lparr>bd_batch = b, bd_approvals = decided, bd_decided_by = dc_decided_by c,
            bd_decision = dc_decision c, bd_created_at = now, bd_replayed = False\<rparr>, b)
          in case b of None \<Rightarrow> (Inr out, d1)
          | Some x \<Rightarrow> and_then (append_event (batch_event c x (hd decided) (length decided) ks))
                (\<lambda>_. and_then (complete_command x (batch_result_json decided x (dc_decided_by c))) (\<lambda>_. Pair (Inr out))) d1) d1
      (\<lambda>(r, _) d'. gov_le A N d d' \<and> batch_done c ks hs d r d')"
  proof (cases b)
    case None
    then show ?thesis using le done1 by (simp add: yields_def req)
  next
    case (Some x)
    let ?rest = "and_then (append_event (batch_event c x (hd ?rows) (length ?rows) ks))
        (\<lambda>_. and_then (complete_command x (batch_result_json ?rows x (dc_decided_by c))) (\<lambda>_. Pair (Inr ?out)))"
    have prog: "in_progress x d1" using b [OF Some] d1 by (simp add: in_progress_def)
    have "yields ?rest d1 (\<lambda>(r, _) d'. gov_le A N d d' \<and> batch_done c ks hs d r d')"
    proof (rule yields_and_then [OF event_yields [OF gov_leD(1) [OF le]]])
      fix ev d2 assume q: "quiet d1 d2"
      then have ok2: "gov_ok d2" by (simp add: quiet_def same_tables_def)
      show "yields (and_then (complete_command x (batch_result_json ?rows x (dc_decided_by c))) (\<lambda>_. Pair (Inr ?out))) d2
          (\<lambda>(r, _) d'. gov_le A N d d' \<and> batch_done c ks hs d r d')"
        by (rule yields_and_then [OF complete_yields [OF ok2 in_progress_quiet [OF q prog]]], rule yields_Pair)
          (use gov_le_tables [OF gov_le_quiet [OF le q]] q done1 in \<open>auto simp: quiet_def same_tables_def batch_done_def\<close>)
    qed
    then show ?thesis by (simp add: yields_def req Some)
  qed
qed

lemma batch_body_yields:
  assumes ok: "gov_ok d" and ks: "distinct ks" "length ks = length hs"
    and A: "\<And>a. ap_id a \<in> set ks \<Longrightarrow> dc_decision c = ''APPROVED'' \<Longrightarrow> A a"
  shows "yields (batch_body c ks hs key now) d (\<lambda>(r, _) d'. gov_le A N d d' \<and> (batch_done c ks hs d r d'
    \<or> bd_replayed r \<and> db_log d' = db_log d \<and> db.more d' = db.more d))" (is "yields _ _ ?Q")
proof (cases key)
  case None
  have "yields (decide_batch c ks hs now None) d ?Q"
    by (rule yields_mono [OF decide_batch_yields [OF ok ks, of c A]]) (use A in auto)
  then show ?thesis by (simp add: batch_body_def None)
next
  case (Some x)
  have "yields (and_then (begin_command (dc_tenant c) (dc_project c) x (batch_request_hash c ks hs))
      (\<lambda>(rec, is_new). if \<not> is_new then (\<lambda>d1. (map_sum id (\<lambda>r. (r, None)) (replay_batch rec), d1))
         else decide_batch c ks hs now (Some (ci_command rec)))) d ?Q"
  proof (rule yields_and_then [OF begin_yields [OF ok]], clarify)
    fix rec :: command_idempotency and is_new d1
    assume d1: "same_tables d d1" "is_new \<longrightarrow> in_progress (ci_command rec) d1"
      "\<not> is_new \<longrightarrow> db_log d1 = db_log d \<and> db.more d1 = db.more d"
    have le: "gov_le A N d d1" by (rule same_tables_le [OF d1(1)])
    show "yields (if \<not> is_new then \<lambda>d1. (map_sum id (\<lambda>r. (r, None)) (replay_batch rec), d1)
        else decide_batch c ks hs now (Some (ci_command rec))) d1 ?Q"
    proof (cases is_new)
      case True
      have "yields (decide_batch c ks hs now (Some (ci_command rec))) d1 (\<lambda>(r, _) d'. gov_le A N d1 d' \<and> batch_done c ks hs d1 r d')"
        by (rule decide_batch_yields [OF gov_leD(1) [OF le] ks]) (use A d1(2) True in auto)
      then have "yields (decide_batch c ks hs now (Some (ci_command rec))) d1 ?Q"
        by (rule yields_mono) (use gov_le_trans [OF le] d1(1) in \<open>auto simp: same_tables_def batch_done_def\<close>)
      then show ?thesis using True by simp
    next
      case False
      have "bd_replayed r" if "replay_batch rec = Inr r" for r
        using that by (auto simp: replay_batch_def split: if_splits option.splits json.splits list.splits)
      then show ?thesis using False le d1(3) by (cases "replay_batch rec") (auto simp: yields_def)
    qed
  qed
  then show ?thesis by (simp add: batch_body_def Some)
qed

section \<open>Calls\<close>

text \<open>The approvals a call may turn APPROVED, and the ones it may file, by what their request says.\<close>

fun approvable :: "governance_op \<Rightarrow> approval \<Rightarrow> bool" where
  "approvable (Decide c k h) a \<longleftrightarrow> dc_decision c = ''APPROVED'' \<and> ap_id a = k"
| "approvable (BatchDecide c ks hs key) a \<longleftrightarrow> dc_decision c = ''APPROVED'' \<and> ap_id a \<in> set ks"
| "approvable (AuthorizeStanding u) a \<longleftrightarrow> ap_scope_hash a = su_scope_hash u \<and> su_type u \<notin> set STANDING_FORBIDDEN_TYPES"
| "approvable _ a \<longleftrightarrow> False"

fun asked :: "governance_op \<Rightarrow> approval \<Rightarrow> bool" where
  "asked (Request q) a \<longleftrightarrow> ap_scope_hash a = rq_scope_hash q \<and> ap_type a = rq_type q"
| "asked (AuthorizeStanding u) a \<longleftrightarrow> ap_scope_hash a = su_scope_hash u \<and> ap_type a = su_type u"
| "asked _ a \<longleftrightarrow> False"

lemma env_gov_le: "gov_ok d \<Longrightarrow> env_le (db_env d) e \<Longrightarrow> gov_le A N d (d\<lparr>db_env := e\<rparr>)"
  using gov_le_quiet [OF gov_le_refl] quiet_env by blast

lemma transact_gov_le:
  assumes "gov_ok d" and "yields m d (\<lambda>_. gov_le A N d)"
  shows "gov_le A N d (snd (transact m d))"
  using assms(2) by (cases rule: transact_yields) (use env_gov_le [OF assms(1)] in auto)

lemma approvable_part: "approvable op (request_part a) = approvable op a" "asked op (request_part a) = asked op a"
  by (cases op; simp)+

lemma governance_step_le:
  assumes ok: "gov_ok d"
  shows "gov_le (approvable op) (asked op) d (governance_step op d)"
proof (cases op)
  case (Request q)
  have "yields (request_in q) d (\<lambda>_. gov_le (approvable op) (asked op) d)"
    by (rule yields_mono [OF request_yields [OF ok, of q "asked op" "approvable op"]]) (simp_all add: Request)
  then show ?thesis using transact_gov_le [OF ok] by (simp add: Request request_approval_def)
next
  case (Decide c k h)
  have "yields (decide_in c k h None) d (\<lambda>_. gov_le (approvable op) (asked op) d)"
    by (rule yields_mono [OF decide_yields [OF ok, of k h c "approvable op" None "asked op"]]) (simp_all add: Decide)
  then show ?thesis using transact_gov_le [OF ok] by (simp add: Decide decide_approval_def)
next
  case (BatchDecide c ks hs key)
  let ?d1 = "snd (read_clock d)" and ?m = "batch_body c ks hs key (fst (read_clock d))"
  have le1: "gov_le (approvable op) (asked op) d ?d1" unfolding read_clock_eq by (simp add: env_gov_le [OF ok])
  show ?thesis
  proof (cases "distinct ks \<and> length ks = length hs \<and> ks \<noteq> [] \<and> dc_decision c \<in> {''APPROVED'', ''REJECTED''}")
    case True
    have "yields ?m ?d1 (\<lambda>_. gov_le (approvable op) (asked op) ?d1)"
      by (rule yields_mono [OF batch_body_yields [OF gov_leD(1) [OF le1], of ks hs c "approvable op" key _ "asked op"]])
        (use True BatchDecide in auto)
    from gov_le_trans [OF le1 transact_gov_le [OF gov_leD(1) [OF le1] this]] show ?thesis
      using True by (auto simp: BatchDecide batch_decide_def split: prod.splits sum.splits)
  next
    case False
    then have "governance_step op d = d" by (auto simp: BatchDecide batch_decide_def)
    then show ?thesis using gov_le_refl [OF ok] by simp
  qed
next
  case (GrantStanding q)
  show ?thesis
  proof (cases "standing_refusal q")
    case None
    then show ?thesis using transact_gov_le [OF ok grant_yields [OF ok None]] by (simp add: GrantStanding grant_standing_def)
  qed (simp add: GrantStanding grant_standing_def gov_le_refl [OF ok])
next
  case (AuthorizeStanding u)
  have "yields (authorize_in u) d (\<lambda>_. gov_le (approvable op) (asked op) d)"
    by (rule authorize_yields [OF ok]) (simp_all add: AuthorizeStanding)
  then show ?thesis using transact_gov_le [OF ok] by (simp add: AuthorizeStanding authorize_standing_def)
next
  case (RaiseAttention t p m kind summary a s)
  have "yields (raise_attention t p m kind summary a s) d (\<lambda>_. gov_le (approvable op) (asked op) d)"
    by (rule yields_mono [OF attention_yields [OF ok]]) (rule gov_le_quiet [OF gov_le_refl [OF ok]])
  then show ?thesis using transact_gov_le [OF ok] by (simp add: RaiseAttention raise_attention_item_def)
qed (simp_all add: expire_approval_def withdraw_approval_def revoke_standing_def
    transact_gov_le [OF ok expire_yields [OF ok]] transact_gov_le [OF ok withdraw_yields [OF ok]]
    transact_gov_le [OF ok revoke_yields [OF ok]] del: approvable.simps asked.simps)

interpretation governance_service: service governance_step gov_ok "\<lambda>op. gov_le (approvable op) (asked op)"
  by unfold_locales (rule r_into_rtranclp, rule governance_step_le, assumption, rule gov_leD(1))

definition governance_run :: "governance_op list \<Rightarrow> 'x governance_db_scheme \<Rightarrow> 'x governance_db_scheme" where
  "governance_run ops d = service_run governance_step ops d"

section \<open>Properties\<close>

text \<open>A project with two open approvals, one APPROVED and one standing approval used up to its ceiling.\<close>

definition governance_request :: approval_request where
  "governance_request = \<lparr>rq_tenant = ''t'', rq_project = ''p'', rq_mission = ''m'', rq_type = ''architecture_change'', rq_scope_hash = ''h'',
     rq_requested_by = ''u'', rq_key = ''k1'', rq_task = None, rq_required_role = DEFAULT_REQUIRED_ROLE, rq_evidence_refs = [],
     rq_suggested_decision = None, rq_standing = None\<rparr>"

definition sample_verdict :: decision_args where
  "sample_verdict = \<lparr>dc_tenant = ''t'', dc_project = ''p'', dc_decision = ''APPROVED'', dc_decided_by = ''owner'',
     dc_rationale = ''ok'', dc_human_minutes = 5, dc_edr = None\<rparr>"

definition sample_standing :: standing_approval where
  "sample_standing = \<lparr>sa_id = ''iii'', sa_tenant = ''t'', sa_project = ''p'', sa_mission = None, sa_types = [''dependency_addition''],
     sa_blast_ceiling = ''module'', sa_risk_ceiling = ''medium'', sa_cost_ceiling = 10, sa_task_count_ceiling = 2,
     sa_path_scope = [''src''], sa_forbidden_operations = [''IRREVERSIBLE''], sa_valid_from = 0, sa_valid_until = 1000,
     sa_revocable_immediately = True, sa_granted_by = ''owner'', sa_rationale = ''r'', sa_status = ''ACTIVE'', sa_task_count_used = 1,
     sa_cost_used = 4, sa_revoked_at = None, sa_command = ''i'', sa_created_at = 1, sa_updated_at = 1\<rparr>"

definition sample_governance :: governance_db where
  "sample_governance =
    \<lparr>db_log = empty_event_store, db_env = \<lparr>ids = (\<lambda>n. replicate n (CHR ''i'')), drawn = 5, clock = int, ticks = 5\<rparr>,
     approvals = [(''i'', requested_approval governance_request ''i'' ''c'' 1), (''ii'', requested_approval governance_request ''ii'' ''c'' 2),
       (''iiii'', (requested_approval governance_request ''iiii'' ''c'' 1)\<lparr>ap_status := ''WITHDRAWN''\<rparr>)],
     standings = [(''iii'', sample_standing)], attentions = [], audits = []\<rparr>"

lemma governance_drawn:
  "set [''i'', ''ii'', ''iii'', ''iiii''] \<subseteq> drawn_ids (db_env sample_governance)"
proof -
  have "[''i'', ''ii'', ''iii'', ''iiii''] = map (ids (db_env sample_governance)) [1, 2, 3, 4]"
    by (simp add: sample_governance_def numeral_eq_Suc)
  then show ?thesis unfolding drawn_ids_def by (simp only: set_map) (rule image_mono, simp add: sample_governance_def)
qed

lemma sample_governance_ok: "gov_ok sample_governance"
proof -
  have "inj (ids (db_env sample_governance))" by (rule injI) (auto simp: sample_governance_def dest: arg_cong [where f = length])
  then have log: "log_ok sample_governance"
    by (intro log_okI) (simp_all add: sample_governance_def empty_event_store_def db_ok_def gapless_def aggregate_events_def
        outbox_ok_def commands_ok_def)
  have part: "approval_ok s (requested_approval governance_request ''iiii'' ''c'' 1\<lparr>ap_status := ''WITHDRAWN''\<rparr>)" for s
    by (simp add: approval_ok_def is_open_def OPEN_APPROVAL_STATUSES_def APPROVAL_TRANSITIONS_def requested_approval_def)
  have st: "standing_ok sample_standing" "sa_id sample_standing = ''iii''"
    by (simp_all add: standing_ok_def sample_standing_def APPROVAL_TYPES_def STANDING_FORBIDDEN_TYPES_def RISK_ORDER_def)
  note tables = sample_governance_def [THEN arg_cong [where f = approvals]] sample_governance_def [THEN arg_cong [where f = standings]]
    sample_governance_def [THEN arg_cong [where f = attentions]] sample_governance_def [THEN arg_cong [where f = audits]]
  show ?thesis
  proof (rule gov_okI)
    show "table_ok approvals ap_id sample_governance" "table_ok standings sa_id sample_governance" "table_ok attentions ai_id sample_governance"
      using log governance_drawn st(2) by (simp_all add: table_ok_def keyed_def tables)
  qed (use part st in \<open>auto simp: tables\<close>)
qed

text \<open>
  C4. A decision is final. Once an approval is decided, expired or withdrawn, then whatever calls follow, its request
  and its decision (who, when, why, with which EDR) stay as they are, its status can only go from APPROVED
  to EXPIRED or WITHDRAWN, and every further \<open>decide\<close> on it is refused.
\<close>

theorem decision_final:
  fixes d :: "'x governance_db_scheme"
  assumes ok: "gov_ok d" and a: "dict_get (approvals d) k = Some a" "\<not> is_open a"
  shows "(\<exists>b. dict_get (approvals (governance_run ops d)) k = Some b \<and> request_part b = request_part a \<and> decision_part b = decision_part a
      \<and> (ap_status b = ap_status a \<or> ap_status a = ''APPROVED'' \<and> ap_status b \<in> {''EXPIRED'', ''WITHDRAWN''}))
    \<and> (\<exists>err. fst (decide_approval c k h (governance_run ops d)) = Inl err)"
proof -
  let ?P = "\<lambda>d' :: 'x governance_db_scheme. \<exists>b. dict_get (approvals d') k = Some b \<and> approval_le a b"
  have run: "gov_ok (governance_run ops d) \<and> ?P (governance_run ops d)"
    unfolding governance_run_def
  proof (rule governance_service.run_keeps [OF ok, of ?P])
    show "?P y" if "gov_le (approvable op) (asked op) x y" "?P x" for op and x y :: "'x governance_db_scheme"
      using that approvals_leD(1) [OF gov_leD(4) [OF that(1)]] approval_le_trans by blast
  qed (use a in auto)
  then obtain b where b: "dict_get (approvals (governance_run ops d)) k = Some b" "approval_le a b" by blast
  have "yields (decide_in c k h None) (governance_run ops d)
      (\<lambda>u d'. gov_le (\<lambda>_. True) (\<lambda>_. True) (governance_run ops d) d' \<and> decides c k h (governance_run ops d) u d')"
    by (rule decide_yields) (use run in auto)
  then have "\<exists>err. fst (transact (decide_in c k h None) (governance_run ops d)) = Inl err"
  proof (cases rule: transact_yields)
    case (returned r)
    then show ?thesis using a(2) b by (auto simp: decides_def approval_le_def)
  qed simp
  with b a(2) show ?thesis by (auto simp: approval_le_def decide_approval_def)
qed

theorem decision_final_witness:
  "\<exists>err. fst (decide_approval sample_verdict ''iiii'' ''h''
      (governance_run [Decide sample_verdict ''i'' ''h'', Request governance_request, Withdraw ''iiii''] sample_governance)) = Inl err"
  using decision_final [OF sample_governance_ok, of "''iiii''" "requested_approval governance_request ''iiii'' ''c'' 1\<lparr>ap_status := ''WITHDRAWN''\<rparr>"
      "[Decide sample_verdict ''i'' ''h'', Request governance_request, Withdraw ''iiii'']" sample_verdict "''h''"]
  by (simp add: sample_governance_def is_open_def OPEN_APPROVAL_STATUSES_def)

text \<open>
  C5. A batch is decided as a whole or not at all. \<open>batch_decide\<close> either raises and has written nothing, or
  answers from the stored result and has written nothing, or every member was open, unexpired and bound to
  the scope presented for it, is now decided as asked, and no other approval has changed.
\<close>

lemma more_approvals: "db.more d' = db.more d \<Longrightarrow> approvals d' = approvals d"
  by (cases d; cases d'; simp)

theorem batch_atomic:
  assumes ok: "gov_ok d" and run: "batch_decide c ks hs key d = (res, d')"
  shows "(\<exists>err. res = Inl err \<and> db_log d' = db_log d \<and> db.more d' = db.more d)
    \<or> (\<exists>r. res = Inr r \<and> bd_replayed r \<and> db_log d' = db_log d \<and> db.more d' = db.more d)
    \<or> (\<exists>r. res = Inr r \<and> length ks = length hs \<and> all_decided c (zip ks hs) (approvals d) (approvals d')
        \<and> bd_approvals r = map (\<lambda>k. the (dict_get (approvals d') k)) ks)"
proof (cases "distinct ks \<and> length ks = length hs \<and> ks \<noteq> [] \<and> dc_decision c \<in> {''APPROVED'', ''REJECTED''}")
  case True
  let ?d1 = "snd (read_clock d)" and ?m = "batch_body c ks hs key (fst (read_clock d))"
  have d1: "db_log ?d1 = db_log d" "db.more ?d1 = db.more d" "approvals ?d1 = approvals d" by (simp_all add: read_clock_eq)
  have ok1: "gov_ok ?d1" unfolding read_clock_eq using quiet_clock [OF ok] by (simp add: quiet_def same_tables_def)
  have res: "res = (case fst (transact ?m ?d1) of Inl err \<Rightarrow> Inl err
        | Inr (r, b) \<Rightarrow> Inr (if b = None \<and> bd_batch r = None then r\<lparr>bd_replayed := True\<rparr> else r))"
      "d' = snd (transact ?m ?d1)"
    using True run by (auto simp: batch_decide_def split: prod.splits sum.splits)
  have "yields ?m ?d1 (\<lambda>(r, _) d'. gov_le (\<lambda>_. True) (\<lambda>_. True) ?d1 d' \<and> (batch_done c ks hs ?d1 r d'
      \<or> bd_replayed r \<and> db_log d' = db_log ?d1 \<and> db.more d' = db.more ?d1))"
    by (rule batch_body_yields [OF ok1]) (use True in auto)
  then show ?thesis
  proof (cases rule: transact_yields)
    case (returned r)
    obtain r0 b where r0: "r = (r0, b)" by (cases r)
    have res': "res = Inr (if b = None \<and> bd_batch r0 = None then r0\<lparr>bd_replayed := True\<rparr> else r0)"
      using res(1) returned(1,2) r0 by simp
    show ?thesis using returned True unfolding res' res(2) by (auto simp: r0 d1 batch_done_def)
  next
    case (raised err e)
    then show ?thesis using res d1 by simp
  qed
next
  case False
  then have "\<exists>err. batch_decide c ks hs key d = (Inl err, d)" by (auto simp: batch_decide_def)
  then show ?thesis using run by auto
qed

theorem batch_atomic_witness:
  "approvals (snd (batch_decide sample_verdict [''i'', ''ii''] [''h'', ''other''] None sample_governance)) = approvals sample_governance"
proof -
  obtain res d' where run: "batch_decide sample_verdict [''i'', ''ii''] [''h'', ''other''] None sample_governance = (res, d')" by force
  have "\<not> all_decided sample_verdict (zip [''i'', ''ii''] [''h'', ''other'']) (approvals sample_governance) (approvals d')"
    by (simp add: all_decided_def member_decided_def sample_governance_def governance_request_def)
  then have "db.more d' = db.more sample_governance" using batch_atomic [OF sample_governance_ok run] by blast
  then have "approvals d' = approvals sample_governance" by (rule more_approvals)
  then show ?thesis using run by simp
qed



end
