(* ===== verification/Effects.thy ===== *)
theory Effects
  imports Governance
begin

text \<open>
  \<open>engine/recovery/service.py\<close> with its repository, scopes, hashes and resolvers: the journal of external
  effects. An effect is PREPARED before it runs, SENT as it is launched, and then CONFIRMED, FAILED or
  UNKNOWN; an UNKNOWN one is reconciled against the outside world. What the outside world answers (the
  file system, git) is a parameter. Proved here: preparing is idempotent; a verified answer settles an effect; and the recovery rule, that
  an effect whose outcome is unknown, or was found to be present, keeps its scope closed to every new
  effect until its absence is verified.
\<close>

section \<open>Contract and tables\<close>

record external_effect =
  xe_id :: uuid
  xe_tenant :: uuid
  xe_project :: uuid
  xe_mission :: uuid
  xe_worker_run :: uuid
  xe_lease :: uuid
  xe_command :: uuid
  xe_system :: string
  xe_resource :: string
  xe_operation :: string
  xe_class :: string
  xe_key :: string
  xe_request_hash :: string
  xe_status :: string
  xe_reference :: "string option"
  xe_response_hash :: "string option"
  xe_method :: "string option"
  xe_created_at :: time
  xe_confirmed_at :: "time option"
  xe_updated_at :: time

text \<open>\<open>model_dump(mode="json")\<close> and \<open>model_validate\<close>; a time is written as its number.\<close>

definition effect_dump :: "external_effect \<Rightarrow> (string \<times> json) list" where
  "effect_dump e =
    [(''effect_id'', JStr (xe_id e)), (''tenant_id'', JStr (xe_tenant e)), (''project_id'', JStr (xe_project e)),
     (''mission_id'', JStr (xe_mission e)), (''worker_run_id'', JStr (xe_worker_run e)),
     (''capability_lease_id'', JStr (xe_lease e)), (''command_id'', JStr (xe_command e)),
     (''target_system'', JStr (xe_system e)), (''target_resource'', JStr (xe_resource e)),
     (''operation'', JStr (xe_operation e)), (''side_effect_class'', JStr (xe_class e)),
     (''idempotency_key'', JStr (xe_key e)), (''request_hash'', JStr (xe_request_hash e)),
     (''status'', JStr (xe_status e)), (''external_reference'', json_opt (xe_reference e)),
     (''response_hash'', json_opt (xe_response_hash e)), (''reconciliation_method'', json_opt (xe_method e)),
     (''created_at'', JInt (xe_created_at e)), (''confirmed_at'', json_when (xe_confirmed_at e)),
     (''updated_at'', JInt (xe_updated_at e))]"

definition effect_fields :: "string list" where
  "effect_fields = [''effect_id'', ''tenant_id'', ''project_id'', ''mission_id'', ''worker_run_id'', ''capability_lease_id'',
     ''command_id'', ''target_system'', ''target_resource'', ''operation'', ''side_effect_class'', ''idempotency_key'',
     ''request_hash'', ''status'', ''external_reference'', ''response_hash'', ''reconciliation_method'', ''created_at'',
     ''confirmed_at'', ''updated_at'']"

definition SIDE_EFFECT_CLASSES :: "string list" where
  "SIDE_EFFECT_CLASSES = [''PURE_READ'', ''WORKSPACE_LOCAL'', ''EXTERNAL_IDEMPOTENT'', ''EXTERNAL_NON_IDEMPOTENT'', ''IRREVERSIBLE'']"

definition effect_validate :: "(string \<times> json) list \<Rightarrow> external_effect option" where
  "effect_validate d =
    (if \<not> list_all (\<lambda>k. k \<in> set effect_fields) (dict_keys d) then None else do {
      i \<leftarrow> get_str d ''effect_id''; te \<leftarrow> get_str d ''tenant_id''; pr \<leftarrow> get_str d ''project_id'';
      mi \<leftarrow> get_str d ''mission_id''; wr \<leftarrow> get_str d ''worker_run_id''; le \<leftarrow> get_str d ''capability_lease_id'';
      co \<leftarrow> get_str d ''command_id''; sy \<leftarrow> get_str d ''target_system''; re \<leftarrow> get_str d ''target_resource'';
      op \<leftarrow> get_str d ''operation''; cl \<leftarrow> get_str d ''side_effect_class''; ke \<leftarrow> get_str d ''idempotency_key'';
      rh \<leftarrow> get_str d ''request_hash''; st \<leftarrow> get_str d ''status''; xr \<leftarrow> get_optional d ''external_reference'';
      rs \<leftarrow> get_optional d ''response_hash''; me \<leftarrow> get_optional d ''reconciliation_method'';
      cr \<leftarrow> get_int d ''created_at''; cf \<leftarrow> get_when d ''confirmed_at''; up \<leftarrow> get_int d ''updated_at'';
      (if cl \<notin> set SIDE_EFFECT_CLASSES \<or> st \<notin> set (dict_keys EXTERNAL_EFFECT_TRANSITIONS) then None else
      Some \<lparr>xe_id = i, xe_tenant = te, xe_project = pr, xe_mission = mi, xe_worker_run = wr, xe_lease = le,
        xe_command = co, xe_system = sy, xe_resource = re, xe_operation = op, xe_class = cl, xe_key = ke,
        xe_request_hash = rh, xe_status = st, xe_reference = xr, xe_response_hash = rs, xe_method = me,
        xe_created_at = cr, xe_confirmed_at = cf, xe_updated_at = up\<rparr>)
    })"

record effect_db = governance_db +
  effects :: "(uuid, external_effect) dict"

section \<open>Hashes and scopes\<close>

definition effect_request_hash :: "uuid \<Rightarrow> uuid \<Rightarrow> string \<Rightarrow> string \<Rightarrow> string \<Rightarrow> string" where
  "effect_request_hash worker_run lease target_system target_resource operation =
    sha256_hex (canonical_json (JObj
      [(''worker_run_id'', JStr worker_run), (''capability_lease_id'', JStr lease),
       (''target_system'', JStr target_system), (''target_resource'', JStr target_resource),
       (''operation'', JStr operation)]))"

definition effect_response_hash :: "(string \<times> json) list \<Rightarrow> string" where
  "effect_response_hash payload = sha256_hex (canonical_json (JObj payload))"

definition mutation_scope_token :: "string \<Rightarrow> string \<Rightarrow> string \<Rightarrow> string" where
  "mutation_scope_token target_system target_resource operation =
    target_system @ '':'' @ target_resource @ '':'' @ operation"

definition BLOCKING_STATUSES :: "string list" where
  "BLOCKING_STATUSES = [''SENT'', ''UNKNOWN'', ''RECONCILING'']"

definition LOCAL_PROCESS_SYSTEM :: string where "LOCAL_PROCESS_SYSTEM = ''local_process''"

definition GIT_SYSTEM :: string where "GIT_SYSTEM = ''git''"

definition LOCAL_PROCESS_RESOLVER_METHOD :: string where "LOCAL_PROCESS_RESOLVER_METHOD = ''workspace_artifact_stat''"

definition GIT_REF_RESOLVER_METHOD :: string where "GIT_REF_RESOLVER_METHOD = ''git_ref_stat''"

definition git_ref_resource :: "string \<Rightarrow> string" where
  "git_ref_resource branch_or_ref =
    (if prefix ''refs/'' branch_or_ref then branch_or_ref else ''refs/heads/'' @ branch_or_ref)"

definition scope_key :: "uuid \<Rightarrow> string \<Rightarrow> string \<Rightarrow> string \<Rightarrow> string" where
  "scope_key mission target_system target_resource operation =
    mission @ '':'' @ target_system @ '':'' @ target_resource @ '':'' @ operation"

section \<open>Repository\<close>

record effect_scope =
  sc_tenant :: uuid
  sc_project :: uuid
  sc_mission :: uuid
  sc_system :: string
  sc_resource :: string
  sc_operation :: string

definition scope_of :: "external_effect \<Rightarrow> effect_scope" where
  "scope_of e = \<lparr>sc_tenant = xe_tenant e, sc_project = xe_project e, sc_mission = xe_mission e,
     sc_system = xe_system e, sc_resource = xe_resource e, sc_operation = xe_operation e\<rparr>"

definition blocks :: "external_effect \<Rightarrow> bool" where
  "blocks e \<longleftrightarrow> xe_status e \<in> set BLOCKING_STATUSES \<or> xe_status e = ''RECONCILED'' \<and> xe_confirmed_at e \<noteq> None"

definition list_blocking_for_scope :: "effect_scope \<Rightarrow> 'x effect_db_scheme \<Rightarrow> external_effect list" where
  "list_blocking_for_scope sc d =
    sort_key xe_created_at (filter (\<lambda>e. scope_of e = sc \<and> blocks e) (dict_values (effects d)))"

definition list_unreconciled_for_mission :: "uuid \<Rightarrow> uuid \<Rightarrow> uuid \<Rightarrow> 'x effect_db_scheme \<Rightarrow> external_effect list" where
  "list_unreconciled_for_mission tenant project mission d =
    sort_key xe_created_at (filter (\<lambda>e. xe_tenant e = tenant \<and> xe_project e = project \<and> xe_mission e = mission
      \<and> xe_status e \<in> set BLOCKING_STATUSES) (dict_values (effects d)))"

definition list_for_run :: "uuid \<Rightarrow> 'x effect_db_scheme \<Rightarrow> external_effect list" where
  "list_for_run run d = sort_key xe_created_at (filter (\<lambda>e. xe_worker_run e = run) (dict_values (effects d)))"

definition insert_effect :: "external_effect \<Rightarrow> 'x effect_db_scheme \<Rightarrow> unit result \<times> 'x effect_db_scheme" where
  "insert_effect e d =
    (case table_insert ''external_effects'' (xe_id e) e (effects d) of
       Inl err \<Rightarrow> (Inl err, d)
     | Inr t \<Rightarrow> (Inr (), d\<lparr>effects := t\<rparr>))"

section \<open>The service\<close>

definition require_effect :: "uuid \<Rightarrow> 'x effect_db_scheme \<Rightarrow> external_effect result" where
  "require_effect eid d =
    (case dict_get (effects d) eid of
       None \<Rightarrow> Inl (DdeError ''POLICY_DENIED'' ''Unknown external effect'' False [(''effect_id'', JStr eid)])
     | Some e \<Rightarrow> Inr e)"

definition refuse_if_blocked :: "effect_scope \<Rightarrow> 'x effect_db_scheme \<Rightarrow> unit result \<times> 'x effect_db_scheme" where
  "refuse_if_blocked sc d =
    (case list_blocking_for_scope sc d of
       [] \<Rightarrow> (Inr (), d)
     | lead # rest \<Rightarrow>
         (Inl (DdeError ''EFFECT_CONFLICT''
            (''Refusing a new mutation while an unreconciled or verified-present external effect exists for this scope (status=''
              @ xe_status lead @ '', effect_id='' @ xe_id lead @ '')'') False
            [(''effect_id'', JStr (xe_id lead)), (''status'', JStr (xe_status lead)),
             (''target_system'', JStr (sc_system sc)), (''target_resource'', JStr (sc_resource sc)),
             (''operation'', JStr (sc_operation sc)),
             (''blocking_effect_ids'', JList (map (JStr \<circ> xe_id) (lead # rest)))]), d))"

definition replay_or_raise :: "command_idempotency \<Rightarrow> 'x effect_db_scheme \<Rightarrow> external_effect result" where
  "replay_or_raise rec d =
    (if ci_status rec = ''completed'' \<and> ci_result rec \<noteq> None then
       (case ci_result rec of
          Some (JObj payload) \<Rightarrow>
            (case effect_validate payload of
               None \<Rightarrow> Inl (ValueError ''ExternalEffect'')
             | Some stored \<Rightarrow> require_effect (xe_id stored) d)
        | _ \<Rightarrow> Inl (ValueError ''ExternalEffect''))
     else if ci_status rec = ''failed'' then
       Inl (DdeError ''VERSION_CONFLICT'' ''Command previously failed; refusing to re-execute'' False
         [(''idempotency_key'', JStr (ci_key rec))])
     else Inl (DdeError ''VERSION_CONFLICT'' ''Command is already in progress'' True
         [(''idempotency_key'', JStr (ci_key rec))]))"

record prepare_args =
  pa_scope :: effect_scope
  pa_worker_run :: uuid
  pa_lease :: uuid
  pa_class :: string
  pa_key :: string
  pa_evidence :: "string option"
  pa_approval :: "string option"

definition prepare_digest :: "prepare_args \<Rightarrow> string" where
  "prepare_digest a = effect_request_hash (pa_worker_run a) (pa_lease a) (sc_system (pa_scope a)) (sc_resource (pa_scope a))
     (sc_operation (pa_scope a))"

definition prepared_effect :: "prepare_args \<Rightarrow> uuid \<Rightarrow> uuid \<Rightarrow> time \<Rightarrow> external_effect" where
  "prepared_effect a eid cid now =
    \<lparr>xe_id = eid, xe_tenant = sc_tenant (pa_scope a), xe_project = sc_project (pa_scope a),
     xe_mission = sc_mission (pa_scope a), xe_worker_run = pa_worker_run a, xe_lease = pa_lease a, xe_command = cid,
     xe_system = sc_system (pa_scope a), xe_resource = sc_resource (pa_scope a), xe_operation = sc_operation (pa_scope a),
     xe_class = pa_class a, xe_key = pa_key a, xe_request_hash = prepare_digest a, xe_status = ''PREPARED'',
     xe_reference = pa_evidence a, xe_response_hash = None, xe_method = None, xe_created_at = now,
     xe_confirmed_at = None, xe_updated_at = now\<rparr>"

definition effect_event :: "string \<Rightarrow> external_effect \<Rightarrow> (string \<times> json) list \<Rightarrow> event_args" where
  "effect_event ty e payload =
    \<lparr>ea_type = ty, ea_aggregate_type = ''external_effect'', ea_aggregate_id = xe_id e, ea_tenant = xe_tenant e,
     ea_project = xe_project e, ea_payload = payload, ea_mission = Some (xe_mission e), ea_task = None,
     ea_correlation = None, ea_causation = None\<rparr>"

text \<open>The part of \<open>prepare\<close> behind the ledger and the gates: row, event, ledger result.\<close>

definition write_prepared :: "prepare_args \<Rightarrow> uuid \<Rightarrow> 'x effect_db_scheme \<Rightarrow> external_effect result \<times> 'x effect_db_scheme" where
  "write_prepared a cid d =
    (let (now, d1) = read_clock d;
         (eid, d2) = draw_id d1;
         e = prepared_effect a eid cid now
     in and_then (insert_effect e)
          (\<lambda>_. and_then (append_event (effect_event ''ExternalEffectPrepared'' e
              [(''target_system'', JStr (xe_system e)), (''target_resource'', JStr (xe_resource e)),
               (''operation'', JStr (xe_operation e)), (''side_effect_class'', JStr (xe_class e))]))
            (\<lambda>_. and_then (complete_command cid (JObj (effect_dump e))) (\<lambda>_. Pair (Inr e)))) d2)"

text \<open>The check an IRREVERSIBLE effect passes through.\<close>

definition approval_gate :: "prepare_args \<Rightarrow> 'x effect_db_scheme \<Rightarrow> unit result \<times> 'x effect_db_scheme" where
  "approval_gate a =
    (if pa_class a \<noteq> ''IRREVERSIBLE'' then Pair (Inr ())
     else case pa_approval a of
       None \<Rightarrow> Pair (Inl (DdeError ''POLICY_DENIED'' ''IRREVERSIBLE effects require per-invocation approval'' False []))
     | Some sh \<Rightarrow> and_then (require_approved sh ''irreversible_effect'') (\<lambda>_. Pair (Inr ())))"

text \<open>The suffix \<open>_in\<close>: the method in a unit of work of the caller, who commits or rolls back.\<close>

definition prepare_in :: "prepare_args \<Rightarrow> 'x effect_db_scheme \<Rightarrow> external_effect result \<times> 'x effect_db_scheme" where
  "prepare_in a d =
    (if pa_class a \<notin> set SIDE_EFFECT_CLASSES then
       (Inl (DdeError ''POLICY_DENIED'' (''Unknown side_effect_class '' @ py_repr (pa_class a)) False
          [(''side_effect_class'', JStr (pa_class a))]), d)
     else if pa_class a = ''IRREVERSIBLE'' \<and> pa_approval a = None then
       (Inl (DdeError ''POLICY_DENIED'' ''IRREVERSIBLE effects require per-invocation approval'' False
          [(''side_effect_class'', JStr (pa_class a))]), d)
     else and_then (begin_command (sc_tenant (pa_scope a)) (sc_project (pa_scope a)) (pa_key a) (prepare_digest a))
       (\<lambda>(rec, is_new).
         if \<not> is_new then (\<lambda>d1. (replay_or_raise rec d1, d1))
         else and_then (approval_gate a)
           (\<lambda>_. and_then (refuse_if_blocked (pa_scope a))
             (\<lambda>_. write_prepared a (ci_command rec)))) d)"

definition prepare :: "prepare_args \<Rightarrow> 'x effect_db_scheme \<Rightarrow> external_effect result \<times> 'x effect_db_scheme" where
  "prepare a = transact (prepare_in a)"

text \<open>\<open>_transition\<close>: the row is updated by the given fields, read back, and an event appended.\<close>

definition transition_effect ::
  "external_effect \<Rightarrow> string \<Rightarrow> string \<Rightarrow> (string \<times> json) list \<Rightarrow> (external_effect \<Rightarrow> external_effect)
    \<Rightarrow> 'x effect_db_scheme \<Rightarrow> external_effect result \<times> 'x effect_db_scheme"
where
  "transition_effect current target ty payload extra d =
    (case transition (xe_status current) target EXTERNAL_EFFECT_TRANSITIONS of
       Inl err \<Rightarrow> (Inl err, d)
     | Inr st \<Rightarrow>
         let (now, d1) = read_clock d;
             t = table_update (xe_id current) (\<lambda>e. extra (e\<lparr>xe_status := st, xe_updated_at := now\<rparr>)) (effects d1);
             d2 = d1\<lparr>effects := t\<rparr>
         in if xe_id current \<notin> set (dict_keys (effects d1)) then
              (Inl (DdeError ''VERSION_CONFLICT'' ''Unknown external effect'' False
                 [(''effect_id'', JStr (xe_id current))]), d1)
            else (case require_effect (xe_id current) d2 of
                Inl err \<Rightarrow> (Inl err, d2)
              | Inr updated \<Rightarrow>
                  and_then (append_event (effect_event ty updated payload)) (\<lambda>_. Pair (Inr updated)) d2))"

definition with_effect ::
  "uuid \<Rightarrow> (external_effect \<Rightarrow> 'x effect_db_scheme \<Rightarrow> 'r result \<times> 'x effect_db_scheme) \<Rightarrow> 'x effect_db_scheme \<Rightarrow> 'r result \<times> 'x effect_db_scheme"
where
  "with_effect eid f d = (case require_effect eid d of Inl err \<Rightarrow> (Inl err, d) | Inr e \<Rightarrow> f e d)"

definition mark_sent_in :: "uuid \<Rightarrow> 'x effect_db_scheme \<Rightarrow> external_effect result \<times> 'x effect_db_scheme" where
  "mark_sent_in eid = with_effect eid (\<lambda>e. transition_effect e ''SENT'' ''ExternalEffectSent'' [] id)"

definition mark_sent :: "uuid \<Rightarrow> 'x effect_db_scheme \<Rightarrow> external_effect result \<times> 'x effect_db_scheme" where
  "mark_sent eid = transact (mark_sent_in eid)"

definition mark_confirmed_in ::
  "uuid \<Rightarrow> string option \<Rightarrow> string option \<Rightarrow> 'x effect_db_scheme \<Rightarrow> external_effect result \<times> 'x effect_db_scheme"
where
  "mark_confirmed_in eid external_reference response_hash =
    with_effect eid (\<lambda>e d.
      let (now, d1) = read_clock d in
      transition_effect e ''CONFIRMED'' ''ExternalEffectConfirmed'' [(''external_reference'', json_opt external_reference)]
        (\<lambda>x. let y = x\<lparr>xe_response_hash := response_hash, xe_confirmed_at := Some now\<rparr>
             in case external_reference of None \<Rightarrow> y | Some r \<Rightarrow> y\<lparr>xe_reference := Some r\<rparr>) d1)"

definition mark_confirmed ::
  "uuid \<Rightarrow> string option \<Rightarrow> string option \<Rightarrow> 'x effect_db_scheme \<Rightarrow> external_effect result \<times> 'x effect_db_scheme"
where
  "mark_confirmed eid external_reference response_hash = transact (mark_confirmed_in eid external_reference response_hash)"

definition mark_failed :: "uuid \<Rightarrow> string \<Rightarrow> 'x effect_db_scheme \<Rightarrow> external_effect result \<times> 'x effect_db_scheme" where
  "mark_failed eid reason =
    transact (with_effect eid (\<lambda>e. transition_effect e ''FAILED'' ''ExternalEffectFailed'' [(''reason'', JStr reason)] id))"

definition mark_unknown :: "uuid \<Rightarrow> string \<Rightarrow> 'x effect_db_scheme \<Rightarrow> external_effect result \<times> 'x effect_db_scheme" where
  "mark_unknown eid reason =
    transact (with_effect eid (\<lambda>e. transition_effect e ''UNKNOWN'' ''ExternalEffectUnknown'' [(''reason'', JStr reason)] id))"

definition abandon_sent :: "uuid \<Rightarrow> string \<Rightarrow> 'x effect_db_scheme \<Rightarrow> external_effect result \<times> 'x effect_db_scheme" where
  "abandon_sent eid reason =
    transact (with_effect eid (\<lambda>e d.
      if xe_status e \<noteq> ''SENT'' then
        (Inl (DdeError ''VERSION_CONFLICT'' (''abandon_sent requires status SENT (got '' @ xe_status e @ '')'') False
           [(''effect_id'', JStr eid), (''status'', JStr (xe_status e))]), d)
      else transition_effect e ''UNKNOWN'' ''ExternalEffectUnknown''
        [(''reason'', JStr reason), (''abandoned_from'', JStr ''SENT'')] id d))"

subsection \<open>Reconciliation\<close>

record reconciliation_outcome =
  ro_verified :: bool
  ro_present :: bool
  ro_detail :: string

record reconciliation_result =
  rr_effect :: external_effect
  rr_verified_absent :: bool

definition enter_reconciling :: "uuid \<Rightarrow> string \<Rightarrow> 'x effect_db_scheme \<Rightarrow> external_effect result \<times> 'x effect_db_scheme" where
  "enter_reconciling eid method =
    with_effect eid (\<lambda>e d.
      if xe_status e = ''UNKNOWN'' then
        transition_effect e ''RECONCILING'' ''ExternalEffectReconciling'' [(''method'', JStr method)]
          (\<lambda>x. x\<lparr>xe_method := Some method\<rparr>) d
      else if xe_status e = ''RECONCILING'' then (Inr e, d)
      else case transition (xe_status e) ''RECONCILING'' EXTERNAL_EFFECT_TRANSITIONS of
        Inl err \<Rightarrow> (Inl err, d)
      | Inr _ \<Rightarrow> (Inl (AssertionError ''unreachable''), d))"

definition escalate_undeterminable ::
  "external_effect \<Rightarrow> string \<Rightarrow> string \<Rightarrow> 'x effect_db_scheme \<Rightarrow> 'r result \<times> 'x effect_db_scheme"
where
  "escalate_undeterminable current method detail d =
    (if xe_class current = ''IRREVERSIBLE'' then
       (case transact (append_event (effect_event ''ExternalEffectIrreversibleEscalated'' current
           [(''method'', JStr method), (''detail'', JStr detail), (''escalation'', JStr ''human'')])) d of
          (Inl err, d') \<Rightarrow> (Inl err, d')
        | (Inr _, d') \<Rightarrow>
            (Inl (DdeError ''EFFECT_IRREVERSIBLE''
              (''IRREVERSIBLE effect could not be reconciled -- escalating to a human rather than resolving (side_effect_class=''
                @ py_repr (xe_class current) @ ''): '' @ detail) False
              [(''effect_id'', JStr (xe_id current)), (''side_effect_class'', JStr (xe_class current)),
               (''method'', JStr method), (''escalation'', JStr ''human'')]), d'))
     else
       (Inl (DdeError ''EFFECT_UNKNOWN''
          (''Reconciliation could not determine the true external state -- escalating rather than resolving (side_effect_class=''
            @ py_repr (xe_class current) @ ''): '' @ detail) False
          [(''effect_id'', JStr (xe_id current)), (''side_effect_class'', JStr (xe_class current)),
           (''method'', JStr method)]), d))"

text \<open>
  \<open>answer\<close> is what the resolver returns or raises when it is called, after RECONCILING was committed.
\<close>

definition reconcile ::
  "uuid \<Rightarrow> string \<Rightarrow> reconciliation_outcome result \<Rightarrow> 'x effect_db_scheme \<Rightarrow> reconciliation_result result \<times> 'x effect_db_scheme"
where
  "reconcile eid method answer d =
    (if strip method = [] then
       (Inl (DdeError ''POLICY_DENIED'' ''reconciliation method must not be empty'' False []), d)
     else case transact (enter_reconciling eid method) d of
       (Inl err, d1) \<Rightarrow> (Inl err, d1)
     | (Inr current, d1) \<Rightarrow>
         (case answer of
            Inl err \<Rightarrow> (Inl err, d1)
          | Inr outcome \<Rightarrow>
              if \<not> ro_verified outcome then escalate_undeterminable current method (ro_detail outcome) d1
              else
                let (extra, d2) =
                  (if ro_present outcome then
                     (case read_clock d1 of (now, d2) \<Rightarrow>
                        ((\<lambda>x. let y = x\<lparr>xe_confirmed_at := Some now\<rparr> in
                           if xe_reference current = None \<and> ro_detail outcome \<noteq> []
                           then y\<lparr>xe_reference := Some (take 512 (ro_detail outcome))\<rparr> else y), d2))
                   else (id, d1))
                in transact (with_effect eid (\<lambda>live.
                     and_then (transition_effect live ''RECONCILED'' ''ExternalEffectReconciled''
                         [(''present'', JBool (ro_present outcome)), (''detail'', JStr (ro_detail outcome))] extra)
                       (\<lambda>e. Pair (Inr \<lparr>rr_effect = e, rr_verified_absent = (\<not> ro_present outcome)\<rparr>)))) d2))"

text \<open>
  The two production resolvers. \<open>locate\<close> stands for \<open>resolve_within_workspace\<close> and \<open>path_exists\<close> for the
  file system, \<open>git\<close> for \<open>shutil.which\<close> and \<open>show_ref\<close> for the exit code of \<open>git show-ref\<close>.
\<close>

definition resolve_local_process_artifact ::
  "(string \<Rightarrow> string \<Rightarrow> string result) \<Rightarrow> (string \<Rightarrow> bool) \<Rightarrow> string \<Rightarrow> string option \<Rightarrow> reconciliation_outcome result"
where
  "resolve_local_process_artifact locate path_exists base expected =
    (case expected of
       None \<Rightarrow> Inr \<lparr>ro_verified = False, ro_present = False, ro_detail =
         ''no expected workspace artifact was journaled for this run_local_process effect -- cannot determine presence or absence from the command string alone''\<rparr>
     | Some artifact \<Rightarrow>
         if strip artifact = [] then Inr \<lparr>ro_verified = False, ro_present = False, ro_detail =
           ''no expected workspace artifact was journaled for this run_local_process effect -- cannot determine presence or absence from the command string alone''\<rparr>
         else (case locate base artifact of
             Inl (DdeError code msg r ds) \<Rightarrow> Inr \<lparr>ro_verified = False, ro_present = False,
               ro_detail = ''expected artifact is not a workspace-local path: '' @ msg\<rparr>
           | Inl err \<Rightarrow> Inl err
           | Inr target \<Rightarrow> Inr \<lparr>ro_verified = True, ro_present = path_exists target,
               ro_detail = ''workspace artifact '' @ py_repr artifact @ '' '' @ (if path_exists target then ''present'' else ''absent'')
                 @ '' at '' @ target\<rparr>))"

definition resolve_git_ref :: "string option \<Rightarrow> (string \<Rightarrow> string \<Rightarrow> int) \<Rightarrow> string \<Rightarrow> string \<Rightarrow> reconciliation_outcome" where
  "resolve_git_ref git show_ref base ref_name =
    (case git of
       None \<Rightarrow> \<lparr>ro_verified = False, ro_present = False, ro_detail = ''git executable not found on PATH -- cannot stat ref''\<rparr>
     | Some _ \<Rightarrow>
         let present = (show_ref base ref_name = 0) in
         \<lparr>ro_verified = True, ro_present = present,
          ro_detail = ''git ref '' @ py_repr ref_name @ '' '' @ (if present then ''present'' else ''absent'') @ '' in '' @ base\<rparr>)"

definition reconcile_journaled ::
  "(string \<Rightarrow> string option \<Rightarrow> reconciliation_outcome result) \<Rightarrow> (string \<Rightarrow> reconciliation_outcome result)
    \<Rightarrow> uuid \<Rightarrow> 'x effect_db_scheme \<Rightarrow> reconciliation_result result \<times> 'x effect_db_scheme"
where
  "reconcile_journaled local_resolver git_resolver eid d =
    (case require_effect eid d of
       Inl err \<Rightarrow> (Inl err, d)
     | Inr e \<Rightarrow>
         if xe_system e = LOCAL_PROCESS_SYSTEM then
           reconcile eid LOCAL_PROCESS_RESOLVER_METHOD (local_resolver (xe_resource e) (xe_reference e)) d
         else if xe_system e = GIT_SYSTEM then
           reconcile eid GIT_REF_RESOLVER_METHOD (git_resolver (xe_resource e)) d
         else (Inl (DdeError ''POLICY_DENIED'' ''No production resolver for this target_system'' False
                 [(''target_system'', JStr (xe_system e))]), d))"

definition assert_clear_to_mutate :: "effect_scope \<Rightarrow> 'x effect_db_scheme \<Rightarrow> unit result \<times> 'x effect_db_scheme" where
  "assert_clear_to_mutate sc = transact (refuse_if_blocked sc)"

section \<open>Sequences of calls\<close>

text \<open>One call of the service; \<open>reconcile_journaled\<close> is a \<open>reconcile\<close> with a production resolver.\<close>

datatype effect_op =
    Prepare prepare_args
  | MarkSent uuid
  | MarkConfirmed uuid "string option" "string option"
  | MarkFailed uuid string
  | MarkUnknown uuid string
  | AbandonSent uuid string
  | Reconcile uuid string "reconciliation_outcome result"

fun effect_step :: "effect_op \<Rightarrow> 'x effect_db_scheme \<Rightarrow> 'x effect_db_scheme" where
  "effect_step (Prepare a) d = snd (prepare a d)"
| "effect_step (MarkSent k) d = snd (mark_sent k d)"
| "effect_step (MarkConfirmed k r h) d = snd (mark_confirmed k r h d)"
| "effect_step (MarkFailed k r) d = snd (mark_failed k r d)"
| "effect_step (MarkUnknown k r) d = snd (mark_unknown k r d)"
| "effect_step (AbandonSent k r) d = snd (abandon_sent k r d)"
| "effect_step (Reconcile k m a) d = snd (reconcile k m a d)"

definition effect_run :: "effect_op list \<Rightarrow> 'x effect_db_scheme \<Rightarrow> 'x effect_db_scheme" where
  "effect_run = service_run effect_step"

section \<open>Invariant\<close>

text \<open>
  Every row is filed under its identifier, which was drawn, and its command is in the ledger, completed,
  with a stored result that names the row. The request hash of both is the same.
\<close>

abbreviation command_key :: "external_effect \<Rightarrow> uuid \<times> string" where
  "command_key e \<equiv> (xe_tenant e, xe_key e)"

definition journaled :: "event_store \<Rightarrow> external_effect \<Rightarrow> bool" where
  "journaled s e \<longleftrightarrow> (\<exists>c p. dict_get (es_commands s) (command_key e) = Some c \<and> ci_status c = ''completed''
    \<and> ci_result c = Some (JObj (effect_dump p)) \<and> xe_id p = xe_id e \<and> xe_class p \<in> set SIDE_EFFECT_CLASSES
    \<and> xe_status p = ''PREPARED'' \<and> ci_request_hash c = xe_request_hash e)"

interpretation effect_rows: row_table effects "\<lambda>t d. d\<lparr>effects := t\<rparr>" xe_id
  by unfold_locales simp_all

definition effect_ok :: "'x effect_db_scheme \<Rightarrow> bool" where
  "effect_ok d \<longleftrightarrow> table_ok effects xe_id d \<and> (\<forall>e \<in> set (dict_values (effects d)). journaled (db_log d) e)"

lemma effect_okD:
  assumes "effect_ok d"
  shows "log_ok d" "keyed xe_id (effects d)" "set (dict_keys (effects d)) \<subseteq> drawn_ids (db_env d)"
    "\<And>e. e \<in> set (dict_values (effects d)) \<Longrightarrow> journaled (db_log d) e" "table_ok effects xe_id d"
  using assms unfolding effect_ok_def table_ok_def by blast+

text \<open>What a row keeps for good.\<close>

definition same_core :: "external_effect \<Rightarrow> external_effect \<Rightarrow> bool" where
  "same_core e e' \<longleftrightarrow> xe_id e' = xe_id e \<and> scope_of e' = scope_of e \<and> xe_key e' = xe_key e \<and> xe_request_hash e' = xe_request_hash e
    \<and> xe_class e' = xe_class e"

lemma same_core_simps [simp]:
  "same_core e e" "same_core e (e\<lparr>xe_status := st, xe_updated_at := t\<rparr>)"
  "same_core e (e'\<lparr>xe_confirmed_at := x\<rparr>) = same_core e e'" "same_core e (e'\<lparr>xe_reference := r\<rparr>) = same_core e e'"
  "same_core e (e'\<lparr>xe_response_hash := r\<rparr>) = same_core e e'" "same_core e (e'\<lparr>xe_method := r\<rparr>) = same_core e e'"
  by (simp_all add: same_core_def scope_of_def)

lemma same_core_key: "same_core e e' \<Longrightarrow> command_key e' = command_key e"
  by (simp add: same_core_def scope_of_def)

lemma same_core_trans: "same_core a b \<Longrightarrow> same_core b c \<Longrightarrow> same_core a c"
  by (simp add: same_core_def)

lemma journaledI:
  assumes "dict_get (es_commands s) (command_key e) = Some c" and "ci_status c = ''completed''"
    and "ci_result c = Some (JObj (effect_dump e))" and "xe_class e \<in> set SIDE_EFFECT_CLASSES" and "xe_status e = ''PREPARED''"
    and "ci_request_hash c = xe_request_hash e"
  shows "journaled s e"
  unfolding journaled_def using assms by (intro exI [of _ c] exI [of _ e]) simp

lemma journaled_core:
  assumes "journaled s e" and "same_core e e'"
  shows "journaled s e'"
  using assms(1) same_core_key [OF assms(2)] assms(2) unfolding journaled_def same_core_def by simp

lemma journaled_le: "journaled s e \<Longrightarrow> ledger_le s s' \<Longrightarrow> journaled s' e"
  unfolding journaled_def ledger_le_def by blast

lemma journaled_command: "journaled s e \<Longrightarrow> command_key e \<in> set (dict_keys (es_commands s))"
  unfolding journaled_def by (blast intro: dict_get_key)

lemma require_effect_Inr [simp]: "require_effect k d = Inr e \<longleftrightarrow> dict_get (effects d) k = Some e"
  by (simp add: require_effect_def split: option.splits)

text \<open>Writing the log and drawing, with the tables as they are.\<close>

lemma effect_ok_log:
  assumes ok: "effect_ok d" and "log_ok (d\<lparr>db_log := s, db_env := e\<rparr>)" and "env_le (db_env d) e"
    and "ledger_le (db_log d) s"
  shows "effect_ok (d\<lparr>db_log := s, db_env := e\<rparr>)"
  using effect_rows.ok_log [OF effect_okD(5) [OF ok] assms(2,3)] effect_okD(4) [OF ok] journaled_le [OF _ assms(4)]
  by (simp add: effect_ok_def)

lemma effect_ok_env:
  assumes "effect_ok d" and "env_le (db_env d) e"
  shows "effect_ok (d\<lparr>db_env := e\<rparr>)"
  using effect_rows.ok_env [OF effect_okD(5) [OF assms(1)] assms(2)] effect_okD(4) [OF assms(1)] by (simp add: effect_ok_def)

lemma effect_ok_set:
  assumes ok: "effect_ok d" and k: "k \<in> drawn_ids (db_env d)" "xe_id e' = k" and "journaled (db_log d) e'"
  shows "effect_ok (d\<lparr>effects := dict_set k e' (effects d)\<rparr>)"
  using effect_rows.ok_put [OF effect_okD(5) [OF ok] k] dict_values_set_subset [of k e' "effects d"] effect_okD(4) [OF ok] assms(4)
  by (auto simp: effect_ok_def)

lemma effect_ok_update:
  assumes ok: "effect_ok d" and get: "dict_get (effects d) k = Some e" and same: "same_core e e'"
  shows "effect_ok (d\<lparr>effects := dict_set k e' (effects d)\<rparr>)"
proof (rule effect_ok_set [OF ok])
  show "k \<in> drawn_ids (db_env d)" using effect_okD(3) [OF ok] dict_get_key [OF get] by blast
  show "xe_id e' = k" using keyed_get [OF effect_okD(2) [OF ok] get] same by (simp add: same_core_def)
  show "journaled (db_log d) e'" by (rule journaled_core [OF effect_okD(4) [OF ok dict_get_value [OF get]] same])
qed

section \<open>One transition\<close>

text \<open>The tables of the governance service, which the journal only reads; and what was drawn stays drawn.\<close>

definition journal_frame :: "'x effect_db_scheme \<Rightarrow> 'x effect_db_scheme \<Rightarrow> bool" where
  "journal_frame d d' \<longleftrightarrow> approvals d' = approvals d \<and> standings d' = standings d \<and> attentions d' = attentions d
    \<and> audits d' = audits d \<and> env_le (db_env d) (db_env d') \<and> effect_db.more d' = effect_db.more d"

lemma journal_frame_trans: "journal_frame a b \<Longrightarrow> journal_frame b c \<Longrightarrow> journal_frame a c"
  by (auto simp: journal_frame_def intro: env_le_trans)

text \<open>A transition writes one row, along the table, or nothing.\<close>

lemma transition_effect_cases:
  assumes ok: "effect_ok d" and get: "dict_get (effects d) (xe_id cur) = Some cur"
    and extra: "\<And>x. same_core x (extra x)"
  obtains (refused) err where "transition_effect cur st ty pl extra d = (Inl err, d)"
      "st \<notin> set (succs EXTERNAL_EFFECT_TRANSITIONS (xe_status cur))"
  | (moved) now e' d' where "transition_effect cur st ty pl extra d = (Inr e', d')"
      "st \<in> set (succs EXTERNAL_EFFECT_TRANSITIONS (xe_status cur))"
      "e' = extra (cur\<lparr>xe_status := st, xe_updated_at := now\<rparr>)"
      "effects d' = dict_set (xe_id cur) e' (effects d)" "effect_ok d'" "journal_frame d d'"
      "es_commands (db_log d') = es_commands (db_log d)"
proof (cases "st \<in> set (succs EXTERNAL_EFFECT_TRANSITIONS (xe_status cur))")
  case False
  then obtain err where "transition_effect cur st ty pl extra d = (Inl err, d)"
    by (simp add: transition_effect_def transition_def)
  with False show thesis by (intro refused)
next
  case True
  let ?now = "fst (clock_now (db_env d))" and ?k = "xe_id cur"
  let ?e' = "extra (cur\<lparr>xe_status := st, xe_updated_at := ?now\<rparr>)"
  let ?d1 = "d\<lparr>db_env := snd (clock_now (db_env d))\<rparr>"
  let ?d2 = "?d1\<lparr>effects := dict_set ?k ?e' (effects ?d1)\<rparr>"
  have ok1: "effect_ok ?d1" by (rule effect_ok_env [OF ok]) simp
  have ok2: "effect_ok ?d2"
    by (rule effect_ok_update [OF ok1, of ?k cur]) (use get in \<open>simp_all add: same_core_trans [OF _ extra]\<close>)
  have tab: "table_update ?k (\<lambda>e. extra (e\<lparr>xe_status := st, xe_updated_at := ?now\<rparr>)) (effects d) = dict_set ?k ?e' (effects d)"
    by (rule table_update_eq [OF keyed_ok [OF effect_okD(2) [OF ok]] get])
  have key: "?k \<in> set (dict_keys (effects d))" by (rule dict_get_key [OF get])
  obtain ev s env' where ap: "append_event (effect_event ty ?e' pl) ?d2 = (Inr ev, ?d2\<lparr>db_log := s, db_env := env'\<rparr>)"
      "log_ok (?d2\<lparr>db_log := s, db_env := env'\<rparr>)" "env_le (db_env ?d2) env'" "es_commands s = es_commands (db_log ?d2)"
    by (rule append_event_ok [OF effect_okD(1) [OF ok2]])
  let ?d3 = "?d2\<lparr>db_log := s, db_env := env'\<rparr>"
  have "effect_ok ?d3" by (rule effect_ok_log [OF ok2 ap(2,3)]) (simp add: ap(4))
  moreover have "transition_effect cur st ty pl extra d = (Inr ?e', ?d3)"
    using True key ap(1) by (simp add: transition_effect_def transition_def read_clock_eq tab require_effect_def dict_get_set and_then_def)
  moreover have "journal_frame d ?d3"
    using env_le_trans [OF _ ap(3), of "db_env d"] by (simp add: journal_frame_def)
  moreover have "es_commands (db_log ?d3) = es_commands (db_log d)" using ap(4) by simp
  ultimately show thesis using True by (intro moved [of ?e' ?d3 ?now]) simp_all
qed

section \<open>What a committed transaction can do\<close>

text \<open>
  A unit of work that commits leaves the rows alone, files a new PREPARED row in a scope nothing blocks, or
  moves one row along the table. \<open>A\<close> holds the effects that may be found absent.
\<close>

inductive effect_write :: "uuid set \<Rightarrow> 'x effect_db_scheme \<Rightarrow> 'x effect_db_scheme \<Rightarrow> bool" for A :: "uuid set" where
  Quiet: "effect_write A d d'" if "effects d' = effects d" "ledger_le (db_log d) (db_log d')" "effect_ok d'"
    "journal_frame d d'"
| Filed: "effect_write A d d'" if "effects d' = effects d @ [(xe_id e, e)]" "xe_status e = ''PREPARED''"
    "xe_id e \<notin> set (dict_keys (effects d))" "command_key e \<notin> set (dict_keys (es_commands (db_log d)))"
    "list_blocking_for_scope (scope_of e) d = []" "ledger_le (db_log d) (db_log d')" "effect_ok d'"
    "xe_class e = ''IRREVERSIBLE'' \<Longrightarrow> list_ex (\<lambda>x. ap_type x = ''irreversible_effect'' \<and> ap_status x = ''APPROVED'') (dict_values (approvals d))"
    "journal_frame d d'"
| Moved: "effect_write A d d'" if "dict_get (effects d) k = Some e" "same_core e e'"
    "effects d' = dict_set k e' (effects d)" "xe_status e' \<in> set (succs EXTERNAL_EFFECT_TRANSITIONS (xe_status e))"
    "xe_status e' = ''RECONCILED'' \<longrightarrow> xe_confirmed_at e' \<noteq> None \<or> k \<in> A"
    "ledger_le (db_log d) (db_log d')" "effect_ok d'" "journal_frame d d'"

inductive_cases effect_writeE: "effect_write A d d'"

lemma effect_write_ok: "effect_write A d d' \<Longrightarrow> effect_ok d' \<and> ledger_le (db_log d) (db_log d') \<and> journal_frame d d'"
  by (auto elim: effect_writeE)

text \<open>A transaction around one transition of a row, which may be refused before it starts.\<close>

lemma transact_move:
  assumes ok: "effect_ok d" and extra: "\<And>x. same_core x (extra x)" "\<And>x. xe_status (extra x) = xe_status x"
    and rec: "st = ''RECONCILED'' \<Longrightarrow> k \<in> A \<or> (\<forall>x. xe_confirmed_at (extra x) \<noteq> None)"
    and en: "env_le (db_env d) en"
    and body: "\<And>e. body e d = transition_effect e st ty pl extra (d\<lparr>db_env := en\<rparr>) \<or> (\<exists>r. body e d = (r, d))"
  shows "effect_write A d (snd (transact (with_effect k body) d))"
proof -
  let ?d1 = "d\<lparr>db_env := en\<rparr>"
  have ok1: "effect_ok ?d1" by (rule effect_ok_env [OF ok en])
  have quiet: "effect_write A d ?d1" "effect_write A d d" using ok ok1 en by (auto simp: journal_frame_def intro!: effect_write.Quiet)
  consider "dict_get (effects d) k = None" | e r where "dict_get (effects d) k = Some e" "body e d = (r, d)"
    | e where "dict_get (effects d) k = Some e" "body e d = transition_effect e st ty pl extra ?d1"
    using body by (cases "dict_get (effects d) k") blast+
  then show ?thesis
  proof cases
    case (3 e)
    have id: "xe_id e = k" by (rule keyed_get [OF effect_okD(2) [OF ok] 3(1)])
    have get: "dict_get (effects ?d1) (xe_id e) = Some e" by (simp add: id 3(1))
    have run: "with_effect k body d = transition_effect e st ty pl extra ?d1"
      by (simp add: with_effect_def require_effect_def 3)
    from ok1 get extra(1) show ?thesis
    proof (cases rule: transition_effect_cases [where st = st and ty = ty and pl = pl])
      case (refused err)
      then show ?thesis using quiet(1) by (simp add: run transact_def)
    next
      case (moved now e' d')
      have frame: "journal_frame d d'" using journal_frame_trans [OF _ moved(6)] en by (simp add: journal_frame_def)
      have "effect_write A d d'"
      proof (rule effect_write.Moved [of d k e e'])
        show "same_core e e'" unfolding moved(3) by (rule same_core_trans [OF _ extra(1)]) simp
      qed (use moved rec extra(2) id 3(1) frame in auto)
      then show ?thesis using moved(1) by (simp add: run transact_def)
    qed
  qed (use quiet(2) in \<open>simp_all add: transact_def with_effect_def require_effect_def split: sum.split\<close>)
qed

lemma transact_return:
  "snd (transact (with_effect k (\<lambda>e. and_then (m e) (\<lambda>x. Pair (Inr (g x))))) d) = snd (transact (with_effect k m) d)"
  by (cases "dict_get (effects d) k") (auto simp: transact_def with_effect_def require_effect_def and_then_def split: sum.splits prod.splits)

lemma mark_writes:
  assumes ok: "effect_ok d"
  shows "effect_write A d (snd (mark_sent k d))" "effect_write A d (snd (mark_failed k r d))"
    "effect_write A d (snd (mark_unknown k r d))" "effect_write A d (snd (abandon_sent k r d))"
    "effect_write A d (snd (mark_confirmed k xr h d))"
proof -
  note move = transact_move [OF ok, where en = "db_env d"]
  show "effect_write A d (snd (mark_sent k d))" unfolding mark_sent_def mark_sent_in_def
    by (rule move [where extra = id and st = "''SENT''" and ty = "''ExternalEffectSent''" and pl = "[]"]) simp_all
  show "effect_write A d (snd (mark_failed k r d))" unfolding mark_failed_def
    by (rule move [where extra = id and st = "''FAILED''" and ty = "''ExternalEffectFailed''" and pl = "[(''reason'', JStr r)]"]) simp_all
  show "effect_write A d (snd (mark_unknown k r d))" unfolding mark_unknown_def
    by (rule move [where extra = id and st = "''UNKNOWN''" and ty = "''ExternalEffectUnknown''" and pl = "[(''reason'', JStr r)]"]) simp_all
  show "effect_write A d (snd (abandon_sent k r d))" unfolding abandon_sent_def
    by (rule move [where extra = id and st = "''UNKNOWN''" and ty = "''ExternalEffectUnknown''"
        and pl = "[(''reason'', JStr r), (''abandoned_from'', JStr ''SENT'')]"]) simp_all
  show "effect_write A d (snd (mark_confirmed k xr h d))" unfolding mark_confirmed_def mark_confirmed_in_def
    by (rule transact_move [OF ok, where en = "snd (clock_now (db_env d))" and st = "''CONFIRMED''"
        and ty = "''ExternalEffectConfirmed''" and pl = "[(''external_reference'', json_opt xr)]"
        and extra = "\<lambda>x. let y = x\<lparr>xe_response_hash := h, xe_confirmed_at := Some (fst (clock_now (db_env d)))\<rparr>
          in case xr of None \<Rightarrow> y | Some r \<Rightarrow> y\<lparr>xe_reference := Some r\<rparr>"])
      (simp_all add: read_clock_eq Let_def split: option.split)
qed

text \<open>An event alone, and the environment alone, leave the rows as they are.\<close>

lemma event_writes:
  assumes ok: "effect_ok d"
  shows "effect_write A d (snd (transact (append_event a) d))"
proof -
  obtain ev s e' where ap: "append_event a d = (Inr ev, d\<lparr>db_log := s, db_env := e'\<rparr>)"
      "log_ok (d\<lparr>db_log := s, db_env := e'\<rparr>)" "env_le (db_env d) e'" "es_commands s = es_commands (db_log d)"
    by (rule append_event_ok [OF effect_okD(1) [OF ok]])
  have "effect_ok (d\<lparr>db_log := s, db_env := e'\<rparr>)" by (rule effect_ok_log [OF ok ap(2,3)]) (simp add: ap(4))
  then show ?thesis using ap(1,3,4) by (auto simp: transact_def journal_frame_def intro!: effect_write.Quiet)
qed

lemma env_writes:
  assumes "effect_ok d" and "env_le (db_env d) e"
  shows "effect_write A d (d\<lparr>db_env := e\<rparr>)"
  using effect_ok_env [OF assms] assms(2) by (intro effect_write.Quiet) (simp_all add: journal_frame_def)

text \<open>The effects a call may find absent.\<close>

fun released :: "effect_op \<Rightarrow> uuid set" where
  "released (Reconcile k m (Inr out)) = (if ro_verified out \<and> \<not> ro_present out then {k} else {})"
| "released _ = {}"

lemma enter_reconciling_writes:
  assumes "effect_ok d"
  shows "effect_write A d (snd (transact (enter_reconciling k m) d))"
  unfolding enter_reconciling_def
  by (rule transact_move [OF assms, where en = "db_env d" and st = "''RECONCILING''" and extra = "\<lambda>x. x\<lparr>xe_method := Some m\<rparr>"
      and ty = "''ExternalEffectReconciling''" and pl = "[(''method'', JStr m)]"]) (auto split: sum.split)

lemma escalate_writes:
  assumes "effect_ok d"
  shows "effect_write A d (snd (escalate_undeterminable cur m detail d))"
  using event_writes [OF assms] env_writes [OF assms env_le_refl]
  by (auto simp: escalate_undeterminable_def split: prod.splits sum.splits) (metis snd_conv)+

text \<open>Recording what the resolver found: present effects are stamped as confirmed, absent ones released.\<close>

lemma reconciled_writes:
  assumes ok: "effect_ok d" and extra: "extra = id \<and> k \<in> A \<or>
      extra = (\<lambda>x. let y = x\<lparr>xe_confirmed_at := Some now\<rparr> in if b then y\<lparr>xe_reference := ref\<rparr> else y)"
  shows "effect_write A d (snd (transact (with_effect k (\<lambda>live.
    and_then (transition_effect live ''RECONCILED'' ty pl extra) (\<lambda>e. Pair (Inr (g e))))) d))"
  unfolding transact_return
  by (rule transact_move [OF ok, where en = "db_env d" and st = "''RECONCILED''" and extra = extra and ty = ty and pl = pl])
    (use extra in \<open>auto simp: Let_def\<close>)

lemma reconcile_writes:
  fixes d :: "'x effect_db_scheme"
  assumes ok: "effect_ok d"
  shows "(effect_write (released (Reconcile k m ans)))\<^sup>*\<^sup>* d (snd (reconcile k m ans d))"
proof (cases "strip m = []")
  case False
  let ?W = "effect_write (released (Reconcile k m ans))"
  let ?pl = "\<lambda>out. [(''present'', JBool (ro_present out)), (''detail'', JStr (ro_detail out))]"
    and ?g = "\<lambda>out e. \<lparr>rr_effect = e, rr_verified_absent = (\<not> ro_present out)\<rparr>"
  obtain r d1 where one: "transact (enter_reconciling k m) d = (r, d1)" by force
  have w1: "?W d d1" using enter_reconciling_writes [OF ok, of _ k m] by (simp add: one)
  have ok1: "effect_ok d1" using effect_write_ok [OF w1] by simp
  have d1: "?W\<^sup>*\<^sup>* d d1" using w1 by (rule r_into_rtranclp)
  show ?thesis
  proof (cases "\<exists>cur out. r = Inr cur \<and> ans = Inr out")
    case False
    then have "snd (reconcile k m ans d) = d1"
      using \<open>strip m \<noteq> []\<close> by (cases r; cases ans) (simp_all add: reconcile_def one)
    then show ?thesis using d1 by simp
  next
    case True
    then obtain cur out where r: "r = Inr cur" and ans: "ans = Inr out" by blast
    note run = reconcile_def one r ans \<open>strip m \<noteq> []\<close> read_clock_eq [of d1]
    let ?d2 = "d1\<lparr>db_env := snd (clock_now (db_env d1))\<rparr>"
    have w2: "?W d1 ?d2" by (rule env_writes [OF ok1]) simp
    have ok2: "effect_ok ?d2" using effect_write_ok [OF w2] by simp
    note d2 = rtranclp.rtrancl_into_rtrancl [OF d1 w2]
    consider "\<not> ro_verified out" | "ro_verified out" "ro_present out" | "ro_verified out" "\<not> ro_present out" by blast
    then show ?thesis
    proof cases
      case 1
      then have "snd (reconcile k m ans d) = snd (escalate_undeterminable cur m (ro_detail out) d1 :: reconciliation_result result \<times> 'x effect_db_scheme)"
        by (simp add: run)
      then show ?thesis using rtranclp.rtrancl_into_rtrancl [OF d1 escalate_writes [OF ok1]] by simp
    next
      case 2
      let ?x = "\<lambda>x. let y = x\<lparr>xe_confirmed_at := Some (fst (clock_now (db_env d1)))\<rparr> in
        if xe_reference cur = None \<and> ro_detail out \<noteq> [] then y\<lparr>xe_reference := Some (take 512 (ro_detail out))\<rparr> else y"
      have "snd (reconcile k m ans d) = snd (transact (with_effect k (\<lambda>live.
          and_then (transition_effect live ''RECONCILED'' ''ExternalEffectReconciled'' (?pl out) ?x)
            (\<lambda>e. Pair (Inr (?g out e))))) ?d2)"
        by (simp add: run 2)
      moreover have "?W ?d2 \<dots>" by (rule reconciled_writes [OF ok2]) (rule disjI2, rule refl)
      ultimately show ?thesis using rtranclp.rtrancl_into_rtrancl [OF d2] by simp
    next
      case 3
      have "snd (reconcile k m ans d) = snd (transact (with_effect k (\<lambda>live.
          and_then (transition_effect live ''RECONCILED'' ''ExternalEffectReconciled'' (?pl out) id)
            (\<lambda>e. Pair (Inr (?g out e))))) d1)"
        by (simp add: run 3)
      moreover have "?W d1 \<dots>" by (rule reconciled_writes [OF ok1]) (simp add: ans 3)
      ultimately show ?thesis using rtranclp.rtrancl_into_rtrancl [OF d1] by simp
    qed
  qed
qed (simp add: reconcile_def)

section \<open>Preparing\<close>

text \<open>What is dumped validates back, so a stored result names its row.\<close>

lemma effect_validate_dump:
  assumes "xe_class e \<in> set SIDE_EFFECT_CLASSES" and "xe_status e \<in> set (dict_keys EXTERNAL_EFFECT_TRANSITIONS)"
  shows "effect_validate (effect_dump e) = Some e"
proof -
  have "get_optional (effect_dump e) ''external_reference'' = Some (xe_reference e)"
    "get_optional (effect_dump e) ''response_hash'' = Some (xe_response_hash e)"
    "get_optional (effect_dump e) ''reconciliation_method'' = Some (xe_method e)"
    by (rule get_optional_json_opt, simp add: effect_dump_def)+
  moreover have "get_when (effect_dump e) ''confirmed_at'' = Some (xe_confirmed_at e)"
    by (cases "xe_confirmed_at e") (simp_all add: get_when_def json_when_def effect_dump_def)
  moreover have "list_all (\<lambda>k. k \<in> set effect_fields) (dict_keys (effect_dump e))"
    by (simp add: effect_dump_def effect_fields_def)
  ultimately show ?thesis
    using assms by (simp add: effect_validate_def) (simp add: get_str_def get_int_def effect_dump_def)
qed

text \<open>A completed command whose stored result names an effect.\<close>

definition answers :: "command_idempotency \<Rightarrow> uuid \<Rightarrow> bool" where
  "answers c k \<longleftrightarrow> ci_status c = ''completed'' \<and>
    (\<exists>payload p. ci_result c = Some (JObj payload) \<and> effect_validate payload = Some p \<and> xe_id p = k)"

lemma replay_answers: "answers c k \<Longrightarrow> dict_get (effects d) k = Some e \<Longrightarrow> replay_or_raise c d = Inr e"
  by (auto simp: answers_def replay_or_raise_def)

lemma replay_Inr:
  assumes "keyed xe_id (effects d)" and "replay_or_raise c d = Inr e"
  shows "answers c (xe_id e)" and "dict_get (effects d) (xe_id e) = Some e"
proof -
  have "\<exists>k. answers c k \<and> dict_get (effects d) k = Some e"
    using assms(2) by (auto simp: answers_def replay_or_raise_def split: if_splits option.splits json.splits)
  then show "answers c (xe_id e)" and "dict_get (effects d) (xe_id e) = Some e"
    using keyed_get [OF assms(1)] by blast+
qed

lemma journaled_answers:
  assumes "journaled s e"
  obtains c where "dict_get (es_commands s) (command_key e) = Some c" "answers c (xe_id e)" "ci_request_hash c = xe_request_hash e"
proof -
  obtain c p where c: "dict_get (es_commands s) (command_key e) = Some c" "ci_request_hash c = xe_request_hash e"
    and p: "ci_status c = ''completed''" "ci_result c = Some (JObj (effect_dump p))" "xe_id p = xe_id e"
      "xe_class p \<in> set SIDE_EFFECT_CLASSES" "xe_status p = ''PREPARED''"
    using assms by (auto simp: journaled_def)
  have "effect_validate (effect_dump p) = Some p"
    using p(4,5) by (intro effect_validate_dump) (simp_all add: EXTERNAL_EFFECT_TRANSITIONS_def)
  then show thesis using c p that by (auto simp: answers_def)
qed

lemma prepared_effect_simps [simp]:
  "xe_id (prepared_effect a i c t) = i" "scope_of (prepared_effect a i c t) = pa_scope a"
  "xe_tenant (prepared_effect a i c t) = sc_tenant (pa_scope a)" "xe_key (prepared_effect a i c t) = pa_key a"
  "xe_class (prepared_effect a i c t) = pa_class a" "xe_status (prepared_effect a i c t) = ''PREPARED''"
  "xe_request_hash (prepared_effect a i c t) = prepare_digest a"
  by (simp_all add: prepared_effect_def scope_of_def)

lemma write_prepared_ok:
  assumes ok: "effect_ok d" and c: "dict_get (es_commands (db_log d)) (sc_tenant (pa_scope a), pa_key a) = Some c"
      "ci_status c = ''in_progress''" "ci_request_hash c = prepare_digest a" and cls: "pa_class a \<in> set SIDE_EFFECT_CLASSES"
  obtains e d' where "write_prepared a (ci_command c) d = (Inr e, d')" "effects d' = effects d @ [(xe_id e, e)]"
      "xe_id e \<notin> set (dict_keys (effects d))" "\<exists>now. e = prepared_effect a (xe_id e) (ci_command c) now"
      "effect_ok d'" "ledger_le (db_log d) (db_log d')" "journal_frame d d'"
proof -
  let ?now = "fst (clock_now (db_env d))" and ?e1 = "snd (clock_now (db_env d))"
  let ?i = "fst (uuid7 ?e1)" and ?e2 = "snd (uuid7 ?e1)"
  let ?e = "prepared_effect a ?i (ci_command c) ?now"
  let ?d1 = "d\<lparr>db_env := ?e2, effects := dict_set ?i ?e (effects d)\<rparr>"
  have i: "?i \<notin> drawn_ids (db_env d)" "?i \<in> drawn_ids ?e2"
    using log_ok_draw(2,3) [OF log_ok_clock [OF effect_okD(1) [OF ok]]] by simp_all
  have new: "?i \<notin> set (dict_keys (effects d))" using i(1) effect_okD(3) [OF ok] by blast
  have log1: "log_ok ?d1" by (rule log_ok_env [OF effect_okD(1) [OF ok]]) simp_all
  obtain ev s2 en2 where ap: "append_event (effect_event ''ExternalEffectPrepared'' ?e
          [(''target_system'', JStr (xe_system ?e)), (''target_resource'', JStr (xe_resource ?e)),
           (''operation'', JStr (xe_operation ?e)), (''side_effect_class'', JStr (xe_class ?e))]) ?d1
        = (Inr ev, ?d1\<lparr>db_log := s2, db_env := en2\<rparr>)"
      "log_ok (?d1\<lparr>db_log := s2, db_env := en2\<rparr>)" "env_le (db_env ?d1) en2" "es_commands s2 = es_commands (db_log ?d1)"
    by (rule append_event_ok [OF log1])
  let ?d2 = "?d1\<lparr>db_log := s2, db_env := en2\<rparr>"
  have c2: "dict_get (es_commands (db_log ?d2)) (sc_tenant (pa_scope a), pa_key a) = Some c" using c(1) ap(4) by simp
  obtain c' s3 en3 where co: "complete_command (ci_command c) (JObj (effect_dump ?e)) ?d2 = (Inr c', ?d2\<lparr>db_log := s3, db_env := en3\<rparr>)"
      "log_ok (?d2\<lparr>db_log := s3, db_env := en3\<rparr>)" "env_le (db_env ?d2) en3"
      and get3: "\<forall>k. dict_get (es_commands s3) k = map_option (\<lambda>x. if ci_command x = ci_command c
        then x\<lparr>ci_status := ''completed'', ci_result := Some (JObj (effect_dump ?e)), ci_updated_at := fst (clock_now (db_env ?d2))\<rparr> else x)
        (dict_get (es_commands (db_log ?d2)) k)"
    by (rule complete_command_ok [OF ap(2) dict_get_value [OF c2]])
  let ?d3 = "d\<lparr>db_log := s3, db_env := en3\<rparr>"
  have les: "env_le (db_env d) ?e2" "env_le ?e2 en2" "env_le en2 en3" using ap(3) co(3) by simp_all
  have le: "env_le (db_env d) en3" "env_le ?e2 en3"
    by (rule env_le_trans [OF les(1) env_le_trans [OF les(2,3)]], rule env_le_trans [OF les(2,3)])
  have lle: "ledger_le (db_log d) s3"
    unfolding ledger_le_def
  proof (intro allI impI)
    fix k x assume x: "dict_get (es_commands (db_log d)) k = Some x" "ci_status x = ''completed''"
    then have "ci_command x \<noteq> ci_command c" using same_command [OF effect_okD(1) [OF ok] x(1) c(1)] c(2) by auto
    then show "dict_get (es_commands s3) k = Some x" using spec [OF get3, of k] x(1) ap(4) by simp
  qed
  have ok3: "effect_ok ?d3"
    by (rule effect_ok_log [OF ok _ le(1) lle]) (rule log_ok_env [OF co(2)], simp_all)
  have row: "dict_get (es_commands (db_log ?d3)) (command_key ?e) = Some (c\<lparr>ci_status := ''completed'',
      ci_result := Some (JObj (effect_dump ?e)), ci_updated_at := fst (clock_now (db_env ?d2))\<rparr>)"
    using spec [OF get3, of "(sc_tenant (pa_scope a), pa_key a)"] c(1) ap(4) by simp
  have jr: "journaled (db_log ?d3) ?e" by (rule journaledI [OF row]) (use c(3) cls in simp_all)
  have "effect_ok (?d3\<lparr>effects := dict_set ?i ?e (effects ?d3)\<rparr>)"
    by (rule effect_ok_set [OF ok3 _ _ jr]) (use env_le_drawn [OF le(2)] i(2) in auto)
  moreover have "write_prepared a (ci_command c) d = (Inr ?e, ?d3\<lparr>effects := dict_set ?i ?e (effects ?d3)\<rparr>)"
    using ap(1) co(1) new
    by (simp add: write_prepared_def read_clock_eq draw_id_eq insert_effect_def table_insert_new and_then_def)
  ultimately show thesis using new le(1) lle
    by (intro that [of ?e "?d3\<lparr>effects := dict_set ?i ?e (effects ?d3)\<rparr>"]) (auto simp: dict_set_new journal_frame_def)
qed

text \<open>The approval gate and the scope gate read only.\<close>

lemma approval_gate_read:
  obtains r e where "approval_gate a d = (r, d\<lparr>db_env := e\<rparr>)" "env_le (db_env d) e"
proof -
  let ?e = "snd (clock_now (db_env d))"
  have "snd (require_approved sh ty d) = d\<lparr>db_env := ?e\<rparr>" for sh ty
    by (simp add: require_approved_def read_clock_eq Let_def split: option.split)
  then have "snd (approval_gate a d) \<in> {d, d\<lparr>db_env := ?e\<rparr>}"
    by (auto simp: approval_gate_def and_then_return split: option.splits)
  then have "\<exists>e. snd (approval_gate a d) = d\<lparr>db_env := e\<rparr> \<and> env_le (db_env d) e"
    by (auto intro: exI [of _ "db_env d"] exI [of _ ?e])
  then show thesis using that by (metis prod.collapse)
qed

text \<open>An IRREVERSIBLE effect is let through on an APPROVED approval of that class, bound to the scope it names.\<close>

definition backed :: "prepare_args \<Rightarrow> 'x governance_db_scheme \<Rightarrow> bool" where
  "backed a d \<longleftrightarrow> (pa_class a = ''IRREVERSIBLE'' \<longrightarrow> (\<exists>x \<in> set (dict_values (approvals d)). ap_type x = ''irreversible_effect''
    \<and> ap_status x = ''APPROVED'' \<and> pa_approval a = Some (ap_scope_hash x)))"

lemma get_approved_found:
  assumes "get_approved_by_scope_hash h ty d = Some x"
  shows "x \<in> set (dict_values (approvals d))" "ap_type x = ty" "ap_status x = ''APPROVED''" "ap_scope_hash x = h"
proof -
  let ?rows = "filter (\<lambda>a. ap_scope_hash a = h \<and> ap_type a = ty \<and> ap_status a = ''APPROVED'') (dict_values (approvals d))"
  obtain xs where "sort_key (\<lambda>a. - ap_created_at a) ?rows = x # xs"
    using assms unfolding get_approved_by_scope_hash_def by (auto split: list.splits)
  then have "x \<in> set (sort_key (\<lambda>a. - ap_created_at a) ?rows)" by (simp only: list.set_intros)
  then show "x \<in> set (dict_values (approvals d))" "ap_type x = ty" "ap_status x = ''APPROVED''" "ap_scope_hash x = h"
    by simp_all
qed

lemma approval_gate_backed:
  assumes "fst (approval_gate a d) = Inr ()"
  shows "backed a d"
  unfolding backed_def
proof
  assume irr: "pa_class a = ''IRREVERSIBLE''"
  obtain h where h: "pa_approval a = Some h" using assms irr by (cases "pa_approval a") (simp_all add: approval_gate_def)
  have "\<exists>x. fst (require_approved h ''irreversible_effect'' d) = Inr x"
    using assms irr h by (auto simp: approval_gate_def and_then_return split: sum.splits)
  then obtain x where "get_approved_by_scope_hash h ''irreversible_effect'' d = Some x"
    by (auto simp: require_approved_def read_clock_eq split: option.splits)
  from get_approved_found [OF this] h
  show "\<exists>x \<in> set (dict_values (approvals d)). ap_type x = ''irreversible_effect'' \<and> ap_status x = ''APPROVED''
      \<and> pa_approval a = Some (ap_scope_hash x)" by auto
qed

lemma blocking_env [simp]: "list_blocking_for_scope sc (d\<lparr>db_log := s\<rparr>) = list_blocking_for_scope sc d"
    "list_blocking_for_scope sc (d\<lparr>db_env := e\<rparr>) = list_blocking_for_scope sc d"
  by (simp_all add: list_blocking_for_scope_def)

lemma refuse_if_blocked_cases:
  "list_blocking_for_scope sc d = [] \<Longrightarrow> refuse_if_blocked sc d = (Inr (), d)"
  "list_blocking_for_scope sc d \<noteq> [] \<Longrightarrow> \<exists>msg ds. refuse_if_blocked sc d = (Inl (DdeError ''EFFECT_CONFLICT'' msg False ds), d)"
  by (auto simp: refuse_if_blocked_def split: list.splits)

definition admitted :: "prepare_args \<Rightarrow> bool" where
  "admitted a \<longleftrightarrow> pa_class a \<in> set SIDE_EFFECT_CLASSES \<and> \<not> (pa_class a = ''IRREVERSIBLE'' \<and> pa_approval a = None)"

abbreviation begin_prepare :: "prepare_args \<Rightarrow> 'x effect_db_scheme \<Rightarrow> (command_idempotency \<times> bool) result \<times> 'x effect_db_scheme" where
  "begin_prepare a \<equiv> begin_command (sc_tenant (pa_scope a)) (sc_project (pa_scope a)) (pa_key a) (prepare_digest a)"

lemma prepare_admitted:
  "admitted a \<Longrightarrow> prepare a d = transact (and_then (begin_prepare a) (\<lambda>(c, is_new).
    if \<not> is_new then (\<lambda>d1. (replay_or_raise c d1, d1))
    else and_then (approval_gate a) (\<lambda>_. and_then (refuse_if_blocked (pa_scope a)) (\<lambda>_. write_prepared a (ci_command c))))) d"
  by (auto simp: prepare_def prepare_in_def admitted_def transact_def)

lemma prepare_not_admitted: "\<not> admitted a \<Longrightarrow> \<exists>err. prepare a d = (Inl err, d)"
  by (auto simp: prepare_def prepare_in_def admitted_def transact_def)

lemma prepare_cases:
  assumes ok: "effect_ok d"
  obtains (refused) err en where "prepare a d = (Inl err, d\<lparr>db_env := en\<rparr>)" "env_le (db_env d) en"
  | (replayed) c e en where "prepare a d = (Inr e, d\<lparr>db_env := en\<rparr>)" "env_le (db_env d) en"
      "dict_get (es_commands (db_log d)) (sc_tenant (pa_scope a), pa_key a) = Some c" "dict_get (effects d) (xe_id e) = Some e"
      "answers c (xe_id e)" "ci_request_hash c = prepare_digest a" "admitted a"
  | (filed) e d' where "prepare a d = (Inr e, d')" "effects d' = effects d @ [(xe_id e, e)]" "xe_id e \<notin> set (dict_keys (effects d))"
      "scope_of e = pa_scope a" "xe_key e = pa_key a" "xe_status e = ''PREPARED''" "xe_request_hash e = prepare_digest a" "admitted a"
      "(sc_tenant (pa_scope a), pa_key a) \<notin> set (dict_keys (es_commands (db_log d)))" "list_blocking_for_scope (pa_scope a) d = []"
      "effect_ok d'" "ledger_le (db_log d) (db_log d')" "xe_class e = pa_class a" "backed a d" "journal_frame d d'"
proof (cases "admitted a")
  case False
  then have "\<exists>err. prepare a d = (Inl err, d\<lparr>db_env := db_env d\<rparr>)" by (simp add: prepare_not_admitted)
  then show thesis using refused env_le_refl by blast
next
  case True
  let ?t = "sc_tenant (pa_scope a)" and ?k = "pa_key a"
  note run = prepare_admitted [OF True]
  from effect_okD(1) [OF ok] show thesis
  proof (cases rule: begin_command_cases [of d ?t "sc_project (pa_scope a)" ?k "prepare_digest a"])
    case (old r c en)
    from old(4) show thesis
    proof
      assume r: "r = Inr (c, False) \<and> ci_request_hash c = prepare_digest a"
      let ?d1 = "d\<lparr>db_env := en\<rparr>"
      have eq: "prepare a d = (replay_or_raise c ?d1, ?d1)"
        using r old(1) by (simp add: run transact_def and_then_def split: sum.split)
      show thesis
      proof (cases "replay_or_raise c ?d1")
        case (Inl err)
        then show thesis using refused eq old(3) by simp
      next
        case (Inr e)
        have "keyed xe_id (effects ?d1)" using effect_okD(2) [OF ok] by simp
        from replay_Inr [OF this Inr] show thesis using Inr eq r old(2,3) True by (intro replayed [of e en c]) simp_all
      qed
    next
      assume "\<exists>err. r = Inl err"
      then show thesis using refused [of _ en] old(1,3) by (auto simp: run transact_def and_then_def)
    qed
  next
    case (new c s en)
    let ?d1 = "d\<lparr>db_log := s, db_env := en\<rparr>"
    have get: "dict_get (es_commands s) (?t, ?k) = Some c" using new(2,5) by (simp add: map_of_append map_add_Some_iff dict_get_None)
    have le: "ledger_le (db_log d) s" using new(2,5) by (auto simp: ledger_le_def map_add_Some_iff dest: dict_get_key)
    have ok1: "effect_ok ?d1" by (rule effect_ok_log [OF ok new(3,4) le])
    obtain r en2 where g: "approval_gate a ?d1 = (r, ?d1\<lparr>db_env := en2\<rparr>)" "env_le (db_env ?d1) en2" by (rule approval_gate_read)
    let ?d2 = "?d1\<lparr>db_env := en2\<rparr>"
    have ok2: "effect_ok ?d2" by (rule effect_ok_env [OF ok1 g(2)])
    have le2: "env_le (db_env d) en2" using env_le_trans [OF new(4)] g(2) by simp
    show thesis
    proof (cases "r = Inr () \<and> list_blocking_for_scope (pa_scope a) d = []")
      case False
      then have "\<exists>err. prepare a d = (Inl err, d\<lparr>db_env := en2\<rparr>)"
        using new(1) g(1) refuse_if_blocked_cases(2) [of "pa_scope a" ?d2]
        by (cases r) (auto simp: run transact_def and_then_def)
      then show thesis using refused le2 by blast
    next
      case True
      obtain e d' where w: "write_prepared a (ci_command c) ?d2 = (Inr e, d')" "effects d' = effects ?d2 @ [(xe_id e, e)]"
          "xe_id e \<notin> set (dict_keys (effects ?d2))" "\<exists>now. e = prepared_effect a (xe_id e) (ci_command c) now"
          "effect_ok d'" "ledger_le (db_log ?d2) (db_log d')" "journal_frame ?d2 d'"
        by (rule write_prepared_ok [OF ok2, of a c]) (use get new(9,10) \<open>admitted a\<close> in \<open>auto simp: admitted_def\<close>)
      obtain now where e: "e = prepared_effect a (xe_id e) (ci_command c) now" using w(4) by blast
      have "ledger_le (db_log d) (db_log d')" using le w(6) by (simp add: ledger_le_def)
      moreover have "backed a d" using approval_gate_backed [of a ?d1] g(1) True by (simp add: backed_def)
      moreover have "xe_class e = pa_class a" by (subst e) simp
      moreover have "journal_frame d d'" using journal_frame_trans [OF _ w(7)] le2 by (simp add: journal_frame_def)
      ultimately show thesis using w True new(1,2) g(1) \<open>admitted a\<close> arg_cong [OF e, of scope_of] arg_cong [OF e, of xe_key]
          arg_cong [OF e, of xe_status] arg_cong [OF e, of xe_request_hash]
        by (intro filed [of e d']) (simp_all add: run transact_def and_then_def refuse_if_blocked_cases(1))
    qed
  qed
qed

lemma prepare_writes:
  assumes ok: "effect_ok d"
  shows "effect_write A d (snd (prepare a d))"
  using ok
proof (cases rule: prepare_cases [of d a])
  case (filed e d')
  then have "command_key e = (sc_tenant (pa_scope a), pa_key a)" by (simp add: scope_of_def flip: filed(4))
  with filed show ?thesis by (auto simp: backed_def list_ex_iff simp del: set_map intro!: effect_write.Filed [of _ d e])
qed (use env_writes [OF ok] in auto)

section \<open>Sequences\<close>

lemma effect_step_writes:
  assumes "effect_ok d"
  shows "(effect_write (released op))\<^sup>*\<^sup>* d (effect_step op d)"
proof (cases op)
  case (Reconcile k m ans)
  then show ?thesis using reconcile_writes [OF assms] by (simp del: released.simps)
qed (use prepare_writes [OF assms] mark_writes [OF assms] in \<open>simp_all add: r_into_rtranclp\<close>)

interpretation effect_service: service effect_step effect_ok "\<lambda>op. effect_write (released op)"
  by unfold_locales (rule effect_step_writes, assumption, use effect_write_ok in blast)

text \<open>An effect whose outcome is open, or that was found to be present.\<close>

definition held :: "external_effect \<Rightarrow> bool" where
  "held e \<longleftrightarrow> xe_status e \<in> {''UNKNOWN'', ''RECONCILING''} \<or> xe_status e = ''RECONCILED'' \<and> xe_confirmed_at e \<noteq> None"

definition scope_ids :: "effect_scope \<Rightarrow> 'x effect_db_scheme \<Rightarrow> uuid list" where
  "scope_ids sc d = map xe_id (filter (\<lambda>e. scope_of e = sc) (dict_values (effects d)))"

lemma held_blocks: "held e \<Longrightarrow> blocks e"
  by (auto simp: held_def blocks_def BLOCKING_STATUSES_def)

lemma blocked_scope:
  assumes "dict_get (effects d) k = Some e" and "held e"
  shows "list_blocking_for_scope (scope_of e) d \<noteq> []"
proof -
  have "e \<in> set (list_blocking_for_scope (scope_of e) d)"
    using assms held_blocks dict_get_value [OF assms(1)] by (simp add: list_blocking_for_scope_def)
  then show ?thesis by force
qed

lemma held_moves:
  assumes "held e" and "same_core e e'" and "xe_status e' \<in> set (succs EXTERNAL_EFFECT_TRANSITIONS (xe_status e))"
    and "xe_status e' = ''RECONCILED'' \<longrightarrow> xe_confirmed_at e' \<noteq> None"
  shows "held e'"
  using assms by (auto simp: held_def EXTERNAL_EFFECT_TRANSITIONS_def succs_def)

lemma scope_ids_update:
  assumes "effect_ok d" and "dict_get (effects d) k = Some e" and "same_core e e'" and "effects d' = dict_set k e' (effects d)"
  shows "scope_ids sc d' = scope_ids sc d"
  unfolding scope_ids_def assms(4)
  by (rule keyed_filter_same [OF effect_okD(2) [OF assms(1)] assms(2)]) (use assms(3) in \<open>simp_all add: same_core_def\<close>)

lemma write_held:
  assumes w: "effect_write A d d'" and ok: "effect_ok d" and e: "dict_get (effects d) k = Some e" "held e" and k: "k \<notin> A"
  shows "(\<exists>e'. dict_get (effects d') k = Some e' \<and> held e' \<and> scope_of e' = scope_of e) \<and> scope_ids (scope_of e) d' = scope_ids (scope_of e) d"
  using w
proof (cases rule: effect_write.cases)
  case Quiet
  then show ?thesis using e by (simp add: scope_ids_def)
next
  case (Filed n)
  have "scope_of n \<noteq> scope_of e" using blocked_scope [OF e] Filed(5) by metis
  then show ?thesis using Filed(1) e by (simp add: scope_ids_def)
next
  case (Moved k' x x')
  note scope = scope_ids_update [OF ok Moved(1-3), of "scope_of e"]
  show ?thesis
  proof (cases "k' = k")
    case True
    have "held x'" using held_moves [OF _ Moved(2,4)] Moved(1,5) e k True by simp
    then show ?thesis using Moved True e scope by (simp add: dict_get_set same_core_def)
  next
    case False
    then show ?thesis using Moved(3) e scope by (simp add: dict_get_set)
  qed
qed

text \<open>Rows and completed commands are never lost.\<close>

lemma write_keeps_row:
  assumes "effect_write A d d'" and "dict_get (effects d) k = Some e"
  shows "\<exists>e'. dict_get (effects d') k = Some e' \<and> same_core e e'"
  using assms by (cases rule: effect_write.cases) (auto simp: dict_get_set)

lemma answered_forever:
  assumes "effect_ok d" and "dict_get (es_commands (db_log d)) key = Some c" and "answers c k" and "dict_get (effects d) k = Some e"
  shows "dict_get (es_commands (db_log (effect_run ops d))) key = Some c
    \<and> (\<exists>e'. dict_get (effects (effect_run ops d)) k = Some e' \<and> same_core e e')"
proof -
  let ?P = "\<lambda>d'. dict_get (es_commands (db_log d')) key = Some c \<and> (\<exists>e'. dict_get (effects d') k = Some e' \<and> same_core e e')"
  have "effect_ok (effect_run ops d) \<and> ?P (effect_run ops d)"
    unfolding effect_run_def
  proof (rule effect_service.run_keeps [OF assms(1), of ?P])
    fix op x y assume w: "effect_write (released op) x y" and P: "?P x"
    have "dict_get (es_commands (db_log y)) key = Some c"
      using effect_write_ok [OF w] P assms(3) unfolding ledger_le_def answers_def by blast
    then show "?P y" using P write_keeps_row [OF w] same_core_trans by blast
  qed (use assms in auto)
  then show ?thesis by blast
qed

lemma prepare_again:
  assumes "admitted a" and "dict_get (es_commands (db_log d)) (sc_tenant (pa_scope a), pa_key a) = Some c"
    and "ci_request_hash c = prepare_digest a" and "answers c k" and "dict_get (effects d) k = Some e"
  shows "prepare a d = (if ci_expires_at c \<le> fst (clock_now (db_env d))
      then Inl (DdeError ''VERSION_CONFLICT'' ''Idempotency key expired; refusing a mutation that could duplicate'' False
        [(''idempotency_key'', JStr (pa_key a))]) else Inr e, d\<lparr>db_env := snd (uuid7 (snd (clock_now (db_env d))))\<rparr>)"
proof -
  let ?d1 = "d\<lparr>db_env := snd (uuid7 (snd (clock_now (db_env d))))\<rparr>"
  have get: "dict_get (effects ?d1) k = Some e" using assms(5) by simp
  show ?thesis
    using assms(2,3) dict_get_key [OF assms(2)] replay_answers [OF assms(4) get]
    by (simp add: prepare_admitted [OF assms(1)] transact_def and_then_def begin_command_def read_clock_eq draw_id_eq
        ledger_begin_def insert_if_absent_def)
qed

lemma prepare_answered:
  assumes "effect_ok d" and "prepare a d = (Inr e, d')"
  obtains c where "effect_ok d'" "admitted a" "dict_get (es_commands (db_log d')) (sc_tenant (pa_scope a), pa_key a) = Some c"
    "ci_request_hash c = prepare_digest a" "answers c (xe_id e)" "dict_get (effects d') (xe_id e) = Some e"
  using assms(1)
proof (cases rule: prepare_cases [of d a])
  case (replayed c e' en)
  then show thesis using assms that [of c] effect_ok_env [OF assms(1) replayed(2)] by simp
next
  case (filed e' d'')
  have e: "e' = e" "d'' = d'" using filed(1) assms(2) by simp_all
  have row: "dict_get (effects d') (xe_id e) = Some e"
    using filed(2,3) dict_get_None [of "effects d" "xe_id e"] unfolding e by (simp add: map_add_def)
  have key: "command_key e = (sc_tenant (pa_scope a), pa_key a)" using filed(4,5) e by (simp add: scope_of_def flip: filed(4))
  obtain c where "dict_get (es_commands (db_log d')) (command_key e) = Some c" "answers c (xe_id e)" "ci_request_hash c = xe_request_hash e"
    by (rule journaled_answers [OF effect_okD(4) [OF filed(11) [unfolded e] dict_get_value [OF row]]])
  then show thesis using filed(7,8,11) row unfolding key e by (intro that [of c]) simp_all
qed (use assms(2) in simp)

section \<open>Reconciliation settles\<close>

lemma transact_move_ok:
  assumes ok: "effect_ok d" and e: "dict_get (effects d) k = Some e"
    and st: "st \<in> set (succs EXTERNAL_EFFECT_TRANSITIONS (xe_status e))" and extra: "\<And>x. same_core x (extra x)"
  obtains now e' d' where "transact (with_effect k (\<lambda>e. transition_effect e st ty pl extra)) d = (Inr e', d')"
      "e' = extra (e\<lparr>xe_status := st, xe_updated_at := now\<rparr>)" "effects d' = dict_set k e' (effects d)" "effect_ok d'"
proof -
  have id: "xe_id e = k" by (rule keyed_get [OF effect_okD(2) [OF ok] e])
  have "dict_get (effects d) (xe_id e) = Some e" by (simp add: id e)
  from ok this extra show thesis
    by (cases rule: transition_effect_cases [where st = st and ty = ty and pl = pl])
      (use st id e that in \<open>auto simp: transact_def with_effect_def require_effect_def\<close>)
qed

lemma EXTERNAL_EFFECT_succs:
  "''RECONCILING'' \<in> set (succs EXTERNAL_EFFECT_TRANSITIONS ''UNKNOWN'')"
  "''RECONCILED'' \<in> set (succs EXTERNAL_EFFECT_TRANSITIONS ''RECONCILING'')"
  by (simp_all add: EXTERNAL_EFFECT_TRANSITIONS_def succs_def)

lemma enter_reconciling_ok:
  assumes ok: "effect_ok d" and e: "dict_get (effects d) k = Some e" "xe_status e \<in> {''UNKNOWN'', ''RECONCILING''}"
  obtains cur d' where "transact (enter_reconciling k m) d = (Inr cur, d')" "effect_ok d'" "dict_get (effects d') k = Some cur"
    "xe_status cur = ''RECONCILING''" "xe_confirmed_at cur = xe_confirmed_at e" "scope_of cur = scope_of e"
proof (cases "xe_status e = ''UNKNOWN''")
  case True
  let ?x = "\<lambda>x. x\<lparr>xe_method := Some m\<rparr>"
  obtain now e' d' where w: "transact (with_effect k (\<lambda>e. transition_effect e ''RECONCILING'' ''ExternalEffectReconciling''
        [(''method'', JStr m)] ?x)) d = (Inr e', d')"
      "e' = ?x (e\<lparr>xe_status := ''RECONCILING'', xe_updated_at := now\<rparr>)" "effects d' = dict_set k e' (effects d)" "effect_ok d'"
    by (rule transact_move_ok [OF ok e(1), of "''RECONCILING''" ?x]) (simp_all add: True EXTERNAL_EFFECT_succs)
  have "transact (enter_reconciling k m) d = (Inr e', d')"
    using w(1) True e(1) by (simp add: enter_reconciling_def transact_def with_effect_def require_effect_def)
  then show thesis using w by (intro that [of e' d']) (simp_all add: dict_get_set scope_of_def)
next
  case False
  then show thesis using e ok
    by (intro that [of e d]) (simp_all add: enter_reconciling_def transact_def with_effect_def require_effect_def)
qed

lemma transact_return_Inr:
  assumes "transact (with_effect k m) d = (Inr x, d')"
  shows "transact (with_effect k (\<lambda>e. and_then (m e) (\<lambda>x. Pair (Inr (g x))))) d = (Inr (g x), d')"
  using assms by (cases "dict_get (effects d) k")
    (auto simp: transact_def with_effect_def require_effect_def and_then_def split: sum.splits prod.splits)

section \<open>Properties\<close>

text \<open>
  C26. The recovery rule. Take an effect whose outcome is unknown or being reconciled, or that was found
  present. Whatever calls follow, as long as none of them verifies the absence of this effect, it stays in
  that condition, no further effect of its mission, system, resource and operation is filed, and asking for
  a clear scope is answered with EFFECT_CONFLICT.
\<close>

theorem unknown_effect_blocks:
  assumes ok: "effect_ok d" and e: "dict_get (effects d) k = Some e" "held e" and ops: "\<forall>op \<in> set ops. k \<notin> released op"
  shows "(\<exists>e'. dict_get (effects (effect_run ops d)) k = Some e' \<and> held e' \<and> scope_of e' = scope_of e)
    \<and> scope_ids (scope_of e) (effect_run ops d) = scope_ids (scope_of e) d
    \<and> (\<exists>msg ds. fst (assert_clear_to_mutate (scope_of e) (effect_run ops d)) = Inl (DdeError ''EFFECT_CONFLICT'' msg False ds))"
proof -
  let ?P = "\<lambda>d'. (\<exists>e'. dict_get (effects d') k = Some e' \<and> held e' \<and> scope_of e' = scope_of e)
    \<and> scope_ids (scope_of e) d' = scope_ids (scope_of e) d"
  have P: "effect_ok (effect_run ops d) \<and> ?P (effect_run ops d)"
    unfolding effect_run_def
  proof (rule effect_service.run_keeps [OF ok, of ?P])
    fix op x y assume "op \<in> set ops" "effect_write (released op) x y" "effect_ok x" "?P x"
    then show "?P y" using write_held ops by metis
  qed (use e in auto)
  then obtain e' where e': "dict_get (effects (effect_run ops d)) k = Some e'" "held e'" "scope_of e' = scope_of e" by blast
  have "\<exists>msg ds. fst (assert_clear_to_mutate (scope_of e) (effect_run ops d)) = Inl (DdeError ''EFFECT_CONFLICT'' msg False ds)"
    using refuse_if_blocked_cases(2) [OF blocked_scope [OF e'(1,2)]] e'(3)
    by (auto simp: assert_clear_to_mutate_def transact_def)
  with P show ?thesis by blast
qed

text \<open>One effect whose outcome is unknown, with the command that prepared it.\<close>

definition open_request :: prepare_args where
  "open_request = \<lparr>pa_scope = \<lparr>sc_tenant = ''t'', sc_project = ''p'', sc_mission = ''m'', sc_system = ''git'',
     sc_resource = ''refs/heads/main'', sc_operation = ''push''\<rparr>, pa_worker_run = ''w'', pa_lease = ''l'',
     pa_class = ''EXTERNAL_NON_IDEMPOTENT'', pa_key = ''push-1'', pa_evidence = None, pa_approval = None\<rparr>"

definition open_effect :: external_effect where
  "open_effect = (prepared_effect open_request ''ii'' ''i'' 3)\<lparr>xe_status := ''UNKNOWN''\<rparr>"

definition open_db :: effect_db where
  "open_db = \<lparr>db_log = empty_event_store\<lparr>es_commands := [((''t'', ''push-1''),
       \<lparr>ci_command = ''i'', ci_tenant = ''t'', ci_project = ''p'', ci_key = ''push-1'',
        ci_request_hash = prepare_digest open_request, ci_status = ''completed'',
        ci_result = Some (JObj (effect_dump (prepared_effect open_request ''ii'' ''i'' 3))), ci_expires_at = 1000,
        ci_created_at = 2, ci_updated_at = 4\<rparr>)]\<rparr>,
     db_env = \<lparr>ids = (\<lambda>n. replicate n (CHR ''i'')), drawn = 5, clock = int, ticks = 5\<rparr>,
     approvals = [], standings = [], attentions = [], audits = [], effects = [(''ii'', open_effect)]\<rparr>"

lemma open_effect_simps [simp]:
  "xe_id open_effect = ''ii''" "xe_status open_effect = ''UNKNOWN''" "xe_tenant open_effect = ''t''" "xe_key open_effect = ''push-1''"
  "xe_confirmed_at open_effect = None" "held open_effect" "xe_request_hash open_effect = prepare_digest open_request"
  by (simp_all add: open_effect_def open_request_def prepared_effect_def held_def)

lemma open_db_simps [simp]:
  "dict_get (effects open_db) ''ii'' = Some open_effect" "effects open_db = [(''ii'', open_effect)]" "db_env open_db = \<lparr>ids = (\<lambda>n. replicate n (CHR ''i'')), drawn = 5, clock = int, ticks = 5\<rparr>"
  by (simp_all add: open_db_def)

lemma open_db_ok: "effect_ok open_db"
proof -
  have drawn: "''i'' \<in> drawn_ids (db_env open_db)" "''ii'' \<in> drawn_ids (db_env open_db)"
    by (simp_all add: drawn_ids_def image_iff) (rule bexI [of _ 1], simp_all, rule bexI [of _ 2], simp_all add: numeral_2_eq_2)
  have "inj (ids (db_env open_db))" by (rule injI) (auto dest: arg_cong [where f = length])
  then have "log_ok open_db" using drawn
    by (intro log_okI) (simp_all add: open_db_def empty_event_store_def db_ok_def gapless_def aggregate_events_def outbox_ok_def commands_ok_def)
  moreover have "journaled (db_log open_db) open_effect"
    by (simp add: journaled_def open_db_def) (auto simp: open_request_def SIDE_EFFECT_CLASSES_def)
  ultimately show ?thesis using drawn(2) by (simp add: effect_ok_def table_ok_def keyed_def)
qed

theorem unknown_effect_blocks_witness:
  "scope_ids (scope_of open_effect) (effect_run [Prepare (open_request\<lparr>pa_key := ''push-2''\<rparr>), MarkSent ''ii'',
      Reconcile ''ii'' ''git_ref_stat'' (Inr \<lparr>ro_verified = True, ro_present = True, ro_detail = ''found''\<rparr>),
      Prepare (open_request\<lparr>pa_key := ''push-3''\<rparr>)] open_db) = [''ii'']"
  using unknown_effect_blocks [OF open_db_ok, of "''ii''" open_effect "[Prepare (open_request\<lparr>pa_key := ''push-2''\<rparr>), MarkSent ''ii'',
      Reconcile ''ii'' ''git_ref_stat'' (Inr \<lparr>ro_verified = True, ro_present = True, ro_detail = ''found''\<rparr>),
      Prepare (open_request\<lparr>pa_key := ''push-3''\<rparr>)]"]
  by (simp add: scope_ids_def)

text \<open>
  Preparing is idempotent. When \<open>prepare\<close> has returned an effect, then after any further calls the same
  request returns that effect as it is by then, or is refused because the key's window has passed, and in both
  cases writes neither a row nor an event.
\<close>

theorem prepare_replays:
  assumes "effect_ok d" and "prepare a d = (Inr e, d')"
  shows "(\<exists>c e'. dict_get (es_commands (db_log (effect_run ops d'))) (sc_tenant (pa_scope a), pa_key a) = Some c
      \<and> dict_get (effects (effect_run ops d')) (xe_id e) = Some e' \<and> scope_of e' = scope_of e
      \<and> fst (prepare a (effect_run ops d')) = (if ci_expires_at c \<le> fst (clock_now (db_env (effect_run ops d')))
          then Inl (DdeError ''VERSION_CONFLICT'' ''Idempotency key expired; refusing a mutation that could duplicate'' False
            [(''idempotency_key'', JStr (pa_key a))]) else Inr e'))
    \<and> effects (snd (prepare a (effect_run ops d'))) = effects (effect_run ops d')
    \<and> db_log (snd (prepare a (effect_run ops d'))) = db_log (effect_run ops d')"
proof -
  obtain c where c: "effect_ok d'" "admitted a" "dict_get (es_commands (db_log d')) (sc_tenant (pa_scope a), pa_key a) = Some c"
    "ci_request_hash c = prepare_digest a" "answers c (xe_id e)" "dict_get (effects d') (xe_id e) = Some e"
    by (rule prepare_answered [OF assms])
  obtain e' where n: "dict_get (es_commands (db_log (effect_run ops d'))) (sc_tenant (pa_scope a), pa_key a) = Some c"
      "dict_get (effects (effect_run ops d')) (xe_id e) = Some e'" and "same_core e e'"
    using answered_forever [OF c(1,3,5,6)] by blast
  then have "scope_of e' = scope_of e" by (simp add: same_core_def)
  with n prepare_again [OF c(2) n(1) c(4,5) n(2)] show ?thesis by simp
qed

lemma open_prepare:
  "prepare open_request open_db = (Inr open_effect, open_db\<lparr>db_env := snd (uuid7 (snd (clock_now (db_env open_db))))\<rparr>)"
proof -
  obtain c where c: "dict_get (es_commands (db_log open_db)) (command_key open_effect) = Some c" "answers c (xe_id open_effect)"
      "ci_request_hash c = xe_request_hash open_effect"
    by (rule journaled_answers [OF effect_okD(4) [OF open_db_ok dict_get_value [OF open_db_simps(1)]]])
  have "ci_expires_at c = 1000" using c(1) by (auto simp: open_db_def)
  moreover have "sc_tenant (pa_scope open_request) = ''t''" "pa_key open_request = ''push-1''" "admitted open_request"
    by (simp_all add: open_request_def admitted_def SIDE_EFFECT_CLASSES_def)
  ultimately show ?thesis
    using c prepare_again [of open_request open_db c "''ii''" open_effect] by (simp add: clock_now_def)
qed

theorem prepare_replays_witness:
  "effects (snd (prepare open_request (effect_run [MarkSent ''ii'', Reconcile ''ii'' ''m'' (Inr \<lparr>ro_verified = True, ro_present = False, ro_detail = []\<rparr>)]
      (open_db\<lparr>db_env := snd (uuid7 (snd (clock_now (db_env open_db))))\<rparr>))))
    = effects (effect_run [MarkSent ''ii'', Reconcile ''ii'' ''m'' (Inr \<lparr>ro_verified = True, ro_present = False, ro_detail = []\<rparr>)]
      (open_db\<lparr>db_env := snd (uuid7 (snd (clock_now (db_env open_db))))\<rparr>))"
  using prepare_replays [OF open_db_ok open_prepare, of "[MarkSent ''ii'', Reconcile ''ii'' ''m'' (Inr \<lparr>ro_verified = True, ro_present = False, ro_detail = []\<rparr>)]"]
  by simp

text \<open>
  A verified answer settles an open effect: it ends RECONCILED, the caller is told whether it was absent,
  and it goes on blocking its scope exactly when it was found present (or had been confirmed before).
\<close>

theorem reconcile_settles:
  assumes ok: "effect_ok d" and e: "dict_get (effects d) k = Some e" "xe_status e \<in> {''UNKNOWN'', ''RECONCILING''}"
    and m: "strip m \<noteq> []" and out: "ro_verified out"
  shows "\<exists>e' d'. reconcile k m (Inr out) d = (Inr \<lparr>rr_effect = e', rr_verified_absent = (\<not> ro_present out)\<rparr>, d')
    \<and> effect_ok d' \<and> dict_get (effects d') k = Some e' \<and> xe_status e' = ''RECONCILED'' \<and> scope_of e' = scope_of e
    \<and> (blocks e' \<longleftrightarrow> ro_present out \<or> xe_confirmed_at e \<noteq> None)"
proof -
  obtain cur d1 where one: "transact (enter_reconciling k m) d = (Inr cur, d1)" "effect_ok d1" "dict_get (effects d1) k = Some cur"
    "xe_status cur = ''RECONCILING''" "xe_confirmed_at cur = xe_confirmed_at e" "scope_of cur = scope_of e"
    by (rule enter_reconciling_ok [OF ok e])
  let ?now = "fst (clock_now (db_env d1))" and ?d2 = "d1\<lparr>db_env := snd (clock_now (db_env d1))\<rparr>"
  have two: "effect_ok ?d2" "dict_get (effects ?d2) k = Some cur" using one(3) effect_ok_env [OF one(2)] by simp_all
  let ?pl = "[(''present'', JBool (ro_present out)), (''detail'', JStr (ro_detail out))]"
  note run = reconcile_def one(1) m out read_clock_eq [of d1] Let_def
  show ?thesis
  proof (cases "ro_present out")
    case True
    let ?x = "\<lambda>x. let y = x\<lparr>xe_confirmed_at := Some ?now\<rparr> in
      if xe_reference cur = None \<and> ro_detail out \<noteq> [] then y\<lparr>xe_reference := Some (take 512 (ro_detail out))\<rparr> else y"
    have core: "same_core x (?x x)" for x by (simp add: Let_def)
    obtain n e' d' where w: "transact (with_effect k (\<lambda>e. transition_effect e ''RECONCILED'' ''ExternalEffectReconciled'' ?pl ?x)) ?d2 = (Inr e', d')"
        "e' = ?x (cur\<lparr>xe_status := ''RECONCILED'', xe_updated_at := n\<rparr>)" "effects d' = dict_set k e' (effects ?d2)" "effect_ok d'"
      by (rule transact_move_ok [OF two, of "''RECONCILED''" ?x]) (simp_all only: core one(4) EXTERNAL_EFFECT_succs)
    have "reconcile k m (Inr out) d = (Inr \<lparr>rr_effect = e', rr_verified_absent = (\<not> ro_present out)\<rparr>, d')"
      using transact_return_Inr [OF w(1)] True by (simp add: run)
    then show ?thesis using w True one(6) by (auto simp: dict_get_set blocks_def scope_of_def Let_def)
  next
    case False
    obtain n e' d' where w: "transact (with_effect k (\<lambda>e. transition_effect e ''RECONCILED'' ''ExternalEffectReconciled'' ?pl id)) d1 = (Inr e', d')"
        "e' = id (cur\<lparr>xe_status := ''RECONCILED'', xe_updated_at := n\<rparr>)" "effects d' = dict_set k e' (effects d1)" "effect_ok d'"
      by (rule transact_move_ok [OF one(2,3), of "''RECONCILED''" id]) (simp_all add: one(4) EXTERNAL_EFFECT_succs)
    have "reconcile k m (Inr out) d = (Inr \<lparr>rr_effect = e', rr_verified_absent = (\<not> ro_present out)\<rparr>, d')"
      using transact_return_Inr [OF w(1)] False by (simp add: run)
    then show ?thesis using w False one(5,6) by (auto simp: dict_get_set blocks_def scope_of_def BLOCKING_STATUSES_def)
  qed
qed

theorem reconcile_settles_witness:
  "\<exists>e' d'. reconcile ''ii'' ''git_ref_stat'' (Inr \<lparr>ro_verified = True, ro_present = False, ro_detail = ''gone''\<rparr>) open_db
      = (Inr \<lparr>rr_effect = e', rr_verified_absent = True\<rparr>, d') \<and> xe_status e' = ''RECONCILED'' \<and> \<not> blocks e'"
  using reconcile_settles [OF open_db_ok, of "''ii''" open_effect "''git_ref_stat''" "\<lparr>ro_verified = True, ro_present = False, ro_detail = ''gone''\<rparr>"]
  by (auto simp: strip_def is_space_def)

end
