(* ===== verification/Capabilities.thy ===== *)
theory Capabilities
  imports Effects
begin

text \<open>
  \<open>engine/capabilities\<close>, the registry: the catalogue of capability descriptors (\<open>service.py\<close>,
  \<open>repository.py\<close>, \<open>hashing.py\<close>, \<open>taxonomy.py\<close>, \<open>states.py\<close>) and the portfolio it is seeded with
  (\<open>seed.py\<close>). A descriptor's definition never changes; registering a new version deprecates the active one.
  The table is a global registry: it holds the rows of every tenant, and the policy
  \<open>capabilities_tenant_isolation\<close> of \<open>schemas/sql/0001_stage1.sql\<close> decides which of them a
  session sees and writes.
\<close>

section \<open>Descriptors\<close>

text \<open>
  \<open>engine/contracts/capability_descriptor.py\<close>. The definition fields, which the hash covers, are a record
  of their own; a registration and a stored descriptor extend it.
\<close>

record capability_definition =
  cd_capability :: string
  cd_version :: string
  cd_category :: string
  cd_summary :: string
  cd_interface :: "string option"
  cd_input :: "string option"
  cd_output :: "string option"
  cd_implementations :: "string list"
  cd_profiles :: "string list"
  cd_environments :: "string list"
  cd_workloads :: "string list"
  cd_risk :: string
  cd_class :: string
  cd_tier :: string
  cd_permission :: "(string \<times> json) list"
  cd_cost :: "(string \<times> json) list"
  cd_network :: "(string \<times> json) list"
  cd_dependencies :: "string list"
  cd_provenance :: "(string \<times> json) list"
  cd_visibility :: string
  cd_owner :: "uuid option"

record registration = capability_definition +
  rg_certification :: string
  rg_by :: string

record capability_descriptor = capability_definition +
  cd_id :: uuid
  cd_certification :: string
  cd_status :: string
  cd_supersedes :: "uuid option"
  cd_superseded_by :: "uuid option"
  cd_hash :: string
  cd_registered_by :: string
  cd_deprecated_at :: "time option"
  cd_retired_at :: "time option"
  cd_created_at :: time
  cd_updated_at :: time

abbreviation definition_of :: "'x capability_definition_scheme \<Rightarrow> capability_definition" where
  "definition_of \<equiv> capability_definition.truncate"

definition RISK_CLASSES :: "string list" where
  "RISK_CLASSES = [''low'', ''medium'', ''high'', ''critical'']"

definition ENFORCEMENT_TIERS :: "string list" where
  "ENFORCEMENT_TIERS = [''T1'', ''T2'']"

definition CERTIFICATION_STATUSES :: "string list" where
  "CERTIFICATION_STATUSES = [''PENDING'', ''CERTIFIED'', ''REJECTED'', ''STALE'']"

definition VISIBILITIES :: "string list" where
  "VISIBILITIES = [''global'', ''tenant'']"

definition descriptor_hash :: "'x capability_definition_scheme \<Rightarrow> string" where
  "descriptor_hash c =
    sha256_hex (canonical_json (JObj
      [(''capability_id'', JStr (cd_capability c)), (''version'', JStr (cd_version c)),
       (''category'', JStr (cd_category c)), (''summary'', JStr (cd_summary c)),
       (''interface_schema_ref'', json_opt (cd_interface c)), (''input_schema_ref'', json_opt (cd_input c)),
       (''output_schema_ref'', json_opt (cd_output c)),
       (''implementations'', JList (map JStr (cd_implementations c))),
       (''supported_worker_profiles'', JList (map JStr (cd_profiles c))),
       (''supported_environments'', JList (map JStr (cd_environments c))),
       (''supported_workloads'', JList (map JStr (cd_workloads c))), (''risk_class'', JStr (cd_risk c)),
       (''side_effect_class'', JStr (cd_class c)), (''enforcement_tier'', JStr (cd_tier c)),
       (''permission_model'', JObj (cd_permission c)), (''cost_model'', JObj (cd_cost c)),
       (''network_requirements'', JObj (cd_network c)), (''dependencies'', JList (map JStr (cd_dependencies c))),
       (''provenance'', JObj (cd_provenance c)), (''visibility'', JStr (cd_visibility c)),
       (''owner_tenant_id'', json_opt (cd_owner c))]))"

section \<open>Repository\<close>

record registry_db = effect_db +
  descriptors :: "(uuid, capability_descriptor) dict"

text \<open>The row-level security predicate, and the rows a session of the tenant reads.\<close>

definition row_visible :: "uuid \<Rightarrow> capability_descriptor \<Rightarrow> bool" where
  "row_visible tenant c \<longleftrightarrow> cd_visibility c = ''global'' \<or> cd_owner c = Some tenant"

definition visible_rows :: "uuid \<Rightarrow> 'x registry_db_scheme \<Rightarrow> capability_descriptor list" where
  "visible_rows tenant d = filter (row_visible tenant) (dict_values (descriptors d))"

text \<open>
  \<open>INSERT\<close>: the policy's check first, then the primary key and \<open>UNIQUE (capability_id, version)\<close>, which
  hold over all rows, seen or not.
\<close>

definition insert_descriptor :: "uuid \<Rightarrow> capability_descriptor \<Rightarrow> 'x registry_db_scheme \<Rightarrow> unit result \<times> 'x registry_db_scheme" where
  "insert_descriptor tenant c d =
    (if \<not> row_visible tenant c then (Inl (IntegrityError ''capabilities_tenant_isolation''), d)
     else if list_ex (\<lambda>r. cd_capability r = cd_capability c \<and> cd_version r = cd_version c) (dict_values (descriptors d)) then
       (Inl (IntegrityError ''capabilities''), d)
     else case table_insert ''capabilities'' (cd_id c) c (descriptors d) of
       Inl err \<Rightarrow> (Inl err, d)
     | Inr t \<Rightarrow> (Inr (), d\<lparr>descriptors := t\<rparr>))"

definition descriptor_by_id :: "uuid \<Rightarrow> uuid \<Rightarrow> 'x registry_db_scheme \<Rightarrow> capability_descriptor option" where
  "descriptor_by_id tenant i d =
    (case dict_get (descriptors d) i of
       None \<Rightarrow> None
     | Some c \<Rightarrow> if row_visible tenant c then Some c else None)"

text \<open>\<open>update_fields\<close> with the services' check of the row count.\<close>

definition update_descriptor ::
  "uuid \<Rightarrow> uuid \<Rightarrow> (capability_descriptor \<Rightarrow> capability_descriptor) \<Rightarrow> 'x registry_db_scheme \<Rightarrow> unit result \<times> 'x registry_db_scheme"
where
  "update_descriptor tenant i f d =
    (case descriptor_by_id tenant i d of
       None \<Rightarrow> (Inl (DdeError ''VERSION_CONFLICT'' ''Unknown capability descriptor'' False [(''descriptor_id'', JStr i)]), d)
     | Some _ \<Rightarrow> (Inr (), d\<lparr>descriptors := table_update i f (descriptors d)\<rparr>))"

definition get_by_capability_and_version ::
  "uuid \<Rightarrow> string \<Rightarrow> string \<Rightarrow> 'x registry_db_scheme \<Rightarrow> capability_descriptor option"
where
  "get_by_capability_and_version tenant cap ver d =
    List.find (\<lambda>c. cd_capability c = cap \<and> cd_version c = ver) (visible_rows tenant d)"

text \<open>\<open>first()\<close> of a query without an order: the oldest row of the table.\<close>

definition get_active_by_capability_id :: "uuid \<Rightarrow> string \<Rightarrow> 'x registry_db_scheme \<Rightarrow> capability_descriptor option" where
  "get_active_by_capability_id tenant cap d =
    List.find (\<lambda>c. cd_capability c = cap \<and> cd_status c = ''ACTIVE'') (visible_rows tenant d)"

definition list_versions :: "uuid \<Rightarrow> string \<Rightarrow> 'x registry_db_scheme \<Rightarrow> capability_descriptor list" where
  "list_versions tenant cap d = sort_key cd_created_at (filter (\<lambda>c. cd_capability c = cap) (visible_rows tenant d))"

definition list_by_category :: "uuid \<Rightarrow> string \<Rightarrow> 'x registry_db_scheme \<Rightarrow> capability_descriptor list" where
  "list_by_category tenant category d = sort_key cd_created_at (filter (\<lambda>c. cd_category c = category) (visible_rows tenant d))"

section \<open>The registry service\<close>

definition allowed :: "string list \<Rightarrow> json" where
  "allowed xs = JList (map JStr (sort xs))"

text \<open>What \<open>register\<close> refuses before it opens a unit of work.\<close>

definition check_registration :: "registration \<Rightarrow> dde_error option" where
  "check_registration a =
    (if cd_capability a = [] then Some (DdeError ''POLICY_DENIED'' ''capability_id must not be empty'' False [])
     else if cd_version a = [] then Some (DdeError ''POLICY_DENIED'' ''version must not be empty'' False [])
     else if cd_class a \<notin> set SIDE_EFFECT_CLASSES then
       Some (DdeError ''POLICY_DENIED''
         ''Chapter 9.3: a capability without a declared, valid side_effect_class cannot be admitted'' False
         [(''side_effect_class'', JStr (cd_class a)), (''allowed'', allowed SIDE_EFFECT_CLASSES)])
     else if cd_risk a \<notin> set RISK_CLASSES then
       Some (DdeError ''POLICY_DENIED'' ''Unknown risk_class'' False
         [(''risk_class'', JStr (cd_risk a)), (''allowed'', allowed RISK_CLASSES)])
     else if cd_tier a \<notin> set ENFORCEMENT_TIERS then
       Some (DdeError ''POLICY_DENIED'' ''Chapter 7.2: a capability descriptor declares T1 or T2 only'' False
         [(''enforcement_tier'', JStr (cd_tier a)), (''allowed'', allowed ENFORCEMENT_TIERS)])
     else if rg_certification a \<notin> set CERTIFICATION_STATUSES then
       Some (DdeError ''POLICY_DENIED'' ''Unknown certification_status'' False
         [(''certification_status'', JStr (rg_certification a)), (''allowed'', allowed CERTIFICATION_STATUSES)])
     else if cd_visibility a \<notin> set VISIBILITIES then
       Some (DdeError ''POLICY_DENIED'' (''Chapter 3.2: visibility must be 'global' or 'tenant'' @ [CHR 0x27]) False
         [(''visibility'', JStr (cd_visibility a)), (''allowed'', allowed VISIBILITIES)])
     else case cd_owner a of
       Some owner \<Rightarrow> if cd_visibility a = ''global'' then
           Some (DdeError ''POLICY_DENIED'' ''A global capability cannot declare an owner_tenant_id'' False
             [(''owner_tenant_id'', JStr owner)])
         else None
     | None \<Rightarrow> None)"

definition resolve_owner :: "uuid \<Rightarrow> registration \<Rightarrow> registration" where
  "resolve_owner tenant a =
    (if cd_visibility a = ''tenant'' \<and> cd_owner a = None then a\<lparr>cd_owner := Some tenant\<rparr> else a)"

definition new_descriptor :: "registration \<Rightarrow> uuid \<Rightarrow> uuid option \<Rightarrow> time \<Rightarrow> capability_descriptor" where
  "new_descriptor a i supersedes now =
    capability_definition.extend (definition_of a)
      (capability_descriptor.fields i (rg_certification a) ''ACTIVE'' supersedes None (descriptor_hash a) (rg_by a)
         None None now now)"

definition descriptor_event :: "string \<Rightarrow> uuid \<Rightarrow> uuid \<Rightarrow> uuid \<Rightarrow> (string \<times> json) list \<Rightarrow> event_args" where
  "descriptor_event ty i tenant project payload =
    \<lparr>ea_type = ty, ea_aggregate_type = ''capability_descriptor'', ea_aggregate_id = i, ea_tenant = tenant,
     ea_project = project, ea_payload = payload, ea_mission = None, ea_task = None,
     ea_correlation = None, ea_causation = None\<rparr>"

text \<open>The previous active version is deprecated in the transaction that inserts its successor.\<close>

definition supersede ::
  "uuid \<Rightarrow> uuid \<Rightarrow> capability_descriptor option \<Rightarrow> uuid \<Rightarrow> time \<Rightarrow> 'x registry_db_scheme \<Rightarrow> unit result \<times> 'x registry_db_scheme"
where
  "supersede tenant project previous new_id now =
    (case previous of
       None \<Rightarrow> Pair (Inr ())
     | Some p \<Rightarrow>
         and_then (update_descriptor tenant (cd_id p)
             (\<lambda>c. c\<lparr>cd_status := ''DEPRECATED'', cd_superseded_by := Some new_id, cd_deprecated_at := Some now, cd_updated_at := now\<rparr>))
           (\<lambda>_. and_then (append_event (descriptor_event ''CapabilityDescriptorDeprecated'' (cd_id p) tenant project
                [(''capability_id'', JStr (cd_capability p)), (''superseded_by_descriptor_id'', JStr new_id)]))
             (\<lambda>_. Pair (Inr ()))))"

definition register_body :: "uuid \<Rightarrow> uuid \<Rightarrow> registration \<Rightarrow> 'x registry_db_scheme \<Rightarrow> capability_descriptor result \<times> 'x registry_db_scheme" where
  "register_body tenant project a d =
    (case get_by_capability_and_version tenant (cd_capability a) (cd_version a) d of
       Some existing \<Rightarrow>
         (if cd_hash existing = descriptor_hash a then (Inr existing, d)
          else (Inl (DdeError ''POLICY_DENIED''
            (''capability_id='' @ py_repr (cd_capability a) @ '' version='' @ py_repr (cd_version a)
              @ '' is already registered with different definition content'') False
            [(''capability_id'', JStr (cd_capability a)), (''version'', JStr (cd_version a)),
             (''existing_descriptor_id'', JStr (cd_id existing))]), d))
     | None \<Rightarrow>
         let previous = get_active_by_capability_id tenant (cd_capability a) d;
             (now, d1) = read_clock d;
             (new_id, d2) = draw_id d1;
             c = new_descriptor a new_id (map_option cd_id previous) now
         in and_then (insert_descriptor tenant c)
              (\<lambda>_. and_then (supersede tenant project previous new_id now)
                (\<lambda>_. and_then (append_event (descriptor_event ''CapabilityRegistered'' new_id tenant project
                    [(''capability_id'', JStr (cd_capability a)), (''version'', JStr (cd_version a)),
                     (''side_effect_class'', JStr (cd_class a)), (''enforcement_tier'', JStr (cd_tier a))]))
                  (\<lambda>_. Pair (Inr c)))) d2)"

definition register :: "uuid \<Rightarrow> uuid \<Rightarrow> registration \<Rightarrow> 'x registry_db_scheme \<Rightarrow> capability_descriptor result \<times> 'x registry_db_scheme" where
  "register tenant project a d =
    (case check_registration a of
       Some err \<Rightarrow> (Inl err, d)
     | None \<Rightarrow> transact (register_body tenant project (resolve_owner tenant a)) d)"

definition require_descriptor :: "uuid \<Rightarrow> uuid \<Rightarrow> 'x registry_db_scheme \<Rightarrow> capability_descriptor result" where
  "require_descriptor tenant i d =
    (case descriptor_by_id tenant i d of
       None \<Rightarrow> Inl (DdeError ''POLICY_DENIED'' ''Unknown capability descriptor'' False [])
     | Some c \<Rightarrow> Inr c)"

definition transition_descriptor ::
  "uuid \<Rightarrow> uuid \<Rightarrow> uuid \<Rightarrow> string \<Rightarrow> 'x registry_db_scheme \<Rightarrow> capability_descriptor result \<times> 'x registry_db_scheme"
where
  "transition_descriptor tenant project i target = transact (\<lambda>d.
    case require_descriptor tenant i d of
      Inl err \<Rightarrow> (Inl err, d)
    | Inr current \<Rightarrow>
        (case transition (cd_status current) target LIFECYCLE_TRANSITIONS of
           Inl err \<Rightarrow> (Inl err, d)
         | Inr st \<Rightarrow>
             let (now, d1) = read_clock d in
             and_then (update_descriptor tenant i (\<lambda>c.
                 let c1 = c\<lparr>cd_status := st, cd_updated_at := now\<rparr> in
                 if st = ''DEPRECATED'' then c1\<lparr>cd_deprecated_at := Some now\<rparr>
                 else if st = ''RETIRED'' then c1\<lparr>cd_retired_at := Some now\<rparr> else c1))
               (\<lambda>_ d2. case require_descriptor tenant i d2 of
                  Inl err \<Rightarrow> (Inl err, d2)
                | Inr updated \<Rightarrow>
                    and_then (append_event (descriptor_event ''CapabilityDescriptorTransitioned'' i tenant project
                        [(''from'', JStr (cd_status current)), (''to'', JStr (cd_status updated))]))
                      (\<lambda>_. Pair (Inr updated)) d2) d1))"

definition deprecate :: "uuid \<Rightarrow> uuid \<Rightarrow> uuid \<Rightarrow> 'x registry_db_scheme \<Rightarrow> capability_descriptor result \<times> 'x registry_db_scheme" where
  "deprecate tenant project i = transition_descriptor tenant project i ''DEPRECATED''"

definition retire :: "uuid \<Rightarrow> uuid \<Rightarrow> uuid \<Rightarrow> 'x registry_db_scheme \<Rightarrow> capability_descriptor result \<times> 'x registry_db_scheme" where
  "retire tenant project i = transition_descriptor tenant project i ''RETIRED''"

definition get_active :: "uuid \<Rightarrow> string \<Rightarrow> 'x registry_db_scheme \<Rightarrow> capability_descriptor result" where
  "get_active tenant cap d =
    (case get_active_by_capability_id tenant cap d of
       None \<Rightarrow> Inl (DdeError ''POLICY_DENIED'' ''No ACTIVE descriptor for this capability_id'' False [(''capability_id'', JStr cap)])
     | Some c \<Rightarrow> Inr c)"

section \<open>The seeded portfolio\<close>

record seed_capability =
  sd_capability :: string
  sd_version :: string
  sd_category :: string
  sd_summary :: string
  sd_side_effect :: string
  sd_risk :: string
  sd_tier :: string
  sd_implementations :: "string list"
  sd_workloads :: "string list"
  sd_dependencies :: "string list"
  sd_network :: "(string \<times> json) list"

definition SEED_CAPABILITIES :: "seed_capability list" where
  "SEED_CAPABILITIES =
     [\<lparr>sd_capability = ''capability.run_local_process'', sd_version = ''1'', sd_category = ''process'',
       sd_summary = ''Execute a command inside a provisioned workspace via a local OS subprocess (Chapter 7.5 execute()).'',
       sd_side_effect = ''WORKSPACE_LOCAL'', sd_risk = ''low'', sd_tier = ''T1'',
       sd_implementations = [''engine.environments.backends.local_process.LocalProcessBackend''], sd_workloads = [''bulk_implementation'', ''verification''], sd_dependencies = [],
       sd_network = [(''egress'', JStr ''none'')]\<rparr>,
      \<lparr>sd_capability = ''capability.workspace_filesystem'', sd_version = ''1'', sd_category = ''filesystem'',
       sd_summary = ''Read and write files inside a task's provisioned workspace (Chapter 7.5 read()/write()).'',
       sd_side_effect = ''WORKSPACE_LOCAL'', sd_risk = ''low'', sd_tier = ''T1'',
       sd_implementations = [''engine.workspaces.service.WorkspaceService''], sd_workloads = [''bulk_implementation'', ''verification''], sd_dependencies = [],
       sd_network = [(''egress'', JStr ''none'')]\<rparr>,
      \<lparr>sd_capability = ''capability.git_operations'', sd_version = ''1'', sd_category = ''repository'',
       sd_summary = ''Run git branch, rebase, commit and ref-update operations against a workspace or the mission integration branch (Chapter 10).'',
       sd_side_effect = ''EXTERNAL_IDEMPOTENT'', sd_risk = ''medium'', sd_tier = ''T1'',
       sd_implementations = [''engine.integration.git'', ''engine.workspaces.git''], sd_workloads = [''bulk_implementation'', ''verification''], sd_dependencies = [''git''],
       sd_network = [(''egress'', JStr ''none'')]\<rparr>,
      \<lparr>sd_capability = ''capability.claude_code_invoke'', sd_version = ''1'', sd_category = ''external_model'',
       sd_summary = ''Invoke the human's own already-authenticated local `claude` CLI as a real subprocess, gated by a mandatory, non-standing-eligible human approval per invocation (EDR-0001 Path A). DDE never reads, stores or forwards any Anthropic credential; it only shells out to the CLI.'',
       sd_side_effect = ''EXTERNAL_NON_IDEMPOTENT'', sd_risk = ''high'', sd_tier = ''T1'',
       sd_implementations = [''adapters.claude.adapter.ClaudeCodeWorkerAdapter''], sd_workloads = [], sd_dependencies = [''claude''],
       sd_network = [(''egress'', JStr ''external:anthropic (via local claude CLI only)'')]\<rparr>,
      \<lparr>sd_capability = ''capability.visual_critique'', sd_version = ''1'', sd_category = ''external_model'',
       sd_summary = ''Judge one rendered screenshot against the versioned visual-critique rubric and return a schema-validated structured verdict (DDE-068). Narrow by construction: no shell, no filesystem mutation, no source access, no arbitrary prompt, no nested agent -- evidence in, verdict out.'',
       sd_side_effect = ''PURE_READ'', sd_risk = ''medium'', sd_tier = ''T1'',
       sd_implementations = [''adapters.visual_critic.adapter.LocalMultimodalVisualCritic''], sd_workloads = [''verification'', ''visual_analysis''], sd_dependencies = [''claude''],
       sd_network = [(''egress'', JStr ''external:multimodal-critic (via local CLI runtime only)'')]\<rparr>,
      \<lparr>sd_capability = ''capability.browser'', sd_version = ''1'', sd_category = ''browser'',
       sd_summary = ''Drive a headed-or-headless browser against an allowlisted URL (Playwright behind adapters.playwright). Used for E2E/api_probe checks; pixel visual_diff remains DDE-044.'',
       sd_side_effect = ''EXTERNAL_NON_IDEMPOTENT'', sd_risk = ''medium'', sd_tier = ''T1'',
       sd_implementations = [''adapters.playwright.adapter.PlaywrightWorkerAdapter''], sd_workloads = [''verification'', ''visual_analysis''], sd_dependencies = [''playwright''],
       sd_network = [(''egress'', JStr ''allowlist:http,https,file'')]\<rparr>,
      \<lparr>sd_capability = ''capability.security'', sd_version = ''1'', sd_category = ''security'',
       sd_summary = ''Scan a task workspace for secrets and blocking SAST findings (in-process evaluators; Semgrep/Gitleaks CLIs not required). DAST and agentic security workers are refused.'',
       sd_side_effect = ''PURE_READ'', sd_risk = ''medium'', sd_tier = ''T1'',
       sd_implementations = [''adapters.security.adapter.SecurityWorkerAdapter''], sd_workloads = [''verification''], sd_dependencies = [],
       sd_network = [(''egress'', JStr ''none'')]\<rparr>,
      \<lparr>sd_capability = ''capability.donor_ingest'', sd_version = ''1'', sd_category = ''donor'',
       sd_summary = ''Ingest a human- or fixture-supplied donor URI into durable DonorArtifact + Feature DNA stub rows (engine.donor). Default source_class UNKNOWN; OPEN_REUSE requires a signed reuse decision. Remote http(s) fetch is refused here.'',
       sd_side_effect = ''WORKSPACE_LOCAL'', sd_risk = ''medium'', sd_tier = ''T1'',
       sd_implementations = [''engine.donor.service.DonorLabService''], sd_workloads = [''planning'', ''verification''], sd_dependencies = [],
       sd_network = [(''egress'', JStr ''none'')]\<rparr>,
      \<lparr>sd_capability = ''capability.donor_discovery'', sd_version = ''1'', sd_category = ''donor'',
       sd_summary = ''Control-plane donor-search fan-out over the EDR-0015 host allowlist. Classify-before-use; UNKNOWN defaults to SOURCE_REFERENCE_ONLY. EXTERNAL_IDEMPOTENT: each query is journaled with an idempotency key before fetch.'',
       sd_side_effect = ''EXTERNAL_IDEMPOTENT'', sd_risk = ''medium'', sd_tier = ''T1'',
       sd_implementations = [''engine.donor.discovery_service.DonorDiscoveryService.search''], sd_workloads = [''planning''], sd_dependencies = [],
       sd_network = [(''egress'', JStr ''allowlist''), (''edr'', JStr ''EDR-0015''), (''allowlist'', JStr ''schemas/design/donor_search_allowlist.json''), (''quota_key'', JStr ''donor_search_max_queries''), (''default_max_queries'', JInt 32)]\<rparr>,
      \<lparr>sd_capability = ''capability.android_analysis'', sd_version = ''1'', sd_category = ''android'',
       sd_summary = ''Static analysis of an .apk in the task workspace: manifest permissions, native ABIs, signing presence, secret scan of assets (adapters.android, stdlib-only). Dynamic/ADB modes are refused.'',
       sd_side_effect = ''PURE_READ'', sd_risk = ''medium'', sd_tier = ''T1'',
       sd_implementations = [''adapters.android.adapter.AndroidWorkerAdapter''], sd_workloads = [''verification''], sd_dependencies = [],
       sd_network = [(''egress'', JStr ''none'')]\<rparr>,
      \<lparr>sd_capability = ''capability.database'', sd_version = ''1'', sd_category = ''database'',
       sd_summary = ''Run read-only db_assertion SELECTs against a product datastore URL and require a boolean result per statement. DDL/DML refused; no schema or data mutation authority.'',
       sd_side_effect = ''PURE_READ'', sd_risk = ''medium'', sd_tier = ''T1'',
       sd_implementations = [''engine.capabilities.database.assertions.InProcessDatabaseAsserter''], sd_workloads = [''verification''], sd_dependencies = [],
       sd_network = [(''egress'', JStr ''datastore_ref only'')]\<rparr>,
      \<lparr>sd_capability = ''capability.docs_provider'', sd_version = ''1'', sd_category = ''docs'',
       sd_summary = ''Serve version-pinned external documentation read-only through the Chapter 5.2 documentation retriever (engine.capabilities.docs). No network egress: sources are operator-materialised on disk, and content stays rank-9 external evidence that never satisfies a current-state coverage requirement.'',
       sd_side_effect = ''PURE_READ'', sd_risk = ''low'', sd_tier = ''T1'',
       sd_implementations = [''engine.capabilities.docs.provider.InProcessDocsProvider''], sd_workloads = [''planning'', ''verification''], sd_dependencies = [],
       sd_network = [(''egress'', JStr ''none'')]\<rparr>,
      \<lparr>sd_capability = ''capability.frontend_canvas'', sd_version = ''1'', sd_category = ''studio'',
       sd_summary = ''Human-authored prototype HTML and flows.json mutations from Frontend Studio (insert/move/update/remove/motion). Writes are jailed to the task workspace; values are token-sheet aliases only. Donor inserts require an APPROVED donor_reuse approval.'',
       sd_side_effect = ''WORKSPACE_LOCAL'', sd_risk = ''medium'', sd_tier = ''T1'',
       sd_implementations = [''engine.studio.frontend.FrontendStudioService''], sd_workloads = [''planning''], sd_dependencies = [],
       sd_network = [(''egress'', JStr ''none'')]\<rparr>,
      \<lparr>sd_capability = ''capability.vekl.qualify'', sd_version = ''1'', sd_category = ''vekl'',
       sd_summary = ''Qualify exact, provenance-bearing VEKL resource/component records already present behind admitted Source Intelligence state. No fetch or executable permission is implied.'',
       sd_side_effect = ''WORKSPACE_LOCAL'', sd_risk = ''medium'', sd_tier = ''T1'',
       sd_implementations = [''engine.vekl.service.VEKLService''], sd_workloads = [''planning'', ''verification''], sd_dependencies = [],
       sd_network = [(''egress'', JStr ''none''), (''source_authority'', JStr ''EDR-0015'')]\<rparr>,
      \<lparr>sd_capability = ''capability.vekl.resolve'', sd_version = ''1'', sd_category = ''vekl'',
       sd_summary = ''Resolve hard-eligible target-application resources and persist an immutable exact-pin activation manifest.'',
       sd_side_effect = ''WORKSPACE_LOCAL'', sd_risk = ''medium'', sd_tier = ''T1'',
       sd_implementations = [''engine.vekl.service.VEKLService''], sd_workloads = [''planning''], sd_dependencies = [],
       sd_network = [(''egress'', JStr ''none'')]\<rparr>,
      \<lparr>sd_capability = ''capability.vekl.compile_context'', sd_version = ''1'', sd_category = ''vekl'',
       sd_summary = ''Compile the smallest sufficient provenance-bearing context capsule from an immutable VEKL activation manifest.'',
       sd_side_effect = ''PURE_READ'', sd_risk = ''low'', sd_tier = ''T1'',
       sd_implementations = [''engine.vekl.compiler.VEKLKnowledgeCompiler''], sd_workloads = [''planning'', ''verification''], sd_dependencies = [],
       sd_network = [(''egress'', JStr ''none''), (''secret_access'', JStr ''none'')]\<rparr>]"

definition side_effect_class_for :: "string \<Rightarrow> string result" where
  "side_effect_class_for cap =
    (case List.find (\<lambda>s. sd_capability s = cap) (rev SEED_CAPABILITIES) of
       None \<Rightarrow> Inl (KeyError (''No seeded capability '' @ py_repr cap @ '' to read side_effect_class from''))
     | Some s \<Rightarrow> Inr (sd_side_effect s))"

definition seed_registration :: "string \<Rightarrow> seed_capability \<Rightarrow> registration" where
  "seed_registration by_whom s =
    \<lparr>cd_capability = sd_capability s, cd_version = sd_version s, cd_category = sd_category s, cd_summary = sd_summary s,
     cd_interface = None, cd_input = None, cd_output = None, cd_implementations = sd_implementations s, cd_profiles = [],
     cd_environments = [], cd_workloads = sd_workloads s, cd_risk = sd_risk s, cd_class = sd_side_effect s, cd_tier = sd_tier s,
     cd_permission = [], cd_cost = [], cd_network = sd_network s, cd_dependencies = sd_dependencies s,
     cd_provenance = [(''source'', JStr ''native''), (''mission'', JStr ''DDE-016'')], cd_visibility = ''global'', cd_owner = None,
     rg_certification = ''CERTIFIED'', rg_by = by_whom\<rparr>"

fun seed_all :: "uuid \<Rightarrow> uuid \<Rightarrow> string \<Rightarrow> seed_capability list \<Rightarrow> 'x registry_db_scheme
    \<Rightarrow> capability_descriptor list result \<times> 'x registry_db_scheme" where
  "seed_all tenant project by_whom [] d = (Inr [], d)"
| "seed_all tenant project by_whom (s # ss) d =
    and_then (register tenant project (seed_registration by_whom s))
      (\<lambda>c. and_then (seed_all tenant project by_whom ss) (\<lambda>cs. Pair (Inr (c # cs)))) d"

definition seed_capabilities :: "uuid \<Rightarrow> uuid \<Rightarrow> string \<Rightarrow> 'x registry_db_scheme \<Rightarrow> capability_descriptor list result \<times> 'x registry_db_scheme" where
  "seed_capabilities tenant project by_whom = seed_all tenant project by_whom SEED_CAPABILITIES"

section \<open>Calls\<close>

datatype registry_op =
    Register uuid uuid registration
  | Deprecate uuid uuid uuid
  | Retire uuid uuid uuid
  | Seed uuid uuid string

fun registry_step :: "registry_op \<Rightarrow> 'x registry_db_scheme \<Rightarrow> 'x registry_db_scheme" where
  "registry_step (Register t p a) d = snd (register t p a d)"
| "registry_step (Deprecate t p i) d = snd (deprecate t p i d)"
| "registry_step (Retire t p i) d = snd (retire t p i d)"
| "registry_step (Seed t p w) d = snd (seed_capabilities t p w d)"

definition registry_run :: "registry_op list \<Rightarrow> 'x registry_db_scheme \<Rightarrow> 'x registry_db_scheme" where
  "registry_run = service_run registry_step"

section \<open>Invariant and what a call writes\<close>

interpretation descriptor_rows: row_table descriptors "\<lambda>t d. d\<lparr>descriptors := t\<rparr>" cd_id
  by unfold_locales simp_all

definition same_version :: "capability_descriptor \<Rightarrow> capability_descriptor \<Rightarrow> bool" where
  "same_version c c' \<longleftrightarrow> cd_capability c = cd_capability c' \<and> cd_version c = cd_version c'"

definition registry_ok :: "'x registry_db_scheme \<Rightarrow> bool" where
  "registry_ok d \<longleftrightarrow> table_ok descriptors cd_id d
    \<and> (\<forall>i j c c'. dict_get (descriptors d) i = Some c \<longrightarrow> dict_get (descriptors d) j = Some c' \<longrightarrow> same_version c c' \<longrightarrow> i = j)"

lemma registry_okD:
  assumes "registry_ok d"
  shows "log_ok d" "keyed cd_id (descriptors d)" "table_ok descriptors cd_id d"
  using assms by (simp_all add: registry_ok_def table_ok_def)

lemma registry_ok_version:
  "registry_ok d \<Longrightarrow> dict_get (descriptors d) i = Some c \<Longrightarrow> dict_get (descriptors d) j = Some c' \<Longrightarrow> same_version c c' \<Longrightarrow> i = j"
  by (simp add: registry_ok_def)

text \<open>What never changes of a descriptor, and how its status may.\<close>

definition descriptor_le :: "capability_descriptor \<Rightarrow> capability_descriptor \<Rightarrow> bool" where
  "descriptor_le c c' \<longleftrightarrow> definition_of c' = definition_of c \<and> cd_id c' = cd_id c \<and> cd_hash c' = cd_hash c
    \<and> cd_certification c' = cd_certification c \<and> cd_registered_by c' = cd_registered_by c
    \<and> cd_supersedes c' = cd_supersedes c \<and> cd_created_at c' = cd_created_at c
    \<and> (cd_status c' = cd_status c \<or> cd_status c' \<in> set (succs LIFECYCLE_TRANSITIONS (cd_status c)))"

lemma descriptor_succs:
  "st \<in> set (succs LIFECYCLE_TRANSITIONS s) \<longleftrightarrow> s = ''ACTIVE'' \<and> (st = ''DEPRECATED'' \<or> st = ''RETIRED'') \<or> s = ''DEPRECATED'' \<and> st = ''RETIRED''"
  by (auto simp: LIFECYCLE_TRANSITIONS_def succs_def)

lemma descriptor_le_refl [simp]: "descriptor_le c c"
  by (simp add: descriptor_le_def)

lemma descriptor_le_trans: "descriptor_le a b \<Longrightarrow> descriptor_le b c \<Longrightarrow> descriptor_le a c"
  unfolding descriptor_le_def descriptor_succs by metis

lemma definition_of_fields:
  assumes "definition_of c' = definition_of c"
  shows "cd_capability c' = cd_capability c" "cd_version c' = cd_version c" "cd_visibility c' = cd_visibility c"
    "cd_owner c' = cd_owner c" "cd_class c' = cd_class c"
  using assms by (simp_all add: capability_definition.truncate_def)

definition rows_le :: "(uuid, capability_descriptor) dict \<Rightarrow> (uuid, capability_descriptor) dict \<Rightarrow> bool" where
  "rows_le t t' \<longleftrightarrow> (\<forall>i c. dict_get t i = Some c \<longrightarrow> (\<exists>c'. dict_get t' i = Some c' \<and> descriptor_le c c'))"

lemma rows_le_refl [simp]: "rows_le t t"
  unfolding rows_le_def by (blast intro: descriptor_le_refl)

lemma rows_le_trans: "rows_le a b \<Longrightarrow> rows_le b c \<Longrightarrow> rows_le a c"
  unfolding rows_le_def by (meson descriptor_le_trans)

lemma rows_le_set:
  assumes "\<And>c. dict_get t i = Some c \<Longrightarrow> descriptor_le c c'"
  shows "rows_le t (dict_set i c' t)"
  using assms unfolding rows_le_def by (auto simp: dict_get_set)

text \<open>The other tables, and the log beside the appended events.\<close>

definition registry_frame :: "'x registry_db_scheme \<Rightarrow> 'x registry_db_scheme \<Rightarrow> bool" where
  "registry_frame d d' \<longleftrightarrow> grows d d' \<and> effects d' = effects d \<and> registry_db.more d' = registry_db.more d"

lemma registry_frame_env: "log_ok d \<Longrightarrow> env_le (db_env d) e \<Longrightarrow> registry_frame d (d\<lparr>db_env := e\<rparr>)"
  by (simp add: registry_frame_def grows_same)

lemma registry_frame_trans: "registry_frame a b \<Longrightarrow> registry_frame b c \<Longrightarrow> registry_frame a c"
  by (auto simp: registry_frame_def intro: grows_trans)

text \<open>The rows after a registration: the new row, and the previous active one deprecated.\<close>

definition deprecated_by :: "uuid \<Rightarrow> time \<Rightarrow> capability_descriptor \<Rightarrow> capability_descriptor" where
  "deprecated_by new_id now c =
    c\<lparr>cd_status := ''DEPRECATED'', cd_superseded_by := Some new_id, cd_deprecated_at := Some now, cd_updated_at := now\<rparr>"

definition registered_rows :: "capability_descriptor option \<Rightarrow> capability_descriptor \<Rightarrow> time
    \<Rightarrow> (uuid, capability_descriptor) dict \<Rightarrow> (uuid, capability_descriptor) dict" where
  "registered_rows previous c now t =
    (case previous of
       None \<Rightarrow> t @ [(cd_id c, c)]
     | Some p \<Rightarrow> dict_set (cd_id p) (deprecated_by (cd_id c) now p) t @ [(cd_id c, c)])"

lemma new_descriptor_simps [simp]:
  "definition_of (new_descriptor a i s t) = definition_of a" "cd_id (new_descriptor a i s t) = i"
  "cd_capability (new_descriptor a i s t) = cd_capability a" "cd_version (new_descriptor a i s t) = cd_version a"
  "cd_visibility (new_descriptor a i s t) = cd_visibility a" "cd_owner (new_descriptor a i s t) = cd_owner a"
  "cd_class (new_descriptor a i s t) = cd_class a" "cd_certification (new_descriptor a i s t) = rg_certification a"
  "cd_status (new_descriptor a i s t) = ''ACTIVE''" "cd_hash (new_descriptor a i s t) = descriptor_hash a"
  by (simp_all add: new_descriptor_def capability_definition.defs capability_descriptor.defs)

lemma deprecated_by_simps [simp]:
  "definition_of (deprecated_by i t c) = definition_of c" "cd_id (deprecated_by i t c) = cd_id c"
  "cd_capability (deprecated_by i t c) = cd_capability c" "cd_version (deprecated_by i t c) = cd_version c"
  "cd_visibility (deprecated_by i t c) = cd_visibility c" "cd_owner (deprecated_by i t c) = cd_owner c"
  "cd_status (deprecated_by i t c) = ''DEPRECATED''"
  by (simp_all add: deprecated_by_def capability_definition.defs)

lemma deprecated_by_le: "cd_status c = ''ACTIVE'' \<Longrightarrow> descriptor_le c (deprecated_by i t c)"
  by (simp add: descriptor_le_def descriptor_succs deprecated_by_def capability_definition.defs)

lemma dict_set_append: "k \<in> set (dict_keys t) \<Longrightarrow> dict_set k v (t @ u) = dict_set k v t @ u"
  by (induction t) auto

lemma registered_rows_get:
  assumes "cd_id c \<notin> set (dict_keys t)" and "\<And>p. previous = Some p \<Longrightarrow> cd_id p \<in> set (dict_keys t)"
  shows "dict_get (registered_rows previous c now t) k =
    (if k = cd_id c then Some c else case previous of
       None \<Rightarrow> dict_get t k
     | Some p \<Rightarrow> if k = cd_id p then Some (deprecated_by (cd_id c) now p) else dict_get t k)"
proof -
  have fresh: "dict_get t (cd_id c) = None" using assms(1) by (simp only: dict_get_None not_False_eq_True)
  show ?thesis
  proof (cases previous)
    case None
    then show ?thesis using fresh by (auto simp: registered_rows_def map_add_def split: option.split)
  next
    case (Some p)
    have "cd_id p \<noteq> cd_id c" using assms(1) assms(2) [OF Some] by metis
    then show ?thesis using fresh Some by (auto simp: registered_rows_def map_add_def dict_get_set split: option.split)
  qed
qed

lemma find_SomeD: "List.find P xs = Some x \<Longrightarrow> x \<in> set xs \<and> P x"
  by (auto simp: find_Some_iff)

lemma get_active_SomeD:
  assumes "registry_ok d" and "get_active_by_capability_id tenant cap d = Some p"
  shows "dict_get (descriptors d) (cd_id p) = Some p" "cd_status p = ''ACTIVE''" "cd_capability p = cap" "row_visible tenant p"
    "descriptor_by_id tenant (cd_id p) d = Some p"
proof -
  have p: "p \<in> set (dict_values (descriptors d))" "row_visible tenant p" "cd_capability p = cap" "cd_status p = ''ACTIVE''"
    using find_SomeD [OF assms(2) [unfolded get_active_by_capability_id_def]] by (auto simp: visible_rows_def)
  then show "dict_get (descriptors d) (cd_id p) = Some p" "cd_status p = ''ACTIVE''" "cd_capability p = cap" "row_visible tenant p"
      "descriptor_by_id tenant (cd_id p) d = Some p"
    using keyed_in [OF registry_okD(2) [OF assms(1)] p(1)] by (simp_all add: descriptor_by_id_def)
qed

lemma insert_descriptor_new:
  assumes "row_visible tenant c" and "list_all (\<lambda>r. \<not> same_version r c) (dict_values (descriptors d))"
    and "cd_id c \<notin> set (dict_keys (descriptors d))"
  shows "insert_descriptor tenant c d = (Inr (), d\<lparr>descriptors := descriptors d @ [(cd_id c, c)]\<rparr>)"
  using assms by (auto simp: insert_descriptor_def list_ex_iff list_all_iff same_version_def table_insert_new dict_set_new)

lemma event_frame:
  assumes "log_ok d"
  obtains ev d' where "append_event a d = (Inr ev, d')" "registry_frame d d'" "descriptors d' = descriptors d" "log_ok d'"
proof -
  obtain ev s e where "append_event a d = (Inr ev, d\<lparr>db_log := s, db_env := e\<rparr>)" "grows d (d\<lparr>db_log := s, db_env := e\<rparr>)"
    by (rule append_event_grows [OF assms])
  then show thesis by (intro that [of ev "d\<lparr>db_log := s, db_env := e\<rparr>"]) (simp_all add: registry_frame_def grows_def)
qed

lemma supersede_run:
  assumes log: "log_ok d" and ok: "dict_ok (descriptors d)"
    and p: "\<And>p. previous = Some p \<Longrightarrow> dict_get (descriptors d) (cd_id p) = Some p \<and> row_visible tenant p"
  obtains d' where "supersede tenant project previous i now d = (Inr (), d')" "registry_frame d d'" "log_ok d'"
    "descriptors d' = (case previous of None \<Rightarrow> descriptors d
       | Some p \<Rightarrow> dict_set (cd_id p) (deprecated_by i now p) (descriptors d))"
proof (cases previous)
  case None
  then show thesis using log by (intro that [of d]) (simp_all add: supersede_def registry_frame_def grows_same)
next
  case (Some p)
  let ?d1 = "d\<lparr>descriptors := dict_set (cd_id p) (deprecated_by i now p) (descriptors d)\<rparr>"
  have "update_descriptor tenant (cd_id p)
      (\<lambda>c. c\<lparr>cd_status := ''DEPRECATED'', cd_superseded_by := Some i, cd_deprecated_at := Some now, cd_updated_at := now\<rparr>) d = (Inr (), ?d1)"
    using p [OF Some] table_update_eq [OF ok] by (simp add: update_descriptor_def descriptor_by_id_def deprecated_by_def)
  moreover have log1: "log_ok ?d1" by (rule log_ok_env [OF log]) simp_all
  obtain ev d' where "append_event (descriptor_event ''CapabilityDescriptorDeprecated'' (cd_id p) tenant project
      [(''capability_id'', JStr (cd_capability p)), (''superseded_by_descriptor_id'', JStr i)]) ?d1 = (Inr ev, d')"
      "registry_frame ?d1 d'" "descriptors d' = descriptors ?d1" "log_ok d'"
    by (rule event_frame [OF log1])
  moreover have "registry_frame d ?d1" using log by (simp add: registry_frame_def grows_same)
  ultimately show thesis using Some
    by (intro that [of d']) (auto simp: supersede_def and_then_def intro: registry_frame_trans)
qed

lemma register_body_cases:
  assumes ok: "registry_ok d"
  obtains (known) c where "register_body tenant project a d = (Inr c, d)" "c \<in> set (visible_rows tenant d)"
      "cd_capability c = cd_capability a" "cd_version c = cd_version a" "cd_hash c = descriptor_hash a"
  | (refused) err e where "register_body tenant project a d = (Inl err, d\<lparr>db_env := e\<rparr>)" "env_le (db_env d) e"
      "list_ex (\<lambda>c. cd_capability c = cd_capability a \<and> cd_version c = cd_version a) (dict_values (descriptors d))
        \<or> \<not> (cd_visibility a = ''global'' \<or> cd_owner a = Some tenant)"
  | (added) c d' now where "register_body tenant project a d = (Inr c, d')"
      "c = new_descriptor a (cd_id c) (map_option cd_id (get_active_by_capability_id tenant (cd_capability a) d)) now"
      "list_all (\<lambda>r. \<not> same_version r c) (dict_values (descriptors d))" "row_visible tenant c"
      "cd_id c \<notin> set (dict_keys (descriptors d))" "cd_id c \<in> drawn_ids (db_env d')"
      "descriptors d' = registered_rows (get_active_by_capability_id tenant (cd_capability a) d) c now (descriptors d)"
      "registry_frame d d'"
proof (cases "get_by_capability_and_version tenant (cd_capability a) (cd_version a) d")
  case (Some x)
  have x: "x \<in> set (visible_rows tenant d)" "cd_capability x = cd_capability a" "cd_version x = cd_version a"
    using find_SomeD [OF Some [unfolded get_by_capability_and_version_def]] by simp_all
  then have "x \<in> set (dict_values (descriptors d))" by (auto simp: visible_rows_def)
  with x have "list_ex (\<lambda>c. cd_capability c = cd_capability a \<and> cd_version c = cd_version a) (dict_values (descriptors d))"
    unfolding list_ex_iff by blast
  then show thesis using Some x
    by (cases "cd_hash x = descriptor_hash a") (auto simp: register_body_def intro: known refused [of _ "db_env d"])
next
  case None
  let ?previous = "get_active_by_capability_id tenant (cd_capability a) d"
  let ?now = "fst (clock_now (db_env d))" and ?e1 = "snd (clock_now (db_env d))"
  let ?i = "fst (uuid7 ?e1)" and ?d2 = "d\<lparr>db_env := snd (uuid7 ?e1)\<rparr>"
  let ?c = "new_descriptor a ?i (map_option cd_id ?previous) ?now"
  have log1: "log_ok (d\<lparr>db_env := ?e1\<rparr>)" by (rule log_ok_clock [OF registry_okD(1) [OF ok]])
  have log2: "log_ok ?d2" using log_ok_draw(1) [OF log1] by simp
  have new: "?i \<notin> set (dict_keys (descriptors d))" "?i \<in> drawn_ids (db_env ?d2)"
    using descriptor_rows.new_row [of "d\<lparr>db_env := ?e1\<rparr>"] descriptor_rows.ok_env [OF registry_okD(3) [OF ok], of ?e1] by simp_all
  let ?rest = "\<lambda>_. and_then (supersede tenant project ?previous ?i ?now) (\<lambda>_. and_then (append_event
      (descriptor_event ''CapabilityRegistered'' ?i tenant project
        [(''capability_id'', JStr (cd_capability a)), (''version'', JStr (cd_version a)),
         (''side_effect_class'', JStr (cd_class a)), (''enforcement_tier'', JStr (cd_tier a))])) (\<lambda>_. Pair (Inr ?c)))"
  have run: "register_body tenant project a d = and_then (insert_descriptor tenant ?c) ?rest ?d2"
    by (simp add: register_body_def None read_clock_eq draw_id_eq)
  consider (bad) "list_ex (\<lambda>c. cd_capability c = cd_capability a \<and> cd_version c = cd_version a) (dict_values (descriptors d))
        \<or> \<not> (cd_visibility a = ''global'' \<or> cd_owner a = Some tenant)"
    | (good) "list_all (\<lambda>r. \<not> same_version r ?c) (dict_values (descriptors d))" "row_visible tenant ?c"
    by (auto simp: list_ex_iff list_all_iff same_version_def row_visible_def)
  then show thesis
  proof cases
    case bad
    then have "\<exists>err. insert_descriptor tenant ?c ?d2 = (Inl err, ?d2)"
      by (auto simp: insert_descriptor_def row_visible_def list_ex_iff)
    then show thesis using bad by (auto simp: run and_then_def intro: refused [of _ "snd (uuid7 ?e1)"])
  next
    case good
    let ?d3 = "?d2\<lparr>descriptors := descriptors d @ [(?i, ?c)]\<rparr>"
    have ins: "insert_descriptor tenant ?c ?d2 = (Inr (), ?d3)"
      using insert_descriptor_new [of tenant ?c ?d2] good new(1) by simp
    have log3: "log_ok ?d3" by (rule log_ok_env [OF log2]) simp_all
    have ok3: "dict_ok (descriptors ?d3)" using new(1) keyed_ok [OF registry_okD(2) [OF ok]] by simp
    have p: "dict_get (descriptors ?d3) (cd_id p) = Some p \<and> row_visible tenant p" if "?previous = Some p" for p
      using get_active_SomeD(1,4) [OF ok that] by (simp add: map_add_Some_iff)
    obtain d4 where sup: "supersede tenant project ?previous ?i ?now ?d3 = (Inr (), d4)" "registry_frame ?d3 d4" "log_ok d4"
        "descriptors d4 = (case ?previous of None \<Rightarrow> descriptors ?d3
           | Some p \<Rightarrow> dict_set (cd_id p) (deprecated_by ?i ?now p) (descriptors ?d3))"
      by (rule supersede_run [OF log3 ok3 p])
    obtain ev d5 where ev: "append_event (descriptor_event ''CapabilityRegistered'' ?i tenant project
        [(''capability_id'', JStr (cd_capability a)), (''version'', JStr (cd_version a)),
         (''side_effect_class'', JStr (cd_class a)), (''enforcement_tier'', JStr (cd_tier a))]) d4 = (Inr ev, d5)"
        "registry_frame d4 d5" "descriptors d5 = descriptors d4" "log_ok d5"
      by (rule event_frame [OF sup(3)])
    have key: "cd_id p \<in> set (dict_keys (descriptors d)) \<and> cd_id p \<noteq> ?i" if "?previous = Some p" for p
      using dict_get_key [OF get_active_SomeD(1) [OF ok that]] new(1) by metis
    have rows: "descriptors d5 = registered_rows ?previous ?c ?now (descriptors d)"
      using key by (cases ?previous) (simp_all add: ev(3) sup(4) registered_rows_def dict_set_append del: set_map)
    have "registry_frame d ?d3" using registry_okD(1) [OF ok] by (simp add: registry_frame_def grows_same)
    then have frame: "registry_frame d d5" using sup(2) ev(2) registry_frame_trans by blast
    then have "env_le (db_env ?d3) (db_env d5)"
      using registry_frame_trans [OF sup(2) ev(2)] by (simp add: registry_frame_def grows_def)
    then have "?i \<in> drawn_ids (db_env d5)" using new(2) env_le_drawn by fastforce
    moreover have "register_body tenant project a d = (Inr ?c, d5)" by (simp add: run and_then_def ins sup(1) ev(1))
    ultimately show thesis using rows frame good new(1) by (intro added [of ?c d5 ?now]) simp_all
  qed
qed

text \<open>What one transaction can do to the table; \<open>g\<close> says that a registered row is a global one.\<close>

inductive registry_write :: "bool \<Rightarrow> 'x registry_db_scheme \<Rightarrow> 'x registry_db_scheme \<Rightarrow> bool" for g where
  Quiet: "registry_frame d d' \<Longrightarrow> descriptors d' = descriptors d \<Longrightarrow> registry_write g d d'"
| Added: "get_active_by_capability_id tenant (cd_capability a) d = previous \<Longrightarrow>
    c = new_descriptor a (cd_id c) (map_option cd_id previous) now \<Longrightarrow>
    list_all (\<lambda>r. \<not> same_version r c) (dict_values (descriptors d)) \<Longrightarrow> row_visible tenant c \<Longrightarrow>
    cd_id c \<notin> set (dict_keys (descriptors d)) \<Longrightarrow> cd_id c \<in> drawn_ids (db_env d') \<Longrightarrow>
    descriptors d' = registered_rows previous c now (descriptors d) \<Longrightarrow> registry_frame d d' \<Longrightarrow>
    (g \<Longrightarrow> cd_visibility c = ''global'') \<Longrightarrow> registry_write g d d'"
| Moved: "dict_get (descriptors d) i = Some c \<Longrightarrow> descriptors d' = dict_set i c' (descriptors d) \<Longrightarrow> descriptor_le c c' \<Longrightarrow>
    cd_status c' \<noteq> ''ACTIVE'' \<Longrightarrow> registry_frame d d' \<Longrightarrow> registry_write g d d'"

lemma table_ok_rows:
  assumes "registry_frame d d'" and "keyed cd_id (descriptors d')" and "set (dict_keys (descriptors d')) \<subseteq> drawn_ids (db_env d')"
  shows "table_ok descriptors cd_id d'"
  using assms by (simp add: table_ok_def registry_frame_def grows_def)

lemma frame_drawn: "registry_frame d d' \<Longrightarrow> drawn_ids (db_env d) \<subseteq> drawn_ids (db_env d')"
  by (simp add: registry_frame_def grows_def env_le_drawn)

lemma added_rows:
  assumes ok: "registry_ok d" and p: "get_active_by_capability_id tenant cap d = previous"
    and new: "cd_id c \<notin> set (dict_keys (descriptors d))"
  shows "dict_get (registered_rows previous c now (descriptors d)) k =
      (if k = cd_id c then Some c else case previous of
         None \<Rightarrow> dict_get (descriptors d) k
       | Some p \<Rightarrow> if k = cd_id p then Some (deprecated_by (cd_id c) now p) else dict_get (descriptors d) k)"
    and "keyed cd_id (registered_rows previous c now (descriptors d))"
    and "set (dict_keys (registered_rows previous c now (descriptors d))) = insert (cd_id c) (set (dict_keys (descriptors d)))"
    and "rows_le (descriptors d) (registered_rows previous c now (descriptors d))"
proof -
  have key: "cd_id q \<in> set (dict_keys (descriptors d))" if "previous = Some q" for q
    using dict_get_key [OF get_active_SomeD(1) [OF ok p [unfolded that]]] .
  note get = registered_rows_get [OF new key]
  show "dict_get (registered_rows previous c now (descriptors d)) k =
      (if k = cd_id c then Some c else case previous of
         None \<Rightarrow> dict_get (descriptors d) k
       | Some p \<Rightarrow> if k = cd_id p then Some (deprecated_by (cd_id c) now p) else dict_get (descriptors d) k)"
    by (rule get)
  have keys: "dict_keys (registered_rows previous c now (descriptors d)) = dict_keys (descriptors d) @ [cd_id c]"
    using key by (cases previous) (simp_all add: registered_rows_def dict_set_same_keys)
  then show "set (dict_keys (registered_rows previous c now (descriptors d))) = insert (cd_id c) (set (dict_keys (descriptors d)))"
    by (simp del: set_map)
  have "keyed cd_id (case previous of None \<Rightarrow> descriptors d | Some q \<Rightarrow> dict_set (cd_id q) (deprecated_by (cd_id c) now q) (descriptors d))"
    using registry_okD(2) [OF ok] by (cases previous) (simp_all add: keyed_set)
  then show "keyed cd_id (registered_rows previous c now (descriptors d))"
    using keys keyed_ok [OF registry_okD(2) [OF ok]] new unfolding keyed_def
    by (auto simp: registered_rows_def split: option.splits)
  show "rows_le (descriptors d) (registered_rows previous c now (descriptors d))"
    unfolding rows_le_def
  proof (intro allI impI)
    fix i x assume x: "dict_get (descriptors d) i = Some x"
    have "i \<noteq> cd_id c" using dict_get_key [OF x] new by blast
    moreover have "x = q \<and> cd_status q = ''ACTIVE''" if "previous = Some q" "i = cd_id q" for q
      using get_active_SomeD(1,2) [OF ok p [unfolded that(1)]] x that(2) by simp
    ultimately show "\<exists>c'. dict_get (registered_rows previous c now (descriptors d)) i = Some c' \<and> descriptor_le x c'"
      using x by (auto simp: get intro: deprecated_by_le split: option.split)
  qed
qed

lemma registry_write_le:
  assumes "registry_write g d d'" and "registry_ok d"
  shows "rows_le (descriptors d) (descriptors d')"
  using assms
proof (induction rule: registry_write.induct)
  case (Added tenant a d previous c now d')
  then show ?case using added_rows(4) [OF Added.prems Added.hyps(1,5)] by simp
next
  case (Moved d i c d' c')
  have "rows_le (descriptors d) (dict_set i c' (descriptors d))"
    by (rule rows_le_set) (use Moved.hyps(1,3) in simp)
  then show ?case by (simp add: Moved.hyps(2))
qed simp

lemma registry_write_ok:
  assumes "registry_write g d d'" and "registry_ok d"
  shows "registry_ok d'"
  using assms
proof (induction rule: registry_write.induct)
  case (Quiet d d')
  have "table_ok descriptors cd_id d'"
    by (rule table_ok_rows [OF Quiet.hyps(1)]) (use registry_okD [OF Quiet.prems] table_okD(3) [OF registry_okD(3) [OF Quiet.prems]]
      frame_drawn [OF Quiet.hyps(1)] in \<open>simp_all add: Quiet.hyps(2) del: set_map\<close>)
  then show ?case using Quiet.prems by (simp add: registry_ok_def Quiet.hyps(2))
next
  case (Added tenant a d previous c now d')
  note rows = added_rows [OF Added.prems Added.hyps(1,5), of now, folded Added.hyps(7)]
  have table: "table_ok descriptors cd_id d'"
    by (rule table_ok_rows [OF Added.hyps(8) rows(2)])
      (use rows(3) table_okD(3) [OF registry_okD(3) [OF Added.prems]] frame_drawn [OF Added.hyps(8)] Added.hyps(6) in \<open>auto simp del: set_map\<close>)
  have old: "\<exists>y. dict_get (descriptors d) i = Some y \<and> cd_capability y = cd_capability x \<and> cd_version y = cd_version x"
    if "dict_get (descriptors d') i = Some x" "i \<noteq> cd_id c" for i x
    using that get_active_SomeD(1) [OF Added.prems] Added.hyps(1) by (cases previous) (auto simp: rows(1) split: if_splits)
  have fresh: "\<not> same_version y c" if "dict_get (descriptors d) i = Some y" for i y
    using Added.hyps(3) dict_get_value [OF that] by (auto simp: list_all_iff)
  have "i = j" if "dict_get (descriptors d') i = Some x" "dict_get (descriptors d') j = Some y" "same_version x y" for i j x y
  proof (cases "i = cd_id c \<or> j = cd_id c")
    case True
    have self: "z = c" if "dict_get (descriptors d') (cd_id c) = Some z" for z using that by (simp add: rows(1))
    show ?thesis
      using True that self old [OF that(1)] old [OF that(2)] fresh unfolding same_version_def by metis
  next
    case False
    then show ?thesis
      using old [OF that(1)] old [OF that(2)] that(3) registry_ok_version [OF Added.prems] unfolding same_version_def by metis
  qed
  with table show ?case by (simp add: registry_ok_def)
next
  case (Moved d i c d' c')
  have id: "cd_id c' = i" using Moved.hyps(3) keyed_get [OF registry_okD(2) [OF Moved.prems] Moved.hyps(1)] by (simp add: descriptor_le_def)
  have cv: "cd_capability c' = cd_capability c" "cd_version c' = cd_version c"
    using Moved.hyps(3) definition_of_fields [of c' c] by (simp_all add: descriptor_le_def)
  have keys: "dict_keys (descriptors d') = dict_keys (descriptors d)"
    using dict_get_key [OF Moved.hyps(1)] by (simp add: Moved.hyps(2) dict_set_same_keys)
  have "table_ok descriptors cd_id d'"
    by (rule table_ok_rows [OF Moved.hyps(5)])
      (use keyed_set [OF registry_okD(2) [OF Moved.prems] id] table_okD(3) [OF registry_okD(3) [OF Moved.prems]]
        frame_drawn [OF Moved.hyps(5)] in \<open>simp_all add: Moved.hyps(2) keys [unfolded Moved.hyps(2)] del: set_map\<close>)
  moreover have "j = k" if "dict_get (descriptors d') j = Some x" "dict_get (descriptors d') k = Some y" "same_version x y" for j k x y
  proof -
    have "\<exists>x'. dict_get (descriptors d) j = Some x' \<and> cd_capability x' = cd_capability x \<and> cd_version x' = cd_version x"
      if "dict_get (descriptors d') j = Some x" for j x
      using that Moved.hyps(1) cv by (auto simp: Moved.hyps(2) dict_get_set split: if_splits)
    then show ?thesis using that registry_ok_version [OF Moved.prems] unfolding same_version_def by metis
  qed
  ultimately show ?case by (simp add: registry_ok_def)
qed

section \<open>What the calls write\<close>

lemma quiet_write: "registry_ok d \<Longrightarrow> env_le (db_env d) e \<Longrightarrow> registry_write g d (d\<lparr>db_env := e\<rparr>)"
  by (rule registry_write.Quiet) (simp_all add: registry_frame_env registry_okD(1))

lemma resolve_owner_simps [simp]:
  "cd_visibility (resolve_owner t a) = cd_visibility a" "cd_capability (resolve_owner t a) = cd_capability a"
  "cd_version (resolve_owner t a) = cd_version a" "cd_class (resolve_owner t a) = cd_class a"
  by (simp_all add: resolve_owner_def)

lemma register_writes:
  assumes ok: "registry_ok d" and g: "g \<Longrightarrow> cd_visibility a = ''global''"
  shows "registry_write g d (snd (register tenant project a d))"
proof -
  have quiet: "registry_write g d d" using quiet_write [OF ok env_le_refl] by simp
  show ?thesis
  proof (cases "check_registration a")
    case None
    show ?thesis
      using ok
    proof (cases rule: register_body_cases [of d tenant project "resolve_owner tenant a"])
      case (added c d' now)
      have vis: "cd_visibility c = cd_visibility a" by (subst added(2)) simp
      have "registry_write g d d'"
        by (rule registry_write.Added [OF refl added(2-8)]) (use vis g in simp)
      then show ?thesis by (simp add: register_def None transact_def added(1))
    qed (use quiet quiet_write [OF ok] in \<open>simp_all add: register_def None transact_def\<close>)
  qed (use quiet in \<open>simp add: register_def\<close>)
qed

lemma transition_descriptor_writes:
  assumes ok: "registry_ok d" and target: "target \<noteq> ''ACTIVE''"
  shows "registry_write g d (snd (transition_descriptor tenant project i target d))"
proof -
  have quiet: "registry_write g d d" using quiet_write [OF ok env_le_refl] by simp
  show ?thesis
  proof (cases "descriptor_by_id tenant i d")
    case None
    then show ?thesis using quiet by (simp add: transition_descriptor_def require_descriptor_def transact_def)
  next
    case (Some c)
    have c: "dict_get (descriptors d) i = Some c" "row_visible tenant c"
      using Some by (auto simp: descriptor_by_id_def split: option.splits if_splits)
    show ?thesis
    proof (cases "target \<in> set (succs LIFECYCLE_TRANSITIONS (cd_status c))")
      case False
      then show ?thesis using quiet Some by (simp add: transition_descriptor_def require_descriptor_def transact_def transition_def)
    next
      case True
      let ?now = "fst (clock_now (db_env d))" and ?d1 = "d\<lparr>db_env := snd (clock_now (db_env d))\<rparr>"
      let ?f = "\<lambda>c. let c1 = c\<lparr>cd_status := target, cd_updated_at := ?now\<rparr> in
        if target = ''DEPRECATED'' then c1\<lparr>cd_deprecated_at := Some ?now\<rparr>
        else if target = ''RETIRED'' then c1\<lparr>cd_retired_at := Some ?now\<rparr> else c1"
      let ?d2 = "?d1\<lparr>descriptors := dict_set i (?f c) (descriptors d)\<rparr>"
      have le: "descriptor_le c (?f c)" and status: "cd_status (?f c) = target"
        using True by (auto simp: descriptor_le_def capability_definition.defs)
      have vis: "row_visible tenant (?f c)" using c(2) by (simp add: row_visible_def Let_def)
      have upd: "update_descriptor tenant i ?f ?d1 = (Inr (), ?d2)"
        using Some c table_update_eq [OF keyed_ok [OF registry_okD(2) [OF ok]] c(1), of ?f]
        by (simp add: update_descriptor_def descriptor_by_id_def)
      have req: "require_descriptor tenant i ?d2 = Inr (?f c)"
        using vis by (simp add: require_descriptor_def descriptor_by_id_def dict_get_set)
      have log2: "log_ok ?d2" by (rule log_ok_env [OF registry_okD(1) [OF ok]]) simp_all
      obtain ev d' where ev: "append_event (descriptor_event ''CapabilityDescriptorTransitioned'' i tenant project
          [(''from'', JStr (cd_status c)), (''to'', JStr (cd_status (?f c)))]) ?d2 = (Inr ev, d')"
          "registry_frame ?d2 d'" "descriptors d' = descriptors ?d2"
        by (rule event_frame [OF log2])
      have "registry_frame d ?d2" using registry_okD(1) [OF ok] by (simp add: registry_frame_def grows_same)
      then have frame: "registry_frame d d'" using ev(2) by (rule registry_frame_trans)
      have "snd (transition_descriptor tenant project i target d) = d'"
        using Some True upd req ev(1)
        by (simp add: transition_descriptor_def require_descriptor_def transact_def transition_def read_clock_eq and_then_def Let_def)
      moreover have "registry_write g d d'"
        by (rule registry_write.Moved [OF c(1) _ le _ frame]) (use ev(3) status target in simp_all)
      ultimately show ?thesis by simp
    qed
  qed
qed

fun registers_global :: "registry_op \<Rightarrow> bool" where
  "registers_global (Register t p a) \<longleftrightarrow> cd_visibility a = ''global''"
| "registers_global _ \<longleftrightarrow> True"

lemma seed_all_writes:
  assumes "registry_ok d"
  shows "(registry_write True)\<^sup>*\<^sup>* d (snd (seed_all tenant project w ss d))"
  using assms
proof (induction ss arbitrary: d)
  case (Cons s ss)
  obtain r d1 where reg: "register tenant project (seed_registration w s) d = (r, d1)" by force
  have "cd_visibility (seed_registration w s) = ''global''" by (simp add: seed_registration_def)
  then have w1: "registry_write True d d1"
    using register_writes [OF Cons.prems, of True "seed_registration w s" tenant project] by (simp add: reg)
  then have "(registry_write True)\<^sup>*\<^sup>* d1 (snd (seed_all tenant project w ss d1))"
    by (rule Cons.IH [OF registry_write_ok [OF _ Cons.prems]])
  with w1 show ?case
    by (auto simp: and_then_def reg intro: converse_rtranclp_into_rtranclp split: sum.split prod.split)
qed simp

interpretation registry_service: service registry_step registry_ok "\<lambda>op. registry_write (registers_global op)"
proof
  fix op and d :: "'x registry_db_scheme"
  assume ok: "registry_ok d"
  show "(registry_write (registers_global op))\<^sup>*\<^sup>* d (registry_step op d)"
  proof (cases op)
    case (Register t p a)
    then show ?thesis using register_writes [OF ok, of "registers_global op" a t p] by (simp add: r_into_rtranclp)
  qed (use transition_descriptor_writes [OF ok] seed_all_writes [OF ok] in
      \<open>simp_all add: deprecate_def retire_def seed_capabilities_def r_into_rtranclp\<close>)
next
  fix op and d d' :: "'x registry_db_scheme"
  assume "registry_write (registers_global op) d d'" "registry_ok d"
  then show "registry_ok d'" by (rule registry_write_ok)
qed

text \<open>One catalogue for everyone: every row is global, and a capability has at most one active version.\<close>

definition sole_active :: "'x registry_db_scheme \<Rightarrow> bool" where
  "sole_active d \<longleftrightarrow> list_all (\<lambda>c. cd_visibility c = ''global'') (dict_values (descriptors d))
    \<and> distinct (map cd_capability (filter (\<lambda>c. cd_status c = ''ACTIVE'') (dict_values (descriptors d))))"

lemma distinct_map_filter_iff:
  assumes "keyed f t"
  shows "distinct (map g (filter P (dict_values t))) \<longleftrightarrow>
    (\<forall>i j x y. dict_get t i = Some x \<longrightarrow> dict_get t j = Some y \<longrightarrow> P x \<longrightarrow> P y \<longrightarrow> g x = g y \<longrightarrow> i = j)"
    (is "?L \<longleftrightarrow> ?R")
proof
  assume ?L
  then have inj: "inj_on g (set (filter P (dict_values t)))" by (simp add: distinct_map)
  show ?R
  proof (intro allI impI)
    fix i j x y assume xy: "dict_get t i = Some x" "dict_get t j = Some y" "P x" "P y" "g x = g y"
    then have "x = y" using inj_onD [OF inj] dict_get_value [OF xy(1)] dict_get_value [OF xy(2)] by (simp del: set_map)
    then show "i = j" using keyed_get [OF assms] xy(1,2) by metis
  qed
next
  assume R: ?R
  have "inj_on g (set (filter P (dict_values t)))"
  proof (rule inj_onI)
    fix x y assume "x \<in> set (filter P (dict_values t))" "y \<in> set (filter P (dict_values t))" "g x = g y"
    then have xy: "dict_get t (f x) = Some x" "dict_get t (f y) = Some y" "P x" "P y" "g x = g y"
      using keyed_in [OF assms] by (simp_all del: set_map)
    have "f x = f y" by (rule R [rule_format, OF xy])
    with xy(1,2) show "x = y" by (metis option.inject)
  qed
  moreover have "distinct (filter P (dict_values t))"
    by (rule distinct_filter [OF distinct_map [of f "dict_values t", THEN iffD1, OF keyed_distinct [OF assms], THEN conjunct1]])
  ultimately show ?L by (simp add: distinct_map)
qed

lemma sole_active_iff:
  assumes "registry_ok d"
  shows "sole_active d \<longleftrightarrow> (\<forall>i c. dict_get (descriptors d) i = Some c \<longrightarrow> cd_visibility c = ''global'')
    \<and> (\<forall>i j c c'. dict_get (descriptors d) i = Some c \<longrightarrow> dict_get (descriptors d) j = Some c' \<longrightarrow> cd_status c = ''ACTIVE'' \<longrightarrow>
        cd_status c' = ''ACTIVE'' \<longrightarrow> cd_capability c = cd_capability c' \<longrightarrow> i = j)"
proof -
  have "list_all P (dict_values (descriptors d)) \<longleftrightarrow> (\<forall>i c. dict_get (descriptors d) i = Some c \<longrightarrow> P c)" for P
    using in_dict_values [OF keyed_ok [OF registry_okD(2) [OF assms]]] by (auto simp: list_all_iff simp del: set_map)
  then show ?thesis by (simp add: sole_active_def distinct_map_filter_iff [OF registry_okD(2) [OF assms]])
qed

lemma sole_activeD:
  assumes "sole_active d" and "registry_ok d" and "dict_get (descriptors d) i = Some c"
  shows "cd_visibility c = ''global''"
    and "dict_get (descriptors d) j = Some c' \<Longrightarrow> cd_status c = ''ACTIVE'' \<Longrightarrow> cd_status c' = ''ACTIVE'' \<Longrightarrow>
      cd_capability c = cd_capability c' \<Longrightarrow> i = j"
  using assms(1,3) unfolding sole_active_iff [OF assms(2)] by blast+

lemma find_active:
  assumes "sole_active d" and "registry_ok d" and "dict_get (descriptors d) i = Some c" and "cd_status c = ''ACTIVE''"
  shows "get_active_by_capability_id tenant (cd_capability c) d = Some c"
proof -
  have "c \<in> set (visible_rows tenant d)"
    using dict_get_value [OF assms(3)] sole_activeD(1) [OF assms(1-3)] by (simp add: visible_rows_def row_visible_def del: set_map)
  then have "get_active_by_capability_id tenant (cd_capability c) d \<noteq> None"
    using assms(4) unfolding get_active_by_capability_id_def find_None_iff by blast
  then obtain p where p: "get_active_by_capability_id tenant (cd_capability c) d = Some p" by blast
  have "i = cd_id p" using sole_activeD(2) [OF assms(1-3) get_active_SomeD(1) [OF assms(2) p]] get_active_SomeD(2,3) [OF assms(2) p] assms(4) by simp
  then show ?thesis using p get_active_SomeD(1) [OF assms(2) p] assms(3) by simp
qed

lemma registry_write_sole:
  assumes "registry_write True d d'" and "registry_ok d" and "sole_active d"
  shows "sole_active d'"
  using assms
proof (cases rule: registry_write.cases)
  case Quiet
  then show ?thesis using assms(3) by (simp add: sole_active_def)
next
  case (Added tenant a previous c now)
  note ok = assms(2) and sole = assms(3)
  note rows = added_rows(1) [OF ok Added(1,5), of now, folded Added(7)]
  have cap: "cd_capability c = cd_capability a" "cd_status c = ''ACTIVE''" using Added(2) by (metis new_descriptor_simps(3), metis new_descriptor_simps(9))
  have old: "\<exists>y. dict_get (descriptors d) i = Some y \<and> cd_visibility y = cd_visibility x" if "dict_get (descriptors d') i = Some x" "i \<noteq> cd_id c" for i x
    using that get_active_SomeD(1) [OF ok] Added(1) by (cases previous) (auto simp: rows split: if_splits)
  have active: "dict_get (descriptors d) i = Some x \<and> cd_capability x \<noteq> cd_capability c"
    if x: "dict_get (descriptors d') i = Some x" "cd_status x = ''ACTIVE''" "i \<noteq> cd_id c" for i x
  proof
    show get: "dict_get (descriptors d) i = Some x" using x by (cases previous) (auto simp: rows split: if_splits)
    show "cd_capability x \<noteq> cd_capability c"
    proof
      assume "cd_capability x = cd_capability c"
      then have p: "previous = Some x" using find_active [OF sole ok get x(2), of tenant] cap(1) Added(1) by simp
      then have "i = cd_id x" using keyed_get [OF registry_okD(2) [OF ok] get] by simp
      then have "dict_get (descriptors d') i = Some (deprecated_by (cd_id c) now x)" using x(3) p by (simp add: rows)
      then have "cd_status x = ''DEPRECATED''" using x(1) deprecated_by_simps(7) by (metis option.inject)
      then show False using x(2) by simp
    qed
  qed
  show ?thesis
    unfolding sole_active_iff [OF registry_write_ok [OF assms(1,2)]]
  proof (intro conjI allI impI)
    fix i x assume x: "dict_get (descriptors d') i = Some x"
    show "cd_visibility x = ''global''"
    proof (cases "i = cd_id c")
      case True
      then show ?thesis using x Added(9) by (simp add: rows)
    next
      case False
      then show ?thesis using old [OF x] sole_activeD(1) [OF sole ok] by metis
    qed
  next
    fix i j x y
    assume xy: "dict_get (descriptors d') i = Some x" "dict_get (descriptors d') j = Some y" "cd_status x = ''ACTIVE''"
      "cd_status y = ''ACTIVE''" "cd_capability x = cd_capability y"
    have self: "z = c" if "dict_get (descriptors d') (cd_id c) = Some z" for z using that by (simp add: rows)
    show "i = j"
      using active [OF xy(1,3)] active [OF xy(2,4)] self xy sole_activeD(2) [OF sole ok] by metis
  qed
next
  case (Moved i c c')
  note ok = assms(2) and sole = assms(3)
  have vis: "cd_visibility c' = cd_visibility c" by (rule definition_of_fields(3)) (use Moved(3) in \<open>simp add: descriptor_le_def\<close>)
  have act: "dict_get (descriptors d) k = Some x" if "dict_get (descriptors d') k = Some x" "cd_status x = ''ACTIVE''" for k x
    using that Moved(2,4) by (auto simp: dict_get_set split: if_splits)
  show ?thesis
    unfolding sole_active_iff [OF registry_write_ok [OF assms(1,2)]]
  proof (intro conjI allI impI)
    fix k x assume "dict_get (descriptors d') k = Some x"
    then show "cd_visibility x = ''global''"
      using sole_activeD(1) [OF sole ok] Moved(1,2) vis by (auto simp: dict_get_set split: if_splits)
  next
    fix k j x y
    assume "dict_get (descriptors d') k = Some x" "dict_get (descriptors d') j = Some y" "cd_status x = ''ACTIVE''"
      "cd_status y = ''ACTIVE''" "cd_capability x = cd_capability y"
    then show "k = j" using act sole_activeD(2) [OF sole ok] by metis
  qed
qed

section \<open>Registering again\<close>

lemma get_version_found:
  assumes ok: "registry_ok d" and c: "dict_get (descriptors d) i = Some c" "row_visible tenant c"
  shows "get_by_capability_and_version tenant (cd_capability c) (cd_version c) d = Some c"
proof -
  have "c \<in> set (visible_rows tenant d)" using dict_get_value [OF c(1)] c(2) by (simp add: visible_rows_def del: set_map)
  then have "get_by_capability_and_version tenant (cd_capability c) (cd_version c) d \<noteq> None"
    unfolding get_by_capability_and_version_def find_None_iff by blast
  then obtain x where x: "get_by_capability_and_version tenant (cd_capability c) (cd_version c) d = Some x" by blast
  have xs: "x \<in> set (dict_values (descriptors d))" "same_version x c"
    using find_SomeD [OF x [unfolded get_by_capability_and_version_def]] by (auto simp: visible_rows_def same_version_def)
  have get: "dict_get (descriptors d) (cd_id x) = Some x" by (rule keyed_in [OF registry_okD(2) [OF ok] xs(1)])
  have "cd_id x = i" by (rule registry_ok_version [OF ok get c(1) xs(2)])
  then show ?thesis using x get c(1) by simp
qed

lemma register_stores:
  assumes ok: "registry_ok d" and run: "register tenant project a d = (Inr c, d')"
  shows "registry_ok d'" "dict_get (descriptors d') (cd_id c) = Some c" "row_visible tenant c" "cd_capability c = cd_capability a"
    "cd_version c = cd_version a" "cd_hash c = descriptor_hash (resolve_owner tenant a)" "check_registration a = None"
proof -
  have "registry_write False d d'" using register_writes [OF ok, of False a tenant project] by (simp add: run)
  then show ok': "registry_ok d'" using registry_write_ok ok by blast
  show check: "check_registration a = None" using run by (cases "check_registration a") (simp_all add: register_def)
  let ?goal = "dict_get (descriptors d') (cd_id c) = Some c \<and> row_visible tenant c \<and> cd_capability c = cd_capability a
    \<and> cd_version c = cd_version a \<and> cd_hash c = descriptor_hash (resolve_owner tenant a)"
  have ?goal
    using ok
  proof (cases rule: register_body_cases [of d tenant project "resolve_owner tenant a"])
    case (known x)
    then have "x = c" "d' = d" using run by (simp_all add: register_def check transact_def)
    then show ?thesis using known(2-5) keyed_in [OF registry_okD(2) [OF ok], of c] by (auto simp: visible_rows_def)
  next
    case (refused err e)
    then show ?thesis using run by (simp add: register_def check transact_def)
  next
    case (added x d2 now)
    then have x: "x = c" "d2 = d'" using run by (simp_all add: register_def check transact_def)
    have "cd_capability c = cd_capability a" "cd_version c = cd_version a" "cd_hash c = descriptor_hash (resolve_owner tenant a)"
      by (subst added(2) [unfolded x], simp)+
    then show ?thesis
      using added_rows(1) [OF ok refl added(5) [unfolded x], where k = "cd_id c" and now = now] added(4,7) by (simp add: x)
  qed
  then show "dict_get (descriptors d') (cd_id c) = Some c" "row_visible tenant c" "cd_capability c = cd_capability a"
    "cd_version c = cd_version a" "cd_hash c = descriptor_hash (resolve_owner tenant a)" by blast+
qed

lemma registry_run_le:
  assumes "registry_ok d"
  shows "registry_ok (registry_run ops d) \<and> rows_le (descriptors d) (descriptors (registry_run ops d))"
  unfolding registry_run_def
proof (rule registry_service.run_keeps [OF assms])
  fix op d1 d2 assume "registry_write (registers_global op) d1 d2" "registry_ok d1" "rows_le (descriptors d) (descriptors d1)"
  then show "rows_le (descriptors d) (descriptors d2)" using registry_write_le rows_le_trans by blast
qed simp

section \<open>Seeding\<close>

lemma register_adds:
  assumes ok: "registry_ok d" and check: "check_registration a = None"
    and mine: "cd_visibility a = ''global'' \<or> cd_owner (resolve_owner tenant a) = Some tenant"
    and new: "list_all (\<lambda>c. cd_capability c = cd_capability a \<longrightarrow> cd_version c \<noteq> cd_version a) (dict_values (descriptors d))"
  obtains c d' now previous where "register tenant project a d = (Inr c, d')" "registry_ok d'"
    "get_active_by_capability_id tenant (cd_capability a) d = previous" "descriptors d' = registered_rows previous c now (descriptors d)"
    "definition_of c = definition_of (resolve_owner tenant a)" "cd_certification c = rg_certification a" "cd_status c = ''ACTIVE''"
    "cd_id c \<notin> set (dict_keys (descriptors d))"
  using ok
proof (cases rule: register_body_cases [of d tenant project "resolve_owner tenant a"])
  case (known c)
  then show thesis using new by (auto simp: visible_rows_def list_all_iff)
next
  case (refused err e)
  then show thesis using new mine by (auto simp: list_ex_iff list_all_iff)
next
  case (added c d' now)
  have run: "register tenant project a d = (Inr c, d')" using added(1) by (simp add: register_def check transact_def)
  have "definition_of c = definition_of (resolve_owner tenant a)" "cd_certification c = rg_certification (resolve_owner tenant a)" "cd_status c = ''ACTIVE''"
    by (subst added(2), simp)+
  moreover have "rg_certification (resolve_owner tenant a) = rg_certification a" by (simp add: resolve_owner_def)
  ultimately show thesis using run register_stores(1) [OF ok run] added(5,7) by (intro that [of c d' _ now]) simp_all
qed

lemma register_fresh:
  assumes ok: "registry_ok d" and check: "check_registration a = None" and global: "cd_visibility a = ''global''"
    and new: "list_all (\<lambda>c. cd_capability c \<noteq> cd_capability a) (dict_values (descriptors d))"
  obtains c d' where "register tenant project a d = (Inr c, d')" "registry_ok d'" "descriptors d' = descriptors d @ [(cd_id c, c)]"
    "definition_of c = definition_of a" "cd_certification c = rg_certification a" "cd_status c = ''ACTIVE''" "cd_id c \<notin> set (dict_keys (descriptors d))"
proof -
  have none: "get_active_by_capability_id tenant (cd_capability a) d = None"
    using new by (auto simp: get_active_by_capability_id_def find_None_iff visible_rows_def list_all_iff)
  have "list_all (\<lambda>c. cd_capability c = cd_capability a \<longrightarrow> cd_version c \<noteq> cd_version a) (dict_values (descriptors d))"
    using new by (simp add: list_all_iff)
  then obtain c d' now previous where r: "register tenant project a d = (Inr c, d')" "registry_ok d'"
    "get_active_by_capability_id tenant (cd_capability a) d = previous" "descriptors d' = registered_rows previous c now (descriptors d)"
    "definition_of c = definition_of (resolve_owner tenant a)" "cd_certification c = rg_certification a" "cd_status c = ''ACTIVE''"
    "cd_id c \<notin> set (dict_keys (descriptors d))"
    by (rule register_adds [OF ok check disjI1 [OF global]])
  have "resolve_owner tenant a = a" by (simp add: resolve_owner_def global)
  then show thesis using r none by (intro that [of c d']) (simp_all add: registered_rows_def)
qed

text \<open>One row for each seed, in the order of the seeds, as it was declared.\<close>

definition seeded_as :: "string \<Rightarrow> seed_capability \<Rightarrow> capability_descriptor \<Rightarrow> bool" where
  "seeded_as w s c \<longleftrightarrow> definition_of c = definition_of (seed_registration w s) \<and> cd_certification c = ''CERTIFIED'' \<and> cd_status c = ''ACTIVE''"

lemma seeded_as_capability: "seeded_as w s c \<Longrightarrow> cd_capability c = sd_capability s"
  unfolding seeded_as_def by (drule conjunct1, drule definition_of_fields(1)) (simp add: seed_registration_def)

lemma seed_all_fresh:
  assumes "registry_ok d" and "list_all (\<lambda>s. check_registration (seed_registration w s) = None) ss"
    and "distinct (map sd_capability ss)"
    and "list_all (\<lambda>c. cd_capability c \<notin> set (map sd_capability ss)) (dict_values (descriptors d))"
  shows "\<exists>cs d'. seed_all tenant project w ss d = (Inr cs, d') \<and> registry_ok d' \<and> list_all2 (seeded_as w) ss cs
    \<and> descriptors d' = descriptors d @ map (\<lambda>c. (cd_id c, c)) cs"
  using assms
proof (induction ss arbitrary: d)
  case (Cons s ss)
  let ?a = "seed_registration w s"
  have a: "check_registration ?a = None" "cd_visibility ?a = ''global''" "cd_capability ?a = sd_capability s" "rg_certification ?a = ''CERTIFIED''"
    using Cons.prems(2) by (simp_all add: seed_registration_def)
  have new: "list_all (\<lambda>c. cd_capability c \<noteq> cd_capability ?a) (dict_values (descriptors d))"
    using Cons.prems(4) unfolding list_all_iff by (simp add: a(3))
  obtain c d1 where reg: "register tenant project ?a d = (Inr c, d1)" "registry_ok d1" "descriptors d1 = descriptors d @ [(cd_id c, c)]"
      "definition_of c = definition_of ?a" "cd_certification c = rg_certification ?a" "cd_status c = ''ACTIVE''"
    by (rule register_fresh [OF Cons.prems(1) a(1,2) new])
  have as: "seeded_as w s c" using reg(4-6) a(4) by (simp add: seeded_as_def)
  have old: "list_all (\<lambda>c. cd_capability c \<notin> set (map sd_capability ss)) (dict_values (descriptors d1))"
    using Cons.prems(3,4) seeded_as_capability [OF as] unfolding reg(3) by (simp add: list_all_iff)
  obtain cs d' where rest: "seed_all tenant project w ss d1 = (Inr cs, d')" "registry_ok d'" "list_all2 (seeded_as w) ss cs"
      "descriptors d' = descriptors d1 @ map (\<lambda>c. (cd_id c, c)) cs"
    using Cons.IH [OF reg(2) _ _ old] Cons.prems(2,3) by auto
  then show ?case using as reg(1,3) by (intro exI [of _ "c # cs"] exI [of _ d']) (simp add: and_then_def)
qed simp

lemma check_seed:
  "check_registration (seed_registration w s) = None \<longleftrightarrow> sd_capability s \<noteq> [] \<and> sd_version s \<noteq> [] \<and> sd_side_effect s \<in> set SIDE_EFFECT_CLASSES
    \<and> sd_risk s \<in> set RISK_CLASSES \<and> sd_tier s \<in> set ENFORCEMENT_TIERS"
  by (simp add: check_registration_def seed_registration_def CERTIFICATION_STATUSES_def VISIBILITIES_def)

lemma seeds_admissible:
  "list_all (\<lambda>s. check_registration (seed_registration w s) = None) SEED_CAPABILITIES" "distinct (map sd_capability SEED_CAPABILITIES)"
  unfolding check_seed by code_simp+

lemma seed_classes: "list_all (\<lambda>s. side_effect_class_for (sd_capability s) = Inr (sd_side_effect s)) SEED_CAPABILITIES"
  by code_simp

lemma registry_run_sole:
  assumes "registry_ok d" and "sole_active d" and "list_all registers_global ops"
  shows "sole_active (registry_run ops d)"
proof -
  have "registry_ok (registry_run ops d) \<and> sole_active (registry_run ops d)"
    unfolding registry_run_def
  proof (rule registry_service.run_keeps [where P = sole_active, OF assms(1,2)])
    fix op d1 d2 assume w: "op \<in> set ops" "registry_write (registers_global op) d1 d2" "registry_ok d1" "sole_active d1"
    then have "registers_global op" using assms(3) by (simp add: list_all_iff)
    with w(2) have "registry_write True d1 d2" by simp
    then show "sole_active d2" using w(3,4) by (rule registry_write_sole)
  qed
  then show ?thesis by simp
qed

section \<open>Properties\<close>

text \<open>
  C7. The catalogue. As long as only global descriptors are registered, whatever is registered, deprecated,
  retired or seeded, every stored version keeps its definition, hash and certification, its status moves only
  forward, no version of a capability is stored twice, and a capability has at most one active version.
\<close>

theorem registry_sound:
  assumes "registry_ok d" and "sole_active d" and "list_all registers_global ops"
  shows "rows_le (descriptors d) (descriptors (registry_run ops d))
    \<and> distinct (map (\<lambda>c. (cd_capability c, cd_version c)) (dict_values (descriptors (registry_run ops d))))
    \<and> sole_active (registry_run ops d)"
proof -
  note ok = registry_run_le [OF assms(1), of ops]
  have "distinct (map (\<lambda>c. (cd_capability c, cd_version c)) (filter (\<lambda>_. True) (dict_values (descriptors (registry_run ops d)))))"
    using registry_ok_version [OF conjunct1 [OF ok]]
    unfolding distinct_map_filter_iff [OF registry_okD(2) [OF conjunct1 [OF ok]]] same_version_def by blast
  then show ?thesis using ok registry_run_sole [OF assms] by simp
qed

definition empty_registry :: registry_db where
  "empty_registry = \<lparr>db_log = empty_event_store,
     db_env = \<lparr>ids = (\<lambda>n. replicate n (CHR ''i'')), drawn = 0, clock = int, ticks = 0\<rparr>,
     approvals = [], standings = [], attentions = [], audits = [], effects = [], descriptors = []\<rparr>"

lemma empty_registry_ok: "registry_ok empty_registry" "sole_active empty_registry" "descriptors empty_registry = []"
proof -
  have "inj (ids (db_env empty_registry))" by (rule injI) (auto simp: empty_registry_def dest: arg_cong [where f = length])
  then have "log_ok empty_registry"
    by (intro log_okI) (simp_all add: empty_registry_def empty_event_store_def db_ok_def gapless_def aggregate_events_def outbox_ok_def commands_ok_def)
  then show "registry_ok empty_registry" by (simp add: registry_ok_def table_ok_def) (simp add: empty_registry_def)
qed (simp_all add: empty_registry_def sole_active_def)

theorem registry_sound_witness:
  "sole_active (registry_run [Seed ''t'' ''p'' ''w'', Retire ''t'' ''p'' ''iiii'', Seed ''u'' ''q'' ''w''] empty_registry)"
  using registry_sound [OF empty_registry_ok(1,2), of "[Seed ''t'' ''p'' ''w'', Retire ''t'' ''p'' ''iiii'', Seed ''u'' ''q'' ''w'']"]
  by simp

text \<open>
  C8. A version is registered once. When \<open>register\<close> has returned a descriptor, then after any further calls a
  registration of the same capability and version by the same tenant writes nothing: it returns that
  descriptor, as its lifecycle has left it, when the definition is the same by its hash, and is refused
  otherwise.
\<close>

theorem version_registered_once:
  assumes ok: "registry_ok d" and run: "register tenant project a d = (Inr c, d')"
    and b: "cd_capability b = cd_capability a" "cd_version b = cd_version a" "check_registration b = None"
  shows "\<exists>c'. dict_get (descriptors (registry_run ops d')) (cd_id c) = Some c' \<and> descriptor_le c c'
    \<and> register tenant project' b (registry_run ops d') =
      ((if cd_hash c = descriptor_hash (resolve_owner tenant b) then Inr c'
        else Inl (DdeError ''POLICY_DENIED''
          (''capability_id='' @ py_repr (cd_capability a) @ '' version='' @ py_repr (cd_version a)
            @ '' is already registered with different definition content'') False
          [(''capability_id'', JStr (cd_capability a)), (''version'', JStr (cd_version a)),
           (''existing_descriptor_id'', JStr (cd_id c))])), registry_run ops d')"
proof -
  note stored = register_stores [OF ok run]
  note later = registry_run_le [OF stored(1), of ops]
  obtain c' where c': "dict_get (descriptors (registry_run ops d')) (cd_id c) = Some c'" "descriptor_le c c'"
    using later stored(2) by (auto simp: rows_le_def)
  have same: "cd_capability c' = cd_capability a" "cd_version c' = cd_version a" "row_visible tenant c'" "cd_hash c' = cd_hash c" "cd_id c' = cd_id c"
    using c'(2) definition_of_fields [of c' c] stored(3-5) by (simp_all add: descriptor_le_def row_visible_def)
  have "get_by_capability_and_version tenant (cd_capability a) (cd_version a) (registry_run ops d') = Some c'"
    using get_version_found [OF conjunct1 [OF later] c'(1) same(3)] same(1,2) by simp
  then have "register tenant project' b (registry_run ops d') =
      ((if cd_hash c = descriptor_hash (resolve_owner tenant b) then Inr c'
        else Inl (DdeError ''POLICY_DENIED''
          (''capability_id='' @ py_repr (cd_capability a) @ '' version='' @ py_repr (cd_version a)
            @ '' is already registered with different definition content'') False
          [(''capability_id'', JStr (cd_capability a)), (''version'', JStr (cd_version a)),
           (''existing_descriptor_id'', JStr (cd_id c))])), registry_run ops d')"
    using b same(4,5) by (simp add: register_def register_body_def transact_def)
  with c' show ?thesis by blast
qed

definition sample_registration :: registration where
  "sample_registration = seed_registration ''w'' (hd SEED_CAPABILITIES)"

lemma sample_registered:
  obtains c d' where "register ''t'' ''p'' sample_registration empty_registry = (Inr c, d')" "cd_status c = ''ACTIVE''"
proof -
  have "hd SEED_CAPABILITIES \<in> set SEED_CAPABILITIES" by (simp add: SEED_CAPABILITIES_def)
  then have "check_registration sample_registration = None"
    using seeds_admissible(1) [of "''w''"] unfolding sample_registration_def list_all_iff by blast
  moreover have "cd_visibility sample_registration = ''global''" by (simp add: sample_registration_def seed_registration_def)
  ultimately obtain c d' where "register ''t'' ''p'' sample_registration empty_registry = (Inr c, d')" "cd_status c = ''ACTIVE''"
    by (rule register_fresh [OF empty_registry_ok(1), of _ "''t''" "''p''"]) (simp_all add: empty_registry_ok(3))
  then show thesis by (rule that)
qed

theorem version_registered_once_witness:
  "\<exists>c d' c'. register ''t'' ''p'' sample_registration empty_registry = (Inr c, d') \<and>
    fst (register ''t'' ''q'' sample_registration (registry_run [Retire ''t'' ''p'' (cd_id c)] d')) = Inr c' \<and> descriptor_le c c'"
proof -
  obtain c d' where run: "register ''t'' ''p'' sample_registration empty_registry = (Inr c, d')" by (rule sample_registered)
  note stored = register_stores(6,7) [OF empty_registry_ok(1) run]
  show ?thesis
    using run stored(1) version_registered_once [OF empty_registry_ok(1) run refl refl stored(2), where project' = "''q''" and ops = "[Retire ''t'' ''p'' (cd_id c)]"]
    by auto
qed

text \<open>
  C9. Seeding a catalogue that is empty admits the whole portfolio: each seed is registered as declared,
  certified, and the one active version of its capability that every tenant reads, with the side-effect class
  \<open>side_effect_class_for\<close> answers.
\<close>

theorem portfolio_seeded:
  assumes ok: "registry_ok d" and empty: "descriptors d = []"
  shows "\<exists>cs d'. seed_capabilities tenant project w d = (Inr cs, d') \<and> list_all2 (seeded_as w) SEED_CAPABILITIES cs
    \<and> list_all (\<lambda>s. \<exists>c. get_active reader (sd_capability s) d' = Inr c \<and> seeded_as w s c
        \<and> side_effect_class_for (sd_capability s) = Inr (cd_class c)) SEED_CAPABILITIES"
proof -
  obtain cs d' where run: "seed_all tenant project w SEED_CAPABILITIES d = (Inr cs, d')" "registry_ok d'"
      "list_all2 (seeded_as w) SEED_CAPABILITIES cs" "descriptors d' = map (\<lambda>c. (cd_id c, c)) cs"
    using seed_all_fresh [OF ok seeds_admissible, of tenant project w] empty by auto
  have "sole_active d"  by (simp add: sole_active_def empty)
  then have "sole_active (registry_run [Seed tenant project w] d)" by (rule registry_run_sole [OF ok]) simp
  then have sole: "sole_active d'" by (simp add: registry_run_def service_run_def seed_capabilities_def run(1))
  have active: "list_all (\<lambda>s. \<exists>c. get_active reader (sd_capability s) d' = Inr c \<and> seeded_as w s c
        \<and> side_effect_class_for (sd_capability s) = Inr (cd_class c)) SEED_CAPABILITIES"
    unfolding list_all_iff
  proof
    fix s assume s: "s \<in> set SEED_CAPABILITIES"
    then obtain c where c: "c \<in> set cs" "seeded_as w s c"
      using run(3) by (metis in_set_conv_nth list_all2_conv_all_nth)
    have "dict_get (descriptors d') (cd_id c) = Some c"
      by (rule keyed_in [OF registry_okD(2) [OF run(2)]]) (use c(1) run(4) in simp)
    then have "get_active_by_capability_id reader (sd_capability s) d' = Some c"
      using find_active [OF sole run(2), of "cd_id c" c reader] c(2) seeded_as_capability [OF c(2)] by (simp add: seeded_as_def)
    moreover have "cd_class c = sd_side_effect s"
      using definition_of_fields(5) [of c "seed_registration w s"] c(2) by (simp add: seeded_as_def) (simp add: seed_registration_def)
    ultimately show "\<exists>c. get_active reader (sd_capability s) d' = Inr c \<and> seeded_as w s c
        \<and> side_effect_class_for (sd_capability s) = Inr (cd_class c)"
      using c(2) seed_classes s by (simp add: get_active_def list_all_iff)
  qed
  have "seed_capabilities tenant project w d = (Inr cs, d')" by (simp add: seed_capabilities_def run(1))
  with active run(3) show ?thesis by blast
qed

theorem portfolio_seeded_witness:
  "\<exists>cs d'. seed_capabilities ''t'' ''p'' ''w'' empty_registry = (Inr cs, d') \<and> list_all2 (seeded_as ''w'') SEED_CAPABILITIES cs"
  using portfolio_seeded [OF empty_registry_ok(1,3), of "''t''" "''p''" "''w''" "''u''"] by blast

text \<open>
  Without the restriction to global descriptors the last part of the first property fails: a tenant with a private
  active version, reading another tenant's global one too, supersedes only the first row it finds.
\<close>

definition private_registration :: registration where
  "private_registration = sample_registration\<lparr>cd_version := ''p'', cd_visibility := ''tenant''\<rparr>"

lemma sample_facts:
  "cd_capability sample_registration = ''capability.run_local_process''" "cd_class sample_registration = ''WORKSPACE_LOCAL''"
  "cd_risk sample_registration = ''low''" "cd_tier sample_registration = ''T1''" "rg_certification sample_registration = ''CERTIFIED''"
  "cd_visibility sample_registration = ''global''" "cd_owner sample_registration = None"
  "''WORKSPACE_LOCAL'' \<in> set SIDE_EFFECT_CLASSES" "''low'' \<in> set RISK_CLASSES" "''T1'' \<in> set ENFORCEMENT_TIERS"
  "''CERTIFIED'' \<in> set CERTIFICATION_STATUSES" "''global'' \<in> set VISIBILITIES" "''tenant'' \<in> set VISIBILITIES"
  by (simp_all add: sample_registration_def seed_registration_def SEED_CAPABILITIES_def SIDE_EFFECT_CLASSES_def RISK_CLASSES_def
    ENFORCEMENT_TIERS_def CERTIFICATION_STATUSES_def VISIBILITIES_def)

theorem two_global_versions_active:
  "map (\<lambda>c. (cd_version c, cd_visibility c, cd_status c)) (dict_values (descriptors (registry_run
      [Register ''a'' ''p'' private_registration, Register ''b'' ''p'' (sample_registration\<lparr>cd_version := ''2''\<rparr>),
       Register ''a'' ''p'' (sample_registration\<lparr>cd_version := ''3''\<rparr>)] empty_registry)))
    = [(''p'', ''tenant'', ''DEPRECATED''), (''2'', ''global'', ''ACTIVE''), (''3'', ''global'', ''ACTIVE'')]"
proof -
  let ?g2 = "sample_registration\<lparr>cd_version := ''2''\<rparr>" and ?g3 = "sample_registration\<lparr>cd_version := ''3''\<rparr>"
  have check: "check_registration private_registration = None" "check_registration ?g2 = None" "check_registration ?g3 = None"
    by (simp_all add: check_registration_def sample_facts private_registration_def)
  note [simp] = resolve_owner_def sample_facts private_registration_def empty_registry_ok(3)
    get_active_by_capability_id_def visible_rows_def row_visible_def registered_rows_def
  obtain c1 d1 n1 p1 where r1: "register ''a'' ''p'' private_registration empty_registry = (Inr c1, d1)" "registry_ok d1"
    "get_active_by_capability_id ''a'' (cd_capability private_registration) empty_registry = p1" "descriptors d1 = registered_rows p1 c1 n1 (descriptors empty_registry)"
    "definition_of c1 = definition_of (resolve_owner ''a'' private_registration)" "cd_certification c1 = rg_certification private_registration"
    "cd_status c1 = ''ACTIVE''" "cd_id c1 \<notin> set (dict_keys (descriptors empty_registry))"
    by (rule register_adds [OF empty_registry_ok(1) check(1)]) simp_all
  note c1 = definition_of_fields [OF r1(5)]
  have rows1: "descriptors d1 = [(cd_id c1, c1)]" using r1(3,4) by simp
  obtain c2 d2 n2 p2 where r2: "register ''b'' ''p'' ?g2 d1 = (Inr c2, d2)" "registry_ok d2"
    "get_active_by_capability_id ''b'' (cd_capability ?g2) d1 = p2" "descriptors d2 = registered_rows p2 c2 n2 (descriptors d1)"
    "definition_of c2 = definition_of (resolve_owner ''b'' ?g2)" "cd_certification c2 = rg_certification ?g2"
    "cd_status c2 = ''ACTIVE''" "cd_id c2 \<notin> set (dict_keys (descriptors d1))"
    by (rule register_adds [OF r1(2) check(2), of "''b''" "''p''"]) (simp_all add: rows1 c1)
  note c2 = definition_of_fields [OF r2(5)]
  have rows2: "descriptors d2 = [(cd_id c1, c1), (cd_id c2, c2)]" using r2(3,4) by (simp add: rows1 c1 r1(7))
  have ne: "cd_id c2 \<noteq> cd_id c1" using r2(8) by (simp add: rows1)
  obtain c3 d3 n3 p3 where r3: "register ''a'' ''p'' ?g3 d2 = (Inr c3, d3)" "registry_ok d3"
    "get_active_by_capability_id ''a'' (cd_capability ?g3) d2 = p3" "descriptors d3 = registered_rows p3 c3 n3 (descriptors d2)"
    "definition_of c3 = definition_of (resolve_owner ''a'' ?g3)" "cd_certification c3 = rg_certification ?g3"
    "cd_status c3 = ''ACTIVE''" "cd_id c3 \<notin> set (dict_keys (descriptors d2))"
    by (rule register_adds [OF r2(2) check(3), of "''a''" "''p''"]) (simp_all add: rows2 c1 c2)
  note c3 = definition_of_fields [OF r3(5)]
  have rows3: "descriptors d3 = [(cd_id c1, deprecated_by (cd_id c3) n3 c1), (cd_id c2, c2), (cd_id c3, c3)]"
    using r3(4) ne unfolding r3(3) [symmetric] by (simp add: rows2 c1 r1(7))
  have run: "registry_run [Register ''a'' ''p'' private_registration, Register ''b'' ''p'' ?g2, Register ''a'' ''p'' ?g3] empty_registry = d3"
    by (simp add: registry_run_def service_run_def r1(1) r2(1) r3(1) del: private_registration_def)
  show ?thesis unfolding run rows3 using c1 c2 c3 r2(7) r3(7) by simp
qed

end
