(* ===== verification/Leases.thy ===== *)
theory Leases
  imports Capabilities
begin

text \<open>
  \<open>engine/capabilities\<close>, the leases: a capability may be used under a lease (\<open>lease_service.py\<close>,
  \<open>lease_repository.py\<close>, \<open>lease_hashing.py\<close>, \<open>lease_states.py\<close>), and a run's use of them all can be
  stopped (\<open>kill_switch.py\<close>, \<open>process_registry.py\<close>). The stop is kept twice: a flag in the memory of the
  process and a row of the command ledger, which outlives it. What the operating system answers to the
  termination of a process is a parameter. Proved here: a lease is granted exactly against the active, certified
  version of its capability; its scope never changes and its end is final; a checkout succeeds only under a
  live lease of a run that is not stopped; and a stop that was armed holds, across restarts, until that run is
  disarmed.
\<close>

section \<open>Leases\<close>

text \<open>\<open>engine/contracts/capability_lease.py\<close>: the scope, which is what the hash covers, and the rest.\<close>

record lease_scope =
  lz_tenant :: uuid
  lz_project :: uuid
  lz_mission :: uuid
  lz_task :: uuid
  lz_plan :: uuid
  lz_run :: "uuid option"
  lz_environment :: "uuid option"
  lz_capability :: string
  lz_version :: string
  lz_resource :: "(string \<times> json) list"
  lz_operation :: string
  lz_constraints :: "(string \<times> json) list"

record capability_lease = lease_scope +
  lz_id :: uuid
  lz_policy :: string
  lz_issued_at :: time
  lz_expires_at :: time
  lz_revocable :: bool
  lz_status :: string
  lz_denied :: "string option"
  lz_revoked_at :: "time option"
  lz_revocation :: "string option"
  lz_hash :: string
  lz_requested_by :: string
  lz_created_at :: time
  lz_updated_at :: time

record lease_request = lease_scope +
  lr_by :: string
  lr_key :: string
  lr_policy :: string
  lr_ttl :: time

abbreviation scope_part :: "'x lease_scope_scheme \<Rightarrow> lease_scope" where
  "scope_part \<equiv> lease_scope.truncate"

definition lease_hash :: "'x lease_scope_scheme \<Rightarrow> string" where
  "lease_hash l =
    sha256_hex (canonical_json (JObj
      [(''tenant_id'', JStr (lz_tenant l)), (''project_id'', JStr (lz_project l)), (''mission_id'', JStr (lz_mission l)),
       (''task_id'', JStr (lz_task l)), (''execution_plan_id'', JStr (lz_plan l)), (''worker_run_id'', json_opt (lz_run l)),
       (''environment_id'', json_opt (lz_environment l)), (''capability_id'', JStr (lz_capability l)),
       (''capability_version'', JStr (lz_version l)), (''resource_scope'', JObj (lz_resource l)),
       (''operation_scope'', JStr (lz_operation l)), (''constraints'', JObj (lz_constraints l))]))"

definition lease_dump :: "capability_lease \<Rightarrow> (string \<times> json) list" where
  "lease_dump l =
    [(''lease_id'', JStr (lz_id l)), (''tenant_id'', JStr (lz_tenant l)), (''project_id'', JStr (lz_project l)),
     (''mission_id'', JStr (lz_mission l)), (''task_id'', JStr (lz_task l)), (''execution_plan_id'', JStr (lz_plan l)),
     (''worker_run_id'', json_opt (lz_run l)), (''environment_id'', json_opt (lz_environment l)),
     (''capability_id'', JStr (lz_capability l)), (''capability_version'', JStr (lz_version l)),
     (''resource_scope'', JObj (lz_resource l)), (''operation_scope'', JStr (lz_operation l)),
     (''constraints'', JObj (lz_constraints l)), (''issued_by_policy_version'', JStr (lz_policy l)),
     (''issued_at'', JInt (lz_issued_at l)), (''expires_at'', JInt (lz_expires_at l)), (''revocable'', JBool (lz_revocable l)),
     (''status'', JStr (lz_status l)), (''denied_reason'', json_opt (lz_denied l)), (''revoked_at'', json_when (lz_revoked_at l)),
     (''revocation_reason'', json_opt (lz_revocation l)), (''lease_hash'', JStr (lz_hash l)),
     (''requested_by'', JStr (lz_requested_by l)), (''created_at'', JInt (lz_created_at l)), (''updated_at'', JInt (lz_updated_at l))]"

definition lease_fields :: "string list" where
  "lease_fields = [''lease_id'', ''tenant_id'', ''project_id'', ''mission_id'', ''task_id'', ''execution_plan_id'', ''worker_run_id'',
     ''environment_id'', ''capability_id'', ''capability_version'', ''resource_scope'', ''operation_scope'', ''constraints'',
     ''issued_by_policy_version'', ''issued_at'', ''expires_at'', ''revocable'', ''status'', ''denied_reason'', ''revoked_at'',
     ''revocation_reason'', ''lease_hash'', ''requested_by'', ''created_at'', ''updated_at'']"

definition lease_validate :: "(string \<times> json) list \<Rightarrow> capability_lease option" where
  "lease_validate d =
    (if \<not> list_all (\<lambda>k. k \<in> set lease_fields) (dict_keys d) then None else do {
      i \<leftarrow> get_str d ''lease_id''; te \<leftarrow> get_str d ''tenant_id''; pr \<leftarrow> get_str d ''project_id'';
      mi \<leftarrow> get_str d ''mission_id''; ta \<leftarrow> get_str d ''task_id''; pl \<leftarrow> get_str d ''execution_plan_id'';
      ru \<leftarrow> get_optional d ''worker_run_id''; en \<leftarrow> get_optional d ''environment_id'';
      ca \<leftarrow> get_str d ''capability_id''; ve \<leftarrow> get_str d ''capability_version''; rs \<leftarrow> get_obj d ''resource_scope'';
      op \<leftarrow> get_str d ''operation_scope''; co \<leftarrow> get_obj d ''constraints''; po \<leftarrow> get_str d ''issued_by_policy_version'';
      ia \<leftarrow> get_int d ''issued_at''; ex \<leftarrow> get_int d ''expires_at''; rv \<leftarrow> get_bool d ''revocable''; st \<leftarrow> get_str d ''status'';
      de \<leftarrow> get_optional d ''denied_reason''; ra \<leftarrow> get_when d ''revoked_at''; rr \<leftarrow> get_optional d ''revocation_reason'';
      ha \<leftarrow> get_str d ''lease_hash''; rb \<leftarrow> get_str d ''requested_by''; cr \<leftarrow> get_int d ''created_at''; up \<leftarrow> get_int d ''updated_at'';
      Some \<lparr>lz_tenant = te, lz_project = pr, lz_mission = mi, lz_task = ta, lz_plan = pl, lz_run = ru, lz_environment = en,
        lz_capability = ca, lz_version = ve, lz_resource = rs, lz_operation = op, lz_constraints = co, lz_id = i, lz_policy = po,
        lz_issued_at = ia, lz_expires_at = ex, lz_revocable = rv, lz_status = st, lz_denied = de, lz_revoked_at = ra,
        lz_revocation = rr, lz_hash = ha, lz_requested_by = rb, lz_created_at = cr, lz_updated_at = up\<rparr> })"

section \<open>Processes\<close>

text \<open>\<open>process_registry.py\<close>.\<close>

record registered_process =
  rp_tenant :: uuid
  rp_project :: uuid
  rp_run :: uuid
  rp_lease :: uuid
  rp_pid :: int
  rp_created_at :: rat

record termination_outcome =
  to_pid :: int
  to_phase :: string
  to_detail :: "string option"

type_synonym run_key = "uuid \<times> uuid \<times> uuid"
type_synonym process_registry = "(run_key, (int, registered_process) dict) dict"

text \<open>What \<open>_terminate_authority_process\<close> does to a pid: a phase, or the text of the exception.\<close>

type_synonym os_kill = "int \<Rightarrow> string + string"

definition register_process :: "registered_process \<Rightarrow> process_registry \<Rightarrow> process_registry" where
  "register_process h reg =
    (let key = (rp_tenant h, rp_project h, rp_run h);
         bucket = (case dict_get reg key of None \<Rightarrow> [] | Some b \<Rightarrow> b)
     in dict_set key (dict_set (rp_pid h) h bucket) reg)"

definition unregister_process :: "run_key \<Rightarrow> int \<Rightarrow> process_registry \<Rightarrow> process_registry" where
  "unregister_process key pid reg =
    (case dict_get reg key of
       None \<Rightarrow> reg
     | Some bucket \<Rightarrow>
         (let bucket' = filter (\<lambda>(p, _). p \<noteq> pid) bucket
          in if bucket' = [] then filter (\<lambda>(k, _). k \<noteq> key) reg else dict_set key bucket' reg))"

definition processes_for_run :: "run_key \<Rightarrow> process_registry \<Rightarrow> registered_process list" where
  "processes_for_run key reg = (case dict_get reg key of None \<Rightarrow> [] | Some bucket \<Rightarrow> dict_values bucket)"

definition attempt_termination :: "os_kill \<Rightarrow> registered_process \<Rightarrow> termination_outcome" where
  "attempt_termination os h =
    (case os (rp_pid h) of
       Inl exc \<Rightarrow> \<lparr>to_pid = rp_pid h, to_phase = ''failed'', to_detail = Some exc\<rparr>
     | Inr phase \<Rightarrow> \<lparr>to_pid = rp_pid h, to_phase = phase, to_detail = None\<rparr>)"

definition sweep_run :: "os_kill \<Rightarrow> run_key \<Rightarrow> process_registry \<Rightarrow> termination_outcome list" where
  "sweep_run os key reg = map (attempt_termination os) (processes_for_run key reg)"

section \<open>Repository\<close>

text \<open>The database, and the two registries in the memory of the process.\<close>

record lease_db = registry_db +
  leases :: "(uuid, capability_lease) dict"
  kill_flags :: "run_key list"
  processes :: process_registry

definition insert_lease :: "capability_lease \<Rightarrow> 'x lease_db_scheme \<Rightarrow> unit result \<times> 'x lease_db_scheme" where
  "insert_lease l d =
    (case table_insert ''capability_leases'' (lz_id l) l (leases d) of
       Inl err \<Rightarrow> (Inl err, d)
     | Inr t \<Rightarrow> (Inr (), d\<lparr>leases := t\<rparr>))"

definition get_active_for_run :: "uuid \<Rightarrow> string \<Rightarrow> 'x lease_db_scheme \<Rightarrow> capability_lease option" where
  "get_active_for_run run cap d =
    (case sort_key (\<lambda>l. - lz_created_at l) (filter (\<lambda>l. lz_run l = Some run \<and> lz_capability l = cap) (dict_values (leases d))) of
       [] \<Rightarrow> None
     | l # _ \<Rightarrow> Some l)"

definition leases_for_run :: "uuid \<Rightarrow> 'x lease_db_scheme \<Rightarrow> capability_lease list" where
  "leases_for_run run d = sort_key lz_created_at (filter (\<lambda>l. lz_run l = Some run) (dict_values (leases d)))"

definition list_held_for_run :: "uuid \<Rightarrow> 'x lease_db_scheme \<Rightarrow> capability_lease list" where
  "list_held_for_run run d =
    sort_key lz_created_at (filter (\<lambda>l. lz_run l = Some run \<and> lz_status l \<in> set HELD_LEASE_STATUSES) (dict_values (leases d)))"

section \<open>The service\<close>

definition CAPABILITY_LEASE_POLICY_VERSION :: string where
  "CAPABILITY_LEASE_POLICY_VERSION = ''capability-lease-v1''"

definition CAPABILITY_RUN_LOCAL_PROCESS :: string where
  "CAPABILITY_RUN_LOCAL_PROCESS = ''capability.run_local_process''"

text \<open>\<open>timedelta(hours=24)\<close>.\<close>

definition DEFAULT_LEASE_TTL :: time where "DEFAULT_LEASE_TTL = 86400000000"

text \<open>
  \<open>_run\<close>: an exception of the body is raised again after a commit, so what was written before it stays. Not so
  after a refusal of the database, which has aborted the transaction: then the tables are as before, and only
  the draws and the registries in memory keep what was done.
\<close>

definition settle :: "('x lease_db_scheme \<Rightarrow> 'r result \<times> 'x lease_db_scheme) \<Rightarrow> 'x lease_db_scheme \<Rightarrow> 'r result \<times> 'x lease_db_scheme" where
  "settle body d =
    (case body d of
       (Inl (IntegrityError n), d') \<Rightarrow>
         (Inl (IntegrityError n), d\<lparr>db_env := db_env d', kill_flags := kill_flags d', processes := processes d'\<rparr>)
     | (r, d') \<Rightarrow> (r, d'))"

definition require_lease :: "uuid \<Rightarrow> 'x lease_db_scheme \<Rightarrow> capability_lease result" where
  "require_lease i d =
    (case dict_get (leases d) i of
       None \<Rightarrow> Inl (DdeError ''POLICY_DENIED'' ''Unknown capability lease'' False [])
     | Some l \<Rightarrow> Inr l)"

definition lease_event :: "string \<Rightarrow> capability_lease \<Rightarrow> (string \<times> json) list \<Rightarrow> event_args" where
  "lease_event ty l payload =
    \<lparr>ea_type = ty, ea_aggregate_type = ''capability_lease'', ea_aggregate_id = lz_id l, ea_tenant = lz_tenant l,
     ea_project = lz_project l, ea_payload = payload, ea_mission = Some (lz_mission l), ea_task = Some (lz_task l),
     ea_correlation = None, ea_causation = None\<rparr>"

text \<open>\<open>_transition\<close>; \<open>extra\<close> writes the \<open>extra_fields\<close>.\<close>

definition transition_lease ::
  "capability_lease \<Rightarrow> string \<Rightarrow> string \<Rightarrow> (string \<times> json) list \<Rightarrow> (capability_lease \<Rightarrow> capability_lease)
    \<Rightarrow> 'x lease_db_scheme \<Rightarrow> capability_lease result \<times> 'x lease_db_scheme"
where
  "transition_lease current target ty payload extra d =
    (case transition (lz_status current) target CAPABILITY_LEASE_TRANSITIONS of
       Inl err \<Rightarrow> (Inl err, d)
     | Inr st \<Rightarrow>
         let (now, d1) = read_clock d;
             d2 = d1\<lparr>leases := table_update (lz_id current) (\<lambda>l. extra (l\<lparr>lz_status := st, lz_updated_at := now\<rparr>)) (leases d1)\<rparr>
         in if lz_id current \<notin> set (dict_keys (leases d1)) then
              (Inl (DdeError ''VERSION_CONFLICT'' ''Unknown capability lease'' False [(''lease_id'', JStr (lz_id current))]), d1)
            else (case require_lease (lz_id current) d2 of
                Inl err \<Rightarrow> (Inl err, d2)
              | Inr updated \<Rightarrow> and_then (append_event (lease_event ty updated payload)) (\<lambda>_. Pair (Inr updated)) d2))"

definition replay_lease :: "command_idempotency \<Rightarrow> capability_lease result" where
  "replay_lease rec =
    (if ci_status rec = ''completed'' \<and> ci_result rec \<noteq> None then
       (case ci_result rec of
          Some (JObj payload) \<Rightarrow>
            (case lease_validate payload of None \<Rightarrow> Inl (ValueError ''CapabilityLease'') | Some l \<Rightarrow> Inr l)
        | _ \<Rightarrow> Inl (ValueError ''CapabilityLease''))
     else if ci_status rec = ''failed'' then
       Inl (DdeError ''VERSION_CONFLICT'' ''Command previously failed; refusing to re-execute'' False
         [(''idempotency_key'', JStr (ci_key rec))])
     else Inl (DdeError ''VERSION_CONFLICT'' ''Command is already in progress'' True [(''idempotency_key'', JStr (ci_key rec))]))"

subsection \<open>Requesting\<close>

text \<open>\<open>_evaluate\<close>: a reason to deny, or none.\<close>

definition evaluate_lease :: "uuid \<Rightarrow> string \<Rightarrow> string \<Rightarrow> 'x lease_db_scheme \<Rightarrow> string option result" where
  "evaluate_lease tenant cap ver d =
    (case get_active tenant cap d of
       Inl (DdeError code msg retry ds) \<Rightarrow>
         (if code \<noteq> ''POLICY_DENIED'' then Inl (DdeError code msg retry ds)
          else Inr (Some (''no ACTIVE capability descriptor for capability_id='' @ py_repr cap)))
     | Inl err \<Rightarrow> Inl err
     | Inr c \<Rightarrow>
         if cd_version c \<noteq> ver then
           Inr (Some (''ACTIVE descriptor version is '' @ py_repr (cd_version c) @ '', not the requested '' @ py_repr ver))
         else if cd_certification c \<noteq> ''CERTIFIED'' then
           Inr (Some (''descriptor certification_status is '' @ py_repr (cd_certification c) @ '', not CERTIFIED''))
         else if cd_status c \<noteq> ''ACTIVE'' then
           Inr (Some (''descriptor lifecycle_status is '' @ py_repr (cd_status c) @ '', not ACTIVE''))
         else Inr None)"

definition requested_lease :: "lease_request \<Rightarrow> uuid \<Rightarrow> time \<Rightarrow> capability_lease" where
  "requested_lease a i now =
    lease_scope.extend (scope_part a)
      (capability_lease.fields i (lr_policy a) now (now + lr_ttl a) True ''REQUESTED'' None None None (lease_hash a) (lr_by a) now now)"

definition capability_payload :: "lease_request \<Rightarrow> (string \<times> json) list" where
  "capability_payload a = [(''capability_id'', JStr (lz_capability a)), (''capability_version'', JStr (lz_version a))]"

text \<open>The decision on a lease under evaluation, and the result filed in the command ledger.\<close>

definition decide_lease ::
  "lease_request \<Rightarrow> uuid \<Rightarrow> capability_lease \<Rightarrow> 'x lease_db_scheme \<Rightarrow> capability_lease result \<times> 'x lease_db_scheme"
where
  "decide_lease a cid evaluating d =
    (case evaluate_lease (lz_tenant a) (lz_capability a) (lz_version a) d of
       Inl err \<Rightarrow> (Inl err, d)
     | Inr (Some reason) \<Rightarrow>
         and_then (transition_lease evaluating ''DENIED'' ''CapabilityLeaseDenied'' [(''reason'', JStr reason)]
             (\<lambda>l. l\<lparr>lz_denied := Some reason\<rparr>))
           (\<lambda>l. and_then (complete_command cid (JObj (lease_dump l))) (\<lambda>_. Pair (Inr l))) d
     | Inr None \<Rightarrow>
         and_then (transition_lease evaluating ''GRANTED'' ''CapabilityLeaseGranted'' (capability_payload a) id)
           (\<lambda>l. and_then (complete_command cid (JObj (lease_dump l))) (\<lambda>_. Pair (Inr l))) d)"

definition file_request :: "lease_request \<Rightarrow> uuid \<Rightarrow> 'x lease_db_scheme \<Rightarrow> capability_lease result \<times> 'x lease_db_scheme" where
  "file_request a cid d =
    (let (now, d1) = read_clock d;
         (i, d2) = draw_id d1;
         l = requested_lease a i now
     in and_then (insert_lease l)
          (\<lambda>_. and_then (append_event (lease_event ''CapabilityLeaseRequested'' l (capability_payload a)))
            (\<lambda>_. and_then (transition_lease l ''EVALUATING'' ''CapabilityLeaseEvaluating'' [] id)
              (decide_lease a cid))) d2)"

definition request_lease :: "lease_request \<Rightarrow> 'x lease_db_scheme \<Rightarrow> capability_lease result \<times> 'x lease_db_scheme" where
  "request_lease a = settle
    (and_then (begin_command (lz_tenant a) (lz_project a) (lr_key a) (lease_hash a))
      (\<lambda>(rec, is_new). if \<not> is_new then Pair (replay_lease rec) else file_request a (ci_command rec)))"

subsection \<open>The stop\<close>

text \<open>\<open>kill_switch.py\<close>.\<close>

definition KILL_FLAG_REASON :: string where "KILL_FLAG_REASON = ''kill_flag''"
definition CHECKOUT_ENFORCEMENT_EVENT_TYPE :: string where "CHECKOUT_ENFORCEMENT_EVENT_TYPE = ''CapabilityKillFlagEnforced''"
definition RUN_STOP_ARMED_EVENT_TYPE :: string where "RUN_STOP_ARMED_EVENT_TYPE = ''CapabilityRunStopArmed''"
definition STOP_STATE_ARMED :: string where "STOP_STATE_ARMED = ''ARMED''"
definition STOP_STATE_DISARMED :: string where "STOP_STATE_DISARMED = ''DISARMED''"

definition run_stop_idempotency_key :: "uuid \<Rightarrow> string" where
  "run_stop_idempotency_key run = ''kill_flag_run_stop:'' @ run"

definition stop_result :: "string \<Rightarrow> string \<Rightarrow> json" where
  "stop_result state reason = JObj [(''state'', JStr state), (''reason'', JStr reason)]"

definition stop_state :: "json option \<Rightarrow> string option" where
  "stop_state res =
    (case res of
       Some (JObj kvs) \<Rightarrow>
         if dict_get kvs ''state'' = Some (JStr STOP_STATE_ARMED) then Some STOP_STATE_ARMED
         else if dict_get kvs ''state'' = Some (JStr STOP_STATE_DISARMED) then Some STOP_STATE_DISARMED else None
     | _ \<Rightarrow> None)"

definition read_durable_run_stop :: "uuid \<Rightarrow> uuid \<Rightarrow> 'x lease_db_scheme \<Rightarrow> bool" where
  "read_durable_run_stop tenant run d =
    (case dict_get (es_commands (db_log d)) (tenant, run_stop_idempotency_key run) of
       None \<Rightarrow> False
     | Some rec \<Rightarrow> stop_state (ci_result rec) = Some STOP_STATE_ARMED)"

definition run_stop_hash :: "uuid \<Rightarrow> string" where
  "run_stop_hash run = sha256_hex (canonical_json (JObj [(''worker_run_id'', JStr run), (''kind'', JStr ''run_stop'')]))"

definition record_run_stop :: "uuid \<Rightarrow> uuid \<Rightarrow> uuid \<Rightarrow> bool \<Rightarrow> string \<Rightarrow> 'x lease_db_scheme \<Rightarrow> unit result \<times> 'x lease_db_scheme" where
  "record_run_stop tenant project run armed reason =
    and_then (begin_command tenant project (run_stop_idempotency_key run) (run_stop_hash run))
      (\<lambda>(rec, _). and_then
        (complete_command (ci_command rec) (stop_result (if armed then STOP_STATE_ARMED else STOP_STATE_DISARMED) reason))
        (\<lambda>_. Pair (Inr ())))"

definition arm_flag :: "run_key \<Rightarrow> 'x lease_db_scheme \<Rightarrow> 'x lease_db_scheme" where
  "arm_flag key d = d\<lparr>kill_flags := List.insert key (kill_flags d)\<rparr>"

definition disarm_flag :: "run_key \<Rightarrow> 'x lease_db_scheme \<Rightarrow> 'x lease_db_scheme" where
  "disarm_flag key d = d\<lparr>kill_flags := removeAll key (kill_flags d)\<rparr>"

definition is_run_stopped :: "uuid \<Rightarrow> uuid \<Rightarrow> uuid \<Rightarrow> 'x lease_db_scheme \<Rightarrow> bool" where
  "is_run_stopped tenant project run d \<longleftrightarrow> (tenant, project, run) \<in> set (kill_flags d) \<or> read_durable_run_stop tenant run d"

text \<open>Revoking one lease for the stop: \<open>revoked_at\<close> is read before the transition.\<close>

definition stop_lease :: "capability_lease \<Rightarrow> 'x lease_db_scheme \<Rightarrow> capability_lease result \<times> 'x lease_db_scheme" where
  "stop_lease l d =
    (let (revoked_at, d1) = read_clock d in
     transition_lease l ''REVOKED'' ''CapabilityLeaseRevoked'' [(''reason'', JStr KILL_FLAG_REASON)]
       (\<lambda>x. x\<lparr>lz_revoked_at := Some revoked_at, lz_revocation := Some KILL_FLAG_REASON\<rparr>) d1)"

fun stop_leases :: "capability_lease list \<Rightarrow> 'x lease_db_scheme \<Rightarrow> capability_lease list result \<times> 'x lease_db_scheme" where
  "stop_leases [] d = (Inr [], d)"
| "stop_leases (l # ls) d = and_then (stop_lease l) (\<lambda>r. and_then (stop_leases ls) (\<lambda>rs. Pair (Inr (r # rs)))) d"

subsection \<open>The sweep of live processes\<close>

definition PROCESS_KILL_TARGET_SYSTEM :: string where "PROCESS_KILL_TARGET_SYSTEM = ''process_termination''"
definition PROCESS_KILL_OPERATION :: string where "PROCESS_KILL_OPERATION = ''terminate_run_processes''"

definition termination_effect :: "uuid \<Rightarrow> uuid \<Rightarrow> uuid \<Rightarrow> uuid \<Rightarrow> registered_process \<Rightarrow> termination_outcome \<Rightarrow> string \<Rightarrow> prepare_args" where
  "termination_effect tenant project run mission h out cls =
    (let operation = PROCESS_KILL_OPERATION @ '':'' @ int_str (rp_pid h) in
     \<lparr>pa_scope = \<lparr>sc_tenant = tenant, sc_project = project, sc_mission = mission, sc_system = PROCESS_KILL_TARGET_SYSTEM,
        sc_resource = ''pid:'' @ int_str (rp_pid h), sc_operation = operation\<rparr>,
      pa_worker_run = run, pa_lease = rp_lease h, pa_class = cls,
      pa_key = run @ '':effect:'' @ operation @ '':'' @ rp_lease h,
      pa_evidence = (if to_detail out = None then Some (to_phase out) else None), pa_approval = None\<rparr>)"

definition journal_termination ::
  "uuid \<Rightarrow> uuid \<Rightarrow> uuid \<Rightarrow> uuid \<Rightarrow> registered_process \<Rightarrow> termination_outcome \<Rightarrow> 'x lease_db_scheme \<Rightarrow> unit result \<times> 'x lease_db_scheme"
where
  "journal_termination tenant project run mission h out d =
    (case side_effect_class_for CAPABILITY_RUN_LOCAL_PROCESS of
       Inl err \<Rightarrow> (Inl err, d)
     | Inr cls \<Rightarrow>
         and_then (prepare_in (termination_effect tenant project run mission h out cls))
           (\<lambda>e. and_then (mark_sent_in (xe_id e))
             (\<lambda>_. and_then (mark_confirmed_in (xe_id e)
                 (case to_detail out of None \<Rightarrow> Some (to_phase out) | Some t \<Rightarrow> Some t)
                 (Some (effect_response_hash [(''pid'', JInt (rp_pid h)), (''phase'', JStr (to_phase out)),
                    (''detail'', json_opt (to_detail out))])))
               (\<lambda>_. Pair (Inr ())))) d)"

text \<open>The loop over the handles; \<open>outcome_by_pid\<close> is a dictionary, so the last outcome of a pid counts.\<close>

fun journal_terminations ::
  "uuid \<Rightarrow> uuid \<Rightarrow> uuid \<Rightarrow> uuid \<Rightarrow> (int, termination_outcome) dict \<Rightarrow> registered_process list \<Rightarrow> 'x lease_db_scheme
    \<Rightarrow> unit result \<times> 'x lease_db_scheme"
where
  "journal_terminations tenant project run mission outs [] d = (Inr (), d)"
| "journal_terminations tenant project run mission outs (h # hs) d =
    (case dict_get outs (rp_pid h) of
       None \<Rightarrow> journal_terminations tenant project run mission outs hs d
     | Some out \<Rightarrow>
         and_then (journal_termination tenant project run mission h out)
           (\<lambda>_. journal_terminations tenant project run mission outs hs) d)"

definition sweep_live_processes ::
  "os_kill \<Rightarrow> uuid \<Rightarrow> uuid \<Rightarrow> uuid \<Rightarrow> uuid option \<Rightarrow> 'x lease_db_scheme \<Rightarrow> termination_outcome list result \<times> 'x lease_db_scheme"
where
  "sweep_live_processes os tenant project run mission d =
    (let key = (tenant, project, run);
         outcomes = sweep_run os key (processes d)
     in case mission of
          None \<Rightarrow> (Inr outcomes, d)
        | Some m \<Rightarrow>
            and_then (journal_terminations tenant project run m (foldl (\<lambda>t out. dict_set (to_pid out) out t) [] outcomes)
                (processes_for_run key (processes d)))
              (\<lambda>_. Pair (Inr outcomes)) d)"

definition stop_event :: "string \<Rightarrow> uuid \<Rightarrow> uuid \<Rightarrow> uuid \<Rightarrow> uuid option \<Rightarrow> uuid option \<Rightarrow> (string \<times> json) list \<Rightarrow> event_args" where
  "stop_event ty tenant project run mission task payload =
    \<lparr>ea_type = ty, ea_aggregate_type = ''worker_run'', ea_aggregate_id = run, ea_tenant = tenant,
     ea_project = project, ea_payload = payload, ea_mission = mission, ea_task = task,
     ea_correlation = None, ea_causation = None\<rparr>"

text \<open>The sweep behind the recorded stop: leases, processes, and the summary.\<close>

definition sweep_run_stop :: "os_kill \<Rightarrow> uuid \<Rightarrow> uuid \<Rightarrow> uuid \<Rightarrow> 'x lease_db_scheme \<Rightarrow> capability_lease list result \<times> 'x lease_db_scheme" where
  "sweep_run_stop os tenant project run d =
    and_then (stop_leases (list_held_for_run run d))
      (\<lambda>revoked.
        let mission = (case revoked of [] \<Rightarrow> None | l # _ \<Rightarrow> Some (lz_mission l));
            task = (case revoked of [] \<Rightarrow> None | l # _ \<Rightarrow> Some (lz_task l))
        in and_then (sweep_live_processes os tenant project run mission)
             (\<lambda>terminated. and_then (append_event (stop_event RUN_STOP_ARMED_EVENT_TYPE tenant project run mission task
                 [(''reason'', JStr KILL_FLAG_REASON), (''revoked_count'', JInt (int (length revoked))),
                  (''revoked_lease_ids'', JList (map (JStr \<circ> lz_id) revoked)),
                  (''terminated_processes'', JList (map (\<lambda>out. JObj [(''pid'', JInt (to_pid out)), (''phase'', JStr (to_phase out))]) terminated))]))
               (\<lambda>_. Pair (Inr revoked)))) d"

definition arm_run_stop :: "os_kill \<Rightarrow> uuid \<Rightarrow> uuid \<Rightarrow> uuid \<Rightarrow> 'x lease_db_scheme \<Rightarrow> capability_lease list result \<times> 'x lease_db_scheme" where
  "arm_run_stop os tenant project run = settle (\<lambda>d.
    and_then (record_run_stop tenant project run True KILL_FLAG_REASON)
      (\<lambda>_. sweep_run_stop os tenant project run) (arm_flag (tenant, project, run) d))"

definition disarm_run_stop :: "uuid \<Rightarrow> uuid \<Rightarrow> uuid \<Rightarrow> string \<Rightarrow> 'x lease_db_scheme \<Rightarrow> unit result \<times> 'x lease_db_scheme" where
  "disarm_run_stop tenant project run reason = settle (\<lambda>d.
    record_run_stop tenant project run False reason (disarm_flag (tenant, project, run) d))"

subsection \<open>Checkout\<close>

definition activate_held_lease :: "capability_lease \<Rightarrow> 'x lease_db_scheme \<Rightarrow> capability_lease result \<times> 'x lease_db_scheme" where
  "activate_held_lease l d =
    (let (now, d1) = read_clock d in
     if lz_status l \<notin> set HELD_LEASE_STATUSES then
       (Inl (DdeError ''POLICY_DENIED'' (''Capability lease is '' @ lz_status l @ '', not held -- fail closed'') False
          [(''lease_id'', JStr (lz_id l)), (''status'', JStr (lz_status l))]), d1)
     else if lz_expires_at l \<le> now then
       and_then (transition_lease l ''EXPIRED'' ''CapabilityLeaseTransitioned''
           [(''from'', JStr (lz_status l)), (''to'', JStr ''EXPIRED'')] id)
         (\<lambda>_. Pair (Inl (DdeError ''POLICY_DENIED'' ''Capability lease has expired -- fail closed'' False
           [(''lease_id'', JStr (lz_id l))]))) d1
     else if lz_status l = ''GRANTED'' then transition_lease l ''ACTIVE'' ''CapabilityLeaseActivated'' [] id d1
     else (Inr l, d1))"

text \<open>\<open>_revoke_latest_lease_on_kill\<close>: a \<open>DdeError\<close> ends the loop and is swallowed.\<close>

fun stop_leases_best_effort :: "capability_lease list \<Rightarrow> 'x lease_db_scheme \<Rightarrow> unit result \<times> 'x lease_db_scheme" where
  "stop_leases_best_effort [] d = (Inr (), d)"
| "stop_leases_best_effort (l # ls) d =
    (case stop_lease l d of
       (Inl (DdeError c m r ds), d') \<Rightarrow> (Inr (), d')
     | (Inl err, d') \<Rightarrow> (Inl err, d')
     | (Inr _, d') \<Rightarrow> stop_leases_best_effort ls d')"

definition revoke_latest_lease_on_kill :: "uuid \<Rightarrow> 'x lease_db_scheme \<Rightarrow> unit result \<times> 'x lease_db_scheme" where
  "revoke_latest_lease_on_kill run d =
    stop_leases_best_effort (filter (\<lambda>l. lz_status l \<in> set HELD_LEASE_STATUSES) (leases_for_run run d)) d"

definition stopped_error :: "uuid \<Rightarrow> string \<Rightarrow> dde_error" where
  "stopped_error run cap =
    DdeError ''KILL_FLAG_ACTIVE'' ''Kill flag is armed for this worker run -- capability checkout refused'' False
      [(''worker_run_id'', JStr run), (''capability_id'', JStr cap), (''reason'', JStr KILL_FLAG_REASON)]"

definition require_active :: "uuid \<Rightarrow> uuid \<Rightarrow> uuid \<Rightarrow> string \<Rightarrow> 'x lease_db_scheme \<Rightarrow> capability_lease result \<times> 'x lease_db_scheme" where
  "require_active tenant project run cap = settle (\<lambda>d.
    if is_run_stopped tenant project run d then
      and_then (revoke_latest_lease_on_kill run)
        (\<lambda>_. and_then (append_event (stop_event CHECKOUT_ENFORCEMENT_EVENT_TYPE tenant project run None None
            [(''surface'', JStr ''checkout''), (''reason'', JStr KILL_FLAG_REASON)]))
          (\<lambda>_. Pair (Inl (stopped_error run cap)))) d
    else case get_active_for_run run cap d of
      None \<Rightarrow>
        (Inl (DdeError ''POLICY_DENIED'' ''No capability lease exists for this run and capability -- fail closed'' False
           [(''worker_run_id'', JStr run), (''capability_id'', JStr cap)]), d)
    | Some l \<Rightarrow> activate_held_lease l d)"

definition require_active_lease :: "uuid \<Rightarrow> uuid \<Rightarrow> uuid \<Rightarrow> string \<Rightarrow> 'x lease_db_scheme \<Rightarrow> capability_lease result \<times> 'x lease_db_scheme" where
  "require_active_lease tenant project i cap = settle (\<lambda>d.
    case require_lease i d of
      Inl err \<Rightarrow> (Inl err, d)
    | Inr l \<Rightarrow>
        if lz_tenant l \<noteq> tenant \<or> lz_project l \<noteq> project then
          (Inl (DdeError ''TENANT_SCOPE_VIOLATION'' ''Capability lease is outside this project scope'' False [(''lease_id'', JStr i)]), d)
        else if lz_capability l \<noteq> cap then
          (Inl (DdeError ''POLICY_DENIED'' ''Capability lease does not authorize the requested capability'' False
             [(''lease_id'', JStr i), (''expected'', JStr cap), (''actual'', JStr (lz_capability l))]), d)
        else case lz_run l of
          Some run \<Rightarrow>
            (Inl (DdeError ''POLICY_DENIED''
               ''WorkerRun-bound leases must use require_active() so kill flags cannot be bypassed'' False
               [(''lease_id'', JStr i), (''worker_run_id'', JStr run)]), d)
        | None \<Rightarrow> activate_held_lease l d)"

subsection \<open>Ending a lease\<close>

definition revoke_lease :: "uuid \<Rightarrow> string \<Rightarrow> 'x lease_db_scheme \<Rightarrow> capability_lease result \<times> 'x lease_db_scheme" where
  "revoke_lease i reason = settle (\<lambda>d.
    case require_lease i d of
      Inl err \<Rightarrow> (Inl err, d)
    | Inr current \<Rightarrow>
        let (now, d1) = read_clock d in
        transition_lease current ''REVOKED'' ''CapabilityLeaseRevoked'' [(''reason'', JStr reason)]
          (\<lambda>l. l\<lparr>lz_revoked_at := Some now, lz_revocation := Some reason\<rparr>) d1)"

definition consume_current :: "capability_lease \<Rightarrow> 'x lease_db_scheme \<Rightarrow> capability_lease result \<times> 'x lease_db_scheme" where
  "consume_current l = transition_lease l ''CONSUMED'' ''CapabilityLeaseConsumed'' [] id"

definition consume_lease :: "uuid \<Rightarrow> 'x lease_db_scheme \<Rightarrow> capability_lease result \<times> 'x lease_db_scheme" where
  "consume_lease i = settle (\<lambda>d.
    case require_lease i d of Inl err \<Rightarrow> (Inl err, d) | Inr current \<Rightarrow> consume_current current d)"

fun consume_leases :: "capability_lease list \<Rightarrow> 'x lease_db_scheme \<Rightarrow> capability_lease list result \<times> 'x lease_db_scheme" where
  "consume_leases [] d = (Inr [], d)"
| "consume_leases (l # ls) d =
    (if lz_status l \<noteq> ''ACTIVE'' then consume_leases ls d
     else and_then (consume_current l) (\<lambda>r. and_then (consume_leases ls) (\<lambda>rs. Pair (Inr (r # rs)))) d)"

definition consume_all_for_run :: "uuid \<Rightarrow> 'x lease_db_scheme \<Rightarrow> capability_lease list result \<times> 'x lease_db_scheme" where
  "consume_all_for_run run = settle (\<lambda>d. consume_leases (leases_for_run run d) d)"

section \<open>Calls\<close>

text \<open>\<open>Restart\<close> is a new process on the same database: its two registries are empty.\<close>

datatype lease_op =
    RequestLease lease_request
  | ArmRunStop os_kill uuid uuid uuid
  | DisarmRunStop uuid uuid uuid string
  | RequireActive uuid uuid uuid string
  | RequireActiveLease uuid uuid uuid string
  | RevokeLease uuid string
  | ConsumeLease uuid
  | ConsumeAllForRun uuid
  | RegisterProcess registered_process
  | UnregisterProcess run_key int
  | Catalogue registry_op
  | Restart

fun lease_step :: "lease_op \<Rightarrow> 'x lease_db_scheme \<Rightarrow> 'x lease_db_scheme" where
  "lease_step (RequestLease a) d = snd (request_lease a d)"
| "lease_step (ArmRunStop os t p r) d = snd (arm_run_stop os t p r d)"
| "lease_step (DisarmRunStop t p r w) d = snd (disarm_run_stop t p r w d)"
| "lease_step (RequireActive t p r c) d = snd (require_active t p r c d)"
| "lease_step (RequireActiveLease t p i c) d = snd (require_active_lease t p i c d)"
| "lease_step (RevokeLease i w) d = snd (revoke_lease i w d)"
| "lease_step (ConsumeLease i) d = snd (consume_lease i d)"
| "lease_step (ConsumeAllForRun r) d = snd (consume_all_for_run r d)"
| "lease_step (RegisterProcess h) d = d\<lparr>processes := register_process h (processes d)\<rparr>"
| "lease_step (UnregisterProcess k pid) d = d\<lparr>processes := unregister_process k pid (processes d)\<rparr>"
| "lease_step (Catalogue op) d = registry_step op d"
| "lease_step Restart d = d\<lparr>kill_flags := [], processes := []\<rparr>"

definition lease_run :: "lease_op list \<Rightarrow> 'x lease_db_scheme \<Rightarrow> 'x lease_db_scheme" where
  "lease_run = service_run lease_step"

section \<open>Invariant and frames\<close>

interpretation lease_rows: row_table leases "\<lambda>t d. d\<lparr>leases := t\<rparr>" lz_id
  by unfold_locales simp_all

definition lease_ok :: "'x lease_db_scheme \<Rightarrow> bool" where
  "lease_ok d \<longleftrightarrow> registry_ok d \<and> table_ok leases lz_id d"

lemma lease_okD:
  assumes "lease_ok d"
  shows "registry_ok d" "table_ok leases lz_id d" "log_ok d" "keyed lz_id (leases d)"
  using assms by (simp_all add: lease_ok_def table_ok_def)

text \<open>A table that is as it was stays well formed while the log grows beside it.\<close>

lemma table_ok_grows:
  assumes "table_ok rows rid d" and "grows d d'" and "rows d' = rows d"
  shows "table_ok rows rid d'"
proof -
  have "set (dict_keys (rows d)) \<subseteq> drawn_ids (db_env d')"
    by (rule order_trans [OF table_okD(3) [OF assms(1)] env_le_drawn]) (use assms(2) in \<open>simp add: grows_def\<close>)
  then show ?thesis using assms by (simp add: table_ok_def grows_def)
qed

lemma registry_ok_grows: "registry_ok d \<Longrightarrow> grows d d' \<Longrightarrow> descriptors d' = descriptors d \<Longrightarrow> registry_ok d'"
  using table_ok_grows [of descriptors cd_id d d'] by (simp add: registry_ok_def)

definition calm :: "'x lease_db_scheme \<Rightarrow> 'x lease_db_scheme \<Rightarrow> bool" where
  "calm d d' \<longleftrightarrow> grows d d' \<and> descriptors d' = descriptors d \<and> leases d' = leases d \<and> lease_db.more d' = lease_db.more d"

lemma calm_ok: "calm d d' \<Longrightarrow> lease_ok d \<Longrightarrow> lease_ok d'"
  using registry_ok_grows [of d d'] table_ok_grows [of leases lz_id d d'] by (simp add: lease_ok_def calm_def)

lemma calm_trans: "calm a b \<Longrightarrow> calm b c \<Longrightarrow> calm a c"
  by (auto simp: calm_def intro: grows_trans)

lemma calm_same: "log_ok d \<Longrightarrow> db_log d' = db_log d \<Longrightarrow> env_le (db_env d) (db_env d') \<Longrightarrow> descriptors d' = descriptors d \<Longrightarrow>
    leases d' = leases d \<Longrightarrow> lease_db.more d' = lease_db.more d \<Longrightarrow> calm d d'"
  by (simp add: calm_def grows_same)

lemma calm_log: "calm d d' \<Longrightarrow> log_ok d'"
  by (simp add: calm_def grows_def)

text \<open>A body that leaves the state calm, whether it returns or raises.\<close>

definition calms :: "('x lease_db_scheme \<Rightarrow> 'r result \<times> 'x lease_db_scheme) \<Rightarrow> 'x lease_db_scheme \<Rightarrow> bool" where
  "calms m d \<longleftrightarrow> calm d (snd (m d))"

lemma calms_and_then:
  assumes "calms m d" and "\<And>r d'. m d = (Inr r, d') \<Longrightarrow> calm d d' \<Longrightarrow> calms (f r) d'"
  shows "calms (and_then m f) d"
proof (cases "m d")
  case (Pair x d')
  then show ?thesis
    using assms calm_trans [of d d'] by (cases x) (simp_all add: calms_def and_then_def)
qed

lemma calms_Pair: "log_ok d \<Longrightarrow> calms (Pair r) d"
  by (simp add: calms_def calm_same)

lemma calms_run: "m d = m' d1 \<Longrightarrow> calm d d1 \<Longrightarrow> calms m' d1 \<Longrightarrow> calms m d"
  using calm_trans by (simp add: calms_def)

lemma calm_draws:
  assumes "log_ok d"
  shows "calm d (d\<lparr>db_env := snd (clock_now (db_env d))\<rparr>)" "calm d (d\<lparr>db_env := snd (uuid7 (snd (clock_now (db_env d))))\<rparr>)"
  using assms by (simp_all add: calm_same)

lemma event_calm:
  assumes "log_ok d"
  obtains ev d' where "append_event a d = (Inr ev, d')" "calm d d'" "es_commands (db_log d') = es_commands (db_log d)"
    "kill_flags d' = kill_flags d"
proof -
  obtain ev s e where "append_event a d = (Inr ev, d\<lparr>db_log := s, db_env := e\<rparr>)" "grows d (d\<lparr>db_log := s, db_env := e\<rparr>)"
      "es_commands s = es_commands (db_log d)"
    by (rule append_event_grows [OF assms])
  then show thesis by (intro that [of ev "d\<lparr>db_log := s, db_env := e\<rparr>"]) (simp_all add: calm_def)
qed

lemma event_calms: "log_ok d \<Longrightarrow> calms (append_event a) d"
  by (erule event_calm [where a = a]) (simp add: calms_def)

section \<open>Effects journaled in the stop\<close>

lemma complete_calms:
  assumes "log_ok d" and "in_progress cid d"
  shows "calms (complete_command cid res) d"
proof -
  obtain c s e where "complete_command cid res d = (Inr c, d\<lparr>db_log := s, db_env := e\<rparr>)" "grows d (d\<lparr>db_log := s, db_env := e\<rparr>)"
    by (rule complete_command_grows [OF assms])
  then show ?thesis by (simp add: calms_def calm_def)
qed

lemma insert_effect_calms:
  assumes "log_ok d"
  shows "calms (insert_effect e) d" and "db_log (snd (insert_effect e d)) = db_log d"
  using assms by (auto simp: calms_def insert_effect_def table_insert_def calm_same)

lemma write_prepared_calms:
  assumes "log_ok d" and p: "in_progress cid d"
  shows "calms (write_prepared a cid) d"
proof -
  let ?now = "fst (clock_now (db_env d))" and ?e1 = "snd (clock_now (db_env d))"
  let ?d2 = "d\<lparr>db_env := snd (uuid7 ?e1)\<rparr>" and ?e = "prepared_effect a (fst (uuid7 ?e1)) cid ?now"
  let ?ev = "append_event (effect_event ''ExternalEffectPrepared'' ?e
          [(''target_system'', JStr (xe_system ?e)), (''target_resource'', JStr (xe_resource ?e)),
           (''operation'', JStr (xe_operation ?e)), (''side_effect_class'', JStr (xe_class ?e))])"
  let ?rest = "and_then (complete_command cid (JObj (effect_dump ?e))) (\<lambda>_. Pair (Inr ?e))"
  show ?thesis
  proof (rule calms_run [OF _ calm_draws(2) [OF assms(1)]])
    show "write_prepared a cid d = and_then (insert_effect ?e) (\<lambda>_. and_then ?ev (\<lambda>_. ?rest)) ?d2"
      by (simp add: write_prepared_def read_clock_eq draw_id_eq)
    have log2: "log_ok ?d2" by (rule calm_log [OF calm_draws(2) [OF assms(1)]])
    show "calms (and_then (insert_effect ?e) (\<lambda>_. and_then ?ev (\<lambda>_. ?rest))) ?d2"
    proof (rule calms_and_then)
      show "calms (insert_effect ?e) ?d2" by (rule insert_effect_calms(1) [OF log2])
      fix r d3 assume ins: "insert_effect ?e ?d2 = (Inr r, d3)" "calm ?d2 d3"
      then have p3: "in_progress cid d3" using p insert_effect_calms(2) [OF log2, of ?e] by (simp add: in_progress_def)
      note log3 = calm_log [OF ins(2)]
      show "calms (and_then ?ev (\<lambda>_. ?rest)) d3"
      proof (rule calms_and_then)
        show "calms ?ev d3" by (rule event_calms [OF log3])
        fix ev d4 assume ev: "?ev d3 = (Inr ev, d4)" "calm d3 d4"
        obtain ev' d4' where "?ev d3 = (Inr ev', d4')" "es_commands (db_log d4') = es_commands (db_log d3)"
          by (rule event_calm [OF log3])
        then have "in_progress cid d4" using ev(1) p3 by (simp add: in_progress_def)
        then show "calms ?rest d4"
          using complete_calms [OF calm_log [OF ev(2)]] by (intro calms_and_then calms_Pair) (auto dest: calm_log)
      qed
    qed
  qed
qed

lemma begin_calms:
  assumes "log_ok d"
  shows "calms (begin_command t p k h) d"
    and "begin_command t p k h d = (Inr (rec, True), d') \<Longrightarrow> in_progress (ci_command rec) d'"
  using assms by (cases rule: begin_command_grows [of d t p k h]; fastforce simp: calms_def calm_def)+

lemma prepare_in_calms:
  fixes d :: "'x lease_db_scheme"
  assumes "log_ok d" and local: "pa_class a = ''WORKSPACE_LOCAL''"
  shows "calms (prepare_in a) d"
proof (rule calms_run [where d = d])
  let ?enter = "begin_command (sc_tenant (pa_scope a)) (sc_project (pa_scope a)) (pa_key a) (prepare_digest a)"
  let ?go = "\<lambda>rec. and_then (refuse_if_blocked (pa_scope a)) (\<lambda>_. write_prepared a (ci_command rec))"
  have gate: "approval_gate a = (Pair (Inr ()) :: 'x lease_db_scheme \<Rightarrow> _)" by (simp add: approval_gate_def local fun_eq_iff)
  have skip: "and_then (Pair (Inr ())) (\<lambda>_. f) = f" for f :: "'x lease_db_scheme \<Rightarrow> external_effect result \<times> 'x lease_db_scheme"
    by (simp add: and_then_def fun_eq_iff)
  show "prepare_in a d = and_then ?enter (\<lambda>(rec, is_new). if \<not> is_new then (\<lambda>d1. (replay_or_raise rec d1, d1)) else ?go rec) d"
    using local by (simp add: prepare_in_def SIDE_EFFECT_CLASSES_def gate skip cong: if_cong)
  show "calm d d" using assms(1) by (simp add: calm_same)
  show "calms (and_then ?enter (\<lambda>(rec, is_new). if \<not> is_new then (\<lambda>d1. (replay_or_raise rec d1, d1)) else ?go rec)) d"
  proof (rule calms_and_then)
    show "calms ?enter d" by (rule begin_calms(1) [OF assms(1)])
    fix r d1 assume b: "?enter d = (Inr r, d1)" "calm d d1"
    obtain rec is_new where r: "r = (rec, is_new)" by force
    note log1 = calm_log [OF b(2)]
    have same: "snd (refuse_if_blocked (pa_scope a) d1) = d1" by (simp add: refuse_if_blocked_def split: list.split)
    have "calms (?go rec) d1" if is_new
    proof (rule calms_and_then)
      show "calms (refuse_if_blocked (pa_scope a)) d1" using log1 same by (simp add: calms_def calm_same)
      fix u d2 assume "refuse_if_blocked (pa_scope a) d1 = (Inr u, d2)"
      then have d2: "d2 = d1" using same by simp
      have "?enter d = (Inr (rec, True), d1)" using b(1) that r by simp
      then have "in_progress (ci_command rec) d1" by (rule begin_calms(2) [OF assms(1)])
      then show "calms (write_prepared a (ci_command rec)) d2" unfolding d2 by (rule write_prepared_calms [OF log1])
    qed
    then show "calms (case r of (rec, is_new) \<Rightarrow> if \<not> is_new then (\<lambda>d1. (replay_or_raise rec d1, d1)) else ?go rec) d1"
      using log1 r by (simp add: calms_def calm_same)
  qed
qed

lemma transition_effect_calms:
  assumes "log_ok d"
  shows "calms (transition_effect e target ty pl extra) d"
proof -
  let ?d1 = "d\<lparr>db_env := snd (clock_now (db_env d))\<rparr>"
  have c: "calm d (?d1\<lparr>effects := t\<rparr>)" for t using assms by (intro calm_same) simp_all
  have "calm (?d1\<lparr>effects := t\<rparr>) (snd (append_event a (?d1\<lparr>effects := t\<rparr>)))" for a t
    using event_calms [OF calm_log [OF c]] by (simp add: calms_def)
  then have "calm d (snd (append_event a (?d1\<lparr>effects := t\<rparr>)))" for a t using calm_trans [OF c] by blast
  then show ?thesis
    using assms c calm_same [of d d] calm_draws(1) [OF assms]
    by (simp add: calms_def transition_effect_def read_clock_eq and_then_return split: sum.split)
qed

lemma with_effect_calms: "log_ok d \<Longrightarrow> (\<And>e. calms (f e) d) \<Longrightarrow> calms (with_effect i f) d"
  by (auto simp: calms_def with_effect_def calm_same split: sum.split)

lemma mark_calms:
  assumes "log_ok d"
  shows "calms (mark_sent_in i) d" and "calms (mark_confirmed_in i xr h) d"
proof -
  show "calms (mark_sent_in i) d" unfolding mark_sent_in_def
    by (rule with_effect_calms [OF assms]) (rule transition_effect_calms [OF assms])
  show "calms (mark_confirmed_in i xr h) d" unfolding mark_confirmed_in_def
  proof (rule with_effect_calms [OF assms])
    fix e
    let ?now = "fst (clock_now (db_env d))"
    show "calms (\<lambda>d. let (now, d1) = read_clock d in
      transition_effect e ''CONFIRMED'' ''ExternalEffectConfirmed'' [(''external_reference'', json_opt xr)]
        (\<lambda>x. let y = x\<lparr>xe_response_hash := h, xe_confirmed_at := Some now\<rparr>
             in case xr of None \<Rightarrow> y | Some r \<Rightarrow> y\<lparr>xe_reference := Some r\<rparr>) d1) d"
      by (rule calms_run [OF _ calm_draws(1) [OF assms] transition_effect_calms [OF calm_log [OF calm_draws(1) [OF assms]]]])
        (simp add: read_clock_eq)
  qed
qed

lemma process_class: "side_effect_class_for CAPABILITY_RUN_LOCAL_PROCESS = Inr ''WORKSPACE_LOCAL''"
  by code_simp

lemma journal_termination_calms:
  fixes d :: "'x lease_db_scheme"
  assumes "log_ok d"
  shows "calms (journal_termination tenant project run mission h out) d"
proof -
  have "(journal_termination tenant project run mission h out :: 'x lease_db_scheme \<Rightarrow> _) =
      and_then (prepare_in (termination_effect tenant project run mission h out ''WORKSPACE_LOCAL''))
        (\<lambda>e. and_then (mark_sent_in (xe_id e))
          (\<lambda>_. and_then (mark_confirmed_in (xe_id e) (case to_detail out of None \<Rightarrow> Some (to_phase out) | Some t \<Rightarrow> Some t)
              (Some (effect_response_hash [(''pid'', JInt (rp_pid h)), (''phase'', JStr (to_phase out)), (''detail'', json_opt (to_detail out))])))
            (\<lambda>_. Pair (Inr ()))))"
    by (simp add: fun_eq_iff journal_termination_def process_class)
  then show ?thesis
    by (simp only:) (intro calms_and_then prepare_in_calms mark_calms calms_Pair assms,
      simp add: termination_effect_def, (erule calm_log)+)
qed

lemma journal_terminations_calms:
  "log_ok d \<Longrightarrow> calms (journal_terminations tenant project run mission outs hs) d"
proof (induction hs arbitrary: d)
  case (Cons h hs)
  show ?case
  proof (cases "dict_get outs (rp_pid h)")
    case (Some out)
    have "calms (and_then (journal_termination tenant project run mission h out)
        (\<lambda>_. journal_terminations tenant project run mission outs hs)) d"
      by (rule calms_and_then [OF journal_termination_calms [OF Cons.prems]]) (rule Cons.IH, erule calm_log)
    then show ?thesis by (simp add: calms_def Some)
  qed (use Cons in \<open>simp add: calms_def\<close>)
qed (simp add: calms_def calm_same)

lemma sweep_calms:
  assumes "log_ok d"
  shows "calms (sweep_live_processes os tenant project run mission) d"
proof (cases mission)
  case (Some m)
  have "calms (and_then (journal_terminations tenant project run m outs hs) (\<lambda>_. Pair (Inr x))) d" for outs hs and x :: "termination_outcome list"
    by (rule calms_and_then [OF journal_terminations_calms [OF assms]]) (rule calms_Pair, erule calm_log)
  then show ?thesis by (simp add: calms_def sweep_live_processes_def Some)
qed (simp add: calms_def sweep_live_processes_def calm_same assms)

section \<open>How a lease may change\<close>

definition lease_moves :: "string \<Rightarrow> string \<Rightarrow> bool" where
  "lease_moves s t \<longleftrightarrow> t \<in> set (succs CAPABILITY_LEASE_TRANSITIONS s)"

text \<open>Everything but the status, the reasons and the stamps of the change is fixed, and the status follows its machine.\<close>

definition same_lease :: "capability_lease \<Rightarrow> capability_lease \<Rightarrow> bool" where
  "same_lease l l' \<longleftrightarrow> scope_part l' = scope_part l \<and> lz_id l' = lz_id l \<and> lz_policy l' = lz_policy l \<and> lz_issued_at l' = lz_issued_at l
    \<and> lz_expires_at l' = lz_expires_at l \<and> lz_revocable l' = lz_revocable l \<and> lz_hash l' = lz_hash l
    \<and> lz_requested_by l' = lz_requested_by l \<and> lz_created_at l' = lz_created_at l"

definition lease_le :: "capability_lease \<Rightarrow> capability_lease \<Rightarrow> bool" where
  "lease_le l l' \<longleftrightarrow> same_lease l l' \<and> lease_moves\<^sup>*\<^sup>* (lz_status l) (lz_status l')"

definition leases_le :: "(uuid, capability_lease) dict \<Rightarrow> (uuid, capability_lease) dict \<Rightarrow> bool" where
  "leases_le t t' \<longleftrightarrow> (\<forall>i l. dict_get t i = Some l \<longrightarrow> (\<exists>l'. dict_get t' i = Some l' \<and> lease_le l l'))"

lemma lease_le_refl [simp]: "lease_le l l"
  by (simp add: lease_le_def same_lease_def)

lemma lease_le_trans: "lease_le a b \<Longrightarrow> lease_le b c \<Longrightarrow> lease_le a c"
  by (auto simp: lease_le_def same_lease_def)

lemma leases_le_refl [simp]: "leases_le t t"
  unfolding leases_le_def by (blast intro: lease_le_refl)

lemma leases_le_trans: "leases_le a b \<Longrightarrow> leases_le b c \<Longrightarrow> leases_le a c"
  unfolding leases_le_def by (meson lease_le_trans)

lemma leases_le_set: "(\<And>l. dict_get t i = Some l \<Longrightarrow> lease_le l l') \<Longrightarrow> leases_le t (dict_set i l' t)"
  unfolding leases_le_def by (auto simp: dict_get_set)

lemma scope_part_fields:
  assumes "scope_part l' = scope_part l"
  shows "lz_tenant l' = lz_tenant l" "lz_project l' = lz_project l" "lz_mission l' = lz_mission l" "lz_task l' = lz_task l"
    "lz_run l' = lz_run l" "lz_capability l' = lz_capability l" "lz_version l' = lz_version l"
  using assms by (simp_all add: lease_scope.truncate_def)

lemma lease_final: "lease_le l l' \<Longrightarrow> succs CAPABILITY_LEASE_TRANSITIONS (lz_status l) = [] \<Longrightarrow> lz_status l' = lz_status l"
  unfolding lease_le_def by (erule conjE, erule converse_rtranclpE) (simp_all add: lease_moves_def)

text \<open>
  What a call keeps: the invariant, every lease as far as it may not change, and every completed row of the
  command ledger outside the keys \<open>A\<close>.
\<close>

definition kept_rows :: "(uuid \<times> string) set \<Rightarrow> 'x lease_db_scheme \<Rightarrow> 'x lease_db_scheme \<Rightarrow> bool" where
  "kept_rows A d d' \<longleftrightarrow> (\<forall>k c. k \<notin> A \<longrightarrow> dict_get (es_commands (db_log d)) k = Some c \<longrightarrow> ci_status c = ''completed'' \<longrightarrow>
    dict_get (es_commands (db_log d')) k = Some c)"

definition lease_write :: "(uuid \<times> string) set \<Rightarrow> 'x lease_db_scheme \<Rightarrow> 'x lease_db_scheme \<Rightarrow> bool" where
  "lease_write A d d' \<longleftrightarrow> lease_ok d' \<and> env_le (db_env d) (db_env d') \<and> kept_rows A d d' \<and> leases_le (leases d) (leases d')
    \<and> lease_db.more d' = lease_db.more d"

lemma lease_write_trans: "lease_write A a b \<Longrightarrow> lease_write A b c \<Longrightarrow> lease_write A a c"
  using env_le_trans leases_le_trans by (auto simp: lease_write_def kept_rows_def)

lemma lease_write_mono: "lease_write A d d' \<Longrightarrow> A \<subseteq> B \<Longrightarrow> lease_write B d d'"
  by (auto simp: lease_write_def kept_rows_def)

lemma grows_write: "lease_ok d' \<Longrightarrow> grows d d' \<Longrightarrow> leases_le (leases d) (leases d') \<Longrightarrow>
    lease_db.more d' = lease_db.more d \<Longrightarrow> lease_write A d d'"
  by (auto simp: lease_write_def grows_def kept_rows_def ledger_le_def)

lemma calm_write: "lease_ok d \<Longrightarrow> calm d d' \<Longrightarrow> lease_write A d d'"
  using calm_ok by (intro grows_write) (simp_all add: calm_def)

lemma same_write: "lease_ok d \<Longrightarrow> db_log d' = db_log d \<Longrightarrow> env_le (db_env d) (db_env d') \<Longrightarrow> descriptors d' = descriptors d \<Longrightarrow>
    leases d' = leases d \<Longrightarrow> lease_db.more d' = lease_db.more d \<Longrightarrow> lease_write A d d'"
  by (rule calm_write) (simp_all add: calm_same lease_okD(3))

lemma settle_cases:
  obtains (kept) "settle m d = m d"
  | (aborted) n where "fst (m d) = Inl (IntegrityError n)" "settle m d = (Inl (IntegrityError n),
      d\<lparr>db_env := db_env (snd (m d)), kill_flags := kill_flags (snd (m d)), processes := processes (snd (m d))\<rparr>)"
proof (cases "\<exists>n. fst (m d) = Inl (IntegrityError n)")
  case True
  then obtain n d' where "m d = (Inl (IntegrityError n), d')" by (metis prod.collapse)
  then show thesis by (intro aborted [of n]) (simp_all add: settle_def)
next
  case False
  then have "settle m d = m d" by (auto simp: settle_def split: prod.split sum.split dde_error.split)
  then show thesis by (rule kept)
qed

lemma settle_write:
  assumes ok: "lease_ok d" and w: "lease_write A d (snd (m d))"
  shows "lease_write A d (snd (settle m d))"
proof (cases rule: settle_cases [of m d])
  case (aborted n)
  show ?thesis unfolding aborted(2) snd_conv
    by (rule same_write [OF ok]) (use w in \<open>simp_all add: lease_write_def\<close>)
qed (use w in simp)

section \<open>Transitions\<close>

text \<open>A row replaced by a later one, with an event beside it.\<close>

definition moved_lease :: "capability_lease \<Rightarrow> 'x lease_db_scheme \<Rightarrow> 'x lease_db_scheme \<Rightarrow> bool" where
  "moved_lease l' d d' \<longleftrightarrow> grows d d' \<and> es_commands (db_log d') = es_commands (db_log d) \<and> descriptors d' = descriptors d
    \<and> leases d' = dict_set (lz_id l') l' (leases d) \<and> lease_db.more d' = lease_db.more d"

lemma moved_lease_ok:
  assumes ok: "lease_ok d" and m: "moved_lease l' d d'" and l: "dict_get (leases d) (lz_id l') = Some l"
  shows "lease_ok d'"
proof -
  have "keyed lz_id (leases d')" using m keyed_set [OF lease_okD(4) [OF ok]] by (simp add: moved_lease_def)
  moreover have "set (dict_keys (leases d')) \<subseteq> drawn_ids (db_env d')"
    using m dict_set_same_keys [OF dict_get_key [OF l]] order_trans [OF table_okD(3) [OF lease_okD(2) [OF ok]] env_le_drawn]
    by (simp add: moved_lease_def grows_def del: set_map)
  ultimately show ?thesis
    using m registry_ok_grows [OF lease_okD(1) [OF ok], of d'] by (simp add: lease_ok_def table_ok_def moved_lease_def grows_def)
qed

lemma moved_lease_write:
  assumes "lease_ok d" and "moved_lease l' d d'" and "dict_get (leases d) (lz_id l') = Some l" and "lease_le l l'"
  shows "lease_write A d d'"
proof (rule grows_write)
  show "lease_ok d'" by (rule moved_lease_ok [OF assms(1-3)])
  show "leases_le (leases d) (leases d')"
    using leases_le_set [of "leases d" "lz_id l'" l'] assms(2-4) by (simp add: moved_lease_def)
qed (use assms(2) in \<open>simp_all add: moved_lease_def\<close>)

lemma transition_lease_moves:
  assumes ok: "lease_ok d" and l: "dict_get (leases d) (lz_id l) = Some l"
    and st: "target \<in> set (succs CAPABILITY_LEASE_TRANSITIONS (lz_status l))"
    and extra: "\<And>x. same_lease x (extra x) \<and> lz_status (extra x) = lz_status x"
  obtains l' d' where "transition_lease l target ty payload extra d = (Inr l', d')" "moved_lease l' d d'" "lz_id l' = lz_id l"
    "dict_get (leases d') (lz_id l) = Some l'" "lease_le l l'" "lz_status l' = target" "lease_ok d'" "kill_flags d' = kill_flags d"
proof -
  let ?now = "fst (clock_now (db_env d))" and ?l = "\<lambda>l. extra (l\<lparr>lz_status := target, lz_updated_at := fst (clock_now (db_env d))\<rparr>)"
  let ?d2 = "d\<lparr>db_env := snd (clock_now (db_env d)), leases := dict_set (lz_id l) (?l l) (leases d)\<rparr>"
  have ex: "same_lease (l\<lparr>lz_status := target, lz_updated_at := ?now\<rparr>) (?l l)" "lz_status (?l l) = target"
    using extra [of "l\<lparr>lz_status := target, lz_updated_at := ?now\<rparr>"] by simp_all
  then have id: "lz_id (?l l) = lz_id l" and same: "same_lease l (?l l)"
    by (auto simp: same_lease_def lease_scope.truncate_def)
  have le: "lease_le l (?l l)" using same ex(2) st by (auto simp: lease_le_def lease_moves_def)
  have log2: "log_ok ?d2" by (rule log_ok_env [OF lease_okD(3) [OF ok]]) simp_all
  obtain ev d' where ev: "append_event (lease_event ty (?l l) payload) ?d2 = (Inr ev, d')" "calm ?d2 d'"
      "es_commands (db_log d') = es_commands (db_log ?d2)" "kill_flags d' = kill_flags ?d2"
    by (rule event_calm [OF log2])
  have "grows d ?d2" using lease_okD(3) [OF ok] by (simp add: grows_same)
  then have "grows d d'" using ev(2) grows_trans by (auto simp: calm_def)
  then have m: "moved_lease (?l l) d d'" using ev(2,3) id by (simp add: moved_lease_def calm_def)
  have "transition_lease l target ty payload extra d = (Inr (?l l), d')"
    using st table_update_eq [OF keyed_ok [OF lease_okD(4) [OF ok]] l, of ?l] dict_get_key [OF l] ev(1)
    by (simp add: transition_lease_def transition_def read_clock_eq require_lease_def dict_get_set and_then_def del: set_map)
  moreover have "dict_get (leases d') (lz_id l) = Some (?l l)" using m id by (simp add: moved_lease_def dict_get_set)
  moreover have "dict_get (leases d) (lz_id (?l l)) = Some l" using l id by simp
  ultimately show thesis
    using m id le ex(2) moved_lease_ok [OF ok m] ev(4) by (intro that [of "?l l" d']) simp_all
qed

lemma same_lease_extra [simp]:
  "same_lease x x" "same_lease x (x\<lparr>lz_denied := r\<rparr>)" "same_lease x (x\<lparr>lz_revoked_at := t, lz_revocation := r\<rparr>)"
  by (simp_all add: same_lease_def lease_scope.truncate_def)

text \<open>A transition, allowed or not, as a write.\<close>

lemma transition_lease_write:
  assumes ok: "lease_ok d" and l: "dict_get (leases d) (lz_id l) = Some l"
    and extra: "\<And>x. same_lease x (extra x) \<and> lz_status (extra x) = lz_status x"
  shows "lease_write A d (snd (transition_lease l target ty payload extra d))"
proof (cases "target \<in> set (succs CAPABILITY_LEASE_TRANSITIONS (lz_status l))")
  case True
  obtain l' d' where m: "transition_lease l target ty payload extra d = (Inr l', d')" "moved_lease l' d d'" "lz_id l' = lz_id l" "lease_le l l'"
    by (rule transition_lease_moves [OF ok l True extra])
  then show ?thesis using moved_lease_write [OF ok m(2)] l by simp
qed (use same_write [OF ok] in \<open>simp add: transition_lease_def transition_def\<close>)

lemma succs_held: "s \<in> set HELD_LEASE_STATUSES \<Longrightarrow> ''REVOKED'' \<in> set (succs CAPABILITY_LEASE_TRANSITIONS s) \<and> ''EXPIRED'' \<in> set (succs CAPABILITY_LEASE_TRANSITIONS s)"
  by (auto simp: HELD_LEASE_STATUSES_def CAPABILITY_LEASE_TRANSITIONS_def succs_def)

section \<open>Stopping leases\<close>

definition run_quiet :: "uuid \<Rightarrow> 'x lease_db_scheme \<Rightarrow> bool" where
  "run_quiet run d \<longleftrightarrow> list_all (\<lambda>l. lz_run l = Some run \<longrightarrow> lz_status l \<notin> set HELD_LEASE_STATUSES) (dict_values (leases d))"

lemma run_quietI:
  assumes "lease_ok d" and "\<And>i l. dict_get (leases d) i = Some l \<Longrightarrow> lz_run l = Some run \<Longrightarrow> lz_status l \<in> set HELD_LEASE_STATUSES \<Longrightarrow> False"
  shows "run_quiet run d"
  using assms(2) keyed_in [OF lease_okD(4) [OF assms(1)]] unfolding run_quiet_def list_all_iff by blast

lemma run_quiet_same: "leases d' = leases d \<Longrightarrow> run_quiet run d' = run_quiet run d"
  by (simp add: run_quiet_def)

definition stopped_rows :: "uuid set \<Rightarrow> 'x lease_db_scheme \<Rightarrow> 'x lease_db_scheme \<Rightarrow> bool" where
  "stopped_rows I d d' \<longleftrightarrow> (\<forall>i l. dict_get (leases d') i = Some l \<longrightarrow>
    (i \<in> I \<and> lz_status l = ''REVOKED'') \<or> (i \<notin> I \<and> dict_get (leases d) i = Some l))"

lemma stop_lease_moves:
  assumes ok: "lease_ok d" and l: "dict_get (leases d) (lz_id l) = Some l" and held: "lz_status l \<in> set HELD_LEASE_STATUSES"
  obtains l' d' where "stop_lease l d = (Inr l', d')" "lease_ok d'" "lease_write {} d d'" "lz_id l' = lz_id l" "lz_status l' = ''REVOKED''"
    "leases d' = dict_set (lz_id l) l' (leases d)" "kill_flags d' = kill_flags d"
proof -
  let ?d1 = "d\<lparr>db_env := snd (clock_now (db_env d))\<rparr>" and ?x = "\<lambda>x. x\<lparr>lz_revoked_at := Some (fst (clock_now (db_env d))), lz_revocation := Some KILL_FLAG_REASON\<rparr>"
  have w1: "lease_write {} d ?d1" by (rule same_write [OF ok]) simp_all
  then have ok1: "lease_ok ?d1" by (simp add: lease_write_def)
  have l1: "dict_get (leases ?d1) (lz_id l) = Some l" using l by simp
  have st: "''REVOKED'' \<in> set (succs CAPABILITY_LEASE_TRANSITIONS (lz_status l))" using succs_held [OF held] by simp
  have ex: "same_lease x (?x x) \<and> lz_status (?x x) = lz_status x" for x by (simp add: same_lease_def lease_scope.truncate_def)
  obtain l' d' where m: "transition_lease l ''REVOKED'' ''CapabilityLeaseRevoked'' [(''reason'', JStr KILL_FLAG_REASON)] ?x ?d1 = (Inr l', d')"
      "moved_lease l' ?d1 d'" "lz_id l' = lz_id l" "dict_get (leases d') (lz_id l) = Some l'" "lease_le l l'" "lz_status l' = ''REVOKED''"
      "lease_ok d'" "kill_flags d' = kill_flags ?d1"
    by (rule transition_lease_moves [OF ok1 l1 st ex])
  have "lease_write {} ?d1 d'" by (rule moved_lease_write [OF ok1 m(2) _ m(5)]) (simp add: m(3) l)
  then have "lease_write {} d d'" by (rule lease_write_trans [OF w1])
  moreover have "stop_lease l d = (Inr l', d')" using m(1) by (simp add: stop_lease_def read_clock_eq)
  ultimately show thesis using m by (intro that [of l' d']) (simp_all add: moved_lease_def)
qed

lemma stop_leases_run:
  assumes "lease_ok d" and "list_all (\<lambda>l. dict_get (leases d) (lz_id l) = Some l \<and> lz_status l \<in> set HELD_LEASE_STATUSES) ls"
    and "distinct (map lz_id ls)"
  shows "\<exists>rs d'. stop_leases ls d = (Inr rs, d') \<and> stop_leases_best_effort ls d = (Inr (), d') \<and> lease_ok d' \<and> lease_write {} d d'
    \<and> kill_flags d' = kill_flags d \<and> stopped_rows (lz_id ` set ls) d d'"
  using assms
proof (induction ls arbitrary: d)
  case Nil
  then show ?case by (simp add: stopped_rows_def same_write)
next
  case (Cons l ls)
  obtain l' d1 where one: "stop_lease l d = (Inr l', d1)" "lease_ok d1" "lease_write {} d d1" "lz_id l' = lz_id l" "lz_status l' = ''REVOKED''"
      "leases d1 = dict_set (lz_id l) l' (leases d)" "kill_flags d1 = kill_flags d"
    by (rule stop_lease_moves [OF Cons.prems(1), of l]) (use Cons.prems(2) in simp_all)
  have "list_all (\<lambda>x. dict_get (leases d1) (lz_id x) = Some x \<and> lz_status x \<in> set HELD_LEASE_STATUSES) ls"
    using Cons.prems(2,3) by (auto simp: list_all_iff one(6) dict_get_set image_iff)
  then obtain rs d' where rest: "stop_leases ls d1 = (Inr rs, d')" "stop_leases_best_effort ls d1 = (Inr (), d')" "lease_ok d'" "lease_write {} d1 d'"
      "kill_flags d' = kill_flags d1" "stopped_rows (lz_id ` set ls) d1 d'"
    using Cons.IH [OF one(2)] Cons.prems(3) by auto
  have "stopped_rows (lz_id ` set (l # ls)) d d'"
    unfolding stopped_rows_def
  proof (intro allI impI)
    fix i x assume "dict_get (leases d') i = Some x"
    then consider "i \<in> lz_id ` set ls" "lz_status x = ''REVOKED''" | "i \<notin> lz_id ` set ls" "dict_get (leases d1) i = Some x"
      using rest(6) unfolding stopped_rows_def by blast
    then show "(i \<in> lz_id ` set (l # ls) \<and> lz_status x = ''REVOKED'') \<or> (i \<notin> lz_id ` set (l # ls) \<and> dict_get (leases d) i = Some x)"
      using one(5) by cases (auto simp: one(6) dict_get_set split: if_splits)
  qed
  then show ?case
    using one rest lease_write_trans [OF one(3) rest(4)] by (intro exI [of _ "l' # rs"] exI [of _ d']) (simp add: and_then_def)
qed

text \<open>The leases of a run in the table: what both sweeps start from.\<close>

lemma run_lists:
  assumes "lease_ok d"
  shows "list_all (\<lambda>l. dict_get (leases d) (lz_id l) = Some l \<and> lz_status l \<in> set HELD_LEASE_STATUSES) (list_held_for_run run d)"
    and "distinct (map lz_id (list_held_for_run run d))"
    and "filter (\<lambda>l. lz_status l \<in> set HELD_LEASE_STATUSES) (leases_for_run run d) = list_held_for_run run d"
    and "set (list_held_for_run run d) = {l \<in> set (dict_values (leases d)). lz_run l = Some run \<and> lz_status l \<in> set HELD_LEASE_STATUSES}"
proof -
  show held: "set (list_held_for_run run d) = {l \<in> set (dict_values (leases d)). lz_run l = Some run \<and> lz_status l \<in> set HELD_LEASE_STATUSES}"
    by (auto simp: list_held_for_run_def simp del: set_map)
  show "list_all (\<lambda>l. dict_get (leases d) (lz_id l) = Some l \<and> lz_status l \<in> set HELD_LEASE_STATUSES) (list_held_for_run run d)"
    using keyed_in [OF lease_okD(4) [OF assms]] unfolding list_all_iff held by blast
  have "distinct (map lz_id (filter P (dict_values (leases d))))" for P
    by (rule distinct_map_filter [OF keyed_distinct [OF lease_okD(4) [OF assms]]])
  then have "distinct (filter P (dict_values (leases d)))" "inj_on lz_id (set (filter P (dict_values (leases d))))" for P
    by (simp_all add: distinct_map)
  then show "distinct (map lz_id (list_held_for_run run d))"
    by (simp add: distinct_map list_held_for_run_def)
  show "filter (\<lambda>l. lz_status l \<in> set HELD_LEASE_STATUSES) (leases_for_run run d) = list_held_for_run run d"
    by (simp add: leases_for_run_def list_held_for_run_def filter_sort conj_commute)
qed

lemma stopped_run_quiet:
  assumes "lease_ok d" and "lease_ok d'" and "stopped_rows (lz_id ` set (list_held_for_run run d)) d d'"
  shows "run_quiet run d'"
proof (rule run_quietI [OF assms(2)])
  fix i l assume l: "dict_get (leases d') i = Some l" "lz_run l = Some run" "lz_status l \<in> set HELD_LEASE_STATUSES"
  have "lz_status l \<noteq> ''REVOKED''" using l(3) by (auto simp: HELD_LEASE_STATUSES_def)
  then have "i \<notin> lz_id ` set (list_held_for_run run d) \<and> dict_get (leases d) i = Some l"
    using assms(3) l(1) unfolding stopped_rows_def by blast
  moreover have "l \<in> set (list_held_for_run run d)"
    using calculation l(2,3) dict_get_value [of "leases d" i l] unfolding run_lists(4) [OF assms(1)] by blast
  moreover have "lz_id l = i" using calculation keyed_get [OF lease_okD(4) [OF assms(1)]] by blast
  ultimately show False by blast
qed

lemma sweep_run_stop_write:
  assumes ok: "lease_ok d"
  shows "lease_write {} d (snd (sweep_run_stop os tenant project run d))"
    and "sweep_run_stop os tenant project run d = (Inr ls, d') \<Longrightarrow> run_quiet run d'"
proof -
  obtain rs d1 where s: "stop_leases (list_held_for_run run d) d = (Inr rs, d1)" "lease_ok d1" "lease_write {} d d1"
      "stopped_rows (lz_id ` set (list_held_for_run run d)) d d1"
    using stop_leases_run [OF ok run_lists(1) [OF ok, of run] run_lists(2) [OF ok, of run]] by blast
  let ?m = "case rs of [] \<Rightarrow> None | l # _ \<Rightarrow> Some (lz_mission l)" and ?t = "case rs of [] \<Rightarrow> None | l # _ \<Rightarrow> Some (lz_task l)"
  let ?rest = "and_then (sweep_live_processes os tenant project run ?m)
      (\<lambda>terminated. and_then (append_event (stop_event RUN_STOP_ARMED_EVENT_TYPE tenant project run ?m ?t
          [(''reason'', JStr KILL_FLAG_REASON), (''revoked_count'', JInt (int (length rs))),
           (''revoked_lease_ids'', JList (map (JStr \<circ> lz_id) rs)),
           (''terminated_processes'', JList (map (\<lambda>out. JObj [(''pid'', JInt (to_pid out)), (''phase'', JStr (to_phase out))]) terminated))]))
        (\<lambda>_. Pair (Inr rs)))"
  have run: "sweep_run_stop os tenant project run d = ?rest d1"
    by (simp add: sweep_run_stop_def and_then_def [of "stop_leases _"] s(1))
  have "calms ?rest d1"
    by (intro calms_and_then sweep_calms event_calms calms_Pair; (rule lease_okD(3) [OF s(2)] | erule calm_log))
  then have calm: "calm d1 (snd (sweep_run_stop os tenant project run d))" by (simp add: run calms_def)
  then show "lease_write {} d (snd (sweep_run_stop os tenant project run d))"
    by (rule lease_write_trans [OF s(3) calm_write [OF s(2)]])
  show "run_quiet run d'" if "sweep_run_stop os tenant project run d = (Inr ls, d')"
    using stopped_run_quiet [OF ok s(2,4)] calm run_quiet_same [of d' d1] that by (simp add: calm_def)
qed

section \<open>The durable stop\<close>

definition durably_stopped :: "uuid \<Rightarrow> uuid \<Rightarrow> 'x lease_db_scheme \<Rightarrow> bool" where
  "durably_stopped tenant run d \<longleftrightarrow> (\<exists>c. dict_get (es_commands (db_log d)) (tenant, run_stop_idempotency_key run) = Some c
    \<and> ci_status c = ''completed'' \<and> stop_state (ci_result c) = Some STOP_STATE_ARMED)"

lemma durable_read: "durably_stopped tenant run d \<Longrightarrow> is_run_stopped tenant project run d"
  by (auto simp: durably_stopped_def is_run_stopped_def read_durable_run_stop_def)

lemma durable_kept:
  "durably_stopped tenant run d \<Longrightarrow> lease_write A d d' \<Longrightarrow> (tenant, run_stop_idempotency_key run) \<notin> A \<Longrightarrow> durably_stopped tenant run d'"
  unfolding durably_stopped_def lease_write_def kept_rows_def by blast

lemma durable_same: "db_log d' = db_log d \<Longrightarrow> durably_stopped tenant run d' = durably_stopped tenant run d"
  by (simp add: durably_stopped_def)

lemma stop_key_inj: "run_stop_idempotency_key r = run_stop_idempotency_key r' \<longleftrightarrow> r = r'"
  by (simp add: run_stop_idempotency_key_def)

lemma row_key:
  assumes "log_ok d" and "dict_get (es_commands (db_log d)) k = Some c"
  shows "k = (ci_tenant c, ci_key c)"
  using log_okD(4) [OF assms(1)] map_of_SomeD [OF assms(2)] unfolding commands_ok_def by auto

lemma record_run_stop_cases:
  assumes ok: "lease_ok d"
  obtains (failed) err e where "record_run_stop tenant project run armed reason d = (Inl err, d\<lparr>db_env := e\<rparr>)" "env_le (db_env d) e"
  | (recorded) s e where "record_run_stop tenant project run armed reason d = (Inr (), d\<lparr>db_log := s, db_env := e\<rparr>)"
      "lease_write {(tenant, run_stop_idempotency_key run)} d (d\<lparr>db_log := s, db_env := e\<rparr>)"
      "armed \<Longrightarrow> durably_stopped tenant run (d\<lparr>db_log := s, db_env := e\<rparr>)"
proof -
  let ?k = "(tenant, run_stop_idempotency_key run)"
  let ?res = "stop_result (if armed then STOP_STATE_ARMED else STOP_STATE_DISARMED) reason"
  let ?enter = "begin_command tenant project (run_stop_idempotency_key run) (run_stop_hash run)"
  have finish: thesis
    if b: "?enter d = (Inr (c, new), d1)" and d1: "d1 = d\<lparr>db_log := s1, db_env := e1\<rparr>" "log_ok d1" "env_le (db_env d) e1"
      and row: "dict_get (es_commands (db_log d1)) ?k = Some c"
      and others: "\<And>k. k \<noteq> ?k \<Longrightarrow> dict_get (es_commands (db_log d1)) k = dict_get (es_commands (db_log d)) k" for c new d1 s1 e1
  proof -
    obtain c' s e where co: "complete_command (ci_command c) ?res d1 = (Inr c', d1\<lparr>db_log := s, db_env := e\<rparr>)"
        "log_ok (d1\<lparr>db_log := s, db_env := e\<rparr>)" "env_le (db_env d1) e"
      and get: "\<forall>k. dict_get (es_commands s) k = map_option (\<lambda>x. if ci_command x = ci_command c
        then x\<lparr>ci_status := ''completed'', ci_result := Some ?res, ci_updated_at := fst (clock_now (db_env d1))\<rparr> else x)
        (dict_get (es_commands (db_log d1)) k)"
      by (rule complete_command_ok [OF d1(2) dict_get_value [OF row]])
    let ?d' = "d\<lparr>db_log := s, db_env := e\<rparr>"
    have run: "record_run_stop tenant project run armed reason d = (Inr (), ?d')"
      using b co(1) by (simp add: record_run_stop_def and_then_def d1(1))
    have mine: "dict_get (es_commands s) ?k = Some (c\<lparr>ci_status := ''completed'', ci_result := Some ?res, ci_updated_at := fst (clock_now (db_env d1))\<rparr>)"
      using spec [OF get, of ?k] row by simp
    have other: "dict_get (es_commands s) k = Some x" if "k \<noteq> ?k" "dict_get (es_commands (db_log d)) k = Some x" for k x
    proof -
      have x: "dict_get (es_commands (db_log d1)) k = Some x" using others that by simp
      have "ci_command x \<noteq> ci_command c"
      proof
        assume "ci_command x = ci_command c"
        then have "x = c" by (rule same_command [OF d1(2) x row])
        then have "k = ?k" using row_key [OF d1(2) x] row_key [OF d1(2) row] by simp
        then show False using that(1) by simp
      qed
      then show ?thesis using spec [OF get, of k] x by simp
    qed
    have le: "env_le (db_env d) e" using co(3) d1(3) env_le_trans by (simp add: d1(1))
    have "lease_ok ?d'"
    proof -
      have log: "log_ok ?d'" using co(2) by (simp add: d1(1))
      show ?thesis
        using descriptor_rows.ok_log [OF registry_okD(3) [OF lease_okD(1) [OF ok]] log le]
          lease_rows.ok_log [OF lease_okD(2) [OF ok] log le] lease_okD(1) [OF ok] by (simp add: lease_ok_def registry_ok_def)
    qed
    then have "lease_write {?k} d ?d'" using le other by (simp add: lease_write_def kept_rows_def)
    moreover have "durably_stopped tenant run ?d'" if armed
      using mine that by (simp add: durably_stopped_def stop_state_def stop_result_def)
    ultimately show thesis using run by (intro recorded [of e s])
  qed
  from lease_okD(3) [OF ok] show thesis
  proof (cases rule: begin_command_cases [of d tenant project "run_stop_idempotency_key run" "run_stop_hash run"])
    case (new r s e)
    show thesis
    proof (rule finish [OF new(1) refl new(3,4)])
      show "dict_get (es_commands (db_log (d\<lparr>db_log := s, db_env := e\<rparr>))) ?k = Some r"
        using new(2,5) by (simp add: map_add_Some_iff dict_get_None)
      show "dict_get (es_commands (db_log (d\<lparr>db_log := s, db_env := e\<rparr>))) k = dict_get (es_commands (db_log d)) k" if "k \<noteq> ?k" for k
        using new(5) that by (simp add: map_add_def split: option.split)
    qed
  next
    case (old r c e)
    show thesis
    proof (cases r)
      case (Inl err)
      then show thesis using old(1,3) by (intro failed [of err e]) (simp_all add: record_run_stop_def and_then_def)
    next
      case (Inr x)
      then have b: "?enter d = (Inr (c, False), d\<lparr>db_env := e\<rparr>)" using old(1,4) by simp
      have log: "log_ok (d\<lparr>db_env := e\<rparr>)" by (rule log_ok_env [OF lease_okD(3) [OF ok]]) (simp_all add: old(3))
      show thesis by (rule finish [OF b, of e "db_log d"]) (use old(2,3) log in simp_all)
    qed
  qed
qed

lemma arm_run_stop_cases:
  assumes ok: "lease_ok d"
  obtains (failed) err d' where "arm_run_stop os tenant project run d = (Inl err, d')" "db_log d' = db_log d" "lease_write {} d d'"
  | (armed) r d' where "arm_run_stop os tenant project run d = (r, d')" "durably_stopped tenant run d'"
      "lease_write {(tenant, run_stop_idempotency_key run)} d d'" "\<And>ls. r = Inr ls \<Longrightarrow> run_quiet run d'"
proof -
  let ?K = "{(tenant, run_stop_idempotency_key run)}" and ?d0 = "arm_flag (tenant, project, run) d"
  let ?m = "\<lambda>d. and_then (record_run_stop tenant project run True KILL_FLAG_REASON) (\<lambda>_. sweep_run_stop os tenant project run)
      (arm_flag (tenant, project, run) d)"
  have w0: "lease_write A d ?d0" for A by (rule same_write [OF ok]) (simp_all add: arm_flag_def)
  then have ok0: "lease_ok ?d0" by (simp add: lease_write_def)
  note run = arm_run_stop_def [of os tenant project run]
  from ok0 show thesis
  proof (cases rule: record_run_stop_cases [of ?d0 tenant project run True KILL_FLAG_REASON])
    case (failed err e)
    have m: "?m d = (Inl err, ?d0\<lparr>db_env := e\<rparr>)" using failed(1) by (simp add: and_then_def)
    have w: "lease_write {} d (?d0\<lparr>db_env := e\<rparr>)"
      by (rule lease_write_trans [OF w0 same_write [OF ok0]]) (use failed(2) in simp_all)
    show thesis
    proof (cases rule: settle_cases [of ?m d])
      case kept
      then show thesis using m w by (intro that(1)) (simp_all add: run arm_flag_def)
    next
      case (aborted n)
      then show thesis using settle_write [of d "{}" ?m, OF ok] m w by (intro that(1)) (simp_all add: run)
    qed
  next
    case (recorded s e)
    let ?d1 = "?d0\<lparr>db_log := s, db_env := e\<rparr>"
    have w1: "lease_write ?K d ?d1" by (rule lease_write_trans [OF w0 recorded(2)])
    then have ok1: "lease_ok ?d1" by (simp add: lease_write_def)
    have m: "?m d = sweep_run_stop os tenant project run ?d1" using recorded(1) by (simp add: and_then_def)
    note sweep = sweep_run_stop_write [OF ok1, of os tenant project run]
    have w: "lease_write ?K d (snd (?m d))" unfolding m
      by (rule lease_write_trans [OF w1 lease_write_mono [OF sweep(1)]]) simp
    have dur: "durably_stopped tenant run (snd (?m d))" unfolding m
      by (rule durable_kept [OF recorded(3) sweep(1)]) simp_all
    show thesis
    proof (cases rule: settle_cases [of ?m d])
      case kept
      show thesis
      proof (rule that(2))
        show "arm_run_stop os tenant project run d = (fst (?m d), snd (?m d))" by (simp add: run kept)
        show "run_quiet run (snd (?m d))" if "fst (?m d) = Inr ls" for ls
          using sweep(2) [of ls "snd (?m d)"] that unfolding m by (metis prod.collapse)
      qed (use w dur in simp_all)
    next
      case (aborted n)
      have "lease_write {} d (snd (settle ?m d))" unfolding aborted(2) snd_conv
        by (rule same_write [OF ok]) (use w in \<open>simp_all add: lease_write_def\<close>)
      then show thesis using aborted by (intro that(1)) (simp_all add: run)
    qed
  qed
qed

lemma disarm_run_stop_write:
  assumes ok: "lease_ok d"
  shows "lease_write {(tenant, run_stop_idempotency_key run)} d (snd (disarm_run_stop tenant project run reason d))"
  unfolding disarm_run_stop_def
proof (rule settle_write [OF ok])
  let ?d0 = "disarm_flag (tenant, project, run) d"
  have w0: "lease_write A d ?d0" for A by (rule same_write [OF ok]) (simp_all add: disarm_flag_def)
  then have ok0: "lease_ok ?d0" by (simp add: lease_write_def)
  from ok0 show "lease_write {(tenant, run_stop_idempotency_key run)} d (snd (record_run_stop tenant project run False reason ?d0))"
  proof (cases rule: record_run_stop_cases [of ?d0 tenant project run False reason])
    case (failed err e)
    have "lease_write {(tenant, run_stop_idempotency_key run)} ?d0 (?d0\<lparr>db_env := e\<rparr>)" by (rule same_write [OF ok0]) (use failed(2) in simp_all)
    then show ?thesis using failed(1) lease_write_trans [OF w0] by simp
  next
    case (recorded s e)
    then show ?thesis using lease_write_trans [OF w0] by simp
  qed
qed

section \<open>Checkout and the end of a lease\<close>

lemma stored_lease: "lease_ok d \<Longrightarrow> l \<in> set (dict_values (leases d)) \<Longrightarrow> dict_get (leases d) (lz_id l) = Some l"
  by (rule keyed_in [OF lease_okD(4)])

lemma get_active_for_run_SomeD:
  assumes "lease_ok d" and "get_active_for_run run cap d = Some l"
  shows "dict_get (leases d) (lz_id l) = Some l" "lz_run l = Some run" "lz_capability l = cap"
    "\<And>x. x \<in> set (dict_values (leases d)) \<Longrightarrow> lz_run x = Some run \<Longrightarrow> lz_capability x = cap \<Longrightarrow> lz_created_at x \<le> lz_created_at l"
proof -
  have "max_by lz_created_at (filter (\<lambda>l. lz_run l = Some run \<and> lz_capability l = cap) (dict_values (leases d))) = Some l"
    using assms(2) by (simp add: get_active_for_run_def sort_desc_hd)
  then show "dict_get (leases d) (lz_id l) = Some l" "lz_run l = Some run" "lz_capability l = cap"
    "\<And>x. x \<in> set (dict_values (leases d)) \<Longrightarrow> lz_run x = Some run \<Longrightarrow> lz_capability x = cap \<Longrightarrow> lz_created_at x \<le> lz_created_at l"
    using stored_lease [OF assms(1), of l] max_by_in max_by_ge by (fastforce simp del: set_map)+
qed

lemma require_lease_SomeD: "lease_ok d \<Longrightarrow> require_lease i d = Inr l \<Longrightarrow> lz_id l = i \<and> dict_get (leases d) i = Some l"
  using keyed_get [OF lease_okD(4)] by (auto simp: require_lease_def split: option.splits)

lemma clock_write:
  assumes "lease_ok d"
  shows "lease_write A d (d\<lparr>db_env := snd (clock_now (db_env d))\<rparr>)" "lease_ok (d\<lparr>db_env := snd (clock_now (db_env d))\<rparr>)"
proof -
  show w: "lease_write A d (d\<lparr>db_env := snd (clock_now (db_env d))\<rparr>)" for A by (rule same_write [OF assms]) simp_all
  show "lease_ok (d\<lparr>db_env := snd (clock_now (db_env d))\<rparr>)" using w [of "{}"] by (simp add: lease_write_def)
qed

lemma activate_held_write:
  assumes ok: "lease_ok d" and l: "dict_get (leases d) (lz_id l) = Some l"
  shows "lease_write A d (snd (activate_held_lease l d))"
proof -
  note c = clock_write [OF ok]
  have l1: "dict_get (leases (d\<lparr>db_env := snd (clock_now (db_env d))\<rparr>)) (lz_id l) = Some l" using l by simp
  note t = lease_write_trans [OF c(1) transition_lease_write [OF c(2) l1, where extra = id]]
  show ?thesis using c(1) t by (simp add: activate_held_lease_def read_clock_eq and_then_return)
qed

lemma stop_best_effort_write:
  assumes ok: "lease_ok d"
  obtains d' where "revoke_latest_lease_on_kill run d = (Inr (), d')" "lease_ok d'" "lease_write {} d d'" "run_quiet run d'" "kill_flags d' = kill_flags d"
proof -
  obtain rs d' where s: "stop_leases_best_effort (list_held_for_run run d) d = (Inr (), d')" "lease_ok d'" "lease_write {} d d'"
      "kill_flags d' = kill_flags d" "stopped_rows (lz_id ` set (list_held_for_run run d)) d d'"
    using stop_leases_run [OF ok run_lists(1) [OF ok, of run] run_lists(2) [OF ok, of run]] by blast
  then show thesis using stopped_run_quiet [OF ok] by (intro that [of d']) (simp_all add: revoke_latest_lease_on_kill_def run_lists(3) [OF ok])
qed

text \<open>Under a stop a checkout is refused, the refusal is journaled, and the run is left without a live lease.\<close>

lemma require_active_stopped:
  assumes ok: "lease_ok d" and stop: "is_run_stopped tenant project run d"
  obtains d' where "require_active tenant project run cap d = (Inl (stopped_error run cap), d')" "lease_write {} d d'" "run_quiet run d'"
proof -
  obtain d1 where s: "revoke_latest_lease_on_kill run d = (Inr (), d1)" "lease_ok d1" "lease_write {} d d1" "run_quiet run d1"
    by (rule stop_best_effort_write [OF ok])
  obtain ev d2 where e: "append_event (stop_event CHECKOUT_ENFORCEMENT_EVENT_TYPE tenant project run None None
      [(''surface'', JStr ''checkout''), (''reason'', JStr KILL_FLAG_REASON)]) d1 = (Inr ev, d2)" "calm d1 d2"
    by (rule event_calm [OF lease_okD(3) [OF s(2)]])
  have "run_quiet run d2" using s(4) e(2) run_quiet_same [of d2 d1] by (simp add: calm_def)
  moreover have "require_active tenant project run cap d = (Inl (stopped_error run cap), d2)"
    using stop s(1) e(1) by (simp add: require_active_def settle_def and_then_def stopped_error_def)
  ultimately show thesis using lease_write_trans [OF s(3) calm_write [OF s(2) e(2)]] by (intro that)
qed

lemma require_active_write:
  assumes ok: "lease_ok d"
  shows "lease_write {} d (snd (require_active tenant project run cap d))"
proof (cases "is_run_stopped tenant project run d")
  case True
  then show ?thesis by (rule require_active_stopped [OF ok, of tenant project run cap]) simp
next
  case False
  have self: "lease_write {} d d" by (rule same_write [OF ok]) simp_all
  show ?thesis unfolding require_active_def
    by (rule settle_write [OF ok])
      (use False self activate_held_write [OF ok get_active_for_run_SomeD(1) [OF ok]] in \<open>auto split: option.split\<close>)
qed

lemma with_lease_write:
  assumes ok: "lease_ok d" and f: "\<And>l. dict_get (leases d) (lz_id l) = Some l \<Longrightarrow> lease_write {} d (snd (f l d))"
  shows "lease_write {} d (snd (settle (\<lambda>d. case require_lease i d of Inl err \<Rightarrow> (Inl err, d) | Inr l \<Rightarrow> f l d) d))"
proof (rule settle_write [OF ok])
  have self: "lease_write {} d d" by (rule same_write [OF ok]) simp_all
  show "lease_write {} d (snd (case require_lease i d of Inl err \<Rightarrow> (Inl err, d) | Inr l \<Rightarrow> f l d))"
    using require_lease_SomeD [OF ok] f self by (auto split: sum.split)
qed

lemma require_active_lease_write:
  assumes ok: "lease_ok d"
  shows "lease_write {} d (snd (require_active_lease tenant project i cap d))"
  unfolding require_active_lease_def
proof (rule with_lease_write [OF ok])
  fix l assume l: "dict_get (leases d) (lz_id l) = Some l"
  have self: "lease_write {} d d" by (rule same_write [OF ok]) simp_all
  show "lease_write {} d (snd (if lz_tenant l \<noteq> tenant \<or> lz_project l \<noteq> project then
          (Inl (DdeError ''TENANT_SCOPE_VIOLATION'' ''Capability lease is outside this project scope'' False [(''lease_id'', JStr i)]), d)
        else if lz_capability l \<noteq> cap then
          (Inl (DdeError ''POLICY_DENIED'' ''Capability lease does not authorize the requested capability'' False
             [(''lease_id'', JStr i), (''expected'', JStr cap), (''actual'', JStr (lz_capability l))]), d)
        else case lz_run l of
          Some run \<Rightarrow>
            (Inl (DdeError ''POLICY_DENIED''
               ''WorkerRun-bound leases must use require_active() so kill flags cannot be bypassed'' False
               [(''lease_id'', JStr i), (''worker_run_id'', JStr run)]), d)
        | None \<Rightarrow> activate_held_lease l d))"
    using self activate_held_write [OF ok l] by (simp split: option.split)
qed

lemma end_lease_writes:
  assumes ok: "lease_ok d"
  shows "lease_write {} d (snd (revoke_lease i reason d))" and "lease_write {} d (snd (consume_lease i d))"
proof -
  show "lease_write {} d (snd (revoke_lease i reason d))" unfolding revoke_lease_def
  proof (rule with_lease_write [OF ok])
    fix l assume l: "dict_get (leases d) (lz_id l) = Some l"
    note c = clock_write [OF ok]
    have l1: "dict_get (leases (d\<lparr>db_env := snd (clock_now (db_env d))\<rparr>)) (lz_id l) = Some l" using l by simp
    have "lease_write {} d (snd (transition_lease l ''REVOKED'' ''CapabilityLeaseRevoked'' [(''reason'', JStr reason)]
          (\<lambda>l. l\<lparr>lz_revoked_at := Some (fst (clock_now (db_env d))), lz_revocation := Some reason\<rparr>) (d\<lparr>db_env := snd (clock_now (db_env d))\<rparr>)))"
      by (rule lease_write_trans [OF c(1) transition_lease_write [OF c(2) l1]]) (simp add: same_lease_def lease_scope.truncate_def)
    then show "lease_write {} d (snd (let (now, d1) = read_clock d in
        transition_lease l ''REVOKED'' ''CapabilityLeaseRevoked'' [(''reason'', JStr reason)]
          (\<lambda>l. l\<lparr>lz_revoked_at := Some now, lz_revocation := Some reason\<rparr>) d1))"
      by (simp add: read_clock_eq)
  qed
  show "lease_write {} d (snd (consume_lease i d))" unfolding consume_lease_def
    by (rule with_lease_write [OF ok]) (simp add: consume_current_def transition_lease_write [OF ok])
qed

lemma and_then_Pair: "snd (and_then m (\<lambda>r. Pair (f r)) w) = snd (m w)"
  by (auto simp: and_then_def split: prod.split sum.split)

lemma consume_leases_write:
  assumes "lease_ok d" and "list_all (\<lambda>l. dict_get (leases d) (lz_id l) = Some l) ls" and "distinct (map lz_id ls)"
  shows "lease_write {} d (snd (consume_leases ls d))"
  using assms
proof (induction ls arbitrary: d)
  case Nil
  then show ?case by (simp add: same_write)
next
  case (Cons l ls)
  show ?case
  proof (cases "lz_status l = ''ACTIVE''")
    case False
    then show ?thesis using Cons by simp
  next
    case True
    have l: "dict_get (leases d) (lz_id l) = Some l" and st: "''CONSUMED'' \<in> set (succs CAPABILITY_LEASE_TRANSITIONS (lz_status l))"
      using Cons.prems(2) True by (simp_all add: CAPABILITY_LEASE_TRANSITIONS_def succs_def)
    obtain l' d1 where one: "transition_lease l ''CONSUMED'' ''CapabilityLeaseConsumed'' [] id d = (Inr l', d1)" "moved_lease l' d d1"
        "lz_id l' = lz_id l" "lease_le l l'" "lease_ok d1"
      by (rule transition_lease_moves [OF Cons.prems(1) l st, where extra = id]) simp_all
    have w1: "lease_write {} d d1" by (rule moved_lease_write [OF Cons.prems(1) one(2) _ one(4)]) (simp add: one(3) l)
    have rows: "leases d1 = dict_set (lz_id l) l' (leases d)" using one(2,3) by (simp add: moved_lease_def)
    have "list_all (\<lambda>l. dict_get (leases d1) (lz_id l) = Some l) ls"
      unfolding list_all_iff
    proof
      fix x assume x: "x \<in> set ls"
      have "lz_id x \<noteq> lz_id l" using x Cons.prems(3) by (auto dest: sym)
      moreover have "dict_get (leases d) (lz_id x) = Some x" using x Cons.prems(2) unfolding list_all_iff by (meson list.set_intros(2))
      ultimately show "dict_get (leases d1) (lz_id x) = Some x" by (simp add: rows dict_get_set)
    qed
    then have "lease_write {} d1 (snd (consume_leases ls d1))" using Cons.IH [OF one(5)] Cons.prems(3) by simp
    then have "lease_write {} d (snd (consume_leases ls d1))" by (rule lease_write_trans [OF w1])
    moreover have "snd (consume_leases (l # ls) d) = snd (consume_leases ls d1)"
    proof -
      have consumed: "consume_current l d = (Inr l', d1)" by (simp only: consume_current_def one(1))
      have "consume_leases (l # ls) d = and_then (consume_current l) (\<lambda>r. and_then (consume_leases ls) (\<lambda>rs. Pair (Inr (r # rs)))) d"
        by (simp add: True)
      also have "\<dots> = and_then (consume_leases ls) (\<lambda>rs. Pair (Inr (l' # rs))) d1"
        by (simp only: and_then_def [of "consume_current l"] consumed prod.case sum.case)
      finally show ?thesis by (simp add: and_then_Pair)
    qed
    ultimately show ?thesis by simp
  qed
qed

lemma consume_all_write:
  assumes ok: "lease_ok d"
  shows "lease_write {} d (snd (consume_all_for_run run d))"
  unfolding consume_all_for_run_def
proof (rule settle_write [OF ok], rule consume_leases_write [OF ok])
  show "list_all (\<lambda>l. dict_get (leases d) (lz_id l) = Some l) (leases_for_run run d)"
    using stored_lease [OF ok] by (auto simp: list_all_iff leases_for_run_def simp del: set_map)
  have "distinct (map lz_id (filter (\<lambda>l. lz_run l = Some run) (dict_values (leases d))))"
    by (rule distinct_map_filter [OF keyed_distinct [OF lease_okD(4) [OF ok]]])
  then show "distinct (map lz_id (leases_for_run run d))" by (simp add: leases_for_run_def distinct_map)
qed

section \<open>Requests\<close>

text \<open>What \<open>_evaluate\<close> grants on: the active version of the capability is the requested one, and certified.\<close>

definition authorised :: "lease_request \<Rightarrow> 'x registry_db_scheme \<Rightarrow> bool" where
  "authorised a d \<longleftrightarrow> (case get_active_by_capability_id (lz_tenant a) (lz_capability a) d of
     None \<Rightarrow> False
   | Some c \<Rightarrow> cd_version c = lz_version a \<and> cd_certification c = ''CERTIFIED'')"

lemma authorised_same: "descriptors d' = descriptors d \<Longrightarrow> authorised a d' = authorised a d"
  by (simp add: authorised_def get_active_by_capability_id_def visible_rows_def)

lemma evaluate_cases:
  fixes d :: "'x lease_db_scheme"
  assumes "registry_ok d"
  obtains (grant) "evaluate_lease (lz_tenant a) (lz_capability a) (lz_version a) d = Inr None" "authorised a d"
  | (deny) reason where "evaluate_lease (lz_tenant a) (lz_capability a) (lz_version a) d = Inr (Some reason)" "\<not> authorised a d"
proof (cases "get_active_by_capability_id (lz_tenant a) (lz_capability a) d")
  case None
  then show thesis by (intro deny) (simp_all add: evaluate_lease_def get_active_def authorised_def)
next
  case (Some c)
  note act = get_active_SomeD(2) [OF assms Some]
  show thesis
  proof (cases "authorised a d")
    case True
    then show thesis using act Some by (intro grant) (simp_all add: evaluate_lease_def get_active_def authorised_def)
  next
    case False
    then have "\<exists>reason. evaluate_lease (lz_tenant a) (lz_capability a) (lz_version a) d = Inr (Some reason)"
      using act Some by (simp add: evaluate_lease_def get_active_def authorised_def)
    then show thesis using False deny by blast
  qed
qed

lemma requested_lease_simps [simp]:
  "scope_part (requested_lease a i now) = scope_part a" "lz_id (requested_lease a i now) = i"
  "lz_status (requested_lease a i now) = ''REQUESTED''" "lz_hash (requested_lease a i now) = lease_hash a"
  by (simp_all add: requested_lease_def lease_scope.extend_def lease_scope.truncate_def capability_lease.fields_def)

lemma complete_calm:
  assumes "log_ok d" and "in_progress cid d"
  obtains c' d' now where "complete_command cid res d = (Inr c', d')" "calm d d'"
    "\<forall>k. dict_get (es_commands (db_log d')) k = map_option (\<lambda>x. if ci_command x = cid
        then x\<lparr>ci_status := ''completed'', ci_result := Some res, ci_updated_at := now\<rparr> else x) (dict_get (es_commands (db_log d)) k)"
proof -
  obtain k c where c: "dict_get (es_commands (db_log d)) k = Some c" "ci_command c = cid"
    using assms(2) by (auto simp: in_progress_def)
  obtain c' s e where co: "complete_command (ci_command c) res d = (Inr c', d\<lparr>db_log := s, db_env := e\<rparr>)"
    and get: "\<forall>k. dict_get (es_commands s) k = map_option (\<lambda>x. if ci_command x = ci_command c
        then x\<lparr>ci_status := ''completed'', ci_result := Some res, ci_updated_at := fst (clock_now (db_env d))\<rparr> else x)
        (dict_get (es_commands (db_log d)) k)"
    by (rule complete_command_ok [OF assms(1) dict_get_value [OF c(1)]])
  have "calm d (d\<lparr>db_log := s, db_env := e\<rparr>)" using complete_calms [OF assms, of res] co by (simp add: calms_def c(2))
  then show thesis
    using co get by (intro that [of c' "d\<lparr>db_log := s, db_env := e\<rparr>" "fst (clock_now (db_env d))"]) (simp_all add: c(2))
qed

lemma new_lease_write:
  assumes ok: "lease_ok d" and i: "i \<notin> set (dict_keys (leases d))" "i \<in> drawn_ids (db_env d)" "lz_id l = i"
  obtains d' where "insert_lease l d = (Inr (), d')" "lease_write {} d d'" "dict_get (leases d') i = Some l"
    "db_log d' = db_log d" "descriptors d' = descriptors d" "lease_ok d'"
proof -
  let ?d' = "d\<lparr>leases := dict_set i l (leases d)\<rparr>"
  have "registry_ok ?d'"
    by (rule registry_ok_grows [OF lease_okD(1) [OF ok]]) (simp_all add: grows_same lease_okD(3) [OF ok])
  then have ok': "lease_ok ?d'"
    using lease_rows.ok_put [OF lease_okD(2) [OF ok] i(2,3)] by (simp add: lease_ok_def)
  have none: "dict_get (leases d) i = None" using i(1) by (simp add: dict_get_None del: set_map)
  have "leases_le (leases d) (leases ?d')"
    using leases_le_set [of "leases d" i l] none by simp
  then have "lease_write {} d ?d'" using ok' lease_okD(3) [OF ok] by (intro grows_write) (simp_all add: grows_same)
  moreover have "insert_lease l d = (Inr (), ?d')" using i by (simp add: insert_lease_def table_insert_new)
  ultimately show thesis using ok' by (intro that [of ?d']) (simp_all add: dict_get_set)
qed

definition filed_as :: "uuid \<Rightarrow> json \<Rightarrow> 'x lease_db_scheme \<Rightarrow> 'x lease_db_scheme \<Rightarrow> bool" where
  "filed_as cid res d d' \<longleftrightarrow> (\<exists>now. \<forall>k. dict_get (es_commands (db_log d')) k = map_option (\<lambda>x. if ci_command x = cid
     then x\<lparr>ci_status := ''completed'', ci_result := Some res, ci_updated_at := now\<rparr> else x) (dict_get (es_commands (db_log d)) k))"

lemma decide_lease_ok:
  assumes ok: "lease_ok d" and p: "in_progress cid d" and l: "dict_get (leases d) (lz_id l) = Some l" "lz_status l = ''EVALUATING''"
  obtains l' d' where "decide_lease a cid l d = (Inr l', d')" "lease_write {} d d'" "dict_get (leases d') (lz_id l) = Some l'"
    "lz_id l' = lz_id l" "lease_le l l'" "lz_status l' = (if authorised a d then ''GRANTED'' else ''DENIED'')"
    "filed_as cid (JObj (lease_dump l')) d d'"
proof -
  note result = that
  have go: thesis
    if dec: "decide_lease a cid l d = and_then (transition_lease l target ty pl extra)
        (\<lambda>l. and_then (complete_command cid (JObj (lease_dump l))) (\<lambda>_. Pair (Inr l))) d"
      and st: "target \<in> set (succs CAPABILITY_LEASE_TRANSITIONS (lz_status l))"
      and extra: "\<And>x. same_lease x (extra x) \<and> lz_status (extra x) = lz_status x"
      and target: "target = (if authorised a d then ''GRANTED'' else ''DENIED'')" for target ty pl extra
  proof -
    obtain l' d1 where t: "transition_lease l target ty pl extra d = (Inr l', d1)" "moved_lease l' d d1" "lz_id l' = lz_id l"
        "dict_get (leases d1) (lz_id l) = Some l'" "lease_le l l'" "lz_status l' = target" "lease_ok d1"
      by (rule transition_lease_moves [OF ok l(1) st extra])
    have same: "es_commands (db_log d1) = es_commands (db_log d)" using t(2) by (simp add: moved_lease_def)
    have p1: "in_progress cid d1" using p by (simp add: in_progress_def same)
    obtain c d' now where c: "complete_command cid (JObj (lease_dump l')) d1 = (Inr c, d')" "calm d1 d'"
        "\<forall>k. dict_get (es_commands (db_log d')) k = map_option (\<lambda>x. if ci_command x = cid
          then x\<lparr>ci_status := ''completed'', ci_result := Some (JObj (lease_dump l')), ci_updated_at := now\<rparr> else x)
          (dict_get (es_commands (db_log d1)) k)"
      by (rule complete_calm [OF lease_okD(3) [OF t(7)] p1])
    have w: "lease_write {} d d1" by (rule moved_lease_write [OF ok t(2) _ t(5)]) (simp add: t(3) l(1))
    show thesis
    proof (rule result)
      show "decide_lease a cid l d = (Inr l', d')" unfolding dec by (simp add: and_then_def t(1) c(1))
      show "lease_write {} d d'" by (rule lease_write_trans [OF w calm_write [OF t(7) c(2)]])
      show "filed_as cid (JObj (lease_dump l')) d d'" unfolding filed_as_def using c(3) same by (intro exI [of _ now]) simp
    qed (use t c(2) target in \<open>simp_all add: calm_def\<close>)
  qed
  have next_st: "''GRANTED'' \<in> set (succs CAPABILITY_LEASE_TRANSITIONS (lz_status l))" "''DENIED'' \<in> set (succs CAPABILITY_LEASE_TRANSITIONS (lz_status l))"
    by (simp_all add: l(2) CAPABILITY_LEASE_TRANSITIONS_def succs_def)
  from lease_okD(1) [OF ok] show thesis
  proof (cases rule: evaluate_cases [of d a])
    case grant
    show thesis by (rule go [OF _ next_st(1), where extra = id]) (simp_all add: decide_lease_def grant)
  next
    case (deny reason)
    show thesis by (rule go [OF _ next_st(2), where extra = "\<lambda>x. x\<lparr>lz_denied := Some reason\<rparr>"]) (simp_all add: decide_lease_def deny)
  qed
qed

lemma file_request_ok:
  assumes ok: "lease_ok d" and p: "in_progress cid d"
  obtains l d' where "file_request a cid d = (Inr l, d')" "lease_write {} d d'" "dict_get (leases d) (lz_id l) = None"
    "dict_get (leases d') (lz_id l) = Some l" "scope_part l = scope_part a" "lz_hash l = lease_hash a"
    "lz_status l = (if authorised a d then ''GRANTED'' else ''DENIED'')" "filed_as cid (JObj (lease_dump l)) d d'"
proof -
  let ?now = "fst (clock_now (db_env d))" and ?d0 = "d\<lparr>db_env := snd (clock_now (db_env d))\<rparr>"
  let ?i = "fst (uuid7 (db_env ?d0))" and ?d1 = "d\<lparr>db_env := snd (uuid7 (db_env ?d0))\<rparr>"
  let ?l = "requested_lease a ?i ?now"
  have w1: "lease_write {} d ?d1" by (rule same_write [OF ok]) simp_all
  then have ok1: "lease_ok ?d1" by (simp add: lease_write_def)
  note new = lease_rows.new_row [OF lease_okD(2) [OF clock_write(2) [OF ok]]]
  have i: "?i \<notin> set (dict_keys (leases ?d1))" "?i \<in> drawn_ids (db_env ?d1)" "lz_id ?l = ?i" using new by simp_all
  obtain d2 where ins: "insert_lease ?l ?d1 = (Inr (), d2)" "lease_write {} ?d1 d2" "dict_get (leases d2) ?i = Some ?l"
      "db_log d2 = db_log ?d1" "descriptors d2 = descriptors ?d1" "lease_ok d2"
    by (rule new_lease_write [OF ok1 i])
  obtain ev d3 where ev: "append_event (lease_event ''CapabilityLeaseRequested'' ?l (capability_payload a)) d2 = (Inr ev, d3)" "calm d2 d3"
      "es_commands (db_log d3) = es_commands (db_log d2)"
    by (rule event_calm [OF lease_okD(3) [OF ins(6)]])
  have ok3: "lease_ok d3" by (rule calm_ok [OF ev(2) ins(6)])
  have l3: "dict_get (leases d3) (lz_id ?l) = Some ?l" using ins(3) ev(2) by (simp add: calm_def)
  have st: "''EVALUATING'' \<in> set (succs CAPABILITY_LEASE_TRANSITIONS (lz_status ?l))"
    by (simp add: CAPABILITY_LEASE_TRANSITIONS_def succs_def)
  obtain l4 d4 where t: "transition_lease ?l ''EVALUATING'' ''CapabilityLeaseEvaluating'' [] id d3 = (Inr l4, d4)" "moved_lease l4 d3 d4"
      "lz_id l4 = lz_id ?l" "dict_get (leases d4) (lz_id ?l) = Some l4" "lease_le ?l l4" "lz_status l4 = ''EVALUATING''" "lease_ok d4"
    by (rule transition_lease_moves [OF ok3 l3 st, where extra = id]) simp_all
  have cmds: "es_commands (db_log d4) = es_commands (db_log d)" using t(2) ev(3) ins(4) by (simp add: moved_lease_def)
  have p4: "in_progress cid d4" using p by (simp add: in_progress_def cmds)
  have l4: "dict_get (leases d4) (lz_id l4) = Some l4" using t(3,4) by simp
  obtain l' d' where dec: "decide_lease a cid l4 d4 = (Inr l', d')" "lease_write {} d4 d'" "dict_get (leases d') (lz_id l4) = Some l'"
      "lz_id l' = lz_id l4" "lease_le l4 l'" "lz_status l' = (if authorised a d4 then ''GRANTED'' else ''DENIED'')"
      "filed_as cid (JObj (lease_dump l')) d4 d'"
    by (rule decide_lease_ok [OF t(7) p4 l4 t(6)])
  have w4: "lease_write {} d3 d4" by (rule moved_lease_write [OF ok3 t(2) _ t(5)]) (simp only: t(3) l3)
  have id: "lz_id l' = ?i" using dec(4) t(3) by simp
  have le: "same_lease ?l l'" using lease_le_trans [OF t(5) dec(5)] by (simp add: lease_le_def)
  have desc: "descriptors d4 = descriptors d" using t(2) ev(2) ins(5) by (simp add: moved_lease_def calm_def)
  show thesis
  proof (rule that)
    show "file_request a cid d = (Inr l', d')"
      using ins(1) ev(1) t(1) dec(1) by (simp add: file_request_def read_clock_eq draw_id_eq and_then_def)
    show "lease_write {} d d'"
      by (rule lease_write_trans [OF lease_write_trans [OF lease_write_trans [OF w1 ins(2)] calm_write [OF ins(6) ev(2)]]
        lease_write_trans [OF w4 dec(2)]])
    show "dict_get (leases d) (lz_id l') = None" unfolding id using i(1) by (simp add: dict_get_None)
    show "dict_get (leases d') (lz_id l') = Some l'" using dec(3,4) by simp
    show "scope_part l' = scope_part a" "lz_hash l' = lease_hash a" using le by (simp_all add: same_lease_def)
    show "lz_status l' = (if authorised a d then ''GRANTED'' else ''DENIED'')" using dec(6) authorised_same [OF desc] by simp
    show "filed_as cid (JObj (lease_dump l')) d d'" using dec(7) by (simp add: filed_as_def cmds)
  qed
qed

lemma request_write:
  assumes ok: "lease_ok d"
  shows "lease_write {} d (snd (request_lease a d))"
  unfolding request_lease_def
proof (rule settle_write [OF ok])
  let ?enter = "begin_command (lz_tenant a) (lz_project a) (lr_key a) (lease_hash a)"
  show "lease_write {} d (snd (and_then ?enter
      (\<lambda>(rec, is_new). if \<not> is_new then Pair (replay_lease rec) else file_request a (ci_command rec)) d))"
    using lease_okD(3) [OF ok]
  proof (cases rule: begin_command_grows [of d "lz_tenant a" "lz_project a" "lr_key a" "lease_hash a"])
    case (new r s e)
    let ?d1 = "d\<lparr>db_log := s, db_env := e\<rparr>"
    have w: "lease_write {} d ?d1" by (rule calm_write [OF ok]) (simp add: calm_def new(2))
    then have "lease_ok ?d1" by (simp add: lease_write_def)
    then obtain l d' where f: "file_request a (ci_command r) ?d1 = (Inr l, d')" "lease_write {} ?d1 d'"
      by (rule file_request_ok [OF _ new(3)])
    show ?thesis using new(1) f(1) lease_write_trans [OF w f(2)] by (simp add: and_then_def)
  next
    case (old r e)
    have "lease_write {} d (d\<lparr>db_env := e\<rparr>)" by (rule calm_write [OF ok]) (simp add: calm_def old(2))
    then show ?thesis using old(1,3) by (auto simp: and_then_def)
  qed
qed

lemma more_leases:
  assumes "registry_db.more d' = registry_db.more d"
  shows "leases d' = leases d" and "lease_db.more d' = lease_db.more d"
  using assms by (cases d, cases d', simp)+

lemma catalogue_write:
  fixes d :: "'x lease_db_scheme"
  assumes ok: "lease_ok d"
  shows "lease_write {} d (registry_step op d)"
proof -
  have frame: "registry_ok (registry_step op d) \<and> registry_frame d (registry_step op d)"
  proof (rule registry_service.step_keeps [where P = "registry_frame d", OF lease_okD(1) [OF ok]])
    show "registry_frame d d" by (simp add: registry_frame_def grows_same lease_okD(3) [OF ok])
    fix d1 d2 :: "'x lease_db_scheme" assume "registry_write (registers_global op) d1 d2" "registry_frame d d1"
    then show "registry_frame d d2" by (auto elim!: registry_write.cases intro: registry_frame_trans)
  qed
  then have g: "grows d (registry_step op d)" and l: "leases (registry_step op d) = leases d"
      and m: "lease_db.more (registry_step op d) = lease_db.more d"
    by (simp_all add: registry_frame_def more_leases [of "registry_step op d" d])
  have "lease_ok (registry_step op d)"
    using frame table_ok_grows [OF lease_okD(2) [OF ok] g l] by (simp add: lease_ok_def)
  then show ?thesis by (rule grows_write [OF _ g]) (simp_all add: l m)
qed

section \<open>Runs of calls\<close>

text \<open>The rows of the command ledger a call may rewrite: those of the run it stops or releases.\<close>

fun touched :: "lease_op \<Rightarrow> (uuid \<times> string) set" where
  "touched (ArmRunStop os t p r) = {(t, run_stop_idempotency_key r)}"
| "touched (DisarmRunStop t p r w) = {(t, run_stop_idempotency_key r)}"
| "touched _ = {}"

fun disarms :: "uuid \<Rightarrow> uuid \<Rightarrow> lease_op \<Rightarrow> bool" where
  "disarms t r (DisarmRunStop t' p r' w) \<longleftrightarrow> t' = t \<and> r' = r"
| "disarms t r _ \<longleftrightarrow> False"

definition stops_kept :: "lease_op \<Rightarrow> 'x lease_db_scheme \<Rightarrow> 'x lease_db_scheme \<Rightarrow> bool" where
  "stops_kept op d d' \<longleftrightarrow> (\<forall>t r. \<not> disarms t r op \<longrightarrow> durably_stopped t r d \<longrightarrow> durably_stopped t r d')"

definition call_write :: "lease_op \<Rightarrow> 'x lease_db_scheme \<Rightarrow> 'x lease_db_scheme \<Rightarrow> bool" where
  "call_write op d d' \<longleftrightarrow> lease_write (touched op) d d' \<and> stops_kept op d d'"

lemma stops_keptI:
  assumes "lease_write A d d'" and "\<And>t r. (t, run_stop_idempotency_key r) \<in> A \<Longrightarrow> disarms t r op"
  shows "stops_kept op d d'"
  using durable_kept [OF _ assms(1)] assms(2) unfolding stops_kept_def by blast

lemma lease_step_write:
  assumes ok: "lease_ok d"
  shows "call_write op d (lease_step op d)"
proof -
  have quiet: "call_write op d d'" if "lease_write {} d d'" for d'
    using lease_write_mono [OF that, of "touched op"] stops_keptI [OF that, of op] by (simp add: call_write_def)
  have flags: "lease_write {} d (d\<lparr>kill_flags := f, processes := p\<rparr>)" "lease_write {} d (d\<lparr>processes := p\<rparr>)" for f p
    by (rule same_write [OF ok]; simp)+
  show ?thesis
  proof (cases op)
    case (ArmRunStop os t p r)
    from ok show ?thesis
    proof (cases rule: arm_run_stop_cases [of d os t p r])
      case (failed err d')
      then show ?thesis using quiet [of d'] by (simp add: ArmRunStop)
    next
      case (armed x d')
      have "stops_kept op d d'"
        unfolding stops_kept_def
      proof (intro allI impI)
        fix t' r' assume s: "durably_stopped t' r' d"
        show "durably_stopped t' r' d'"
        proof (cases "t' = t \<and> r' = r")
          case False
          then show ?thesis using durable_kept [OF s armed(3)] by (simp add: stop_key_inj)
        qed (use armed(2) in simp)
      qed
      then show ?thesis using armed(1,3) by (simp add: ArmRunStop call_write_def)
    qed
  next
    case (DisarmRunStop t p r w)
    show ?thesis
      using disarm_run_stop_write [OF ok, of t r p w] stops_keptI [OF disarm_run_stop_write [OF ok, of t r p w], of op]
      by (simp add: DisarmRunStop call_write_def stop_key_inj)
  qed (use quiet flags request_write [OF ok] require_active_write [OF ok] require_active_lease_write [OF ok] end_lease_writes [OF ok]
      consume_all_write [OF ok] catalogue_write [OF ok] in simp_all)
qed

interpretation lease_service: service lease_step lease_ok call_write
proof
  fix op and d :: "'x lease_db_scheme"
  show "lease_ok d \<Longrightarrow> (call_write op)\<^sup>*\<^sup>* d (lease_step op d)" by (rule r_into_rtranclp) (rule lease_step_write)
next
  fix op and d d' :: "'x lease_db_scheme"
  show "call_write op d d' \<Longrightarrow> lease_ok d \<Longrightarrow> lease_ok d'" by (simp add: call_write_def lease_write_def)
qed

lemma lease_run_keeps:
  assumes "lease_ok d"
  shows "lease_ok (lease_run ops d)" and "leases_le (leases d) (leases (lease_run ops d))"
    and "durably_stopped t r d \<Longrightarrow> \<not> list_ex (disarms t r) ops \<Longrightarrow> durably_stopped t r (lease_run ops d)"
proof -
  have "lease_ok (lease_run ops d) \<and> leases_le (leases d) (leases (lease_run ops d))"
    unfolding lease_run_def
  proof (rule lease_service.run_keeps [where P = "\<lambda>x. leases_le (leases d) (leases x)", OF assms])
    fix op d1 d2 assume "call_write op d1 d2" "leases_le (leases d) (leases d1)"
    then show "leases_le (leases d) (leases d2)" using leases_le_trans by (auto simp: call_write_def lease_write_def)
  qed simp
  then show "lease_ok (lease_run ops d)" "leases_le (leases d) (leases (lease_run ops d))" by simp_all
  assume s: "durably_stopped t r d" and no: "\<not> list_ex (disarms t r) ops"
  have "lease_ok (lease_run ops d) \<and> durably_stopped t r (lease_run ops d)"
    unfolding lease_run_def
  proof (rule lease_service.run_keeps [where P = "durably_stopped t r", OF assms s])
    fix op d1 d2 assume w: "op \<in> set ops" "call_write op d1 d2" "durably_stopped t r d1"
    then show "durably_stopped t r d2" using no by (auto simp: call_write_def stops_kept_def list_ex_iff)
  qed
  then show "durably_stopped t r (lease_run ops d)" by simp
qed

text \<open>The filed lease is read back as it was.\<close>

lemma lease_validate_dump: "lease_validate (lease_dump l) = Some l"
proof -
  let ?d = "lease_dump l"
  have "list_all (\<lambda>k. k \<in> set lease_fields) (dict_keys ?d)" by (simp add: lease_dump_def lease_fields_def)
  moreover have "get_optional ?d ''worker_run_id'' = Some (lz_run l)" "get_optional ?d ''environment_id'' = Some (lz_environment l)"
      "get_optional ?d ''denied_reason'' = Some (lz_denied l)" "get_when ?d ''revoked_at'' = Some (lz_revoked_at l)"
      "get_optional ?d ''revocation_reason'' = Some (lz_revocation l)"
    by (simp_all add: get_optional_def get_when_def lease_dump_def json_opt_def json_when_def split: option.split)
  ultimately show ?thesis
    by (simp add: lease_validate_def) (simp add: get_str_def get_int_def get_bool_def get_obj_def lease_dump_def)
qed

text \<open>A run that holds no lease and was never stopped can be stopped.\<close>

lemma first_stop_returns:
  assumes ok: "lease_ok d" and new: "(t, run_stop_idempotency_key r) \<notin> set (dict_keys (es_commands (db_log d)))"
    and none: "list_held_for_run r d = []"
  obtains d' where "arm_run_stop os t p r d = (Inr [], d')"
proof -
  let ?d0 = "arm_flag (t, p, r) d" and ?res = "stop_result STOP_STATE_ARMED KILL_FLAG_REASON"
  have "lease_write {} d ?d0" by (rule same_write [OF ok]) (simp_all add: arm_flag_def)
  then have ok0: "lease_ok ?d0" by (simp add: lease_write_def)
  have new0: "(t, run_stop_idempotency_key r) \<notin> set (dict_keys (es_commands (db_log ?d0)))" using new by (simp add: arm_flag_def)
  from lease_okD(3) [OF ok0] show thesis
  proof (cases rule: begin_command_cases [of ?d0 t p "run_stop_idempotency_key r" "run_stop_hash r"])
    case (new c s e)
    let ?d1 = "?d0\<lparr>db_log := s, db_env := e\<rparr>"
    have c: "c \<in> set (dict_values (es_commands (db_log ?d1)))" using new(5) by simp
    obtain c' s' e' where co: "complete_command (ci_command c) ?res ?d1 = (Inr c', ?d1\<lparr>db_log := s', db_env := e'\<rparr>)"
        "log_ok (?d1\<lparr>db_log := s', db_env := e'\<rparr>)"
      by (rule complete_command_ok [OF new(3) c])
    let ?d2 = "?d1\<lparr>db_log := s', db_env := e'\<rparr>"
    let ?ev = "stop_event RUN_STOP_ARMED_EVENT_TYPE t p r None None [(''reason'', JStr KILL_FLAG_REASON), (''revoked_count'', JInt 0),
        (''revoked_lease_ids'', JList []),
        (''terminated_processes'', JList (map (\<lambda>out. JObj [(''pid'', JInt (to_pid out)), (''phase'', JStr (to_phase out))])
          (sweep_run os (t, p, r) (processes ?d2))))]"
    obtain ev d3 where ev: "append_event ?ev ?d2 = (Inr ev, d3)" by (rule event_calm [OF co(2)])
    have "list_held_for_run r ?d2 = []" using none by (simp add: list_held_for_run_def arm_flag_def)
    then have "sweep_run_stop os t p r ?d2 = (Inr [], d3)"
      using ev by (simp add: sweep_run_stop_def and_then_def sweep_live_processes_def)
    moreover have "record_run_stop t p r True KILL_FLAG_REASON ?d0 = (Inr (), ?d2)"
      using new(1) co(1) by (simp add: record_run_stop_def and_then_def)
    ultimately have "arm_run_stop os t p r d = (Inr [], d3)" by (simp add: arm_run_stop_def settle_def and_then_def)
    then show thesis by (rule that)
  next
    case (old x c e)
    then show thesis using new0 dict_get_key [OF old(2)] by blast
  qed
qed

section \<open>Properties\<close>

text \<open>
  C10. A stop holds. When \<open>arm_run_stop\<close> has returned, no lease of the run is live, and whatever calls follow,
  a restart of the process among them, as long as none of them disarms the run in its tenant, \<open>require_active\<close>
  refuses every capability to it and leaves it without a live lease again.
\<close>

theorem stop_is_durable:
  assumes "lease_ok d" and "arm_run_stop os t p r d = (Inr ls, d1)" and "\<not> list_ex (disarms t r) ops"
  shows "run_quiet r d1 \<and> (\<exists>d2. require_active t p r cap (lease_run ops d1) = (Inl (stopped_error r cap), d2) \<and> run_quiet r d2)"
proof -
  have armed: "lease_ok d1 \<and> durably_stopped t r d1 \<and> run_quiet r d1"
    using assms(1)
  proof (cases rule: arm_run_stop_cases [of d os t p r])
    case (armed x d')
    moreover have "x = Inr ls" "d' = d1" using armed(1) assms(2) by simp_all
    ultimately show ?thesis by (simp add: lease_write_def)
  qed (use assms(2) in simp)
  then have "durably_stopped t r (lease_run ops d1)" using lease_run_keeps(3) assms(3) by blast
  then have "is_run_stopped t p r (lease_run ops d1)" by (rule durable_read)
  then obtain d2 where "require_active t p r cap (lease_run ops d1) = (Inl (stopped_error r cap), d2)" "run_quiet r d2"
    using require_active_stopped [OF lease_run_keeps(1)] armed by blast
  then show ?thesis using armed by blast
qed

definition empty_lease_db :: lease_db where
  "empty_lease_db = registry_db.extend empty_registry (lease_db.fields [] [] [])"

lemma empty_lease_db_ok:
  "lease_ok empty_lease_db" "leases empty_lease_db = []" "es_commands (db_log empty_lease_db) = []" "descriptors empty_lease_db = []"
proof -
  have "db_log empty_lease_db = db_log empty_registry" "db_env empty_lease_db = db_env empty_registry"
    "descriptors empty_lease_db = descriptors empty_registry" "leases empty_lease_db = []"
    by (simp_all add: empty_lease_db_def empty_registry_def registry_db.extend_def lease_db.fields_def)
  then show "lease_ok empty_lease_db" "leases empty_lease_db = []" "es_commands (db_log empty_lease_db) = []" "descriptors empty_lease_db = []"
    using empty_registry_ok by (simp_all add: lease_ok_def registry_ok_def table_ok_def log_ok_def)
      (simp_all add: empty_registry_def empty_event_store_def)
qed

theorem stop_is_durable_witness:
  "\<exists>d1 d2. arm_run_stop (\<lambda>_. Inr ''gone'') ''t'' ''p'' ''r'' empty_lease_db = (Inr [], d1) \<and>
    require_active ''t'' ''p'' ''r'' ''c'' (lease_run [Restart, DisarmRunStop ''u'' ''p'' ''r'' ''w''] d1) = (Inl (stopped_error ''r'' ''c''), d2)"
proof -
  obtain d1 where a: "arm_run_stop (\<lambda>_. Inr ''gone'') ''t'' ''p'' ''r'' empty_lease_db = (Inr [], d1)"
    by (rule first_stop_returns [OF empty_lease_db_ok(1)]) (simp_all add: empty_lease_db_ok list_held_for_run_def)
  then show ?thesis
    using stop_is_durable [OF empty_lease_db_ok(1) a, of "[Restart, DisarmRunStop ''u'' ''p'' ''r'' ''w'']" "''c''"] by auto
qed

text \<open>
  C11. What a checkout proves. When \<open>require_active\<close> returns a lease, the run was not stopped, and the lease is
  the newest one stored for that run and capability: it was granted or active, had not expired at the reading of
  the clock, and is now stored as active, with its scope unchanged.
\<close>

theorem checkout_sound:
  assumes "lease_ok d" and "require_active t p r cap d = (Inr l, d')"
  shows "\<not> is_run_stopped t p r d
    \<and> (\<exists>l0. get_active_for_run r cap d = Some l0 \<and> lz_status l0 \<in> set HELD_LEASE_STATUSES \<and> fst (clock_now (db_env d)) < lz_expires_at l0
         \<and> lease_le l0 l \<and> list_all (\<lambda>x. lz_run x = Some r \<and> lz_capability x = cap \<longrightarrow> lz_created_at x \<le> lz_created_at l0) (dict_values (leases d)))
    \<and> dict_get (leases d') (lz_id l) = Some l \<and> lz_status l = ''ACTIVE'' \<and> lz_run l = Some r \<and> lz_capability l = cap \<and> lease_ok d'"
proof -
  have run: "\<not> is_run_stopped t p r d"
  proof
    assume "is_run_stopped t p r d"
    then obtain d2 where "require_active t p r cap d = (Inl (stopped_error r cap), d2)" by (rule require_active_stopped [OF assms(1)])
    then show False using assms(2) by simp
  qed
  obtain l0 where l0: "get_active_for_run r cap d = Some l0"
    using assms(2) run by (cases "get_active_for_run r cap d") (simp_all add: require_active_def settle_def)
  have act: "activate_held_lease l0 d = (Inr l, d')"
    by (cases rule: settle_cases [of "activate_held_lease l0" d]) (use assms(2) run l0 in \<open>simp_all add: require_active_def settle_def\<close>)
  note found = get_active_for_run_SomeD [OF assms(1) l0]
  let ?now = "fst (clock_now (db_env d))" and ?d1 = "d\<lparr>db_env := snd (clock_now (db_env d))\<rparr>"
  have held: "lz_status l0 \<in> set HELD_LEASE_STATUSES" "?now < lz_expires_at l0"
    using act by (simp_all add: activate_held_lease_def read_clock_eq and_then_return split: if_splits sum.splits)
  have newest: "list_all (\<lambda>x. lz_run x = Some r \<and> lz_capability x = cap \<longrightarrow> lz_created_at x \<le> lz_created_at l0) (dict_values (leases d))"
    using found(4) unfolding list_all_iff by blast
  have end_state: "lease_le l0 l \<and> dict_get (leases d') (lz_id l) = Some l \<and> lz_status l = ''ACTIVE'' \<and> lease_ok d'"
  proof (cases "lz_status l0 = ''GRANTED''")
    case True
    have l1: "dict_get (leases ?d1) (lz_id l0) = Some l0" using found(1) by simp
    have st: "''ACTIVE'' \<in> set (succs CAPABILITY_LEASE_TRANSITIONS (lz_status l0))"
      by (simp add: True CAPABILITY_LEASE_TRANSITIONS_def succs_def)
    obtain l' d2 where t: "transition_lease l0 ''ACTIVE'' ''CapabilityLeaseActivated'' [] id ?d1 = (Inr l', d2)" "lz_id l' = lz_id l0"
        "dict_get (leases d2) (lz_id l0) = Some l'" "lease_le l0 l'" "lz_status l' = ''ACTIVE''" "lease_ok d2"
      by (rule transition_lease_moves [OF clock_write(2) [OF assms(1)] l1 st, where extra = id]) simp_all
    have "l' = l" "d2 = d'" using act held t(1) True by (simp_all add: activate_held_lease_def read_clock_eq)
    then show ?thesis using t(2-6) by simp
  next
    case False
    then have "l = l0" "d' = ?d1" "lz_status l0 = ''ACTIVE''"
      using act held by (auto simp: activate_held_lease_def read_clock_eq HELD_LEASE_STATUSES_def)
    then show ?thesis using found(1) clock_write(2) [OF assms(1)] by simp
  qed
  then have "lz_run l = Some r" "lz_capability l = cap"
    using found(2,3) scope_part_fields [of l l0] by (simp_all add: lease_le_def same_lease_def)
  then show ?thesis using run l0 held newest end_state by blast
qed

definition sample_lease :: capability_lease where
  "sample_lease = \<lparr>lz_tenant = ''t'', lz_project = ''p'', lz_mission = ''m'', lz_task = ''k'', lz_plan = ''e'', lz_run = Some ''r'',
     lz_environment = None, lz_capability = ''c'', lz_version = ''1'', lz_resource = [], lz_operation = ''run'', lz_constraints = [],
     lz_id = '''', lz_policy = CAPABILITY_LEASE_POLICY_VERSION, lz_issued_at = 0, lz_expires_at = DEFAULT_LEASE_TTL, lz_revocable = True,
     lz_status = ''ACTIVE'', lz_denied = None, lz_revoked_at = None, lz_revocation = None, lz_hash = '''', lz_requested_by = ''w'',
     lz_created_at = 0, lz_updated_at = 0\<rparr>"

definition one_lease_db :: lease_db where
  "one_lease_db = empty_lease_db\<lparr>db_env := snd (uuid7 (db_env empty_lease_db)), leases := [('''', sample_lease)]\<rparr>"

lemma one_lease_db_ok: "lease_ok one_lease_db" "leases one_lease_db = [('''', sample_lease)]" "kill_flags one_lease_db = []"
    "es_commands (db_log one_lease_db) = []" "fst (clock_now (db_env one_lease_db)) = 0"
proof -
  let ?d = "empty_lease_db\<lparr>db_env := snd (uuid7 (db_env empty_lease_db))\<rparr>"
  have ok: "lease_ok ?d" using same_write [OF empty_lease_db_ok(1), of ?d "{}"] by (simp add: lease_write_def)
  have id: "fst (uuid7 (db_env empty_lease_db)) = ''''"
    by (simp add: empty_lease_db_def empty_registry_def registry_db.extend_def lease_db.fields_def uuid7_def)
  then have drawn: "'''' \<in> drawn_ids (db_env ?d)"
    using lease_rows.new_row(2) [OF lease_okD(2) [OF empty_lease_db_ok(1)]] by simp
  have i: "'''' \<notin> set (dict_keys (leases ?d))" "lz_id sample_lease = ''''" by (simp_all add: empty_lease_db_ok(2) sample_lease_def)
  have "insert_lease sample_lease ?d = (Inr (), one_lease_db)"
    by (simp add: insert_lease_def i(2) table_insert_new one_lease_db_def empty_lease_db_ok(2))
  then show "lease_ok one_lease_db"
    by (cases rule: new_lease_write [OF ok i(1) drawn i(2)]) simp
  have "fst (clock_now (db_env empty_lease_db)) = 0"
    by (simp add: empty_lease_db_def empty_registry_def registry_db.extend_def lease_db.fields_def clock_now_def)
  then show "fst (clock_now (db_env one_lease_db)) = 0" by (simp add: one_lease_db_def uuid7_def clock_now_def)
  show "kill_flags one_lease_db = []"
    by (simp add: one_lease_db_def empty_lease_db_def registry_db.extend_def lease_db.fields_def)
qed (simp_all add: one_lease_db_def empty_lease_db_ok)

theorem checkout_sound_witness:
  "\<exists>d'. require_active ''t'' ''p'' ''r'' ''c'' one_lease_db = (Inr sample_lease, d') \<and> dict_get (leases d') '''' = Some sample_lease"
proof -
  have "require_active ''t'' ''p'' ''r'' ''c'' one_lease_db = (Inr sample_lease, one_lease_db\<lparr>db_env := snd (clock_now (db_env one_lease_db))\<rparr>)"
    by (simp add: require_active_def settle_def is_run_stopped_def read_durable_run_stop_def get_active_for_run_def one_lease_db_ok
        activate_held_lease_def read_clock_eq sample_lease_def DEFAULT_LEASE_TTL_def HELD_LEASE_STATUSES_def)
  from checkout_sound [OF one_lease_db_ok(1) this] this show ?thesis by (auto simp: sample_lease_def)
qed

text \<open>
  C12. What a lease may be used for never changes. Whatever calls follow, the catalogue's included, a stored
  lease keeps its id, its scope, its hash and its expiry; its status follows its machine, and once it is denied,
  revoked, consumed or expired it stays so.
\<close>

theorem lease_scope_final:
  assumes "lease_ok d" and "dict_get (leases d) i = Some l"
  shows "\<exists>l'. dict_get (leases (lease_run ops d)) i = Some l' \<and> same_lease l l' \<and> lease_moves\<^sup>*\<^sup>* (lz_status l) (lz_status l')
    \<and> (lz_status l \<in> {''DENIED'', ''REVOKED'', ''CONSUMED'', ''EXPIRED''} \<longrightarrow> lz_status l' = lz_status l)"
proof -
  obtain l' where l': "dict_get (leases (lease_run ops d)) i = Some l'" "lease_le l l'"
    using lease_run_keeps(2) [OF assms(1), of ops] assms(2) unfolding leases_le_def by blast
  have "succs CAPABILITY_LEASE_TRANSITIONS (lz_status l) = []" if "lz_status l \<in> {''DENIED'', ''REVOKED'', ''CONSUMED'', ''EXPIRED''}"
    using that by (auto simp: CAPABILITY_LEASE_TRANSITIONS_def succs_def)
  then show ?thesis using l' lease_final [OF l'(2)] by (auto simp: lease_le_def)
qed

theorem lease_scope_final_witness:
  "\<exists>l'. dict_get (leases (lease_run [RevokeLease '''' ''w'', Restart, ConsumeAllForRun ''r''] one_lease_db)) '''' = Some l' \<and> same_lease sample_lease l'"
  using lease_scope_final [OF one_lease_db_ok(1), of "''''" sample_lease "[RevokeLease '''' ''w'', Restart, ConsumeAllForRun ''r'']"]
  by (auto simp: one_lease_db_ok(2))

text \<open>
  C13. A request is decided at once. Under an idempotency key that was not used, \<open>request\<close> stores one new lease
  with the requested scope and its hash, granted when the active version of the capability the tenant reads is
  the requested one and certified, and denied otherwise; the command ledger files the lease, so that the same
  request is answered with it again.
\<close>

theorem request_decides:
  assumes "lease_ok d" and "(lz_tenant a, lr_key a) \<notin> set (dict_keys (es_commands (db_log d)))"
  shows "\<exists>l d' c. request_lease a d = (Inr l, d') \<and> lease_ok d' \<and> dict_get (leases d) (lz_id l) = None \<and> dict_get (leases d') (lz_id l) = Some l
    \<and> scope_part l = scope_part a \<and> lz_hash l = lease_hash a \<and> lz_status l = (if authorised a d then ''GRANTED'' else ''DENIED'')
    \<and> dict_get (es_commands (db_log d')) (lz_tenant a, lr_key a) = Some c \<and> ci_request_hash c = lease_hash a \<and> replay_lease c = Inr l"
  using lease_okD(3) [OF assms(1)]
proof (cases rule: begin_command_cases [of d "lz_tenant a" "lz_project a" "lr_key a" "lease_hash a"])
  case (new r s e)
  let ?d1 = "d\<lparr>db_log := s, db_env := e\<rparr>" and ?k = "(lz_tenant a, lr_key a)"
  have row: "dict_get (es_commands (db_log ?d1)) ?k = Some r" using new(2,5) by (simp add: map_add_Some_iff dict_get_None)
  then have p: "in_progress (ci_command r) ?d1" using new(10) unfolding in_progress_def by blast
  have ok1: "lease_ok ?d1"
    using descriptor_rows.ok_log [OF registry_okD(3) [OF lease_okD(1) [OF assms(1)]] new(3,4)]
      lease_rows.ok_log [OF lease_okD(2) [OF assms(1)] new(3,4)] lease_okD(1) [OF assms(1)] by (simp add: lease_ok_def registry_ok_def)
  obtain l d' where f: "file_request a (ci_command r) ?d1 = (Inr l, d')" "lease_write {} ?d1 d'" "dict_get (leases ?d1) (lz_id l) = None"
      "dict_get (leases d') (lz_id l) = Some l" "scope_part l = scope_part a" "lz_hash l = lease_hash a"
      "lz_status l = (if authorised a ?d1 then ''GRANTED'' else ''DENIED'')" "filed_as (ci_command r) (JObj (lease_dump l)) ?d1 d'"
    by (rule file_request_ok [OF ok1 p])
  obtain c where c: "dict_get (es_commands (db_log d')) ?k = Some c" "ci_request_hash c = lease_hash a" "ci_status c = ''completed''"
      "ci_result c = Some (JObj (lease_dump l))"
    using f(8) row new(9) unfolding filed_as_def by force
  have "request_lease a d = (Inr l, d')" using new(1) f(1) by (simp add: request_lease_def settle_def and_then_def)
  moreover have "replay_lease c = Inr l" using c(3,4) by (simp add: replay_lease_def lease_validate_dump)
  moreover have "lz_status l = (if authorised a d then ''GRANTED'' else ''DENIED'')" using f(7) by (simp add: authorised_same [of ?d1 d])
  ultimately show ?thesis using f(2-6) c(1,2) by (intro exI [of _ l] exI [of _ d'] exI [of _ c]) (simp add: lease_write_def)
next
  case (old r c e)
  then show ?thesis using assms(2) dict_get_key [OF old(2)] by blast
qed

definition sample_lease_request :: lease_request where
  "sample_lease_request = lease_scope.extend (scope_part sample_lease) (lease_request.fields ''w'' ''key'' CAPABILITY_LEASE_POLICY_VERSION DEFAULT_LEASE_TTL)"

theorem request_decides_witness:
  "\<exists>l d'. request_lease sample_lease_request one_lease_db = (Inr l, d') \<and> lz_status l = ''DENIED'' \<and> dict_get (leases d') (lz_id l) = Some l"
proof -
  have "\<not> authorised sample_lease_request one_lease_db"
    by (simp add: authorised_def get_active_by_capability_id_def visible_rows_def one_lease_db_def empty_lease_db_ok(4))
  then show ?thesis
    using request_decides [OF one_lease_db_ok(1), of sample_lease_request] by (auto simp: one_lease_db_ok(4))
qed

end
