(* ===== verification/Broker.thy ===== *)
theory Broker
  imports Leases
begin

text \<open>
  \<open>engine/capabilities/broker\<close>: the credential broker (\<open>service.py\<close>, \<open>repository.py\<close>, \<open>hashing.py\<close>,
  \<open>provider.py\<close>). A credential is minted for an active lease; the table keeps its handle, with the SHA-256
  of the secret, and the secret itself is returned once. Secrets come from \<open>secrets.token_urlsafe\<close>, a sequence
  the model is given. The broker works on the database of the lease service and asks the same stop record.
  Proved here: a handle carries the scope of its lease and never outlives it; a run that was stopped gets no
  credential; a revoked handle never verifies again; and a secret is returned once, for a handle it verifies.
\<close>

section \<open>Handles\<close>

text \<open>
  \<open>engine/contracts/credential_handle.py\<close>: what is fixed when the handle is made, and what its end writes.
\<close>

record credential_binding =
  ch_id :: uuid
  ch_tenant :: uuid
  ch_project :: uuid
  ch_mission :: uuid
  ch_task :: uuid
  ch_run :: "uuid option"
  ch_lease :: uuid
  ch_capability :: string
  ch_provider :: string
  ch_provider_ref :: "string option"
  ch_resource :: "(string \<times> json) list"
  ch_policy :: string
  ch_secret_hash :: string
  ch_issued_at :: time
  ch_expires_at :: time
  ch_supersedes :: "uuid option"
  ch_requested_by :: string
  ch_created_at :: time

record credential_handle = credential_binding +
  ch_status :: string
  ch_revoked_at :: "time option"
  ch_revocation :: "string option"
  ch_superseded_by :: "uuid option"
  ch_updated_at :: time

abbreviation binding_part :: "credential_handle \<Rightarrow> credential_binding" where
  "binding_part \<equiv> credential_binding.truncate"

record issued_credential =
  ic_handle :: credential_handle
  ic_secret :: "string option"

definition handle_dump :: "credential_handle \<Rightarrow> (string \<times> json) list" where
  "handle_dump h =
    [(''handle_id'', JStr (ch_id h)), (''tenant_id'', JStr (ch_tenant h)), (''project_id'', JStr (ch_project h)),
     (''mission_id'', JStr (ch_mission h)), (''task_id'', JStr (ch_task h)), (''worker_run_id'', json_opt (ch_run h)),
     (''lease_id'', JStr (ch_lease h)), (''capability_id'', JStr (ch_capability h)), (''provider_id'', JStr (ch_provider h)),
     (''provider_ref'', json_opt (ch_provider_ref h)), (''resource_scope'', JObj (ch_resource h)),
     (''issued_by_policy_version'', JStr (ch_policy h)), (''secret_hash'', JStr (ch_secret_hash h)), (''status'', JStr (ch_status h)),
     (''issued_at'', JInt (ch_issued_at h)), (''expires_at'', JInt (ch_expires_at h)), (''revoked_at'', json_when (ch_revoked_at h)),
     (''revocation_reason'', json_opt (ch_revocation h)), (''supersedes_handle_id'', json_opt (ch_supersedes h)),
     (''superseded_by_handle_id'', json_opt (ch_superseded_by h)), (''requested_by'', JStr (ch_requested_by h)),
     (''created_at'', JInt (ch_created_at h)), (''updated_at'', JInt (ch_updated_at h))]"

definition handle_fields :: "string list" where
  "handle_fields = [''handle_id'', ''tenant_id'', ''project_id'', ''mission_id'', ''task_id'', ''worker_run_id'', ''lease_id'',
     ''capability_id'', ''provider_id'', ''provider_ref'', ''resource_scope'', ''issued_by_policy_version'', ''secret_hash'', ''status'',
     ''issued_at'', ''expires_at'', ''revoked_at'', ''revocation_reason'', ''supersedes_handle_id'', ''superseded_by_handle_id'',
     ''requested_by'', ''created_at'', ''updated_at'']"

definition handle_validate :: "(string \<times> json) list \<Rightarrow> credential_handle option" where
  "handle_validate d =
    (if \<not> list_all (\<lambda>k. k \<in> set handle_fields) (dict_keys d) then None else do {
      i \<leftarrow> get_str d ''handle_id''; te \<leftarrow> get_str d ''tenant_id''; pr \<leftarrow> get_str d ''project_id'';
      mi \<leftarrow> get_str d ''mission_id''; ta \<leftarrow> get_str d ''task_id''; ru \<leftarrow> get_optional d ''worker_run_id'';
      le \<leftarrow> get_str d ''lease_id''; ca \<leftarrow> get_str d ''capability_id''; pv \<leftarrow> get_str d ''provider_id'';
      rf \<leftarrow> get_optional d ''provider_ref''; rs \<leftarrow> get_obj d ''resource_scope''; po \<leftarrow> get_str d ''issued_by_policy_version'';
      ha \<leftarrow> get_str d ''secret_hash''; st \<leftarrow> get_str d ''status''; ia \<leftarrow> get_int d ''issued_at''; ex \<leftarrow> get_int d ''expires_at'';
      ra \<leftarrow> get_when d ''revoked_at''; rr \<leftarrow> get_optional d ''revocation_reason''; su \<leftarrow> get_optional d ''supersedes_handle_id'';
      sb \<leftarrow> get_optional d ''superseded_by_handle_id''; rb \<leftarrow> get_str d ''requested_by''; cr \<leftarrow> get_int d ''created_at'';
      up \<leftarrow> get_int d ''updated_at'';
      if st \<notin> {''ISSUED'', ''EXPIRED'', ''REVOKED'', ''SUPERSEDED''} then None else
      Some \<lparr>ch_id = i, ch_tenant = te, ch_project = pr, ch_mission = mi, ch_task = ta, ch_run = ru, ch_lease = le, ch_capability = ca,
        ch_provider = pv, ch_provider_ref = rf, ch_resource = rs, ch_policy = po, ch_secret_hash = ha, ch_issued_at = ia,
        ch_expires_at = ex, ch_supersedes = su, ch_requested_by = rb, ch_created_at = cr, ch_status = st, ch_revoked_at = ra,
        ch_revocation = rr, ch_superseded_by = sb, ch_updated_at = up\<rparr> })"

section \<open>Repository and provider\<close>

record broker_db = lease_db +
  handles :: "(uuid, credential_handle) dict"
  secrets :: "nat \<Rightarrow> string"
  minted :: nat

definition insert_handle :: "credential_handle \<Rightarrow> 'x broker_db_scheme \<Rightarrow> unit result \<times> 'x broker_db_scheme" where
  "insert_handle h d =
    (case table_insert ''credential_handles'' (ch_id h) h (handles d) of
       Inl err \<Rightarrow> (Inl err, d)
     | Inr t \<Rightarrow> (Inr (), d\<lparr>handles := t\<rparr>))"

definition handles_for_lease :: "uuid \<Rightarrow> 'x broker_db_scheme \<Rightarrow> credential_handle list" where
  "handles_for_lease i d = sort_key ch_created_at (filter (\<lambda>h. ch_lease h = i) (dict_values (handles d)))"

definition in_revoke_scope :: "uuid \<Rightarrow> uuid \<Rightarrow> uuid option \<Rightarrow> uuid option \<Rightarrow> credential_handle \<Rightarrow> bool" where
  "in_revoke_scope tenant project mission run h \<longleftrightarrow> ch_tenant h = tenant \<and> ch_project h = project
    \<and> (mission = None \<or> mission = Some (ch_mission h)) \<and> (run = None \<or> run = ch_run h)"

definition live_in_scope :: "uuid \<Rightarrow> uuid \<Rightarrow> uuid option \<Rightarrow> uuid option \<Rightarrow> 'x broker_db_scheme \<Rightarrow> credential_handle list" where
  "live_in_scope tenant project mission run d =
    sort_key ch_created_at (filter (\<lambda>h. in_revoke_scope tenant project mission run h \<and> ch_status h = ''ISSUED'') (dict_values (handles d)))"

text \<open>\<open>LocalSecretProvider\<close>: a fresh secret, no reference, and nothing to do at a revocation.\<close>

definition provider_id :: string where "provider_id = ''local_secret''"

definition provider_issue :: "'x broker_db_scheme \<Rightarrow> (string \<times> string option) \<times> 'x broker_db_scheme" where
  "provider_issue d = ((secrets d (minted d), None), d\<lparr>minted := Suc (minted d)\<rparr>)"

definition issuance_request_hash :: "uuid \<Rightarrow> string \<Rightarrow> string" where
  "issuance_request_hash lease by_whom =
    sha256_hex (canonical_json (JObj [(''lease_id'', JStr lease), (''requested_by'', JStr by_whom)]))"

definition renewal_request_hash :: "uuid \<Rightarrow> string \<Rightarrow> string" where
  "renewal_request_hash handle by_whom =
    sha256_hex (canonical_json (JObj [(''handle_id'', JStr handle), (''requested_by'', JStr by_whom)]))"

section \<open>The service\<close>

text \<open>\<open>timedelta(minutes=15)\<close>.\<close>

definition DEFAULT_CREDENTIAL_TTL :: time where "DEFAULT_CREDENTIAL_TTL = 900000000"
definition ADMISSION_ENFORCEMENT_EVENT_TYPE :: string where "ADMISSION_ENFORCEMENT_EVENT_TYPE = ''CredentialKillFlagEnforced''"
definition LIVE_HANDLE_STATUSES :: "string list" where "LIVE_HANDLE_STATUSES = [''ISSUED'']"

text \<open>
  \<open>_run\<close>: an exception rolls the tables back, but for the refusal of a stopped run, which is raised after a
  commit. What was drawn stays drawn.
\<close>

definition after_commit :: "dde_error \<Rightarrow> bool" where
  "after_commit err = (case err of DdeError code _ _ _ \<Rightarrow> code = ''KILL_FLAG_ACTIVE'' | _ \<Rightarrow> False)"

definition unit_of_work :: "('x broker_db_scheme \<Rightarrow> 'r result \<times> 'x broker_db_scheme) \<Rightarrow> 'x broker_db_scheme \<Rightarrow> 'r result \<times> 'x broker_db_scheme" where
  "unit_of_work body d =
    (case body d of
       (Inl err, d') \<Rightarrow> (Inl err, if after_commit err then d' else d\<lparr>db_env := db_env d', minted := minted d'\<rparr>)
     | (Inr r, d') \<Rightarrow> (Inr r, d'))"

definition require_handle :: "uuid \<Rightarrow> 'x broker_db_scheme \<Rightarrow> credential_handle result" where
  "require_handle i d =
    (case dict_get (handles d) i of
       None \<Rightarrow> Inl (DdeError ''POLICY_DENIED'' ''Unknown credential handle'' False [(''handle_id'', JStr i)])
     | Some h \<Rightarrow> Inr h)"

text \<open>\<open>_require_active_lease\<close> of the broker, the admission.\<close>

definition admission_event :: "capability_lease \<Rightarrow> uuid \<Rightarrow> event_args" where
  "admission_event l run =
    \<lparr>ea_type = ADMISSION_ENFORCEMENT_EVENT_TYPE, ea_aggregate_type = ''capability_lease'', ea_aggregate_id = lz_id l,
     ea_tenant = lz_tenant l, ea_project = lz_project l,
     ea_payload = [(''surface'', JStr ''credential_admission''), (''worker_run_id'', JStr run),
       (''capability_id'', JStr (lz_capability l)), (''reason'', JStr KILL_FLAG_REASON)],
     ea_mission = Some (lz_mission l), ea_task = Some (lz_task l), ea_correlation = None, ea_causation = None\<rparr>"

definition admission_error :: "uuid \<Rightarrow> string \<Rightarrow> dde_error" where
  "admission_error run cap =
    DdeError ''KILL_FLAG_ACTIVE'' ''Kill flag is armed for this worker run -- credential admission refused'' False
      [(''worker_run_id'', JStr run), (''capability_id'', JStr cap), (''reason'', JStr KILL_FLAG_REASON)]"

definition admit_live :: "capability_lease \<Rightarrow> 'x broker_db_scheme \<Rightarrow> capability_lease result \<times> 'x broker_db_scheme" where
  "admit_live l d =
    (if lz_status l \<noteq> ''ACTIVE'' then
       (Inl (DdeError ''POLICY_DENIED'' (''Capability lease is '' @ lz_status l @ '', not ACTIVE -- credential issuance denied'') False
          [(''lease_id'', JStr (lz_id l)), (''status'', JStr (lz_status l))]), d)
     else let (now, d1) = read_clock d in
       if lz_expires_at l \<le> now then
         (Inl (DdeError ''POLICY_DENIED'' ''Capability lease has expired -- credential issuance denied'' False
            [(''lease_id'', JStr (lz_id l))]), d1)
       else (Inr l, d1))"

definition admit_lease :: "uuid \<Rightarrow> 'x broker_db_scheme \<Rightarrow> capability_lease result \<times> 'x broker_db_scheme" where
  "admit_lease i d =
    (case dict_get (leases d) i of
       None \<Rightarrow> (Inl (DdeError ''POLICY_DENIED'' ''Unknown capability lease -- fail closed'' False [(''lease_id'', JStr i)]), d)
     | Some l \<Rightarrow>
         (case lz_run l of
            Some run \<Rightarrow>
              if is_run_stopped (lz_tenant l) (lz_project l) run d then
                and_then (append_event (admission_event l run)) (\<lambda>_. Pair (Inl (admission_error run (lz_capability l)))) d
              else admit_live l d
          | None \<Rightarrow> admit_live l d))"

subsection \<open>Issue and renew\<close>

definition new_handle ::
  "uuid \<Rightarrow> uuid \<Rightarrow> capability_lease \<Rightarrow> string \<Rightarrow> time \<Rightarrow> uuid option \<Rightarrow> time \<Rightarrow> string \<times> string option \<Rightarrow> uuid \<Rightarrow> credential_handle"
where
  "new_handle tenant project l by_whom ttl supersedes now issued i =
    \<lparr>ch_id = i, ch_tenant = tenant, ch_project = project, ch_mission = lz_mission l, ch_task = lz_task l, ch_run = lz_run l,
     ch_lease = lz_id l, ch_capability = lz_capability l, ch_provider = provider_id, ch_provider_ref = snd issued,
     ch_resource = lz_resource l, ch_policy = lz_policy l, ch_secret_hash = sha256_hex (fst issued), ch_issued_at = now,
     ch_expires_at = min (now + ttl) (lz_expires_at l), ch_supersedes = supersedes, ch_requested_by = by_whom, ch_created_at = now,
     ch_status = ''ISSUED'', ch_revoked_at = None, ch_revocation = None, ch_superseded_by = None, ch_updated_at = now\<rparr>"

definition handle_event :: "string \<Rightarrow> uuid \<Rightarrow> uuid \<Rightarrow> credential_handle \<Rightarrow> (string \<times> json) list \<Rightarrow> event_args" where
  "handle_event ty tenant project h payload =
    \<lparr>ea_type = ty, ea_aggregate_type = ''credential_handle'', ea_aggregate_id = ch_id h, ea_tenant = tenant, ea_project = project,
     ea_payload = payload, ea_mission = Some (ch_mission h), ea_task = Some (ch_task h), ea_correlation = None, ea_causation = None\<rparr>"

definition replay_issued :: "command_idempotency \<Rightarrow> issued_credential result" where
  "replay_issued rec =
    (if ci_status rec = ''completed'' \<and> ci_result rec \<noteq> None then
       (case ci_result rec of
          Some (JObj payload) \<Rightarrow>
            (case handle_validate payload of
               None \<Rightarrow> Inl (ValueError ''CredentialHandle'')
             | Some h \<Rightarrow> Inr \<lparr>ic_handle = h, ic_secret = None\<rparr>)
        | _ \<Rightarrow> Inl (ValueError ''CredentialHandle''))
     else if ci_status rec = ''failed'' then
       Inl (DdeError ''VERSION_CONFLICT'' ''Command previously failed; refusing to re-execute'' False
         [(''idempotency_key'', JStr (ci_key rec))])
     else Inl (DdeError ''VERSION_CONFLICT'' ''Command is already in progress'' True [(''idempotency_key'', JStr (ci_key rec))]))"

text \<open>The event and the ledger row both calls end with.\<close>

definition finish_issue ::
  "event_args \<Rightarrow> uuid \<Rightarrow> credential_handle \<Rightarrow> string \<Rightarrow> 'x broker_db_scheme \<Rightarrow> issued_credential result \<times> 'x broker_db_scheme"
where
  "finish_issue ev cid h secret =
    and_then (append_event ev)
      (\<lambda>_. and_then (complete_command cid (JObj (handle_dump h)))
        (\<lambda>_. Pair (Inr \<lparr>ic_handle = h, ic_secret = Some secret\<rparr>)))"

definition write_issued ::
  "uuid \<Rightarrow> uuid \<Rightarrow> capability_lease \<Rightarrow> string \<Rightarrow> time \<Rightarrow> uuid \<Rightarrow> 'x broker_db_scheme \<Rightarrow> issued_credential result \<times> 'x broker_db_scheme"
where
  "write_issued tenant project l by_whom ttl cid d =
    (let (now, d1) = read_clock d;
         (issued, d2) = provider_issue d1;
         (i, d3) = draw_id d2;
         h = new_handle tenant project l by_whom ttl None now issued i
     in and_then (insert_handle h)
          (\<lambda>_. finish_issue (handle_event ''CredentialIssued'' tenant project h
             [(''lease_id'', JStr (lz_id l)), (''capability_id'', JStr (lz_capability l)), (''provider_id'', JStr (ch_provider h)),
              (''expires_at'', JInt (ch_expires_at h))]) cid h (fst issued)) d3)"

definition issue_credential ::
  "uuid \<Rightarrow> uuid \<Rightarrow> uuid \<Rightarrow> string \<Rightarrow> string \<Rightarrow> time \<Rightarrow> 'x broker_db_scheme \<Rightarrow> issued_credential result \<times> 'x broker_db_scheme"
where
  "issue_credential tenant project lease by_whom ikey ttl = unit_of_work
    (and_then (admit_lease lease)
      (\<lambda>l. and_then (begin_command tenant project ikey (issuance_request_hash lease by_whom))
        (\<lambda>(rec, is_new). if \<not> is_new then Pair (replay_issued rec)
           else write_issued tenant project l by_whom ttl (ci_command rec))))"

text \<open>The superseded row; \<open>provider.revoke\<close> does nothing.\<close>

definition supersede_handle :: "credential_handle \<Rightarrow> uuid \<Rightarrow> time \<Rightarrow> 'x broker_db_scheme \<Rightarrow> unit result \<times> 'x broker_db_scheme" where
  "supersede_handle current i now d =
    (case transition (ch_status current) ''SUPERSEDED'' CREDENTIAL_HANDLE_TRANSITIONS of
       Inl err \<Rightarrow> (Inl err, d)
     | Inr st \<Rightarrow>
         if ch_id current \<notin> set (dict_keys (handles d)) then
           (Inl (DdeError ''VERSION_CONFLICT'' ''Unknown credential handle'' False [(''handle_id'', JStr (ch_id current))]), d)
         else (Inr (), d\<lparr>handles := table_update (ch_id current)
           (\<lambda>h. h\<lparr>ch_status := st, ch_superseded_by := Some i, ch_updated_at := now\<rparr>) (handles d)\<rparr>))"

definition write_renewed ::
  "uuid \<Rightarrow> uuid \<Rightarrow> credential_handle \<Rightarrow> capability_lease \<Rightarrow> string \<Rightarrow> time \<Rightarrow> uuid \<Rightarrow> 'x broker_db_scheme
    \<Rightarrow> issued_credential result \<times> 'x broker_db_scheme"
where
  "write_renewed tenant project current l by_whom ttl cid d =
    (let (now, d1) = read_clock d;
         (issued, d2) = provider_issue d1;
         (i, d3) = draw_id d2;
         h = new_handle tenant project l by_whom ttl (Some (ch_id current)) now issued i
     in and_then (insert_handle h)
          (\<lambda>_. and_then (supersede_handle current i now)
            (\<lambda>_. finish_issue (handle_event ''CredentialRenewed'' tenant project h
               [(''lease_id'', JStr (lz_id l)), (''supersedes_handle_id'', JStr (ch_id current)),
                (''expires_at'', JInt (ch_expires_at h))]) cid h (fst issued))) d3)"

definition renew_credential ::
  "uuid \<Rightarrow> uuid \<Rightarrow> uuid \<Rightarrow> string \<Rightarrow> string \<Rightarrow> time \<Rightarrow> 'x broker_db_scheme \<Rightarrow> issued_credential result \<times> 'x broker_db_scheme"
where
  "renew_credential tenant project i by_whom ikey ttl = unit_of_work (\<lambda>d.
    case require_handle i d of
      Inl err \<Rightarrow> (Inl err, d)
    | Inr current \<Rightarrow>
        if ch_status current \<noteq> ''ISSUED'' then
          (Inl (DdeError ''POLICY_DENIED'' (''Credential handle is '' @ ch_status current @ '', not live -- fail closed'') False
             [(''handle_id'', JStr i), (''status'', JStr (ch_status current))]), d)
        else and_then (admit_lease (ch_lease current))
          (\<lambda>l. and_then (begin_command tenant project ikey (renewal_request_hash i by_whom))
            (\<lambda>(rec, is_new). if \<not> is_new then Pair (replay_issued rec)
               else write_renewed tenant project current l by_whom ttl (ci_command rec))) d)"

subsection \<open>Revoking\<close>

text \<open>\<open>_revoke_handle\<close>, which \<open>revoke\<close> repeats.\<close>

definition revoke_one ::
  "uuid \<Rightarrow> uuid \<Rightarrow> string \<Rightarrow> credential_handle \<Rightarrow> 'x broker_db_scheme \<Rightarrow> credential_handle result \<times> 'x broker_db_scheme"
where
  "revoke_one tenant project reason h d =
    (case transition (ch_status h) ''REVOKED'' CREDENTIAL_HANDLE_TRANSITIONS of
       Inl err \<Rightarrow> (Inl err, d)
     | Inr st \<Rightarrow>
         let (now, d1) = read_clock d;
             d2 = d1\<lparr>handles := table_update (ch_id h)
               (\<lambda>x. x\<lparr>ch_status := st, ch_revoked_at := Some now, ch_revocation := Some reason, ch_updated_at := now\<rparr>) (handles d1)\<rparr>
         in if ch_id h \<notin> set (dict_keys (handles d1)) then
              (Inl (DdeError ''VERSION_CONFLICT'' ''Unknown credential handle'' False [(''handle_id'', JStr (ch_id h))]), d1)
            else (case require_handle (ch_id h) d2 of
                Inl err \<Rightarrow> (Inl err, d2)
              | Inr updated \<Rightarrow>
                  and_then (append_event (handle_event ''CredentialRevoked'' tenant project updated [(''reason'', JStr reason)]))
                    (\<lambda>_. Pair (Inr updated)) d2))"

definition revoke_credential ::
  "uuid \<Rightarrow> uuid \<Rightarrow> uuid \<Rightarrow> string \<Rightarrow> 'x broker_db_scheme \<Rightarrow> credential_handle result \<times> 'x broker_db_scheme"
where
  "revoke_credential tenant project i reason = unit_of_work (\<lambda>d.
    case require_handle i d of Inl err \<Rightarrow> (Inl err, d) | Inr current \<Rightarrow> revoke_one tenant project reason current d)"

fun revoke_each ::
  "uuid \<Rightarrow> uuid \<Rightarrow> string \<Rightarrow> credential_handle list \<Rightarrow> 'x broker_db_scheme \<Rightarrow> credential_handle list result \<times> 'x broker_db_scheme"
where
  "revoke_each tenant project reason [] d = (Inr [], d)"
| "revoke_each tenant project reason (h # hs) d =
    and_then (revoke_one tenant project reason h) (\<lambda>r. and_then (revoke_each tenant project reason hs) (\<lambda>rs. Pair (Inr (r # rs)))) d"

fun revoke_for_each_lease ::
  "uuid \<Rightarrow> uuid \<Rightarrow> string \<Rightarrow> uuid list \<Rightarrow> 'x broker_db_scheme \<Rightarrow> credential_handle list result \<times> 'x broker_db_scheme"
where
  "revoke_for_each_lease tenant project reason [] d = (Inr [], d)"
| "revoke_for_each_lease tenant project reason (i # is) d =
    and_then (revoke_each tenant project reason (filter (\<lambda>h. ch_status h \<in> set LIVE_HANDLE_STATUSES) (handles_for_lease i d)))
      (\<lambda>rs. and_then (revoke_for_each_lease tenant project reason is) (\<lambda>rss. Pair (Inr (rs @ rss)))) d"

definition revoke_handles_for_leases ::
  "uuid \<Rightarrow> uuid \<Rightarrow> uuid list \<Rightarrow> string \<Rightarrow> 'x broker_db_scheme \<Rightarrow> credential_handle list result \<times> 'x broker_db_scheme"
where
  "revoke_handles_for_leases tenant project lease_ids reason = unit_of_work (revoke_for_each_lease tenant project reason lease_ids)"

definition emergency_revoke ::
  "uuid \<Rightarrow> uuid \<Rightarrow> string \<Rightarrow> uuid option \<Rightarrow> uuid option \<Rightarrow> 'x broker_db_scheme \<Rightarrow> credential_handle list result \<times> 'x broker_db_scheme"
where
  "emergency_revoke tenant project reason mission run = unit_of_work (\<lambda>d.
    revoke_each tenant project reason (live_in_scope tenant project mission run d) d)"

subsection \<open>Verifying\<close>

text \<open>\<open>hmac.compare_digest\<close> is equality, in constant time.\<close>

definition verify_credential :: "uuid \<Rightarrow> string \<Rightarrow> 'x broker_db_scheme \<Rightarrow> bool \<times> 'x broker_db_scheme" where
  "verify_credential i secret d =
    (case dict_get (handles d) i of
       None \<Rightarrow> (False, d)
     | Some h \<Rightarrow>
         if ch_status h \<notin> set LIVE_HANDLE_STATUSES then (False, d)
         else let (now, d1) = read_clock d in
           if ch_expires_at h \<le> now then (False, d1) else (ch_secret_hash h = sha256_hex secret, d1))"

section \<open>Calls\<close>

datatype broker_op =
    LeaseCall lease_op
  | IssueCredential uuid uuid uuid string string time
  | RenewCredential uuid uuid uuid string string time
  | RevokeCredential uuid uuid uuid string
  | RevokeForLeases uuid uuid "uuid list" string
  | EmergencyRevoke uuid uuid string "uuid option" "uuid option"
  | VerifyCredential uuid string

fun broker_step :: "broker_op \<Rightarrow> 'x broker_db_scheme \<Rightarrow> 'x broker_db_scheme" where
  "broker_step (LeaseCall op) d = lease_step op d"
| "broker_step (IssueCredential t p i w k ttl) d = snd (issue_credential t p i w k ttl d)"
| "broker_step (RenewCredential t p i w k ttl) d = snd (renew_credential t p i w k ttl d)"
| "broker_step (RevokeCredential t p i w) d = snd (revoke_credential t p i w d)"
| "broker_step (RevokeForLeases t p is w) d = snd (revoke_handles_for_leases t p is w d)"
| "broker_step (EmergencyRevoke t p w m r) d = snd (emergency_revoke t p w m r d)"
| "broker_step (VerifyCredential i s) d = snd (verify_credential i s d)"

definition broker_run :: "broker_op list \<Rightarrow> 'x broker_db_scheme \<Rightarrow> 'x broker_db_scheme" where
  "broker_run = service_run broker_step"

section \<open>Invariant\<close>

interpretation handle_rows: row_table handles "\<lambda>t d. d\<lparr>handles := t\<rparr>" ch_id
  by unfold_locales simp_all

text \<open>A handle carries the scope of its lease and ends with it at the latest.\<close>

definition lent :: "capability_lease \<Rightarrow> credential_handle \<Rightarrow> bool" where
  "lent l h \<longleftrightarrow> ch_mission h = lz_mission l \<and> ch_task h = lz_task l \<and> ch_run h = lz_run l \<and> ch_capability h = lz_capability l
    \<and> ch_resource h = lz_resource l \<and> ch_policy h = lz_policy l \<and> ch_expires_at h \<le> lz_expires_at l"

definition all_lent :: "'x broker_db_scheme \<Rightarrow> bool" where
  "all_lent d \<longleftrightarrow> (\<forall>i h. dict_get (handles d) i = Some h \<longrightarrow> (\<exists>l. dict_get (leases d) (ch_lease h) = Some l \<and> lent l h))"

definition broker_ok :: "'x broker_db_scheme \<Rightarrow> bool" where
  "broker_ok d \<longleftrightarrow> lease_ok d \<and> table_ok handles ch_id d \<and> all_lent d"

lemma broker_okD:
  assumes "broker_ok d"
  shows "lease_ok d" "table_ok handles ch_id d" "all_lent d" "log_ok d" "keyed ch_id (handles d)"
  using assms by (simp_all add: broker_ok_def table_ok_def)

definition handle_moves :: "string \<Rightarrow> string \<Rightarrow> bool" where
  "handle_moves s t \<longleftrightarrow> t \<in> set (succs CREDENTIAL_HANDLE_TRANSITIONS s)"

definition handle_le :: "credential_handle \<Rightarrow> credential_handle \<Rightarrow> bool" where
  "handle_le h h' \<longleftrightarrow> binding_part h' = binding_part h \<and> handle_moves\<^sup>*\<^sup>* (ch_status h) (ch_status h')"

definition handles_le :: "(uuid, credential_handle) dict \<Rightarrow> (uuid, credential_handle) dict \<Rightarrow> bool" where
  "handles_le t t' \<longleftrightarrow> (\<forall>i h. dict_get t i = Some h \<longrightarrow> (\<exists>h'. dict_get t' i = Some h' \<and> handle_le h h'))"

lemma handle_le_refl [simp]: "handle_le h h"
  by (simp add: handle_le_def)

lemma handle_le_trans: "handle_le a b \<Longrightarrow> handle_le b c \<Longrightarrow> handle_le a c"
  by (auto simp: handle_le_def)

lemma handles_le_refl [simp]: "handles_le t t"
  unfolding handles_le_def by (blast intro: handle_le_refl)

lemma handles_le_trans: "handles_le a b \<Longrightarrow> handles_le b c \<Longrightarrow> handles_le a c"
  unfolding handles_le_def by (meson handle_le_trans)

lemma handles_le_set: "(\<And>h. dict_get t i = Some h \<Longrightarrow> handle_le h h') \<Longrightarrow> handles_le t (dict_set i h' t)"
  unfolding handles_le_def by (auto simp: dict_get_set)

lemma binding_fields:
  assumes "binding_part h' = binding_part h"
  shows "ch_id h' = ch_id h" "ch_lease h' = ch_lease h" "ch_tenant h' = ch_tenant h" "ch_project h' = ch_project h"
    "ch_mission h' = ch_mission h" "ch_task h' = ch_task h" "ch_run h' = ch_run h" "ch_expires_at h' = ch_expires_at h"
    "ch_secret_hash h' = ch_secret_hash h"
  using assms by (simp_all add: credential_binding.truncate_def)

lemma lent_binding: "lent l h \<Longrightarrow> binding_part h' = binding_part h \<Longrightarrow> lent l h'"
  by (simp add: lent_def credential_binding.truncate_def)

lemma handle_final: "handle_le h h' \<Longrightarrow> ch_status h \<noteq> ''ISSUED'' \<Longrightarrow> ch_status h' = ch_status h"
  unfolding handle_le_def
  by (erule conjE, erule converse_rtranclpE) (simp_all add: handle_moves_def CREDENTIAL_HANDLE_TRANSITIONS_def succs_def split: if_splits)

text \<open>What one part of a call may do: the leases and the catalogue stay, the handles move on.\<close>

definition desk :: "'x broker_db_scheme \<Rightarrow> 'x broker_db_scheme \<Rightarrow> bool" where
  "desk d d' \<longleftrightarrow> broker_ok d' \<and> grows d d' \<and> leases d' = leases d \<and> handles_le (handles d) (handles d')"

lemma desk_trans: "desk a b \<Longrightarrow> desk b c \<Longrightarrow> desk a c"
  by (auto simp: desk_def intro: grows_trans handles_le_trans)

lemma desk_ok: "desk d d' \<Longrightarrow> broker_ok d'"
  by (simp add: desk_def)

definition desks :: "('x broker_db_scheme \<Rightarrow> 'r result \<times> 'x broker_db_scheme) \<Rightarrow> 'x broker_db_scheme \<Rightarrow> bool" where
  "desks m d \<longleftrightarrow> desk d (snd (m d))"

lemma desks_and_then:
  assumes "desks m d" and "\<And>r d'. m d = (Inr r, d') \<Longrightarrow> desk d d' \<Longrightarrow> desks (f r) d'"
  shows "desks (and_then m f) d"
proof (cases "m d")
  case (Pair x d')
  then show ?thesis using assms desk_trans [of d d'] by (cases x) (simp_all add: desks_def and_then_def)
qed

text \<open>The tables of the broker beside those of the lease service.\<close>

lemma more_broker:
  assumes "lease_db.more d' = lease_db.more d"
  shows "handles d' = handles d" and "secrets d' = secrets d" and "minted d' = minted d"
  using assms by (cases d, cases d', simp)+

lemma desk_calm:
  assumes ok: "broker_ok d" and c: "calm d d'"
  shows "desk d d'"
proof -
  have h: "handles d' = handles d" and l: "leases d' = leases d" and g: "grows d d'"
    using c more_broker(1) [of d' d] by (simp_all add: calm_def)
  have "broker_ok d'"
    using calm_ok [OF c broker_okD(1) [OF ok]] table_ok_grows [OF broker_okD(2) [OF ok] g h] broker_okD(3) [OF ok]
    by (simp add: broker_ok_def all_lent_def h l)
  then show ?thesis by (simp add: desk_def g h l)
qed

lemma desks_calms: "broker_ok d \<Longrightarrow> calms m d \<Longrightarrow> desks m d"
  by (simp add: desks_def calms_def desk_calm)

text \<open>A handle written, new or moved on.\<close>

lemma desk_handle:
  assumes ok: "broker_ok d" and i: "ch_id h \<in> drawn_ids (db_env d)"
    and le: "\<And>old. dict_get (handles d) (ch_id h) = Some old \<Longrightarrow> handle_le old h"
    and l: "dict_get (leases d) (ch_lease h) = Some l" "lent l h"
  shows "desk d (d\<lparr>handles := dict_set (ch_id h) h (handles d)\<rparr>)"
proof -
  let ?d' = "d\<lparr>handles := dict_set (ch_id h) h (handles d)\<rparr>"
  have g: "grows d ?d'" by (simp add: grows_same broker_okD(4) [OF ok])
  have "registry_ok ?d'" by (rule registry_ok_grows [OF lease_okD(1) [OF broker_okD(1) [OF ok]] g]) simp
  moreover have "table_ok leases lz_id ?d'" by (rule table_ok_grows [OF lease_okD(2) [OF broker_okD(1) [OF ok]] g]) simp
  moreover have "table_ok handles ch_id ?d'" by (rule handle_rows.ok_put [OF broker_okD(2) [OF ok] i refl])
  moreover have "all_lent ?d'"
    using broker_okD(3) [OF ok] l by (auto simp: all_lent_def dict_get_set)
  ultimately have "broker_ok ?d'" by (simp add: broker_ok_def lease_ok_def)
  then show ?thesis using g handles_le_set [OF le] by (simp add: desk_def)
qed

lemma stored_handle:
  assumes "broker_ok d" and "dict_get (handles d) i = Some h"
  shows "ch_id h = i" "i \<in> drawn_ids (db_env d)"
  using handle_rows.stored_drawn [OF broker_okD(2) [OF assms(1)] assms(2)] by simp_all

text \<open>A draw of a secret, of a time, of an identifier.\<close>

lemma desk_draws:
  assumes ok: "broker_ok d" and e: "env_le (db_env d) e"
  shows "desk d (d\<lparr>db_env := e, minted := n\<rparr>)"
proof -
  have g: "grows d (d\<lparr>db_env := e, minted := n\<rparr>)" using e by (simp add: grows_same broker_okD(4) [OF ok])
  have "broker_ok (d\<lparr>db_env := e, minted := n\<rparr>)"
    using registry_ok_grows [OF lease_okD(1) [OF broker_okD(1) [OF ok]] g] table_ok_grows [OF lease_okD(2) [OF broker_okD(1) [OF ok]] g]
      table_ok_grows [OF broker_okD(2) [OF ok] g] broker_okD(3) [OF ok]
    by (simp add: broker_ok_def lease_ok_def all_lent_def)
  then show ?thesis using g by (simp add: desk_def)
qed

lemma desk_env: "broker_ok d \<Longrightarrow> env_le (db_env d) e \<Longrightarrow> desk d (d\<lparr>db_env := e\<rparr>)"
  using desk_draws [of d e "minted d"] by simp

lemma desk_same: "broker_ok d \<Longrightarrow> desk d d"
  using desk_env [of d "db_env d"] by simp

lemma desks_Pair: "broker_ok d \<Longrightarrow> desks (Pair r) d"
  by (simp add: desks_def desk_same)

lemma unit_of_work_desk:
  assumes ok: "broker_ok d" and m: "desks m d"
  shows "desk d (snd (unit_of_work m d))"
proof -
  have "env_le (db_env d) (db_env (snd (m d)))" using m by (simp add: desks_def desk_def grows_def)
  then show ?thesis
    using m desk_draws [OF ok] by (cases "m d", cases "fst (m d)") (simp_all add: unit_of_work_def desks_def)
qed

section \<open>Admission\<close>

lemma admit_live_desk:
  assumes ok: "broker_ok d"
  shows "desk d (snd (admit_live l d))"
    and "admit_live l d = (Inr l', d') \<Longrightarrow> l' = l \<and> lz_status l = ''ACTIVE'' \<and> d' = d\<lparr>db_env := snd (clock_now (db_env d))\<rparr>"
  using desk_same [OF ok] desk_env [OF ok] by (auto simp: admit_live_def read_clock_eq split: if_splits)

lemma admit_desk:
  assumes ok: "broker_ok d"
  shows "desks (admit_lease i) d"
    and "admit_lease i d = (Inr l, d') \<Longrightarrow> dict_get (leases d) i = Some l \<and> lz_id l = i \<and> lz_status l = ''ACTIVE''
      \<and> d' = d\<lparr>db_env := snd (clock_now (db_env d))\<rparr>"
proof -
  have c: "calms (and_then (append_event a) (\<lambda>_. Pair (Inl err :: capability_lease result))) d" for a err
    by (rule calms_and_then [OF event_calms [OF broker_okD(4) [OF ok]]]) (rule calms_Pair, erule calm_log)
  then have "desk d (snd (and_then (append_event a) (\<lambda>_. Pair (Inl err :: capability_lease result)) d))" for a err
    using desks_calms [OF ok c [of a err]] by (simp add: desks_def)
  then show "desks (admit_lease i) d"
    using desk_same [OF ok] admit_live_desk(1) [OF ok] by (auto simp: desks_def admit_lease_def split: option.split)
  assume r: "admit_lease i d = (Inr l, d')"
  then obtain l0 where l0: "dict_get (leases d) i = Some l0" "admit_live l0 d = (Inr l, d')"
    by (auto simp: admit_lease_def and_then_return split: option.splits if_splits sum.splits)
  then show "dict_get (leases d) i = Some l \<and> lz_id l = i \<and> lz_status l = ''ACTIVE'' \<and> d' = d\<lparr>db_env := snd (clock_now (db_env d))\<rparr>"
    using admit_live_desk(2) [OF ok l0(2)] keyed_get [OF lease_okD(4) [OF broker_okD(1) [OF ok]] l0(1)] by simp
qed

lemma admit_stopped:
  assumes ok: "broker_ok d" and l: "dict_get (leases d) i = Some l" "lz_run l = Some run"
    and stop: "is_run_stopped (lz_tenant l) (lz_project l) run d"
  obtains d' where "admit_lease i d = (Inl (admission_error run (lz_capability l)), d')" "calm d d'"
proof -
  obtain ev d' where "append_event (admission_event l run) d = (Inr ev, d')" "calm d d'"
    by (rule event_calm [OF broker_okD(4) [OF ok]])
  then show thesis using l stop by (intro that) (simp_all add: admit_lease_def and_then_def)
qed

section \<open>Issue and renew\<close>

lemma new_handle_lent: "lent l (new_handle t p l w ttl su now issued i)"
  by (simp add: lent_def new_handle_def)

lemma new_handle_simps [simp]:
  "ch_id (new_handle t p l w ttl su now issued i) = i" "ch_lease (new_handle t p l w ttl su now issued i) = lz_id l"
  "ch_status (new_handle t p l w ttl su now issued i) = ''ISSUED''"
  "ch_secret_hash (new_handle t p l w ttl su now issued i) = sha256_hex (fst issued)"
  "ch_expires_at (new_handle t p l w ttl su now issued i) = min (now + ttl) (lz_expires_at l)"
  "ch_tenant (new_handle t p l w ttl su now issued i) = t" "ch_project (new_handle t p l w ttl su now issued i) = p"
  by (simp_all add: new_handle_def)

text \<open>The end of both calls: the event and the ledger row, which holds the handle and not the secret.\<close>

lemma finish_issue_ok:
  assumes ok: "broker_ok d" and p: "in_progress cid d"
  obtains d' where "finish_issue ev cid h s d = (Inr \<lparr>ic_handle = h, ic_secret = Some s\<rparr>, d')" "calm d d'"
    "filed_as cid (JObj (handle_dump h)) d d'"
proof -
  obtain e d1 where ev: "append_event ev d = (Inr e, d1)" "calm d d1" "es_commands (db_log d1) = es_commands (db_log d)"
    by (rule event_calm [OF broker_okD(4) [OF ok]])
  have "in_progress cid d1" using p by (simp add: in_progress_def ev(3))
  then obtain c d' now where co: "complete_command cid (JObj (handle_dump h)) d1 = (Inr c, d')" "calm d1 d'"
    "\<forall>k. dict_get (es_commands (db_log d')) k = map_option (\<lambda>x. if ci_command x = cid
        then x\<lparr>ci_status := ''completed'', ci_result := Some (JObj (handle_dump h)), ci_updated_at := now\<rparr> else x)
        (dict_get (es_commands (db_log d1)) k)"
    by (rule complete_calm [OF calm_log [OF ev(2)]])
  show thesis
  proof (rule that)
    show "finish_issue ev cid h s d = (Inr \<lparr>ic_handle = h, ic_secret = Some s\<rparr>, d')"
      using ev(1) co(1) by (simp add: finish_issue_def and_then_def)
    show "calm d d'" by (rule calm_trans [OF ev(2) co(2)])
    show "filed_as cid (JObj (handle_dump h)) d d'" unfolding filed_as_def using co(3) ev(3) by (intro exI [of _ now]) simp
  qed
qed

text \<open>The draws of a new handle, and its row.\<close>

lemma handle_inserted:
  assumes ok: "broker_ok d" and l: "dict_get (leases d) (lz_id l) = Some l"
  obtains now secret i da db d0 d1 where
    "read_clock d = (now, da)" "provider_issue da = ((secret, None), db)" "draw_id db = (i, d0)" "i \<notin> set (dict_keys (handles d))"
    "\<And>t p w ttl su. insert_handle (new_handle t p l w ttl su now (secret, None) i) d0
      = (Inr (), d1 (new_handle t p l w ttl su now (secret, None) i))"
    "\<And>h. d1 h = d0\<lparr>handles := dict_set i h (handles d)\<rparr>"
    "\<And>t p w ttl su. desk d (d1 (new_handle t p l w ttl su now (secret, None) i))"
    "db_log d0 = db_log d"
proof -
  let ?now = "fst (clock_now (db_env d))" and ?e1 = "snd (clock_now (db_env d))" and ?s = "secrets d (minted d)"
  let ?i = "fst (uuid7 ?e1)" and ?d0 = "d\<lparr>db_env := snd (uuid7 ?e1), minted := Suc (minted d)\<rparr>"
  have ok1: "broker_ok (d\<lparr>db_env := ?e1\<rparr>)" by (rule desk_ok [OF desk_env [OF ok]]) simp
  have i: "?i \<notin> set (dict_keys (handles d))" "?i \<in> drawn_ids (snd (uuid7 ?e1))"
    using handle_rows.new_row [OF broker_okD(2) [OF ok1]] by simp_all
  have w0: "desk d ?d0" by (rule desk_draws [OF ok]) simp
  have none: "dict_get (handles d) ?i = None" using i(1) by (simp add: dict_get_None del: set_map)
  have ins: "desk d (?d0\<lparr>handles := dict_set ?i (new_handle t p l w ttl su ?now (?s, None) ?i) (handles d)\<rparr>)" for t p w ttl su
  proof -
    let ?h = "new_handle t p l w ttl su ?now (?s, None) ?i"
    have "desk ?d0 (?d0\<lparr>handles := dict_set (ch_id ?h) ?h (handles ?d0)\<rparr>)"
      by (rule desk_handle [OF desk_ok [OF w0], where l = l]) (use i none l new_handle_lent in simp_all)
    then show ?thesis using desk_trans [OF w0] by simp
  qed
  show thesis
    by (rule that [of ?now "d\<lparr>db_env := ?e1\<rparr>" ?s "d\<lparr>db_env := ?e1, minted := Suc (minted d)\<rparr>" ?i ?d0 "\<lambda>h. ?d0\<lparr>handles := dict_set ?i h (handles d)\<rparr>"])
      (use i(1) ins in \<open>simp_all add: read_clock_eq draw_id_eq provider_issue_def insert_handle_def table_insert_new\<close>)
qed

lemma write_issued_ok:
  assumes ok: "broker_ok d" and l: "dict_get (leases d) (lz_id l) = Some l" and p: "in_progress cid d"
  obtains h s d' where "write_issued t pr l w ttl cid d = (Inr \<lparr>ic_handle = h, ic_secret = Some s\<rparr>, d')" "desk d d'"
    "dict_get (handles d) (ch_id h) = None" "dict_get (handles d') (ch_id h) = Some h" "ch_lease h = lz_id l" "ch_status h = ''ISSUED''"
    "ch_secret_hash h = sha256_hex s" "filed_as cid (JObj (handle_dump h)) d d'" "ch_tenant h = t" "ch_project h = pr"
proof -
  obtain now s i da db d0 d1 where new: "read_clock d = (now, da)" "provider_issue da = ((s, None), db)" "draw_id db = (i, d0)" "i \<notin> set (dict_keys (handles d))"
      and ins: "\<And>t p w ttl su. insert_handle (new_handle t p l w ttl su now (s, None) i) d0 = (Inr (), d1 (new_handle t p l w ttl su now (s, None) i))"
      and d1: "\<And>h. d1 h = d0\<lparr>handles := dict_set i h (handles d)\<rparr>"
      and w1: "\<And>t p w ttl su. desk d (d1 (new_handle t p l w ttl su now (s, None) i))" and log: "db_log d0 = db_log d"
    by (rule handle_inserted [OF ok l]) blast
  let ?h = "new_handle t pr l w ttl None now (s, None) i"
  let ?ev = "handle_event ''CredentialIssued'' t pr ?h
      [(''lease_id'', JStr (lz_id l)), (''capability_id'', JStr (lz_capability l)), (''provider_id'', JStr (ch_provider ?h)),
       (''expires_at'', JInt (ch_expires_at ?h))]"
  have "in_progress cid (d1 ?h)" using p by (simp add: in_progress_def d1 log)
  then obtain d' where f: "finish_issue ?ev cid ?h s (d1 ?h) = (Inr \<lparr>ic_handle = ?h, ic_secret = Some s\<rparr>, d')" "calm (d1 ?h) d'"
      "filed_as cid (JObj (handle_dump ?h)) (d1 ?h) d'"
    by (rule finish_issue_ok [OF desk_ok [OF w1]])
  have "handles d' = handles (d1 ?h)" using f(2) more_broker(1) [of d' "d1 ?h"] by (simp add: calm_def)
  then have hs: "handles d' = dict_set i ?h (handles d)" by (simp add: d1)
  show thesis
  proof (rule that)
    show "write_issued t pr l w ttl cid d = (Inr \<lparr>ic_handle = ?h, ic_secret = Some s\<rparr>, d')"
      using new(1-3) ins [of t pr w ttl None] f(1)
      by (simp add: write_issued_def and_then_def [of "insert_handle _"])
    show "desk d d'" by (rule desk_trans [OF w1 desk_calm [OF desk_ok [OF w1] f(2)]])
    show "dict_get (handles d) (ch_id ?h) = None" using new(4) by (simp add: dict_get_None del: set_map)
    show "dict_get (handles d') (ch_id ?h) = Some ?h" by (simp add: hs dict_get_set)
    show "filed_as cid (JObj (handle_dump ?h)) d d'" using f(3) by (simp add: filed_as_def d1 log)
  qed simp_all
qed

lemma supersede_moves:
  assumes ok: "broker_ok d" and h: "dict_get (handles d) (ch_id h) = Some h" and live: "ch_status h = ''ISSUED''"
  obtains h' d' where "supersede_handle h i now d = (Inr (), d')" "desk d d'" "d' = d\<lparr>handles := dict_set (ch_id h) h' (handles d)\<rparr>"
    "handle_le h h'" "ch_status h' = ''SUPERSEDED''"
proof -
  let ?h = "h\<lparr>ch_status := ''SUPERSEDED'', ch_superseded_by := Some i, ch_updated_at := now\<rparr>"
  have same: "binding_part ?h = binding_part h" by (simp add: credential_binding.truncate_def)
  have st: "''SUPERSEDED'' \<in> set (succs CREDENTIAL_HANDLE_TRANSITIONS (ch_status h))"
    by (simp add: live CREDENTIAL_HANDLE_TRANSITIONS_def succs_def)
  have le: "handle_le h ?h" using same st by (auto simp: handle_le_def handle_moves_def)
  obtain l where l: "dict_get (leases d) (ch_lease h) = Some l" "lent l h"
    using broker_okD(3) [OF ok] h unfolding all_lent_def by blast
  have "desk d (d\<lparr>handles := dict_set (ch_id ?h) ?h (handles d)\<rparr>)"
    by (rule desk_handle [OF ok, where l = l])
      (use h le l lent_binding [OF l(2) same] stored_handle(2) [OF ok h] in simp_all)
  then show thesis
    using st table_update_eq [OF keyed_ok [OF broker_okD(5) [OF ok]] h] dict_get_key [OF h] le
    by (intro that [of "d\<lparr>handles := dict_set (ch_id h) ?h (handles d)\<rparr>" ?h]) (simp_all add: supersede_handle_def transition_def del: set_map)
qed

lemma write_renewed_ok:
  assumes ok: "broker_ok d" and l: "dict_get (leases d) (lz_id l) = Some l" and p: "in_progress cid d"
    and c: "dict_get (handles d) (ch_id c) = Some c" "ch_status c = ''ISSUED''"
  obtains h s d' where "write_renewed t pr c l w ttl cid d = (Inr \<lparr>ic_handle = h, ic_secret = Some s\<rparr>, d')" "desk d d'"
proof -
  obtain now s i da db d0 d1 where new: "read_clock d = (now, da)" "provider_issue da = ((s, None), db)" "draw_id db = (i, d0)" "i \<notin> set (dict_keys (handles d))"
      and ins: "\<And>t p w ttl su. insert_handle (new_handle t p l w ttl su now (s, None) i) d0 = (Inr (), d1 (new_handle t p l w ttl su now (s, None) i))"
      and d1: "\<And>h. d1 h = d0\<lparr>handles := dict_set i h (handles d)\<rparr>"
      and w1: "\<And>t p w ttl su. desk d (d1 (new_handle t p l w ttl su now (s, None) i))" and log: "db_log d0 = db_log d"
    by (rule handle_inserted [OF ok l]) blast
  let ?h = "new_handle t pr l w ttl (Some (ch_id c)) now (s, None) i"
  have "ch_id c \<noteq> i" using new(4) dict_get_key [OF c(1)] by metis
  then have c1: "dict_get (handles (d1 ?h)) (ch_id c) = Some c" using c(1) by (simp add: d1 dict_get_set)
  obtain c' d2 where su: "supersede_handle c i now (d1 ?h) = (Inr (), d2)" "desk (d1 ?h) d2"
      "d2 = d1 ?h\<lparr>handles := dict_set (ch_id c) c' (handles (d1 ?h))\<rparr>"
    by (rule supersede_moves [OF desk_ok [OF w1] c1 c(2)])
  have w2: "desk d d2" by (rule desk_trans [OF w1 su(2)])
  let ?ev = "handle_event ''CredentialRenewed'' t pr ?h
      [(''lease_id'', JStr (lz_id l)), (''supersedes_handle_id'', JStr (ch_id c)), (''expires_at'', JInt (ch_expires_at ?h))]"
  have "in_progress cid d2" using p by (simp add: in_progress_def su(3) d1 log)
  then obtain d' where f: "finish_issue ?ev cid ?h s d2 = (Inr \<lparr>ic_handle = ?h, ic_secret = Some s\<rparr>, d')" "calm d2 d'"
    by (rule finish_issue_ok [OF desk_ok [OF w2]])
  show thesis
  proof (rule that)
    show "write_renewed t pr c l w ttl cid d = (Inr \<lparr>ic_handle = ?h, ic_secret = Some s\<rparr>, d')"
      using new(1-3) ins [of t pr w ttl "Some (ch_id c)"] su(1) f(1)
      by (simp add: write_renewed_def and_then_def [of "insert_handle _"] and_then_def [of "supersede_handle _ _ _"])
    show "desk d d'" by (rule desk_trans [OF w2 desk_calm [OF desk_ok [OF w2] f(2)]])
  qed
qed

text \<open>Under a key of the command ledger, a new request goes on with its row in progress; an old one is answered.\<close>

lemma begin_desk:
  assumes ok: "broker_ok d"
  shows "desks (begin_command t p k h) d"
    and "begin_command t p k h d = (Inr (rec, True), d') \<Longrightarrow> in_progress (ci_command rec) d'"
  using desks_calms [OF ok begin_calms(1) [OF broker_okD(4) [OF ok]]] begin_calms(2) [OF broker_okD(4) [OF ok]] by blast+

lemma desks_guarded:
  assumes ok: "broker_ok d" and go: "\<And>rec d'. begin_command t p k h d = (Inr (rec, True), d') \<Longrightarrow> desk d d' \<Longrightarrow> desks (go rec) d'"
  shows "desks (and_then (begin_command t p k h) (\<lambda>(rec, is_new). if \<not> is_new then Pair (answer rec) else go rec)) d"
proof (rule desks_and_then [OF begin_desk(1) [OF ok]])
  fix r d' assume b: "begin_command t p k h d = (Inr r, d')" "desk d d'"
  obtain rec is_new where r: "r = (rec, is_new)" by force
  show "desks (case r of (rec, is_new) \<Rightarrow> if \<not> is_new then Pair (answer rec) else go rec) d'"
    using go [of rec d'] b desks_Pair [OF desk_ok [OF b(2)], of "answer rec"] r by (cases is_new) simp_all
qed

lemma issue_desk:
  assumes ok: "broker_ok d"
  shows "desk d (snd (issue_credential t p i w k ttl d))"
  unfolding issue_credential_def
proof (rule unit_of_work_desk [OF ok], rule desks_and_then [OF admit_desk(1) [OF ok]])
  fix l d1 assume a: "admit_lease i d = (Inr l, d1)" "desk d d1"
  note ad = admit_desk(2) [OF ok a(1)]
  show "desks (and_then (begin_command t p k (issuance_request_hash i w))
      (\<lambda>(rec, is_new). if \<not> is_new then Pair (replay_issued rec) else write_issued t p l w ttl (ci_command rec))) d1"
  proof (rule desks_guarded [OF desk_ok [OF a(2)]])
    fix rec d2 assume b: "begin_command t p k (issuance_request_hash i w) d1 = (Inr (rec, True), d2)" "desk d1 d2"
    have l: "dict_get (leases d2) (lz_id l) = Some l" using ad b(2) by (simp add: desk_def)
    obtain h s d' where "write_issued t p l w ttl (ci_command rec) d2 = (Inr \<lparr>ic_handle = h, ic_secret = Some s\<rparr>, d')" "desk d2 d'"
      by (rule write_issued_ok [OF desk_ok [OF b(2)] l begin_desk(2) [OF desk_ok [OF a(2)] b(1)]])
    then show "desks (write_issued t p l w ttl (ci_command rec)) d2" by (simp add: desks_def)
  qed
qed

lemma renew_desk:
  assumes ok: "broker_ok d"
  shows "desk d (snd (renew_credential t p i w k ttl d))"
  unfolding renew_credential_def
proof (rule unit_of_work_desk [OF ok])
  have "desks (and_then (admit_lease (ch_lease c))
          (\<lambda>l. and_then (begin_command t p k (renewal_request_hash i w))
            (\<lambda>(rec, is_new). if \<not> is_new then Pair (replay_issued rec)
               else write_renewed t p c l w ttl (ci_command rec)))) d"
    if c: "dict_get (handles d) i = Some c" "ch_status c = ''ISSUED''" for c
  proof (rule desks_and_then [OF admit_desk(1) [OF ok]])
    fix l d1 assume a: "admit_lease (ch_lease c) d = (Inr l, d1)" "desk d d1"
    note ad = admit_desk(2) [OF ok a(1)]
    show "desks (and_then (begin_command t p k (renewal_request_hash i w))
        (\<lambda>(rec, is_new). if \<not> is_new then Pair (replay_issued rec) else write_renewed t p c l w ttl (ci_command rec))) d1"
    proof (rule desks_guarded [OF desk_ok [OF a(2)]])
      fix rec d2 assume b: "begin_command t p k (renewal_request_hash i w) d1 = (Inr (rec, True), d2)" "desk d1 d2"
      have l: "dict_get (leases d2) (lz_id l) = Some l" using ad b(2) by (simp add: desk_def)
      have "calm d1 d2" using begin_calms(1) [OF broker_okD(4) [OF desk_ok [OF a(2)]], of t p k "renewal_request_hash i w"] b(1)
        by (simp add: calms_def)
      then have "handles d2 = handles d" using ad more_broker(1) [of d2 d1] by (simp add: calm_def)
      then have c2: "dict_get (handles d2) (ch_id c) = Some c" using c(1) stored_handle(1) [OF ok c(1)] by simp
      obtain h s d' where "write_renewed t p c l w ttl (ci_command rec) d2 = (Inr \<lparr>ic_handle = h, ic_secret = Some s\<rparr>, d')" "desk d2 d'"
        by (rule write_renewed_ok [OF desk_ok [OF b(2)] l begin_desk(2) [OF desk_ok [OF a(2)] b(1)] c2 c(2)])
      then show "desks (write_renewed t p c l w ttl (ci_command rec)) d2" by (simp add: desks_def)
    qed
  qed
  then show "desks (\<lambda>d. case require_handle i d of
      Inl err \<Rightarrow> (Inl err, d)
    | Inr current \<Rightarrow>
        if ch_status current \<noteq> ''ISSUED'' then
          (Inl (DdeError ''POLICY_DENIED'' (''Credential handle is '' @ ch_status current @ '', not live -- fail closed'') False
             [(''handle_id'', JStr i), (''status'', JStr (ch_status current))]), d)
        else and_then (admit_lease (ch_lease current))
          (\<lambda>l. and_then (begin_command t p k (renewal_request_hash i w))
            (\<lambda>(rec, is_new). if \<not> is_new then Pair (replay_issued rec)
               else write_renewed t p current l w ttl (ci_command rec))) d) d"
    using desk_same [OF ok] by (simp add: desks_def require_handle_def split: option.split)
qed

section \<open>Revoking\<close>

lemma revoke_one_moves:
  assumes ok: "broker_ok d" and h: "dict_get (handles d) (ch_id h) = Some h" and live: "ch_status h = ''ISSUED''"
  obtains h' d' where "revoke_one t p w h d = (Inr h', d')" "desk d d'" "handles d' = dict_set (ch_id h) h' (handles d)"
    "ch_id h' = ch_id h" "ch_status h' = ''REVOKED''"
proof -
  let ?now = "fst (clock_now (db_env d))"
  let ?d1 = "d\<lparr>db_env := snd (clock_now (db_env d))\<rparr>"
  let ?h = "h\<lparr>ch_status := ''REVOKED'', ch_revoked_at := Some ?now, ch_revocation := Some w, ch_updated_at := ?now\<rparr>"
  let ?d2 = "?d1\<lparr>handles := dict_set (ch_id h) ?h (handles d)\<rparr>"
  have same: "binding_part ?h = binding_part h" by (simp add: credential_binding.truncate_def)
  have st: "''REVOKED'' \<in> set (succs CREDENTIAL_HANDLE_TRANSITIONS (ch_status h))"
    by (simp add: live CREDENTIAL_HANDLE_TRANSITIONS_def succs_def)
  have le: "handle_le h ?h" using same st by (auto simp: handle_le_def handle_moves_def)
  obtain l where l: "dict_get (leases d) (ch_lease h) = Some l" "lent l h"
    using broker_okD(3) [OF ok] h unfolding all_lent_def by blast
  have w1: "desk d ?d1" by (rule desk_env [OF ok]) simp
  have "desk ?d1 (?d1\<lparr>handles := dict_set (ch_id ?h) ?h (handles ?d1)\<rparr>)"
    by (rule desk_handle [OF desk_ok [OF w1], where l = l])
      (use h le l lent_binding [OF l(2) same] stored_handle(2) [OF desk_ok [OF w1], of "ch_id h" h] in simp_all)
  then have w2: "desk d ?d2" using desk_trans [OF w1] by simp
  obtain ev d' where ev: "append_event (handle_event ''CredentialRevoked'' t p ?h [(''reason'', JStr w)]) ?d2 = (Inr ev, d')" "calm ?d2 d'"
    by (rule event_calm [OF broker_okD(4) [OF desk_ok [OF w2]]])
  have "handles d' = handles ?d2" using ev(2) more_broker(1) [of d' ?d2] by (simp add: calm_def)
  moreover have "revoke_one t p w h d = (Inr ?h, d')"
    using st table_update_eq [OF keyed_ok [OF broker_okD(5) [OF ok]] h] dict_get_key [OF h] ev(1)
    by (simp add: revoke_one_def transition_def read_clock_eq require_handle_def dict_get_set and_then_def del: set_map)
  ultimately show thesis using desk_trans [OF w2 desk_calm [OF desk_ok [OF w2] ev(2)]] by (intro that [of ?h d']) simp_all
qed

definition ended_rows :: "uuid set \<Rightarrow> 'x broker_db_scheme \<Rightarrow> 'x broker_db_scheme \<Rightarrow> bool" where
  "ended_rows I d d' \<longleftrightarrow> (\<forall>i h. dict_get (handles d') i = Some h \<longrightarrow>
    (i \<in> I \<and> ch_status h = ''REVOKED'') \<or> (i \<notin> I \<and> dict_get (handles d) i = Some h))"

lemma revoke_each_run:
  assumes "broker_ok d" and "list_all (\<lambda>h. dict_get (handles d) (ch_id h) = Some h \<and> ch_status h = ''ISSUED'') hs"
    and "distinct (map ch_id hs)"
  shows "\<exists>rs d'. revoke_each t p w hs d = (Inr rs, d') \<and> desk d d' \<and> ended_rows (ch_id ` set hs) d d'"
  using assms
proof (induction hs arbitrary: d)
  case Nil
  then show ?case by (simp add: ended_rows_def desk_same)
next
  case (Cons h hs)
  obtain h' d1 where one: "revoke_one t p w h d = (Inr h', d1)" "desk d d1" "handles d1 = dict_set (ch_id h) h' (handles d)"
      "ch_id h' = ch_id h" "ch_status h' = ''REVOKED''"
    by (rule revoke_one_moves [OF Cons.prems(1), of h]) (use Cons.prems(2) in simp_all)
  have "list_all (\<lambda>x. dict_get (handles d1) (ch_id x) = Some x \<and> ch_status x = ''ISSUED'') hs"
    using Cons.prems(2,3) by (auto simp: list_all_iff one(3) dict_get_set image_iff)
  then obtain rs d' where rest: "revoke_each t p w hs d1 = (Inr rs, d')" "desk d1 d'" "ended_rows (ch_id ` set hs) d1 d'"
    using Cons.IH [OF desk_ok [OF one(2)]] Cons.prems(3) by auto
  have "ended_rows (ch_id ` set (h # hs)) d d'"
    unfolding ended_rows_def
  proof (intro allI impI)
    fix i x assume "dict_get (handles d') i = Some x"
    then consider "i \<in> ch_id ` set hs" "ch_status x = ''REVOKED''" | "i \<notin> ch_id ` set hs" "dict_get (handles d1) i = Some x"
      using rest(3) unfolding ended_rows_def by blast
    then show "(i \<in> ch_id ` set (h # hs) \<and> ch_status x = ''REVOKED'') \<or> (i \<notin> ch_id ` set (h # hs) \<and> dict_get (handles d) i = Some x)"
      using one(5) by cases (auto simp: one(3) dict_get_set split: if_splits)
  qed
  then show ?case
    using one(1,2) rest(1,2) desk_trans by (intro exI [of _ "h' # rs"] exI [of _ d']) (auto simp: and_then_def)
qed

text \<open>The lists the calls walk: the live handles among those of the table a condition picks.\<close>

lemma live_handles:
  assumes ok: "broker_ok d" and hs: "hs = sort_key f (filter P (dict_values (handles d)))" and live: "\<And>h. P h \<Longrightarrow> ch_status h = ''ISSUED''"
  shows "list_all (\<lambda>h. dict_get (handles d) (ch_id h) = Some h \<and> ch_status h = ''ISSUED'') hs" and "distinct (map ch_id hs)"
    and "ch_id ` set hs = {i. \<exists>h. dict_get (handles d) i = Some h \<and> P h}"
proof -
  have set: "set hs = {h \<in> set (dict_values (handles d)). P h}" unfolding hs by (simp del: set_map)
  show "list_all (\<lambda>h. dict_get (handles d) (ch_id h) = Some h \<and> ch_status h = ''ISSUED'') hs"
    using keyed_in [OF broker_okD(5) [OF ok]] live unfolding list_all_iff set by blast
  show "ch_id ` set hs = {i. \<exists>h. dict_get (handles d) i = Some h \<and> P h}"
    using keyed_in [OF broker_okD(5) [OF ok]] keyed_get [OF broker_okD(5) [OF ok]] dict_get_value [of "handles d"]
    unfolding set by (fastforce simp del: set_map)
  have "distinct (map ch_id (filter P (dict_values (handles d))))"
    by (rule distinct_map_filter [OF keyed_distinct [OF broker_okD(5) [OF ok]]])
  then show "distinct (map ch_id hs)" by (simp add: hs distinct_map)
qed

lemma emergency_run:
  assumes ok: "broker_ok d"
  obtains rs d' where "emergency_revoke t p w m r d = (Inr rs, d')" "desk d d'"
    "\<And>i h. dict_get (handles d') i = Some h \<Longrightarrow> in_revoke_scope t p m r h \<Longrightarrow> ch_status h \<noteq> ''ISSUED''"
proof -
  let ?P = "\<lambda>h. in_revoke_scope t p m r h \<and> ch_status h = ''ISSUED''"
  have hs: "live_in_scope t p m r d = sort_key ch_created_at (filter ?P (dict_values (handles d)))" by (simp add: live_in_scope_def)
  have P: "?P h \<Longrightarrow> ch_status h = ''ISSUED''" for h by simp
  note live = live_handles [OF ok hs P]
  obtain rs d' where run: "revoke_each t p w (live_in_scope t p m r d) d = (Inr rs, d')" "desk d d'"
      "ended_rows (ch_id ` set (live_in_scope t p m r d)) d d'"
    using revoke_each_run [OF ok live(1,2)] by blast
  show thesis
  proof (rule that)
    show "emergency_revoke t p w m r d = (Inr rs, d')" using run(1) by (simp add: emergency_revoke_def unit_of_work_def)
    show "desk d d'" by (rule run(2))
    fix i h assume h: "dict_get (handles d') i = Some h" "in_revoke_scope t p m r h"
    then consider "ch_status h = ''REVOKED''"
      | "i \<notin> ch_id ` set (live_in_scope t p m r d)" "dict_get (handles d) i = Some h"
      using run(3) unfolding ended_rows_def by blast
    then show "ch_status h \<noteq> ''ISSUED''"
    proof cases
      case 2
      then show ?thesis using h(2) live(3) by auto
    qed simp
  qed
qed

lemma revoke_for_each_lease_desk:
  "broker_ok d \<Longrightarrow> desks (revoke_for_each_lease t p w is) d"
proof (induction "is" arbitrary: d)
  case Nil
  then show ?case by (simp add: desks_def desk_same)
next
  case (Cons i "is")
  let ?P = "\<lambda>h. ch_lease h = i \<and> ch_status h \<in> set LIVE_HANDLE_STATUSES"
  let ?hs = "filter (\<lambda>h. ch_status h \<in> set LIVE_HANDLE_STATUSES) (handles_for_lease i d)"
  have hs: "?hs = sort_key ch_created_at (filter ?P (dict_values (handles d)))"
    by (simp add: handles_for_lease_def filter_sort conj_commute)
  have P: "?P h \<Longrightarrow> ch_status h = ''ISSUED''" for h by (simp add: LIVE_HANDLE_STATUSES_def)
  note live = live_handles [OF Cons.prems hs P]
  obtain rs d1 where run: "revoke_each t p w ?hs d = (Inr rs, d1)" "desk d d1"
    using revoke_each_run [OF Cons.prems live(1,2)] by blast
  have "desks (and_then (revoke_each t p w ?hs)
      (\<lambda>rs. and_then (revoke_for_each_lease t p w is) (\<lambda>rss. Pair (Inr (rs @ rss))))) d"
  proof (rule desks_and_then)
    show "desks (revoke_each t p w ?hs) d" using run by (simp add: desks_def)
    fix r d' assume "desk d d'"
    then show "desks (and_then (revoke_for_each_lease t p w is) (\<lambda>rss. Pair (Inr (r @ rss)))) d'"
      using Cons.IH [OF desk_ok] by (intro desks_and_then desks_Pair) (auto dest: desk_ok)
  qed
  then show ?case by (simp add: desks_def)
qed

lemma revoke_credential_desk:
  assumes ok: "broker_ok d"
  shows "desk d (snd (revoke_credential t p i w d))"
  unfolding revoke_credential_def
proof (rule unit_of_work_desk [OF ok])
  have "desk d (snd (revoke_one t p w h d))" if "dict_get (handles d) i = Some h" for h
  proof (cases "ch_status h = ''ISSUED''")
    case True
    have "dict_get (handles d) (ch_id h) = Some h" using that stored_handle(1) [OF ok that] by simp
    then obtain h' d' where "revoke_one t p w h d = (Inr h', d')" "desk d d'" by (rule revoke_one_moves [OF ok _ True])
    then show ?thesis by simp
  next
    case False
    then have "''REVOKED'' \<notin> set (succs CREDENTIAL_HANDLE_TRANSITIONS (ch_status h))"
      by (auto simp: CREDENTIAL_HANDLE_TRANSITIONS_def succs_def)
    then show ?thesis using desk_same [OF ok] by (simp add: revoke_one_def transition_def)
  qed
  then show "desks (\<lambda>d. case require_handle i d of Inl err \<Rightarrow> (Inl err, d) | Inr current \<Rightarrow> revoke_one t p w current d) d"
    using desk_same [OF ok] by (simp add: desks_def require_handle_def split: option.split)
qed

lemma verify_desk: "broker_ok d \<Longrightarrow> desk d (snd (verify_credential i s d))"
  using desk_same [of d] desk_env [of d "snd (clock_now (db_env d))"] by (simp add: verify_credential_def read_clock_eq split: option.split)

section \<open>Runs of calls\<close>

fun releases :: "uuid \<Rightarrow> uuid \<Rightarrow> broker_op \<Rightarrow> bool" where
  "releases t r (LeaseCall op) \<longleftrightarrow> disarms t r op"
| "releases t r _ \<longleftrightarrow> False"

definition broker_write :: "broker_op \<Rightarrow> 'x broker_db_scheme \<Rightarrow> 'x broker_db_scheme \<Rightarrow> bool" where
  "broker_write op d d' \<longleftrightarrow> broker_ok d' \<and> leases_le (leases d) (leases d') \<and> handles_le (handles d) (handles d')
    \<and> (\<forall>t r. \<not> releases t r op \<longrightarrow> durably_stopped t r d \<longrightarrow> durably_stopped t r d')"

lemma desk_write:
  assumes "desk d d'"
  shows "broker_write op d d'"
proof -
  have "ledger_le (db_log d) (db_log d')" using assms by (simp add: desk_def grows_def)
  then have "durably_stopped t r d \<Longrightarrow> durably_stopped t r d'" for t r unfolding durably_stopped_def ledger_le_def by blast
  then show ?thesis using assms by (simp add: broker_write_def desk_def)
qed

lemma lease_call_write:
  assumes ok: "broker_ok d" and w: "call_write op d d'"
  shows "broker_write (LeaseCall op) d d'"
proof -
  have lw: "lease_ok d'" "env_le (db_env d) (db_env d')" "leases_le (leases d) (leases d')" "handles d' = handles d"
    using w more_broker(1) [of d' d] by (simp_all add: call_write_def lease_write_def)
  have "table_ok handles ch_id d'"
    using lease_okD(3) [OF lw(1)] broker_okD(5) [OF ok] order_trans [OF table_okD(3) [OF broker_okD(2) [OF ok]] env_le_drawn [OF lw(2)]]
    by (simp add: table_ok_def lw(4))
  moreover have "all_lent d'"
    unfolding all_lent_def lw(4)
  proof (intro allI impI)
    fix i h assume "dict_get (handles d) i = Some h"
    then obtain l where l: "dict_get (leases d) (ch_lease h) = Some l" "lent l h"
      using broker_okD(3) [OF ok] unfolding all_lent_def by blast
    then obtain l' where l': "dict_get (leases d') (ch_lease h) = Some l'" "lease_le l l'"
      using lw(3) unfolding leases_le_def by blast
    have "lent l' h" using l(2) l'(2) by (simp add: lent_def lease_le_def same_lease_def lease_scope.truncate_def)
    with l'(1) show "\<exists>l. dict_get (leases d') (ch_lease h) = Some l \<and> lent l h" by blast
  qed
  ultimately have "broker_ok d'" using lw(1) by (simp add: broker_ok_def)
  then show ?thesis using w lw by (simp add: broker_write_def call_write_def stops_kept_def)
qed

lemma broker_step_write:
  assumes ok: "broker_ok d"
  shows "broker_write op d (broker_step op d)"
proof (cases op)
  case (LeaseCall lop)
  then show ?thesis using lease_call_write [OF ok lease_step_write [OF broker_okD(1) [OF ok]]] by simp
next
  case (RevokeForLeases t p "is" w)
  then show ?thesis
    using desk_write [OF unit_of_work_desk [OF ok revoke_for_each_lease_desk [OF ok]]] by (simp add: revoke_handles_for_leases_def)
next
  case (EmergencyRevoke t p w m r)
  obtain rs d' where "emergency_revoke t p w m r d = (Inr rs, d')" "desk d d'" by (rule emergency_run [OF ok, of t p w m r])
  then show ?thesis using desk_write [of d d' op] by (simp add: EmergencyRevoke)
qed (use desk_write [OF issue_desk [OF ok]] desk_write [OF renew_desk [OF ok]] desk_write [OF revoke_credential_desk [OF ok]]
    desk_write [OF verify_desk [OF ok]] in simp_all)

interpretation broker_service: service broker_step broker_ok broker_write
proof
  fix op and d :: "'x broker_db_scheme"
  show "broker_ok d \<Longrightarrow> (broker_write op)\<^sup>*\<^sup>* d (broker_step op d)" by (rule r_into_rtranclp) (rule broker_step_write)
next
  fix op and d d' :: "'x broker_db_scheme"
  show "broker_write op d d' \<Longrightarrow> broker_ok d \<Longrightarrow> broker_ok d'" by (simp add: broker_write_def)
qed

lemma broker_run_keeps:
  assumes "broker_ok d"
  shows "broker_ok (broker_run ops d)" and "leases_le (leases d) (leases (broker_run ops d))"
    and "handles_le (handles d) (handles (broker_run ops d))"
    and "durably_stopped t r d \<Longrightarrow> \<not> list_ex (releases t r) ops \<Longrightarrow> durably_stopped t r (broker_run ops d)"
proof -
  have "broker_ok (broker_run ops d) \<and> leases_le (leases d) (leases (broker_run ops d)) \<and> handles_le (handles d) (handles (broker_run ops d))"
    unfolding broker_run_def
  proof (rule broker_service.run_keeps [where P = "\<lambda>x. leases_le (leases d) (leases x) \<and> handles_le (handles d) (handles x)", OF assms])
    fix op d1 d2 assume "broker_write op d1 d2" "leases_le (leases d) (leases d1) \<and> handles_le (handles d) (handles d1)"
    then show "leases_le (leases d) (leases d2) \<and> handles_le (handles d) (handles d2)"
      using leases_le_trans handles_le_trans by (auto simp: broker_write_def)
  qed simp
  then show "broker_ok (broker_run ops d)" "leases_le (leases d) (leases (broker_run ops d))"
    "handles_le (handles d) (handles (broker_run ops d))" by simp_all
  assume s: "durably_stopped t r d" and no: "\<not> list_ex (releases t r) ops"
  have "broker_ok (broker_run ops d) \<and> durably_stopped t r (broker_run ops d)"
    unfolding broker_run_def
  proof (rule broker_service.run_keeps [where P = "durably_stopped t r", OF assms s])
    fix op d1 d2 assume w: "op \<in> set ops" "broker_write op d1 d2" "durably_stopped t r d1"
    then show "durably_stopped t r d2" using no by (auto simp: broker_write_def list_ex_iff)
  qed
  then show "durably_stopped t r (broker_run ops d)" by simp
qed

text \<open>The handle in the command ledger is read back as it was.\<close>

lemma handle_validate_dump:
  assumes "ch_status h = ''ISSUED''"
  shows "handle_validate (handle_dump h) = Some h"
proof -
  let ?d = "handle_dump h"
  have "list_all (\<lambda>k. k \<in> set handle_fields) (dict_keys ?d)" by (simp add: handle_dump_def handle_fields_def)
  moreover have "get_optional ?d ''worker_run_id'' = Some (ch_run h)" "get_optional ?d ''provider_ref'' = Some (ch_provider_ref h)"
      "get_when ?d ''revoked_at'' = Some (ch_revoked_at h)" "get_optional ?d ''revocation_reason'' = Some (ch_revocation h)"
      "get_optional ?d ''supersedes_handle_id'' = Some (ch_supersedes h)"
      "get_optional ?d ''superseded_by_handle_id'' = Some (ch_superseded_by h)"
    by (simp_all add: get_optional_def get_when_def handle_dump_def json_opt_def json_when_def split: option.split)
  ultimately show ?thesis
    using assms by (simp add: handle_validate_def) (simp add: get_str_def get_int_def get_obj_def handle_dump_def)
qed

section \<open>Properties\<close>

text \<open>
  C15. A credential is bound to its lease. Whatever calls of the broker, the lease service and the catalogue
  follow, every stored handle names a stored lease whose mission, task, run, capability and resource scope it
  has, and expires no later than that lease; what it was bound to when it was made never changes, and once it
  is no longer live it never is again.
\<close>

theorem credential_bound_to_lease:
  assumes "broker_ok d" and "dict_get (handles (broker_run ops d)) i = Some h"
  shows "(\<exists>l. dict_get (leases (broker_run ops d)) (ch_lease h) = Some l \<and> ch_mission h = lz_mission l \<and> ch_task h = lz_task l
      \<and> ch_run h = lz_run l \<and> ch_capability h = lz_capability l \<and> ch_resource h = lz_resource l \<and> ch_expires_at h \<le> lz_expires_at l)
    \<and> (\<forall>h0. dict_get (handles d) i = Some h0 \<longrightarrow> binding_part h = binding_part h0
        \<and> (ch_status h0 \<noteq> ''ISSUED'' \<longrightarrow> ch_status h = ch_status h0))"
proof (intro conjI allI impI)
  note keeps = broker_run_keeps(1,3) [OF assms(1), of ops]
  show "\<exists>l. dict_get (leases (broker_run ops d)) (ch_lease h) = Some l \<and> ch_mission h = lz_mission l \<and> ch_task h = lz_task l
      \<and> ch_run h = lz_run l \<and> ch_capability h = lz_capability l \<and> ch_resource h = lz_resource l \<and> ch_expires_at h \<le> lz_expires_at l"
    using broker_okD(3) [OF keeps(1)] assms(2) unfolding all_lent_def lent_def by blast
  fix h0 assume "dict_get (handles d) i = Some h0"
  then have le: "handle_le h0 h" using keeps(2) assms(2) unfolding handles_le_def by fastforce
  then show "binding_part h = binding_part h0" by (simp add: handle_le_def)
  show "ch_status h = ch_status h0" if "ch_status h0 \<noteq> ''ISSUED''" using handle_final [OF le that] .
qed

definition desk_db :: broker_db where
  "desk_db = lease_db.extend one_lease_db (broker_db.fields [] (\<lambda>n. ''secret'' @ replicate n (CHR ''s'')) 0)"

lemma desk_db_facts:
  "db_log desk_db = db_log one_lease_db" "db_env desk_db = db_env one_lease_db" "descriptors desk_db = descriptors one_lease_db"
  "leases desk_db = leases one_lease_db" "kill_flags desk_db = kill_flags one_lease_db" "handles desk_db = []" "minted desk_db = 0"
  by (simp_all add: desk_db_def one_lease_db_def empty_lease_db_def empty_registry_def lease_db.extend_def broker_db.fields_def
      registry_db.extend_def lease_db.fields_def)

lemma desk_db_ok: "broker_ok desk_db"
  using one_lease_db_ok(1) by (simp add: broker_ok_def lease_ok_def registry_ok_def table_ok_def log_ok_def all_lent_def desk_db_facts)

lemma unit_of_work_Inr: "unit_of_work m d = (Inr x, d') \<longleftrightarrow> m d = (Inr x, d')"
  by (auto simp: unit_of_work_def split: prod.splits sum.splits)

lemma desk_db_open: "\<not> is_run_stopped t p r desk_db" "es_commands (db_log desk_db) = []"
  by (simp_all add: is_run_stopped_def read_durable_run_stop_def desk_db_facts one_lease_db_ok)

text \<open>An issue that returned a secret.\<close>

lemma issue_stores:
  assumes ok: "broker_ok d" and i: "issue_credential t p i w k ttl d = (Inr x, d')" and s: "ic_secret x = Some s"
  shows "dict_get (handles d') (ch_id (ic_handle x)) = Some (ic_handle x)" "dict_get (handles d) (ch_id (ic_handle x)) = None"
    "ch_lease (ic_handle x) = i" "ch_status (ic_handle x) = ''ISSUED''" "ch_secret_hash (ic_handle x) = sha256_hex s"
    "\<exists>c. dict_get (es_commands (db_log d')) (t, k) = Some c \<and> replay_issued c = Inr \<lparr>ic_handle = ic_handle x, ic_secret = None\<rparr>"
    "ch_tenant (ic_handle x) = t" "ch_project (ic_handle x) = p"
proof -
  obtain l d1 rec is_new d2 where a: "admit_lease i d = (Inr l, d1)" and b: "begin_command t p k (issuance_request_hash i w) d1 = (Inr (rec, is_new), d2)"
      and f: "(if \<not> is_new then Pair (replay_issued rec) else write_issued t p l w ttl (ci_command rec)) d2 = (Inr x, d')"
    using i by (auto simp: issue_credential_def unit_of_work_Inr and_then_Inr)
  have new: is_new
    using f s by (auto simp: replay_issued_def split: if_splits option.splits json.splits)
  note ad = admit_desk(2) [OF ok a]
  have ok1: "broker_ok d1" using desk_ok admit_desk(1) [OF ok, of i] a by (auto simp: desks_def)
  have cl: "calm d1 d2" using begin_calms(1) [OF broker_okD(4) [OF ok1], of t p k "issuance_request_hash i w"] b by (simp add: calms_def)
  have ok2: "broker_ok d2" by (rule desk_ok [OF desk_calm [OF ok1 cl]])
  have p2: "in_progress (ci_command rec) d2" using begin_calms(2) [OF broker_okD(4) [OF ok1]] b new by simp
  have hs: "handles d2 = handles d" using ad more_broker(1) [of d2 d1] cl by (simp add: calm_def)
  have l2: "dict_get (leases d2) (lz_id l) = Some l" using ad cl by (simp add: calm_def)
  obtain h s' d3 where w: "write_issued t p l w ttl (ci_command rec) d2 = (Inr \<lparr>ic_handle = h, ic_secret = Some s'\<rparr>, d3)"
      "dict_get (handles d2) (ch_id h) = None" "dict_get (handles d3) (ch_id h) = Some h" "ch_lease h = lz_id l" "ch_status h = ''ISSUED''"
      "ch_secret_hash h = sha256_hex s'" "filed_as (ci_command rec) (JObj (handle_dump h)) d2 d3"
      "ch_tenant h = t" "ch_project h = p"
    by (rule write_issued_ok [OF ok2 l2 p2])
  have x: "x = \<lparr>ic_handle = h, ic_secret = Some s\<rparr>" "s' = s" "d3 = d'" using f w(1) new s by auto
  show "dict_get (handles d') (ch_id (ic_handle x)) = Some (ic_handle x)" "dict_get (handles d) (ch_id (ic_handle x)) = None"
    "ch_lease (ic_handle x) = i" "ch_status (ic_handle x) = ''ISSUED''" "ch_secret_hash (ic_handle x) = sha256_hex s"
    "ch_tenant (ic_handle x) = t" "ch_project (ic_handle x) = p"
    using w x hs ad by simp_all
  have row: "dict_get (es_commands (db_log d2)) (t, k) = Some rec"
    using broker_okD(4) [OF ok1]
  proof (cases rule: begin_command_cases [of d1 t p k "issuance_request_hash i w"])
    case (new r st e)
    then show ?thesis using b by (auto simp: map_add_Some_iff dict_get_None)
  next
    case (old r c e)
    then show ?thesis using b \<open>is_new\<close> by auto
  qed
  then obtain now where "dict_get (es_commands (db_log d')) (t, k)
      = Some (rec\<lparr>ci_status := ''completed'', ci_result := Some (JObj (handle_dump h)), ci_updated_at := now\<rparr>)"
    using w(7) x(3) unfolding filed_as_def by force
  then show "\<exists>c. dict_get (es_commands (db_log d')) (t, k) = Some c \<and> replay_issued c = Inr \<lparr>ic_handle = ic_handle x, ic_secret = None\<rparr>"
    using handle_validate_dump [OF w(5)] x(1) by (simp add: replay_issued_def)
qed

text \<open>A first issue under an active lease goes on.\<close>

lemma issue_goes_on:
  assumes ok: "broker_ok d" and l: "dict_get (leases d) i = Some l" "lz_status l = ''ACTIVE''" "fst (clock_now (db_env d)) < lz_expires_at l"
    and run: "\<And>r. \<not> is_run_stopped (lz_tenant l) (lz_project l) r d"
    and new: "(t, k) \<notin> set (dict_keys (es_commands (db_log d)))"
  obtains x s d' where "issue_credential t p i w k ttl d = (Inr x, d')" "ic_secret x = Some s"
proof -
  let ?d1 = "d\<lparr>db_env := snd (clock_now (db_env d))\<rparr>"
  have "admit_live l d = (Inr l, ?d1)" using l(2,3) by (simp add: admit_live_def read_clock_eq)
  then have a: "admit_lease i d = (Inr l, ?d1)" using l(1) run by (simp add: admit_lease_def split: option.split)
  have ok1: "broker_ok ?d1" by (rule desk_ok [OF desk_env [OF ok]]) simp
  have new1: "(t, k) \<notin> set (dict_keys (es_commands (db_log ?d1)))" using new by simp
  note entry = begin_calms [OF broker_okD(4) [OF ok1], of t p k "issuance_request_hash i w"]
  from broker_okD(4) [OF ok1] show thesis
  proof (cases rule: begin_command_cases [of ?d1 t p k "issuance_request_hash i w"])
    case (new r st e)
    let ?d2 = "?d1\<lparr>db_log := st, db_env := e\<rparr>"
    have "calm ?d1 ?d2" using entry(1) new(1) by (simp add: calms_def)
    then have ok2: "broker_ok ?d2" by (rule desk_ok [OF desk_calm [OF ok1]])
    have l2: "dict_get (leases ?d2) (lz_id l) = Some l" using l(1) keyed_get [OF lease_okD(4) [OF broker_okD(1) [OF ok]] l(1)] by simp
    obtain h s d' where "write_issued t p l w ttl (ci_command r) ?d2 = (Inr \<lparr>ic_handle = h, ic_secret = Some s\<rparr>, d')"
      by (rule write_issued_ok [OF ok2 l2 entry(2) [OF new(1)]])
    then have "issue_credential t p i w k ttl d = (Inr \<lparr>ic_handle = h, ic_secret = Some s\<rparr>, d')"
      using a new(1) by (simp add: issue_credential_def unit_of_work_Inr and_then_def)
    then show thesis by (rule that) simp
  next
    case (old r c e)
    then show thesis using new1 dict_get_key [OF old(2)] by blast
  qed
qed

lemma sample_issue:
  obtains x s d' where "issue_credential ''t'' ''p'' '''' ''w'' ''key'' DEFAULT_CREDENTIAL_TTL desk_db = (Inr x, d')" "ic_secret x = Some s"
    "broker_ok d'"
proof -
  have l: "dict_get (leases desk_db) '''' = Some sample_lease" by (simp add: desk_db_facts one_lease_db_ok)
  obtain x s d' where "issue_credential ''t'' ''p'' '''' ''w'' ''key'' DEFAULT_CREDENTIAL_TTL desk_db = (Inr x, d')" "ic_secret x = Some s"
    by (rule issue_goes_on [OF desk_db_ok l _ _ desk_db_open(1), where t = "''t''" and p = "''p''" and k = "''key''" and w = "''w''" and ttl = DEFAULT_CREDENTIAL_TTL])
      (simp_all add: desk_db_open(2) desk_db_facts one_lease_db_ok sample_lease_def DEFAULT_LEASE_TTL_def)
  then show thesis using desk_ok [OF issue_desk [OF desk_db_ok]] that by (metis snd_conv)
qed

theorem credential_bound_to_lease_witness:
  "\<exists>x d' h. issue_credential ''t'' ''p'' '''' ''w'' ''key'' DEFAULT_CREDENTIAL_TTL desk_db = (Inr x, d') \<and>
    dict_get (handles (broker_run [LeaseCall (RevokeLease '''' ''w''), RevokeForLeases ''t'' ''p'' [''''] ''w''] d')) (ch_id (ic_handle x)) = Some h \<and>
    binding_part h = binding_part (ic_handle x)"
proof -
  let ?ops = "[LeaseCall (RevokeLease '''' ''w''), RevokeForLeases ''t'' ''p'' [''''] ''w'']"
  obtain x s d' where i: "issue_credential ''t'' ''p'' '''' ''w'' ''key'' DEFAULT_CREDENTIAL_TTL desk_db = (Inr x, d')" "ic_secret x = Some s"
      "broker_ok d'"
    by (rule sample_issue)
  note st = issue_stores(1) [OF desk_db_ok i(1,2)]
  obtain h where h: "dict_get (handles (broker_run ?ops d')) (ch_id (ic_handle x)) = Some h"
    using broker_run_keeps(3) [OF i(3), of ?ops] st unfolding handles_le_def by blast
  show ?thesis using i(1) h credential_bound_to_lease [OF i(3) h] st by blast
qed

text \<open>The same database after the lease was consumed: no lease of the run is held.\<close>

definition spent_lease :: capability_lease where
  "spent_lease = sample_lease\<lparr>lz_status := ''CONSUMED''\<rparr>"

definition spent_desk_db :: broker_db where
  "spent_desk_db = desk_db\<lparr>leases := [('''', spent_lease)]\<rparr>"

lemma spent_desk_db_facts:
  "db_log spent_desk_db = db_log desk_db" "es_commands (db_log spent_desk_db) = []" "leases spent_desk_db = [('''', spent_lease)]"
  by (simp_all add: spent_desk_db_def desk_db_open(2))

lemma spent_desk_db_ok: "broker_ok spent_desk_db"
  using desk_db_ok
  by (simp add: spent_desk_db_def spent_lease_def broker_ok_def lease_ok_def registry_ok_def table_ok_def log_ok_def all_lent_def desk_db_facts one_lease_db_ok keyed_def sample_lease_def)

text \<open>
  C14. A stopped run gets no credential. When \<open>arm_run_stop\<close> has returned, then whatever calls and restarts
  follow, as long as none disarms the run, \<open>issue\<close> under any lease of the run and \<open>renew\<close> of any live handle of
  such a lease are refused, and no handle is written.
\<close>

theorem stopped_run_no_credential:
  assumes "broker_ok d" and "arm_run_stop os t p r d = (Inr ls, d1)" and "\<not> list_ex (releases t r) ops"
    and "dict_get (leases (broker_run ops d1)) i = Some l" and "lz_run l = Some r" and "lz_tenant l = t"
  shows "(\<exists>d2. issue_credential t' p' i w k ttl (broker_run ops d1) = (Inl (admission_error r (lz_capability l)), d2)
      \<and> handles d2 = handles (broker_run ops d1))
    \<and> (\<forall>j h. dict_get (handles (broker_run ops d1)) j = Some h \<and> ch_lease h = i \<and> ch_status h = ''ISSUED'' \<longrightarrow>
        (\<exists>d2. renew_credential t' p' j w k ttl (broker_run ops d1) = (Inl (admission_error r (lz_capability l)), d2)
          \<and> handles d2 = handles (broker_run ops d1)))"
proof -
  let ?d = "broker_run ops d1"
  have w: "broker_write (LeaseCall (ArmRunStop os t p r)) d d1"
    using broker_step_write [OF assms(1), of "LeaseCall (ArmRunStop os t p r)"] assms(2) by simp
  have "durably_stopped t r d1"
    using broker_okD(1) [OF assms(1)]
    by (cases rule: arm_run_stop_cases [of d os t p r]) (use assms(2) in simp_all)
  then have "durably_stopped t r ?d" using broker_run_keeps(4) assms(3) w by (auto simp: broker_write_def)
  then have stop: "is_run_stopped (lz_tenant l) (lz_project l) r ?d" unfolding assms(6) by (rule durable_read)
  have ok: "broker_ok ?d" using broker_run_keeps(1) [of d1 ops] w by (simp add: broker_write_def)
  obtain d2 where a: "admit_lease i ?d = (Inl (admission_error r (lz_capability l)), d2)" "calm ?d d2"
    by (rule admit_stopped [OF ok assms(4,5) stop])
  have hs: "handles d2 = handles ?d" using a(2) more_broker(1) [of d2 ?d] by (simp add: calm_def)
  have keep: "after_commit (admission_error r (lz_capability l))" by (simp add: after_commit_def admission_error_def)
  have "issue_credential t' p' i w k ttl ?d = (Inl (admission_error r (lz_capability l)), d2)"
    using a(1) keep by (simp add: issue_credential_def unit_of_work_def and_then_def)
  moreover have "renew_credential t' p' j w k ttl ?d = (Inl (admission_error r (lz_capability l)), d2)"
    if "dict_get (handles ?d) j = Some h" "ch_lease h = i" "ch_status h = ''ISSUED''" for j h
    using a(1) keep that by (simp add: renew_credential_def unit_of_work_def and_then_def require_handle_def)
  ultimately show ?thesis using hs by blast
qed

theorem stopped_run_no_credential_witness:
  "\<exists>ls d1 l. arm_run_stop (\<lambda>_. Inr ''gone'') ''t'' ''p'' ''r'' spent_desk_db = (Inr ls, d1) \<and>
    dict_get (leases (broker_run [LeaseCall Restart] d1)) '''' = Some l \<and>
    fst (issue_credential ''t'' ''p'' '''' ''w'' ''key'' DEFAULT_CREDENTIAL_TTL (broker_run [LeaseCall Restart] d1)) = Inl (admission_error ''r'' ''c'')"
proof -
  obtain ls d1 where a: "arm_run_stop (\<lambda>_. Inr ''gone'') ''t'' ''p'' ''r'' spent_desk_db = (Inr ls, d1)"
    by (rule first_stop_returns [OF broker_okD(1) [OF spent_desk_db_ok]])
      (simp_all add: spent_desk_db_facts desk_db_open(2) list_held_for_run_def spent_lease_def HELD_LEASE_STATUSES_def)
  have w: "broker_write (LeaseCall (ArmRunStop (\<lambda>_. Inr ''gone'') ''t'' ''p'' ''r'')) spent_desk_db d1"
    using broker_step_write [OF spent_desk_db_ok, of "LeaseCall (ArmRunStop (\<lambda>_. Inr ''gone'') ''t'' ''p'' ''r'')"] a by simp
  have "leases_le (leases spent_desk_db) (leases (broker_run [LeaseCall Restart] d1))"
    using w broker_run_keeps(2) [of d1 "[LeaseCall Restart]"] leases_le_trans unfolding broker_write_def by blast
  moreover have "dict_get (leases spent_desk_db) '''' = Some spent_lease" by (simp add: spent_desk_db_facts)
  ultimately obtain l where l: "dict_get (leases (broker_run [LeaseCall Restart] d1)) '''' = Some l" "lease_le spent_lease l"
    unfolding leases_le_def by blast
  have "lz_run l = Some ''r''" "lz_tenant l = ''t''" "lz_capability l = ''c''"
    using scope_part_fields [of l spent_lease] l(2) by (simp_all add: lease_le_def same_lease_def) (simp_all add: spent_lease_def sample_lease_def)
  then have "\<exists>d2. issue_credential ''t'' ''p'' '''' ''w'' ''key'' DEFAULT_CREDENTIAL_TTL (broker_run [LeaseCall Restart] d1)
      = (Inl (admission_error ''r'' ''c''), d2)"
    using stopped_run_no_credential [OF spent_desk_db_ok a _ l(1)] by fastforce
  then show ?thesis using a l(1) by auto
qed

text \<open>
  C16. A revoked credential is dead. \<open>emergency_revoke\<close> always returns, and a handle that was stored in its
  scope, whatever its status was, never verifies any secret afterwards, whatever calls follow.
\<close>

theorem revoked_credential_dead:
  assumes "broker_ok d" and "dict_get (handles d) i = Some h" and "in_revoke_scope t p m r h"
  shows "\<exists>hs d'. emergency_revoke t p w m r d = (Inr hs, d') \<and> \<not> fst (verify_credential i s (broker_run ops d'))"
proof -
  obtain hs d' where e: "emergency_revoke t p w m r d = (Inr hs, d')" "desk d d'"
      "\<And>i h. dict_get (handles d') i = Some h \<Longrightarrow> in_revoke_scope t p m r h \<Longrightarrow> ch_status h \<noteq> ''ISSUED''"
    by (rule emergency_run [OF assms(1)]) blast
  obtain h1 where h1: "dict_get (handles d') i = Some h1" "handle_le h h1"
    using e(2) assms(2) unfolding desk_def handles_le_def by blast
  have "in_revoke_scope t p m r h1"
    using assms(3) binding_fields [of h1 h] h1(2) by (simp add: in_revoke_scope_def handle_le_def)
  then have dead: "ch_status h1 \<noteq> ''ISSUED''" using e(3) h1(1) by blast
  obtain h2 where h2: "dict_get (handles (broker_run ops d')) i = Some h2" "handle_le h1 h2"
    using broker_run_keeps(3) [OF desk_ok [OF e(2)], of ops] h1(1) unfolding handles_le_def by blast
  have "ch_status h2 \<noteq> ''ISSUED''" using handle_final [OF h2(2) dead] dead by simp
  then have "\<not> fst (verify_credential i s (broker_run ops d'))"
    using h2(1) by (simp add: verify_credential_def LIVE_HANDLE_STATUSES_def)
  then show ?thesis using e(1) by blast
qed

theorem revoked_credential_dead_witness:
  "\<exists>x s d' hs d''. issue_credential ''t'' ''p'' '''' ''w'' ''key'' DEFAULT_CREDENTIAL_TTL desk_db = (Inr x, d') \<and> ic_secret x = Some s \<and>
    emergency_revoke ''t'' ''p'' ''w'' None (ch_run (ic_handle x)) d' = (Inr hs, d'') \<and>
    \<not> fst (verify_credential (ch_id (ic_handle x)) s (broker_run [LeaseCall Restart] d''))"
proof -
  obtain x s d' where i: "issue_credential ''t'' ''p'' '''' ''w'' ''key'' DEFAULT_CREDENTIAL_TTL desk_db = (Inr x, d')" "ic_secret x = Some s"
      "broker_ok d'"
    by (rule sample_issue)
  have sc: "in_revoke_scope ''t'' ''p'' None (ch_run (ic_handle x)) (ic_handle x)"
    using issue_stores(7,8) [OF desk_db_ok i(1,2)] by (simp add: in_revoke_scope_def)
  show ?thesis
    using i(1,2) revoked_credential_dead [OF i(3) issue_stores(1) [OF desk_db_ok i(1,2)] sc, of "''w''" s "[LeaseCall Restart]"] by blast
qed

text \<open>
  C17. A secret is returned once. When \<open>issue\<close> returns a secret, its handle is new, is stored, and verifies that
  secret until it expires, and no other unless SHA-256 sends both to one hash; a repetition of the call with the
  same key returns the handle without the secret, if it returns, and writes no handle.
\<close>

theorem secret_returned_once:
  assumes "broker_ok d" and "issue_credential t p i w k ttl d = (Inr x, d')" and "ic_secret x = Some s"
  shows "dict_get (handles d) (ch_id (ic_handle x)) = None \<and> dict_get (handles d') (ch_id (ic_handle x)) = Some (ic_handle x)
    \<and> fst (verify_credential (ch_id (ic_handle x)) s' d')
      = (fst (clock_now (db_env d')) < ch_expires_at (ic_handle x) \<and> sha256_hex s' = sha256_hex s)
    \<and> (\<forall>y d2. issue_credential t p i w k ttl' d' = (Inr y, d2) \<longrightarrow>
        ic_handle y = ic_handle x \<and> ic_secret y = None \<and> handles d2 = handles d')"
proof -
  note st = issue_stores [OF assms]
  have ok': "broker_ok d'" using desk_ok [OF issue_desk [OF assms(1)]] assms(2) by (metis snd_conv)
  have "fst (verify_credential (ch_id (ic_handle x)) s' d')
      = (fst (clock_now (db_env d')) < ch_expires_at (ic_handle x) \<and> sha256_hex s' = sha256_hex s)"
    using st(1,4,5) by (auto simp: verify_credential_def read_clock_eq LIVE_HANDLE_STATUSES_def)
  moreover have "ic_handle y = ic_handle x \<and> ic_secret y = None \<and> handles d2 = handles d'"
    if again: "issue_credential t p i w k ttl' d' = (Inr y, d2)" for y d2
  proof -
    obtain l d1 rec is_new d3 where a: "admit_lease i d' = (Inr l, d1)" and b: "begin_command t p k (issuance_request_hash i w) d1 = (Inr (rec, is_new), d3)"
        and f: "(if \<not> is_new then Pair (replay_issued rec) else write_issued t p l w ttl' (ci_command rec)) d3 = (Inr y, d2)"
      using again by (auto simp: issue_credential_def unit_of_work_Inr and_then_Inr)
    note ad = admit_desk(2) [OF ok' a]
    obtain c where c: "dict_get (es_commands (db_log d1)) (t, k) = Some c" "replay_issued c = Inr \<lparr>ic_handle = ic_handle x, ic_secret = None\<rparr>"
      using st(6) ad by auto
    have ok1: "broker_ok d1" using desk_ok admit_desk(1) [OF ok', of i] a by (auto simp: desks_def)
    show ?thesis
      using broker_okD(4) [OF ok1]
    proof (cases rule: begin_command_cases [of d1 t p k "issuance_request_hash i w"])
      case (new r st e)
      then show ?thesis using dict_get_key [OF c(1)] by blast
    next
      case (old r c' e)
      then have "rec = c" "\<not> is_new" "d3 = d1\<lparr>db_env := e\<rparr>" using b c(1) by auto
      then show ?thesis using f c(2) ad by auto
    qed
  qed
  ultimately show ?thesis using st(1,2) by blast
qed

theorem secret_returned_once_witness:
  "\<exists>x s d'. issue_credential ''t'' ''p'' '''' ''w'' ''key'' DEFAULT_CREDENTIAL_TTL desk_db = (Inr x, d') \<and> ic_secret x = Some s \<and>
    dict_get (handles d') (ch_id (ic_handle x)) = Some (ic_handle x)"
proof -
  obtain x s d' where i: "issue_credential ''t'' ''p'' '''' ''w'' ''key'' DEFAULT_CREDENTIAL_TTL desk_db = (Inr x, d')" "ic_secret x = Some s"
    by (rule sample_issue)
  show ?thesis using i secret_returned_once [OF desk_db_ok i] by blast
qed
end
