(* ===== verification/Gates.thy ===== *)
theory Gates
  imports Templates
begin

text \<open>
  \<open>engine/integration/gates.py\<close>: the gates every diff passes before it is merged. Six scanners look at the added
  lines, the proposed contents, the changed paths, the donor taint and the declared dependencies; the diff
  passes when none of them blocks. The parsers of TOML and JSON (\<open>tomllib\<close>, \<open>json\<close>) are parameters. Proved here:
  the evaluation passes exactly when each of the six conditions holds; no content that passes contains a
  secret, wherever it stands; the distance behind the typosquat test is the least number of edits; and what
  an admitted package satisfies.
\<close>

section \<open>Python strings and paths\<close>

text \<open>\<open>str.splitlines\<close>, as far as U+00FF; a carriage return takes the line feed after it along.\<close>

definition is_line_break :: "char \<Rightarrow> bool" where
  "is_line_break c = (of_char c \<in> ({10, 11, 12, 13, 28, 29, 30, 133} :: nat set))"

fun split_lines :: "bool \<Rightarrow> string \<Rightarrow> string \<Rightarrow> string list" where
  "split_lines after_cr cur [] = (if cur = [] then [] else [rev cur])"
| "split_lines after_cr cur (c # s) =
    (if after_cr \<and> c = CHR 0x0A then split_lines False [] s
     else if is_line_break c then rev cur # split_lines (c = CHR 0x0D) [] s
     else split_lines False (c # cur) s)"

definition splitlines :: "string \<Rightarrow> string list" where
  "splitlines s = split_lines False [] s"

definition lower :: "string \<Rightarrow> string" where
  "lower s = map lower_char s"

text \<open>\<open>Path(p).name\<close> and \<open>.suffix\<close>.\<close>

fun split_on :: "char \<Rightarrow> string \<Rightarrow> string list" where
  "split_on x [] = [[]]"
| "split_on x (c # s) =
    (if c = x then [] # split_on x s else (case split_on x s of [] \<Rightarrow> [[c]] | p # ps \<Rightarrow> (c # p) # ps))"

definition path_name :: "string \<Rightarrow> string" where
  "path_name p = (case filter (\<lambda>x. x \<noteq> [] \<and> x \<noteq> ''.'') (split_on (CHR ''/'') p) of [] \<Rightarrow> [] | xs \<Rightarrow> last xs)"

definition path_suffix :: "string \<Rightarrow> string" where
  "path_suffix p =
    (let name = path_name p; ext = rev (takeWhile (\<lambda>c. c \<noteq> CHR ''.'') (rev name)) in
     if ext \<noteq> [] \<and> length ext + 1 < length name then CHR ''.'' # ext else [])"

text \<open>\<open>pattern.search(s)\<close>, for a pattern given by the strings it matches at their start.\<close>

fun re_search :: "(string \<Rightarrow> bool) \<Rightarrow> string \<Rightarrow> bool" where
  "re_search m [] = m []"
| "re_search m (c # s) = (m (c # s) \<or> re_search m s)"

definition is_upper_digit :: "char \<Rightarrow> bool" where
  "is_upper_digit c = (let n = (of_char c :: nat) in 48 \<le> n \<and> n \<le> 57 \<or> 65 \<le> n \<and> n \<le> 90)"

definition is_alnum :: "char \<Rightarrow> bool" where
  "is_alnum c = (is_upper_digit c \<or> (let n = (of_char c :: nat) in 97 \<le> n \<and> n \<le> 122))"

section \<open>Policy\<close>

definition FORBIDDEN_PATH_PREFIXES :: "string list" where
  "FORBIDDEN_PATH_PREFIXES = [''.git/'', ''.github/'', ''migrations/'']"

definition FORBIDDEN_PATH_NAMES :: "string list" where
  "FORBIDDEN_PATH_NAMES = [''SECURITY.md'', ''.pre-commit-config.yaml'', ''alembic.ini'']"

definition SOURCE_SUFFIXES :: "string list" where
  "SOURCE_SUFFIXES = [''.py'', ''.ts'', ''.tsx'', ''.js'', ''.jsx'', ''.go'', ''.rs'', ''.java'']"

definition HEADER_MARKERS :: "string list" where
  "HEADER_MARKERS = [''SPDX-License-Identifier:'', ''Copyright'']"

definition ALLOWED_LICENCES :: "string list" where
  "ALLOWED_LICENCES = [''MIT'', ''Apache-2.0'', ''BSD-2-Clause'', ''BSD-3-Clause'', ''ISC'', ''PSF-2.0'', ''Unlicense'', ''MPL-2.0'']"

definition BLOCKING_VULN_SEVERITIES :: "string list" where
  "BLOCKING_VULN_SEVERITIES = [''high'', ''critical'']"

definition TRANSITIVE_DELTA_LIMIT :: nat where "TRANSITIVE_DELTA_LIMIT = 50"

definition JUSTIFICATION_BASENAME :: string where "JUSTIFICATION_BASENAME = ''DEPENDENCY_JUSTIFICATION.md''"

definition LOCKFILE_BASENAMES :: "string list" where
  "LOCKFILE_BASENAMES = [''uv.lock'', ''poetry.lock'', ''Pipfile.lock'', ''package-lock.json'', ''yarn.lock'', ''Cargo.lock'', ''go.sum'']"

definition MANIFEST_BASENAMES :: "string list" where
  "MANIFEST_BASENAMES = [''pyproject.toml'', ''requirements.txt'', ''Pipfile'', ''package.json'', ''Cargo.toml'', ''go.mod'']"

definition VULNERABILITY_ADVISORIES :: "(string \<times> string, string \<times> string) dict" where
  "VULNERABILITY_ADVISORIES = [((''pypi'', ''dde-planted-vulnerable''), (''DDE-PLANTED-001'', ''critical''))]"

definition KNOWN_LICENCES :: "(string \<times> string, string) dict" where
  "KNOWN_LICENCES =
    [((''pypi'', ''httpx''), ''BSD-3-Clause''), ((''pypi'', ''fastapi''), ''MIT''), ((''pypi'', ''pydantic''), ''MIT''),
     ((''pypi'', ''sqlalchemy''), ''MIT'')]"

text \<open>
  The names are a set in the source; the list fixes an order in which it is searched, on which only the name
  reported for a suspect depends.
\<close>

definition POPULAR_PACKAGES :: "(string, string list) dict" where
  "POPULAR_PACKAGES =
    [(''pypi'', [''requests'', ''urllib3'', ''numpy'', ''pandas'', ''django'', ''flask'', ''pytest'', ''sqlalchemy'', ''pydantic'',
        ''fastapi'', ''httpx'', ''cryptography'', ''pillow'', ''tensorflow'', ''torch'']),
     (''npm'', [''react'', ''lodash'', ''express'', ''webpack'', ''typescript'', ''eslint'', ''vue'', ''angular''])]"

definition IMPLEMENTATION_TAINT_CLASSES :: "string list" where
  "IMPLEMENTATION_TAINT_CLASSES = [''OPEN_REUSE'', ''CONDITIONAL_REUSE'', ''RESTRICTED'']"

definition FORBIDDEN_IMPLEMENTATION_CLASSES :: "string list" where
  "FORBIDDEN_IMPLEMENTATION_CLASSES = [''REJECTED'', ''SOURCE_REFERENCE_ONLY'', ''UNKNOWN'']"

section \<open>Outcomes\<close>

record scan_finding =
  sf_gate :: string
  sf_tool :: string
  sf_severity :: string
  sf_blocking :: bool
  sf_passed :: bool
  sf_summary :: string
  sf_details :: "(string \<times> json) list"

record package_ref =
  pr_name :: string
  pr_version :: string
  pr_ecosystem :: string
  pr_top_level :: bool
  pr_source :: string

record package_decision =
  pd_name :: string
  pd_version :: string
  pd_ecosystem :: string
  pd_top_level :: bool
  pd_licence :: "string option"
  pd_maintenance :: string
  pd_provenance :: string
  pd_vulnerabilities :: "string list"
  pd_typosquat_of :: "string option"
  pd_justification :: "(string, string) dict option"
  pd_transitive_delta :: "nat option"
  pd_status :: string
  pd_blocking_reason :: "string option"

record gate_evaluation =
  ge_findings :: "scan_finding list"
  ge_admissions :: "package_decision list"
  ge_sbom_document :: "(string \<times> json) list"
  ge_sbom_hash :: string
  ge_passed :: bool
  ge_quarantined :: bool

text \<open>What the gate is told of one donor, the dictionary \<open>evaluate\<close> builds.\<close>

record gate_taint =
  gt_artifact :: uuid
  gt_source_class :: string
  gt_licence_class :: string
  gt_source_uri :: string

type_synonym blobs = "(string, string option) dict"

text \<open>\<open>tomllib.loads\<close> and \<open>json.loads\<close>: \<open>None\<close> for a decode error.\<close>

record decoders =
  toml_loads :: "string \<Rightarrow> json option"
  json_loads :: "string \<Rightarrow> json option"

definition strings :: "string list \<Rightarrow> json" where
  "strings xs = JList (map JStr xs)"

definition is_lockfile :: "string \<Rightarrow> bool" where
  "is_lockfile path \<longleftrightarrow> path_name path \<in> set LOCKFILE_BASENAMES"

text \<open>A name such as \<open>requirements-dev.txt\<close>.\<close>

definition requirement_name :: "string \<Rightarrow> bool" where
  "requirement_name name \<longleftrightarrow> suffix ''.txt'' name \<and> prefix ''requirement'' name"

definition is_dependency_manifest :: "string \<Rightarrow> bool" where
  "is_dependency_manifest path \<longleftrightarrow>
    (let name = path_name path in
     name \<in> set MANIFEST_BASENAMES \<or> name \<in> set LOCKFILE_BASENAMES \<or> requirement_name name)"

section \<open>Scanners\<close>

definition added_lines :: "string \<Rightarrow> string list" where
  "added_lines unified = map tl (filter (\<lambda>line. prefix ''+'' line \<and> \<not> prefix ''+++'' line) (splitlines unified))"

definition aws_key :: "string \<Rightarrow> bool" where
  "aws_key s \<longleftrightarrow> prefix ''AKIA'' s \<and> 16 \<le> length (takeWhile is_upper_digit (drop 4 s))"

definition github_pat :: "string \<Rightarrow> bool" where
  "github_pat s \<longleftrightarrow> prefix ''ghp_'' s \<and> 36 \<le> length (takeWhile is_alnum (drop 4 s))"

definition private_key :: "string \<Rightarrow> bool" where
  "private_key s \<longleftrightarrow> list_ex (\<lambda>kind. prefix (''-----BEGIN '' @ kind @ ''PRIVATE KEY-----'') s) [''RSA '', ''OPENSSH '', ''EC '', ''DSA '', '''']"

definition secret_hit_classes :: "string \<Rightarrow> string list" where
  "secret_hit_classes line =
    (if re_search aws_key line then [''aws_access_key''] else []) @
    (if re_search github_pat line then [''github_pat''] else []) @
    (if re_search private_key line then [''private_key_pem''] else [])"

definition blob_hits :: "string \<times> string option \<Rightarrow> string list" where
  "blob_hits pb =
    (case snd pb of
       None \<Rightarrow> []
     | Some blob \<Rightarrow> concat (map (\<lambda>line. map (\<lambda>hit. fst pb @ '':'' @ hit) (secret_hit_classes line)) (splitlines blob)))"

text \<open>The scanners of one rule differ in these fields only.\<close>

definition finding :: "string \<Rightarrow> string \<Rightarrow> string \<Rightarrow> bool \<Rightarrow> string \<Rightarrow> (string \<times> json) list \<Rightarrow> scan_finding" where
  "finding gate tool severity passed summary ds =
    \<lparr>sf_gate = gate, sf_tool = tool, sf_severity = severity, sf_blocking = True, sf_passed = passed, sf_summary = summary,
     sf_details = ds\<rparr>"

definition scan_secrets :: "string \<Rightarrow> blobs \<Rightarrow> scan_finding" where
  "scan_secrets unified proposed =
    (let hits = concat (map secret_hit_classes (added_lines unified)) @ concat (map blob_hits proposed) in
     if hits \<noteq> [] then
       finding ''secret_detection'' ''gitleaks'' ''critical'' False ''Secret material detected in the worker-produced diff''
         [(''hit_classes'', strings (sort (remdups hits))), (''deferred'', JStr ''gitleaks CLI is not invoked at Stage 2'')]
     else finding ''secret_detection'' ''gitleaks'' ''info'' True ''No secret material detected in added lines''
         [(''deferred'', JStr ''gitleaks CLI is not invoked at Stage 2'')])"

definition static_hits :: "string \<Rightarrow> string list" where
  "static_hits line =
    (let stripped = strip line in
     (if str_contains ''eval('' stripped \<and> str_contains ''compile('' stripped then [''eval_compile''] else []) @
     (if str_contains ''subprocess'' stripped \<and> str_contains ''shell=True'' stripped then [''subprocess_shell''] else []))"

definition scan_static :: "string \<Rightarrow> scan_finding" where
  "scan_static unified =
    (let hits = concat (map static_hits (added_lines unified));
         deferred = (''deferred'', JStr ''semgrep CLI is not invoked; DDE-045 uses in-process SAST'') in
     if hits \<noteq> [] then
       finding ''static_analysis'' ''semgrep'' ''error'' False ''Static analysis matched a blocking in-process rule''
         [(''hit_classes'', strings (sort (remdups hits))), deferred]
     else finding ''static_analysis'' ''semgrep'' ''info'' True ''No blocking in-process static-analysis match'' [deferred])"

definition is_forbidden :: "string \<Rightarrow> bool" where
  "is_forbidden path \<longleftrightarrow>
    (let norm = slashes path in
     path_name norm \<in> set FORBIDDEN_PATH_NAMES
     \<or> list_ex (\<lambda>p. norm = rstrip_slash p \<or> prefix p norm) FORBIDDEN_PATH_PREFIXES)"

definition scan_forbidden_paths :: "string list \<Rightarrow> scan_finding" where
  "scan_forbidden_paths changed =
    (let hits = filter is_forbidden changed in
     if hits \<noteq> [] then
       finding ''forbidden_path'' ''project-policy'' ''error'' False ''Diff touches a path that requires approval to modify''
         [(''paths'', strings hits), (''deferred_approval'', JStr ''DDE-026'')]
     else finding ''forbidden_path'' ''project-policy'' ''info'' True ''No forbidden-path modification'' [])"

definition blob_text :: "blobs \<Rightarrow> string \<Rightarrow> string" where
  "blob_text bs path = (case dict_get bs path of Some (Some blob) \<Rightarrow> blob | _ \<Rightarrow> [])"

definition lacks_header :: "blobs \<Rightarrow> string \<Rightarrow> bool" where
  "lacks_header proposed path \<longleftrightarrow> lower (path_suffix path) \<in> set SOURCE_SUFFIXES
    \<and> \<not> list_ex (\<lambda>marker. str_contains marker (str_join [CHR 0x0A] (take 12 (splitlines (blob_text proposed path))))) HEADER_MARKERS"

definition scan_licence_headers :: "string list \<Rightarrow> blobs \<Rightarrow> scan_finding" where
  "scan_licence_headers new_paths proposed =
    (let missing = filter (lacks_header proposed) new_paths in
     if missing \<noteq> [] then
       finding ''licence_header'' ''project-policy'' ''error'' False ''Newly added source files are missing a licence header''
         [(''paths'', strings missing)]
     else finding ''licence_header'' ''project-policy'' ''info'' True ''New source files carry a licence header, or none were added'' [])"

definition scan_donor_taint :: "gate_taint list \<Rightarrow> bool \<Rightarrow> scan_finding" where
  "scan_donor_taint taints approved =
    (let forbidden = filter (\<lambda>t. gt_source_class t \<in> set FORBIDDEN_IMPLEMENTATION_CLASSES) taints;
         needs_reuse = filter (\<lambda>t. gt_source_class t \<in> set IMPLEMENTATION_TAINT_CLASSES) taints;
         classes = sort (remdups (map gt_source_class forbidden));
         n = (''taint_count'', JInt (int (length taints))) in
     if taints = [] then
       finding ''donor_taint'' ''donor-lab'' ''info'' True ''No donor taint on this merge candidate'' [(''taint_count'', JInt 0)]
     else if forbidden \<noteq> [] then
       finding ''donor_taint'' ''donor-lab'' ''error'' False
         (''Donor taint class forbids merge of donor-derived implementation ('' @ str_join '', '' classes @ '')'')
         [n, (''forbidden_classes'', strings classes), (''donor_artifact_ids'', strings (map gt_artifact forbidden))]
     else if needs_reuse \<noteq> [] \<and> \<not> approved then
       finding ''donor_taint'' ''donor-lab'' ''error'' False
         ''Donor-derived implementation requires an APPROVED donor_reuse decision before merge (Chapter 13.8)''
         [n, (''donor_artifact_ids'', strings (map gt_artifact needs_reuse)), (''donor_reuse_approved'', JBool False)]
     else finding ''donor_taint'' ''donor-lab'' ''info'' True ''Donor taint permits merge under recorded reuse policy''
         [n, (''donor_reuse_approved'', JBool approved)])"

section \<open>Manifests\<close>

text \<open>
  \<open>_PEP508.match\<close>. Everything after the name is optional, so the name is the longest there is; an operator counts
  when a version follows it.
\<close>

definition pep_operators :: "string list" where
  "pep_operators = [''==='', ''=='', ''>='', ''<='', ''~='', ''!='', ''>'', ''<'']"

definition pep_name :: "string \<Rightarrow> string" where
  "pep_name s = rev (dropWhile (\<lambda>c. \<not> is_alnum c) (rev (takeWhile (\<lambda>c. is_alnum c \<or> c \<in> set ''._-'') s)))"

definition pep_extras :: "string \<Rightarrow> string" where
  "pep_extras s = (if prefix ''['' s \<and> CHR '']'' \<in> set s then tl (dropWhile (\<lambda>c. c \<noteq> CHR '']'') s) else s)"

definition pep_version :: "string \<Rightarrow> string \<Rightarrow> string" where
  "pep_version s op =
    (if prefix op s then takeWhile (\<lambda>c. \<not> is_space c \<and> c \<notin> set '';,#'') (dropWhile is_space (drop (length op) s)) else [])"

definition parse_requirement_line :: "string \<Rightarrow> string \<Rightarrow> string \<Rightarrow> package_ref option" where
  "parse_requirement_line path line ecosystem =
    (let s = dropWhile is_space line in
     if s = [] \<or> \<not> is_alnum (hd s) then None
     else let name = pep_name s; rest = dropWhile is_space (pep_extras (drop (length name) s));
              versions = filter (\<lambda>v. v \<noteq> []) (map (pep_version rest) pep_operators)
       in Some \<lparr>pr_name = name, pr_version = (case versions of [] \<Rightarrow> ''*'' | v # _ \<Rightarrow> v), pr_ecosystem = ecosystem,
            pr_top_level = True, pr_source = path\<rparr>)"

definition parse_requirements :: "string \<Rightarrow> string \<Rightarrow> package_ref list" where
  "parse_requirements path blob =
    List.map_filter (\<lambda>line. let stripped = strip line in
      if stripped = [] \<or> prefix ''#'' stripped \<or> prefix ''-'' stripped then None
      else parse_requirement_line path stripped ''pypi'') (splitlines blob)"

definition parse_pyproject :: "decoders \<Rightarrow> string \<Rightarrow> string \<Rightarrow> package_ref list" where
  "parse_pyproject dec path blob =
    (case toml_loads dec blob of
       Some (JObj doc) \<Rightarrow>
         (case dict_get doc ''project'' of
            Some (JObj project) \<Rightarrow>
              (case dict_get project ''dependencies'' of
                 Some (JList raw) \<Rightarrow>
                   List.map_filter (\<lambda>x. case x of JStr line \<Rightarrow> parse_requirement_line path line ''pypi'' | _ \<Rightarrow> None) raw
               | _ \<Rightarrow> [])
          | _ \<Rightarrow> [])
     | _ \<Rightarrow> [])"

text \<open>\<open>str\<close> of a decoded value.\<close>

fun json_repr :: "json \<Rightarrow> string" where
  "json_repr JNull = ''None''"
| "json_repr (JBool b) = (if b then ''True'' else ''False'')"
| "json_repr (JInt i) = int_str i"
| "json_repr (JStr s) = py_repr s"
| "json_repr (JList xs) = ''['' @ str_join '', '' (map json_repr xs) @ '']''"
| "json_repr (JObj d) = ''{'' @ str_join '', '' (map (\<lambda>(k, v). py_repr k @ '': '' @ json_repr v) d) @ ''}''"

definition json_str :: "json \<Rightarrow> string" where
  "json_str v = (case v of JStr s \<Rightarrow> s | _ \<Rightarrow> json_repr v)"

definition npm_refs :: "string \<Rightarrow> (string \<times> json) list \<Rightarrow> string \<Rightarrow> package_ref list" where
  "npm_refs path doc key =
    (case dict_get doc key of
       Some (JObj m) \<Rightarrow> map (\<lambda>(name, version). \<lparr>pr_name = name, pr_version = json_str version, pr_ecosystem = ''npm'',
         pr_top_level = True, pr_source = path\<rparr>) m
     | _ \<Rightarrow> [])"

definition parse_package_json :: "decoders \<Rightarrow> string \<Rightarrow> string \<Rightarrow> package_ref list" where
  "parse_package_json dec path blob =
    (case json_loads dec blob of
       Some (JObj doc) \<Rightarrow> npm_refs path doc ''dependencies'' @ npm_refs path doc ''devDependencies''
     | _ \<Rightarrow> [])"

definition parse_manifest :: "decoders \<Rightarrow> string \<Rightarrow> string option \<Rightarrow> package_ref list" where
  "parse_manifest dec path content =
    (case content of
       None \<Rightarrow> []
     | Some blob \<Rightarrow>
         if blob = [] then []
         else let name = path_name path in
           if name = ''pyproject.toml'' then parse_pyproject dec path blob
           else if requirement_name name then parse_requirements path blob
           else if name = ''package.json'' then parse_package_json dec path blob
           else [])"

section \<open>Justifications\<close>

text \<open>\<open>_JUSTIFICATION_HEADING\<close> and \<open>_JUSTIFICATION_FIELD\<close> on a stripped line.\<close>

definition heading_of :: "string \<Rightarrow> string option" where
  "heading_of line =
    (let marks = takeWhile (\<lambda>c. c = CHR ''#'') line; rest = drop (length marks) line;
         word = takeWhile (\<lambda>c. \<not> is_space c) (dropWhile is_space rest);
         tail = dropWhile (\<lambda>c. \<not> is_space c) (dropWhile is_space rest) in
     if 1 \<le> length marks \<and> length marks \<le> 3 \<and> rest \<noteq> [] \<and> is_space (hd rest) \<and> word \<noteq> [] \<and> list_all is_space tail
     then Some word else None)"

definition justification_keys :: "string list" where
  "justification_keys = [''licence'', ''license'', ''maintenance'', ''stdlib_insufficient'']"

definition field_at :: "string \<Rightarrow> string \<Rightarrow> (string \<times> string) option" where
  "field_at line key =
    (let rest = dropWhile is_space (drop (length key) line) in
     if lower (take (length key) line) = key \<and> prefix '':'' rest \<and> tl rest \<noteq> []
     then Some (if key = ''license'' then ''licence'' else key, strip (tl rest)) else None)"

definition field_of :: "string \<Rightarrow> (string \<times> string) option" where
  "field_of line = (case List.map_filter (field_at line) justification_keys of [] \<Rightarrow> None | f # _ \<Rightarrow> Some f)"

type_synonym justifications = "(string, (string, string) dict) dict"

fun justification_lines :: "justifications \<Rightarrow> string option \<Rightarrow> (string, string) dict \<Rightarrow> string list \<Rightarrow> justifications" where
  "justification_lines found current fs [] =
    (case current of None \<Rightarrow> found | Some name \<Rightarrow> dict_set (lower name) fs found)"
| "justification_lines found current fs (line # ls) =
    (case heading_of line of
       Some name \<Rightarrow>
         justification_lines (case current of None \<Rightarrow> found | Some old \<Rightarrow> dict_set (lower old) fs found) (Some name) [] ls
     | None \<Rightarrow>
         (case field_of line of
            Some (k, v) \<Rightarrow> justification_lines found current (if current = None then fs else dict_set k v fs) ls
          | None \<Rightarrow> justification_lines found current fs ls))"

fun parse_justifications :: "justifications \<Rightarrow> blobs \<Rightarrow> justifications" where
  "parse_justifications found [] = found"
| "parse_justifications found ((path, content) # bs) =
    parse_justifications
      (case content of
         None \<Rightarrow> found
       | Some blob \<Rightarrow> if path_name path \<noteq> JUSTIFICATION_BASENAME \<or> blob = [] then found
           else justification_lines found None [] (map strip (splitlines blob))) bs"

section \<open>Admission of packages\<close>

text \<open>One row of the table of distances from the row before it.\<close>

fun lev_cells :: "char \<Rightarrow> nat \<Rightarrow> nat list \<Rightarrow> string \<Rightarrow> nat list" where
  "lev_cells c left (diagonal # up # row) (r # rs) =
    (let cell = min (min (left + 1) (up + 1)) (diagonal + (if c \<noteq> r then 1 else 0))
     in cell # lev_cells c cell (up # row) rs)"
| "lev_cells c left row rs = []"

fun lev_rows :: "nat \<Rightarrow> nat list \<Rightarrow> string \<Rightarrow> string \<Rightarrow> nat list" where
  "lev_rows i previous [] right = previous"
| "lev_rows i previous (c # cs) right = lev_rows (Suc i) (i # lev_cells c i previous right) cs right"

definition levenshtein :: "string \<Rightarrow> string \<Rightarrow> nat" where
  "levenshtein left right =
    (if left = right then 0 else if left = [] then length right else if right = [] then length left
     else last (lev_rows 1 [0..<Suc (length right)] left right))"

definition typosquat :: "string \<Rightarrow> string \<Rightarrow> string option" where
  "typosquat ecosystem name =
    (let popular = (case dict_get POPULAR_PACKAGES ecosystem of None \<Rightarrow> [] | Some ps \<Rightarrow> ps); lowered = lower name in
     if lowered \<in> set popular \<or> length lowered < 4 then None
     else List.find (\<lambda>candidate. levenshtein lowered candidate \<le> 2) popular)"

text \<open>\<open>d.get(k)\<close> where an empty text counts as missing.\<close>

definition get_text :: "(string, string) dict option \<Rightarrow> string \<Rightarrow> string option" where
  "get_text j k = (case j of None \<Rightarrow> None | Some d \<Rightarrow> (case dict_get d k of Some v \<Rightarrow> if v = [] then None else Some v | None \<Rightarrow> None))"

definition first_some :: "'a option \<Rightarrow> 'a option \<Rightarrow> 'a option" where
  "first_some a b = (case a of None \<Rightarrow> b | Some x \<Rightarrow> Some x)"

definition package_key :: "package_ref \<Rightarrow> string \<times> string" where
  "package_key item = (pr_ecosystem item, lower (pr_name item))"

definition package_licence :: "package_ref \<Rightarrow> (string, string) dict option \<Rightarrow> string option" where
  "package_licence item j =
    first_some (first_some (get_text j ''licence'') (get_text j ''license'')) (dict_get KNOWN_LICENCES (package_key item))"

definition blocking_reason :: "package_ref \<Rightarrow> (string, string) dict option \<Rightarrow> string option" where
  "blocking_reason item j =
    (let advisory = dict_get VULNERABILITY_ADVISORIES (package_key item); squat = typosquat (pr_ecosystem item) (pr_name item);
         licence = package_licence item j in
     if (case advisory of None \<Rightarrow> False | Some (_, severity) \<Rightarrow> severity \<in> set BLOCKING_VULN_SEVERITIES) then
       Some (''known vulnerability '' @ fst (the advisory) @ '' ('' @ snd (the advisory) @ '')'')
     else if squat \<noteq> None then Some (''typosquat heuristic matched popular package '' @ the squat)
     else if pr_top_level item \<and> j = None then
       Some ''new top-level dependency is missing AGENTS.md justification (licence, maintenance, why the standard library is insufficient)''
     else if pr_top_level item \<and> (case licence of None \<Rightarrow> True | Some l \<Rightarrow> l \<notin> set ALLOWED_LICENCES) then
       Some (''licence '' @ (case licence of None \<Rightarrow> ''None'' | Some l \<Rightarrow> py_repr l) @ '' is incompatible with the project licence policy'')
     else if pr_top_level item \<and> j \<noteq> None \<and> get_text j ''stdlib_insufficient'' = None then
       Some ''new top-level justification does not record why the standard library is insufficient''
     else None)"

definition decide_package :: "justifications \<Rightarrow> nat option \<Rightarrow> package_ref \<Rightarrow> package_decision" where
  "decide_package js delta item =
    (let j = dict_get js (lower (pr_name item)); reason = blocking_reason item j in
     \<lparr>pd_name = pr_name item, pd_version = pr_version item, pd_ecosystem = pr_ecosystem item, pd_top_level = pr_top_level item,
      pd_licence = package_licence item j, pd_maintenance = (if get_text j ''maintenance'' \<noteq> None then ''ok'' else ''unknown''),
      pd_provenance = (if j \<noteq> None then ''justified'' else ''unknown''),
      pd_vulnerabilities = (case dict_get VULNERABILITY_ADVISORIES (package_key item) of None \<Rightarrow> [] | Some (i, _) \<Rightarrow> [i]),
      pd_typosquat_of = typosquat (pr_ecosystem item) (pr_name item), pd_justification = j, pd_transitive_delta = delta,
      pd_status = (if reason \<noteq> None then ''REJECTED'' else ''ADMITTED''), pd_blocking_reason = reason\<rparr>)"

definition introduced_in :: "decoders \<Rightarrow> blobs \<Rightarrow> blobs \<Rightarrow> string \<Rightarrow> package_ref list" where
  "introduced_in dec base proposed path =
    (if \<not> is_dependency_manifest path \<or> is_lockfile path then []
     else let before = parse_manifest dec path (case dict_get base path of None \<Rightarrow> None | Some c \<Rightarrow> c);
              after = parse_manifest dec path (case dict_get proposed path of None \<Rightarrow> None | Some c \<Rightarrow> c)
       in filter (\<lambda>item. (pr_ecosystem item, pr_name item) \<notin> set (map (\<lambda>x. (pr_ecosystem x, pr_name x)) before)) after)"

definition lockfile_delta :: "string list \<Rightarrow> string \<Rightarrow> nat" where
  "lockfile_delta changed unified =
    (if filter is_lockfile changed = [] then 0
     else length (filter (\<lambda>line. strip line \<noteq> [] \<and> \<not> prefix ''+++'' line) (added_lines unified)))"

definition admit_dependencies :: "decoders \<Rightarrow> string list \<Rightarrow> string \<Rightarrow> blobs \<Rightarrow> blobs \<Rightarrow> blobs \<Rightarrow> scan_finding \<times> package_decision list" where
  "admit_dependencies dec changed unified base manifests proposed =
    (let js = parse_justifications [] proposed;
         introduced = concat (map (introduced_in dec base manifests) changed);
         delta = lockfile_delta changed unified;
         decisions = map (\<lambda>item. decide_package js (if pr_top_level item then None else Some delta) item) introduced;
         rejected = filter (\<lambda>p. pd_status p = ''REJECTED'') decisions;
         d = (''transitive_delta'', JInt (int delta)); deferred = (''deferred'', JStr ''live OSV/Grype lookups are not performed'') in
     (if TRANSITIVE_DELTA_LIMIT < delta then
        finding ''dependency_vulnerability'' ''osv'' ''error'' False
          (''Lockfile transitive delta '' @ nat_str delta @ '' exceeds threshold '' @ nat_str TRANSITIVE_DELTA_LIMIT) [d, deferred]
      else if rejected \<noteq> [] then
        finding ''dependency_vulnerability'' ''osv'' ''critical'' False
          (nat_str (length rejected) @ '' newly introduced package(s) failed dependency admission'')
          [(''rejected'', strings (map pd_name rejected)), deferred]
      else finding ''dependency_vulnerability'' ''osv'' ''info'' True
          (if introduced \<noteq> [] then ''No newly introduced package failed admission'' else ''Diff introduces no dependency-manifest packages'')
          [(''introduced'', strings (map pr_name introduced)), d, deferred], decisions))"

section \<open>Bill of materials\<close>

definition sbom_component :: "package_ref \<Rightarrow> json" where
  "sbom_component item =
    JObj ([(''type'', JStr ''library''), (''name'', JStr (pr_name item)), (''version'', JStr (pr_version item)),
      (''bom-ref'', JStr (pr_ecosystem item @ '':'' @ pr_name item @ ''@'' @ pr_version item))] @
      (case dict_get KNOWN_LICENCES (package_key item) of
         None \<Rightarrow> []
       | Some licence \<Rightarrow> [(''licenses'', JList [JObj [(''license'', JObj [(''id'', JStr licence)])]])]))"

fun sbom_components :: "(string \<times> string) list \<Rightarrow> package_ref list \<Rightarrow> json list" where
  "sbom_components seen [] = []"
| "sbom_components seen (item # items) =
    (if (pr_ecosystem item, pr_name item) \<in> set seen then sbom_components seen items
     else sbom_component item # sbom_components ((pr_ecosystem item, pr_name item) # seen) items)"

definition declared_in :: "decoders \<Rightarrow> blobs \<Rightarrow> package_ref list" where
  "declared_in dec manifests =
    concat (map (\<lambda>(path, content). if content = None \<or> is_lockfile path then [] else parse_manifest dec path content)
      (sort_key fst manifests))"

definition generate_sbom :: "decoders \<Rightarrow> blobs \<Rightarrow> (string \<times> json) list \<times> string" where
  "generate_sbom dec manifests =
    (let document =
       [(''bomFormat'', JStr ''CycloneDX''), (''specVersion'', JStr ''1.5''), (''version'', JInt 1),
        (''metadata'', JObj [(''component'', JObj [(''type'', JStr ''application''), (''name'', JStr ''manufactured-product'')])]),
        (''components'', JList (sbom_components [] (declared_in dec manifests)))]
     in (document, sha256_hex (canonical_json (JObj document))))"

definition component_name :: "json \<Rightarrow> string option" where
  "component_name c = (case c of JObj d \<Rightarrow> (case dict_get d ''name'' of Some (JStr name) \<Rightarrow> Some name | _ \<Rightarrow> None) | _ \<Rightarrow> None)"

definition sbom_contains_rejected :: "(string \<times> json) list \<Rightarrow> package_decision list \<Rightarrow> bool" where
  "sbom_contains_rejected document admissions =
    (let rejected = map (\<lambda>p. lower (pd_name p)) (filter (\<lambda>p. pd_status p = ''REJECTED'') admissions) in
     case dict_get document ''components'' of
       Some (JList cs) \<Rightarrow>
         list_ex (\<lambda>c. case component_name c of Some name \<Rightarrow> lower name \<in> set rejected | None \<Rightarrow> False) cs
     | _ \<Rightarrow> False)"

section \<open>The evaluation\<close>

record diff_input =
  di_changed :: "string list"
  di_unified :: string
  di_proposed :: blobs
  di_base_manifests :: blobs
  di_manifests :: blobs
  di_new :: "string list"
  di_taints :: "gate_taint list"
  di_reuse_approved :: bool

definition evaluate_diff :: "decoders \<Rightarrow> diff_input \<Rightarrow> gate_evaluation" where
  "evaluate_diff dec x =
    (let secret = scan_secrets (di_unified x) (di_proposed x);
         static = scan_static (di_unified x);
         forbidden = scan_forbidden_paths (di_changed x);
         headers = scan_licence_headers (di_new x) (di_proposed x);
         taint = scan_donor_taint (di_taints x) (di_reuse_approved x);
         (dep, admissions) = admit_dependencies dec (di_changed x) (di_unified x) (di_base_manifests x) (di_manifests x) (di_proposed x);
         (document, digest) = generate_sbom dec (di_manifests x);
         dep' = (if sbom_contains_rejected document admissions then
             dep\<lparr>sf_severity := ''critical'', sf_blocking := True, sf_passed := False,
               sf_summary := sf_summary dep @ ''; SBOM contains a package this evaluation rejected'',
               sf_details := dict_set ''sbom_gated'' (JBool True) (sf_details dep)\<rparr> else dep);
         findings = [secret, static, forbidden, headers, taint, dep']
     in \<lparr>ge_findings = findings, ge_admissions = admissions, ge_sbom_document = document, ge_sbom_hash = digest,
         ge_passed = (filter (\<lambda>f. sf_blocking f \<and> \<not> sf_passed f) findings = []),
         ge_quarantined = (\<not> sf_passed secret \<and> sf_blocking secret)\<rparr>)"

section \<open>Lines and secrets\<close>

lemma prefix_before: "prefix k (a @ c # b) \<Longrightarrow> c \<notin> set k \<Longrightarrow> prefix k a"
  by (auto simp: prefix_append prefix_Cons)

lemma sublist_around: "sublist k (a @ c # b) \<Longrightarrow> c \<notin> set k \<Longrightarrow> sublist k a \<or> sublist k b"
  by (induction a) (auto simp: sublist_Cons_right prefix_Cons dest: prefix_before)

definition unbroken :: "string \<Rightarrow> bool" where
  "unbroken k \<longleftrightarrow> k \<noteq> [] \<and> list_all (\<lambda>c. \<not> is_line_break c) k"

lemma unbroken_notin: "unbroken k \<Longrightarrow> is_line_break c \<Longrightarrow> c \<notin> set k"
  by (auto simp: unbroken_def list_all_iff)

lemma line_feed_break: "is_line_break (CHR 0x0A)"
  by (simp add: is_line_break_def)

text \<open>What holds no line break stands on one line.\<close>

lemma split_lines_keep:
  assumes "unbroken k" and "after_cr \<Longrightarrow> cur = []" and "sublist k (rev cur @ s)"
  shows "\<exists>l \<in> set (split_lines after_cr cur s). sublist k l"
  using assms(2,3)
proof (induction after_cr cur s rule: split_lines.induct)
  case (1 after_cr cur)
  then show ?case using assms(1) by (auto simp: unbroken_def)
next
  case (2 after_cr cur c s)
  consider (feed) "after_cr" "c = CHR 0x0A" | (break) "\<not> (after_cr \<and> c = CHR 0x0A)" "is_line_break c"
    | (char) "\<not> (after_cr \<and> c = CHR 0x0A)" "\<not> is_line_break c" by blast
  then show ?case
  proof cases
    case feed
    then have "sublist k s" using 2(4,5) sublist_around [of k "[]" c s] unbroken_notin [OF assms(1) line_feed_break] assms(1)
      by (auto simp: unbroken_def)
    then show ?thesis using 2(1) feed by simp
  next
    case break
    then have eq: "split_lines after_cr cur (c # s) = rev cur # split_lines (c = CHR 0x0D) [] s" by auto
    have "sublist k (rev cur) \<or> sublist k s" using sublist_around [OF 2(5) unbroken_notin [OF assms(1) break(2)]] .
    then show ?thesis unfolding eq using 2(2) [OF break] by auto
  next
    case char
    then have eq: "split_lines after_cr cur (c # s) = split_lines False (c # cur) s" by auto
    show ?thesis unfolding eq using 2(3) [OF char] 2(5) by simp
  qed
qed

lemma split_lines_sub: "l \<in> set (split_lines after_cr cur s) \<Longrightarrow> sublist l (rev cur @ s)"
proof (induction after_cr cur s rule: split_lines.induct)
  case (2 after_cr cur c s)
  have tail: "sublist l s \<Longrightarrow> sublist l (rev cur @ c # s)"
    using sublist_order.order_trans [of l s "rev cur @ c # s"] sublist_appendI [of s "rev cur @ [c]" "[]"] by simp
  consider (feed) "after_cr \<and> c = CHR 0x0A" | (break) "\<not> (after_cr \<and> c = CHR 0x0A)" "is_line_break c"
    | (char) "\<not> (after_cr \<and> c = CHR 0x0A)" "\<not> is_line_break c" by blast
  then show ?case
  proof cases
    case feed
    then show ?thesis using 2(1,4) tail by simp
  next
    case break
    then have "split_lines after_cr cur (c # s) = rev cur # split_lines (c = CHR 0x0D) [] s" by auto
    then show ?thesis using 2(2) [OF break] 2(4) tail by auto
  next
    case char
    then have "split_lines after_cr cur (c # s) = split_lines False (c # cur) s" by auto
    then show ?thesis using 2(3) [OF char] 2(4) by simp
  qed
qed (auto split: if_splits)

lemma sublist_lines:
  assumes "unbroken k"
  shows "(\<exists>l \<in> set (splitlines s). sublist k l) \<longleftrightarrow> sublist k s"
  using split_lines_keep [OF assms, of False "[]" s] split_lines_sub [of _ False "[]" s] sublist_order.order_trans
  by (fastforce simp: splitlines_def)

lemma re_search_iff: "re_search m s \<longleftrightarrow> (\<exists>u v. s = u @ v \<and> m v)"
proof (induction s)
  case (Cons c s)
  then show ?case by (auto simp: Cons_eq_append_conv)
qed simp

lemma contains_sublist: "str_contains sub s \<longleftrightarrow> sublist sub s"
  by (simp add: str_contains_iff sublist_def)

text \<open>What the scanner looks for.\<close>

definition PEM_KINDS :: "string list" where
  "PEM_KINDS = [''RSA '', ''OPENSSH '', ''EC '', ''DSA '', '''']"

definition secret_text :: "string \<Rightarrow> bool" where
  "secret_text k \<longleftrightarrow> (\<exists>t. k = ''AKIA'' @ t \<and> length t = 16 \<and> list_all is_upper_digit t)
    \<or> (\<exists>t. k = ''ghp_'' @ t \<and> length t = 36 \<and> list_all is_alnum t)
    \<or> (\<exists>kind \<in> set PEM_KINDS. k = ''-----BEGIN '' @ kind @ ''PRIVATE KEY-----'')"

lemma take_while_run: "n \<le> length (takeWhile P s) \<longleftrightarrow> (\<exists>t v. s = t @ v \<and> length t = n \<and> list_all P t)"
proof
  assume n: "n \<le> length (takeWhile P s)"
  have "(take n (takeWhile P s) @ drop n (takeWhile P s)) @ dropWhile P s = s" by simp
  then have "take n (takeWhile P s) @ drop n (takeWhile P s) @ dropWhile P s = s" unfolding append.assoc .
  moreover have "length (take n (takeWhile P s)) = n" using n by simp
  moreover have "list_all P (take n (takeWhile P s))" by (auto simp: list_all_iff dest!: in_set_takeD set_takeWhileD)
  ultimately show "\<exists>t v. s = t @ v \<and> length t = n \<and> list_all P t" by metis
next
  assume "\<exists>t v. s = t @ v \<and> length t = n \<and> list_all P t"
  then show "n \<le> length (takeWhile P s)" by (auto simp: list_all_iff takeWhile_append)
qed

lemma prefix_run:
  "prefix p s \<and> n \<le> length (takeWhile P (drop (length p) s)) \<longleftrightarrow> (\<exists>t v. s = p @ t @ v \<and> length t = n \<and> list_all P t)"
proof
  assume "\<exists>t v. s = p @ t @ v \<and> length t = n \<and> list_all P t"
  then obtain t v where s: "s = p @ t @ v" "length t = n" "list_all P t" by blast
  then have "drop (length p) s = t @ v" by simp
  then have "n \<le> length (takeWhile P (drop (length p) s))" unfolding take_while_run using s(2,3) by blast
  then show "prefix p s \<and> n \<le> length (takeWhile P (drop (length p) s))" using s(1) by simp
next
  assume "prefix p s \<and> n \<le> length (takeWhile P (drop (length p) s))"
  then obtain u t v where "s = p @ u" "u = t @ v" "length t = n" "list_all P t" unfolding take_while_run by (auto simp: prefix_def)
  then show "\<exists>t v. s = p @ t @ v \<and> length t = n \<and> list_all P t" by blast
qed

lemma secret_at:
  "aws_key s \<or> github_pat s \<or> private_key s \<longleftrightarrow> (\<exists>k v. secret_text k \<and> s = k @ v)"
proof -
  have "aws_key s \<longleftrightarrow> (\<exists>t v. s = ''AKIA'' @ t @ v \<and> length t = 16 \<and> list_all is_upper_digit t)"
    using prefix_run [of "''AKIA''" s 16 is_upper_digit] by (simp add: aws_key_def numeral_eq_Suc)
  moreover have "github_pat s \<longleftrightarrow> (\<exists>t v. s = ''ghp_'' @ t @ v \<and> length t = 36 \<and> list_all is_alnum t)"
    using prefix_run [of "''ghp_''" s 36 is_alnum] by (simp add: github_pat_def numeral_eq_Suc)
  moreover have "private_key s \<longleftrightarrow> (\<exists>kind \<in> set PEM_KINDS. \<exists>v. s = (''-----BEGIN '' @ kind @ ''PRIVATE KEY-----'') @ v)"
    by (auto simp: private_key_def PEM_KINDS_def prefix_def)
  ultimately show ?thesis unfolding secret_text_def by (auto simp del: append.simps) (metis append.assoc)+
qed

lemma secret_hit_iff: "secret_hit_classes line \<noteq> [] \<longleftrightarrow> (\<exists>k. secret_text k \<and> sublist k line)"
proof -
  have "secret_hit_classes line \<noteq> [] \<longleftrightarrow> (\<exists>u v. line = u @ v \<and> (aws_key v \<or> github_pat v \<or> private_key v))"
    by (auto simp: secret_hit_classes_def re_search_iff)
  then show ?thesis unfolding secret_at by (auto simp: sublist_def)
qed

lemma upper_digit_line: "is_alnum c \<Longrightarrow> \<not> is_line_break c" "is_upper_digit c \<Longrightarrow> \<not> is_line_break c"
  by (auto simp: is_alnum_def is_upper_digit_def is_line_break_def Let_def)

lemma secret_unbroken: "secret_text k \<Longrightarrow> unbroken k"
  unfolding secret_text_def
  by (auto simp: unbroken_def PEM_KINDS_def list_all_iff upper_digit_line) (auto simp: is_line_break_def)

text \<open>A secret anywhere in a content is found on one of its lines.\<close>

lemma blob_hits_iff: "blob_hits (p, Some blob) \<noteq> [] \<longleftrightarrow> (\<exists>k. secret_text k \<and> sublist k blob)"
proof -
  have "blob_hits (p, Some blob) \<noteq> [] \<longleftrightarrow> (\<exists>l \<in> set (splitlines blob). \<exists>k. secret_text k \<and> sublist k l)"
    unfolding secret_hit_iff [symmetric] by (auto simp: blob_hits_def)
  then show ?thesis using sublist_lines secret_unbroken by blast
qed

lemma no_blob_hits: "blob_hits (p, None) = []"
  by (simp add: blob_hits_def)

section \<open>The distance is the least number of edits\<close>

text \<open>One edit: a character is put in, taken out or replaced.\<close>

inductive edit :: "string \<Rightarrow> string \<Rightarrow> bool" where
  put: "edit (u @ v) (u @ x # v)"
| take: "edit (u @ x # v) (u @ v)"
| swap: "edit (u @ x # v) (u @ y # v)"

text \<open>The textbook recursion, from the front.\<close>

fun dist :: "string \<Rightarrow> string \<Rightarrow> nat" where
  "dist [] ys = length ys"
| "dist (x # xs) [] = Suc (length xs)"
| "dist (x # xs) (y # ys) = min (min (dist (x # xs) ys + 1) (dist xs (y # ys) + 1)) (dist xs ys + (if x \<noteq> y then 1 else 0))"

lemma dist_Nil [simp]: "dist xs [] = length xs"
  by (cases xs) simp_all

lemma dist_same [simp]: "dist xs xs = 0"
  by (induction xs) simp_all

lemma dist_put: "dist xs (y # ys) \<le> dist xs ys + 1"
  by (cases xs) simp_all

lemma dist_take: "dist (x # xs) ys \<le> dist xs ys + 1"
  by (cases ys) simp_all

lemma dist_cut: "dist xs ys \<le> dist xs (y # ys) + 1"
proof (induction xs)
  case (Cons x xs)
  have "dist (x # xs) ys \<le> dist xs ys + 1" by (rule dist_take)
  with Cons show ?case by (simp add: min_def)
qed simp

lemma dist_swap: "dist xs (z # ys) \<le> dist xs (y # ys) + 1"
proof (induction xs)
  case (Cons x xs)
  have "dist (x # xs) (z # ys) \<le> dist (x # xs) ys + 1" "dist (x # xs) (z # ys) \<le> dist xs (z # ys) + 1"
    "dist (x # xs) (z # ys) \<le> dist xs ys + (if x \<noteq> z then 1 else 0)" by simp_all
  moreover have "dist (x # xs) (y # ys) = min (min (dist (x # xs) ys + 1) (dist xs (y # ys) + 1)) (dist xs ys + (if x \<noteq> y then 1 else 0))" by simp
  ultimately show ?case using Cons by (simp add: min_def del: dist.simps split: if_splits)
qed simp

lemma dist_front:
  assumes "\<And>xs. dist xs t' \<le> dist xs t + 1"
  shows "dist xs (y # t') \<le> dist xs (y # t) + 1"
proof (induction xs)
  case Nil
  show ?case using assms [of "[]"] by simp
next
  case (Cons x xs)
  have "dist (x # xs) (y # t') \<le> dist (x # xs) t' + 1" "dist (x # xs) (y # t') \<le> dist xs (y # t') + 1"
    "dist (x # xs) (y # t') \<le> dist xs t' + (if x \<noteq> y then 1 else 0)" by simp_all
  moreover have "dist (x # xs) (y # t) = min (min (dist (x # xs) t + 1) (dist xs (y # t) + 1)) (dist xs t + (if x \<noteq> y then 1 else 0))" by simp
  ultimately show ?case using Cons assms [of "x # xs"] assms [of xs] by (simp add: min_def del: dist.simps split: if_splits)
qed

lemma dist_step: "edit t t' \<Longrightarrow> dist xs t' \<le> dist xs t + 1"
proof (induction arbitrary: xs rule: edit.induct)
  case (put u v x)
  show ?case by (induction u arbitrary: xs) (use dist_put dist_front in auto)
next
  case (take u x v)
  show ?case by (induction u arbitrary: xs) (use dist_cut dist_front in auto)
next
  case (swap u x v y)
  show ?case by (induction u arbitrary: xs) (use dist_swap dist_front in auto)
qed

lemma dist_lower: "(edit ^^ n) s t \<Longrightarrow> dist s t \<le> n"
proof (induction n arbitrary: t)
  case (Suc n)
  then obtain r where "(edit ^^ n) s r" "edit r t" by auto
  then show ?case using Suc.IH [of r] dist_step [of r t s] by simp
qed simp

lemma edit_Cons: "edit s t \<Longrightarrow> edit (c # s) (c # t)"
  by (induction rule: edit.induct) (use edit.intros [of "c # u" for u] in auto)

lemma edits_Cons: "(edit ^^ n) s t \<Longrightarrow> (edit ^^ n) (c # s) (c # t)"
proof (induction n arbitrary: t)
  case (Suc n)
  then obtain r where "(edit ^^ n) s r" "edit r t" by auto
  then show ?case using relpowp_Suc_I [OF Suc.IH edit_Cons] by blast
qed simp

lemma edit_first: "edit s (c # s)" "edit (c # s) s" "edit (c # s) (d # s)"
  using edit.intros [of "[]"] by auto

lemma edits_from: "edit s r \<Longrightarrow> (edit ^^ n) r t \<Longrightarrow> (edit ^^ Suc n) s t"
  by (metis relpowp_Suc_I2)

lemma dist_reached: "(edit ^^ dist s t) s t"
proof (induction s t rule: dist.induct)
  case (1 ys)
  have "(edit ^^ length ys) [] ys"
  proof (induction ys)
    case (Cons y ys)
    then show ?case using relpowp_Suc_I [OF Cons edit_first(1)] by simp
  qed simp
  then show ?case by simp
next
  case (2 x xs)
  have "(edit ^^ length zs) zs []" for zs
  proof (induction zs)
    case (Cons z zs)
    then show ?case using edits_from [OF edit_first(2)] by simp
  qed simp
  from this [of "x # xs"] show ?case by simp
next
  case (3 x xs y ys)
  have "(edit ^^ (dist (x # xs) ys + 1)) (x # xs) (y # ys)" using relpowp_Suc_I [OF 3(1) edit_first(1)] by simp
  moreover have "(edit ^^ (dist xs (y # ys) + 1)) (x # xs) (y # ys)" using edits_from [OF edit_first(2) 3(2)] by simp
  moreover have "(edit ^^ (dist xs ys + (if x \<noteq> y then 1 else 0))) (x # xs) (y # ys)"
    using edits_Cons [OF 3(3), of y] edits_from [OF edit_first(3) edits_Cons [OF 3(3), of y], of x] by auto
  ultimately show ?case by (simp add: min_def)
qed

lemma dist_least: "dist s t = (LEAST n. (edit ^^ n) s t)"
  by (rule Least_equality [symmetric]) (use dist_reached dist_lower in auto)

text \<open>Edits read from the back.\<close>

lemma edit_rev: "edit s t \<Longrightarrow> edit (rev s) (rev t)"
proof (induction rule: edit.induct)
  case (put u v x)
  show ?case using edit.put [of "rev v" "rev u" x] by simp
next
  case (take u x v)
  show ?case using edit.take [of "rev v" x "rev u"] by simp
next
  case (swap u x v y)
  show ?case using edit.swap [of "rev v" x "rev u" y] by simp
qed

lemma edits_rev: "(edit ^^ n) s t \<Longrightarrow> (edit ^^ n) (rev s) (rev t)"
proof (induction n arbitrary: t)
  case (Suc n)
  then obtain r where "(edit ^^ n) s r" "edit r t" by auto
  then show ?case using relpowp_Suc_I [OF Suc.IH edit_rev] by blast
qed simp

lemma dist_rev: "dist (rev s) (rev t) = dist s t"
proof -
  have "(edit ^^ n) (rev s) (rev t) \<longleftrightarrow> (edit ^^ n) s t" for n
    using edits_rev [of n s t] edits_rev [of n "rev s" "rev t"] by auto
  then show ?thesis by (simp add: dist_least)
qed

text \<open>The reversed prefixes of \<open>right\<close>, over which a row runs.\<close>

fun rprefixes :: "string \<Rightarrow> string \<Rightarrow> string list" where
  "rprefixes acc [] = [acc]"
| "rprefixes acc (r # rs) = acc # rprefixes (r # acc) rs"

lemma rprefixes_hd: "rprefixes acc rs = acc # tl (rprefixes acc rs)"
  by (cases rs) simp_all

lemma rprefixes_last: "last (rprefixes acc rs) = rev rs @ acc"
proof (induction rs arbitrary: acc)
  case (Cons r rs)
  have "rprefixes (r # acc) rs \<noteq> []" using rprefixes_hd [of "r # acc" rs] by (metis list.distinct(1))
  with Cons show ?case by simp
qed simp

lemma rprefixes_length: "map length (rprefixes acc rs) = [length acc..<Suc (length acc + length rs)]"
proof (induction rs arbitrary: acc)
  case (Cons r rs)
  then show ?case using upt_conv_Cons [of "length acc" "Suc (length acc + length (r # rs))"] by simp
qed simp

lemma lev_cells_row:
  "lev_cells c (dist (c # p) acc) (map (dist p) (rprefixes acc rs)) rs = tl (map (dist (c # p)) (rprefixes acc rs))"
proof (induction rs arbitrary: acc)
  case (Cons r rs)
  obtain ps where ps: "rprefixes (r # acc) rs = (r # acc) # ps" using rprefixes_hd by blast
  show ?case using Cons [of "r # acc"] by (simp add: ps Let_def)
qed simp

lemma lev_rows_row:
  "lev_rows (Suc (length p)) (map (dist p) (rprefixes [] right)) cs right = map (dist (rev cs @ p)) (rprefixes [] right)"
proof (induction cs arbitrary: p)
  case (Cons c cs)
  have "Suc (length p) # lev_cells c (Suc (length p)) (map (dist p) (rprefixes [] right)) right = map (dist (c # p)) (rprefixes [] right)"
    using lev_cells_row [of c p "[]" right] rprefixes_hd [of "[]" right] by (metis dist.simps(2) dist_Nil list.simps(9) list.size(4) list.sel(3) plus_1_eq_Suc add.commute length_Cons)
  then show ?case using Cons [of "c # p"] by simp
qed simp

lemma levenshtein_dist: "levenshtein left right = dist left right"
proof -
  have start: "[0..<Suc (length right)] = map (dist []) (rprefixes [] right)"
    using rprefixes_length [of "[]" right] by (simp add: comp_def dist.simps(1) [abs_def])
  have "rprefixes [] right \<noteq> []" using rprefixes_hd by (metis list.distinct(1))
  then have "last (lev_rows 1 [0..<Suc (length right)] left right) = dist (rev left) (rev right)"
    using lev_rows_row [of "[]" right left] rprefixes_last [of "[]" right] unfolding start by (simp add: last_map)
  then show ?thesis by (simp add: levenshtein_def dist_rev del: upt_Suc)
qed

section \<open>What a passing finding says\<close>

definition secret_free :: "string \<Rightarrow> bool" where
  "secret_free s \<longleftrightarrow> (\<nexists>k. secret_text k \<and> sublist k s)"

definition blob_clean :: "string \<times> string option \<Rightarrow> bool" where
  "blob_clean pb \<longleftrightarrow> (case snd pb of None \<Rightarrow> True | Some blob \<Rightarrow> secret_free blob)"

lemma finding_simps [simp]:
  "sf_passed (finding g t s p m ds) = p" "sf_blocking (finding g t s p m ds)"
  by (simp_all add: finding_def)

lemma secrets_pass:
  "sf_passed (scan_secrets unified proposed) \<longleftrightarrow>
    (\<forall>line \<in> set (added_lines unified). secret_free line) \<and> (\<forall>p blob. (p, Some blob) \<in> set proposed \<longrightarrow> secret_free blob)"
proof -
  have line: "secret_hit_classes line = [] \<longleftrightarrow> secret_free line" for line
    using secret_hit_iff [of line] by (auto simp: secret_free_def)
  have blob: "blob_hits (p, c) = [] \<longleftrightarrow> (\<forall>blob. c = Some blob \<longrightarrow> secret_free blob)" for p c
    using blob_hits_iff [of p] by (cases c) (auto simp: no_blob_hits secret_free_def)
  have "sf_passed (scan_secrets unified proposed) \<longleftrightarrow>
      (\<forall>line \<in> set (added_lines unified). secret_hit_classes line = []) \<and> (\<forall>pc \<in> set proposed. blob_hits pc = [])"
    by (auto simp: scan_secrets_def Let_def)
  also have "(\<forall>pc \<in> set proposed. blob_hits pc = []) \<longleftrightarrow> (\<forall>p blob. (p, Some blob) \<in> set proposed \<longrightarrow> secret_free blob)"
    unfolding Ball_def split_paired_All blob by blast
  finally show ?thesis unfolding line .
qed

definition static_clean :: "string \<Rightarrow> bool" where
  "static_clean line \<longleftrightarrow> \<not> (str_contains ''eval('' (strip line) \<and> str_contains ''compile('' (strip line))
    \<and> \<not> (str_contains ''subprocess'' (strip line) \<and> str_contains ''shell=True'' (strip line))"

lemma static_pass: "sf_passed (scan_static unified) \<longleftrightarrow> list_all static_clean (added_lines unified)"
  by (auto simp: scan_static_def Let_def static_hits_def static_clean_def list_all_iff)

lemma forbidden_pass: "sf_passed (scan_forbidden_paths changed) \<longleftrightarrow> list_all (\<lambda>p. \<not> is_forbidden p) changed"
  by (auto simp: scan_forbidden_paths_def Let_def filter_empty_conv list_all_iff)

lemma headers_pass: "sf_passed (scan_licence_headers new proposed) \<longleftrightarrow> list_all (\<lambda>p. \<not> lacks_header proposed p) new"
  by (auto simp: scan_licence_headers_def Let_def filter_empty_conv list_all_iff)

text \<open>The taint rule: no forbidden class, and reusable ones only once approved.\<close>

definition taint_permits :: "gate_taint list \<Rightarrow> bool \<Rightarrow> bool" where
  "taint_permits taints approved \<longleftrightarrow> list_all (\<lambda>t. gt_source_class t \<notin> set FORBIDDEN_IMPLEMENTATION_CLASSES
      \<and> (gt_source_class t \<in> set IMPLEMENTATION_TAINT_CLASSES \<longrightarrow> approved)) taints"

lemma taint_pass: "sf_passed (scan_donor_taint taints approved) \<longleftrightarrow> taint_permits taints approved"
  by (auto simp: scan_donor_taint_def Let_def taint_permits_def filter_empty_conv list_all_iff)

definition introduced_packages :: "decoders \<Rightarrow> diff_input \<Rightarrow> package_ref list" where
  "introduced_packages dec x = concat (map (introduced_in dec (di_base_manifests x) (di_manifests x)) (di_changed x))"

definition justification_for :: "diff_input \<Rightarrow> package_ref \<Rightarrow> (string, string) dict option" where
  "justification_for x item = dict_get (parse_justifications [] (di_proposed x)) (lower (pr_name item))"

abbreviation dependencies :: "decoders \<Rightarrow> diff_input \<Rightarrow> scan_finding \<times> package_decision list" where
  "dependencies dec x \<equiv>
    admit_dependencies dec (di_changed x) (di_unified x) (di_base_manifests x) (di_manifests x) (di_proposed x)"

lemma admissions_eq:
  "snd (dependencies dec x) = map (\<lambda>item. decide_package (parse_justifications [] (di_proposed x))
    (if pr_top_level item then None else Some (lockfile_delta (di_changed x) (di_unified x))) item) (introduced_packages dec x)"
  by (simp add: admit_dependencies_def Let_def introduced_packages_def)

lemma decided_status: "pd_status (decide_package js delta item) = ''REJECTED'' \<longleftrightarrow> blocking_reason item (dict_get js (lower (pr_name item))) \<noteq> None"
  by (simp add: decide_package_def Let_def)

lemma dependencies_pass:
  "sf_passed (fst (dependencies dec x)) \<longleftrightarrow> lockfile_delta (di_changed x) (di_unified x) \<le> TRANSITIVE_DELTA_LIMIT
    \<and> list_all (\<lambda>item. blocking_reason item (justification_for x item) = None) (introduced_packages dec x)"
  by (auto simp: admit_dependencies_def Let_def introduced_packages_def justification_for_def filter_empty_conv list_all_iff decided_status)

lemma sbom_rejected:
  assumes "\<forall>p \<in> set admissions. pd_status p \<noteq> ''REJECTED''"
  shows "\<not> sbom_contains_rejected document admissions"
proof -
  have "filter (\<lambda>p. pd_status p = ''REJECTED'') admissions = []" using assms by (simp add: filter_empty_conv)
  then show ?thesis unfolding sbom_contains_rejected_def Let_def
    by (auto simp: list_ex_iff split: option.splits json.splits)
qed

lemma sbom_blocks: "sf_passed (fst (dependencies dec x)) \<Longrightarrow> \<not> sbom_contains_rejected document (snd (dependencies dec x))"
  unfolding dependencies_pass admissions_eq
  by (rule sbom_rejected) (auto simp: decided_status justification_for_def list_all_iff)

lemma dependencies_blocking: "sf_blocking (fst (dependencies dec x))"
  by (simp add: admit_dependencies_def Let_def)

lemma scans_blocking [simp]:
  "sf_blocking (scan_secrets u p)" "sf_blocking (scan_static u)" "sf_blocking (scan_forbidden_paths c)"
  "sf_blocking (scan_licence_headers n p)" "sf_blocking (scan_donor_taint t a)"
  by (simp_all add: scan_secrets_def scan_static_def scan_forbidden_paths_def scan_licence_headers_def scan_donor_taint_def Let_def)

lemma evaluation_parts:
  "ge_passed (evaluate_diff dec x) \<longleftrightarrow> sf_passed (scan_secrets (di_unified x) (di_proposed x)) \<and> sf_passed (scan_static (di_unified x))
    \<and> sf_passed (scan_forbidden_paths (di_changed x)) \<and> sf_passed (scan_licence_headers (di_new x) (di_proposed x))
    \<and> sf_passed (scan_donor_taint (di_taints x) (di_reuse_approved x)) \<and> sf_passed (fst (dependencies dec x))"
  "ge_quarantined (evaluate_diff dec x) \<longleftrightarrow> \<not> sf_passed (scan_secrets (di_unified x) (di_proposed x))"
  "ge_admissions (evaluate_diff dec x) = snd (dependencies dec x)"
  using sbom_blocks [of dec x] dependencies_blocking [of dec x]
  by (auto simp: evaluate_diff_def Let_def split: prod.splits)

section \<open>Properties\<close>


text \<open>
  C19. Secrets are quarantined exactly: the diff is quarantined if and only if an added line or a proposed content
  contains an access key, a token or the header of a private key, at any place.
\<close>

theorem quarantine_exact:
  "ge_quarantined (evaluate_diff dec x) \<longleftrightarrow>
    (\<exists>k. secret_text k \<and> ((\<exists>line. line \<in> set (added_lines (di_unified x)) \<and> sublist k line)
      \<or> (\<exists>p blob. (p, Some blob) \<in> set (di_proposed x) \<and> sublist k blob)))"
  unfolding evaluation_parts secrets_pass by (auto simp: secret_free_def)

text \<open>
  C20. The typosquat test is what it means to be. The table of distances computes the least number of single
  characters put in, taken out or replaced that lead from one name to the other, and a name is suspect
  exactly when it has at least four characters, is not itself popular, and is at most two edits from a
  popular name of its ecosystem.
\<close>

theorem typosquat_exact:
  "levenshtein left right = (LEAST n. (edit ^^ n) left right)
    \<and> (typosquat ecosystem name \<noteq> None \<longleftrightarrow>
        (\<exists>popular candidate n. dict_get POPULAR_PACKAGES ecosystem = Some popular \<and> lower name \<notin> set popular \<and> 4 \<le> length name
          \<and> candidate \<in> set popular \<and> n \<le> 2 \<and> (edit ^^ n) (lower name) candidate))"
proof -
  have near: "levenshtein s t \<le> 2 \<longleftrightarrow> (\<exists>n \<le> 2. (edit ^^ n) s t)" for s t
    unfolding levenshtein_dist using dist_reached [of s t] dist_lower [of _ s t] order_trans by blast
  have "typosquat ecosystem name \<noteq> None \<longleftrightarrow>
      (\<exists>popular candidate. dict_get POPULAR_PACKAGES ecosystem = Some popular \<and> lower name \<notin> set popular \<and> 4 \<le> length name
          \<and> candidate \<in> set popular \<and> levenshtein (lower name) candidate \<le> 2)"
  proof (cases "dict_get POPULAR_PACKAGES ecosystem")
    case (Some popular)
    then show ?thesis
      using find_None_iff [of "\<lambda>candidate. levenshtein (lower name) candidate \<le> 2" popular]
      by (simp add: typosquat_def Let_def lower_def del: not_None_eq)
  qed (simp add: typosquat_def)
  then show ?thesis unfolding near levenshtein_dist [of left right] dist_least by blast
qed

text \<open>Every parser returns top-level packages.\<close>

lemma parsed_line_top: "parse_requirement_line p l e = Some item \<Longrightarrow> pr_top_level item"
  by (auto simp: parse_requirement_line_def Let_def split: if_splits)

lemma map_filter_in: "y \<in> set (List.map_filter f xs) \<longleftrightarrow> (\<exists>x \<in> set xs. f x = Some y)"
  by (force simp: List.map_filter_def)

lemma pyproject_top: "item \<in> set (parse_pyproject dec p blob) \<Longrightarrow> pr_top_level item"
proof -
  have "pr_top_level item" if "(case x of JStr line \<Rightarrow> parse_requirement_line p line ''pypi'' | _ \<Rightarrow> None) = Some item" for x
    using that by (cases x) (auto dest: parsed_line_top)
  then show "item \<in> set (parse_pyproject dec p blob) \<Longrightarrow> pr_top_level item"
    by (auto simp: parse_pyproject_def map_filter_in split: option.splits json.splits)
qed

lemma parsed_top: "item \<in> set (parse_manifest dec p c) \<Longrightarrow> pr_top_level item"
  by (auto simp: parse_manifest_def parse_requirements_def parse_package_json_def npm_refs_def map_filter_in Let_def dest!: pyproject_top
      split: option.splits if_splits json.splits dest: parsed_line_top)

lemma introduced_top: "item \<in> set (introduced_packages dec x) \<Longrightarrow> pr_top_level item"
  by (auto simp: introduced_packages_def introduced_in_def Let_def split: if_splits dest: parsed_top)

lemma no_blocking_reason:
  assumes "blocking_reason item j = None" and "pr_top_level item"
  shows "dict_get VULNERABILITY_ADVISORIES (package_key item) = Some (i, severity) \<Longrightarrow> severity \<notin> set BLOCKING_VULN_SEVERITIES"
    "typosquat (pr_ecosystem item) (pr_name item) = None" "\<exists>l. package_licence item j = Some l \<and> l \<in> set ALLOWED_LICENCES"
    "get_text j ''stdlib_insufficient'' \<noteq> None"
  using assms by (auto simp: blocking_reason_def Let_def get_text_def split: if_splits option.splits)

text \<open>
  C21. What is admitted is justified. An introduced package that the evaluation admits has no advisory of
  blocking severity, is no typosquat, has an allowed licence, declared or known, and comes with a
  justification that says why the standard library is not enough.
\<close>

theorem admitted_justified:
  assumes "p \<in> set (ge_admissions (evaluate_diff dec x))" and "pd_status p = ''ADMITTED''"
  shows "(\<nexists>i severity. dict_get VULNERABILITY_ADVISORIES (pd_ecosystem p, lower (pd_name p)) = Some (i, severity)
        \<and> severity \<in> set BLOCKING_VULN_SEVERITIES)
    \<and> typosquat (pd_ecosystem p) (pd_name p) = None
    \<and> (\<exists>l. pd_licence p = Some l \<and> l \<in> set ALLOWED_LICENCES)
    \<and> (\<exists>j reason. dict_get (parse_justifications [] (di_proposed x)) (lower (pd_name p)) = Some j
        \<and> dict_get j ''stdlib_insufficient'' = Some reason \<and> reason \<noteq> [])"
proof -
  let ?js = "parse_justifications [] (di_proposed x)"
  obtain item delta where i: "item \<in> set (introduced_packages dec x)" "p = decide_package ?js delta item"
    using assms(1) unfolding evaluation_parts admissions_eq by auto
  let ?j = "dict_get ?js (lower (pr_name item))"
  have none: "blocking_reason item ?j = None" using assms(2) unfolding i(2) by (auto simp: decide_package_def Let_def split: if_splits)
  note facts = no_blocking_reason [OF none introduced_top [OF i(1)]]
  have p: "pd_ecosystem p = pr_ecosystem item" "pd_name p = pr_name item" "pd_licence p = package_licence item ?j"
    unfolding i(2) by (simp_all add: decide_package_def Let_def)
  have "\<exists>j reason. ?j = Some j \<and> dict_get j ''stdlib_insufficient'' = Some reason \<and> reason \<noteq> []"
    using facts(4) by (auto simp: get_text_def split: option.splits if_splits)
  then show ?thesis unfolding p using facts(1,2,3) by (auto simp: package_key_def)
qed

definition sample_decoders :: decoders where
  "sample_decoders = \<lparr>toml_loads = (\<lambda>_. None), json_loads = (\<lambda>_. None)\<rparr>"

text \<open>A diff that declares \<open>httpx\<close> and justifies it.\<close>

definition sample_diff :: diff_input where
  "sample_diff = \<lparr>di_changed = [''requirements.txt''], di_unified = ''+httpx'',
     di_proposed = [(''requirements.txt'', Some ''httpx''),
       (''DEPENDENCY_JUSTIFICATION.md'', Some (''# httpx'' @ [CHR 0x0A] @ ''stdlib_insufficient: no pooling''))],
     di_base_manifests = [(''requirements.txt'', None)], di_manifests = [(''requirements.txt'', Some ''httpx'')], di_new = [''requirements.txt''],
     di_taints = [], di_reuse_approved = False\<rparr>"

lemma sample_admission:
  "map (\<lambda>p. (pd_name p, pd_ecosystem p, pd_status p)) (ge_admissions (evaluate_diff sample_decoders sample_diff)) = [(''httpx'', ''pypi'', ''ADMITTED'')]"
  unfolding evaluation_parts by code_simp

theorem admitted_justified_witness:
  "\<exists>p. p \<in> set (ge_admissions (evaluate_diff sample_decoders sample_diff)) \<and> pd_name p = ''httpx'' \<and> typosquat (pd_ecosystem p) (pd_name p) = None"
proof -
  obtain p where p: "p \<in> set (ge_admissions (evaluate_diff sample_decoders sample_diff))" "pd_name p = ''httpx''" "pd_status p = ''ADMITTED''"
    using sample_admission by (auto simp: map_eq_Cons_conv)
  then show ?thesis using admitted_justified [OF p(1,3)] by blast
qed

text \<open>Two blind spots of the line scan, for the record: a content line that starts with two plus signs is not an added line.\<close>

lemma plus_line_unseen: "added_lines ''+++i; eval(compile(x))'' = []"
  by code_simp
end
