(* ===== verification/WriteScopes.thy ===== *)
theory WriteScopes
  imports Leases
begin

text \<open>
  \<open>engine/integration/scope.py\<close> and the lease service of \<open>engine/integration/service.py\<close>: write scopes. A task
  reserves the paths it may write to; patterns ending in a glob stand for the directory before it. An
  exclusive lease is refused while another task of the project holds an exclusive lease that overlaps it.
  Proved here: no path is ever in the exclusively held scopes of two tasks of a project, whatever calls follow
  one another, and a lease keeps its patterns and stays ended once it has ended.
\<close>

section \<open>Scopes\<close>

definition GLOB_SUFFIXES :: "string list" where "GLOB_SUFFIXES = [''/**'', ''/*'']"

fun cut_suffix :: "string list \<Rightarrow> string \<Rightarrow> string" where
  "cut_suffix [] p = p"
| "cut_suffix (x # xs) p = (if suffix x p then take (length p - length x) p else cut_suffix xs p)"

definition strip_glob_suffix :: "string \<Rightarrow> string" where
  "strip_glob_suffix pattern = cut_suffix GLOB_SUFFIXES (slashes pattern)"

definition normalise_patterns :: "string list \<Rightarrow> string list" where
  "normalise_patterns patterns = map strip_glob_suffix patterns"

definition leases_overlap :: "string list \<Rightarrow> string list \<Rightarrow> bool" where
  "leases_overlap left right = scopes_overlap (normalise_patterns left) (normalise_patterns right)"

definition lease_path_in_scope :: "string \<Rightarrow> string list \<Rightarrow> bool" where
  "lease_path_in_scope path patterns = in_scope path (normalise_patterns patterns)"

section \<open>Leases\<close>

text \<open>\<open>engine/contracts/write_scope_lease.py\<close>: what is fixed when the lease is reserved, and what moves.\<close>

record reserved_scope =
  wl_id :: uuid
  wl_tenant :: uuid
  wl_project :: uuid
  wl_mission :: uuid
  wl_task :: uuid
  wl_patterns :: "string list"
  wl_exclusive :: bool
  wl_acquired_at :: time
  wl_expires_at :: time
  wl_created_at :: time

record write_scope_lease = reserved_scope +
  wl_status :: string
  wl_released_at :: "time option"
  wl_updated_at :: time

abbreviation reserved_part :: "write_scope_lease \<Rightarrow> reserved_scope" where
  "reserved_part \<equiv> reserved_scope.truncate"

record scope_db = lease_db +
  write_leases :: "(uuid, write_scope_lease) dict"

definition DEFAULT_SCOPE_TTL :: time where "DEFAULT_SCOPE_TTL = 86400000000"

definition HELD_SCOPE_STATUSES :: "string list" where "HELD_SCOPE_STATUSES = [''RESERVED'', ''ACTIVE'']"

subsection \<open>Repository\<close>

definition insert_write_lease :: "write_scope_lease \<Rightarrow> 'x scope_db_scheme \<Rightarrow> unit result \<times> 'x scope_db_scheme" where
  "insert_write_lease l d =
    (case table_insert ''write_scope_leases'' (wl_id l) l (write_leases d) of
       Inl err \<Rightarrow> (Inl err, d)
     | Inr t \<Rightarrow> (Inr (), d\<lparr>write_leases := t\<rparr>))"

definition held_for_project :: "uuid \<Rightarrow> 'x scope_db_scheme \<Rightarrow> write_scope_lease list" where
  "held_for_project project d = filter (\<lambda>l. wl_project l = project \<and> wl_status l \<in> {''RESERVED'', ''ACTIVE''}) (dict_values (write_leases d))"

definition held_for_task :: "uuid \<Rightarrow> 'x scope_db_scheme \<Rightarrow> write_scope_lease list" where
  "held_for_task task d = filter (\<lambda>l. wl_task l = task \<and> wl_status l \<in> {''RESERVED'', ''ACTIVE''}) (dict_values (write_leases d))"

definition require_write_lease :: "uuid \<Rightarrow> 'x scope_db_scheme \<Rightarrow> write_scope_lease result" where
  "require_write_lease i d =
    (case dict_get (write_leases d) i of
       None \<Rightarrow> Inl (DdeError ''POLICY_DENIED'' ''Unknown write scope lease'' False [])
     | Some l \<Rightarrow> Inr l)"

subsection \<open>Reserving\<close>

record acquire_args =
  aq_tenant :: uuid
  aq_project :: uuid
  aq_mission :: uuid
  aq_task :: uuid
  aq_patterns :: "string list"
  aq_exclusive :: bool
  aq_ttl :: time

definition conflicting_lease :: "acquire_args \<Rightarrow> write_scope_lease list \<Rightarrow> write_scope_lease option" where
  "conflicting_lease a rows =
    List.find (\<lambda>other. \<not> (wl_task other = aq_task a \<or> \<not> wl_exclusive other) \<and> leases_overlap (aq_patterns a) (wl_patterns other)) rows"

definition scope_conflict :: "acquire_args \<Rightarrow> write_scope_lease \<Rightarrow> dde_error" where
  "scope_conflict a other =
    DdeError ''WRITE_SCOPE_CONFLICT'' ''Requested write scope overlaps a lease another task already holds in this project'' False
      [(''task_id'', JStr (aq_task a)), (''conflicting_task_id'', JStr (wl_task other)),
       (''conflicting_lease_id'', JStr (wl_id other)), (''scope_patterns'', JList (map JStr (aq_patterns a))),
       (''held_scope_patterns'', JList (map JStr (wl_patterns other)))]"

definition reserved_lease :: "acquire_args \<Rightarrow> uuid \<Rightarrow> time \<Rightarrow> write_scope_lease" where
  "reserved_lease a i now =
    \<lparr>wl_id = i, wl_tenant = aq_tenant a, wl_project = aq_project a, wl_mission = aq_mission a, wl_task = aq_task a,
     wl_patterns = aq_patterns a, wl_exclusive = aq_exclusive a, wl_acquired_at = now, wl_expires_at = now + aq_ttl a,
     wl_created_at = now, wl_status = ''RESERVED'', wl_released_at = None, wl_updated_at = now\<rparr>"

definition scope_event :: "string \<Rightarrow> write_scope_lease \<Rightarrow> (string \<times> json) list \<Rightarrow> event_args" where
  "scope_event ty l payload =
    \<lparr>ea_type = ty, ea_aggregate_type = ''write_scope_lease'', ea_aggregate_id = wl_id l, ea_tenant = wl_tenant l,
     ea_project = wl_project l, ea_payload = payload, ea_mission = Some (wl_mission l), ea_task = Some (wl_task l),
     ea_correlation = None, ea_causation = None\<rparr>"

definition write_reserved :: "acquire_args \<Rightarrow> 'x scope_db_scheme \<Rightarrow> write_scope_lease result \<times> 'x scope_db_scheme" where
  "write_reserved a d =
    (let (now, d1) = read_clock d; (i, d2) = draw_id d1; l = reserved_lease a i now
     in and_then (insert_write_lease l)
          (\<lambda>_. and_then (append_event (scope_event ''WriteScopeLeaseReserved'' l
             [(''scope_patterns'', JList (map JStr (aq_patterns a))), (''exclusive'', JBool (aq_exclusive a))]))
            (\<lambda>_. Pair (Inr l))) d2)"

definition acquire_in :: "acquire_args \<Rightarrow> 'x scope_db_scheme \<Rightarrow> write_scope_lease result \<times> 'x scope_db_scheme" where
  "acquire_in a d =
    (case List.find (\<lambda>e. wl_patterns e = aq_patterns a \<and> wl_exclusive e = aq_exclusive a) (held_for_task (aq_task a) d) of
       Some existing \<Rightarrow> (Inr existing, d)
     | None \<Rightarrow>
         (case (if aq_exclusive a then conflicting_lease a (held_for_project (aq_project a) d) else None) of
            Some other \<Rightarrow> (Inl (scope_conflict a other), d)
          | None \<Rightarrow> write_reserved a d))"

definition acquire :: "acquire_args \<Rightarrow> 'x scope_db_scheme \<Rightarrow> write_scope_lease result \<times> 'x scope_db_scheme" where
  "acquire a = transact (acquire_in a)"

subsection \<open>Moving on\<close>

definition moved_scope :: "string \<Rightarrow> time \<Rightarrow> write_scope_lease \<Rightarrow> write_scope_lease" where
  "moved_scope st now l =
    l\<lparr>wl_status := st, wl_updated_at := now, wl_released_at := (if st \<in> {''RELEASED'', ''EXPIRED''} then Some now else wl_released_at l)\<rparr>"

definition transition_write_in :: "uuid \<Rightarrow> string \<Rightarrow> 'x scope_db_scheme \<Rightarrow> write_scope_lease result \<times> 'x scope_db_scheme" where
  "transition_write_in i target d =
    (case require_write_lease i d of
      Inl err \<Rightarrow> (Inl err, d)
    | Inr current \<Rightarrow>
        (case transition (wl_status current) target WRITE_SCOPE_LEASE_TRANSITIONS of
           Inl err \<Rightarrow> (Inl err, d)
         | Inr st \<Rightarrow>
             let (now, d1) = read_clock d;
                 d2 = d1\<lparr>write_leases := table_update (wl_id current) (moved_scope st now) (write_leases d1)\<rparr>
             in if wl_id current \<notin> set (dict_keys (write_leases d1)) then
                  (Inl (DdeError ''VERSION_CONFLICT'' ''Unknown write scope lease'' False [(''lease_id'', JStr (wl_id current))]), d1)
                else (case require_write_lease (wl_id current) d2 of
                    Inl err \<Rightarrow> (Inl err, d2)
                  | Inr updated \<Rightarrow>
                      and_then (append_event (scope_event ''WriteScopeLeaseTransitioned'' updated
                          [(''from'', JStr (wl_status current)), (''to'', JStr (wl_status updated))]))
                        (\<lambda>_. Pair (Inr updated)) d2)))"

definition transition_write_lease :: "uuid \<Rightarrow> string \<Rightarrow> 'x scope_db_scheme \<Rightarrow> write_scope_lease result \<times> 'x scope_db_scheme" where
  "transition_write_lease i target = transact (transition_write_in i target)"

definition activate_write_lease :: "write_scope_lease \<Rightarrow> 'x scope_db_scheme \<Rightarrow> write_scope_lease result \<times> 'x scope_db_scheme" where
  "activate_write_lease l = transition_write_lease (wl_id l) ''ACTIVE''"

definition release_write_lease :: "write_scope_lease \<Rightarrow> string \<Rightarrow> 'x scope_db_scheme \<Rightarrow> write_scope_lease result \<times> 'x scope_db_scheme" where
  "release_write_lease l target = transition_write_lease (wl_id l) target"

datatype scope_op =
    ScopeLease lease_op
  | Acquire acquire_args
  | Activate write_scope_lease
  | Release write_scope_lease string

fun scope_step :: "scope_op \<Rightarrow> 'x scope_db_scheme \<Rightarrow> 'x scope_db_scheme" where
  "scope_step (ScopeLease op) d = lease_step op d"
| "scope_step (Acquire a) d = snd (acquire a d)"
| "scope_step (Activate l) d = snd (activate_write_lease l d)"
| "scope_step (Release l target) d = snd (release_write_lease l target d)"

definition scope_run :: "scope_op list \<Rightarrow> 'x scope_db_scheme \<Rightarrow> 'x scope_db_scheme" where
  "scope_run = service_run scope_step"

section \<open>Overlap\<close>

text \<open>Two scopes that share a path overlap.\<close>

lemma overlap_shared:
  assumes "lease_path_in_scope path left" and "lease_path_in_scope path right"
  shows "leases_overlap left right"
proof -
  obtain a b where "a \<in> set (normalise_patterns left)" "prefix (path_of a) (path_of path)"
      "b \<in> set (normalise_patterns right)" "prefix (path_of b) (path_of path)"
    using assms by (auto simp: lease_path_in_scope_def in_scope_iff)
  then show ?thesis unfolding leases_overlap_def scopes_overlap_iff using prefix_same_cases by blast
qed

lemma overlap_sym: "leases_overlap left right \<longleftrightarrow> leases_overlap right left"
  unfolding leases_overlap_def scopes_overlap_iff by blast

section \<open>Invariant\<close>

interpretation scope_rows: row_table write_leases "\<lambda>t d. d\<lparr>write_leases := t\<rparr>" wl_id
  by unfold_locales simp_all

definition scope_held :: "write_scope_lease \<Rightarrow> bool" where
  "scope_held l \<longleftrightarrow> wl_status l \<in> set HELD_SCOPE_STATUSES"

text \<open>Two leases that may not both be held exclusively.\<close>

definition compatible :: "write_scope_lease \<Rightarrow> write_scope_lease \<Rightarrow> bool" where
  "compatible a b \<longleftrightarrow> \<not> (scope_held a \<and> scope_held b \<and> wl_exclusive a \<and> wl_exclusive b \<and> wl_project a = wl_project b
    \<and> wl_task a \<noteq> wl_task b \<and> leases_overlap (wl_patterns a) (wl_patterns b))"

definition scopes_apart :: "(uuid, write_scope_lease) dict \<Rightarrow> bool" where
  "scopes_apart t \<longleftrightarrow> (\<forall>i j a b. dict_get t i = Some a \<longrightarrow> dict_get t j = Some b \<longrightarrow> compatible a b)"

definition scope_ok :: "'x scope_db_scheme \<Rightarrow> bool" where
  "scope_ok d \<longleftrightarrow> lease_ok d \<and> table_ok write_leases wl_id d \<and> scopes_apart (write_leases d)"

lemma scope_okD:
  assumes "scope_ok d"
  shows "lease_ok d" "table_ok write_leases wl_id d" "scopes_apart (write_leases d)" "log_ok d" "keyed wl_id (write_leases d)"
  using assms by (simp_all add: scope_ok_def table_ok_def)

lemma compatible_sym: "compatible a b \<longleftrightarrow> compatible b a"
  unfolding compatible_def using overlap_sym [of "wl_patterns a"] by auto

lemma compatible_own: "wl_task a = wl_task b \<Longrightarrow> compatible a b"
  by (simp add: compatible_def)

lemma scopes_apart_set:
  assumes "scopes_apart t" and "\<And>j b. dict_get t j = Some b \<Longrightarrow> j \<noteq> i \<Longrightarrow> compatible a b"
  shows "scopes_apart (dict_set i a t)"
  unfolding scopes_apart_def
proof (intro allI impI)
  fix j k b c assume "dict_get (dict_set i a t) j = Some b" "dict_get (dict_set i a t) k = Some c"
  then show "compatible b c"
    using assms(1) assms(2) [of j] assms(2) [of k] compatible_sym [of b a] compatible_own [of a a]
    unfolding scopes_apart_def by (auto simp: dict_get_set split: if_splits)
qed

definition scope_moves :: "string \<Rightarrow> string \<Rightarrow> bool" where
  "scope_moves s t \<longleftrightarrow> t \<in> set (succs WRITE_SCOPE_LEASE_TRANSITIONS s)"

definition scope_le :: "write_scope_lease \<Rightarrow> write_scope_lease \<Rightarrow> bool" where
  "scope_le l l' \<longleftrightarrow> reserved_part l' = reserved_part l \<and> scope_moves\<^sup>*\<^sup>* (wl_status l) (wl_status l')"

definition scopes_le :: "(uuid, write_scope_lease) dict \<Rightarrow> (uuid, write_scope_lease) dict \<Rightarrow> bool" where
  "scopes_le t t' \<longleftrightarrow> (\<forall>i l. dict_get t i = Some l \<longrightarrow> (\<exists>l'. dict_get t' i = Some l' \<and> scope_le l l'))"

lemma scope_le_refl [simp]: "scope_le l l"
  by (simp add: scope_le_def)

lemma scope_le_trans: "scope_le a b \<Longrightarrow> scope_le b c \<Longrightarrow> scope_le a c"
  by (auto simp: scope_le_def)

lemma scopes_le_refl [simp]: "scopes_le t t"
  unfolding scopes_le_def by (blast intro: scope_le_refl)

lemma scopes_le_trans: "scopes_le a b \<Longrightarrow> scopes_le b c \<Longrightarrow> scopes_le a c"
  unfolding scopes_le_def by (meson scope_le_trans)

lemma scopes_le_set: "(\<And>l. dict_get t i = Some l \<Longrightarrow> scope_le l l') \<Longrightarrow> scopes_le t (dict_set i l' t)"
  unfolding scopes_le_def by (auto simp: dict_get_set)

lemma reserved_fields:
  assumes "reserved_part l' = reserved_part l"
  shows "wl_id l' = wl_id l" "wl_task l' = wl_task l" "wl_project l' = wl_project l" "wl_exclusive l' = wl_exclusive l"
    "wl_patterns l' = wl_patterns l"
  using assms by (simp_all add: reserved_scope.truncate_def)

lemma scope_final: "scope_le l l' \<Longrightarrow> \<not> scope_held l \<Longrightarrow> wl_status l' = wl_status l"
  unfolding scope_le_def
  by (erule conjE, erule converse_rtranclpE)
    (auto simp: scope_moves_def scope_held_def HELD_SCOPE_STATUSES_def WRITE_SCOPE_LEASE_TRANSITIONS_def succs_def split: if_splits)

text \<open>A lease that moves on keeps out of the way of the others.\<close>

lemma scope_le_compatible:
  assumes "scope_le a a'" and "compatible a b"
  shows "compatible a' b"
proof -
  have "scope_held a' \<Longrightarrow> scope_held a" using scope_final [OF assms(1)] unfolding scope_held_def by metis
  then show ?thesis
    using assms(2) reserved_fields [of a' a] assms(1) unfolding compatible_def scope_le_def by auto
qed

section \<open>What a call may do\<close>

definition scoped :: "'x scope_db_scheme \<Rightarrow> 'x scope_db_scheme \<Rightarrow> bool" where
  "scoped d d' \<longleftrightarrow> scope_ok d' \<and> scopes_le (write_leases d) (write_leases d') \<and> env_le (db_env d) (db_env d') \<and> scope_db.more d' = scope_db.more d"

lemma scoped_ok: "scoped d d' \<Longrightarrow> scope_ok d'"
  by (simp add: scoped_def)

lemma scoped_trans: "scoped a b \<Longrightarrow> scoped b c \<Longrightarrow> scoped a c"
  by (auto simp: scoped_def intro: scopes_le_trans env_le_trans)

lemma more_scopes:
  assumes "lease_db.more d' = lease_db.more d"
  shows "write_leases d' = write_leases d" and "scope_db.more d' = scope_db.more d"
  using assms by (cases d, cases d', simp)+

lemma scoped_calm:
  assumes ok: "scope_ok d" and c: "calm d d'"
  shows "scoped d d'"
proof -
  have m: "lease_db.more d' = lease_db.more d" and g: "grows d d'" using c by (simp_all add: calm_def)
  note same = more_scopes [OF m]
  have "scope_ok d'"
    using calm_ok [OF c scope_okD(1) [OF ok]] table_ok_grows [OF scope_okD(2) [OF ok] g same(1)] scope_okD(3) [OF ok]
    by (simp add: scope_ok_def same(1))
  then show ?thesis using g by (simp add: scoped_def same grows_def)
qed

lemma scoped_lease:
  assumes ok: "scope_ok d" and w: "lease_write A d d'"
  shows "scoped d d'"
proof -
  have m: "lease_db.more d' = lease_db.more d" and l: "lease_ok d'" and e: "env_le (db_env d) (db_env d')" using w by (simp_all add: lease_write_def)
  note same = more_scopes [OF m]
  have "table_ok write_leases wl_id d'"
    using scope_okD(2) [OF ok] lease_okD(3) [OF l] order_trans [OF table_okD(3) [OF scope_okD(2) [OF ok]] env_le_drawn [OF e]]
    by (simp add: table_ok_def same(1))
  then show ?thesis using l scope_okD(3) [OF ok] e by (simp add: scoped_def scope_ok_def same)
qed

text \<open>A row written, new or moved on.\<close>

lemma scoped_row:
  assumes ok: "scope_ok d" and i: "wl_id l \<in> drawn_ids (db_env d)"
    and le: "\<And>old. dict_get (write_leases d) (wl_id l) = Some old \<Longrightarrow> scope_le old l"
    and apart: "\<And>j b. dict_get (write_leases d) j = Some b \<Longrightarrow> j \<noteq> wl_id l \<Longrightarrow> compatible l b"
  shows "scoped d (d\<lparr>write_leases := dict_set (wl_id l) l (write_leases d)\<rparr>)"
proof -
  let ?d' = "d\<lparr>write_leases := dict_set (wl_id l) l (write_leases d)\<rparr>"
  have g: "grows d ?d'" by (simp add: grows_same scope_okD(4) [OF ok])
  have "lease_ok ?d'"
    using registry_ok_grows [OF lease_okD(1) [OF scope_okD(1) [OF ok]] g] table_ok_grows [OF lease_okD(2) [OF scope_okD(1) [OF ok]] g]
    by (simp add: lease_ok_def)
  moreover have "table_ok write_leases wl_id ?d'" by (rule scope_rows.ok_put [OF scope_okD(2) [OF ok] i refl])
  moreover have "scopes_apart (write_leases ?d')" using scopes_apart_set [OF scope_okD(3) [OF ok] apart] by simp
  ultimately show ?thesis using scopes_le_set [OF le] by (simp add: scoped_def scope_ok_def)
qed

lemma scoped_env:
  assumes ok: "scope_ok d" and e: "env_le (db_env d) e"
  shows "scoped d (d\<lparr>db_env := e\<rparr>)"
  by (rule scoped_calm [OF ok], rule calm_same) (use e scope_okD(4) [OF ok] in simp_all)

lemma scoped_same: "scope_ok d \<Longrightarrow> scoped d d"
  using scoped_env [of d "db_env d"] by simp

lemma transact_scoped:
  assumes ok: "scope_ok d" and m: "scoped d (snd (m d))"
  shows "scoped d (snd (transact m d))"
proof -
  have "env_le (db_env d) (db_env (snd (m d)))" using m by (simp add: scoped_def)
  then show ?thesis using m scoped_env [OF ok] by (cases "m d", cases "fst (m d)") (simp_all add: transact_def)
qed

lemma stored_scope:
  assumes "scope_ok d" and "dict_get (write_leases d) i = Some l"
  shows "wl_id l = i" "i \<in> drawn_ids (db_env d)"
  using scope_rows.stored_drawn [OF scope_okD(2) [OF assms(1)] assms(2)] by simp_all

section \<open>Acquiring\<close>

lemma no_conflict:
  assumes "conflicting_lease a (held_for_project (aq_project a) d) = None" and "dict_get (write_leases d) j = Some b"
  shows "compatible (reserved_lease a i now) b"
proof -
  have "b \<in> set (dict_values (write_leases d))" using dict_get_value [OF assms(2)] .
  then have "scope_held b \<Longrightarrow> wl_project b = aq_project a \<Longrightarrow> b \<in> set (held_for_project (aq_project a) d)"
    by (simp add: held_for_project_def scope_held_def HELD_SCOPE_STATUSES_def)
  then show ?thesis
    using assms(1) by (auto simp: conflicting_lease_def find_None_iff compatible_def reserved_lease_def)
qed

lemma write_reserved_ok:
  assumes ok: "scope_ok d" and free: "\<And>j b i now. dict_get (write_leases d) j = Some b \<Longrightarrow> compatible (reserved_lease a i now) b"
  obtains l d' i now where "write_reserved a d = (Inr l, d')" "scoped d d'" "l = reserved_lease a i now"
    "write_leases d' = dict_set i l (write_leases d)" "dict_get (write_leases d) i = None"
proof -
  let ?now = "fst (clock_now (db_env d))" and ?e1 = "snd (clock_now (db_env d))"
  let ?i = "fst (uuid7 ?e1)" and ?d0 = "d\<lparr>db_env := snd (uuid7 ?e1)\<rparr>" and ?l = "reserved_lease a (fst (uuid7 ?e1)) (fst (clock_now (db_env d)))"
  have ok1: "scope_ok (d\<lparr>db_env := ?e1\<rparr>)" by (rule scoped_ok [OF scoped_env [OF ok]]) simp
  have i: "?i \<notin> set (dict_keys (write_leases d))" "?i \<in> drawn_ids (snd (uuid7 ?e1))"
    using scope_rows.new_row [OF scope_okD(2) [OF ok1]] by simp_all
  have w0: "scoped d ?d0" by (rule scoped_env [OF ok]) simp
  have none: "dict_get (write_leases d) ?i = None" using i(1) by (simp add: dict_get_None del: set_map)
  let ?d1 = "?d0\<lparr>write_leases := dict_set ?i ?l (write_leases d)\<rparr>"
  have "scoped ?d0 (?d0\<lparr>write_leases := dict_set (wl_id ?l) ?l (write_leases ?d0)\<rparr>)"
    by (rule scoped_row [OF scoped_ok [OF w0]]) (use i none free in \<open>simp_all add: reserved_lease_def\<close>)
  then have w1: "scoped d ?d1" using scoped_trans [OF w0] by (simp add: reserved_lease_def)
  obtain ev d' where ev: "append_event (scope_event ''WriteScopeLeaseReserved'' ?l
      [(''scope_patterns'', JList (map JStr (aq_patterns a))), (''exclusive'', JBool (aq_exclusive a))]) ?d1 = (Inr ev, d')" "calm ?d1 d'"
    by (rule event_calm [OF scope_okD(4) [OF scoped_ok [OF w1]]])
  have "write_leases d' = write_leases ?d1" using ev(2) more_scopes(1) [of d' ?d1] by (simp add: calm_def)
  then show thesis
    using ev(1) i(1) none scoped_trans [OF w1 scoped_calm [OF scoped_ok [OF w1] ev(2)]]
    by (intro that [of ?l d' ?i ?now])
      (simp_all add: write_reserved_def read_clock_eq draw_id_eq insert_write_lease_def table_insert_new reserved_lease_def and_then_def)
qed

lemma acquire_scoped:
  assumes ok: "scope_ok d"
  shows "scoped d (snd (acquire a d))"
  unfolding acquire_def
proof (rule transact_scoped [OF ok])
  have shared: "compatible (reserved_lease a i now) b" if "\<not> aq_exclusive a" for i now b
    using that by (simp add: compatible_def reserved_lease_def)
  show "scoped d (snd (acquire_in a d))"
  proof (cases "List.find (\<lambda>e. wl_patterns e = aq_patterns a \<and> wl_exclusive e = aq_exclusive a) (held_for_task (aq_task a) d)")
    case None
    note new = None
    show ?thesis
    proof (cases "if aq_exclusive a then conflicting_lease a (held_for_project (aq_project a) d) else None")
      case None
      then have "compatible (reserved_lease a i now) b" if "dict_get (write_leases d) j = Some b" for i j b now
        using no_conflict [of a d j b i now] shared that by (cases "aq_exclusive a") simp_all
      then obtain l d' i now where "write_reserved a d = (Inr l, d')" "scoped d d'" by (rule write_reserved_ok [OF ok])
      then show ?thesis using None new by (simp add: acquire_in_def)
    qed (use new scoped_same [OF ok] in \<open>simp add: acquire_in_def\<close>)
  qed (use scoped_same [OF ok] in \<open>simp add: acquire_in_def\<close>)
qed

section \<open>Moving a lease on\<close>

lemma transition_scoped:
  assumes ok: "scope_ok d"
  shows "scoped d (snd (transition_write_lease i target d))"
  unfolding transition_write_lease_def
proof (rule transact_scoped [OF ok])
  show "scoped d (snd (transition_write_in i target d))"
  proof (cases "dict_get (write_leases d) i")
    case None
    then show ?thesis using scoped_same [OF ok] by (simp add: transition_write_in_def require_write_lease_def)
  next
    case (Some l)
    note stored = stored_scope [OF ok Some]
    show ?thesis
    proof (cases "transition (wl_status l) target WRITE_SCOPE_LEASE_TRANSITIONS")
      case (Inl err)
      then show ?thesis using scoped_same [OF ok] Some by (simp add: transition_write_in_def require_write_lease_def)
    next
      case (Inr st)
      then have st: "st = target" "target \<in> set (succs WRITE_SCOPE_LEASE_TRANSITIONS (wl_status l))" by simp_all
      let ?now = "fst (clock_now (db_env d))" and ?d1 = "d\<lparr>db_env := snd (clock_now (db_env d))\<rparr>"
      let ?l = "moved_scope st ?now l" and ?d2 = "?d1\<lparr>write_leases := dict_set i (moved_scope st ?now l) (write_leases d)\<rparr>"
      have w1: "scoped d ?d1" by (rule scoped_env [OF ok]) simp
      have id: "wl_id ?l = i" "wl_status ?l = st" using stored(1) by (simp_all add: moved_scope_def)
      have le: "scope_le l ?l" using st by (auto simp: scope_le_def scope_moves_def moved_scope_def reserved_scope.truncate_def)
      have "scoped ?d1 (?d1\<lparr>write_leases := dict_set (wl_id ?l) ?l (write_leases ?d1)\<rparr>)"
      proof (rule scoped_row [OF scoped_ok [OF w1]])
        show "wl_id ?l \<in> drawn_ids (db_env ?d1)" using stored id by simp
        show "scope_le old ?l" if "dict_get (write_leases ?d1) (wl_id ?l) = Some old" for old using that Some le id by simp
        show "compatible ?l b" if "dict_get (write_leases ?d1) j = Some b" for j b
          using scope_okD(3) [OF ok] Some that scope_le_compatible [OF le] unfolding scopes_apart_def by simp
      qed
      then have w2: "scoped d ?d2" using scoped_trans [OF w1] unfolding id(1) by simp
      have upd: "table_update i (moved_scope st ?now) (write_leases d) = dict_set i ?l (write_leases d)"
        by (rule table_update_eq [OF keyed_ok [OF scope_okD(5) [OF ok]] Some])
      have key: "i \<in> set (dict_keys (write_leases d))" by (rule dict_get_key [OF Some])
      let ?ev = "scope_event ''WriteScopeLeaseTransitioned'' ?l [(''from'', JStr (wl_status l)), (''to'', JStr st)]"
      obtain ev d' where ev: "append_event ?ev ?d2 = (Inr ev, d')" "calm ?d2 d'"
        by (rule event_calm [OF scope_okD(4) [OF scoped_ok [OF w2]]])
      have get: "require_write_lease i ?d2 = Inr ?l" by (simp add: require_write_lease_def dict_get_set)
      have "transition_write_in i target d = and_then (append_event ?ev) (\<lambda>_. Pair (Inr ?l)) ?d2"
        using Some st key get by (simp add: transition_def transition_write_in_def require_write_lease_def [of i d] read_clock_eq stored(1) upd [unfolded st(1)] id(2) [unfolded st(1)] del: set_map)
      then show ?thesis
        using ev scoped_trans [OF w2 scoped_calm [OF scoped_ok [OF w2] ev(2)]] by (simp add: and_then_def)
    qed
  qed
qed

section \<open>Runs\<close>

lemma scope_step_scoped:
  assumes ok: "scope_ok d"
  shows "scoped d (scope_step op d)"
proof (cases op)
  case (ScopeLease lop)
  then show ?thesis
    using scoped_lease [OF ok] lease_step_write [OF scope_okD(1) [OF ok], of lop] by (auto simp: call_write_def)
qed (use acquire_scoped [OF ok] transition_scoped [OF ok] in \<open>simp_all add: activate_write_lease_def release_write_lease_def\<close>)

interpretation scope_service: service scope_step scope_ok "\<lambda>_. scoped"
proof
  fix op and d :: "'x scope_db_scheme"
  show "scope_ok d \<Longrightarrow> scoped\<^sup>*\<^sup>* d (scope_step op d)" by (rule r_into_rtranclp) (rule scope_step_scoped)
next
  fix d d' :: "'x scope_db_scheme"
  show "scoped d d' \<Longrightarrow> scope_ok d \<Longrightarrow> scope_ok d'" by (rule scoped_ok)
qed

lemma scope_run_keeps:
  assumes "scope_ok d"
  shows "scope_ok (scope_run ops d)" and "scopes_le (write_leases d) (write_leases (scope_run ops d))"
proof -
  have "scope_ok (scope_run ops d) \<and> scopes_le (write_leases d) (write_leases (scope_run ops d))"
    unfolding scope_run_def
  proof (rule scope_service.run_keeps [where P = "\<lambda>x. scopes_le (write_leases d) (write_leases x)", OF assms])
    fix d1 d2 assume "scoped d1 d2" "scopes_le (write_leases d) (write_leases d1)"
    then show "scopes_le (write_leases d) (write_leases d2)" using scopes_le_trans by (auto simp: scoped_def)
  qed simp
  then show "scope_ok (scope_run ops d)" "scopes_le (write_leases d) (write_leases (scope_run ops d))" by simp_all
qed

section \<open>Properties\<close>

text \<open>
  C22. No two tasks write the same path. Whatever calls of the lease services follow, and in whatever order,
  no path is in the scopes that two tasks of a project hold exclusively; and a lease that has ended stays so,
  with the patterns it was reserved for.
\<close>

theorem write_scopes_exclusive:
  assumes "scope_ok d"
    and "dict_get (write_leases (scope_run ops d)) i = Some a" and "dict_get (write_leases (scope_run ops d)) j = Some b"
    and "scope_held a" and "scope_held b" and "wl_exclusive a" and "wl_exclusive b"
    and "wl_project a = wl_project b" and "wl_task a \<noteq> wl_task b"
  shows "\<not> (lease_path_in_scope path (wl_patterns a) \<and> lease_path_in_scope path (wl_patterns b))
    \<and> (\<forall>l. dict_get (write_leases d) i = Some l \<longrightarrow> scope_held l \<and> wl_patterns l = wl_patterns a)"
proof -
  have ok: "scope_ok (scope_run ops d)" and le: "scopes_le (write_leases d) (write_leases (scope_run ops d))"
    by (rule scope_run_keeps [OF assms(1)])+
  have "compatible a b" using scope_okD(3) [OF ok] assms(2,3) unfolding scopes_apart_def by blast
  then have "\<not> (lease_path_in_scope path (wl_patterns a) \<and> lease_path_in_scope path (wl_patterns b))"
    using assms(4-) overlap_shared [of path] by (auto simp: compatible_def)
  moreover have "scope_held l \<and> wl_patterns l = wl_patterns a" if "dict_get (write_leases d) i = Some l" for l
  proof -
    have "scope_le l a" using le that assms(2) unfolding scopes_le_def by fastforce
    then show ?thesis using scope_final [of l a] reserved_fields(5) [of a l] assms(4) unfolding scope_le_def scope_held_def by metis
  qed
  ultimately show ?thesis by blast
qed

definition scope_start :: scope_db where
  "scope_start = lease_db.extend empty_lease_db (scope_db.fields [])"

lemma scope_start_ok: "scope_ok scope_start" "write_leases scope_start = []"
proof -
  show w: "write_leases scope_start = []" by (simp add: scope_start_def lease_db.extend_def scope_db.fields_def)
  show "scope_ok scope_start"
    using empty_lease_db_ok(1) w
    by (simp add: scope_ok_def lease_ok_def registry_ok_def table_ok_def log_ok_def scopes_apart_def scope_start_def
        lease_db.extend_def scope_db.fields_def)
qed

definition sample_acquire :: "uuid \<Rightarrow> string list \<Rightarrow> acquire_args" where
  "sample_acquire task patterns = \<lparr>aq_tenant = ''t'', aq_project = ''p'', aq_mission = ''m'', aq_task = task, aq_patterns = patterns,
     aq_exclusive = True, aq_ttl = DEFAULT_SCOPE_TTL\<rparr>"

text \<open>Two tasks reserve scopes side by side.\<close>

lemma scope_sample:
  obtains i j a b where "dict_get (write_leases (scope_run [Acquire (sample_acquire ''a'' [''src/**'']), Acquire (sample_acquire ''b'' [''doc/*''])] scope_start)) i = Some a"
    "dict_get (write_leases (scope_run [Acquire (sample_acquire ''a'' [''src/**'']), Acquire (sample_acquire ''b'' [''doc/*''])] scope_start)) j = Some b"
    "wl_status a = ''RESERVED''" "wl_status b = ''RESERVED''" "wl_exclusive a" "wl_exclusive b" "wl_project a = ''p''" "wl_project b = ''p''"
    "wl_task a = ''a''" "wl_task b = ''b''" "wl_patterns a = [''src/**'']"
proof -
  let ?a = "sample_acquire ''a'' [''src/**'']" and ?b = "sample_acquire ''b'' [''doc/*'']"
  have far: "\<not> leases_overlap [''doc/*''] [''src/**'']" by code_simp
  obtain l d1 i now where r1: "write_reserved ?a scope_start = (Inr l, d1)" "scoped scope_start d1" "l = reserved_lease ?a i now"
      "write_leases d1 = dict_set i l (write_leases scope_start)"
    by (rule write_reserved_ok [OF scope_start_ok(1), of ?a]) (simp add: scope_start_ok(2))
  have a1: "acquire ?a scope_start = (Inr l, d1)"
    using r1(1) by (simp add: acquire_def transact_Inr acquire_in_def held_for_task_def held_for_project_def scope_start_ok(2) conflicting_lease_def)
  have ws: "write_leases d1 = [(i, l)]" using r1(4) scope_start_ok(2) by simp
  have l: "wl_task l = ''a''" "wl_patterns l = [''src/**'']" "wl_exclusive l" "wl_status l = ''RESERVED''" "wl_project l = ''p''"
    unfolding r1(3) by (simp_all add: reserved_lease_def sample_acquire_def)
  have free: "compatible (reserved_lease ?b k n) c" if "dict_get (write_leases d1) jj = Some c" for jj c k n
    using that far l by (auto simp: ws compatible_def reserved_lease_def sample_acquire_def split: if_splits)
  obtain l2 d2 i2 now2 where r2: "write_reserved ?b d1 = (Inr l2, d2)" "scoped d1 d2" "l2 = reserved_lease ?b i2 now2"
      "write_leases d2 = dict_set i2 l2 (write_leases d1)" "dict_get (write_leases d1) i2 = None"
    by (rule write_reserved_ok [OF scoped_ok [OF r1(2)] free])
  have a2: "acquire ?b d1 = (Inr l2, d2)"
    using r2(1) far l by (simp add: acquire_def transact_Inr acquire_in_def held_for_task_def held_for_project_def ws conflicting_lease_def sample_acquire_def)
  have run: "scope_run [Acquire ?a, Acquire ?b] scope_start = d2" by (simp add: scope_run_def service_run_def a1 a2)
  show thesis
  proof (rule that [of i l i2 l2])
    show "dict_get (write_leases (scope_run [Acquire ?a, Acquire ?b] scope_start)) i = Some l"
      unfolding run using r2(4,5) by (auto simp: ws split: if_splits)
    show "dict_get (write_leases (scope_run [Acquire ?a, Acquire ?b] scope_start)) i2 = Some l2"
      unfolding run r2(4) by (simp add: dict_get_set)
  qed (use l r2(3) in \<open>simp_all add: reserved_lease_def sample_acquire_def\<close>)
qed

theorem write_scopes_exclusive_witness:
  "\<exists>i j a b. dict_get (write_leases (scope_run [Acquire (sample_acquire ''a'' [''src/**'']), Acquire (sample_acquire ''b'' [''doc/*''])] scope_start)) i = Some a
    \<and> dict_get (write_leases (scope_run [Acquire (sample_acquire ''a'' [''src/**'']), Acquire (sample_acquire ''b'' [''doc/*''])] scope_start)) j = Some b
    \<and> scope_held a \<and> scope_held b
    \<and> \<not> (lease_path_in_scope ''src/x'' (wl_patterns a) \<and> lease_path_in_scope ''src/x'' (wl_patterns b))"
proof -
  obtain i j a b where s: "dict_get (write_leases (scope_run [Acquire (sample_acquire ''a'' [''src/**'']), Acquire (sample_acquire ''b'' [''doc/*''])] scope_start)) i = Some a"
    "dict_get (write_leases (scope_run [Acquire (sample_acquire ''a'' [''src/**'']), Acquire (sample_acquire ''b'' [''doc/*''])] scope_start)) j = Some b"
    "wl_status a = ''RESERVED''" "wl_status b = ''RESERVED''" "wl_exclusive a" "wl_exclusive b" "wl_project a = ''p''" "wl_project b = ''p''"
    "wl_task a = ''a''" "wl_task b = ''b''"
    by (rule scope_sample)
  have h: "scope_held a" "scope_held b" using s(3,4) by (simp_all add: scope_held_def HELD_SCOPE_STATUSES_def)
  have "\<not> (lease_path_in_scope ''src/x'' (wl_patterns a) \<and> lease_path_in_scope ''src/x'' (wl_patterns b))"
    using write_scopes_exclusive [OF scope_start_ok(1) s(1,2) h s(5,6), of "''src/x''"] s(7-) by simp
  then show ?thesis using s(1,2) h by blast
qed
end
