(* ===== verification/Attempts.thy ===== *)
theory Attempts
  imports Services Missions
begin

text \<open>
  \<open>engine/missions/attempts.py\<close>: the attempts at a task. A retry is a new row; a row is written to while it
  is IN_PROGRESS and never again. Proved here: the attempts of a task are numbered 1, 2, 3, ... and every
  retry points back to a failed attempt of the same task; a completed attempt is final, and ends the
  attempts at its task.
\<close>

section \<open>Contracts and table\<close>

record task_attempt =
  ta_id :: uuid
  ta_tenant :: uuid
  ta_project :: uuid
  ta_mission :: uuid
  ta_task :: uuid
  ta_sequence :: int
  ta_plan :: uuid
  ta_input_context_hash :: string
  ta_workspace_revision :: string
  ta_result_artifact_refs :: "uuid list"
  ta_verification_refs :: "uuid list"
  ta_integration_proposal :: "uuid option"
  ta_status :: string
  ta_failure_class :: "string option"
  ta_retry_of :: "uuid option"
  ta_checkpoint :: "uuid option"
  ta_started_at :: "time option"
  ta_ended_at :: "time option"
  ta_created_at :: time
  ta_updated_at :: time

record execution_plan =
  ep_id :: uuid
  ep_tenant :: uuid
  ep_project :: uuid
  ep_mission :: uuid
  ep_task :: uuid
  ep_route_decision :: uuid
  ep_context_package :: uuid
  ep_worker_profile :: string
  ep_environment :: uuid
  ep_workspace_policy :: "(string \<times> json) list"
  ep_capability_requirements :: "string list"
  ep_enforcement_tier :: string
  ep_autonomy_level :: int
  ep_resource_budget :: "(string \<times> json) list"
  ep_time_budget :: "(string \<times> json) list"
  ep_token_budget :: "(string \<times> json) list"
  ep_network_policy :: "(string \<times> json) list"
  ep_filesystem_policy :: "(string \<times> json) list"
  ep_verification_plan :: "uuid option"
  ep_acceptance_oracle :: "uuid option"
  ep_write_scope_lease :: "uuid option"
  ep_checkpoint_policy :: "(string \<times> json) list"
  ep_retry_policy :: "(string \<times> json) list"
  ep_escalation_policy :: "(string \<times> json) list"
  ep_plan_hash :: string
  ep_status :: string
  ep_approved_at :: "time option"
  ep_started_at :: "time option"
  ep_ended_at :: "time option"
  ep_created_at :: time
  ep_updated_at :: time

record attempt_db = db +
  attempts :: "(uuid, task_attempt) dict"

section \<open>Repository\<close>

text \<open>The table also refuses a second row with the same task and sequence.\<close>

definition insert_attempt :: "task_attempt \<Rightarrow> attempt_db \<Rightarrow> unit result \<times> attempt_db" where
  "insert_attempt r d =
    (if list_ex (\<lambda>x. ta_task x = ta_task r \<and> ta_sequence x = ta_sequence r) (dict_values (attempts d))
     then (Inl (IntegrityError ''task_attempts''), d)
     else case table_insert ''task_attempts'' (ta_id r) r (attempts d) of
       Inl err \<Rightarrow> (Inl err, d)
     | Inr t \<Rightarrow> (Inr (), d\<lparr>attempts := t\<rparr>))"

definition attempts_for_task :: "uuid \<Rightarrow> attempt_db \<Rightarrow> task_attempt list" where
  "attempts_for_task tid d = sort_key ta_sequence (filter (\<lambda>r. ta_task r = tid) (dict_values (attempts d)))"

definition attempts_for_mission :: "uuid \<Rightarrow> attempt_db \<Rightarrow> task_attempt list" where
  "attempts_for_mission mid d = sort_key ta_created_at (filter (\<lambda>r. ta_mission r = mid) (dict_values (attempts d)))"

definition next_attempt_sequence :: "uuid \<Rightarrow> attempt_db \<Rightarrow> int" where
  "next_attempt_sequence tid d =
    fold max (map ta_sequence (filter (\<lambda>r. ta_task r = tid) (dict_values (attempts d)))) 0 + 1"

definition require_attempt :: "uuid \<Rightarrow> attempt_db \<Rightarrow> task_attempt result" where
  "require_attempt k d =
    (case dict_get (attempts d) k of
       None \<Rightarrow> Inl (DdeError ''POLICY_DENIED'' ''Unknown task attempt'' False [(''attempt_id'', JStr k)])
     | Some r \<Rightarrow> Inr r)"

text \<open>\<open>update_fields\<close>, the row count, and reading the row back.\<close>

definition update_attempt :: "uuid \<Rightarrow> (task_attempt \<Rightarrow> task_attempt) \<Rightarrow> attempt_db \<Rightarrow> task_attempt result \<times> attempt_db" where
  "update_attempt k f d =
    (if k \<notin> set (dict_keys (attempts d)) then (Inl (DdeError ''POLICY_DENIED'' ''Unknown task attempt'' False []), d)
     else let d' = d\<lparr>attempts := table_update k f (attempts d)\<rparr> in (require_attempt k d', d'))"

section \<open>The service\<close>

definition attempt_event ::
  "string \<Rightarrow> uuid \<Rightarrow> uuid \<Rightarrow> task_attempt \<Rightarrow> (string \<times> json) list \<Rightarrow> event_args"
where
  "attempt_event ty tenant project r payload =
    \<lparr>ea_type = ty, ea_aggregate_type = ''task_attempt'', ea_aggregate_id = ta_id r, ea_tenant = tenant,
     ea_project = project, ea_payload = payload, ea_mission = Some (ta_mission r), ea_task = Some (ta_task r),
     ea_correlation = None, ea_causation = None\<rparr>"

text \<open>The refusals of \<open>create\<close>, in order: completed work, and a retry of something that did not fail.\<close>

definition retry_allowed :: "uuid option \<Rightarrow> task_attempt list \<Rightarrow> bool" where
  "retry_allowed retry_of existing =
    (case retry_of of None \<Rightarrow> True
     | Some k \<Rightarrow> (case List.find (\<lambda>r. ta_id r = k) existing of None \<Rightarrow> False | Some r \<Rightarrow> ta_status r = ''FAILED''))"

definition new_attempt :: "task \<Rightarrow> execution_plan \<Rightarrow> string \<Rightarrow> string \<Rightarrow> uuid option \<Rightarrow> uuid \<Rightarrow> int \<Rightarrow> time \<Rightarrow> task_attempt" where
  "new_attempt t p revision context retry_of i n now =
    \<lparr>ta_id = i, ta_tenant = tk_tenant t, ta_project = tk_project t, ta_mission = tk_mission t, ta_task = tk_id t,
     ta_sequence = n, ta_plan = ep_id p, ta_input_context_hash = context, ta_workspace_revision = revision,
     ta_result_artifact_refs = [], ta_verification_refs = [], ta_integration_proposal = None,
     ta_status = ''IN_PROGRESS'', ta_failure_class = None, ta_retry_of = retry_of, ta_checkpoint = None,
     ta_started_at = Some now, ta_ended_at = None, ta_created_at = now, ta_updated_at = now\<rparr>"

definition create_body ::
  "task \<Rightarrow> execution_plan \<Rightarrow> string \<Rightarrow> string \<Rightarrow> uuid option \<Rightarrow> attempt_db \<Rightarrow> task_attempt result \<times> attempt_db"
where
  "create_body t p revision context retry_of d =
    (let existing = attempts_for_task (tk_id t) d in
     case filter (\<lambda>r. ta_status r = ''COMPLETED'') existing of
       lead # _ \<Rightarrow>
         (Inl (DdeError ''ATTEMPT_COMPLETED''
            (''Refusing to re-run a completed TaskAttempt (attempt_id='' @ ta_id lead @ '')'') False
            [(''task_id'', JStr (tk_id t)), (''attempt_id'', JStr (ta_id lead))]), d)
     | [] \<Rightarrow>
         if \<not> retry_allowed retry_of existing then
           (Inl (DdeError ''POLICY_DENIED'' ''retry_of must reference a FAILED attempt of this task'' False
              [(''retry_of'', JStr (case retry_of of None \<Rightarrow> [] | Some k \<Rightarrow> k))]), d)
         else
           let n = next_attempt_sequence (tk_id t) d;
               (now, d1) = read_clock d;
               (i, d2) = draw_id d1;
               r = new_attempt t p revision context retry_of i n now
           in and_then (insert_attempt r)
                (\<lambda>_. and_then (append_event (attempt_event ''TaskAttemptCreated'' (tk_tenant t) (tk_project t) r
                    [(''sequence'', JInt n), (''execution_plan_id'', JStr (ep_id p))]))
                  (\<lambda>_. Pair (Inr r))) d2)"

definition create_attempt ::
  "task \<Rightarrow> execution_plan \<Rightarrow> string \<Rightarrow> string \<Rightarrow> uuid option \<Rightarrow> attempt_db \<Rightarrow> task_attempt result \<times> attempt_db"
where
  "create_attempt t p revision context retry_of d =
    (if ep_task p \<noteq> tk_id t then
       (Inl (DdeError ''POLICY_DENIED'' ''ExecutionPlan does not belong to this task'' False
          [(''task_id'', JStr (tk_id t)), (''plan_task_id'', JStr (ep_task p))]), d)
     else transact (create_body t p revision context retry_of) d)"

definition get_attempt :: "uuid \<Rightarrow> attempt_db \<Rightarrow> task_attempt result" where
  "get_attempt k d =
    (case dict_get (attempts d) k of
       None \<Rightarrow> Inl (DdeError ''POLICY_DENIED'' ''Unknown task attempt'' False [])
     | Some r \<Rightarrow> Inr r)"

definition with_attempt ::
  "uuid \<Rightarrow> (task_attempt \<Rightarrow> attempt_db \<Rightarrow> 'r result \<times> attempt_db) \<Rightarrow> attempt_db \<Rightarrow> 'r result \<times> attempt_db"
where
  "with_attempt k f d = (case require_attempt k d of Inl err \<Rightarrow> (Inl err, d) | Inr r \<Rightarrow> f r d)"

definition not_in_progress :: "string \<Rightarrow> uuid \<Rightarrow> task_attempt \<Rightarrow> dde_error" where
  "not_in_progress call k r = DdeError ''VERSION_CONFLICT'' (call @ '' requires IN_PROGRESS (got '' @ ta_status r @ '')'') False
     [(''attempt_id'', JStr k), (''status'', JStr (ta_status r))]"

definition commit_results ::
  "uuid \<Rightarrow> uuid \<Rightarrow> uuid \<Rightarrow> uuid list \<Rightarrow> uuid option \<Rightarrow> attempt_db \<Rightarrow> task_attempt result \<times> attempt_db"
where
  "commit_results tenant project k refs checkpoint = transact (with_attempt k (\<lambda>cur d.
    if ta_status cur \<noteq> ''IN_PROGRESS'' then (Inl (not_in_progress ''commit_results'' k cur), d)
    else let (now, d1) = read_clock d in
      and_then (update_attempt k (\<lambda>r. r\<lparr>ta_result_artifact_refs := refs, ta_checkpoint := checkpoint, ta_updated_at := now\<rparr>))
        (\<lambda>u. and_then (append_event (attempt_event ''TaskAttemptResultsCommitted'' tenant project u
            [(''checkpoint_id'', json_opt checkpoint)])) (\<lambda>_. Pair (Inr u))) d1))"

definition finalize ::
  "uuid \<Rightarrow> uuid \<Rightarrow> uuid \<Rightarrow> uuid list \<Rightarrow> uuid option \<Rightarrow> attempt_db \<Rightarrow> task_attempt result \<times> attempt_db"
where
  "finalize tenant project k refs checkpoint = transact (with_attempt k (\<lambda>cur d.
    case transition (ta_status cur) ''COMPLETED'' ATTEMPT_TRANSITIONS of
      Inl err \<Rightarrow> (Inl err, d)
    | Inr st \<Rightarrow> let (now, d1) = read_clock d in
        and_then (update_attempt k (\<lambda>r.
            let x = r\<lparr>ta_status := st, ta_verification_refs := refs, ta_ended_at := Some now, ta_updated_at := now\<rparr>
            in if checkpoint = None then x else x\<lparr>ta_checkpoint := checkpoint\<rparr>))
          (\<lambda>u. and_then (append_event (attempt_event ''TaskAttemptFinalised'' tenant project u
              [(''verification_refs'', JList (map JStr refs))])) (\<lambda>_. Pair (Inr u))) d1))"

definition fail_attempt ::
  "uuid \<Rightarrow> uuid \<Rightarrow> uuid \<Rightarrow> string \<Rightarrow> uuid option \<Rightarrow> attempt_db \<Rightarrow> task_attempt result \<times> attempt_db"
where
  "fail_attempt tenant project k failure_class checkpoint = transact (with_attempt k (\<lambda>cur d.
    case transition (ta_status cur) ''FAILED'' ATTEMPT_TRANSITIONS of
      Inl err \<Rightarrow> (Inl err, d)
    | Inr st \<Rightarrow> let (now, d1) = read_clock d in
        and_then (update_attempt k (\<lambda>r. r\<lparr>ta_status := st, ta_failure_class := Some failure_class,
            ta_checkpoint := checkpoint, ta_ended_at := Some now, ta_updated_at := now\<rparr>))
          (\<lambda>u. and_then (append_event (attempt_event ''TaskAttemptFailed'' tenant project u
              [(''failure_class'', JStr failure_class)])) (\<lambda>_. Pair (Inr u))) d1))"

definition stamp_checkpoint :: "uuid \<Rightarrow> uuid \<Rightarrow> attempt_db \<Rightarrow> task_attempt result \<times> attempt_db" where
  "stamp_checkpoint k checkpoint = transact (with_attempt k (\<lambda>cur d.
    if ta_status cur \<noteq> ''IN_PROGRESS'' then (Inl (not_in_progress ''stamp_checkpoint'' k cur), d)
    else let (now, d1) = read_clock d in
      update_attempt k (\<lambda>r. r\<lparr>ta_checkpoint := Some checkpoint, ta_updated_at := now\<rparr>) d1))"

section \<open>Sequences of calls\<close>

datatype attempt_op =
    Create task execution_plan string string "uuid option"
  | CommitResults uuid uuid uuid "uuid list" "uuid option"
  | Finalize uuid uuid uuid "uuid list" "uuid option"
  | FailAttempt uuid uuid uuid string "uuid option"
  | StampCheckpoint uuid uuid

fun attempt_step :: "attempt_op \<Rightarrow> attempt_db \<Rightarrow> attempt_db" where
  "attempt_step (Create t p revision context retry_of) d = snd (create_attempt t p revision context retry_of d)"
| "attempt_step (CommitResults tenant project k refs c) d = snd (commit_results tenant project k refs c d)"
| "attempt_step (Finalize tenant project k refs c) d = snd (finalize tenant project k refs c d)"
| "attempt_step (FailAttempt tenant project k fc c) d = snd (fail_attempt tenant project k fc c d)"
| "attempt_step (StampCheckpoint k c) d = snd (stamp_checkpoint k c d)"

definition attempt_run :: "attempt_op list \<Rightarrow> attempt_db \<Rightarrow> attempt_db" where
  "attempt_run = service_run attempt_step"

section \<open>Invariant\<close>

interpretation attempt_rows: row_table attempts "\<lambda>t d. d\<lparr>attempts := t\<rparr>" ta_id
  by unfold_locales simp_all

text \<open>
  The attempts at a task, in the order they were made, are numbered from 1; a retry names an earlier failed
  attempt at the same task.
\<close>

definition of_task :: "uuid \<Rightarrow> attempt_db \<Rightarrow> task_attempt list" where
  "of_task tid d = filter (\<lambda>r. ta_task r = tid) (dict_values (attempts d))"

definition numbered :: "task_attempt list \<Rightarrow> bool" where
  "numbered rs \<longleftrightarrow> map ta_sequence rs = map int [1..<Suc (length rs)]"

definition retry_ok :: "attempt_db \<Rightarrow> task_attempt \<Rightarrow> bool" where
  "retry_ok d r \<longleftrightarrow> (case ta_retry_of r of None \<Rightarrow> True
     | Some k \<Rightarrow> (\<exists>p. dict_get (attempts d) k = Some p \<and> ta_task p = ta_task r \<and> ta_status p = ''FAILED'' \<and> ta_sequence p < ta_sequence r))"

definition attempt_ok :: "attempt_db \<Rightarrow> bool" where
  "attempt_ok d \<longleftrightarrow> table_ok attempts ta_id d \<and> (\<forall>tid. numbered (of_task tid d))
    \<and> (\<forall>r \<in> set (dict_values (attempts d)). retry_ok d r)"

lemma attempt_okD:
  assumes "attempt_ok d"
  shows "table_ok attempts ta_id d" "numbered (of_task tid d)" "r \<in> set (dict_values (attempts d)) \<Longrightarrow> retry_ok d r"
    "keyed ta_id (attempts d)"
  using assms unfolding attempt_ok_def table_ok_def by blast+

lemma attempt_ok_same:
  assumes "attempt_ok d" and "table_ok attempts ta_id d'" and "attempts d' = attempts d"
  shows "attempt_ok d'"
  using assms(1,2) unfolding attempt_ok_def of_task_def retry_ok_def assms(3) by blast

lemma attempt_ok_env: "attempt_ok d \<Longrightarrow> env_le (db_env d) e \<Longrightarrow> attempt_ok (d\<lparr>db_env := e\<rparr>)"
  by (rule attempt_ok_same [OF _ attempt_rows.ok_env [OF attempt_okD(1)]]) simp_all

text \<open>Rewriting an attempt that is under way.\<close>

definition same_attempt :: "task_attempt \<Rightarrow> task_attempt \<Rightarrow> bool" where
  "same_attempt r r' \<longleftrightarrow> ta_id r' = ta_id r \<and> ta_task r' = ta_task r \<and> ta_sequence r' = ta_sequence r \<and> ta_retry_of r' = ta_retry_of r"

lemma retry_ok_update:
  assumes "retry_ok d x" and "dict_get (attempts d) k = Some r" and "ta_status r = ''IN_PROGRESS''"
    and "ta_task x' = ta_task x" "ta_sequence x' = ta_sequence x" "ta_retry_of x' = ta_retry_of x"
  shows "retry_ok (d\<lparr>attempts := dict_set k r' (attempts d)\<rparr>) x'"
  using assms unfolding retry_ok_def by (auto simp: dict_get_set split: option.splits)

lemma attempt_ok_update:
  assumes ok: "attempt_ok d" and get: "dict_get (attempts d) k = Some r" and r: "ta_status r = ''IN_PROGRESS''" "same_attempt r r'"
  shows "attempt_ok (d\<lparr>attempts := dict_set k r' (attempts d)\<rparr>)"
proof -
  let ?d = "d\<lparr>attempts := dict_set k r' (attempts d)\<rparr>"
  note st = attempt_rows.stored_drawn [OF attempt_okD(1) [OF ok] get]
  have "table_ok attempts ta_id ?d"
    using attempt_rows.ok_put [OF attempt_okD(1) [OF ok], of k r'] st r(2) by (simp add: same_attempt_def)
  moreover have "numbered (of_task tid ?d)" for tid
  proof -
    have "map ta_sequence (of_task tid ?d) = map ta_sequence (of_task tid d)"
      unfolding of_task_def attempt_db.simps
      by (simp, rule keyed_filter_same [OF attempt_okD(4) [OF ok] get]) (use r(2) in \<open>simp_all add: same_attempt_def\<close>)
    then show ?thesis using attempt_okD(2) [OF ok, of tid] unfolding numbered_def by (metis length_map)
  qed
  moreover have "retry_ok ?d x" if "x \<in> set (dict_values (attempts ?d))" for x
  proof -
    from that consider "x = r'" | "x \<in> set (dict_values (attempts d))"
      using dict_values_set_subset [of k r' "attempts d"] by auto
    then show ?thesis
    proof cases
      case 1
      then show ?thesis
        using retry_ok_update [OF attempt_okD(3) [OF ok dict_get_value [OF get]] get r(1), of r' r'] r(2) by (simp add: same_attempt_def)
    next
      case 2
      then show ?thesis using retry_ok_update [OF attempt_okD(3) [OF ok 2] get r(1) refl refl refl] by simp
    qed
  qed
  ultimately show ?thesis by (simp add: attempt_ok_def)
qed

text \<open>The next number is one more than the attempts so far, and a new attempt with it fits the invariant.\<close>

lemma next_attempt_number: "attempt_ok d \<Longrightarrow> next_attempt_sequence tid d = int (length (of_task tid d)) + 1"
  using attempt_okD(2) [of d tid] fold_max_upt
  unfolding next_attempt_sequence_def numbered_def of_task_def [symmetric] by metis

lemma numbered_snoc: "numbered rs \<Longrightarrow> ta_sequence r = int (length rs) + 1 \<Longrightarrow> numbered (rs @ [r])"
  by (simp add: numbered_def)

lemma numbered_bound: "numbered rs \<Longrightarrow> r \<in> set rs \<Longrightarrow> ta_sequence r \<le> int (length rs)"
proof -
  assume "numbered rs" "r \<in> set rs"
  then have "ta_sequence r \<in> set (map int [1..<Suc (length rs)])" unfolding numbered_def by (metis image_eqI list.set_map)
  then show ?thesis by auto
qed

lemma attempt_ok_new:
  assumes ok: "attempt_ok d" and i: "i \<notin> set (dict_keys (attempts d))" "i \<in> drawn_ids (db_env d)" "ta_id r = i"
    and n: "ta_sequence r = int (length (of_task (ta_task r) d)) + 1"
    and retry: "case ta_retry_of r of None \<Rightarrow> True | Some k \<Rightarrow> (\<exists>p. dict_get (attempts d) k = Some p \<and> ta_task p = ta_task r \<and> ta_status p = ''FAILED'')"
  shows "attempt_ok (d\<lparr>attempts := attempts d @ [(i, r)]\<rparr>)"
proof -
  let ?d = "d\<lparr>attempts := attempts d @ [(i, r)]\<rparr>"
  have "table_ok attempts ta_id ?d"
    using attempt_rows.ok_put [OF attempt_okD(1) [OF ok] i(2,3)] i(1) by (simp add: dict_set_new)
  moreover have "numbered (of_task tid ?d)" for tid
    using attempt_okD(2) [OF ok, of tid] n numbered_snoc by (auto simp: of_task_def)
  moreover have old: "dict_get (attempts ?d) k = Some p" if "dict_get (attempts d) k = Some p" for k p
    using that by simp
  have "retry_ok ?d x" if "x \<in> set (dict_values (attempts ?d))" for x
  proof (cases "x \<in> set (dict_values (attempts d))")
    case True
    then show ?thesis using attempt_okD(3) [OF ok True] old unfolding retry_ok_def by (fastforce split: option.splits)
  next
    case False
    then have x: "x = r" using that by auto
    show ?thesis
    proof (cases "ta_retry_of r")
      case (Some k)
      then obtain p where p: "dict_get (attempts d) k = Some p" "ta_task p = ta_task r" "ta_status p = ''FAILED''" using retry by auto
      have "p \<in> set (of_task (ta_task r) d)" using p(2) dict_get_value [OF p(1)] by (simp add: of_task_def)
      then have "ta_sequence p < ta_sequence r" using numbered_bound [OF attempt_okD(2) [OF ok]] n by fastforce
      then show ?thesis using p old [OF p(1)] Some x by (auto simp: retry_ok_def)
    qed (simp add: retry_ok_def x)
  qed
  ultimately show ?thesis by (simp add: attempt_ok_def)
qed

section \<open>What a call can do\<close>

inductive attempt_write :: "attempt_db \<Rightarrow> attempt_db \<Rightarrow> bool" where
  Quiet: "attempt_write d d'" if "attempts d' = attempts d" "attempt_ok d'"
| Created: "attempt_write d d'" if "attempts d' = attempts d @ [(ta_id r, r)]" "ta_id r \<notin> set (dict_keys (attempts d))"
    "list_all (\<lambda>x. ta_status x \<noteq> ''COMPLETED'') (of_task (ta_task r) d)" "attempt_ok d'"
| Updated: "attempt_write d d'" if "dict_get (attempts d) k = Some r" "ta_status r = ''IN_PROGRESS''" "same_attempt r r'"
    "attempts d' = dict_set k r' (attempts d)" "attempt_ok d'"

lemma attempt_write_ok: "attempt_write d d' \<Longrightarrow> attempt_ok d'"
  by (auto elim: attempt_write.cases)

lemma update_attempt_eq:
  assumes "attempt_ok d" and "dict_get (attempts d) k = Some r"
  shows "update_attempt k f d = (Inr (f r), d\<lparr>attempts := dict_set k (f r) (attempts d)\<rparr>)"
  using assms dict_get_key [OF assms(2)] table_update_eq [OF keyed_ok [OF attempt_okD(4) [OF assms(1)]] assms(2), of f]
  by (simp add: update_attempt_def require_attempt_def dict_get_set)

text \<open>
  A transaction around one row: refused with nothing written, or the row, which was under way, is rewritten
  and an event may follow.
\<close>

lemma transact_update:
  assumes ok: "attempt_ok d"
    and body: "\<And>r. dict_get (attempts d) k = Some r \<Longrightarrow> (\<exists>err. body r d = (Inl err, d)) \<or>
      ta_status r = ''IN_PROGRESS'' \<and> (body r d = update_attempt k f (snd (read_clock d)) \<or>
        body r d = and_then (update_attempt k f) (\<lambda>u. and_then (append_event (mk u)) (\<lambda>_. Pair (Inr u))) (snd (read_clock d)))"
    and f: "\<And>r. same_attempt r (f r)"
  shows "attempt_write d (snd (transact (with_attempt k body) d))"
proof (cases "dict_get (attempts d) k")
  case None
  then show ?thesis using ok by (auto simp: transact_def with_attempt_def require_attempt_def intro: attempt_write.Quiet)
next
  case (Some r)
  have run: "with_attempt k body d = body r d" by (simp add: with_attempt_def require_attempt_def Some)
  let ?d1 = "d\<lparr>db_env := snd (clock_now (db_env d))\<rparr>"
  have ok1: "attempt_ok ?d1" by (rule attempt_ok_env [OF ok]) simp
  have get1: "dict_get (attempts ?d1) k = Some r" by (simp add: Some)
  from body [OF Some] consider err where "body r d = (Inl err, d)"
    | "ta_status r = ''IN_PROGRESS''" "body r d = update_attempt k f (snd (read_clock d)) \<or>
        body r d = and_then (update_attempt k f) (\<lambda>u. and_then (append_event (mk u)) (\<lambda>_. Pair (Inr u))) (snd (read_clock d))" by blast
  then show ?thesis
  proof cases
    case 1
    then show ?thesis using ok by (auto simp: transact_def run intro: attempt_write.Quiet)
  next
    case 2
    let ?d2 = "?d1\<lparr>attempts := dict_set k (f r) (attempts ?d1)\<rparr>"
    have up: "update_attempt k f (snd (read_clock d)) = (Inr (f r), ?d2)"
      unfolding read_clock_eq snd_conv by (rule update_attempt_eq [OF ok1 get1])
    have ok2: "attempt_ok ?d2" by (rule attempt_ok_update [OF ok1 get1 2(1) f])
    obtain ev s e where ap: "append_event (mk (f r)) ?d2 = (Inr ev, ?d2\<lparr>db_log := s, db_env := e\<rparr>)"
        "table_ok attempts ta_id (?d2\<lparr>db_log := s, db_env := e\<rparr>)"
      by (rule attempt_rows.ok_event [OF attempt_okD(1) [OF ok2]])
    have ok3: "attempt_ok (?d2\<lparr>db_log := s, db_env := e\<rparr>)" by (rule attempt_ok_same [OF ok2 ap(2)]) simp
    have "snd (transact (with_attempt k body) d) \<in> {?d2, ?d2\<lparr>db_log := s, db_env := e\<rparr>}"
      using 2(2) up ap(1) by (auto simp: transact_def run and_then_def)
    then show ?thesis using ok2 ok3 by (auto intro!: attempt_write.Updated [OF Some 2(1) f])
  qed
qed

lemma attempt_moves:
  "st \<in> set (succs ATTEMPT_TRANSITIONS cur) \<Longrightarrow> cur = ''IN_PROGRESS''"
  by (auto simp: succs_def ATTEMPT_TRANSITIONS_def split: if_splits)

lemma update_writes:
  assumes ok: "attempt_ok d"
  shows "attempt_write d (snd (commit_results tenant project k refs c d))" "attempt_write d (snd (stamp_checkpoint k ck d))"
    "attempt_write d (snd (finalize tenant project k refs c d))" "attempt_write d (snd (fail_attempt tenant project k fc c d))"
proof -
  let ?now = "fst (clock_now (db_env d))"
  note update = transact_update [OF ok, of k]
  show "attempt_write d (snd (commit_results tenant project k refs c d))"
    unfolding commit_results_def
    by (rule update [where f = "\<lambda>r. r\<lparr>ta_result_artifact_refs := refs, ta_checkpoint := c, ta_updated_at := ?now\<rparr>"
        and mk = "\<lambda>u. attempt_event ''TaskAttemptResultsCommitted'' tenant project u [(''checkpoint_id'', json_opt c)]"])
      (simp_all add: read_clock_eq same_attempt_def)
  show "attempt_write d (snd (stamp_checkpoint k ck d))"
    unfolding stamp_checkpoint_def
    by (rule update [where f = "\<lambda>r. r\<lparr>ta_checkpoint := Some ck, ta_updated_at := ?now\<rparr>"])
      (simp_all add: read_clock_eq same_attempt_def)
  show "attempt_write d (snd (finalize tenant project k refs c d))"
    unfolding finalize_def
    by (rule update [where f = "\<lambda>r. let x = r\<lparr>ta_status := ''COMPLETED'', ta_verification_refs := refs, ta_ended_at := Some ?now, ta_updated_at := ?now\<rparr>
            in if c = None then x else x\<lparr>ta_checkpoint := c\<rparr>"
        and mk = "\<lambda>u. attempt_event ''TaskAttemptFinalised'' tenant project u [(''verification_refs'', JList (map JStr refs))]"])
      (auto simp: read_clock_eq same_attempt_def Let_def transition_def dest: attempt_moves split: sum.split)
  show "attempt_write d (snd (fail_attempt tenant project k fc c d))"
    unfolding fail_attempt_def
    by (rule update [where f = "\<lambda>r. r\<lparr>ta_status := ''FAILED'', ta_failure_class := Some fc, ta_checkpoint := c, ta_ended_at := Some ?now, ta_updated_at := ?now\<rparr>"
        and mk = "\<lambda>u. attempt_event ''TaskAttemptFailed'' tenant project u [(''failure_class'', JStr fc)]"])
      (auto simp: read_clock_eq same_attempt_def transition_def dest: attempt_moves split: sum.split)
qed

lemma new_attempt_simps [simp]:
  "ta_id (new_attempt t p rv cx retry i n now) = i" "ta_task (new_attempt t p rv cx retry i n now) = tk_id t"
  "ta_sequence (new_attempt t p rv cx retry i n now) = n" "ta_retry_of (new_attempt t p rv cx retry i n now) = retry"
  "ta_status (new_attempt t p rv cx retry i n now) = ''IN_PROGRESS''"
  by (simp_all add: new_attempt_def)

lemma attempts_for_task_set: "set (attempts_for_task tid d) = set (of_task tid d)"
  by (simp add: attempts_for_task_def of_task_def)

lemma retry_allowed_stored:
  assumes "attempt_ok d" and "retry_allowed (Some k) (attempts_for_task tid d)"
  shows "\<exists>p. dict_get (attempts d) k = Some p \<and> ta_task p = tid \<and> ta_status p = ''FAILED''"
proof -
  obtain p where "List.find (\<lambda>r. ta_id r = k) (attempts_for_task tid d) = Some p" "ta_status p = ''FAILED''"
    using assms(2) by (auto simp: retry_allowed_def split: option.splits)
  then have p: "p \<in> set (of_task tid d)" "ta_id p = k" "ta_status p = ''FAILED''"
    unfolding attempts_for_task_set [symmetric] by (auto simp: find_Some_iff)
  then have "p \<in> set (dict_values (attempts d))" "ta_task p = tid" by (simp_all add: of_task_def)
  then show ?thesis using keyed_in [OF attempt_okD(4) [OF assms(1)]] p by blast
qed

text \<open>\<open>create\<close> files the next attempt exactly when no attempt at the task is completed and the retry is of a failed one.\<close>

lemma create_cases:
  assumes ok: "attempt_ok d"
  obtains (refused) err where "create_attempt t p rv cx retry d = (Inl err, d)"
      "ep_task p \<noteq> tk_id t \<or> list_ex (\<lambda>x. ta_status x = ''COMPLETED'') (of_task (tk_id t) d) \<or> \<not> retry_allowed retry (attempts_for_task (tk_id t) d)"
      "list_ex (\<lambda>x. ta_status x = ''COMPLETED'') (of_task (tk_id t) d) \<Longrightarrow> ep_task p = tk_id t \<Longrightarrow> error_code err = ''ATTEMPT_COMPLETED''"
  | (filed) r d' where "create_attempt t p rv cx retry d = (Inr r, d')" "attempts d' = attempts d @ [(ta_id r, r)]"
      "ta_id r \<notin> set (dict_keys (attempts d))" "ta_task r = tk_id t" "ta_retry_of r = retry" "ta_status r = ''IN_PROGRESS''"
      "ta_sequence r = int (length (of_task (tk_id t) d)) + 1"
      "list_all (\<lambda>x. ta_status x \<noteq> ''COMPLETED'') (of_task (tk_id t) d)" "attempt_ok d'"
proof -
  let ?fin = "filter (\<lambda>r. ta_status r = ''COMPLETED'') (attempts_for_task (tk_id t) d)"
  have fin: "?fin = [] \<longleftrightarrow> list_all (\<lambda>x. ta_status x \<noteq> ''COMPLETED'') (of_task (tk_id t) d)"
    using attempts_for_task_set [of "tk_id t" d] by (auto simp: filter_empty_conv list_all_iff)
  consider "ep_task p \<noteq> tk_id t" | "ep_task p = tk_id t" "?fin \<noteq> []" | "ep_task p = tk_id t" "?fin = []" "\<not> retry_allowed retry (attempts_for_task (tk_id t) d)"
    | "ep_task p = tk_id t" "?fin = []" "retry_allowed retry (attempts_for_task (tk_id t) d)" by blast
  then show thesis
  proof cases
    case 1
    then show thesis by (intro refused) (auto simp: create_attempt_def)
  next
    case 2
    then obtain lead rest where l: "?fin = lead # rest" by (cases ?fin) auto
    then show thesis using 2 fin
      by (intro refused) (auto simp: create_attempt_def transact_def create_body_def list_all_iff list_ex_iff)
  next
    case 3
    then show thesis using fin by (intro refused) (auto simp: create_attempt_def transact_def create_body_def list_all_iff list_ex_iff)
  next
    case 4
    let ?now = "fst (clock_now (db_env d))" and ?e1 = "snd (clock_now (db_env d))"
    let ?i = "fst (uuid7 ?e1)" and ?e2 = "snd (uuid7 ?e1)"
    let ?n = "next_attempt_sequence (tk_id t) d"
    let ?r = "new_attempt t p rv cx retry ?i ?n ?now"
    let ?d1 = "d\<lparr>db_env := ?e1\<rparr>" and ?d2 = "d\<lparr>db_env := ?e2\<rparr>"
    have ok1: "attempt_ok ?d1" by (rule attempt_ok_env [OF ok]) simp
    have ok2: "attempt_ok ?d2" by (rule attempt_ok_env [OF ok]) simp
    have i: "?i \<notin> set (dict_keys (attempts d))" "?i \<in> drawn_ids ?e2"
      using attempt_rows.new_row [OF attempt_okD(1) [OF ok1]] by simp_all
    have n: "?n = int (length (of_task (tk_id t) d)) + 1" by (rule next_attempt_number [OF ok])
    note r = new_attempt_simps [of t p rv cx retry ?i ?n ?now]
    have of2: "of_task tid ?d2 = of_task tid d" for tid by (simp add: of_task_def)
    let ?d3 = "?d2\<lparr>attempts := attempts ?d2 @ [(?i, ?r)]\<rparr>"
    have ok3: "attempt_ok ?d3"
    proof (rule attempt_ok_new [OF ok2])
      show "case ta_retry_of ?r of None \<Rightarrow> True | Some k \<Rightarrow> \<exists>p. dict_get (attempts ?d2) k = Some p \<and> ta_task p = ta_task ?r \<and> ta_status p = ''FAILED''"
        using retry_allowed_stored [OF ok] 4(3) unfolding r by (auto split: option.split)
    qed (use i n in \<open>simp_all add: r of2\<close>)
    obtain ev s e where ap: "append_event (attempt_event ''TaskAttemptCreated'' (tk_tenant t) (tk_project t) ?r
          [(''sequence'', JInt ?n), (''execution_plan_id'', JStr (ep_id p))]) ?d3 = (Inr ev, ?d3\<lparr>db_log := s, db_env := e\<rparr>)"
        "table_ok attempts ta_id (?d3\<lparr>db_log := s, db_env := e\<rparr>)"
      by (rule attempt_rows.ok_event [OF attempt_okD(1) [OF ok3]])
    have "\<not> list_ex (\<lambda>x. ta_task x = tk_id t \<and> ta_sequence x = ?n) (dict_values (attempts d))"
      using numbered_bound [OF attempt_okD(2) [OF ok, of "tk_id t"]] n by (fastforce simp: list_ex_iff of_task_def)
    then have "create_attempt t p rv cx retry d = (Inr ?r, ?d3\<lparr>db_log := s, db_env := e\<rparr>)"
      using 4 i ap(1) by (simp add: create_attempt_def transact_def create_body_def read_clock_eq draw_id_eq insert_attempt_def
          and_then_def r table_insert_new dict_set_new)
    moreover have "attempt_ok (?d3\<lparr>db_log := s, db_env := e\<rparr>)" by (rule attempt_ok_same [OF ok3 ap(2)]) simp
    ultimately show thesis using r i n 4(2) fin by (intro filed [of ?r]) simp_all
  qed
qed

lemma create_writes:
  assumes ok: "attempt_ok d"
  shows "attempt_write d (snd (create_attempt t p rv cx retry d))"
  using ok
proof (cases rule: create_cases [of d t p rv cx retry])
  case (refused err)
  then show ?thesis using ok by (auto intro: attempt_write.Quiet)
next
  case (filed r d')
  then show ?thesis by (auto intro: attempt_write.Created)
qed

lemma attempt_step_writes: "attempt_ok d \<Longrightarrow> attempt_write d (attempt_step op d)"
  by (cases op) (simp_all add: create_writes update_writes)

interpretation attempt_service: service attempt_step attempt_ok "\<lambda>op. attempt_write"
  by unfold_locales (use attempt_step_writes attempt_write_ok in blast)+

section \<open>Properties\<close>

text \<open>A finished attempt is never written to again, and a completed one stops new ones.\<close>

lemma write_final:
  assumes w: "attempt_write d d'" and r: "dict_get (attempts d) k = Some r" "ta_status r \<noteq> ''IN_PROGRESS''"
  shows "dict_get (attempts d') k = Some r"
  using w by (cases rule: attempt_write.cases) (use r in \<open>auto simp: dict_get_set\<close>)

lemma write_of_task:
  assumes w: "attempt_write d d'" and ok: "attempt_ok d" and r: "dict_get (attempts d) k = Some r" "ta_status r = ''COMPLETED''"
  shows "map ta_id (of_task (ta_task r) d') = map ta_id (of_task (ta_task r) d)"
  using w
proof (cases rule: attempt_write.cases)
  case Quiet
  then show ?thesis by (simp add: of_task_def)
next
  case (Created x)
  have "r \<in> set (of_task (ta_task r) d)" using dict_get_value [OF r(1)] by (simp add: of_task_def)
  then have "ta_task x \<noteq> ta_task r" using Created(3) r(2) by (auto simp: list_all_iff)
  then show ?thesis using Created(1) by (simp add: of_task_def)
next
  case (Updated k' x x')
  show ?thesis
    unfolding of_task_def Updated(4)
    by (rule keyed_filter_same [OF attempt_okD(4) [OF ok] Updated(1)]) (use Updated(3) in \<open>simp_all add: same_attempt_def\<close>)
qed

text \<open>
  C27. Completed work is never run again. Once an attempt at a task is COMPLETED, no sequence of calls changes
  its row or adds another attempt at its task, and creating one is refused with ATTEMPT_COMPLETED.
\<close>

theorem completed_never_rerun:
  assumes ok: "attempt_ok d" and r: "dict_get (attempts d) k = Some r" "ta_status r = ''COMPLETED''"
    and t: "tk_id t = ta_task r" "ep_task p = tk_id t"
  shows "dict_get (attempts (attempt_run ops d)) k = Some r
    \<and> map ta_id (of_task (ta_task r) (attempt_run ops d)) = map ta_id (of_task (ta_task r) d)
    \<and> (\<exists>err. create_attempt t p rv cx retry (attempt_run ops d) = (Inl err, attempt_run ops d) \<and> error_code err = ''ATTEMPT_COMPLETED'')"
proof -
  let ?P = "\<lambda>d'. dict_get (attempts d') k = Some r \<and> map ta_id (of_task (ta_task r) d') = map ta_id (of_task (ta_task r) d)"
  let ?d = "attempt_run ops d"
  have run: "attempt_ok ?d \<and> ?P ?d"
    unfolding attempt_run_def
  proof (rule attempt_service.run_keeps [OF ok, of ?P])
    fix x y assume w: "attempt_write x y" "attempt_ok x" "?P x"
    then show "?P y" using write_final [OF w(1), of k r] write_of_task [OF w(1,2), of k r] r(2) by simp
  qed (use r in auto)
  have "r \<in> set (of_task (ta_task r) ?d)" using run dict_get_value [of "attempts ?d" k r] by (simp add: of_task_def)
  then have "list_ex (\<lambda>x. ta_status x = ''COMPLETED'') (of_task (ta_task r) ?d)" using r(2) by (auto simp: list_ex_iff)
  then have fin: "list_ex (\<lambda>x. ta_status x = ''COMPLETED'') (of_task (tk_id t) ?d)" using t(1) by simp
  have "\<exists>err. create_attempt t p rv cx retry ?d = (Inl err, ?d) \<and> error_code err = ''ATTEMPT_COMPLETED''"
    using conjunct1 [OF run]
  proof (cases rule: create_cases [of ?d t p rv cx retry])
    case (refused err)
    then show ?thesis using fin t(2) by blast
  next
    case (filed r d')
    then show ?thesis using fin by (auto simp: list_all_iff list_ex_iff)
  qed
  with run show ?thesis by blast
qed

definition empty_attempts :: "env \<Rightarrow> attempt_db" where
  "empty_attempts e = \<lparr>db_log = empty_event_store, db_env = e, attempts = []\<rparr>"

lemma empty_attempts_ok: "inj (ids e) \<Longrightarrow> attempt_ok (empty_attempts e)"
  by (simp add: empty_attempts_def attempt_ok_def table_ok_def log_ok_def db_ok_def gapless_def outbox_ok_def commands_ok_def
      of_task_def numbered_def empty_event_store_def aggregate_events_def)

text \<open>A task with one completed attempt.\<close>

definition sample_plan :: execution_plan where
  "sample_plan = \<lparr>ep_id = ''p'', ep_tenant = ''T'', ep_project = ''P'', ep_mission = ''m'', ep_task = ''ii'',
     ep_route_decision = ''r'', ep_context_package = ''c'', ep_worker_profile = ''w'', ep_environment = ''e'',
     ep_workspace_policy = [], ep_capability_requirements = [], ep_enforcement_tier = ''t'', ep_autonomy_level = 2,
     ep_resource_budget = [], ep_time_budget = [], ep_token_budget = [], ep_network_policy = [], ep_filesystem_policy = [],
     ep_verification_plan = None, ep_acceptance_oracle = None, ep_write_scope_lease = None, ep_checkpoint_policy = [],
     ep_retry_policy = [], ep_escalation_policy = [], ep_plan_hash = ''h'', ep_status = ''APPROVED'', ep_approved_at = None,
     ep_started_at = None, ep_ended_at = None, ep_created_at = 1, ep_updated_at = 1\<rparr>"

definition finished_attempt :: task_attempt where
  "finished_attempt = (new_attempt (sample_task ''ii'' ''READY'') sample_plan ''rev'' ''ctx'' None ''i'' 1 3)\<lparr>ta_status := ''COMPLETED''\<rparr>"

definition finished_db :: attempt_db where
  "finished_db = (empty_attempts sample_env)\<lparr>attempts := [(''i'', finished_attempt)]\<rparr>"

lemma finished_attempt_simps [simp]:
  "ta_id finished_attempt = ''i''" "ta_task finished_attempt = ''ii''" "ta_status finished_attempt = ''COMPLETED''"
  "ta_sequence finished_attempt = 1" "ta_retry_of finished_attempt = None" "tk_id (sample_task k st) = k"
  by (simp_all add: finished_attempt_def new_attempt_def sample_task_def)

lemma finished_db_ok: "attempt_ok finished_db"
proof -
  have "''i'' \<in> drawn_ids sample_env" by (auto simp: drawn_ids_def sample_env_def image_iff intro: bexI [of _ 1])
  then have "attempt_ok ((empty_attempts sample_env)\<lparr>attempts := attempts (empty_attempts sample_env) @ [(''i'', finished_attempt)]\<rparr>)"
    by (intro attempt_ok_new [OF empty_attempts_ok [OF sample_env_inj]]) (simp_all add: empty_attempts_def of_task_def)
  then show ?thesis by (simp add: finished_db_def empty_attempts_def)
qed

theorem completed_never_rerun_witness:
  "map ta_id (of_task ''ii'' (attempt_run [Create (sample_task ''ii'' ''READY'') sample_plan ''rev2'' ''ctx'' None,
      FailAttempt ''T'' ''P'' ''i'' ''WORKER_FAILURE'' None] finished_db)) = [''i'']"
  using completed_never_rerun [OF finished_db_ok, of "''i''" finished_attempt "sample_task ''ii'' ''READY''" sample_plan
      "[Create (sample_task ''ii'' ''READY'') sample_plan ''rev2'' ''ctx'' None, FailAttempt ''T'' ''P'' ''i'' ''WORKER_FAILURE'' None]"]
  by (simp add: finished_db_def sample_plan_def of_task_def)

text \<open>
  In every state the calls can reach from an empty table, the attempts at a task are numbered 1, 2, 3, ...
  in the order they were made, and a retry names an earlier attempt at the same task that failed.
\<close>

theorem attempts_numbered:
  assumes "inj (ids e)"
  shows "map ta_sequence (of_task tid (attempt_run ops (empty_attempts e))) = map int [1..<Suc (length (of_task tid (attempt_run ops (empty_attempts e))))]
    \<and> (\<forall>r \<in> set (of_task tid (attempt_run ops (empty_attempts e))). retry_ok (attempt_run ops (empty_attempts e)) r)"
proof -
  have "attempt_ok (attempt_run ops (empty_attempts e))"
    unfolding attempt_run_def by (rule attempt_service.run_ok [OF empty_attempts_ok [OF assms]])
  from attempt_okD(2,3) [OF this] show ?thesis unfolding numbered_def [symmetric] by (simp add: of_task_def)
qed

theorem attempts_numbered_witness:
  "list_all (retry_ok (attempt_run [Create (sample_task ''ii'' ''READY'') sample_plan ''rev'' ''ctx'' None] (empty_attempts sample_env)))
    (of_task ''ii'' (attempt_run [Create (sample_task ''ii'' ''READY'') sample_plan ''rev'' ''ctx'' None] (empty_attempts sample_env)))"
  using attempts_numbered [OF sample_env_inj] by (simp add: list_all_iff)

end
