(* ===== verification/Spec2Isabelle.thy ===== *)
theory Spec2Isabelle
  imports Prelude Hashing Lifecycle Events AuditLedger Truth Missions Graphs Recovery Templates Planner Services Governance Effects Capabilities Leases Broker Gates WriteScopes Attempts
begin

text \<open>
  Verification of the control plane of DDE (\<open>src/engine\<close>), the part of the repository that decides what may be
  done and records what was done. It plans a mission into a graph of tasks, moves missions, graphs, tasks and
  attempts through their states, journals every effect on the outside world, asks humans for approval, hands out
  capabilities under leases and credentials under these, and keeps an event log, a command ledger and an audit chain from which all of this
  can be read back. The model is a translation of the Python source: a function per operation, with the guards,
  the early returns and the order of the writes that the code has.

  \<^bold>\<open>The parts and how they meet.\<close> The mission kernel and the planner work on one in-memory store and append an
  event per change. The PostgreSQL services (truth, audit, attempts, governance, effects, capabilities, leases, credentials)
  write their own tables, the event log with its outbox and the command ledger in one transaction. Governance
  is asked by the effect journal before an irreversible effect is filed; the recovery matrix says when a mission
  is replanned; the lease service reads the capability catalogue, uses the command ledger for its stop record,
  journals the processes it terminates through the effect service, and is asked by the credential broker, which
  admits a call only under an active lease of a run that is not stopped. This theory holds the properties that
  span parts; the others stand in the theory of their part.

  \<^bold>\<open>Theories and sources.\<close>
  \<^item> \<^theory_text>\<open>Prelude\<close>: the reading of Python values, dictionaries, errors as sums, the draws from \<open>core/ids.py\<close>
    and \<open>core/clock.py\<close> (\<open>env\<close>, \<open>uuid7\<close>, \<open>clock_now\<close>), and the lemmas on lists and dictionaries that the parts share.
  \<^item> \<^theory_text>\<open>Hashing\<close>: \<open>core/hashing.py\<close>, SHA-256 and canonical JSON, executable.
  \<^item> \<^theory_text>\<open>Lifecycle\<close>: \<open>core/state_machine.py\<close> and the transition tables of every \<open>states.py\<close>; the locale of
    lifecycle tables, interpreted on each of them.
  \<^item> \<^theory_text>\<open>Events\<close>: \<open>events/engine.py\<close>, \<open>events/service.py\<close>, \<open>events/idempotency.py\<close>: appending, the outbox, dispatch,
    the command ledger.
  \<^item> \<^theory_text>\<open>AuditLedger\<close>: \<open>audit/ledger.py\<close>, \<open>audit/service.py\<close>. \<^theory_text>\<open>Truth\<close>: \<open>truth/engine.py\<close>, \<open>truth/service.py\<close>.
  \<^item> \<^theory_text>\<open>Missions\<close>: \<open>missions/kernel.py\<close>. \<^theory_text>\<open>Graphs\<close>: \<open>planning/hashing.py\<close>, \<open>planning/validate.py\<close>.
    \<^theory_text>\<open>Recovery\<close>: \<open>recovery/matrix.py\<close>. \<^theory_text>\<open>Templates\<close>: \<open>planning/templates.py\<close>. \<^theory_text>\<open>Planner\<close>: \<open>planning/planner.py\<close>.
  \<^item> \<^theory_text>\<open>Services\<close>: what the PostgreSQL services share: the unit of work of \<open>truth/db.py\<close> (\<open>transact\<close>), the log and
    ledger every table stands beside, the locale of a table of rows (\<open>row_table\<close>) and that of a service driven
    by calls (\<open>service\<close>), each interpreted by the services.
  \<^item> \<^theory_text>\<open>Governance\<close>: \<open>governance/service.py\<close>. \<^theory_text>\<open>Effects\<close>: \<open>recovery/service.py\<close> with its resolvers.
    \<^theory_text>\<open>Attempts\<close>: \<open>missions/attempts.py\<close>. \<^theory_text>\<open>Capabilities\<close>: \<open>capabilities/service.py\<close>, \<open>capabilities/seed.py\<close>.
    \<^theory_text>\<open>Leases\<close>: \<open>capabilities/lease_service.py\<close>, \<open>kill_switch.py\<close>, \<open>process_registry.py\<close>.
    \<^theory_text>\<open>Broker\<close>: \<open>capabilities/broker/service.py\<close> with its repository and provider.
  \<^item> \<^theory_text>\<open>Gates\<close>: \<open>integration/gates.py\<close>, the scanners every diff passes before it is merged.
    \<^theory_text>\<open>WriteScopes\<close>: \<open>integration/scope.py\<close> and the lease service of \<open>integration/service.py\<close>.

  \<^bold>\<open>State and operations.\<close> A contract class is a record with the fields in the order of the class; a status is
  the string the code uses. A store is a dictionary from identifier to row, in insertion order, as Python and
  the \<open>ORDER BY\<close> clauses read it. An operation takes the state last and returns the new state beside a result
  that is \<open>Inl\<close> of the exception or \<open>Inr\<close> of the value; for an in-memory part what was written before a raise
  stays, for a service \<open>transact\<close> rolls it back, for the lease service \<open>settle\<close> commits it, as its \<open>_run\<close>
  does, and for the broker \<open>unit_of_work\<close> rolls it back but for the refusal that is raised after a commit. The databases extend one another as records (log, governance, effects, catalogue, leases, credentials), so that an
  operation of one part is, unchanged, an operation on the state of every part that is built on it.

  \<^bold>\<open>What the lemmas show.\<close> Each theory proves, in this order: the well-formedness of its state and that every
  operation keeps it; what an operation does on each branch; and from these the properties, numbered C1 to C40
  in their texts. Operations are gathered in a datatype of calls, and the properties of runs quantify over every
  list of calls (for the kernel and the planner, over every state reachable by an inductive step relation), with
  failed calls included. Two writers of the same data, one in memory and one over PostgreSQL, are proved to
  agree (\<open>append_writers_agree\<close>, \<open>truth_writers_agree\<close>). A property with a hypothesis is followed by a witness, an application of it to a concrete
  state. \<open>two_global_versions_active\<close> in \<^theory_text>\<open>Capabilities\<close> shows why a hypothesis of C7 is there: it exhibits the
  run of calls that leaves two active versions of a capability behind.

  \<^bold>\<open>Bounds and termination.\<close> Every loop of the source that is modelled is a structural recursion over the list it
  consumes, except Kahn's algorithm and the breadth-first search of \<^theory_text>\<open>Graphs\<close>. These are functions with a
  measure: the length of the queue with the number of open counts, and the nodes not yet visited before the
  length of the queue. Both end on every graph, cyclic ones included. The one bound is that of \<open>chunks\<close> in
  \<^theory_text>\<open>Hashing\<close>, which cuts the padded message into blocks: it is the number of bytes, and every block takes some.
  32-bit words of SHA-256 are integers reduced modulo \<open>2 ^ 32\<close>; Python's integers, and so counts and times, are
  unbounded.

  \<^bold>\<open>Parameters.\<close> What the code does not compute is an argument. Identifiers are a sequence, assumed injective where
  freshness matters; clock readings are a sequence, about which nothing is assumed; secrets are a sequence too; the decoders of TOML and JSON are functions; the answers of the file
  system, of git and of the operating system are functions. SHA-256 is the computed function, and the one
  property that needs more of it, the tamper evidence of the audit chain, names the collision it would take.

  \<^bold>\<open>Conventions that differ from Python.\<close> A string holds code points up to U+00FF; a UUID is its canonical text; a
  time is its count of microseconds, also in JSON; a float (only the ceilings of standing approvals and
  timestamps of processes) is a rational. Transactions run one after the other. The tables of a service are
  those of one tenant and project, which is what row-level security shows a session; only the capability
  catalogue holds the rows of all tenants and has its policy modelled. Foreign keys and column types of the
  database are not modelled, its primary and unique keys are.

  \<^bold>\<open>Not modelled.\<close> Of the modelled parts: the budget-increase workflow and the configuration store of governance;
  the capture of static secrets beside the broker; the Redis publisher; read-only listings that return rows as they are. Whole parts: the
  PostgreSQL copies of the kernel and the planner (\<open>missions/service.py\<close>, \<open>planning/service.py\<close>), the recovery
  dispatcher, checkpoints and replay, the integration queue, worker supervision, verification
  runs and oracles; they carry out, through subprocesses, git and containers, what the modelled parts decide.
  The studio, chat, fabric, gateway, context compiler, routing, learning and knowledge platform are presentation,
  protocol adapters, prompts and statistics over floats and external models. Telemetry, disaster recovery, object
  store, tenancy set-up, adapters, scripts and migrations are input and output.
\<close>

section \<open>The kernel, the planner and the event store together\<close>

text \<open>
  C1. However the mission kernel and the planner are called, one call after the other, starting from an
  empty store: the status of every mission is what its events replay to and its lock version is their
  number, the events of every aggregate are numbered 1, 2, 3, ... without a gap, and every event has an
  outbox row that carries it.
\<close>

theorem control_plane_sourced:
  assumes "inj (ids e)" and "planner_reach (empty_world e) w"
  shows "(\<forall>m \<in> set (dict_values (missions w)). replay_mission (mission_events w (mi_id m)) = Some (mi_status m)
        \<and> mi_lock_version m = int (length (mission_events w (mi_id m))))
    \<and> (\<forall>key. map ev_sequence (aggregate_events key (es_events (world.log w)))
        = map int [1..<Suc (length (aggregate_events key (es_events (world.log w))))])
    \<and> (\<forall>x \<in> set (es_events (world.log w)). \<exists>row \<in> set (dict_values (es_outbox (world.log w))). event_validate (ob_payload row) = Some x)"
proof -
  have ok: "planner_ok w"
    by (rule planner_reach_ok [OF assms(2)]) (use empty_world_ok [OF assms(1)] in \<open>simp add: planner_ok_def refs_ok_def empty_world_def\<close>)
  then have w: "world_ok w" by (simp add: planner_ok_def)
  have log: "gapless (es_events (world.log w))" "outbox_ok (world.log w)" using world_okD(8) [OF w] by (simp_all add: event_store_ok_def)
  have "\<exists>row \<in> set (dict_values (es_outbox (world.log w))). event_validate (ob_payload row) = Some x" if "x \<in> set (es_events (world.log w))" for x
    using log(2) that event_validate_dump [of x] unfolding outbox_ok_def by metis
  with log(1) world_okD(9) [OF w] show ?thesis by (simp add: gapless_def mission_sourced_def)
qed

lemma started_reach: "planner_reach (empty_world sample_env) started_world"
  unfolding started_world_def
  by (rule planner_reach.step [OF planner_reach.step [OF planner_reach.init planner_step.kernel [OF kernel_step.commit]]
      planner_step.kernel [OF kernel_step.start]])

theorem control_plane_sourced_witness:
  "replay_mission (mission_events started_world sample_mid) = Some ''ACTIVE'' \<and> length (mission_events started_world sample_mid) = 2"
  using control_plane_sourced [OF sample_env_inj started_reach]
  by (simp add: started_world_eval sample_mission_def)



section \<open>Approvals and effects together\<close>

text \<open>
  The journal of effects and the governance service on one database: one call of either after the other.
\<close>

datatype control_op = Governed governance_op | Journaled effect_op

fun control_step :: "control_op \<Rightarrow> effect_db \<Rightarrow> effect_db" where
  "control_step (Governed g) d = governance_step g d"
| "control_step (Journaled e) d = effect_step e d"

definition control_run :: "control_op list \<Rightarrow> effect_db \<Rightarrow> effect_db" where
  "control_run ops d = service_run control_step ops d"

definition control_ok :: "effect_db \<Rightarrow> bool" where
  "control_ok d \<longleftrightarrow> gov_ok d \<and> effect_ok d"

fun control_write :: "control_op \<Rightarrow> effect_db \<Rightarrow> effect_db \<Rightarrow> bool" where
  "control_write (Governed g) d d' \<longleftrightarrow> gov_le (approvable g) (asked g) d d'"
| "control_write (Journaled e) d d' \<longleftrightarrow> effect_write (released e) d d'"

lemma governed_effect_ok:
  assumes le: "gov_le A N d d'" and ok: "effect_ok d"
  shows "effect_ok d'" and "effects d' = effects d"
proof -
  have grow: "log_ok d'" "env_le (db_env d) (db_env d')" "ledger_le (db_log d) (db_log d')"
    using gov_leD(2) [OF le] by (simp_all add: grows_def)
  show eff: "effects d' = effects d" using gov_leD(3) [OF le] by (cases d; cases d'; simp)
  have "table_ok effects xe_id d'"
    using effect_okD(1-3) [OF ok] grow order_trans [OF effect_okD(3) [OF ok] env_le_drawn [OF grow(2)]] by (simp add: table_ok_def eff)
  then show "effect_ok d'"
    using effect_okD(4) [OF ok] journaled_le [OF _ grow(3)] by (simp add: effect_ok_def eff)
qed

lemma journaled_gov_ok:
  assumes w: "effect_write R d d'" and ok: "gov_ok d"
  shows "gov_ok d'"
proof -
  have d': "effect_ok d'" "journal_frame d d'" using effect_write_ok [OF w] by blast+
  then have "set (dict_keys t) \<subseteq> drawn_ids (db_env d')" if "set (dict_keys t) \<subseteq> drawn_ids (db_env d)" for t :: "(uuid, 'r) dict"
    using order_trans [OF that env_le_drawn] by (simp add: journal_frame_def)
  note drawn = this
  show ?thesis
    using gov_okD [OF ok] d'(2) effect_okD(1) [OF d'(1)]
    by (intro gov_okI) (simp_all add: journal_frame_def table_ok_def drawn del: set_map)
qed

interpretation control_service: service control_step control_ok control_write
proof
  fix d op d'
  show "(control_write op)\<^sup>*\<^sup>* d (control_step op d)" if "control_ok d"
  proof (cases op)
    case (Governed g)
    have "control_write op = gov_le (approvable g) (asked g)" by (intro ext) (simp add: Governed)
    then show ?thesis using governance_step_le [of d g] that by (simp add: Governed control_ok_def r_into_rtranclp)
  next
    case (Journaled e)
    have "control_write op = effect_write (released e)" by (intro ext) (simp add: Journaled)
    then show ?thesis using effect_step_writes [of d e] that by (simp add: Journaled control_ok_def)
  qed
  show "control_ok d'" if "control_write op d d'" "control_ok d"
  proof (cases op)
    case (Governed g)
    then have "gov_le (approvable g) (asked g) d d'" using that(1) by simp
    then show ?thesis using governed_effect_ok(1) gov_leD(1) that(2) by (auto simp: control_ok_def)
  next
    case (Journaled e)
    then have w: "effect_write (released e) d d'" using that(1) by simp
    show ?thesis using effect_write_ok [OF w] journaled_gov_ok [OF w] that(2) by (simp add: control_ok_def)
  qed
qed

text \<open>
  What a person said: a decision that approves the named approval. And what binds a scope hash to the class of
  approval it was computed for: \<open>approval_scope_hash\<close> hashes the class, so without a collision a scope hash
  is used with one class only, \<open>ty\<close>.
\<close>

fun names_approval :: "uuid \<Rightarrow> control_op \<Rightarrow> bool" where
  "names_approval k (Governed (Decide c k' h)) \<longleftrightarrow> dc_decision c = ''APPROVED'' \<and> k' = k"
| "names_approval k (Governed (BatchDecide c ks hs key)) \<longleftrightarrow> dc_decision c = ''APPROVED'' \<and> k \<in> set ks"
| "names_approval k op \<longleftrightarrow> False"

fun honours :: "(string \<Rightarrow> string) \<Rightarrow> control_op \<Rightarrow> bool" where
  "honours ty (Governed (Request q)) \<longleftrightarrow> ty (rq_scope_hash q) = rq_type q"
| "honours ty (Governed (AuthorizeStanding u)) \<longleftrightarrow> ty (su_scope_hash u) = su_type u"
| "honours ty op \<longleftrightarrow> True"

definition human_decided :: "control_op list \<Rightarrow> approval \<Rightarrow> bool" where
  "human_decided ops a \<longleftrightarrow> ap_type a = ''irreversible_effect'' \<and> \<not> is_open a \<and> ap_decided_by a \<noteq> None
     \<and> list_ex (names_approval (ap_id a)) ops"

definition human_backed :: "control_op list \<Rightarrow> effect_db \<Rightarrow> external_effect \<Rightarrow> bool" where
  "human_backed ops d e \<longleftrightarrow> (xe_class e = ''IRREVERSIBLE'' \<longrightarrow> list_ex (human_decided ops) (dict_values (approvals d)))"

definition empty_control :: "env \<Rightarrow> effect_db" where
  "empty_control e = \<lparr>db_log = empty_event_store, db_env = e, approvals = [], standings = [], attentions = [], audits = [], effects = []\<rparr>"

lemma empty_control_ok: "inj (ids e) \<Longrightarrow> control_ok (empty_control e)"
proof -
  assume "inj (ids e)"
  then have "log_ok (empty_control e)"
    by (intro log_okI) (simp_all add: empty_control_def empty_event_store_def db_ok_def gapless_def aggregate_events_def outbox_ok_def commands_ok_def)
  then show ?thesis by (simp add: control_ok_def gov_ok_def effect_ok_def table_ok_def empty_control_def)
qed

text \<open>The invariant: approvals of the class are turned APPROVED by name only, and an IRREVERSIBLE row has one that was.\<close>

definition irreversible_ok :: "(string \<Rightarrow> string) \<Rightarrow> control_op list \<Rightarrow> effect_db \<Rightarrow> bool" where
  "irreversible_ok ty ops d \<longleftrightarrow>
    (\<forall>k a. dict_get (approvals d) k = Some a \<longrightarrow> ty (ap_scope_hash a) = ap_type a
      \<and> (ap_type a = ''irreversible_effect'' \<longrightarrow> ap_status a = ''APPROVED'' \<longrightarrow> list_ex (names_approval (ap_id a)) ops))
    \<and> (\<forall>x \<in> set (dict_values (effects d)). xe_class x = ''IRREVERSIBLE'' \<longrightarrow> (\<exists>k a. dict_get (approvals d) k = Some a
      \<and> human_decided ops a))"

lemma approvable_irreversible:
  assumes "approvable g a" and "Governed g \<in> set ops" and "honours ty (Governed g)" and "ty (ap_scope_hash a) = ap_type a"
    and "ap_type a = ''irreversible_effect''"
  shows "list_ex (names_approval (ap_id a)) ops"
proof -
  have "names_approval (ap_id a) (Governed g)"
    using assms(1,3-5) by (cases g) (auto simp: STANDING_FORBIDDEN_TYPES_def)
  then show ?thesis using assms(2) by (auto simp: list_ex_iff)
qed

lemma governed_irreversible_ok:
  assumes le: "gov_le (approvable g) (asked g) d d'" and g: "Governed g \<in> set ops" "honours ty (Governed g)"
    and P: "irreversible_ok ty ops d" and ok: "effect_ok d"
  shows "irreversible_ok ty ops d'"
proof -
  note al = gov_leD(4) [OF le]
  have old: "\<exists>b. dict_get (approvals d') k = Some b \<and> approval_le a b" if "dict_get (approvals d) k = Some a" for k a
    using approvals_leD(1) [OF al that] .
  have ty: "ty (ap_scope_hash b) = ap_type b" if b: "dict_get (approvals d') k = Some b" for k b
  proof -
    consider "asked g (request_part b)" | a where "dict_get (approvals d) k = Some a" using approvals_leD(3) [OF al b] by blast
    then show ?thesis
    proof cases
      case 1
      then show ?thesis using g(2) by (cases g) auto
    next
      case (2 a)
      then have "request_part b = request_part a" using old [OF 2] b by (auto simp: approval_le_def)
      then show ?thesis using P 2 request_part_fields(2,3) [of b a] by (simp add: irreversible_ok_def)
    qed
  qed
  have named: "list_ex (names_approval (ap_id b)) ops"
    if b: "dict_get (approvals d') k = Some b" "ap_type b = ''irreversible_effect''" "ap_status b = ''APPROVED''" for k b
  proof -
    consider "approvable g (request_part b)" | a where "dict_get (approvals d) k = Some a" "ap_status a = ''APPROVED''"
      using approvals_leD(2) [OF al b(1,3)] by blast
    then show ?thesis
    proof cases
      case 1
      then show ?thesis using approvable_irreversible [OF _ g ty [OF b(1)] b(2)] by (simp add: approvable_part)
    next
      case (2 a)
      then have "request_part b = request_part a" using old [OF 2(1)] b(1) by (auto simp: approval_le_def)
      then show ?thesis using P 2 b(2) request_part_fields [of b a] by (simp add: irreversible_ok_def)
    qed
  qed
  have "\<exists>k a. dict_get (approvals d') k = Some a \<and> human_decided ops a"
    if x: "x \<in> set (dict_values (effects d'))" "xe_class x = ''IRREVERSIBLE''" for x
  proof -
    obtain k a where a: "dict_get (approvals d) k = Some a" "human_decided ops a"
      using P x governed_effect_ok(2) [OF le ok] unfolding irreversible_ok_def by metis
    obtain b where b: "dict_get (approvals d') k = Some b" "approval_le a b" using old [OF a(1)] by blast
    have "request_part b = request_part a" "decision_part b = decision_part a" "\<not> is_open b"
      using b(2) a(2) by (simp_all add: approval_le_def human_decided_def)
    then have "human_decided ops b" using a(2) request_part_fields [of b a] by (auto simp: human_decided_def decision_part_def)
    then show ?thesis using b(1) by blast
  qed
  with ty named show ?thesis unfolding irreversible_ok_def by blast
qed

lemma journaled_irreversible_ok:
  assumes w: "effect_write R d d'" and P: "irreversible_ok ty ops d" and ok: "control_ok d"
  shows "irreversible_ok ty ops d'"
proof -
  let ?S = "\<lambda>x. xe_class x = ''IRREVERSIBLE'' \<longrightarrow> (\<exists>k a. dict_get (approvals d) k = Some a \<and> human_decided ops a)"
  have same: "approvals d' = approvals d" using effect_write_ok [OF w] by (simp add: journal_frame_def)
  have old: "?S x" if "x \<in> set (dict_values (effects d))" for x
    using P that unfolding irreversible_ok_def by blast
  have "?S x" if x: "x \<in> set (dict_values (effects d'))" for x
    using w
  proof (cases rule: effect_write.cases)
    case Quiet
    then show ?thesis using old x by simp
  next
    case (Filed e)
    show ?thesis
    proof (cases "x = e")
      case True
      show ?thesis
      proof
        assume "xe_class x = ''IRREVERSIBLE''"
        then obtain a where a: "a \<in> set (dict_values (approvals d))" "ap_type a = ''irreversible_effect''" "ap_status a = ''APPROVED''"
          using Filed(8) True by (auto simp: list_ex_iff)
        have gok: "gov_ok d" using ok by (simp add: control_ok_def)
        have get: "dict_get (approvals d) (ap_id a) = Some a" by (rule keyed_in [OF table_okD(2) [OF gov_okD(1) [OF gok]] a(1)])
        have "approval_ok (audits d) a" by (rule gov_okD(6) [OF gok a(1)])
        then have "\<not> is_open a" "ap_decided_by a \<noteq> None" using a(3)
          by (auto simp: approval_ok_def is_open_def OPEN_APPROVAL_STATUSES_def)
        then have "human_decided ops a" using get a P unfolding irreversible_ok_def human_decided_def by blast
        with get show "\<exists>k a. dict_get (approvals d) k = Some a \<and> human_decided ops a" by blast
      qed
    next
      case False
      then show ?thesis using old x Filed(1) by auto
    qed
  next
    case (Moved k e e')
    show ?thesis
    proof (cases "x = e'")
      case True
      then show ?thesis using old [OF dict_get_value [OF Moved(1)]] Moved(2) by (simp add: same_core_def)
    next
      case False
      then show ?thesis using old x dict_values_set_subset [of k e' "effects d"] unfolding Moved(3) by blast
    qed
  qed
  with P show ?thesis unfolding irreversible_ok_def same by blast
qed


text \<open>One effect, asked for, approved and filed.\<close>

definition push_request :: approval_request where
  "push_request = governance_request\<lparr>rq_type := ''irreversible_effect'', rq_scope_hash := ''push''\<rparr>"

definition push_ops :: "control_op list" where
  "push_ops = [Governed (Request push_request), Governed (Decide sample_verdict ''iii'' ''push''),
     Journaled (Prepare (open_request\<lparr>pa_class := ''IRREVERSIBLE'', pa_approval := Some ''push''\<rparr>))]"


end
